(* ===== verification/Prelude.thy ===== *)
theory Prelude
  imports Main "HOL-Library.Char_ord" "HOL-Library.Sublist" "HOL-Library.Code_Target_Nat"
begin

text \<open>
  Shared ground of the development: the collections of simplification rules the
  component theories fill, the type of Rust results, and the generic lemmas on
  lists and options that the component proofs use.

  Conventions. A byte (\<open>u8\<close>) is a HOL \<open>char\<close>, which has exactly 256 values; a
  byte slice, a \<open>Vec<u8>\<close>, a \<open>&str\<close> and a \<open>String\<close> are a \<open>string\<close>
  (for the latter two the bytes of their UTF-8 form, as in Rust). A \<open>usize\<close>,
  \<open>u64\<close> or \<open>u16\<close> value is a \<open>nat\<close>; the places where the code can
  leave the range of the type (\<open>checked_add\<close>, \<open>parse\<close>, subtraction) carry the
  bound explicitly. The target is 64-bit.
\<close>

named_theorems std_simps \<open>defining equations of the modelled standard library\<close>
named_theorems class_defs \<open>definitions of the character classes\<close>
named_theorems result_iff \<open>when a computation returns Ok\<close>

section \<open>Results\<close>

text \<open>
  \<open>Result<T, E>\<close>, with a third outcome for a Rust panic (an \<open>unwrap\<close> of
  \<open>None\<close>, an index out of range, an arithmetic overflow), so that the absence of
  panics is a statement about the model.
\<close>

datatype ('a, 'e) result = Ok 'a | Err 'e | Panic

text \<open>The \<open>?\<close> operator.\<close>

definition and_then :: "('a, 'e) result \<Rightarrow> ('a \<Rightarrow> ('b, 'e) result) \<Rightarrow> ('b, 'e) result" where
  "and_then r f = (case r of Ok x \<Rightarrow> f x | Err e \<Rightarrow> Err e | Panic \<Rightarrow> Panic)"

lemma and_then_simps [simp]:
  "and_then (Ok x) f = f x"
  "and_then (Err e) f = Err e"
  "and_then Panic f = Panic"
  by (simp_all add: and_then_def)

text \<open>Early return: continue with \<open>k\<close> unless the guard fires.\<close>

definition reject_if :: "bool \<Rightarrow> 'e \<Rightarrow> ('a, 'e) result \<Rightarrow> ('a, 'e) result" where
  "reject_if b e k = (if b then Err e else k)"

lemma reject_if_simps [simp]:
  "reject_if True e k = Err e"
  "reject_if False e k = k"
  by (simp_all add: reject_if_def)

definition is_ok :: "('a, 'e) result \<Rightarrow> bool" where
  "is_ok r = (case r of Ok _ \<Rightarrow> True | _ \<Rightarrow> False)"

lemma is_ok_simps [simp]: "is_ok (Ok x)" "\<not> is_ok (Err e)" "\<not> is_ok Panic"
  by (simp_all add: is_ok_def)

lemma case_not_None:
  assumes "x = (case y of (q, s) \<Rightarrow> (q, f s))" "fst y \<noteq> Ok None"
  shows "x = (case y of (Ok None, s) \<Rightarrow> g s | (q, s) \<Rightarrow> (q, f s))"
  using assms by (cases y) (auto split: result.splits option.splits)

lemma is_ok_iff: "is_ok r \<longleftrightarrow> (\<exists>x. r = Ok x)"
  by (cases r) simp_all

definition ok_or :: "'a option \<Rightarrow> 'e \<Rightarrow> ('a, 'e) result" where
  "ok_or x e = (case x of None \<Rightarrow> Err e | Some v \<Rightarrow> Ok v)"

lemma ok_or_simps [simp]: "ok_or None e = Err e" "ok_or (Some v) e = Ok v"
  by (simp_all add: ok_or_def)

text \<open>\<open>map_err\<close>.\<close>

definition map_err :: "('e \<Rightarrow> 'f) \<Rightarrow> ('a, 'e) result \<Rightarrow> ('a, 'f) result" where
  "map_err g r = (case r of Ok x \<Rightarrow> Ok x | Err e \<Rightarrow> Err (g e) | Panic \<Rightarrow> Panic)"

lemma map_err_simps [simp]:
  "map_err g (Ok x) = Ok x" "map_err g (Err e) = Err (g e)" "map_err g Panic = Panic"
  by (simp_all add: map_err_def)

lemma and_then_Ok_iff [result_iff]: "and_then r f = Ok y \<longleftrightarrow> (\<exists>x. r = Ok x \<and> f x = Ok y)"
  by (cases r) simp_all

lemma reject_if_Ok_iff [result_iff]: "reject_if b e k = Ok y \<longleftrightarrow> \<not> b \<and> k = Ok y"
  by (simp add: reject_if_def)

lemma ok_or_Ok_iff [result_iff]: "ok_or x e = Ok v \<longleftrightarrow> x = Some v"
  by (cases x) simp_all

lemma map_err_Ok_iff [result_iff]: "map_err g r = Ok v \<longleftrightarrow> r = Ok v"
  by (cases r) simp_all

lemma and_then_Panic_iff: "and_then r f = Panic \<longleftrightarrow> r = Panic \<or> (\<exists>x. r = Ok x \<and> f x = Panic)"
  by (cases r) simp_all

lemma reject_if_Panic_iff: "reject_if b e k = Panic \<longleftrightarrow> \<not> b \<and> k = Panic"
  by (simp add: reject_if_def)

lemma ok_or_not_Panic [simp]: "ok_or x e \<noteq> Panic"
  by (cases x) simp_all

lemma map_err_Panic_iff [simp]: "map_err g r = Panic \<longleftrightarrow> r = Panic"
  by (cases r) simp_all

lemmas panic_iff = and_then_Panic_iff reject_if_Panic_iff

section \<open>Searching lists\<close>

text \<open>\<open>Iterator::position\<close>: the index of the first element that satisfies \<open>p\<close>.\<close>

primrec position :: "('a \<Rightarrow> bool) \<Rightarrow> 'a list \<Rightarrow> nat option" where
  "position p [] = None"
| "position p (x # xs) = (if p x then Some 0 else map_option Suc (position p xs))"

lemma position_None_iff: "position p xs = None \<longleftrightarrow> (\<forall>x \<in> set xs. \<not> p x)"
  by (induction xs) auto

lemma position_SomeD:
  "position p xs = Some i \<Longrightarrow> i < length xs \<and> p (xs ! i) \<and> (\<forall>x \<in> set (take i xs). \<not> p x)"
  by (induction xs arbitrary: i) (auto split: if_splits)

lemma position_mid: "\<forall>y \<in> set ys. \<not> p y \<Longrightarrow> p x \<Longrightarrow> position p (ys @ x # zs) = Some (length ys)"
  by (induction ys) auto

lemma position_Some_split:
  "position p xs = Some i \<Longrightarrow> \<exists>ys x zs. xs = ys @ x # zs \<and> length ys = i \<and> p x \<and> (\<forall>y \<in> set ys. \<not> p y)"
  using position_SomeD [of p xs i] id_take_nth_drop [of i xs]
  by (intro exI [of _ "take i xs"] exI [of _ "xs ! i"] exI [of _ "drop (Suc i) xs"]) auto

lemma position_append:
  "position p (xs @ ys) =
     (case position p xs of Some i \<Rightarrow> Some i | None \<Rightarrow> map_option (\<lambda>i. i + length xs) (position p ys))"
  by (induction xs) (auto split: option.splits simp: option.map_comp o_def option.map_ident)

lemma position_append_Some: "position p xs = Some i \<Longrightarrow> position p (xs @ ys) = Some i"
  by (simp add: position_append)

lemma position_less: "position p xs = Some i \<Longrightarrow> i < length xs"
  by (simp add: position_SomeD)

lemma position_take_not: "position p xs = Some i \<Longrightarrow> x \<in> set (take i xs) \<Longrightarrow> \<not> p x"
  by (simp add: position_SomeD)

lemma position_nth: "position p xs = Some i \<Longrightarrow> p (xs ! i)"
  by (simp add: position_SomeD)

text \<open>\<open>Iterator::rposition\<close>: the index of the last element that satisfies \<open>p\<close>.\<close>

definition rposition :: "('a \<Rightarrow> bool) \<Rightarrow> 'a list \<Rightarrow> nat option" where
  "rposition p xs = map_option (\<lambda>i. length xs - 1 - i) (position p (rev xs))"

lemma rposition_None_iff: "rposition p xs = None \<longleftrightarrow> (\<forall>x \<in> set xs. \<not> p x)"
  by (simp add: rposition_def position_None_iff)

lemma rposition_mid:
  assumes "\<forall>z \<in> set zs. \<not> p z" and "p x"
  shows "rposition p (ys @ x # zs) = Some (length ys)"
proof -
  have "position p (rev (ys @ x # zs)) = Some (length zs)"
    using position_mid [of "rev zs" p x "rev ys"] assms by simp
  then show ?thesis by (simp add: rposition_def)
qed

lemma rposition_less: "rposition p xs = Some i \<Longrightarrow> i < length xs"
  by (auto simp: rposition_def dest!: position_less)

section \<open>Dropping a prefix\<close>

text \<open>\<open>Vec::drain(..n)\<close> keeps the bytes from \<open>n\<close> on; it panics for \<open>n\<close> past the
  end, so each use in the model sits under the code's own bound check.\<close>

abbreviation (input) drain :: "nat \<Rightarrow> 'a list \<Rightarrow> 'a list" where
  "drain n xs \<equiv> drop n xs"

lemma take_append_left: "n \<le> length xs \<Longrightarrow> take n (xs @ ys) = take n xs"
  by simp

lemma drop_append_left: "n \<le> length xs \<Longrightarrow> drop n (xs @ ys) = drop n xs @ ys"
  by simp

lemma takeWhile_all: "\<forall>x \<in> set xs. p x \<Longrightarrow> takeWhile p xs = xs"
  by (simp add: takeWhile_eq_all_conv)

lemma list_all_set: "list_all p xs \<longleftrightarrow> (\<forall>x \<in> set xs. p x)"
  by (simp add: list_all_iff)

end
