(* ===== verification/Rust_Std.thy ===== *)
theory Rust_Std
  imports Prelude
begin

text \<open>
  The parts of Rust's standard library the program uses: character classes and ASCII case,
  searching and splitting of \<open>&str\<close>, parsing and printing of unsigned integers, and UTF-8
  (validation as \<open>core::str::from_utf8\<close> does it, lossy decoding, characters, Unicode white
  space). Searching for an ASCII \<open>char\<close> in a \<open>&str\<close> is searching for its byte,
  because no byte of a multi-byte sequence is below 0x80.
\<close>

section \<open>Bytes and ASCII\<close>

abbreviation u8 :: "char \<Rightarrow> nat" where
  "u8 c \<equiv> of_char c"

abbreviation CR :: char where "CR \<equiv> CHR 0x0D"
abbreviation LF :: char where "LF \<equiv> CHR 0x0A"
abbreviation SP :: char where "SP \<equiv> CHR 0x20"
abbreviation HTAB :: char where "HTAB \<equiv> CHR 0x09"
abbreviation DQUOTE :: char where "DQUOTE \<equiv> CHR 0x22"
abbreviation BACKSLASH :: char where "BACKSLASH \<equiv> CHR 0x5C"
abbreviation CRLF :: string where "CRLF \<equiv> [CR, LF]"

lemma u8_less_256 [simp]: "u8 c < 256"
  using of_char_mod_256 [of c, where 'a = nat] by (metis mod_less_divisor zero_less_numeral)

lemma u8_inject [simp]: "u8 a = u8 b \<longleftrightarrow> a = b"
  by simp

definition is_ascii_digit :: "char \<Rightarrow> bool" where
  [class_defs]: "is_ascii_digit b \<longleftrightarrow> 0x30 \<le> u8 b \<and> u8 b \<le> 0x39"

definition is_ascii_alphabetic :: "char \<Rightarrow> bool" where
  [class_defs]: "is_ascii_alphabetic b \<longleftrightarrow>
     0x41 \<le> u8 b \<and> u8 b \<le> 0x5A \<or> 0x61 \<le> u8 b \<and> u8 b \<le> 0x7A"

definition is_ascii_alphanumeric :: "char \<Rightarrow> bool" where
  [class_defs]: "is_ascii_alphanumeric b \<longleftrightarrow> is_ascii_alphabetic b \<or> is_ascii_digit b"

definition is_ascii_hexdigit :: "char \<Rightarrow> bool" where
  [class_defs]: "is_ascii_hexdigit b \<longleftrightarrow>
     is_ascii_digit b \<or> 0x41 \<le> u8 b \<and> u8 b \<le> 0x46 \<or> 0x61 \<le> u8 b \<and> u8 b \<le> 0x66"

definition ascii_lower :: "char \<Rightarrow> char" where
  "ascii_lower b = (if 0x41 \<le> u8 b \<and> u8 b \<le> 0x5A then char_of (u8 b + 32) else b)"

definition to_ascii_lowercase :: "string \<Rightarrow> string" where
  "to_ascii_lowercase s = map ascii_lower s"

definition eq_ignore_ascii_case :: "string \<Rightarrow> string \<Rightarrow> bool" where
  "eq_ignore_ascii_case a b \<longleftrightarrow> to_ascii_lowercase a = to_ascii_lowercase b"

lemma ascii_lower_idem [simp]: "ascii_lower (ascii_lower b) = ascii_lower b"
  by (auto simp: ascii_lower_def)

lemma to_ascii_lowercase_idem [simp]:
  "to_ascii_lowercase (to_ascii_lowercase s) = to_ascii_lowercase s"
  by (simp add: to_ascii_lowercase_def)

lemma eq_ignore_ascii_case_refl [simp]: "eq_ignore_ascii_case a a"
  by (simp add: eq_ignore_ascii_case_def)

lemma eq_ignore_ascii_case_sym: "eq_ignore_ascii_case a b \<longleftrightarrow> eq_ignore_ascii_case b a"
  by (auto simp: eq_ignore_ascii_case_def)

lemma eq_ignore_ascii_case_trans:
  "eq_ignore_ascii_case a b \<Longrightarrow> eq_ignore_ascii_case b c \<Longrightarrow> eq_ignore_ascii_case a c"
  by (simp add: eq_ignore_ascii_case_def)

lemma eq_ignore_ascii_case_lower [simp]:
  "eq_ignore_ascii_case (to_ascii_lowercase a) b \<longleftrightarrow> eq_ignore_ascii_case a b"
  by (simp add: eq_ignore_ascii_case_def)

section \<open>Searching and splitting\<close>

definition starts_with :: "string \<Rightarrow> string \<Rightarrow> bool" where
  "starts_with s pat \<longleftrightarrow> take (length pat) s = pat"

lemma starts_with_append [simp]: "starts_with (pat @ s) pat"
  by (simp add: starts_with_def)

lemma starts_withE: "starts_with s pat \<Longrightarrow> s = pat @ drop (length pat) s"
  by (metis starts_with_def append_take_drop_id)

definition strip_prefix :: "string \<Rightarrow> string \<Rightarrow> string option" where
  "strip_prefix s pat = (if starts_with s pat then Some (drop (length pat) s) else None)"

text \<open>\<open>str::find\<close> for a string pattern.\<close>

fun find_sub :: "string \<Rightarrow> string \<Rightarrow> nat option" where
  "find_sub pat [] = (if pat = [] then Some 0 else None)"
| "find_sub pat (c # cs) =
     (if starts_with (c # cs) pat then Some 0 else map_option Suc (find_sub pat cs))"

definition contains_sub :: "string \<Rightarrow> string \<Rightarrow> bool" where
  "contains_sub s pat \<longleftrightarrow> find_sub pat s \<noteq> None"

text \<open>\<open>str::find\<close> and \<open>str::rfind\<close> for a character.\<close>

definition find_char :: "char \<Rightarrow> string \<Rightarrow> nat option" where
  "find_char c s = position (\<lambda>x. x = c) s"

definition rfind_char :: "char \<Rightarrow> string \<Rightarrow> nat option" where
  "rfind_char c s = rposition (\<lambda>x. x = c) s"

definition split_once :: "char \<Rightarrow> string \<Rightarrow> (string \<times> string) option" where
  "split_once c s = map_option (\<lambda>i. (take i s, drop (Suc i) s)) (find_char c s)"

definition rsplit_once :: "char \<Rightarrow> string \<Rightarrow> (string \<times> string) option" where
  "rsplit_once c s = map_option (\<lambda>i. (take i s, drop (Suc i) s)) (rfind_char c s)"

text \<open>\<open>str::split\<close>: never empty, one more piece than separators.\<close>

fun split_on :: "char \<Rightarrow> string \<Rightarrow> string list" where
  "split_on d [] = [[]]"
| "split_on d (c # cs) =
     (if c = d then [] # split_on d cs
      else (case split_on d cs of [] \<Rightarrow> [[c]] | p # ps \<Rightarrow> (c # p) # ps))"

text \<open>\<open>str::splitn(n, c)\<close>: at most \<open>n\<close> pieces, the last one holds the rest.\<close>

fun splitn :: "nat \<Rightarrow> char \<Rightarrow> string \<Rightarrow> string list" where
  "splitn 0 d s = []"
| "splitn (Suc 0) d s = [s]"
| "splitn (Suc (Suc n)) d s =
     (case split_once d s of None \<Rightarrow> [s] | Some (a, b) \<Rightarrow> a # splitn (Suc n) d b)"

text \<open>\<open>split(' ').nth(i).unwrap_or("")\<close>.\<close>

definition nth_part :: "nat \<Rightarrow> string \<Rightarrow> string" where
  "nth_part i line = (let ps = split_on SP line in if i < length ps then ps ! i else [])"

lemma split_once_Some_iff:
  "split_once c s = Some (a, b) \<longleftrightarrow> s = a @ c # b \<and> c \<notin> set a"
proof
  assume "split_once c s = Some (a, b)"
  then obtain i where i: "find_char c s = Some i" "a = take i s" "b = drop (Suc i) s"
    by (auto simp: split_once_def)
  then show "s = a @ c # b \<and> c \<notin> set a"
    using position_SomeD [of "\<lambda>x. x = c" s i] id_take_nth_drop [of i s]
    by (auto simp: find_char_def)
next
  assume s: "s = a @ c # b \<and> c \<notin> set a"
  then have "position (\<lambda>x. x = c) (a @ c # b) = Some (length a)"
    by (intro position_mid) auto
  with s show "split_once c s = Some (a, b)"
    by (simp add: split_once_def find_char_def)
qed

lemma split_once_None_iff: "split_once c s = None \<longleftrightarrow> c \<notin> set s"
  by (auto simp: split_once_def find_char_def position_None_iff)

lemma split_on_neq_Nil [simp]: "split_on d s \<noteq> []"
  by (induction s) (auto split: list.splits)

lemma split_on_no_sep: "d \<notin> set s \<Longrightarrow> split_on d s = [s]"
  by (induction s) auto

lemma split_on_append_sep: "d \<notin> set a \<Longrightarrow> split_on d (a @ d # b) = a # split_on d b"
  by (induction a) auto

lemma split_on_pieces: "p \<in> set (split_on d s) \<Longrightarrow> d \<notin> set p"
proof (induction s arbitrary: p)
  case Nil
  then show ?case by simp
next
  case (Cons c cs)
  then obtain q qs where q: "split_on d cs = q # qs"
    by (meson split_on_neq_Nil list.exhaust)
  with Cons.prems Cons.IH show ?case by (auto split: if_splits)
qed

lemma split_on_set: "p \<in> set (split_on d s) \<Longrightarrow> set p \<subseteq> set s"
proof (induction s arbitrary: p)
  case Nil
  then show ?case by simp
next
  case (Cons c cs)
  obtain q qs where q: "split_on d cs = q # qs"
    by (meson split_on_neq_Nil list.exhaust)
  with Cons.prems Cons.IH show ?case by (fastforce split: if_splits)
qed

text \<open>The pieces of \<open>split\<close> joined with the separator are the input.\<close>

primrec join_with :: "char \<Rightarrow> string list \<Rightarrow> string" where
  "join_with d [] = []"
| "join_with d (p # ps) = (if ps = [] then p else p @ d # join_with d ps)"

lemma join_split_on [simp]: "join_with d (split_on d s) = s"
proof (induction s)
  case Nil
  then show ?case by simp
next
  case (Cons c cs)
  then show ?case
    by (cases "split_on d cs") (auto split: if_splits)
qed

lemma splitn_3_cases:
  "(d \<notin> set s \<and> splitn 3 d s = [s])
   \<or> (\<exists>a b. s = a @ d # b \<and> d \<notin> set a \<and> d \<notin> set b \<and> splitn 3 d s = [a, b])
   \<or> (\<exists>a b c. s = a @ d # b @ d # c \<and> d \<notin> set a \<and> d \<notin> set b \<and> splitn 3 d s = [a, b, c])"
proof (cases "split_once d s")
  case None
  then have "d \<notin> set s" by (simp add: split_once_None_iff)
  with None show ?thesis by (simp add: numeral_3_eq_3)
next
  case (Some ab)
  then obtain a r where ar: "split_once d s = Some (a, r)" by (cases ab) auto
  then have s: "s = a @ d # r" "d \<notin> set a" by (auto simp: split_once_Some_iff)
  show ?thesis
  proof (cases "split_once d r")
    case None
    with ar have "splitn 3 d s = [a, r]" by (simp add: numeral_3_eq_3)
    moreover from None have "d \<notin> set r" by (simp add: split_once_None_iff)
    moreover note s
    ultimately show ?thesis by blast
  next
    case (Some bc)
    then obtain b c where "split_once d r = Some (b, c)" by (cases bc) auto
    then have "splitn 3 d s = [a, b, c]" "r = b @ d # c \<and> d \<notin> set b"
      using ar by (simp add: numeral_3_eq_3, simp add: split_once_Some_iff)
    with s show ?thesis by blast
  qed
qed

lemma splitn_3_three:
  "d \<notin> set a \<Longrightarrow> d \<notin> set b \<Longrightarrow> splitn 3 d (a @ d # b @ d # c) = [a, b, c]"
  by (simp add: numeral_3_eq_3 split_once_Some_iff [THEN iffD2])

text \<open>\<open>join(", ")\<close>.\<close>

fun join_comma :: "string list \<Rightarrow> string" where
  "join_comma [] = []"
| "join_comma [x] = x"
| "join_comma (x # y # xs) = x @ '', '' @ join_comma (y # xs)"

section \<open>Unsigned integers\<close>

definition usize_max :: nat where "usize_max = 2 ^ 64 - 1"
definition u64_max :: nat where "u64_max = 2 ^ 64 - 1"
definition u16_max :: nat where "u16_max = 2 ^ 16 - 1"

definition checked_add :: "nat \<Rightarrow> nat \<Rightarrow> nat option" where
  "checked_add a b = (if a + b \<le> usize_max then Some (a + b) else None)"

text \<open>\<open>char::to_digit(radix)\<close>.\<close>

definition to_digit :: "nat \<Rightarrow> char \<Rightarrow> nat option" where
  "to_digit radix c =
     (let v = (if is_ascii_digit c then u8 c - 0x30
               else if 0x41 \<le> u8 c \<and> u8 c \<le> 0x5A then u8 c - 0x41 + 10
               else if 0x61 \<le> u8 c \<and> u8 c \<le> 0x7A then u8 c - 0x61 + 10
               else radix)
      in if v < radix then Some v else None)"

fun digits_value :: "nat \<Rightarrow> nat \<Rightarrow> string \<Rightarrow> nat option" where
  "digits_value radix acc [] = Some acc"
| "digits_value radix acc (c # cs) =
     (case to_digit radix c of None \<Rightarrow> None | Some d \<Rightarrow> digits_value radix (acc * radix + d) cs)"

text \<open>
  \<open>from_str_radix\<close> of an unsigned type: an optional leading \<open>+\<close>, at least one digit,
  and a value within the range of the type. \<open>str::parse\<close> is radix 10.
\<close>

definition from_str_radix :: "nat \<Rightarrow> nat \<Rightarrow> string \<Rightarrow> nat option" where
  "from_str_radix radix mx s =
     (let ds = (case s of c # cs \<Rightarrow> if c = CHR ''+'' \<and> cs \<noteq> [] then cs else s | [] \<Rightarrow> s)
      in if ds = [] then None
         else case digits_value radix 0 ds of
                None \<Rightarrow> None
              | Some v \<Rightarrow> if v \<le> mx then Some v else None)"

abbreviation parse_u64 :: "string \<Rightarrow> nat option" where
  "parse_u64 s \<equiv> from_str_radix 10 u64_max s"

abbreviation parse_u16 :: "string \<Rightarrow> nat option" where
  "parse_u16 s \<equiv> from_str_radix 10 u16_max s"

abbreviation parse_hex_usize :: "string \<Rightarrow> nat option" where
  "parse_hex_usize s \<equiv> from_str_radix 16 usize_max s"

text \<open>The decimal and hexadecimal text of a number, as \<open>Display\<close> and \<open>{:02X}\<close> print it.\<close>

definition digit_char :: "nat \<Rightarrow> char" where
  "digit_char d = char_of (if d < 10 then 0x30 + d else 0x61 + (d - 10))"

fun to_base :: "nat \<Rightarrow> nat \<Rightarrow> string" where
  "to_base b n = (if n < b \<or> b < 2 then [digit_char n] else to_base b (n div b) @ [digit_char (n mod b)])"

declare to_base.simps [simp del]

definition nat_to_dec :: "nat \<Rightarrow> string" where
  "nat_to_dec n = to_base 10 n"

definition hex_upper_digit :: "nat \<Rightarrow> char" where
  "hex_upper_digit d = char_of (if d < 10 then 0x30 + d else 0x41 + (d - 10))"

definition hex2_upper :: "nat \<Rightarrow> string" where
  "hex2_upper n = [hex_upper_digit (n div 16), hex_upper_digit (n mod 16)]"

lemma from_str_radix_bound: "from_str_radix r mx s = Some v \<Longrightarrow> v \<le> mx"
  by (auto simp: from_str_radix_def Let_def split: option.splits if_splits)

lemma of_char_digit_char: "d < 16 \<Longrightarrow> u8 (digit_char d) = (if d < 10 then 0x30 + d else 0x57 + d)"
  by (auto simp: digit_char_def)

lemma to_digit_digit_char: "d < radix \<Longrightarrow> radix \<le> 16 \<Longrightarrow> to_digit radix (digit_char d) = Some d"
  by (auto simp: to_digit_def of_char_digit_char is_ascii_digit_def)

lemma digits_value_append:
  "digits_value r acc (xs @ ys) = Option.bind (digits_value r acc xs) (\<lambda>v. digits_value r v ys)"
  by (induction xs arbitrary: acc) (auto split: option.splits)

lemma to_base_digits:
  assumes "2 \<le> b" "b \<le> 16"
  shows "digits_value b 0 (to_base b n) = Some n"
proof (induction n rule: less_induct)
  case (less n)
  show ?case
  proof (cases "n < b")
    case True
    then show ?thesis using assms by (simp add: to_base.simps [of b n] to_digit_digit_char)
  next
    case False
    with assms have "n div b < n" by simp
    then have "digits_value b 0 (to_base b (n div b)) = Some (n div b)" by (rule less.IH)
    with False assms show ?thesis
      by (simp add: to_base.simps [of b n] digits_value_append to_digit_digit_char)
  qed
qed

lemma to_base_neq_Nil [simp]: "to_base b n \<noteq> []"
  by (subst to_base.simps) simp

lemma set_to_base:
  assumes "2 \<le> b" "c \<in> set (to_base b n)"
  shows "\<exists>d < b. c = digit_char d"
  using assms(2)
proof (induction n rule: less_induct)
  case (less n)
  show ?case
  proof (cases "n < b")
    case True
    with less.prems show ?thesis by (auto simp: to_base.simps [of b n])
  next
    case False
    with assms have lt: "n div b < n" by simp
    from False assms less.prems
    have "c \<in> set (to_base b (n div b)) \<or> c = digit_char (n mod b)"
      by (auto simp: to_base.simps [of b n])
    moreover have "n mod b < b" using assms by simp
    ultimately show ?thesis using less.IH [OF lt] by blast
  qed
qed

lemma from_str_radix_to_base:
  assumes "2 \<le> b" "b \<le> 16" "n \<le> mx"
  shows "from_str_radix b mx (to_base b n) = Some n"
proof -
  obtain c cs where c: "to_base b n = c # cs" by (cases "to_base b n") auto
  then obtain d where "d < b" "c = digit_char d"
    using set_to_base [of b c n] assms by auto
  with assms have "c \<noteq> CHR ''+''"
    using of_char_digit_char [of d] by (auto split: if_splits)
  then show ?thesis
    using c to_base_digits [OF assms(1,2), of n] assms(3)
    by (simp add: from_str_radix_def)
qed

lemma parse_u64_nat_to_dec: "n \<le> u64_max \<Longrightarrow> parse_u64 (nat_to_dec n) = Some n"
  by (simp add: nat_to_dec_def from_str_radix_to_base)

end
