(* ===== verification/Utf8.thy ===== *)
theory Utf8
  imports Rust_Std
begin

text \<open>
  UTF-8 as \<open>core::str\<close> handles it. One step reads the first character of a byte
  list; validation (\<open>String::from_utf8\<close>, with the error its \<open>Display\<close> prints), lossy
  decoding and iteration over characters are built from that step. A character is represented
  by its slice of the bytes.
\<close>

datatype utf8_step = Utf8_Char nat | Utf8_Invalid nat | Utf8_Incomplete

definition is_cont :: "char \<Rightarrow> bool" where
  "is_cont b \<longleftrightarrow> 0x80 \<le> u8 b \<and> u8 b \<le> 0xBF"

definition second_of_3 :: "char \<Rightarrow> char \<Rightarrow> bool" where
  "second_of_3 a b \<longleftrightarrow>
     (if u8 a = 0xE0 then 0xA0 \<le> u8 b \<and> u8 b \<le> 0xBF
      else if u8 a = 0xED then 0x80 \<le> u8 b \<and> u8 b \<le> 0x9F
      else is_cont b)"

definition second_of_4 :: "char \<Rightarrow> char \<Rightarrow> bool" where
  "second_of_4 a b \<longleftrightarrow>
     (if u8 a = 0xF0 then 0x90 \<le> u8 b \<and> u8 b \<le> 0xBF
      else if u8 a = 0xF4 then 0x80 \<le> u8 b \<and> u8 b \<le> 0x8F
      else is_cont b)"

text \<open>
  The outcome for the first sequence: a character of \<open>n\<close> bytes, an invalid sequence of which
  \<open>n\<close> bytes are reported (\<open>error_len\<close>), or input that ends inside a sequence.
\<close>

definition utf8_step :: "char \<Rightarrow> string \<Rightarrow> utf8_step" where
  "utf8_step a xs =
     (if u8 a < 0x80 then Utf8_Char 1
      else if 0xC2 \<le> u8 a \<and> u8 a \<le> 0xDF then
        (case xs of [] \<Rightarrow> Utf8_Incomplete
         | b # _ \<Rightarrow> if is_cont b then Utf8_Char 2 else Utf8_Invalid 1)
      else if 0xE0 \<le> u8 a \<and> u8 a \<le> 0xEF then
        (case xs of [] \<Rightarrow> Utf8_Incomplete
         | b # ys \<Rightarrow> if \<not> second_of_3 a b then Utf8_Invalid 1
             else (case ys of [] \<Rightarrow> Utf8_Incomplete
                   | c # _ \<Rightarrow> if is_cont c then Utf8_Char 3 else Utf8_Invalid 2))
      else if 0xF0 \<le> u8 a \<and> u8 a \<le> 0xF4 then
        (case xs of [] \<Rightarrow> Utf8_Incomplete
         | b # ys \<Rightarrow> if \<not> second_of_4 a b then Utf8_Invalid 1
             else (case ys of [] \<Rightarrow> Utf8_Incomplete
                   | c # zs \<Rightarrow> if \<not> is_cont c then Utf8_Invalid 2
                       else (case zs of [] \<Rightarrow> Utf8_Incomplete
                             | d # _ \<Rightarrow> if is_cont d then Utf8_Char 4 else Utf8_Invalid 3)))
      else Utf8_Invalid 1)"

text \<open>\<open>run_utf8_validation\<close>: \<open>None\<close> when valid, else \<open>valid_up_to\<close> and \<open>error_len\<close>.\<close>

fun utf8_error :: "nat \<Rightarrow> string \<Rightarrow> (nat \<times> nat option) option" where
  "utf8_error i [] = None"
| "utf8_error i (a # xs) =
     (case utf8_step a xs of
        Utf8_Char n \<Rightarrow> utf8_error (i + n) (drop (n - 1) xs)
      | Utf8_Invalid n \<Rightarrow> Some (i, Some n)
      | Utf8_Incomplete \<Rightarrow> Some (i, None))"

definition valid_utf8 :: "string \<Rightarrow> bool" where
  "valid_utf8 s \<longleftrightarrow> utf8_error 0 s = None"

definition from_utf8 :: "string \<Rightarrow> (string, nat \<times> nat option) result" where
  "from_utf8 s = (case utf8_error 0 s of None \<Rightarrow> Ok s | Some e \<Rightarrow> Err e)"

fun utf8_error_display :: "nat \<times> nat option \<Rightarrow> string" where
  "utf8_error_display (i, Some n) =
     ''invalid utf-8 sequence of '' @ nat_to_dec n @ '' bytes from index '' @ nat_to_dec i"
| "utf8_error_display (i, None) = ''incomplete utf-8 byte sequence from index '' @ nat_to_dec i"

definition replacement_char :: string where
  "replacement_char = [CHR 0xEF, CHR 0xBF, CHR 0xBD]"

fun from_utf8_lossy :: "string \<Rightarrow> string" where
  "from_utf8_lossy [] = []"
| "from_utf8_lossy (a # xs) =
     (case utf8_step a xs of
        Utf8_Char n \<Rightarrow> take n (a # xs) @ from_utf8_lossy (drop (n - 1) xs)
      | Utf8_Invalid n \<Rightarrow> replacement_char @ from_utf8_lossy (drop (n - 1) xs)
      | Utf8_Incomplete \<Rightarrow> replacement_char)"

text \<open>The characters of a \<open>&str\<close>, as slices. Invalid input does not occur in a \<open>&str\<close>.\<close>

fun char_slices :: "string \<Rightarrow> string list" where
  "char_slices [] = []"
| "char_slices (a # xs) =
     (case utf8_step a xs of
        Utf8_Char n \<Rightarrow> take n (a # xs) # char_slices (drop (n - 1) xs)
      | _ \<Rightarrow> [a] # char_slices xs)"

fun code_point :: "string \<Rightarrow> nat" where
  "code_point [a, b] = (u8 a mod 32) * 64 + u8 b mod 64"
| "code_point [a, b, c] = (u8 a mod 16) * 4096 + (u8 b mod 64) * 64 + u8 c mod 64"
| "code_point [a, b, c, d] =
     (u8 a mod 8) * 262144 + (u8 b mod 64) * 4096 + (u8 c mod 64) * 64 + u8 d mod 64"
| "code_point s = (case s of [] \<Rightarrow> 0 | a # _ \<Rightarrow> u8 a)"

text \<open>\<open>char::is_whitespace\<close>: the Unicode property White\_Space.\<close>

definition is_whitespace_cp :: "nat \<Rightarrow> bool" where
  "is_whitespace_cp c \<longleftrightarrow>
     9 \<le> c \<and> c \<le> 13 \<or> c = 0x20 \<or> c = 0x85 \<or> c = 0xA0 \<or> c = 0x1680
     \<or> 0x2000 \<le> c \<and> c \<le> 0x200A \<or> c = 0x2028 \<or> c = 0x2029 \<or> c = 0x202F \<or> c = 0x205F \<or> c = 0x3000"

definition has_whitespace :: "string \<Rightarrow> bool" where
  "has_whitespace s \<longleftrightarrow> list_ex (\<lambda>sl. is_whitespace_cp (code_point sl)) (char_slices s)"

definition str_trim :: "string \<Rightarrow> string" where
  "str_trim s =
     (let ws = (\<lambda>sl. is_whitespace_cp (code_point sl))
      in concat (rev (dropWhile ws (rev (dropWhile ws (char_slices s))))))"

section \<open>Facts\<close>

lemma utf8_step_ascii [simp]: "u8 a < 0x80 \<Longrightarrow> utf8_step a xs = Utf8_Char 1"
  by (simp add: utf8_step_def)

lemma utf8_step_append: "utf8_step a xs = Utf8_Char n \<Longrightarrow> utf8_step a (xs @ ys) = Utf8_Char n"
  by (auto simp: utf8_step_def split: if_splits list.splits)

lemma utf8_step_len: "utf8_step a xs = Utf8_Char n \<Longrightarrow> 1 \<le> n \<and> n \<le> Suc (length xs)"
  by (auto simp: utf8_step_def split: if_splits list.splits)

lemma utf8_error_append:
  "utf8_error i a = None \<Longrightarrow> utf8_error i (a @ b) = utf8_error (i + length a) b"
proof (induction i a rule: utf8_error.induct)
  case (1 i)
  then show ?case by simp
next
  case (2 i a xs)
  then obtain n where n: "utf8_step a xs = Utf8_Char n"
    by (cases "utf8_step a xs") auto
  with utf8_step_len [OF n] utf8_step_append [OF n] 2 show ?case
    by simp
qed

lemma utf8_error_shift1: "utf8_error i s = None \<Longrightarrow> utf8_error j s = None"
  by (induction i s arbitrary: j rule: utf8_error.induct) (simp_all split: utf8_step.splits)

lemma utf8_error_shift: "utf8_error i s = None \<longleftrightarrow> utf8_error j s = None"
  using utf8_error_shift1 by blast

lemma valid_utf8_Nil [simp]: "valid_utf8 []"
  by (simp add: valid_utf8_def)

lemma valid_utf8_append: "valid_utf8 a \<Longrightarrow> valid_utf8 (a @ b) \<longleftrightarrow> valid_utf8 b"
  using utf8_error_append [of 0 a b] utf8_error_shift [of "length a" b 0]
  by (simp add: valid_utf8_def)

lemma valid_utf8_Cons_ascii: "u8 c < 0x80 \<Longrightarrow> valid_utf8 (c # s) \<longleftrightarrow> valid_utf8 s"
  by (simp add: valid_utf8_def utf8_error_shift [of "Suc 0" s 0])

lemma valid_utf8_ascii: "list_all (\<lambda>c. u8 c < 0x80) s \<Longrightarrow> valid_utf8 s"
  by (induction s) (simp_all add: valid_utf8_Cons_ascii)

lemma from_utf8_Ok_iff [result_iff]: "from_utf8 s = Ok t \<longleftrightarrow> t = s \<and> valid_utf8 s"
  by (auto simp: from_utf8_def valid_utf8_def split: option.splits)

lemma from_utf8_not_Panic [simp]: "from_utf8 s \<noteq> Panic"
  by (simp add: from_utf8_def split: option.splits)

lemma char_slices_ascii: "list_all (\<lambda>c. u8 c < 0x80) s \<Longrightarrow> char_slices s = map (\<lambda>c. [c]) s"
  by (induction s) simp_all

lemma concat_char_slices [simp]: "concat (char_slices s) = s"
proof (induction s rule: char_slices.induct)
  case 1
  then show ?case by simp
next
  case (2 a xs)
  show ?case
  proof (cases "utf8_step a xs")
    case (Utf8_Char n)
    then have n: "1 \<le> n" "n \<le> Suc (length xs)" using utf8_step_len by auto
    have "take n (a # xs) @ drop (n - 1) xs = a # xs"
      using n by (cases n) simp_all
    with Utf8_Char 2 show ?thesis by simp
  qed (use 2 in auto)
qed

lemma char_slices_append:
  "valid_utf8 a \<Longrightarrow> char_slices (a @ b) = char_slices a @ char_slices b"
proof (induction a rule: char_slices.induct)
  case 1
  then show ?case by simp
next
  case (2 a xs)
  then obtain n where n: "utf8_step a xs = Utf8_Char n"
    by (cases "utf8_step a xs") (auto simp: valid_utf8_def)
  with 2 have v: "valid_utf8 (drop (n - 1) xs)"
    using utf8_error_shift [of n "drop (n - 1) xs" 0] by (simp add: valid_utf8_def)
  from n utf8_step_len [OF n] utf8_step_append [OF n] "2.IH" (1) [OF n v] show ?case
    by (cases n) simp_all
qed

lemma str_trim_ascii_id:
  assumes "list_all (\<lambda>c. u8 c < 0x80 \<and> \<not> is_whitespace_cp (u8 c)) s"
  shows "str_trim s = s"
proof -
  have sl: "char_slices s = map (\<lambda>c. [c]) s"
    using assms by (intro char_slices_ascii) (auto simp: list_all_iff)
  have dw: "dropWhile (\<lambda>x. is_whitespace_cp (code_point x)) (map (\<lambda>c. [c]) t) = map (\<lambda>c. [c]) t"
    if "set t \<subseteq> set s" for t
    using that assms by (cases t) (auto simp: list_all_iff)
  have "str_trim s = concat (rev (map (\<lambda>c. [c]) (rev s)))"
    using dw [of s] dw [of "rev s"] by (simp only: str_trim_def Let_def sl rev_map [symmetric]) simp
  then show ?thesis by (simp add: rev_map)
qed

text \<open>An ASCII byte always is a character of its own, even in bytes that are not valid UTF-8.\<close>

lemma utf8_step_append_ascii:
  assumes "u8 y < 0x80" "utf8_step a (xs @ y # r) = Utf8_Char n"
  shows "utf8_step a xs = Utf8_Char n"
proof -
  have c: "\<not> is_cont y" "\<not> second_of_3 a y" "\<not> second_of_4 a y"
    using assms(1) by (simp_all add: is_cont_def second_of_3_def second_of_4_def)
  consider "xs = []" | b where "xs = [b]" | b d where "xs = [b, d]" | b d e xs' where "xs = b # d # e # xs'"
    by (metis list.exhaust)
  then show ?thesis
    using assms(2) by cases (simp_all add: utf8_step_def c split: if_splits)
qed

lemma char_slices_append_ascii:
  assumes "u8 y < 0x80"
  shows "char_slices (m @ y # r) = char_slices m @ [y] # char_slices r"
proof (induction m rule: char_slices.induct)
  case 1
  then show ?case using assms by simp
next
  case (2 a xs)
  show ?case
  proof (cases "\<exists>n. utf8_step a xs = Utf8_Char n")
    case True
    then obtain n where n: "utf8_step a xs = Utf8_Char n" by blast
    with utf8_step_append [OF n] utf8_step_len [OF n] "2.IH"(1) [OF n] show ?thesis by (cases n) simp_all
  next
    case False
    with utf8_step_append_ascii [OF assms, of a xs r] "2.IH"(2,3) show ?thesis
      by (cases "utf8_step a xs"; cases "utf8_step a (xs @ y # r)") auto
  qed
qed

lemma str_trim_ends:
  assumes "u8 x < 0x80" "\<not> is_whitespace_cp (u8 x)" "u8 y < 0x80" "\<not> is_whitespace_cp (u8 y)"
  shows "str_trim (x # m @ [y]) = x # m @ [y]"
proof -
  have "char_slices (x # m @ [y]) = [x] # char_slices m @ [[y]]"
    using assms(1) char_slices_append_ascii [OF assms(3), of m "[]"] by simp
  with assms(2,4) show ?thesis by (simp add: str_trim_def)
qed

lemma str_trim_single: "u8 x < 0x80 \<Longrightarrow> \<not> is_whitespace_cp (u8 x) \<Longrightarrow> str_trim [x] = [x]"
  by (simp add: str_trim_def)

lemma str_trim_SP [simp]: "str_trim (SP # s) = str_trim s"
  by (simp add: str_trim_def is_whitespace_cp_def)

lemma str_trim_Nil [simp]: "str_trim [] = []"
  by (simp add: str_trim_def)

end
