(* ===== verification/Validate.thy ===== *)
theory Validate
  imports Utf8
begin

text \<open>
  \<^verbatim>\<open>src/validate.rs\<close>: the character classes of RFC 9110 and RFC 3986, the syntactic
  checks shared by encoder and decoder, quoted strings, and \<open>trim_ows\<close>.
\<close>

section \<open>Character classes\<close>

definition is_token_char :: "char \<Rightarrow> bool" where
  [class_defs]: "is_token_char b \<longleftrightarrow>
     b \<in> set [CHR ''!'', CHR ''#'', CHR ''$'', CHR ''%'', CHR ''&'', CHR 0x27, CHR ''*'', CHR ''+'',
              CHR ''-'', CHR ''.''] \<or>
     0x30 \<le> u8 b \<and> u8 b \<le> 0x39 \<or> 0x41 \<le> u8 b \<and> u8 b \<le> 0x5A \<or>
     b \<in> set [CHR ''^'', CHR ''_'', CHR 0x60] \<or> 0x61 \<le> u8 b \<and> u8 b \<le> 0x7A \<or>
     b \<in> set [CHR ''|'', CHR ''~'']"

definition is_valid_field_vchar :: "char \<Rightarrow> bool" where
  [class_defs]: "is_valid_field_vchar b \<longleftrightarrow>
     u8 b = 0x09 \<or> 0x20 \<le> u8 b \<and> u8 b \<le> 0x7E \<or> 0x80 \<le> u8 b \<and> u8 b \<le> 0xFF"

definition is_unreserved_byte :: "char \<Rightarrow> bool" where
  [class_defs]: "is_unreserved_byte b \<longleftrightarrow>
     is_ascii_alphanumeric b \<or> b = CHR ''-'' \<or> b = CHR ''.'' \<or> b = CHR ''_'' \<or> b = CHR ''~''"

definition is_sub_delim_byte :: "char \<Rightarrow> bool" where
  [class_defs]: "is_sub_delim_byte b \<longleftrightarrow>
     b \<in> set [CHR ''!'', CHR ''$'', CHR ''&'', CHR 0x27, CHR ''('', CHR '')'', CHR ''*'', CHR ''+'',
              CHR '','', CHR '';'', CHR ''='']"

definition is_pchar_byte :: "char \<Rightarrow> bool" where
  [class_defs]: "is_pchar_byte b \<longleftrightarrow>
     is_unreserved_byte b \<or> is_sub_delim_byte b \<or> b = CHR '':'' \<or> b = CHR ''@''"

definition is_pchar_or_slash :: "char \<Rightarrow> bool" where
  [class_defs]: "is_pchar_or_slash b \<longleftrightarrow> is_pchar_byte b \<or> b = CHR ''/''"

definition is_query_char :: "char \<Rightarrow> bool" where
  [class_defs]: "is_query_char b \<longleftrightarrow> is_pchar_byte b \<or> b = CHR ''/'' \<or> b = CHR ''?''"

text \<open>The next two classify a \<open>char\<close> (a code point), not a byte.\<close>

definition is_qdtext_char :: "nat \<Rightarrow> bool" where
  "is_qdtext_char c \<longleftrightarrow>
     c = 0x09 \<or> c = 0x20 \<or> c = 0x21 \<or> 0x23 \<le> c \<and> c \<le> 0x5B \<or> 0x5D \<le> c \<and> c \<le> 0x7E \<or> 0x80 \<le> c"

definition is_quoted_pair_char :: "nat \<Rightarrow> bool" where
  "is_quoted_pair_char c \<longleftrightarrow> c = 0x09 \<or> 0x20 \<le> c \<and> c \<le> 0x7E \<or> 0x80 \<le> c"

section \<open>Checks on whole strings\<close>

definition is_valid_header_name :: "string \<Rightarrow> bool" where
  "is_valid_header_name name \<longleftrightarrow> name \<noteq> [] \<and> list_all is_token_char name"

definition is_valid_token :: "string \<Rightarrow> bool" where
  "is_valid_token s \<longleftrightarrow> s \<noteq> [] \<and> list_all is_token_char s"

definition is_valid_field_value :: "string \<Rightarrow> bool" where
  "is_valid_field_value value \<longleftrightarrow> list_all is_valid_field_vchar value"

definition is_valid_method :: "string \<Rightarrow> bool" where
  "is_valid_method m \<longleftrightarrow> m \<noteq> [] \<and> list_all is_token_char m"

definition is_valid_protocol_version :: "string \<Rightarrow> bool" where
  "is_valid_protocol_version v =
     (case position (\<lambda>b. b = CHR ''/'') v of
        None \<Rightarrow> False
      | Some slash_pos \<Rightarrow>
          if slash_pos = 0 then False
          else if \<not> list_all is_token_char (take slash_pos v) then False
          else
            let after_slash = drop (slash_pos + 1) v
            in case position (\<lambda>b. b = CHR ''.'') after_slash of
                 None \<Rightarrow> False
               | Some dot_pos \<Rightarrow>
                   if dot_pos = 0 then False
                   else if \<not> list_all is_ascii_digit (take dot_pos after_slash) then False
                   else
                     let after_dot = drop (dot_pos + 1) after_slash
                     in if after_dot = [] then False else list_all is_ascii_digit after_dot)"

definition is_valid_status_code :: "nat \<Rightarrow> bool" where
  "is_valid_status_code code \<longleftrightarrow> 100 \<le> code \<and> code \<le> 599"

definition is_valid_reason_phrase :: "string \<Rightarrow> bool" where
  "is_valid_reason_phrase phrase \<longleftrightarrow> phrase \<noteq> [] \<and>
     list_all (\<lambda>b. u8 b = 0x09 \<or> 0x20 \<le> u8 b \<and> u8 b \<le> 0x7E \<or> 0x80 \<le> u8 b \<and> u8 b \<le> 0xFF) phrase"

definition RFC3986_EXCLUDED :: string where
  "RFC3986_EXCLUDED = [DQUOTE, CHR ''#'', CHR ''<'', CHR ''>'', BACKSLASH, CHR ''^'', CHR 0x60,
                       CHR ''{'', CHR ''|'', CHR ''}'']"

text \<open>The \<open>while\<close> loop of \<open>is_valid_request_target\<close>, over the bytes from \<open>i\<close> on.\<close>

fun request_target_loop :: "string \<Rightarrow> bool" where
  "request_target_loop [] = True"
| "request_target_loop (b # bs) =
     (if u8 b \<le> 0x20 \<or> u8 b = 0x7F then False
      else if b \<in> set RFC3986_EXCLUDED then False
      else if b = CHR ''%'' then
        (case bs of
           high # low # rest \<Rightarrow>
             if \<not> is_ascii_hexdigit high \<or> \<not> is_ascii_hexdigit low then False
             else if high = CHR ''0'' \<and> low = CHR ''0'' then False
             else request_target_loop rest
         | _ \<Rightarrow> False)
      else request_target_loop bs)"

definition is_valid_request_target :: "string \<Rightarrow> bool" where
  "is_valid_request_target target \<longleftrightarrow> target \<noteq> [] \<and> request_target_loop target"

definition is_valid_language_tag :: "string \<Rightarrow> bool" where
  "is_valid_language_tag tag =
     (if tag = [] then False
      else case split_on (CHR ''-'') tag of
             [] \<Rightarrow> False
           | primary # parts \<Rightarrow>
               if primary = [] \<or> length primary > 8 \<or> \<not> list_all is_ascii_alphabetic primary
               then False
               else list_all (\<lambda>part. \<not> (part = [] \<or> length part > 8
                                        \<or> \<not> list_all is_ascii_alphanumeric part)) parts)"

section \<open>Optional white space\<close>

definition is_ows :: "char \<Rightarrow> bool" where
  [class_defs]: "is_ows b \<longleftrightarrow> b = SP \<or> b = HTAB"

definition trim_ows :: "string \<Rightarrow> string" where
  "trim_ows s =
     (let start = (case position (\<lambda>b. \<not> is_ows b) s of Some i \<Rightarrow> i | None \<Rightarrow> length s);
          stop = (case rposition (\<lambda>b. \<not> is_ows b) s of Some p \<Rightarrow> p + 1 | None \<Rightarrow> start)
      in take (stop - start) (drop start s))"

section \<open>Quoted strings\<close>

datatype QuotedStringError = InvalidQdtext | InvalidQuotedPair | Unterminated

fun quoted_string_loop ::
  "string list \<Rightarrow> bool \<Rightarrow> string \<Rightarrow> (string \<times> string, QuotedStringError) result" where
  "quoted_string_loop [] escaped res = Err Unterminated"
| "quoted_string_loop (c # cs) escaped res =
     (if escaped then
        (if \<not> is_quoted_pair_char (code_point c) then Err InvalidQuotedPair
         else quoted_string_loop cs False (res @ c))
      else if c = [BACKSLASH] then quoted_string_loop cs True res
      else if c = [DQUOTE] then Ok (res, concat cs)
      else if \<not> is_qdtext_char (code_point c) then Err InvalidQdtext
      else quoted_string_loop cs False (res @ c))"

definition parse_quoted_string :: "string \<Rightarrow> (string \<times> string, QuotedStringError) result" where
  "parse_quoted_string input = quoted_string_loop (char_slices input) False []"

definition escape_char :: "string \<Rightarrow> string" where
  "escape_char c =
     (if \<not> is_quoted_pair_char (code_point c) then [SP]
      else if c = [DQUOTE] \<or> c = [BACKSLASH] then BACKSLASH # c
      else c)"

definition escape_quotes :: "string \<Rightarrow> string" where
  "escape_quotes s = concat (map escape_char (char_slices s))"

fun split_quotes_loop ::
  "char \<Rightarrow> string list \<Rightarrow> bool \<Rightarrow> bool \<Rightarrow> string \<Rightarrow> string list" where
  "split_quotes_loop d [] in_quote escaped cur = [cur]"
| "split_quotes_loop d (c # cs) in_quote escaped cur =
     (if escaped then split_quotes_loop d cs in_quote False (cur @ c)
      else if c = [BACKSLASH] \<and> in_quote then split_quotes_loop d cs in_quote True (cur @ c)
      else if c = [DQUOTE] then split_quotes_loop d cs (\<not> in_quote) False (cur @ c)
      else if c = [d] \<and> \<not> in_quote then cur # split_quotes_loop d cs in_quote False []
      else split_quotes_loop d cs in_quote False (cur @ c))"

definition split_with_quotes :: "string \<Rightarrow> char \<Rightarrow> string list" where
  "split_with_quotes input d = split_quotes_loop d (char_slices input) False False []"

section \<open>Facts about the classes\<close>

lemma token_char_range: "is_token_char b \<Longrightarrow> 0x21 \<le> u8 b \<and> u8 b < 0x7F"
  by (auto simp: is_token_char_def)

lemma token_char_ascii: "is_token_char b \<Longrightarrow> u8 b < 0x80"
  using token_char_range by fastforce

lemma token_char_not_sep:
  "is_token_char b \<Longrightarrow> b \<noteq> SP \<and> b \<noteq> HTAB \<and> b \<noteq> CHR '':'' \<and> b \<noteq> CR \<and> b \<noteq> LF \<and> b \<noteq> CHR ''/'' \<and> b \<noteq> CHR '',''"
  by (auto simp: is_token_char_def)

lemma ascii_lower_token: "is_token_char b \<Longrightarrow> is_token_char (ascii_lower b)"
  by (auto simp: ascii_lower_def is_token_char_def)

lemma valid_token_lower: "is_valid_token n \<Longrightarrow> is_valid_token (to_ascii_lowercase n)"
  by (auto simp: is_valid_token_def to_ascii_lowercase_def list_all_iff ascii_lower_token)

lemma field_vchar_not_crlf: "is_valid_field_vchar b \<Longrightarrow> b \<noteq> CR \<and> b \<noteq> LF"
  by (auto simp: is_valid_field_vchar_def)

lemma digit_field_vchar: "is_ascii_digit b \<Longrightarrow> is_valid_field_vchar b"
  by (auto simp: class_defs)

lemma header_name_no_sep:
  "is_valid_header_name n \<Longrightarrow> SP \<notin> set n \<and> HTAB \<notin> set n \<and> CHR '':'' \<notin> set n \<and> CR \<notin> set n \<and> LF \<notin> set n"
  using token_char_not_sep by (auto simp: is_valid_header_name_def list_all_iff)

lemma token_not_whitespace: "is_token_char b \<Longrightarrow> \<not> is_whitespace_cp (u8 b)"
  using token_char_range [of b] by (auto simp: is_whitespace_cp_def)

lemma header_name_trim: "is_valid_header_name n \<Longrightarrow> str_trim n = n"
  by (rule str_trim_ascii_id)
    (auto simp: is_valid_header_name_def list_all_iff token_char_ascii token_not_whitespace)

lemma header_name_utf8: "is_valid_header_name n \<Longrightarrow> valid_utf8 n"
  by (rule valid_utf8_ascii) (auto simp: is_valid_header_name_def list_all_iff token_char_ascii)

lemma is_valid_method_eq: "is_valid_method = is_valid_header_name"
  by (simp add: is_valid_method_def is_valid_header_name_def fun_eq_iff)

lemma request_target_loop_bytes:
  "request_target_loop s \<Longrightarrow> b \<in> set s \<Longrightarrow> 0x20 < u8 b \<and> u8 b \<noteq> 0x7F \<and> b \<notin> set RFC3986_EXCLUDED"
proof (induction s rule: request_target_loop.induct)
  case 1
  then show ?case by simp
next
  case (2 c cs)
  show ?case
  proof (cases "c = CHR ''%''")
    case True
    with "2.prems" obtain h l rest where cs: "cs = h # l # rest"
      and hl: "is_ascii_hexdigit h" "is_ascii_hexdigit l" and r: "request_target_loop rest"
      by (auto split: if_splits list.splits)
    have hexok: "0x20 < u8 x \<and> u8 x \<noteq> 0x7F \<and> x \<notin> set RFC3986_EXCLUDED"
      if "is_ascii_hexdigit x" for x
      using that by (auto simp: RFC3986_EXCLUDED_def class_defs)
    have "0x20 < u8 c \<and> u8 c \<noteq> 0x7F \<and> c \<notin> set RFC3986_EXCLUDED"
      using True by (simp add: RFC3986_EXCLUDED_def)
    moreover have "0x20 < u8 b \<and> u8 b \<noteq> 0x7F \<and> b \<notin> set RFC3986_EXCLUDED" if "b \<in> set rest"
      using "2.IH"(1) [of h "l # rest" l rest] "2.prems" True cs r that by (auto split: if_splits)
    ultimately show ?thesis using "2.prems"(2) cs hl hexok by auto
  next
    case False
    with 2 show ?thesis by (auto split: if_splits)
  qed
qed

section \<open>The protocol version is exactly token / digits . digits\<close>

lemma digit_not_dot: "is_ascii_digit b \<Longrightarrow> b \<noteq> CHR ''.'' \<and> b \<noteq> SP \<and> b \<noteq> CR \<and> b \<noteq> LF"
  by (auto simp: class_defs)

lemma digit_ascii: "is_ascii_digit b \<Longrightarrow> u8 b < 0x80"
  by (simp add: is_ascii_digit_def)

lemma protocol_version_iff:
  "is_valid_protocol_version v \<longleftrightarrow>
     (\<exists>n major minor. v = n @ CHR ''/'' # major @ CHR ''.'' # minor
        \<and> is_valid_token n \<and> major \<noteq> [] \<and> list_all is_ascii_digit major
        \<and> minor \<noteq> [] \<and> list_all is_ascii_digit minor)"
proof
  assume L: "is_valid_protocol_version v"
  then obtain i where i: "position (\<lambda>b. b = CHR ''/'') v = Some i" "i \<noteq> 0"
      "list_all is_token_char (take i v)"
    by (auto simp: is_valid_protocol_version_def split: option.splits if_splits)
  with L obtain j where j: "position (\<lambda>b. b = CHR ''.'') (drop (i + 1) v) = Some j" "j \<noteq> 0"
      "list_all is_ascii_digit (take j (drop (i + 1) v))"
      "drop (j + 1) (drop (i + 1) v) \<noteq> []" "list_all is_ascii_digit (drop (j + 1) (drop (i + 1) v))"
    by (auto simp: is_valid_protocol_version_def Let_def split: option.splits if_splits)
  have "v = take i v @ CHR ''/'' # drop (i + 1) v"
    using position_SomeD [OF i(1)] id_take_nth_drop [of i v] by simp
  moreover have "drop (i + 1) v =
      take j (drop (i + 1) v) @ CHR ''.'' # drop (j + 1) (drop (i + 1) v)"
    using position_SomeD [OF j(1)] id_take_nth_drop [of j "drop (i + 1) v"] by simp
  moreover have "take i v \<noteq> []" "take j (drop (i + 1) v) \<noteq> []"
    using i(2) j(2) position_less [OF i(1)] position_less [OF j(1)] by auto
  ultimately show "\<exists>n major minor. v = n @ CHR ''/'' # major @ CHR ''.'' # minor
        \<and> is_valid_token n \<and> major \<noteq> [] \<and> list_all is_ascii_digit major
        \<and> minor \<noteq> [] \<and> list_all is_ascii_digit minor"
    using i(3) j(3-5) unfolding is_valid_token_def by metis
next
  assume "\<exists>n major minor. v = n @ CHR ''/'' # major @ CHR ''.'' # minor
        \<and> is_valid_token n \<and> major \<noteq> [] \<and> list_all is_ascii_digit major
        \<and> minor \<noteq> [] \<and> list_all is_ascii_digit minor"
  then obtain n major minor where v: "v = n @ CHR ''/'' # major @ CHR ''.'' # minor"
    and n: "is_valid_token n" and d: "major \<noteq> []" "list_all is_ascii_digit major"
      "minor \<noteq> []" "list_all is_ascii_digit minor" by blast
  have "position (\<lambda>b. b = CHR ''/'') v = Some (length n)"
    unfolding v using n token_char_not_sep
    by (intro position_mid) (auto simp: is_valid_token_def list_all_iff)
  moreover have "position (\<lambda>b. b = CHR ''.'') (major @ CHR ''.'' # minor) = Some (length major)"
    using d digit_not_dot by (intro position_mid) (auto simp: list_all_iff)
  ultimately show "is_valid_protocol_version v"
    using n d v by (simp add: is_valid_protocol_version_def is_valid_token_def Let_def)
qed

lemma protocol_version_chars:
  assumes "is_valid_protocol_version v"
  shows "SP \<notin> set v" and "CR \<notin> set v" and "LF \<notin> set v" and "list_all (\<lambda>b. u8 b < 0x80) v"
    and "v \<noteq> []"
proof -
  obtain n a b where v: "v = n @ CHR ''/'' # a @ CHR ''.'' # b" and n: "is_valid_token n"
    and d: "list_all is_ascii_digit a" "list_all is_ascii_digit b"
    using assms unfolding protocol_version_iff by blast
  have *: "x \<noteq> SP \<and> x \<noteq> CR \<and> x \<noteq> LF \<and> u8 x < 0x80" if "x \<in> set v" for x
  proof -
    from that consider "is_token_char x" | "is_ascii_digit x" | "x = CHR ''/'' \<or> x = CHR ''.''"
      using n d by (auto simp: v is_valid_token_def list_all_iff)
    then show ?thesis
      by cases (use token_char_not_sep token_char_ascii digit_ascii digit_not_dot in auto)
  qed
  then show "SP \<notin> set v" "CR \<notin> set v" "LF \<notin> set v" "list_all (\<lambda>b. u8 b < 0x80) v"
    by (auto simp: list_all_iff)
  show "v \<noteq> []" by (simp add: v)
qed

section \<open>trim_ows\<close>

lemma trim_ows_all: "\<forall>c \<in> set s. is_ows c \<Longrightarrow> trim_ows s = []"
proof -
  assume "\<forall>c \<in> set s. is_ows c"
  then have "position (\<lambda>b. \<not> is_ows b) s = None" "rposition (\<lambda>b. \<not> is_ows b) s = None"
    by (auto simp: position_None_iff rposition_None_iff)
  then show "trim_ows s = []" by (simp add: trim_ows_def)
qed

lemma trim_ows_mid:
  assumes "\<forall>c \<in> set l. is_ows c" "\<forall>c \<in> set r. is_ows c"
    and "m \<noteq> []" "\<not> is_ows (hd m)" "\<not> is_ows (last m)"
  shows "trim_ows (l @ m @ r) = m"
proof -
  let ?p = "\<lambda>b. \<not> is_ows b"
  have eq': "l @ m @ r = l @ hd m # (tl m @ r)" using assms(3) by simp
  have "position ?p (l @ m @ r) = Some (length l)"
    unfolding eq' using assms by (intro position_mid) auto
  moreover have eq: "l @ m @ r = (l @ butlast m) @ last m # r" using assms(3) by simp
  have "rposition ?p (l @ m @ r) = Some (length (l @ butlast m))"
    unfolding eq using assms by (intro rposition_mid) auto
  ultimately show ?thesis using assms(3) by (cases m) (simp_all add: trim_ows_def)
qed

lemma ows_decomp:
  "\<exists>l m r. s = l @ m @ r \<and> (\<forall>c \<in> set l. is_ows c) \<and> (\<forall>c \<in> set r. is_ows c)
     \<and> (m = [] \<or> \<not> is_ows (hd m) \<and> \<not> is_ows (last m))"
proof -
  let ?l = "takeWhile is_ows s" and ?t = "dropWhile is_ows s"
  let ?m = "rev (dropWhile is_ows (rev ?t))" and ?r = "rev (takeWhile is_ows (rev ?t))"
  have t: "?t = ?m @ ?r"
    by (metis rev_append rev_rev_ident takeWhile_dropWhile_id)
  have "\<not> is_ows (last ?m)" if "?m \<noteq> []"
    using that hd_dropWhile [of is_ows "rev ?t"] by (simp add: last_rev)
  moreover have "\<not> is_ows (hd ?m)" if m: "?m \<noteq> []"
  proof -
    have "?t \<noteq> []" using m by (metis dropWhile.simps(1) rev.simps(1))
    then have "\<not> is_ows (hd ?t)" by (rule hd_dropWhile)
    moreover have "hd ?t = hd ?m" using m by (subst t) simp
    ultimately show ?thesis by simp
  qed
  moreover have "s = ?l @ ?m @ ?r" using t by (metis takeWhile_dropWhile_id)
  ultimately show ?thesis
    by (intro exI [of _ ?l] exI [of _ ?m] exI [of _ ?r]) (auto dest: set_takeWhileD)
qed

text \<open>What \<open>trim_ows\<close> removes is optional white space, and it removes all of it.\<close>

lemma trim_ows_spec:
  "\<exists>l r. s = l @ trim_ows s @ r \<and> (\<forall>c \<in> set l. is_ows c) \<and> (\<forall>c \<in> set r. is_ows c)
     \<and> (trim_ows s = [] \<or> \<not> is_ows (hd (trim_ows s)) \<and> \<not> is_ows (last (trim_ows s)))"
proof -
  obtain l m r where d: "s = l @ m @ r" "\<forall>c \<in> set l. is_ows c" "\<forall>c \<in> set r. is_ows c"
    "m = [] \<or> \<not> is_ows (hd m) \<and> \<not> is_ows (last m)" using ows_decomp [of s] by blast
  have "trim_ows s = m"
  proof (cases "m = []")
    case True
    with d show ?thesis using trim_ows_all [of s] by auto
  next
    case False
    with d show ?thesis using trim_ows_mid [of l r m] by simp
  qed
  then show ?thesis using d by (intro exI [of _ l] exI [of _ r]) simp
qed

lemma trim_ows_Nil [simp]: "trim_ows [] = []"
  by (rule trim_ows_all) simp

lemma trim_ows_idem [simp]: "trim_ows (trim_ows s) = trim_ows s"
proof (cases "trim_ows s = []")
  case True
  then show ?thesis by simp
next
  case False
  then have "\<not> is_ows (hd (trim_ows s))" "\<not> is_ows (last (trim_ows s))"
    using trim_ows_spec [of s] by blast+
  with False show ?thesis using trim_ows_mid [of "[]" "[]" "trim_ows s"] by simp
qed

lemma set_trim_ows: "set (trim_ows s) \<subseteq> set s"
  using trim_ows_spec [of s] by (metis Un_iff set_append subsetI)

text \<open>A value is trimmed when \<open>trim_ows\<close> leaves it alone.\<close>

lemma trim_ows_no_ows: "\<forall>c \<in> set s. \<not> is_ows c \<Longrightarrow> trim_ows s = s"
  using trim_ows_mid [of "[]" "[]" s] trim_ows_all [of s] by (cases "s = []") auto

lemma trim_ows_Cons_ows: "is_ows c \<Longrightarrow> trim_ows (c # s) = trim_ows s"
proof -
  assume c: "is_ows c"
  obtain l r where d: "s = l @ trim_ows s @ r" "\<forall>c \<in> set l. is_ows c" "\<forall>c \<in> set r. is_ows c"
    "trim_ows s = [] \<or> \<not> is_ows (hd (trim_ows s)) \<and> \<not> is_ows (last (trim_ows s))"
    using trim_ows_spec [of s] by blast
  show "trim_ows (c # s) = trim_ows s"
  proof (cases "trim_ows s = []")
    case True
    then have "\<forall>x \<in> set (c # s). is_ows x" using d c by (metis Un_iff append_Nil set_ConsD set_append)
    with True show ?thesis by (simp only: trim_ows_all)
  next
    case False
    have "trim_ows ((c # l) @ trim_ows s @ r) = trim_ows s"
      using d False c by (intro trim_ows_mid) auto
    then show ?thesis using d(1) by simp
  qed
qed

section \<open>Quoted strings: what escape_quotes writes, parse_quoted_string reads back\<close>

text \<open>Control characters come back as SP; every other character comes back unchanged.\<close>

definition sanitize_char :: "string \<Rightarrow> string" where
  "sanitize_char c = (if is_quoted_pair_char (code_point c) then c else [SP])"

definition sanitize :: "string \<Rightarrow> string" where
  "sanitize s = concat (map sanitize_char (char_slices s))"

text \<open>A slice that \<open>char_slices\<close> cuts out of valid UTF-8.\<close>

definition good_slice :: "string \<Rightarrow> bool" where
  "good_slice c \<longleftrightarrow> valid_utf8 c \<and> char_slices c = [c] \<and>
     ((\<exists>a. c = [a] \<and> u8 a < 0x80) \<or> length c \<noteq> 1 \<and> 0x80 \<le> code_point c)"

lemma mod_lower: "(k::nat) * m + r \<le> x \<Longrightarrow> x < (k + 1) * m \<Longrightarrow> r \<le> x mod m"
proof -
  assume a: "k * m + r \<le> x" "x < (k + 1) * m"
  then have "x div m = k" by (intro div_nat_eqI) (auto simp: mult.commute)
  then have "x mod m = x - m * k" by (metis minus_mult_div_eq_mod)
  with a show "r \<le> x mod m" by (simp add: mult.commute)
qed

lemma code_point_multi:
  assumes "utf8_step a xs = Utf8_Char n" "n \<noteq> 1"
  shows "0x80 \<le> code_point (take n (a # xs))"
proof -
  consider (two) b ys where "n = 2" "xs = b # ys" "0xC2 \<le> u8 a" "u8 a \<le> 0xDF"
    | (three) b c ys where "n = 3" "xs = b # c # ys" "0xE0 \<le> u8 a" "u8 a \<le> 0xEF" "second_of_3 a b"
    | (four) b c d ys where "n = 4" "xs = b # c # d # ys" "0xF0 \<le> u8 a" "u8 a \<le> 0xF4" "second_of_4 a b"
    using assms by (auto simp: utf8_step_def split: if_splits list.splits)
  then show ?thesis
  proof cases
    case two
    then have "2 \<le> u8 a mod 32" by (intro mod_lower [of 6]) auto
    with two show ?thesis by (simp add: numeral_2_eq_2)
  next
    case three
    have "32 \<le> u8 b mod 64 \<or> 1 \<le> u8 a mod 16"
    proof (cases "u8 a = 0xE0")
      case True
      with three have "32 \<le> u8 b mod 64" by (intro mod_lower [of 2]) (auto simp: second_of_3_def)
      then show ?thesis ..
    next
      case False
      with three have "1 \<le> u8 a mod 16" by (intro mod_lower [of 14]) auto
      then show ?thesis ..
    qed
    with three show ?thesis by (auto simp: numeral_3_eq_3)
  next
    case four
    have "16 \<le> u8 b mod 64 \<or> 1 \<le> u8 a mod 8"
    proof (cases "u8 a = 0xF0")
      case True
      with four have "16 \<le> u8 b mod 64" by (intro mod_lower [of 2]) (auto simp: second_of_4_def)
      then show ?thesis ..
    next
      case False
      with four have "1 \<le> u8 a mod 8" by (intro mod_lower [of 30]) auto
      then show ?thesis ..
    qed
    moreover have "take n (a # xs) = [a, b, c, d]" using four by simp
    ultimately show ?thesis by auto
  qed
qed

lemma utf8_step_take: "utf8_step a xs = Utf8_Char n \<Longrightarrow> utf8_step a (take (n - 1) xs) = Utf8_Char n"
  by (simp add: utf8_step_def split: if_splits list.splits) auto

lemma good_slices: "valid_utf8 s \<Longrightarrow> c \<in> set (char_slices s) \<Longrightarrow> good_slice c"
proof (induction s rule: char_slices.induct)
  case 1
  then show ?case by simp
next
  case (2 a xs)
  then obtain n where n: "utf8_step a xs = Utf8_Char n"
    by (cases "utf8_step a xs") (auto simp: valid_utf8_def)
  then have len: "1 \<le> n" "n \<le> Suc (length xs)" using utf8_step_len by auto
  have v: "valid_utf8 (drop (n - 1) xs)"
    using 2 n utf8_error_shift [of n "drop (n - 1) xs" 0] by (simp add: valid_utf8_def)
  have tk: "take n (a # xs) = a # take (n - 1) xs" using len by (cases n) simp_all
  have "good_slice (take n (a # xs))"
  proof (cases "n = 1")
    case True
    with n have "u8 a < 0x80" by (auto simp: utf8_step_def split: if_splits list.splits)
    with True show ?thesis by (simp add: good_slice_def valid_utf8_Cons_ascii)
  next
    case False
    with n len utf8_step_take [OF n] code_point_multi [OF n] show ?thesis
      by (simp add: good_slice_def tk valid_utf8_def)
  qed
  then show ?case using "2.IH"(1) [OF n v] "2.prems"(2) n by auto
qed

lemma good_slice_special:
  "good_slice c \<Longrightarrow> (code_point c = 0x22 \<longleftrightarrow> c = [DQUOTE]) \<and> (code_point c = 0x5C \<longleftrightarrow> c = [BACKSLASH])"
  by (auto simp: good_slice_def u8_inject [symmetric] simp del: u8_inject)

definition escape_slices :: "string \<Rightarrow> string list" where
  "escape_slices c =
     (if \<not> is_quoted_pair_char (code_point c) then [[SP]]
      else if c = [DQUOTE] \<or> c = [BACKSLASH] then [[BACKSLASH], c]
      else [c])"

lemma escape_char_slices:
  assumes "good_slice c"
  shows "valid_utf8 (escape_char c)" and "char_slices (escape_char c) = escape_slices c"
  using assms by (auto simp: good_slice_def escape_char_def escape_slices_def valid_utf8_Cons_ascii)

lemma char_slices_escape:
  assumes "\<forall>c \<in> set cl. good_slice c"
  shows "char_slices (concat (map escape_char cl) @ t) = concat (map escape_slices cl) @ char_slices t"
  using assms by (induction cl) (simp_all add: char_slices_append escape_char_slices)

lemma quoted_loop_escape:
  assumes "good_slice c"
  shows "quoted_string_loop (escape_slices c @ cs) False res =
           quoted_string_loop cs False (res @ sanitize_char c)"
proof (cases "c = [DQUOTE] \<or> c = [BACKSLASH]")
  case True
  then show ?thesis
    by (auto simp: escape_slices_def sanitize_char_def is_quoted_pair_char_def)
next
  case False
  with good_slice_special [OF assms]
  have "is_quoted_pair_char (code_point c) \<Longrightarrow> is_qdtext_char (code_point c)"
    by (auto simp: is_quoted_pair_char_def is_qdtext_char_def)
  with False show ?thesis
    by (auto simp: escape_slices_def sanitize_char_def is_qdtext_char_def)
qed

lemma quoted_loop_escape_all:
  assumes "\<forall>c \<in> set cl. good_slice c"
  shows "quoted_string_loop (concat (map escape_slices cl) @ cs) False res =
           quoted_string_loop cs False (res @ concat (map sanitize_char cl))"
  using assms by (induction cl arbitrary: res) (simp_all add: quoted_loop_escape)

lemma sanitize_id:
  "\<forall>c \<in> set (char_slices s). is_quoted_pair_char (code_point c) \<Longrightarrow> sanitize s = s"
proof -
  assume "\<forall>c \<in> set (char_slices s). is_quoted_pair_char (code_point c)"
  then have "map sanitize_char (char_slices s) = char_slices s"
    by (intro map_idI) (simp add: sanitize_char_def)
  then show "sanitize s = s" by (simp add: sanitize_def)
qed

lemma parse_escape_quotes:
  assumes "valid_utf8 s"
  shows "parse_quoted_string (escape_quotes s @ DQUOTE # rest) = Ok (sanitize s, rest)"
proof -
  have g: "\<forall>c \<in> set (char_slices s). good_slice c" using good_slices [OF assms] by blast
  have "char_slices (DQUOTE # rest) = [DQUOTE] # char_slices rest" by simp
  then show ?thesis
    unfolding parse_quoted_string_def escape_quotes_def char_slices_escape [OF g]
      quoted_loop_escape_all [OF g] by (simp add: sanitize_def)
qed

text \<open>The pieces of \<open>split_with_quotes\<close>, joined with the delimiter, are the input.\<close>

lemma split_quotes_loop_neq_Nil [simp]: "split_quotes_loop d cs q e cur \<noteq> []"
  by (induction cs arbitrary: q e cur) simp_all

lemma split_quotes_loop_join:
  "join_with d (split_quotes_loop d cs q e cur) = cur @ concat cs"
  by (induction cs arbitrary: q e cur) simp_all

lemma split_with_quotes_join: "join_with d (split_with_quotes s d) = s"
  by (simp add: split_with_quotes_def split_quotes_loop_join)

text \<open>
  \<open>escape_quotes\<close> and \<open>parse_quoted_string\<close> are inverse up to the characters a quoted string
  cannot carry, which become spaces; parsing stops at the closing quote and leaves the rest.
\<close>

lemma quoted_string_roundtrip:
  assumes "valid_utf8 s"
  shows "parse_quoted_string (escape_quotes s @ DQUOTE # rest) = Ok (sanitize s, rest)
    \<and> ((\<forall>c \<in> set (char_slices s). is_quoted_pair_char (code_point c)) \<longrightarrow> sanitize s = s)"
  using parse_escape_quotes [OF assms] sanitize_id by blast

end
