(* ===== verification/Host.thy ===== *)
theory Host
  imports Validate
begin

text \<open>
  \<^verbatim>\<open>src/host.rs\<close>: parsing of the \<open>Host\<close> header value. The two address parsers of
  \<open>core::net\<close> the code calls are modelled as the recursive-descent parser the standard
  library uses; only success matters to the caller.
\<close>

section \<open>core::net address parsing\<close>

definition read_number :: "nat \<Rightarrow> nat \<Rightarrow> bool \<Rightarrow> nat \<Rightarrow> string \<Rightarrow> string option" where
  "read_number radix max_digits allow_zero_prefix mx s =
     (let ds = takeWhile (\<lambda>c. to_digit radix c \<noteq> None) s; rest = dropWhile (\<lambda>c. to_digit radix c \<noteq> None) s
      in if ds = [] \<or> length ds > max_digits then None
         else if \<not> allow_zero_prefix \<and> hd ds = CHR ''0'' \<and> length ds > 1 then None
         else case digits_value radix 0 ds of
                None \<Rightarrow> None
              | Some v \<Rightarrow> if v \<le> mx then Some rest else None)"

definition read_given_char :: "char \<Rightarrow> string \<Rightarrow> string option" where
  "read_given_char c s = (case s of [] \<Rightarrow> None | x # xs \<Rightarrow> if x = c then Some xs else None)"

definition read_separator :: "char \<Rightarrow> nat \<Rightarrow> (string \<Rightarrow> string option) \<Rightarrow> string \<Rightarrow> string option" where
  "read_separator c i p s = (if i > 0 then Option.bind (read_given_char c s) p else p s)"

fun read_ipv4_groups :: "nat \<Rightarrow> nat \<Rightarrow> string \<Rightarrow> string option" where
  "read_ipv4_groups 0 i s = Some s"
| "read_ipv4_groups (Suc k) i s =
     Option.bind (read_separator (CHR ''.'') i (read_number 10 3 False 255) s)
       (read_ipv4_groups k (Suc i))"

definition read_ipv4_addr :: "string \<Rightarrow> string option" where
  "read_ipv4_addr s = read_ipv4_groups 4 0 s"

definition parse_ipv4 :: "string \<Rightarrow> bool" where
  "parse_ipv4 s \<longleftrightarrow> length s \<le> 15 \<and> read_ipv4_addr s = Some []"

text \<open>\<open>read_groups\<close> with \<open>k\<close> slots left and \<open>i\<close> groups read: groups read, whether the
  last two came from an embedded IPv4 address, and the rest of the input.\<close>

fun read_groups :: "nat \<Rightarrow> nat \<Rightarrow> string \<Rightarrow> nat \<times> bool \<times> string" where
  "read_groups 0 i s = (i, False, s)"
| "read_groups (Suc k) i s =
     (case (if 0 < k then read_separator (CHR '':'') i read_ipv4_addr s else None) of
        Some r \<Rightarrow> (i + 2, True, r)
      | None \<Rightarrow>
          (case read_separator (CHR '':'') i (read_number 16 4 True 65535) s of
             Some r \<Rightarrow> read_groups k (Suc i) r
           | None \<Rightarrow> (i, False, s)))"

definition parse_ipv6 :: "string \<Rightarrow> bool" where
  "parse_ipv6 s =
     (let (head_size, head_ipv4, r) = read_groups 8 0 s
      in if head_size = 8 then r = []
         else if head_ipv4 then False
         else case Option.bind (read_given_char (CHR '':'') r) (read_given_char (CHR '':'')) of
                None \<Rightarrow> False
              | Some r2 \<Rightarrow> snd (snd (read_groups (8 - (head_size + 1)) 0 r2)) = [])"

section \<open>Host\<close>

datatype HostError = HostEmpty | InvalidFormat | InvalidHost | InvalidPort

record Host =
  host :: string
  port :: "nat option"

definition is_unreserved :: "char \<Rightarrow> bool" where
  [class_defs]: "is_unreserved b \<longleftrightarrow>
     is_ascii_alphanumeric b \<or> b = CHR ''-'' \<or> b = CHR ''.'' \<or> b = CHR ''_'' \<or> b = CHR ''~''"

definition is_sub_delim :: "char \<Rightarrow> bool" where
  [class_defs]: "is_sub_delim b \<longleftrightarrow>
     b \<in> set [CHR ''!'', CHR ''$'', CHR ''&'', CHR 0x27, CHR ''('', CHR '')'', CHR ''*'', CHR ''+'',
              CHR '','', CHR '';'', CHR ''='']"

definition is_hexdig :: "char \<Rightarrow> bool" where
  [class_defs]: "is_hexdig b \<longleftrightarrow> is_ascii_hexdigit b"

definition is_ipvfuture_char :: "char \<Rightarrow> bool" where
  [class_defs]: "is_ipvfuture_char b \<longleftrightarrow> is_unreserved b \<or> is_sub_delim b \<or> b = CHR '':''"

fun reg_name_loop :: "string \<Rightarrow> bool" where
  "reg_name_loop [] = True"
| "reg_name_loop (b # bs) =
     (if is_unreserved b \<or> is_sub_delim b then reg_name_loop bs
      else if b = CHR ''%'' then
        (case bs of
           h # l # rest \<Rightarrow> if \<not> is_hexdig h \<or> \<not> is_hexdig l then False else reg_name_loop rest
         | _ \<Rightarrow> False)
      else False)"

definition is_valid_reg_name :: "string \<Rightarrow> bool" where
  "is_valid_reg_name input \<longleftrightarrow> input \<noteq> [] \<and> reg_name_loop input"

definition is_valid_ipvfuture :: "string \<Rightarrow> bool" where
  "is_valid_ipvfuture input =
     (if length input < 3 then False
      else if hd input \<noteq> CHR ''v'' \<and> hd input \<noteq> CHR ''V'' then False
      else
        let hex = takeWhile is_hexdig (tl input); rest = dropWhile is_hexdig (tl input)
        in if hex = [] \<or> rest = [] \<or> hd rest \<noteq> CHR ''.'' then False
           else if tl rest = [] then False
           else list_all is_ipvfuture_char (tl rest))"

definition is_valid_ipv6_or_future :: "string \<Rightarrow> bool" where
  "is_valid_ipv6_or_future input =
     (if starts_with input ''v'' \<or> starts_with input ''V'' then is_valid_ipvfuture input
      else parse_ipv6 input)"

definition parse_port :: "string \<Rightarrow> (nat, HostError) result" where
  "parse_port input =
     (if input = [] \<or> \<not> list_all is_ascii_digit input then Err InvalidPort
      else ok_or (parse_u16 input) InvalidPort)"

definition split_host_port :: "string \<Rightarrow> (string \<times> nat option, HostError) result" where
  "split_host_port input =
     (case rsplit_once (CHR '':'') input of
        Some (h, port_str) \<Rightarrow>
          if CHR '':'' \<in> set h then Err InvalidHost
          else if port_str = [] then Err InvalidPort
          else and_then (parse_port port_str) (\<lambda>p. Ok (h, Some p))
      | None \<Rightarrow> Ok (input, None))"

definition parse_ipv6_host :: "string \<Rightarrow> (Host, HostError) result" where
  "parse_ipv6_host input =
     and_then (ok_or (find_char (CHR '']'') input) InvalidHost) (\<lambda>e.
       let host_inner = take (e - 1) (drop 1 input); rest = drop (e + 1) input
       in and_then
            (if rest = [] then Ok None
             else case strip_prefix rest '':'' of
                    Some port_str \<Rightarrow> and_then (parse_port port_str) (\<lambda>p. Ok (Some p))
                  | None \<Rightarrow> Err InvalidHost)
            (\<lambda>p. reject_if (host_inner = []) InvalidHost
               (reject_if (\<not> is_valid_ipv6_or_future host_inner) InvalidHost
                 (Ok \<lparr>host = take (e + 1) input, port = p\<rparr>))))"

definition Host_parse :: "string \<Rightarrow> (Host, HostError) result" where
  "Host_parse s =
     (let input = trim_ows s
      in reject_if (input = []) HostEmpty
          (reject_if (has_whitespace input) InvalidFormat
            (if starts_with input ''['' then parse_ipv6_host input
             else
               and_then (split_host_port input) (\<lambda>(host_part, p).
                 reject_if (host_part = [] \<or> CHR ''@'' \<in> set host_part) InvalidHost
                   (if parse_ipv4 host_part then Ok \<lparr>host = host_part, port = p\<rparr>
                    else reject_if (\<not> is_valid_reg_name host_part) InvalidHost
                           (Ok \<lparr>host = host_part, port = p\<rparr>))))))"

definition Host_is_ipv6 :: "Host \<Rightarrow> bool" where
  "Host_is_ipv6 h \<longleftrightarrow> starts_with (host h) ''[''"

definition Host_display :: "Host \<Rightarrow> string" where
  "Host_display h = (case port h of Some p \<Rightarrow> host h @ '':'' @ nat_to_dec p | None \<Rightarrow> host h)"

section \<open>What the parsers accept\<close>

text \<open>Every accepted character is printable ASCII; no white space or control byte gets through.\<close>

definition host_char :: "char \<Rightarrow> bool" where
  "host_char c \<longleftrightarrow> 0x21 \<le> u8 c \<and> u8 c < 0x7F"

lemma to_digit_alnum: "to_digit r c \<noteq> None \<Longrightarrow> r \<le> 36 \<Longrightarrow> is_ascii_alphanumeric c"
  by (auto simp: to_digit_def class_defs Let_def split: if_splits)

lemma read_number_prefix:
  assumes "read_number r m z mx s = Some t" "r \<le> 36"
  shows "\<exists>p. s = p @ t \<and> list_all is_ascii_alphanumeric p"
proof -
  have "t = dropWhile (\<lambda>c. to_digit r c \<noteq> None) s"
    using assms by (auto simp: read_number_def Let_def split: if_splits option.splits)
  then have "s = takeWhile (\<lambda>c. to_digit r c \<noteq> None) s @ t" by simp
  moreover have "list_all is_ascii_alphanumeric (takeWhile (\<lambda>c. to_digit r c \<noteq> None) s)"
    using to_digit_alnum [OF _ assms(2)] by (auto simp: list_all_iff dest!: set_takeWhileD)
  ultimately show ?thesis by blast
qed

definition addr_char :: "char \<Rightarrow> bool" where
  "addr_char c \<longleftrightarrow> is_ascii_alphanumeric c \<or> c = CHR '':'' \<or> c = CHR ''.''"

definition consumes :: "(string \<Rightarrow> string option) \<Rightarrow> bool" where
  "consumes p \<longleftrightarrow> (\<forall>s t. p s = Some t \<longrightarrow> (\<exists>q. s = q @ t \<and> list_all addr_char q))"

lemma consumes_read_number: "r \<le> 36 \<Longrightarrow> consumes (read_number r m z mx)"
  unfolding consumes_def using read_number_prefix
  by (metis (no_types, lifting) addr_char_def list_all_iff)

lemma consumes_read_separator:
  assumes "consumes p" "c = CHR '':'' \<or> c = CHR ''.''"
  shows "consumes (read_separator c i p)"
  unfolding consumes_def
proof (intro allI impI)
  fix s t assume s: "read_separator c i p s = Some t"
  show "\<exists>q. s = q @ t \<and> list_all addr_char q"
  proof (cases "i > 0")
    case True
    with s obtain r where r: "s = c # r" "p r = Some t"
      by (auto simp: read_separator_def read_given_char_def split: list.splits if_splits bind_splits)
    then obtain q where "r = q @ t" "list_all addr_char q" using assms(1) consumes_def by blast
    with r assms(2) show ?thesis by (intro exI [of _ "c # q"]) (auto simp: addr_char_def)
  next
    case False
    with s assms(1) show ?thesis by (auto simp: read_separator_def consumes_def)
  qed
qed

lemma consumes_ipv4_groups: "consumes (read_ipv4_groups k i)"
proof (induction k arbitrary: i)
  case 0
  then show ?case by (simp add: consumes_def)
next
  case (Suc k)
  have sep: "consumes (read_separator (CHR ''.'') i (read_number 10 3 False 255))"
    by (rule consumes_read_separator [OF consumes_read_number]) simp_all
  show ?case
    unfolding consumes_def
  proof (intro allI impI)
    fix s t assume "read_ipv4_groups (Suc k) i s = Some t"
    then obtain r where r: "read_separator (CHR ''.'') i (read_number 10 3 False 255) s = Some r"
      "read_ipv4_groups k (Suc i) r = Some t" by (auto split: bind_splits)
    obtain q where "s = q @ r" "list_all addr_char q" using sep r(1) consumes_def by blast
    moreover obtain q' where "r = q' @ t" "list_all addr_char q'"
      using Suc.IH [of "Suc i"] r(2) consumes_def by blast
    ultimately show "\<exists>q. s = q @ t \<and> list_all addr_char q"
      by (intro exI [of _ "q @ q'"]) simp
  qed
qed

lemma consumes_ipv4: "consumes read_ipv4_addr"
  using consumes_ipv4_groups [of 4 0] by (simp add: consumes_def read_ipv4_addr_def)

lemma read_groups_prefix:
  "read_groups k i s = (n, v4, t) \<Longrightarrow> \<exists>q. s = q @ t \<and> list_all addr_char q"
proof (induction k i s arbitrary: n v4 t rule: read_groups.induct)
  case (1 i s)
  then show ?case by simp
next
  case (2 k i s)
  have c4: "consumes (read_separator (CHR '':'') i read_ipv4_addr)"
    by (rule consumes_read_separator [OF consumes_ipv4]) simp
  have c6: "consumes (read_separator (CHR '':'') i (read_number 16 4 True 65535))"
    by (rule consumes_read_separator [OF consumes_read_number]) simp_all
  show ?case
  proof (cases "if 0 < k then read_separator (CHR '':'') i read_ipv4_addr s else None")
    case (Some r)
    with 2 have "r = t" by simp
    with Some c4 show ?thesis by (auto simp: consumes_def split: if_splits)
  next
    case None
    show ?thesis
    proof (cases "read_separator (CHR '':'') i (read_number 16 4 True 65535) s")
      case N: None
      with None "2.prems" show ?thesis by simp
    next
      case S: (Some r)
      from S c6 obtain q where q: "s = q @ r" "list_all addr_char q" by (auto simp: consumes_def)
      from S None "2.prems" have "read_groups k (Suc i) r = (n, v4, t)" by simp
      from "2.IH" [OF None S this] obtain q' where "r = q' @ t" "list_all addr_char q'" by blast
      with q show ?thesis by (intro exI [of _ "q @ q'"]) simp
    qed
  qed
qed

lemma parse_ipv6_chars:
  assumes "parse_ipv6 s"
  shows "list_all addr_char s"
proof -
  obtain n v4 r where g: "read_groups 8 0 s = (n, v4, r)" by (cases "read_groups 8 0 s") auto
  then obtain q where q: "s = q @ r" "list_all addr_char q" using read_groups_prefix by blast
  show ?thesis
  proof (cases "n = 8")
    case True
    with assms g q show ?thesis by (simp add: parse_ipv6_def)
  next
    case False
    with assms g obtain r2 where r2: "r = CHR '':'' # CHR '':'' # r2"
      "snd (snd (read_groups (8 - (n + 1)) 0 r2)) = []"
      by (auto simp: parse_ipv6_def read_given_char_def split: if_splits option.splits list.splits
          bind_splits)
    then obtain a b where "read_groups (8 - (n + 1)) 0 r2 = (a, b, [])"
      by (metis prod.collapse)
    then have "list_all addr_char r2" using read_groups_prefix by fastforce
    with q r2 show ?thesis by (simp add: addr_char_def)
  qed
qed

lemma parse_ipv4_chars: "parse_ipv4 s \<Longrightarrow> list_all addr_char s"
  using consumes_ipv4 by (fastforce simp: parse_ipv4_def consumes_def)

lemma reg_name_loop_chars: "reg_name_loop s \<Longrightarrow>
   list_all (\<lambda>c. is_unreserved c \<or> is_sub_delim c \<or> c = CHR ''%'' \<or> is_hexdig c) s"
  by (induction s rule: reg_name_loop.induct) (auto split: if_splits list.splits)

lemma ipvfuture_chars:
  assumes "is_valid_ipvfuture s"
  shows "list_all (\<lambda>c. is_ipvfuture_char c) s"
proof -
  have cls: "is_ipvfuture_char (CHR ''v'')" "is_ipvfuture_char (CHR ''V'')" "is_ipvfuture_char (CHR ''.'')"
    by (simp_all add: class_defs)
  obtain c t where s: "s = c # t" "c = CHR ''v'' \<or> c = CHR ''V''"
    using assms by (cases s) (auto simp: is_valid_ipvfuture_def split: if_splits)
  obtain d u where t: "dropWhile is_hexdig t = d # u" "d = CHR ''.''" "list_all is_ipvfuture_char u"
    using assms s(1) by (cases "dropWhile is_hexdig t") (auto simp: is_valid_ipvfuture_def Let_def split: if_splits)
  have eq: "t = takeWhile is_hexdig t @ d # u" using takeWhile_dropWhile_id [of is_hexdig t] unfolding t(1) by (rule sym)
  have "list_all is_ipvfuture_char (takeWhile is_hexdig t)"
    by (auto simp: list_all_iff class_defs dest!: set_takeWhileD)
  moreover have "is_ipvfuture_char c" using s(2) cls(1,2) by metis
  moreover have "is_ipvfuture_char d" using t(2) cls(3) by simp
  ultimately have "list_all is_ipvfuture_char (takeWhile is_hexdig t @ d # u)"
    using t(3) by simp
  then have "list_all is_ipvfuture_char t" by (subst eq)
  with s(1) \<open>is_ipvfuture_char c\<close> show ?thesis by simp
qed

lemma host_char_classes:
  "is_unreserved c \<Longrightarrow> host_char c" "is_sub_delim c \<Longrightarrow> host_char c" "is_hexdig c \<Longrightarrow> host_char c"
  "addr_char c \<Longrightarrow> host_char c" "is_ipvfuture_char c \<Longrightarrow> host_char c" "is_ascii_digit c \<Longrightarrow> host_char c"
  by (auto simp: host_char_def addr_char_def class_defs)

definition reg_part :: "string \<Rightarrow> bool" where
  "reg_part h \<longleftrightarrow> h \<noteq> [] \<and> CHR ''@'' \<notin> set h \<and> CHR '':'' \<notin> set h \<and> (parse_ipv4 h \<or> is_valid_reg_name h)"

lemma reg_part_chars:
  assumes "reg_part h"
  shows "list_all host_char h" and "\<not> starts_with h ''[''"
proof -
  have c: "list_all (\<lambda>c. host_char c \<and> c \<noteq> CHR ''['') h"
  proof (cases "parse_ipv4 h")
    case True
    then show ?thesis
      using parse_ipv4_chars [OF True] by (auto simp: list_all_iff host_char_classes addr_char_def class_defs)
  next
    case False
    with assms have "reg_name_loop h" by (simp add: reg_part_def is_valid_reg_name_def)
    moreover have "host_char (CHR ''%'')" by (simp add: host_char_def)
    moreover have "\<not> is_unreserved (CHR ''['') \<and> \<not> is_sub_delim (CHR ''['') \<and> \<not> is_hexdig (CHR ''['')"
      by (simp add: class_defs)
    ultimately show ?thesis
      using reg_name_loop_chars [of h] by (auto simp: list_all_iff host_char_classes)
  qed
  then show "list_all host_char h" by (simp add: list_all_iff)
  show "\<not> starts_with h ''[''"
    using c assms by (cases h) (auto simp: starts_with_def reg_part_def)
qed

lemma ipv6_or_future_chars: "is_valid_ipv6_or_future s \<Longrightarrow> list_all host_char s"
  using parse_ipv6_chars [of s] ipvfuture_chars [of s]
  by (auto simp: is_valid_ipv6_or_future_def list_all_iff host_char_classes split: if_splits)

section \<open>Printing and parsing again\<close>

lemma host_chars_neutral:
  assumes "list_all host_char s"
  shows "trim_ows s = s" and "\<not> has_whitespace s"
proof -
  show "trim_ows s = s"
    using assms by (intro trim_ows_no_ows) (auto simp: list_all_iff host_char_def is_ows_def)
  have "char_slices s = map (\<lambda>c. [c]) s"
    using assms by (intro char_slices_ascii) (auto simp: list_all_iff host_char_def)
  moreover have "\<not> is_whitespace_cp (u8 c)" if "c \<in> set s" for c
    using assms that by (auto simp: list_all_iff host_char_def is_whitespace_cp_def)
  ultimately show "\<not> has_whitespace s" by (auto simp: has_whitespace_def list_ex_iff)
qed

lemma rsplit_once_mid: "c \<notin> set b \<Longrightarrow> rsplit_once c (a @ c # b) = Some (a, b)"
  by (subst rsplit_once_def, subst rfind_char_def, subst rposition_mid) auto

lemma rsplit_once_None: "c \<notin> set s \<Longrightarrow> rsplit_once c s = None"
  by (auto simp: rsplit_once_def rfind_char_def rposition_None_iff)

lemma digit_char_digit: "d < 10 \<Longrightarrow> is_ascii_digit (digit_char d)"
  by (simp add: is_ascii_digit_def of_char_digit_char)

lemma nat_to_dec_digits: "list_all is_ascii_digit (nat_to_dec n)" and nat_to_dec_neq_Nil: "nat_to_dec n \<noteq> []"
  using set_to_base [of 10 _ n] digit_char_digit by (auto simp: nat_to_dec_def list_all_iff)

lemma nat_to_dec_no_colon: "CHR '':'' \<notin> set (nat_to_dec n)"
  using nat_to_dec_digits [of n] by (auto simp: list_all_iff class_defs)

lemma parse_port_dec: "p \<le> u16_max \<Longrightarrow> parse_port (nat_to_dec p) = Ok p"
  by (simp add: parse_port_def nat_to_dec_digits nat_to_dec_neq_Nil)
    (simp add: nat_to_dec_def from_str_radix_to_base)

lemma parse_port_bound: "parse_port s = Ok p \<Longrightarrow> p \<le> u16_max"
  by (auto simp: parse_port_def result_iff from_str_radix_bound split: if_splits)

text \<open>The two shapes of a parsed host.\<close>

definition host_wf :: "Host \<Rightarrow> bool" where
  "host_wf h \<longleftrightarrow> (case port h of None \<Rightarrow> True | Some p \<Rightarrow> p \<le> u16_max) \<and>
     (reg_part (host h) \<or>
      (\<exists>inner. host h = ''['' @ inner @ '']'' \<and> CHR '']'' \<notin> set inner \<and> inner \<noteq> []
         \<and> is_valid_ipv6_or_future inner))"

lemma Host_parse_reg:
  assumes "reg_part h" "case p of None \<Rightarrow> True | Some n \<Rightarrow> n \<le> u16_max"
  shows "Host_parse (Host_display \<lparr>host = h, port = p\<rparr>) = Ok \<lparr>host = h, port = p\<rparr>"
proof -
  let ?s = "Host_display \<lparr>host = h, port = p\<rparr>"
  have h: "list_all host_char h" "\<not> starts_with h ''[''" "h \<noteq> []" "CHR ''@'' \<notin> set h" "CHR '':'' \<notin> set h"
    using assms reg_part_chars by (auto simp: reg_part_def)
  have cs: "list_all host_char ?s" using h(1)
    by (auto simp: Host_display_def list_all_iff host_char_classes nat_to_dec_digits [unfolded list_all_iff]
        host_char_def [of "CHR '':''"] split: option.splits)
  have "split_host_port ?s = Ok (h, p)"
    using assms(2) h(5)
    by (auto simp: Host_display_def split_host_port_def rsplit_once_None rsplit_once_mid
        nat_to_dec_no_colon nat_to_dec_neq_Nil parse_port_dec split: option.splits)
  moreover have "\<not> starts_with ?s ''[''" "?s \<noteq> []"
    using h(2,3) by (cases h; auto simp: Host_display_def starts_with_def split: option.splits)+
  ultimately show ?thesis
    using assms(1) h(3,4) host_chars_neutral [OF cs] by (auto simp: Host_parse_def reg_part_def)
qed

lemma Host_parse_ipv6:
  assumes "is_valid_ipv6_or_future inner" "inner \<noteq> []" "CHR '']'' \<notin> set inner"
    "case p of None \<Rightarrow> True | Some n \<Rightarrow> n \<le> u16_max"
  shows "Host_parse (Host_display \<lparr>host = ''['' @ inner @ '']'', port = p\<rparr>) =
           Ok \<lparr>host = ''['' @ inner @ '']'', port = p\<rparr>"
proof -
  define sfx where "sfx = (case p of None \<Rightarrow> [] | Some n \<Rightarrow> '':'' @ nat_to_dec n)"
  let ?s = "(CHR ''['' # inner) @ CHR '']'' # sfx"
  have disp: "Host_display \<lparr>host = ''['' @ inner @ '']'', port = p\<rparr> = ?s"
    by (auto simp: Host_display_def sfx_def split: option.splits)
  have cs: "list_all host_char ?s"
    using ipv6_or_future_chars [OF assms(1)]
    by (auto simp: sfx_def list_all_iff host_char_classes nat_to_dec_digits [unfolded list_all_iff]
        host_char_def [of "CHR '':''"] host_char_def [of "CHR ''[''"] host_char_def [of "CHR '']''"]
        split: option.splits)
  have "find_char (CHR '']'') ?s = Some (length (CHR ''['' # inner))"
    unfolding find_char_def using assms(3) by (intro position_mid) auto
  then have "parse_ipv6_host ?s = Ok \<lparr>host = ''['' @ inner @ '']'', port = p\<rparr>"
    using assms by (auto simp: parse_ipv6_host_def sfx_def strip_prefix_def starts_with_def
        parse_port_dec split: option.splits)
  then show ?thesis
    unfolding disp using host_chars_neutral [OF cs] by (simp add: Host_parse_def starts_with_def)
qed

lemma Host_roundtrip_wf: "host_wf h \<Longrightarrow> Host_parse (Host_display h) = Ok h"
proof -
  assume "host_wf h"
  moreover obtain hh p where h: "h = \<lparr>host = hh, port = p\<rparr>" by (cases h) simp
  ultimately show ?thesis
    using Host_parse_reg [of hh p] Host_parse_ipv6 [of _ p] by (auto simp: host_wf_def)
qed

lemma split_host_port_no_colon:
  assumes "split_host_port s = Ok (h, p)"
  shows "CHR '':'' \<notin> set h \<and> (case p of None \<Rightarrow> True | Some n \<Rightarrow> n \<le> u16_max)"
proof (cases "rsplit_once (CHR '':'') s")
  case None
  then have "CHR '':'' \<notin> set s" by (auto simp: rsplit_once_def rfind_char_def rposition_None_iff)
  with None assms show ?thesis by (simp add: split_host_port_def)
next
  case (Some ab)
  then obtain a b where ab: "rsplit_once (CHR '':'') s = Some (a, b)" by (cases ab) simp
  with assms obtain n where "CHR '':'' \<notin> set a" "h = a" "p = Some n" "parse_port b = Ok n"
    by (auto simp: split_host_port_def result_iff split: if_splits)
  then show ?thesis by (simp add: parse_port_bound)
qed

lemma Host_parse_wf: "Host_parse s = Ok h \<Longrightarrow> host_wf h"
proof -
  assume s: "Host_parse s = Ok h"
  let ?i = "trim_ows s"
  show "host_wf h"
  proof (cases "starts_with ?i ''[''")
    case True
    with s have p: "parse_ipv6_host ?i = Ok h" by (auto simp: Host_parse_def result_iff Let_def)
    then obtain e where e: "find_char (CHR '']'') ?i = Some e"
      by (auto simp: parse_ipv6_host_def result_iff)
    let ?inner = "take (e - 1) (drop 1 ?i)"
    have hd: "?i = CHR ''['' # drop 1 ?i" using True by (cases ?i) (auto simp: starts_with_def)
    have e': "e < length ?i" "?i ! e = CHR '']''" "CHR '']'' \<notin> set (take e ?i)"
      using position_SomeD [OF e [unfolded find_char_def]] by auto
    obtain k where k: "e = Suc k"
    proof (cases e)
      case 0
      with e'(2) have "?i ! 0 = CHR '']''" by simp
      moreover have "?i ! 0 = CHR ''[''" by (subst hd) simp
      ultimately show ?thesis by simp
    qed
    have tk: "take e ?i = CHR ''['' # ?inner" unfolding k by (subst hd) simp
    have "take (e + 1) ?i = ''['' @ ?inner @ '']''"
      using e' tk by (simp add: take_Suc_conv_app_nth)
    moreover have "CHR '']'' \<notin> set ?inner" using e'(3) tk by auto
    ultimately show ?thesis
      using p e by (auto simp: parse_ipv6_host_def result_iff host_wf_def Let_def parse_port_bound
          split: if_splits option.splits)
  next
    case False
    with s obtain hp p where "split_host_port ?i = Ok (hp, p)" "h = \<lparr>host = hp, port = p\<rparr>"
      "hp \<noteq> []" "CHR ''@'' \<notin> set hp" "parse_ipv4 hp \<or> is_valid_reg_name hp"
      by (auto simp: Host_parse_def result_iff Let_def split: if_splits)
    then show ?thesis
      using split_host_port_no_colon [of ?i hp p] by (auto simp: host_wf_def reg_part_def)
  qed
qed

lemma Host_roundtrip: "Host_parse s = Ok h \<Longrightarrow> Host_parse (Host_display h) = Ok h"
  by (rule Host_roundtrip_wf [OF Host_parse_wf])

lemma Host_parse_not_Panic [simp]: "Host_parse s \<noteq> Panic"
  by (auto simp: Host_parse_def parse_ipv6_host_def split_host_port_def parse_port_def Let_def
      panic_iff split: option.splits if_splits)

text \<open>
  C20. A parsed \<open>Host\<close> is printed so that parsing the output gives the same host: the host part,
  its bracketed form for an IPv6 or future address, and the port are all recovered.
\<close>

theorem Host_parse_display:
  assumes "Host_parse s = Ok h"
  shows "Host_parse (Host_display h) = Ok h"
  by (rule Host_roundtrip [OF assms])

theorem Host_parse_display_witness:
  "Host_parse ''[::1]:8080'' = Ok \<lparr>host = ''[::1]'', port = Some 8080\<rparr>
   \<and> Host_parse (Host_display \<lparr>host = ''[::1]'', port = Some 8080\<rparr>) = Ok \<lparr>host = ''[::1]'', port = Some 8080\<rparr>"
proof -
  have p: "Host_parse ''[::1]:8080'' = Ok \<lparr>host = ''[::1]'', port = Some 8080\<rparr>" by code_simp
  from p Host_parse_display [OF p] show ?thesis by (rule conjI)
qed

end
