(* ===== verification/Errors.thy ===== *)
theory Errors
  imports Rust_Std
begin

text \<open>
  The plain data types every part of the library shares: the error enums of
  \<^verbatim>\<open>src/error.rs\<close> and \<^verbatim>\<open>src/compression.rs\<close>, the decoder limits of
  \<^verbatim>\<open>src/limits.rs\<close> and the decoding phases of \<^verbatim>\<open>src/decoder/phase.rs\<close>.
\<close>

type_synonym header = "string \<times> string"

datatype CompressionError =
    BufferTooSmall nat nat
  | CompressionInvalidData string
  | CompressionInternal string
  | UnexpectedEof
  | AlreadyFinished

datatype CompressionStatus =
    CompContinue (consumed: nat) (produced: nat)
  | CompComplete (consumed: nat) (produced: nat)
  | CompOutputFull (consumed: nat) (produced: nat)

datatype Error =
    InvalidData string
  | BufferOverflow nat nat
  | TooManyHeaders nat nat
  | HeaderLineTooLong nat nat
  | BodyTooLarge nat nat
  | ChunkLineTooLong nat nat
  | Compression CompressionError

datatype EncodeError =
    MissingHostHeader
  | ConflictingTransferEncodingAndContentLength
  | ForbiddenTransferEncoding nat
  | InvalidMethod string
  | InvalidRequestTarget string
  | InvalidVersion string
  | InvalidHeaderName string
  | InvalidHeaderValue string string
  | InvalidStatusCode nat
  | InvalidReasonPhrase string
  | DuplicateHostHeader
  | InvalidHostHeader string
  | HostAuthorityMismatch string string
  | ForbiddenBodyFor205
  | ForbiddenContentLength nat
  | ContentLengthMismatch nat nat
  | InvalidRequestTargetForm string string
  | UserinfoInHttpUri string
  | NonEmptyHostWithoutAuthority string string
  | EmptyHostInHttpUri string
  | InvalidContentLengthValue string
  | DuplicateContentLength

section \<open>Limits\<close>

record DecoderLimits =
  max_buffer_size :: nat
  max_headers_count :: nat
  max_header_line_size :: nat
  max_body_size :: nat
  max_chunk_line_size :: nat

definition default_limits :: DecoderLimits where
  "default_limits = \<lparr>
     max_buffer_size = 64 * 1024,
     max_headers_count = 100,
     max_header_line_size = 8 * 1024,
     max_body_size = 10 * 1024 * 1024,
     max_chunk_line_size = 64\<rparr>"

definition unlimited :: DecoderLimits where
  "unlimited = \<lparr>
     max_buffer_size = usize_max,
     max_headers_count = usize_max,
     max_header_line_size = usize_max,
     max_body_size = usize_max,
     max_chunk_line_size = usize_max\<rparr>"

text \<open>Every limit is a \<open>usize\<close>.\<close>

definition limits_ok :: "DecoderLimits \<Rightarrow> bool" where
  "limits_ok l \<longleftrightarrow> max_buffer_size l \<le> usize_max \<and> max_headers_count l \<le> usize_max
     \<and> max_header_line_size l \<le> usize_max \<and> max_body_size l \<le> usize_max
     \<and> max_chunk_line_size l \<le> usize_max"

lemma limits_ok_default: "limits_ok default_limits"
  by (simp add: limits_ok_def default_limits_def usize_max_def)

lemma limits_ok_unlimited: "limits_ok unlimited"
  by (simp add: limits_ok_def unlimited_def)

section \<open>Phases\<close>

datatype DecodePhase =
    StartLine
  | Headers
  | BodyContentLength nat
  | BodyChunkedSize
  | BodyChunkedData nat
  | BodyChunkedDataCrlf
  | ChunkedTrailer
  | BodyCloseDelimited
  | Tunnel
  | PhaseComplete

end
