(* ===== verification/Request_Target.thy ===== *)
theory Request_Target
  imports Host Errors
begin

text \<open>
  The request-target of a request line: \<^verbatim>\<open>src/request_target.rs\<close> and the validators of
  \<^verbatim>\<open>src/decoder/body.rs\<close> that classify a target as origin-, absolute-, authority- or
  asterisk-form and check the characters of its parts. A \<open>while i < bytes.len()\<close> loop is a
  recursion over the bytes from \<open>i\<close> on.
\<close>

datatype RequestTargetForm = Origin | Absolute | Authority | Asterisk

definition detect_scheme :: "string \<Rightarrow> nat option" where
  "detect_scheme target =
     (if target = [] \<or> \<not> is_ascii_alphabetic (hd target) then None
      else case position (\<lambda>b. b = CHR '':'') target of
             None \<Rightarrow> None
           | Some colon_pos \<Rightarrow>
               if colon_pos = 0 then None
               else if \<not> list_all (\<lambda>b. is_ascii_alphanumeric b \<or> b = CHR ''+'' \<or> b = CHR ''-'' \<or> b = CHR ''.'')
                         (take (colon_pos - 1) (drop 1 target)) then None
               else if colon_pos + 1 \<ge> length target then None
               else Some colon_pos)"

section \<open>Characters of the parts\<close>

fun validate_path_chars :: "string \<Rightarrow> (unit, Error) result" where
  "validate_path_chars [] = Ok ()"
| "validate_path_chars (b # bs) =
     (if b = CHR ''%'' then
        (case bs of
           h # l # rest \<Rightarrow>
             if \<not> is_ascii_hexdigit h \<or> \<not> is_ascii_hexdigit l
             then Err (InvalidData ''invalid path: invalid percent-encoding'')
             else validate_path_chars rest
         | _ \<Rightarrow> Err (InvalidData ''invalid path: incomplete percent-encoding''))
      else if is_pchar_or_slash b then validate_path_chars bs
      else Err (InvalidData (''invalid path: illegal character 0x'' @ hex2_upper (u8 b))))"

fun validate_query_chars :: "string \<Rightarrow> (unit, Error) result" where
  "validate_query_chars [] = Ok ()"
| "validate_query_chars (b # bs) =
     (if b = CHR ''%'' then
        (case bs of
           h # l # rest \<Rightarrow>
             if \<not> is_ascii_hexdigit h \<or> \<not> is_ascii_hexdigit l
             then Err (InvalidData ''invalid query: invalid percent-encoding'')
             else validate_query_chars rest
         | _ \<Rightarrow> Err (InvalidData ''invalid query: incomplete percent-encoding''))
      else if is_query_char b then validate_query_chars bs
      else Err (InvalidData (''invalid query: illegal character 0x'' @ hex2_upper (u8 b))))"

fun validate_authority_chars :: "string \<Rightarrow> (unit, Error) result" where
  "validate_authority_chars [] = Ok ()"
| "validate_authority_chars (b # bs) =
     (if b = CHR ''%'' then
        (case bs of
           h # l # rest \<Rightarrow>
             if \<not> is_ascii_hexdigit h \<or> \<not> is_ascii_hexdigit l
             then Err (InvalidData ''invalid authority: invalid percent-encoding'')
             else validate_authority_chars rest
         | _ \<Rightarrow> Err (InvalidData ''invalid authority: invalid percent-encoding''))
      else if is_unreserved_byte b \<or> is_sub_delim_byte b \<or> b = CHR '':'' \<or> b = CHR ''@''
              \<or> b = CHR ''['' \<or> b = CHR '']''
      then validate_authority_chars bs
      else Err (InvalidData (''invalid authority: illegal character 0x'' @ hex2_upper (u8 b))))"

text \<open>\<open>find(['/', '?']).unwrap_or(len)\<close>: where the authority of a hier-part ends.\<close>

definition authority_len :: "string \<Rightarrow> nat" where
  "authority_len s =
     (case position (\<lambda>c. c = CHR ''/'' \<or> c = CHR ''?'') s of Some i \<Rightarrow> i | None \<Rightarrow> length s)"

text \<open>Split at the first \<open>?\<close>, then check the path and the query.\<close>

definition split_query :: "string \<Rightarrow> string \<times> string option" where
  "split_query s =
     (case find_char (CHR ''?'') s of
        Some pos \<Rightarrow> (take pos s, Some (drop (pos + 1) s))
      | None \<Rightarrow> (s, None))"

definition validate_absolute_uri_parts :: "string \<Rightarrow> (unit, Error) result" where
  "validate_absolute_uri_parts rest =
     and_then
       (case strip_prefix rest ''//'' of
          Some after_slashes \<Rightarrow>
            and_then (validate_authority_chars (take (authority_len after_slashes) after_slashes))
              (\<lambda>_. Ok (authority_len after_slashes + 2))
        | None \<Rightarrow> Ok 0)
       (\<lambda>path_start.
          let (path, query) = split_query (drop path_start rest)
          in and_then (if path \<noteq> [] then validate_path_chars path else Ok ())
               (\<lambda>_. case query of Some q \<Rightarrow> validate_query_chars q | None \<Rightarrow> Ok ()))"

text \<open>The bracket counter is an \<open>i32\<close>; running past its range is a panic.\<close>

definition i32_max :: nat where "i32_max = 2 ^ 31 - 1"

fun bracket_depth :: "nat \<Rightarrow> string \<Rightarrow> (unit, Error) result" where
  "bracket_depth depth [] = Ok ()"
| "bracket_depth depth (c # cs) =
     (if c = CHR ''['' then (if depth = i32_max then Panic else bracket_depth (depth + 1) cs)
      else if c = CHR '']'' then
        (if depth = 0 then Err (InvalidData ''invalid request-target: unmatched IPv6 brackets'')
         else bracket_depth (depth - 1) cs)
      else bracket_depth depth cs)"

definition validate_ipv6_brackets :: "string \<Rightarrow> (unit, Error) result" where
  "validate_ipv6_brackets target =
     (let open_count = length (filter (\<lambda>c. c = CHR ''['') target);
          close_count = length (filter (\<lambda>c. c = CHR '']'') target)
      in reject_if (open_count \<noteq> close_count)
           (InvalidData ''invalid request-target: unmatched IPv6 brackets'')
           (bracket_depth 0 target))"

section \<open>The four forms\<close>

definition validate_http_authority :: "string \<Rightarrow> (unit, Error) result" where
  "validate_http_authority rest =
     (case strip_prefix rest ''//'' of
        None \<Rightarrow> Err (InvalidData (''http/https URI must contain '' @ [DQUOTE] @ ''://'' @ [DQUOTE] @ '' (RFC 9110 Section 4.2)''))
      | Some after_slashes \<Rightarrow>
          let authority = take (authority_len after_slashes) after_slashes
          in reject_if (CHR ''@'' \<in> set authority)
               (InvalidData ''userinfo not allowed in http/https URI (RFC 9110 Section 4.2.4)'')
               (reject_if (authority = [] \<or> starts_with authority '':'')
                 (InvalidData ''empty host identifier in http/https URI (RFC 9110 Section 4.2)'')
                 (Ok ())))"

definition validate_absolute_form :: "string \<Rightarrow> (RequestTargetForm, Error) result" where
  "validate_absolute_form target =
     and_then (ok_or (detect_scheme target) (InvalidData ''invalid request-target: invalid scheme'')) (\<lambda>scheme_len.
       let scheme = take scheme_len target; rest = drop (scheme_len + 1) target
       in reject_if (\<not> (scheme \<noteq> [] \<and> is_ascii_alphabetic (hd scheme)))
            (InvalidData ''invalid request-target: invalid scheme'')
            (reject_if (\<not> list_all (\<lambda>c. is_ascii_alphanumeric c \<or> c = CHR ''+'' \<or> c = CHR ''-'' \<or> c = CHR ''.'') (tl scheme))
              (InvalidData ''invalid request-target: invalid scheme'')
              (reject_if (CHR ''#'' \<in> set target)
                (InvalidData ''invalid request-target: fragment not allowed'')
                (and_then (validate_ipv6_brackets target) (\<lambda>_.
                 and_then (validate_absolute_uri_parts rest) (\<lambda>_.
                 and_then
                   (if to_ascii_lowercase scheme = ''http'' \<or> to_ascii_lowercase scheme = ''https''
                    then validate_http_authority rest else Ok ())
                   (\<lambda>_. Ok Absolute)))))))"

definition validate_origin_form :: "string \<Rightarrow> (unit, Error) result" where
  "validate_origin_form target =
     reject_if (\<not> starts_with target ''/'') (InvalidData (''invalid origin-form: must start with '' @ [CHR 0x27, CHR ''/'', CHR 0x27]))
       (reject_if (CHR ''#'' \<in> set target) (InvalidData ''invalid request-target: fragment not allowed'')
         (let (path, query) = split_query target
          in and_then (validate_path_chars path)
               (\<lambda>_. case query of Some q \<Rightarrow> validate_query_chars q | None \<Rightarrow> Ok ())))"

definition validate_authority_form :: "string \<Rightarrow> (unit, Error) result" where
  "validate_authority_form target =
     and_then (ok_or (rfind_char (CHR '':'') target) (InvalidData ''invalid authority-form: missing port'')) (\<lambda>colon_pos.
       let h = take colon_pos target; port_str = drop (colon_pos + 1) target
       in reject_if (h = []) (InvalidData ''invalid authority-form: empty host'')
           (reject_if (port_str = []) (InvalidData ''invalid authority-form: empty port'')
            (reject_if (\<not> list_all is_ascii_digit port_str) (InvalidData ''invalid authority-form: port must be numeric'')
             (and_then (ok_or (parse_u16 port_str) (InvalidData ''invalid authority-form: port out of range'')) (\<lambda>_.
              and_then (map_err (\<lambda>_. InvalidData ''invalid authority-form: invalid host'') (Host_parse h)) (\<lambda>_. Ok ()))))))"

definition parse_request_target_form :: "string \<Rightarrow> (RequestTargetForm, Error) result" where
  "parse_request_target_form target =
     (if target = [] then Err (InvalidData ''invalid request-target: empty'')
      else if target = ''*'' then Ok Asterisk
      else if starts_with target ''/'' then and_then (validate_origin_form target) (\<lambda>_. Ok Origin)
      else if contains_sub target ''://'' then validate_absolute_form target
      else if is_ok (validate_authority_form target) then Ok Authority
      else case detect_scheme target of
             Some _ \<Rightarrow> validate_absolute_form target
           | None \<Rightarrow> Err (InvalidData ''invalid request-target: unrecognized form''))"

definition validate_request_target_for_method :: "string \<Rightarrow> RequestTargetForm \<Rightarrow> (unit, Error) result" where
  "validate_request_target_for_method m form =
     (if m = ''CONNECT'' then
        (if form \<noteq> Authority
         then Err (InvalidData ''CONNECT method requires authority-form request-target'') else Ok ())
      else if m = ''OPTIONS'' then
        (if form = Authority
         then Err (InvalidData ''OPTIONS method does not allow authority-form request-target'') else Ok ())
      else
        case form of
          Origin \<Rightarrow> Ok ()
        | Absolute \<Rightarrow> Ok ()
        | Authority \<Rightarrow> Err (InvalidData (m @ '' method does not allow authority-form request-target''))
        | Asterisk \<Rightarrow> Err (InvalidData (m @ '' method does not allow asterisk-form request-target'')))"

section \<open>Accepted characters and forms\<close>

text \<open>Every byte of an accepted part is a printable ASCII character that is neither \<open>#\<close> nor a quote.\<close>

definition uri_char :: "char \<Rightarrow> bool" where
  "uri_char c \<longleftrightarrow> is_query_char c \<or> c = CHR ''%'' \<or> c = CHR ''['' \<or> c = CHR '']''"

lemma uri_charI:
  "is_ascii_hexdigit c \<Longrightarrow> uri_char c" "is_query_char c \<Longrightarrow> uri_char c" "is_pchar_or_slash c \<Longrightarrow> uri_char c"
  "is_unreserved_byte c \<Longrightarrow> uri_char c" "is_sub_delim_byte c \<Longrightarrow> uri_char c"
  by (auto simp: uri_char_def is_query_char_def is_pchar_or_slash_def is_pchar_byte_def is_unreserved_byte_def
      is_ascii_alphanumeric_def is_ascii_alphabetic_def is_ascii_hexdigit_def)

lemma uri_char_marks [simp]:
  "uri_char (CHR ''%'')" "uri_char (CHR '':'')" "uri_char (CHR ''@'')" "uri_char (CHR ''['')" "uri_char (CHR '']'')"
  "uri_char (CHR ''/'')" "uri_char (CHR ''?'')"
  by (simp_all add: uri_char_def is_query_char_def is_pchar_byte_def)

lemma path_chars_ok: "validate_path_chars s = Ok u \<Longrightarrow> list_all uri_char s"
  by (induction s rule: validate_path_chars.induct) (auto simp: uri_charI split: if_splits list.splits)

lemma query_chars_ok: "validate_query_chars s = Ok u \<Longrightarrow> list_all uri_char s"
  by (induction s rule: validate_query_chars.induct) (auto simp: uri_charI split: if_splits list.splits)

lemma authority_chars_ok: "validate_authority_chars s = Ok u \<Longrightarrow> list_all uri_char s"
  by (induction s rule: validate_authority_chars.induct) (auto simp: uri_charI split: if_splits list.splits)

lemma path_chars_not_Panic [simp]: "validate_path_chars s \<noteq> Panic"
  by (induction s rule: validate_path_chars.induct) (auto split: list.splits)

lemma query_chars_not_Panic [simp]: "validate_query_chars s \<noteq> Panic"
  by (induction s rule: validate_query_chars.induct) (auto split: list.splits)

lemma authority_chars_not_Panic [simp]: "validate_authority_chars s \<noteq> Panic"
  by (induction s rule: validate_authority_chars.induct) (auto split: list.splits)

lemma bracket_depth_not_Panic: "depth + length s \<le> i32_max \<Longrightarrow> bracket_depth depth s \<noteq> Panic"
  by (induction depth s rule: bracket_depth.induct) auto

lemma absolute_form_not_Panic: "length t \<le> i32_max \<Longrightarrow> validate_absolute_form t \<noteq> Panic"
  using bracket_depth_not_Panic [of 0 t]
  by (auto simp: validate_absolute_form_def validate_ipv6_brackets_def validate_absolute_uri_parts_def
      validate_http_authority_def panic_iff Let_def split: option.splits prod.splits if_splits)

lemma parse_request_target_form_not_Panic:
  "length t \<le> i32_max \<Longrightarrow> parse_request_target_form t \<noteq> Panic"
  using absolute_form_not_Panic [of t]
  by (auto simp: parse_request_target_form_def validate_origin_form_def panic_iff Let_def
      split: option.splits prod.splits)

lemma validate_for_method_not_Panic [simp]: "validate_request_target_for_method m f \<noteq> Panic"
  by (auto simp: validate_request_target_for_method_def split: RequestTargetForm.splits)

lemma split_query_eq: "split_query s = (p, q) \<Longrightarrow> s = p @ (case q of None \<Rightarrow> [] | Some r \<Rightarrow> CHR ''?'' # r)"
proof (cases "find_char (CHR ''?'') s")
  case None
  then show "split_query s = (p, q) \<Longrightarrow> ?thesis" by (auto simp: split_query_def)
next
  case (Some i)
  then have "i < length s" "s ! i = CHR ''?''" using position_SomeD by (fastforce simp: find_char_def)+
  then have "s = take i s @ CHR ''?'' # drop (Suc i) s" using id_take_nth_drop by metis
  then show "split_query s = (p, q) \<Longrightarrow> ?thesis" using Some by (auto simp: split_query_def)
qed

lemma query_part_ok:
  assumes "split_query s = (p, q)" "list_all uri_char p"
    "(case q of Some r \<Rightarrow> validate_query_chars r | None \<Rightarrow> Ok ()) = Ok u"
  shows "list_all uri_char s"
  using assms split_query_eq [OF assms(1)] query_chars_ok by (auto split: option.splits)

lemma origin_form_ok:
  "validate_origin_form t = Ok u \<Longrightarrow> starts_with t ''/'' \<and> list_all uri_char t"
  by (auto simp: validate_origin_form_def result_iff Let_def intro: query_part_ok path_chars_ok split: prod.splits)

lemma uri_parts_ok:
  assumes "validate_absolute_uri_parts rest = Ok u"
  shows "list_all uri_char rest"
proof -
  obtain k p q where k: "split_query (drop k rest) = (p, q)" "list_all uri_char (take k rest)"
    "p \<noteq> [] \<longrightarrow> validate_path_chars p = Ok ()"
    "(case q of Some r \<Rightarrow> validate_query_chars r | None \<Rightarrow> Ok ()) = Ok u"
  proof (cases "strip_prefix rest ''//''")
    case None
    then show ?thesis using assms that [of 0]
      by (auto simp: validate_absolute_uri_parts_def result_iff Let_def split: prod.splits if_splits)
  next
    case (Some a)
    then have r: "rest = ''//'' @ a" using starts_withE [of rest "''//''"]
      by (auto simp: strip_prefix_def split: if_splits)
    have "list_all uri_char (take (authority_len a) a)"
      using assms Some authority_chars_ok
      by (auto simp: validate_absolute_uri_parts_def result_iff)
    then show ?thesis using assms Some that [of "authority_len a + 2"] r
      by (auto simp: validate_absolute_uri_parts_def result_iff Let_def split: prod.splits if_splits)
  qed
  have "list_all uri_char p" using k(3) path_chars_ok by (cases "p = []") auto
  from query_part_ok [OF k(1) this k(4)] k(2)
  have "list_all uri_char (take k rest @ drop k rest)" unfolding list_all_append by blast
  then show ?thesis by simp
qed

lemma scheme_uri_char:
  "is_ascii_alphanumeric c \<or> c = CHR ''+'' \<or> c = CHR ''-'' \<or> c = CHR ''.'' \<Longrightarrow> uri_char c"
  by (auto simp: uri_char_def is_query_char_def is_pchar_byte_def is_unreserved_byte_def is_sub_delim_byte_def)

lemma absolute_form_ok:
  assumes "validate_absolute_form t = Ok f"
  shows "f = Absolute \<and> (\<exists>i. detect_scheme t = Some i) \<and> list_all uri_char t"
proof -
  obtain i where i: "detect_scheme t = Some i" using assms by (auto simp: validate_absolute_form_def result_iff)
  have pos: "position (\<lambda>b. b = CHR '':'') t = Some i"
    using i by (auto simp: detect_scheme_def split: if_splits option.splits)
  have ok: "take i t \<noteq> []" "is_ascii_alphabetic (hd (take i t))"
    "list_all (\<lambda>c. is_ascii_alphanumeric c \<or> c = CHR ''+'' \<or> c = CHR ''-'' \<or> c = CHR ''.'') (tl (take i t))"
    "validate_absolute_uri_parts (drop (i + 1) t) = Ok ()" "f = Absolute"
    using assms i by (auto simp: validate_absolute_form_def result_iff Let_def split: if_splits)
  have "is_ascii_alphanumeric (hd (take i t))" using ok(2) by (simp add: is_ascii_alphanumeric_def)
  then have "list_all uri_char (take i t)"
    using ok(1,3) scheme_uri_char by (cases "take i t") (auto simp: list_all_iff)
  moreover have "t = take i t @ CHR '':'' # drop (i + 1) t"
    using position_SomeD [OF pos] id_take_nth_drop [of i t] by simp
  ultimately show ?thesis
    using uri_parts_ok [OF ok(4)] ok(5) i by (metis list_all_append list.pred_inject(2) uri_char_marks(2))
qed

lemma request_target_form_ok:
  assumes "parse_request_target_form t = Ok f"
  shows "(f = Asterisk \<longleftrightarrow> t = ''*'') \<and> (f = Origin \<longrightarrow> starts_with t ''/'')
    \<and> (f = Authority \<longrightarrow> validate_authority_form t = Ok ()) \<and> (f = Absolute \<longrightarrow> detect_scheme t \<noteq> None)
    \<and> (f \<noteq> Authority \<longrightarrow> list_all uri_char t)"
proof -
  have star: "uri_char (CHR ''*'')" by (simp add: uri_char_def is_query_char_def is_pchar_byte_def is_sub_delim_byte_def)
  show ?thesis
    using assms origin_form_ok [of t] absolute_form_ok [of t] star
    by (auto simp: parse_request_target_form_def result_iff is_ok_iff split: if_splits option.splits)
qed

lemma method_form_ok:
  "validate_request_target_for_method m f = Ok () \<Longrightarrow>
     (m = ''CONNECT'' \<longleftrightarrow> f = Authority) \<and> (f = Asterisk \<longrightarrow> m = ''OPTIONS'')"
  by (auto simp: validate_request_target_for_method_def split: if_splits RequestTargetForm.splits)

end
