(* ===== verification/Buffer.thy ===== *)
theory Buffer
  imports Errors
begin

text \<open>
  \<^verbatim>\<open>src/decoder/buffer.rs\<close>: the receive buffer of both decoders. The buffer is a
  \<open>Vec<u8>\<close> whose last \<open>pending\<close> bytes are a slot handed out by \<open>mut_buf\<close> and
  not yet confirmed by \<open>advance_buf\<close>. The \<open>debug_assert!\<close>s are not part of the
  model (they vanish in release builds); the arithmetic they guard is: a subtraction below
  zero is \<open>Panic\<close>.
\<close>

definition feed :: "string \<Rightarrow> nat \<Rightarrow> nat \<Rightarrow> string \<Rightarrow> (unit, Error) result \<times> string" where
  "feed buf pending mx data =
     (case checked_add (length buf) (length data) of
        None \<Rightarrow> (Err (BufferOverflow usize_max mx), buf)
      | Some new_size \<Rightarrow>
          if new_size > mx then (Err (BufferOverflow new_size mx), buf)
          else (Ok (), buf @ data))"

definition feed_unchecked :: "string \<Rightarrow> nat \<Rightarrow> string \<Rightarrow> string" where
  "feed_unchecked buf pending data = buf @ data"

text \<open>Returns the slice, the new buffer and the new \<open>pending\<close>.\<close>

definition mut_buf :: "string \<Rightarrow> nat \<Rightarrow> nat \<Rightarrow> nat \<Rightarrow> (string, Error) result \<times> string \<times> nat" where
  "mut_buf buf pending mx len =
     (if pending > 0 \<and> length buf < pending then (Panic, buf, pending)
      else
        let buf1 = (if pending > 0 then take (length buf - pending) buf else buf)
        in case checked_add (length buf1) len of
             None \<Rightarrow> (Err (BufferOverflow usize_max mx), buf1, 0)
           | Some new_size \<Rightarrow>
               if new_size > mx then (Err (BufferOverflow new_size mx), buf1, 0)
               else
                 let old = length buf1; buf2 = buf1 @ replicate len (CHR 0x00)
                 in (Ok (drop old buf2), buf2, len))"

definition advance_buf :: "string \<Rightarrow> nat \<Rightarrow> nat \<Rightarrow> (unit, Error) result \<times> string \<times> nat" where
  "advance_buf buf pending len =
     (let len' = min len pending; dropped = pending - len'
      in if dropped > 0 then
           (if length buf < dropped then (Panic, buf, pending)
            else (Ok (), take (length buf - dropped) buf, 0))
         else (Ok (), buf, 0))"

definition available_buf :: "string \<Rightarrow> nat \<Rightarrow> nat" where
  "available_buf buf mx = mx - length buf"

definition remaining :: "string \<Rightarrow> nat \<Rightarrow> string" where
  "remaining buf pending = buf"

section \<open>The buffer as an abstract byte queue\<close>

text \<open>
  The confirmed bytes, and what the caller does between \<open>mut_buf\<close> and \<open>advance_buf\<close>:
  it writes into the front of the slot.
\<close>

definition confirmed :: "string \<Rightarrow> nat \<Rightarrow> string" where
  "confirmed buf pending = take (length buf - pending) buf"

definition write_slot :: "string \<Rightarrow> nat \<Rightarrow> string \<Rightarrow> string" where
  "write_slot buf pending data =
     (let base = length buf - pending
      in take base buf @ data @ drop (base + length data) buf)"

definition buffer_inv :: "nat \<Rightarrow> string \<Rightarrow> nat \<Rightarrow> bool" where
  "buffer_inv mx buf pending \<longleftrightarrow> pending \<le> length buf \<and> length buf \<le> mx"

lemma feed_Ok_iff: "mx \<le> usize_max \<Longrightarrow>
   feed buf p mx data = (Ok (), buf') \<longleftrightarrow> length buf + length data \<le> mx \<and> buf' = buf @ data"
  by (auto simp: feed_def checked_add_def)

lemma feed_overflow: "length buf + length data > mx \<Longrightarrow>
   \<exists>n. feed buf p mx data = (Err (BufferOverflow n mx), buf)"
  by (auto simp: feed_def checked_add_def)

lemma feed_inv:
  "buffer_inv mx buf p \<Longrightarrow> feed buf p mx data = (r, buf') \<Longrightarrow> buffer_inv mx buf' p"
  by (auto simp: feed_def buffer_inv_def checked_add_def split: if_splits)

lemma mut_buf_inv:
  assumes "buffer_inv mx buf p" "mut_buf buf p mx len = (r, buf', p')"
  shows "buffer_inv mx buf' p'" and "r \<noteq> Panic" and "confirmed buf' p' = confirmed buf p"
    and "p' = (if is_ok r then len else 0)"
  using assms
  by (auto simp: mut_buf_def buffer_inv_def confirmed_def checked_add_def Let_def split: if_splits)

lemma write_slot_inv:
  "buffer_inv mx buf p \<Longrightarrow> length dat \<le> p \<Longrightarrow> buffer_inv mx (write_slot buf p dat) p"
  by (auto simp: buffer_inv_def write_slot_def Let_def)

lemma advance_buf_inv:
  assumes "buffer_inv mx buf p" "advance_buf buf p len = (r, buf', p')"
  shows "buffer_inv mx buf' p'" and "r = Ok ()" and "p' = 0"
    and "buf' = take (length buf - p + min len p) buf"
  using assms
  by (auto simp: advance_buf_def buffer_inv_def Let_def min_def split: if_splits)

text \<open>
  The locale of a bounded receive buffer: pushing bytes either appends them or reports an
  overflow and changes nothing.
\<close>

locale bounded_buffer =
  fixes push :: "'b \<Rightarrow> string \<Rightarrow> bool \<times> 'b" and bytes :: "'b \<Rightarrow> string" and mx :: nat
  assumes push_ok: "length (bytes b) + length d \<le> mx \<Longrightarrow> \<exists>b'. push b d = (True, b') \<and> bytes b' = bytes b @ d"
    and push_full: "mx < length (bytes b) + length d \<Longrightarrow> push b d = (False, b)"
begin

primrec push_all :: "'b \<Rightarrow> string list \<Rightarrow> bool \<times> 'b" where
  "push_all b [] = (True, b)"
| "push_all b (d # ds) =
     (let (ok, b') = push b d in if ok then push_all b' ds else (False, b'))"

lemma push_bound: "length (bytes b) \<le> mx \<Longrightarrow> push b d = (ok, b') \<Longrightarrow> length (bytes b') \<le> mx"
  using push_ok [of b d] push_full [of b d]
  by (cases "length (bytes b) + length d \<le> mx") auto

lemma push_all_bytes: "push_all b ds = (True, b') \<Longrightarrow> bytes b' = bytes b @ concat ds"
proof (induction ds arbitrary: b)
  case Nil
  then show ?case by simp
next
  case (Cons d ds)
  then obtain b1 where "push b d = (True, b1)" "push_all b1 ds = (True, b')"
    by (auto split: prod.splits if_splits)
  with Cons.IH [of b1] push_ok [of b d] push_full [of b d] show ?case
    by (cases "length (bytes b) + length d \<le> mx") auto
qed

lemma push_all_ok_iff:
  "length (bytes b) \<le> mx \<Longrightarrow> fst (push_all b ds) \<longleftrightarrow> length (bytes b) + length (concat ds) \<le> mx"
proof (induction ds arbitrary: b)
  case Nil
  then show ?case by simp
next
  case (Cons d ds)
  show ?case
  proof (cases "length (bytes b) + length d \<le> mx")
    case True
    then obtain b1 where "push b d = (True, b1)" "bytes b1 = bytes b @ d" using push_ok by blast
    with Cons.IH [of b1] True show ?thesis by (simp add: add.assoc)
  next
    case False
    then show ?thesis using push_full [of b d] by simp
  qed
qed

end

definition push_feed :: "nat \<Rightarrow> string \<Rightarrow> string \<Rightarrow> bool \<times> string" where
  "push_feed mx buf data = (let (r, buf') = feed buf 0 mx data in (is_ok r, buf'))"

text \<open>\<open>feed\<close> is such a buffer for every configured limit; past the range of \<open>usize\<close>
  the limit is the range itself.\<close>

interpretation feed_buf: bounded_buffer "push_feed mx" "\<lambda>b. b" "min mx usize_max" for mx
  by unfold_locales (auto simp: push_feed_def feed_def checked_add_def)

text \<open>
  Reserving a slot, writing \<open>data\<close> to its front and confirming its length has the effect of
  \<open>feed\<close>, whatever the size of the slot.
\<close>

lemma mut_buf_write_advance:
  assumes "mut_buf buf 0 mx len = (Ok slot, buf1, p1)" "length data \<le> len"
  shows "advance_buf (write_slot buf1 p1 data) p1 (length data) = (Ok (), buf @ data, 0)"
    and "feed buf 0 mx data = (Ok (), buf @ data)"
proof -
  have len: "length buf + len \<le> usize_max" "length buf + len \<le> mx"
    and b: "buf1 = buf @ replicate len (CHR 0x00)" "p1 = len"
    using assms(1) by (auto simp: mut_buf_def checked_add_def Let_def split: if_splits)
  have "write_slot buf1 p1 data = buf @ data @ replicate (len - length data) (CHR 0x00)"
    by (simp add: write_slot_def b)
  then show "advance_buf (write_slot buf1 p1 data) p1 (length data) = (Ok (), buf @ data, 0)"
    using assms(2) b(2) by (simp add: advance_buf_def Let_def) linarith
  show "feed buf 0 mx data = (Ok (), buf @ data)"
    using len assms(2) by (simp add: feed_def checked_add_def)
qed

text \<open>
  C23. Reserving a slot with \<open>mut_buf\<close>, writing data to its front and confirming it with
  \<open>advance_buf\<close> leaves exactly the buffer that \<open>feed\<close> would leave, whatever the slot's size.
\<close>

theorem slot_equals_feed:
  assumes "mut_buf buf 0 mx len = (Ok slot, buf1, p1)" "length data \<le> len"
  shows "advance_buf (write_slot buf1 p1 data) p1 (length data) = (Ok (), snd (feed buf 0 mx data), 0)
    \<and> fst (feed buf 0 mx data) = Ok ()"
  using mut_buf_write_advance [OF assms] by simp

theorem slot_equals_feed_witness:
  "mut_buf ''ab'' 0 100 8 = (Ok (replicate 8 (CHR 0x00)), ''ab'' @ replicate 8 (CHR 0x00), 8) \<and>
   advance_buf (write_slot (''ab'' @ replicate 8 (CHR 0x00)) 8 ''cde'') 8 (length ''cde'') = (Ok (), snd (feed ''ab'' 0 100 ''cde''), 0)
    \<and> fst (feed ''ab'' 0 100 ''cde'') = Ok ()"
proof -
  have p: "mut_buf ''ab'' 0 100 8 = (Ok (replicate 8 (CHR 0x00)), ''ab'' @ replicate 8 (CHR 0x00), 8)" by code_simp
  have l: "length ''cde'' \<le> 8" by simp
  from p slot_equals_feed [OF p l] show ?thesis by (rule conjI)
qed

end
