(* ===== verification/Compression.thy ===== *)
theory Compression
  imports Errors
begin

text \<open>
  \<^verbatim>\<open>src/compression.rs\<close>: the \<open>Compressor\<close> and \<open>Decompressor\<close> traits as records of
  their methods, and the pass-through implementation \<open>NoCompression\<close>. An output buffer
  \<open>&mut [u8]\<close> is passed in and returned with its new contents. The documented contract of a
  decompressor is the locale \<open>decompressor_contract\<close>, which \<open>NoCompression\<close> meets.
\<close>

record 'd Decompressor =
  decompress :: "'d \<Rightarrow> string \<Rightarrow> string \<Rightarrow> (CompressionStatus, CompressionError) result \<times> 'd \<times> string"
  decompressor_reset :: "'d \<Rightarrow> 'd"

record 'c Compressor =
  compress :: "'c \<Rightarrow> string \<Rightarrow> string \<Rightarrow> (CompressionStatus, CompressionError) result \<times> 'c \<times> string"
  finish :: "'c \<Rightarrow> string \<Rightarrow> (CompressionStatus, CompressionError) result \<times> 'c \<times> string"
  compressor_reset :: "'c \<Rightarrow> 'c"

record NoCompression =
  finished :: bool

definition nc_new :: NoCompression where
  "nc_new = \<lparr>finished = False\<rparr>"

text \<open>\<open>output[..len].copy_from_slice(&input[..len])\<close>.\<close>

definition copy_prefix :: "nat \<Rightarrow> string \<Rightarrow> string \<Rightarrow> string" where
  "copy_prefix n input output = take n input @ drop n output"

definition nc_compress ::
  "NoCompression \<Rightarrow> string \<Rightarrow> string \<Rightarrow> (CompressionStatus, CompressionError) result \<times> NoCompression \<times> string"
where
  "nc_compress c input output =
     (if finished c then (Err AlreadyFinished, c, output)
      else
        let len = min (length input) (length output);
            out = copy_prefix len input output
        in if len < length input then (Ok (CompOutputFull len len), c, out)
           else (Ok (CompContinue len len), c, out))"

definition nc_finish ::
  "NoCompression \<Rightarrow> string \<Rightarrow> (CompressionStatus, CompressionError) result \<times> NoCompression \<times> string"
where
  "nc_finish c output =
     (if finished c then (Err AlreadyFinished, c, output)
      else (Ok (CompComplete 0 0), c\<lparr>finished := True\<rparr>, output))"

definition nc_reset :: "NoCompression \<Rightarrow> NoCompression" where
  "nc_reset c = c\<lparr>finished := False\<rparr>"

definition nc_decompress ::
  "NoCompression \<Rightarrow> string \<Rightarrow> string \<Rightarrow> (CompressionStatus, CompressionError) result \<times> NoCompression \<times> string"
where
  "nc_decompress c input output =
     (let len = min (length input) (length output);
          out = copy_prefix len input output
      in if len < length input then (Ok (CompOutputFull len len), c, out)
         else if input = [] then (Ok (CompComplete 0 0), c, out)
         else (Ok (CompContinue len len), c, out))"

definition nc_decompressor :: "NoCompression Decompressor" where
  "nc_decompressor = \<lparr>decompress = nc_decompress, decompressor_reset = nc_reset\<rparr>"

definition nc_compressor :: "NoCompression Compressor" where
  "nc_compressor = \<lparr>compress = nc_compress, finish = nc_finish, compressor_reset = nc_reset\<rparr>"

section \<open>The contract of a decompressor\<close>

text \<open>
  What the trait documentation asks of an implementation: it never reports more input consumed
  than it was given or more output than fits, it keeps the size of the output buffer, and on
  empty input it returns a status (with nothing consumed) and no error.
\<close>

locale decompressor_contract =
  fixes D :: "'d Decompressor"
  assumes status_bounds: "decompress D d input output = (Ok st, d', out) \<Longrightarrow>
      consumed st \<le> length input \<and> produced st \<le> length output"
    and output_length: "decompress D d input output = (r, d', out) \<Longrightarrow> length out = length output"
    and empty_input_ok: "\<exists>st d' out. decompress D d [] output = (Ok st, d', out) \<and> consumed st = 0"

interpretation nc: decompressor_contract nc_decompressor
proof
  fix d input outb st d' out
  assume "decompress nc_decompressor d input outb = (Ok st, d', out)"
  then show "consumed st \<le> length input \<and> produced st \<le> length outb"
    by (auto simp: nc_decompressor_def nc_decompress_def Let_def split: if_splits)
next
  fix d input outb r d' out
  assume "decompress nc_decompressor d input outb = (r, d', out)"
  then show "length out = length outb"
    by (auto simp: nc_decompressor_def nc_decompress_def copy_prefix_def Let_def split: if_splits)
next
  fix d outb
  show "\<exists>st d' out. decompress nc_decompressor d [] outb = (Ok st, d', out) \<and> consumed st = 0"
    by (simp add: nc_decompressor_def nc_decompress_def)
qed

text \<open>Copying is faithful: the bytes written are the bytes consumed.\<close>

lemma nc_decompress_copies:
  "nc_decompress c input output = (Ok st, c', out) \<Longrightarrow>
     consumed st = produced st \<and> take (produced st) out = take (consumed st) input
     \<and> drop (produced st) out = drop (produced st) output"
  by (auto simp: nc_decompress_def copy_prefix_def Let_def min_def split: if_splits)

end
