(* ===== verification/Status_Code.thy ===== *)
theory Status_Code
  imports Validate Errors
begin

text \<open>
  \<^verbatim>\<open>src/status_code.rs\<close>: the registered status codes with their canonical reason phrases,
  and the five status classes.
\<close>

record StatusCode =
  code :: nat
  canonical_reason :: string

datatype StatusClass = Informational | Successful | Redirection | ClientError | ServerError

text \<open>The associated constants of \<open>StatusCode\<close>, in the order of the source.\<close>

definition status_constants :: "(nat \<times> string) list" where
  "status_constants =
     [(100, ''Continue''),
      (101, ''Switching Protocols''),
      (102, ''Processing''),
      (103, ''Early Hints''),
      (200, ''OK''),
      (201, ''Created''),
      (202, ''Accepted''),
      (203, ''Non-Authoritative Information''),
      (204, ''No Content''),
      (205, ''Reset Content''),
      (206, ''Partial Content''),
      (207, ''Multi-Status''),
      (208, ''Already Reported''),
      (226, ''IM Used''),
      (300, ''Multiple Choices''),
      (301, ''Moved Permanently''),
      (302, ''Found''),
      (303, ''See Other''),
      (304, ''Not Modified''),
      (305, ''Use Proxy''),
      (307, ''Temporary Redirect''),
      (308, ''Permanent Redirect''),
      (400, ''Bad Request''),
      (401, ''Unauthorized''),
      (402, ''Payment Required''),
      (403, ''Forbidden''),
      (404, ''Not Found''),
      (405, ''Method Not Allowed''),
      (406, ''Not Acceptable''),
      (407, ''Proxy Authentication Required''),
      (408, ''Request Timeout''),
      (409, ''Conflict''),
      (410, ''Gone''),
      (411, ''Length Required''),
      (412, ''Precondition Failed''),
      (413, ''Content Too Large''),
      (414, ''URI Too Long''),
      (415, ''Unsupported Media Type''),
      (416, ''Range Not Satisfiable''),
      (417, ''Expectation Failed''),
      (418, ''I'' @ [CHR 0x27] @ ''m a teapot''),
      (421, ''Misdirected Request''),
      (422, ''Unprocessable Content''),
      (423, ''Locked''),
      (424, ''Failed Dependency''),
      (425, ''Too Early''),
      (426, ''Upgrade Required''),
      (428, ''Precondition Required''),
      (429, ''Too Many Requests''),
      (431, ''Request Header Fields Too Large''),
      (451, ''Unavailable For Legal Reasons''),
      (500, ''Internal Server Error''),
      (501, ''Not Implemented''),
      (502, ''Bad Gateway''),
      (503, ''Service Unavailable''),
      (504, ''Gateway Timeout''),
      (505, ''HTTP Version Not Supported''),
      (506, ''Variant Also Negotiates''),
      (507, ''Insufficient Storage''),
      (508, ''Loop Detected''),
      (510, ''Not Extended''),
      (511, ''Network Authentication Required'')]"

text \<open>\<open>new_const\<close> checks the range at compile time; \<open>from_code\<close> maps a code to its constant.\<close>

definition new_const :: "nat \<Rightarrow> string \<Rightarrow> (StatusCode, unit) result" where
  "new_const c reason = (if 100 \<le> c \<and> c \<le> 599 then Ok \<lparr>code = c, canonical_reason = reason\<rparr> else Panic)"

definition from_code :: "nat \<Rightarrow> StatusCode option" where
  "from_code c = map_option (\<lambda>reason. \<lparr>code = c, canonical_reason = reason\<rparr>) (map_of status_constants c)"

definition from_status_code :: "nat \<Rightarrow> StatusClass option" where
  "from_status_code c =
     (if 100 \<le> c \<and> c \<le> 199 then Some Informational
      else if 200 \<le> c \<and> c \<le> 299 then Some Successful
      else if 300 \<le> c \<and> c \<le> 399 then Some Redirection
      else if 400 \<le> c \<and> c \<le> 499 then Some ClientError
      else if 500 \<le> c \<and> c \<le> 599 then Some ServerError
      else None)"

text \<open>\<open>StatusCode::class\<close> panics when the code has no class.\<close>

definition status_code_class :: "StatusCode \<Rightarrow> (StatusClass, unit) result" where
  "status_code_class s = (case from_status_code (code s) of Some c \<Rightarrow> Ok c | None \<Rightarrow> Panic)"

lemma from_status_code_total: "is_valid_status_code c \<longleftrightarrow> from_status_code c \<noteq> None"
  by (auto simp: is_valid_status_code_def from_status_code_def)

text \<open>Every constant has a code in range and a reason phrase an encoder accepts.\<close>

definition constant_ok :: "nat \<times> string \<Rightarrow> bool" where
  "constant_ok p \<longleftrightarrow> is_valid_status_code (fst p) \<and> is_valid_reason_phrase (snd p)"

lemma status_constants_ok: "list_all constant_ok status_constants"
  by (simp add: status_constants_def constant_ok_def is_valid_status_code_def is_valid_reason_phrase_def)

lemma status_constants_distinct: "distinct (map fst status_constants)"
  by (simp add: status_constants_def)

lemma from_code_ok: "from_code c = Some s \<Longrightarrow> code s = c \<and> is_valid_status_code c \<and> is_valid_reason_phrase (canonical_reason s)"
  using status_constants_ok by (auto simp: from_code_def list_all_iff constant_ok_def dest!: map_of_SomeD)

end
