(* ===== verification/Trailer.thy ===== *)
theory Trailer
  imports Validate Errors
begin

text \<open>
  \<^verbatim>\<open>src/trailer.rs\<close>: the \<open>Trailer\<close> header and the list of fields that may never appear
  in a trailer section; and \<open>list_elements\<close>, the comma-separated list of RFC 9110 as every
  list-valued header of the library is split (empty elements are ignored).
\<close>

section \<open>Comma-separated lists\<close>

definition list_elements :: "string \<Rightarrow> string list" where
  "list_elements v = filter (\<lambda>t. t \<noteq> []) (map trim_ows (split_on (CHR '','') v))"

lemma list_elements_nonempty: "t \<in> set (list_elements v) \<Longrightarrow> t \<noteq> [] \<and> trim_ows t = t \<and> CHR '','' \<notin> set t"
  using set_trim_ows split_on_pieces by (fastforce simp: list_elements_def)

lemma list_elements_single: "CHR '','' \<notin> set v \<Longrightarrow> list_elements v = (if trim_ows v = [] then [] else [trim_ows v])"
  by (simp add: list_elements_def split_on_no_sep)

section \<open>The Trailer header\<close>

datatype TrailerError = TrailerEmpty | TrailerInvalidFormat | InvalidFieldName | ProhibitedField string

record Trailer =
  trailer_fields :: "string list"

definition is_prohibited_trailer_field :: "string \<Rightarrow> bool" where
  "is_prohibited_trailer_field name \<longleftrightarrow>
     eq_ignore_ascii_case name ''transfer-encoding''
     \<or> eq_ignore_ascii_case name ''content-length''
     \<or> eq_ignore_ascii_case name ''host''
     \<or> eq_ignore_ascii_case name ''if-match''
     \<or> eq_ignore_ascii_case name ''if-none-match''
     \<or> eq_ignore_ascii_case name ''if-modified-since''
     \<or> eq_ignore_ascii_case name ''if-unmodified-since''
     \<or> eq_ignore_ascii_case name ''if-range''
     \<or> eq_ignore_ascii_case name ''range''
     \<or> eq_ignore_ascii_case name ''expect''
     \<or> eq_ignore_ascii_case name ''te''
     \<or> eq_ignore_ascii_case name ''authorization''
     \<or> eq_ignore_ascii_case name ''proxy-authorization''
     \<or> eq_ignore_ascii_case name ''www-authenticate''
     \<or> eq_ignore_ascii_case name ''proxy-authenticate''
     \<or> eq_ignore_ascii_case name ''cache-control''
     \<or> eq_ignore_ascii_case name ''vary''
     \<or> eq_ignore_ascii_case name ''date''
     \<or> eq_ignore_ascii_case name ''expires''
     \<or> eq_ignore_ascii_case name ''age''
     \<or> eq_ignore_ascii_case name ''set-cookie''
     \<or> eq_ignore_ascii_case name ''content-encoding''
     \<or> eq_ignore_ascii_case name ''content-type''
     \<or> eq_ignore_ascii_case name ''content-range''
     \<or> eq_ignore_ascii_case name ''connection''
     \<or> eq_ignore_ascii_case name ''upgrade''
     \<or> eq_ignore_ascii_case name ''trailer''"

fun trailer_parts :: "string list \<Rightarrow> string list \<Rightarrow> (string list, TrailerError) result" where
  "trailer_parts [] fs = Ok fs"
| "trailer_parts (part # parts) fs =
     (let name = trim_ows part
      in if name = [] then trailer_parts parts fs
         else if \<not> is_valid_token name then Err InvalidFieldName
         else
           let lower_name = to_ascii_lowercase name
           in if is_prohibited_trailer_field lower_name then Err (ProhibitedField lower_name)
              else trailer_parts parts (fs @ [lower_name]))"

definition Trailer_parse :: "string \<Rightarrow> (Trailer, TrailerError) result" where
  "Trailer_parse s =
     (let input = trim_ows s
      in and_then (trailer_parts (split_on (CHR '','') input) []) (\<lambda>fs. Ok \<lparr>trailer_fields = fs\<rparr>))"

definition Trailer_display :: "Trailer \<Rightarrow> string" where
  "Trailer_display t = join_comma (trailer_fields t)"

section \<open>What is accepted\<close>

definition trailer_name_ok :: "string \<Rightarrow> bool" where
  "trailer_name_ok n \<longleftrightarrow> is_valid_token n \<and> to_ascii_lowercase n = n \<and> \<not> is_prohibited_trailer_field n"

lemma eq_ignore_lower_left [simp]:
  "is_prohibited_trailer_field (to_ascii_lowercase n) = is_prohibited_trailer_field n"
  by (simp add: is_prohibited_trailer_field_def)

lemma trailer_parts_ok:
  "trailer_parts ps fs = Ok fs' \<Longrightarrow> \<exists>new. fs' = fs @ new \<and> list_all trailer_name_ok new"
proof (induction ps fs rule: trailer_parts.induct)
  case (1 fs)
  then show ?case by simp
next
  case (2 part parts fs)
  let ?n = "trim_ows part"
  show ?case
  proof (cases "?n = []")
    case True
    with 2 show ?thesis by simp
  next
    case False
    with 2 have v: "is_valid_token ?n" "\<not> is_prohibited_trailer_field ?n"
      "trailer_parts parts (fs @ [to_ascii_lowercase ?n]) = Ok fs'" by (auto simp: Let_def split: if_splits)
    from "2.IH"(2) [OF refl False _ refl] v obtain new
      where "fs' = (fs @ [to_ascii_lowercase ?n]) @ new" "list_all trailer_name_ok new" by auto
    with v(1,2) show ?thesis
      by (intro exI [of _ "to_ascii_lowercase ?n # new"]) (simp add: trailer_name_ok_def [of "to_ascii_lowercase _"] valid_token_lower)
  qed
qed

lemma Trailer_parse_ok: "Trailer_parse s = Ok t \<Longrightarrow> list_all trailer_name_ok (trailer_fields t)"
  using trailer_parts_ok [of "split_on (CHR '','') (trim_ows s)" "[]"]
  by (auto simp: Trailer_parse_def result_iff Let_def)

lemma token_no_comma_ows:
  assumes "is_valid_token n"
  shows "CHR '','' \<notin> set n" "trim_ows n = n" "trim_ows (SP # n) = n"
proof -
  show "CHR '','' \<notin> set n" using assms token_char_not_sep by (auto simp: is_valid_token_def list_all_iff)
  show "trim_ows n = n"
    using assms token_char_not_sep by (intro trim_ows_no_ows) (auto simp: is_valid_token_def list_all_iff is_ows_def)
  then show "trim_ows (SP # n) = n" by (subst trim_ows_Cons_ows) (simp_all add: is_ows_def)
qed

lemma trailer_name_okD:
  "trailer_name_ok n \<Longrightarrow> is_valid_token n \<and> n \<noteq> [] \<and> to_ascii_lowercase n = n \<and> \<not> is_prohibited_trailer_field n"
  by (simp add: trailer_name_ok_def is_valid_token_def)

lemma trailer_parts_join:
  "list_all trailer_name_ok ns \<Longrightarrow> ns \<noteq> [] \<Longrightarrow>
     trailer_parts (split_on (CHR '','') (join_comma ns)) fs = Ok (fs @ ns)
   \<and> trailer_parts (split_on (CHR '','') (SP # join_comma ns)) fs = Ok (fs @ ns)"
proof (induction ns arbitrary: fs rule: join_comma.induct)
  case 1
  then show ?case by simp
next
  case (2 x)
  then have x: "is_valid_token x" "x \<noteq> []" "to_ascii_lowercase x = x" "\<not> is_prohibited_trailer_field x"
    using trailer_name_okD by auto
  note t = token_no_comma_ows [OF x(1)]
  have "CHR '','' \<notin> set (SP # x)" using t(1) by simp
  from split_on_no_sep [OF t(1)] split_on_no_sep [OF this] x t show ?case by simp
next
  case (3 x y xs)
  then have x: "is_valid_token x" "x \<noteq> []" "to_ascii_lowercase x = x" "\<not> is_prohibited_trailer_field x"
    using trailer_name_okD by auto
  note t = token_no_comma_ows [OF x(1)]
  have sep: "CHR '','' \<notin> set (SP # x)" using t(1) by simp
  have s1: "split_on (CHR '','') (join_comma (x # y # xs)) = x # split_on (CHR '','') (SP # join_comma (y # xs))"
    using split_on_append_sep [OF t(1)] by simp
  have s2: "split_on (CHR '','') (SP # join_comma (x # y # xs)) =
      (SP # x) # split_on (CHR '','') (SP # join_comma (y # xs))"
    using split_on_append_sep [OF sep] by simp
  have ih: "trailer_parts (split_on (CHR '','') (SP # join_comma (y # xs))) (fs @ [x]) = Ok (fs @ x # y # xs)"
    using 3 by simp
  show ?case unfolding s1 s2 using ih x t by (simp del: join_comma.simps)
qed

lemma join_comma_ends:
  "list_all trailer_name_ok ns \<Longrightarrow> ns \<noteq> [] \<Longrightarrow>
     join_comma ns \<noteq> [] \<and> \<not> is_ows (hd (join_comma ns)) \<and> \<not> is_ows (last (join_comma ns))"
proof (induction ns rule: join_comma.induct)
  case 1
  then show ?case by simp
next
  case (2 x)
  then have "is_valid_token x" "x \<noteq> []" using trailer_name_okD by auto
  then have "\<forall>c \<in> set x. \<not> is_ows c"
    using token_char_not_sep by (auto simp: is_valid_token_def list_all_iff is_ows_def)
  with \<open>x \<noteq> []\<close> show ?case by simp
next
  case (3 x y xs)
  then have "is_valid_token x" "x \<noteq> []" using trailer_name_okD by auto
  then have "\<forall>c \<in> set x. \<not> is_ows c"
    using token_char_not_sep by (auto simp: is_valid_token_def list_all_iff is_ows_def)
  with \<open>x \<noteq> []\<close> 3 show ?case by simp
qed

lemma Trailer_roundtrip: "list_all trailer_name_ok (trailer_fields t) \<Longrightarrow> Trailer_parse (Trailer_display t) = Ok t"
proof (cases "trailer_fields t = []")
  case True
  then show ?thesis by (cases t) (simp add: Trailer_parse_def Trailer_display_def)
next
  case False
  assume ok: "list_all trailer_name_ok (trailer_fields t)"
  have "trim_ows (join_comma (trailer_fields t)) = join_comma (trailer_fields t)"
    using join_comma_ends [OF ok False] trim_ows_mid [of "[]" "[]"] by simp
  with trailer_parts_join [OF ok False, of "[]"] show ?thesis
    by (cases t) (simp add: Trailer_parse_def Trailer_display_def Let_def)
qed

text \<open>
  A \<open>Trailer\<close> header is accepted only with field names that are tokens and not prohibited in
  trailers, kept in lower case, and printing what was parsed gives it back.
\<close>

lemma Trailer_parse_display:
  assumes "Trailer_parse s = Ok t"
  shows "list_all (\<lambda>n. is_valid_token n \<and> to_ascii_lowercase n = n \<and> \<not> is_prohibited_trailer_field n) (trailer_fields t)
    \<and> Trailer_parse (Trailer_display t) = Ok t"
  using Trailer_parse_ok [OF assms] Trailer_roundtrip [of t] by (simp add: trailer_name_ok_def list_all_iff)

end
