(* ===== verification/Body_Headers.thy ===== *)
theory Body_Headers
  imports Trailer
begin

text \<open>
  The header-level half of \<^verbatim>\<open>src/decoder/body.rs\<close>: finding a line, parsing a header line,
  and deciding from \<open>Transfer-Encoding\<close> and \<open>Content-Length\<close> how the body is framed.
\<close>

section \<open>Lines\<close>

definition find_line :: "string \<Rightarrow> nat option" where
  "find_line buf = position (\<lambda>w. w = (CR, LF)) (zip buf (tl buf))"

definition parse_header_line :: "string \<Rightarrow> (header, Error) result" where
  "parse_header_line line =
     reject_if (starts_with line [SP] \<or> starts_with line [HTAB]) (InvalidData ''invalid header line: obs-fold'')
      (reject_if (CR \<in> set line \<or> LF \<in> set line) (InvalidData ''invalid header line: contains CR/LF'')
        (and_then (ok_or (split_once (CHR '':'') line) (InvalidData ''invalid header line: missing colon''))
          (\<lambda>(name, value).
            reject_if (name = []) (InvalidData ''invalid header line: empty name'')
             (reject_if (name \<noteq> str_trim name \<or> list_ex (\<lambda>b. b = SP \<or> b = HTAB) name)
               (InvalidData ''invalid header line: invalid name whitespace'')
               (reject_if (\<not> is_valid_header_name name) (InvalidData ''invalid header line: invalid name'')
                 (let trimmed_value = trim_ows value
                  in reject_if (\<not> is_valid_field_value trimmed_value)
                       (InvalidData ''invalid header line: invalid value (contains control characters)'')
                       (Ok (name, trimmed_value))))))))"

definition collect_declared_trailers :: "header list \<Rightarrow> string list" where
  "collect_declared_trailers headers =
     concat (map (\<lambda>(name, value).
       if \<not> eq_ignore_ascii_case name ''Trailer'' then []
       else map to_ascii_lowercase (filter (\<lambda>t. t \<noteq> []) (map trim_ows (split_on (CHR '','') value)))) headers)"

section \<open>Transfer-Encoding\<close>

datatype TransferEncodingResult = TeNone | TeChunked | TeOther

fun te_tokens_for_request :: "string list \<Rightarrow> nat \<Rightarrow> (nat, Error) result" where
  "te_tokens_for_request [] n = Ok n"
| "te_tokens_for_request (t # ts) n =
     (let token = trim_ows t
      in if token = [] then te_tokens_for_request ts n
         else
           let base_coding = trim_ows (hd (split_on (CHR '';'') token))
           in if \<not> is_valid_token base_coding then Err (InvalidData ''invalid Transfer-Encoding: not a valid token'')
              else if eq_ignore_ascii_case base_coding ''chunked'' then
                (if CHR '';'' \<in> set token
                 then Err (InvalidData ''invalid Transfer-Encoding: chunked does not accept parameters (RFC 9112 Section 7.1)'')
                 else if n + 1 > 1 then Err (InvalidData ''invalid Transfer-Encoding: duplicate chunked'')
                 else te_tokens_for_request ts (n + 1))
              else Err (InvalidData ''invalid Transfer-Encoding: unsupported coding''))"

fun te_headers_for_request :: "header list \<Rightarrow> nat \<Rightarrow> (nat, Error) result" where
  "te_headers_for_request [] n = Ok n"
| "te_headers_for_request ((name, value) # hs) n =
     (if eq_ignore_ascii_case name ''Transfer-Encoding''
      then and_then (te_tokens_for_request (split_on (CHR '','') value) n) (te_headers_for_request hs)
      else te_headers_for_request hs n)"

definition parse_transfer_encoding_for_request :: "header list \<Rightarrow> (bool, Error) result" where
  "parse_transfer_encoding_for_request headers =
     and_then (te_headers_for_request headers 0) (\<lambda>chunked_count. Ok (chunked_count = 1))"

fun te_tokens_for_response :: "string list \<Rightarrow> string list \<Rightarrow> nat \<Rightarrow> (string list \<times> nat, Error) result" where
  "te_tokens_for_response [] all n = Ok (all, n)"
| "te_tokens_for_response (t # ts) all n =
     (let token = trim_ows t
      in if token = [] then te_tokens_for_response ts all n
         else
           let base_coding = trim_ows (hd (split_on (CHR '';'') token))
           in if \<not> is_valid_token base_coding then Err (InvalidData ''invalid Transfer-Encoding: not a valid token'')
              else if eq_ignore_ascii_case base_coding ''chunked'' then
                (if CHR '';'' \<in> set token
                 then Err (InvalidData ''invalid Transfer-Encoding: chunked does not accept parameters (RFC 9112 Section 7.1)'')
                 else if n + 1 > 1 then Err (InvalidData ''invalid Transfer-Encoding: duplicate chunked'')
                 else te_tokens_for_response ts (all @ [to_ascii_lowercase base_coding]) (n + 1))
              else te_tokens_for_response ts (all @ [to_ascii_lowercase base_coding]) n)"

fun te_headers_for_response :: "header list \<Rightarrow> string list \<Rightarrow> nat \<Rightarrow> (string list \<times> nat, Error) result" where
  "te_headers_for_response [] all n = Ok (all, n)"
| "te_headers_for_response ((name, value) # hs) all n =
     (if eq_ignore_ascii_case name ''Transfer-Encoding''
      then and_then (te_tokens_for_response (split_on (CHR '','') value) all n)
             (\<lambda>(all', n'). te_headers_for_response hs all' n')
      else te_headers_for_response hs all n)"

definition parse_transfer_encoding_for_response :: "header list \<Rightarrow> (TransferEncodingResult, Error) result" where
  "parse_transfer_encoding_for_response headers =
     and_then (te_headers_for_response headers [] 0) (\<lambda>(all_tokens, _).
       if all_tokens = [] then Ok TeNone
       else if last all_tokens = ''chunked'' then Ok TeChunked
       else Ok TeOther)"

section \<open>Content-Length\<close>

fun content_length_parts :: "string list \<Rightarrow> nat option \<Rightarrow> (nat option, Error) result" where
  "content_length_parts [] res = Ok res"
| "content_length_parts (p # ps) res =
     (let part = trim_ows p
      in if part = [] then content_length_parts ps res
         else if \<not> list_all is_ascii_digit part then Err (InvalidData ''invalid Content-Length: not a number'')
         else and_then (ok_or (parse_u64 part) (InvalidData ''invalid Content-Length: overflow'')) (\<lambda>v.
           case res of
             None \<Rightarrow> content_length_parts ps (Some v)
           | Some prev \<Rightarrow>
               if prev \<noteq> v then Err (InvalidData ''invalid Content-Length: mismatched values in list'')
               else content_length_parts ps res))"

definition parse_content_length_value :: "string \<Rightarrow> (nat, Error) result" where
  "parse_content_length_value input =
     and_then (content_length_parts (split_on (CHR '','') input) None)
       (\<lambda>res. ok_or res (InvalidData ''invalid Content-Length: empty''))"

fun content_length_headers :: "header list \<Rightarrow> nat option \<Rightarrow> (nat option, Error) result" where
  "content_length_headers [] value = Ok value"
| "content_length_headers ((name, raw_value) # hs) value =
     (if eq_ignore_ascii_case name ''Content-Length'' then
        and_then (parse_content_length_value raw_value) (\<lambda>parsed.
          case value of
            Some prev \<Rightarrow>
              if prev \<noteq> parsed then Err (InvalidData ''invalid Content-Length: mismatched values'')
              else content_length_headers hs value
          | None \<Rightarrow> content_length_headers hs (Some parsed))
      else content_length_headers hs value)"

definition parse_content_length :: "header list \<Rightarrow> (nat option, Error) result" where
  "parse_content_length headers = content_length_headers headers None"

section \<open>Framing\<close>

definition resolve_body_headers_for_request :: "header list \<Rightarrow> (bool \<times> nat option, Error) result" where
  "resolve_body_headers_for_request headers =
     and_then (parse_transfer_encoding_for_request headers) (\<lambda>transfer_encoding_chunked.
     and_then (parse_content_length headers) (\<lambda>content_length.
       reject_if (transfer_encoding_chunked \<and> content_length \<noteq> None)
         (InvalidData ''invalid message: both Transfer-Encoding and Content-Length'')
         (Ok (transfer_encoding_chunked, content_length))))"

definition resolve_body_headers_for_response ::
  "header list \<Rightarrow> (TransferEncodingResult \<times> nat option, Error) result" where
  "resolve_body_headers_for_response headers =
     and_then (parse_transfer_encoding_for_response headers) (\<lambda>te_result.
     and_then (parse_content_length headers) (\<lambda>content_length.
       reject_if (te_result \<noteq> TeNone \<and> content_length \<noteq> None)
         (InvalidData ''invalid message: both Transfer-Encoding and Content-Length'')
         (if te_result \<noteq> TeNone then Ok (te_result, None) else Ok (TeNone, content_length))))"

section \<open>Lines: facts\<close>

lemma zip_tl_append:
  "zip (xs @ ys) (tl (xs @ ys)) =
     (if xs = [] then zip ys (tl ys)
      else zip xs (tl xs) @ (case ys of [] \<Rightarrow> [] | y # _ \<Rightarrow> [(last xs, y)]) @ zip ys (tl ys))"
proof (induction xs)
  case Nil
  then show ?case by simp
next
  case (Cons x xs)
  then show ?case by (cases xs) (auto split: list.splits)
qed

lemma find_line_append: "find_line b = Some i \<Longrightarrow> find_line (b @ d) = Some i"
  by (auto simp: find_line_def zip_tl_append position_append)

lemma find_line_SomeD:
  assumes "find_line b = Some i"
  shows "i + 2 \<le> length b" and "b = take i b @ CRLF @ drop (i + 2) b"
proof -
  have "i < length (zip b (tl b))" "zip b (tl b) ! i = (CR, LF)"
    using position_SomeD [OF assms [unfolded find_line_def]] by auto
  then have i: "i + 1 < length b" "b ! i = CR" "b ! Suc i = LF" by (auto simp: nth_tl)
  then show "i + 2 \<le> length b" by simp
  show "b = take i b @ CRLF @ drop (i + 2) b"
    using i id_take_nth_drop [of i b] Cons_nth_drop_Suc [of "Suc i" b] by simp
qed

lemma find_line_no_CR: "CR \<notin> set l \<Longrightarrow> find_line (l @ CRLF @ rest) = Some (length l)"
proof (induction l)
  case Nil
  then show ?case by (simp add: find_line_def)
next
  case (Cons c l)
  then have "c \<noteq> CR" by auto
  with Cons show ?case by (cases l) (simp_all add: find_line_def)
qed

lemma find_line_Nil [simp]: "find_line [] = None"
  by (simp add: find_line_def)

lemma find_line_CRLF [simp]: "find_line (CR # LF # rest) = Some 0"
  by (simp add: find_line_def)

definition header_ok :: "header \<Rightarrow> bool" where
  "header_ok h \<longleftrightarrow> is_valid_header_name (fst h) \<and> is_valid_field_value (snd h) \<and> trim_ows (snd h) = snd h"

lemma parse_header_line_ok: "parse_header_line line = Ok h \<Longrightarrow> header_ok h"
  by (auto simp: parse_header_line_def result_iff header_ok_def Let_def split: prod.splits)

lemma parse_header_line_not_Panic [simp]: "parse_header_line line \<noteq> Panic"
  by (auto simp: parse_header_line_def panic_iff Let_def split: prod.splits)

lemma field_value_no_crlf: "is_valid_field_value v \<Longrightarrow> CR \<notin> set v \<and> LF \<notin> set v"
  using field_vchar_not_crlf by (auto simp: is_valid_field_value_def list_all_iff)

text \<open>The line the encoder writes for a header is read back as that header, trimmed.\<close>

lemma parse_header_line_encoded:
  assumes "is_valid_header_name n" "is_valid_field_value v"
  shows "parse_header_line (n @ '': '' @ v) = Ok (n, trim_ows v)"
proof -
  have n: "SP \<notin> set n" "HTAB \<notin> set n" "CHR '':'' \<notin> set n" "CR \<notin> set n" "LF \<notin> set n" "n \<noteq> []"
    using header_name_no_sep [OF assms(1)] assms(1) by (auto simp: is_valid_header_name_def)
  have "split_once (CHR '':'') (n @ '': '' @ v) = Some (n, SP # v)"
    using n(3) by (simp add: split_once_Some_iff)
  moreover have "\<not> starts_with (n @ '': '' @ v) [SP]" "\<not> starts_with (n @ '': '' @ v) [HTAB]"
    using n by (cases n; auto simp: starts_with_def)+
  moreover have "CR \<notin> set (n @ '': '' @ v)" "LF \<notin> set (n @ '': '' @ v)"
    using n field_value_no_crlf [OF assms(2)] by auto
  moreover have "trim_ows (SP # v) = trim_ows v" by (rule trim_ows_Cons_ows) (simp add: is_ows_def)
  moreover have "is_valid_field_value (trim_ows v)"
    using assms(2) set_trim_ows [of v] by (auto simp: is_valid_field_value_def list_all_iff)
  moreover have "\<not> list_ex (\<lambda>b. b = SP \<or> b = HTAB) n" using n by (auto simp: list_ex_iff)
  ultimately show ?thesis
    using n(6) assms(1) header_name_trim [OF assms(1)]
    by (simp only: parse_header_line_def) (simp add: Let_def)
qed

section \<open>The framing headers as lists\<close>

text \<open>All values of the headers called \<open>name\<close>, and the elements of the lists they hold.\<close>

definition header_values :: "string \<Rightarrow> header list \<Rightarrow> string list" where
  "header_values name hs = map snd (filter (\<lambda>h. eq_ignore_ascii_case (fst h) name) hs)"

definition header_elements :: "string \<Rightarrow> header list \<Rightarrow> string list" where
  "header_elements name hs = concat (map list_elements (header_values name hs))"

lemma header_elements_simps [simp]:
  "header_elements name [] = []"
  "header_elements name ((n, v) # hs) =
     (if eq_ignore_ascii_case n name then list_elements v @ header_elements name hs else header_elements name hs)"
  by (simp_all add: header_elements_def header_values_def)

lemma header_values_simps [simp]:
  "header_values name [] = []"
  "header_values name ((n, v) # hs) =
     (if eq_ignore_ascii_case n name then v # header_values name hs else header_values name hs)"
  by (simp_all add: header_values_def)

definition is_chunked_token :: "string \<Rightarrow> bool" where
  "is_chunked_token t \<longleftrightarrow> eq_ignore_ascii_case t ''chunked''"

lemma u8_ascii_lower: "u8 (ascii_lower c) = (if 0x41 \<le> u8 c \<and> u8 c \<le> 0x5A then u8 c + 32 else u8 c)"
  by (simp add: ascii_lower_def)

lemma ascii_lower_semicolon: "ascii_lower c = CHR '';'' \<longleftrightarrow> c = CHR '';''"
  by (simp add: u8_inject [symmetric] u8_ascii_lower del: u8_inject)

lemma token_char_lower [simp]: "is_token_char (ascii_lower c) \<longleftrightarrow> is_token_char c"
proof (cases "0x41 \<le> u8 c \<and> u8 c \<le> 0x5A")
  case True
  then show ?thesis using u8_ascii_lower [of c] by (auto simp: is_token_char_def)
next
  case False
  then have "ascii_lower c = c" unfolding ascii_lower_def by presburger
  then show ?thesis by simp
qed

lemma chunked_token:
  assumes "is_chunked_token t"
  shows "is_valid_token t" and "CHR '';'' \<notin> set t"
proof -
  have l: "map ascii_lower t = ''chunked''" using assms
    by (simp add: is_chunked_token_def eq_ignore_ascii_case_def to_ascii_lowercase_def ascii_lower_def)
  have "list_all is_token_char (map ascii_lower t)" unfolding l by (simp add: is_token_char_def)
  then have "list_all is_token_char t" by (simp add: list_all_iff)
  moreover have "t \<noteq> []" using l by auto
  ultimately show "is_valid_token t" by (simp add: is_valid_token_def)
  have "CHR '';'' \<notin> set (map ascii_lower t)" unfolding l by simp
  moreover have "ascii_lower (CHR '';'') = CHR '';''" by (simp add: ascii_lower_semicolon)
  ultimately show "CHR '';'' \<notin> set t" by (metis image_eqI image_set)
qed

text \<open>The coding of a transfer-coding element, without its parameters.\<close>

definition te_base :: "string \<Rightarrow> string" where
  "te_base token = trim_ows (hd (split_on (CHR '';'') token))"

lemma te_base_plain: "CHR '';'' \<notin> set t \<Longrightarrow> trim_ows t = t \<Longrightarrow> te_base t = t"
  by (simp add: te_base_def split_on_no_sep)

lemma list_elements_trimmed: "filter (\<lambda>t. t \<noteq> []) (map trim_ows ts) = e # es \<Longrightarrow> trim_ows e = e"
  by (metis (no_types, lifting) filter_eq_ConsD in_set_conv_decomp list.set_map imageE trim_ows_idem)

text \<open>The elements the loops go through.\<close>

definition elems :: "string list \<Rightarrow> string list" where
  "elems ts = filter (\<lambda>t. t \<noteq> []) (map trim_ows ts)"

lemma elems_simps [simp]:
  "elems [] = []"
  "elems (t # ts) = (if trim_ows t = [] then elems ts else trim_ows t # elems ts)"
  by (simp_all add: elems_def)

lemma elems_split [simp]: "elems (split_on (CHR '','') v) = list_elements v"
  by (simp add: elems_def list_elements_def)

lemma te_tokens_for_request_iff:
  "te_tokens_for_request ts n = Ok m \<longleftrightarrow>
     list_all is_chunked_token (elems ts) \<and> m = n + length (elems ts) \<and> (elems ts = [] \<or> m \<le> 1)"
proof (induction ts n rule: te_tokens_for_request.induct)
  case (1 n)
  then show ?case by auto
next
  case (2 t ts n)
  let ?e = "trim_ows t"
  show ?case
  proof (cases "?e = []")
    case True
    with 2 show ?thesis by simp
  next
    case False
    show ?thesis
    proof (cases "is_chunked_token ?e")
      case True
      note ch = chunked_token [OF True]
      then have b: "te_base ?e = ?e" by (simp add: te_base_plain)
      have step: "te_tokens_for_request (t # ts) n =
          (if n + 1 > 1 then Err (InvalidData ''invalid Transfer-Encoding: duplicate chunked'')
           else te_tokens_for_request ts (n + 1))"
        using False True ch b by (simp add: te_base_def is_chunked_token_def)
      have "te_tokens_for_request ts (n + 1) = Ok m \<longleftrightarrow>
          list_all is_chunked_token (elems ts) \<and> m = n + 1 + length (elems ts) \<and> (elems ts = [] \<or> m \<le> 1)" if "n = 0"
        using "2.IH"(2) [OF refl False refl] True ch b that
        by (simp add: te_base_def [symmetric] is_chunked_token_def [symmetric])
      then show ?thesis unfolding step using False True by (cases n) auto
    next
      case no: False
      have "te_tokens_for_request (t # ts) n \<noteq> Ok m"
      proof (cases "is_valid_token (te_base ?e) \<and> is_chunked_token (te_base ?e) \<and> CHR '';'' \<notin> set ?e")
        case True
        then have "te_base ?e = ?e" by (simp add: te_base_plain)
        with True no show ?thesis by simp
      next
        case no2: False
        then show ?thesis using False by (auto simp: te_base_def is_chunked_token_def Let_def)
      qed
      with no False show ?thesis by simp
    qed
  qed
qed

lemma te_headers_for_request_iff:
  "te_headers_for_request hs n = Ok m \<longleftrightarrow>
     list_all is_chunked_token (header_elements ''Transfer-Encoding'' hs)
     \<and> m = n + length (header_elements ''Transfer-Encoding'' hs)
     \<and> (header_elements ''Transfer-Encoding'' hs = [] \<or> m \<le> 1)"
proof (induction hs n rule: te_headers_for_request.induct)
  case (1 n)
  then show ?case by auto
next
  case (2 name v hs n)
  show ?case
  proof (cases "eq_ignore_ascii_case name ''Transfer-Encoding''")
    case True
    define es where "es = header_elements ''Transfer-Encoding'' hs"
    have "te_headers_for_request ((name, v) # hs) n = Ok m \<longleftrightarrow>
        (\<exists>k. te_tokens_for_request (split_on (CHR '','') v) n = Ok k \<and> te_headers_for_request hs k = Ok m)"
      using True by (simp add: result_iff)
    also have "\<dots> \<longleftrightarrow> (\<exists>k. (list_all is_chunked_token (list_elements v) \<and> k = n + length (list_elements v)
        \<and> (list_elements v = [] \<or> k \<le> 1)) \<and> list_all is_chunked_token es \<and> m = k + length es \<and> (es = [] \<or> m \<le> 1))"
      using "2.IH"(1) [OF True] by (simp add: te_tokens_for_request_iff es_def)
    finally show ?thesis using True by (auto simp: es_def [symmetric])
  next
    case False
    with 2 show ?thesis by simp
  qed
qed

lemma parse_te_request_iff:
  "parse_transfer_encoding_for_request hs = Ok b \<longleftrightarrow>
     (if b then \<exists>t. header_elements ''Transfer-Encoding'' hs = [t] \<and> is_chunked_token t
      else header_elements ''Transfer-Encoding'' hs = [])"
  by (cases "header_elements ''Transfer-Encoding'' hs")
    (auto simp: parse_transfer_encoding_for_request_def result_iff te_headers_for_request_iff)

section \<open>Response codings\<close>

definition te_elem_ok :: "string \<Rightarrow> bool" where
  "te_elem_ok e \<longleftrightarrow> is_valid_token (te_base e) \<and> (is_chunked_token (te_base e) \<longrightarrow> CHR '';'' \<notin> set e)"

definition chunked_count :: "string list \<Rightarrow> nat" where
  "chunked_count es = length (filter (\<lambda>e. is_chunked_token (te_base e)) es)"

lemma chunked_count_simps [simp]:
  "chunked_count [] = 0"
  "chunked_count (e # es) = (if is_chunked_token (te_base e) then Suc (chunked_count es) else chunked_count es)"
  "chunked_count (as @ bs) = chunked_count as + chunked_count bs"
  by (simp_all add: chunked_count_def)

definition te_response_ok :: "string list \<Rightarrow> string list \<Rightarrow> nat \<Rightarrow> string list \<Rightarrow> nat \<Rightarrow> bool" where
  "te_response_ok es all n all' n' \<longleftrightarrow> list_all te_elem_ok es
     \<and> all' = all @ map (\<lambda>e. to_ascii_lowercase (te_base e)) es
     \<and> n' = n + chunked_count es \<and> (chunked_count es = 0 \<or> n' \<le> 1)"

lemma te_response_ok_append:
  "(\<exists>al k. te_response_ok as all n al k \<and> te_response_ok bs al k all' n') \<longleftrightarrow> te_response_ok (as @ bs) all n all' n'"
  by (auto simp: te_response_ok_def)

lemma te_tokens_for_response_step:
  "te_tokens_for_response (t # ts) all n =
     (if trim_ows t = [] then te_tokens_for_response ts all n
      else if \<not> is_valid_token (te_base (trim_ows t)) then Err (InvalidData ''invalid Transfer-Encoding: not a valid token'')
      else if is_chunked_token (te_base (trim_ows t)) then
        (if CHR '';'' \<in> set (trim_ows t)
         then Err (InvalidData ''invalid Transfer-Encoding: chunked does not accept parameters (RFC 9112 Section 7.1)'')
         else if n + 1 > 1 then Err (InvalidData ''invalid Transfer-Encoding: duplicate chunked'')
         else te_tokens_for_response ts (all @ [to_ascii_lowercase (te_base (trim_ows t))]) (n + 1))
      else te_tokens_for_response ts (all @ [to_ascii_lowercase (te_base (trim_ows t))]) n)"
  by (simp add: te_base_def is_chunked_token_def Let_def)

lemma te_tokens_for_response_iff:
  "te_tokens_for_response ts all n = Ok (all', n') \<longleftrightarrow> te_response_ok (elems ts) all n all' n'"
proof (induction ts arbitrary: all n)
  case Nil
  then show ?case by (auto simp: te_response_ok_def)
next
  case (Cons t ts)
  show ?case
    unfolding te_tokens_for_response_step using Cons.IH
    by (auto simp: te_response_ok_def te_elem_ok_def)
qed

lemma te_headers_for_response_iff:
  "te_headers_for_response hs all n = Ok (all', n') \<longleftrightarrow>
     te_response_ok (header_elements ''Transfer-Encoding'' hs) all n all' n'"
proof (induction hs all n rule: te_headers_for_response.induct)
  case (1 all n)
  then show ?case by (auto simp: te_response_ok_def)
next
  case (2 name v hs all n)
  show ?case
  proof (cases "eq_ignore_ascii_case name ''Transfer-Encoding''")
    case True
    have "te_headers_for_response ((name, v) # hs) all n = Ok (all', n') \<longleftrightarrow>
        (\<exists>al k. te_tokens_for_response (split_on (CHR '','') v) all n = Ok (al, k)
            \<and> te_headers_for_response hs al k = Ok (all', n'))"
      using True by (simp add: result_iff)
    also have "\<dots> \<longleftrightarrow> (\<exists>al k. te_response_ok (list_elements v) all n al k
            \<and> te_response_ok (header_elements ''Transfer-Encoding'' hs) al k all' n')"
      using "2.IH"(1) [OF True] by (simp add: te_tokens_for_response_iff)
    finally show ?thesis using True by (simp add: te_response_ok_append)
  next
    case False
    with 2 show ?thesis by simp
  qed
qed

lemma parse_te_response_iff:
  "parse_transfer_encoding_for_response hs = Ok r \<longleftrightarrow>
     (let es = header_elements ''Transfer-Encoding'' hs
      in list_all te_elem_ok es \<and> chunked_count es \<le> 1
         \<and> r = (if es = [] then TeNone else if is_chunked_token (te_base (last es)) then TeChunked else TeOther))"
proof -
  define es where "es = header_elements ''Transfer-Encoding'' hs"
  have ch: "to_ascii_lowercase x = ''chunked'' \<longleftrightarrow> is_chunked_token x" for x
    by (simp add: is_chunked_token_def eq_ignore_ascii_case_def)
      (simp add: to_ascii_lowercase_def ascii_lower_def)
  have "parse_transfer_encoding_for_response hs = Ok r \<longleftrightarrow>
      (\<exists>al k. te_response_ok es [] 0 al k \<and>
        (if al = [] then Ok TeNone else if last al = ''chunked'' then Ok TeChunked else Ok TeOther) = (Ok r :: (_, Error) result))"
    by (simp add: parse_transfer_encoding_for_response_def result_iff te_headers_for_response_iff es_def)
  also have "\<dots> \<longleftrightarrow> list_all te_elem_ok es \<and> chunked_count es \<le> 1
         \<and> r = (if es = [] then TeNone else if is_chunked_token (te_base (last es)) then TeChunked else TeOther)"
    by (auto simp: te_response_ok_def last_map ch)
  finally show ?thesis by (simp add: es_def Let_def)
qed

section \<open>Content-Length values\<close>

definition cl_elem :: "nat \<Rightarrow> string \<Rightarrow> bool" where
  "cl_elem n e \<longleftrightarrow> list_all is_ascii_digit e \<and> parse_u64 e = Some n"

lemma content_length_parts_iff:
  "content_length_parts ps res = Ok res' \<longleftrightarrow>
     (if elems ps = [] then res' = res
      else \<exists>n. res' = Some n \<and> (res = None \<or> res = Some n) \<and> list_all (cl_elem n) (elems ps))"
proof (induction ps res rule: content_length_parts.induct)
  case (1 res)
  then show ?case by auto
next
  case (2 p ps res)
  let ?e = "trim_ows p"
  show ?case
  proof (cases "?e = [] \<or> \<not> list_all is_ascii_digit ?e \<or> parse_u64 ?e = None")
    case True
    then show ?thesis using "2.IH"(1) [OF refl] by (auto simp: cl_elem_def [of _ "trim_ows p"] Let_def split: if_splits)
  next
    case False
    then obtain v where v: "?e \<noteq> []" "list_all is_ascii_digit ?e" "parse_u64 ?e = Some v" by auto
    then have step: "content_length_parts (p # ps) res =
        (case res of None \<Rightarrow> content_length_parts ps (Some v)
         | Some prev \<Rightarrow> if prev \<noteq> v then Err (InvalidData ''invalid Content-Length: mismatched values in list'')
             else content_length_parts ps res)" by (simp add: Let_def)
    show ?thesis
      unfolding step using v "2.IH"(2) [OF refl] "2.IH"(3) [OF refl]
      by (auto simp: cl_elem_def [of _ "trim_ows p"] split: option.splits if_splits)
  qed
qed

lemma parse_content_length_value_iff:
  "parse_content_length_value v = Ok n \<longleftrightarrow> list_elements v \<noteq> [] \<and> list_all (cl_elem n) (list_elements v)"
  by (auto simp: parse_content_length_value_def result_iff content_length_parts_iff)

definition cl_value_ok :: "nat \<Rightarrow> string \<Rightarrow> bool" where
  "cl_value_ok n v \<longleftrightarrow> list_elements v \<noteq> [] \<and> list_all (cl_elem n) (list_elements v)"

lemma content_length_headers_iff:
  "content_length_headers hs res = Ok res' \<longleftrightarrow>
     (if header_values ''Content-Length'' hs = [] then res' = res
      else \<exists>n. res' = Some n \<and> (res = None \<or> res = Some n)
             \<and> list_all (cl_value_ok n) (header_values ''Content-Length'' hs))"
proof (induction hs res rule: content_length_headers.induct)
  case (1 res)
  then show ?case by auto
next
  case (2 name v hs res)
  define vs where "vs = header_values ''Content-Length'' hs"
  show ?case
  proof (cases "eq_ignore_ascii_case name ''Content-Length''")
    case True
    have "content_length_headers ((name, v) # hs) res = Ok res' \<longleftrightarrow>
       (\<exists>n. cl_value_ok n v \<and> (res = None \<or> res = Some n) \<and> content_length_headers hs (Some n) = Ok res')"
      using True by (cases res) (auto simp: result_iff parse_content_length_value_iff cl_value_ok_def split: if_splits)
    also have "\<dots> \<longleftrightarrow> (\<exists>n. cl_value_ok n v \<and> (res = None \<or> res = Some n) \<and>
        (if vs = [] then res' = Some n else \<exists>k. res' = Some k \<and> Some n = Some k \<and> list_all (cl_value_ok k) vs))"
      using "2.IH" True by (auto simp: vs_def split: option.splits)
    finally show ?thesis using True by (auto simp: vs_def [symmetric])
  next
    case False
    with "2.IH"(3) show ?thesis by simp
  qed
qed

lemma parse_content_length_iff:
  "parse_content_length hs = Ok r \<longleftrightarrow>
     (if header_values ''Content-Length'' hs = [] then r = None
      else \<exists>n. r = Some n \<and> list_all (cl_value_ok n) (header_values ''Content-Length'' hs))"
  by (auto simp: parse_content_length_def content_length_headers_iff)

lemma cl_elem_bound: "cl_elem n e \<Longrightarrow> n \<le> u64_max"
  by (auto simp: cl_elem_def from_str_radix_bound)

lemma parse_content_length_bound: "parse_content_length hs = Ok (Some n) \<Longrightarrow> n \<le> u64_max"
proof -
  assume "parse_content_length hs = Ok (Some n)"
  then have "header_values ''Content-Length'' hs \<noteq> []"
      "list_all (cl_value_ok n) (header_values ''Content-Length'' hs)"
    by (auto simp: parse_content_length_iff split: if_splits)
  then have "cl_value_ok n (hd (header_values ''Content-Length'' hs))" by (simp add: list_all_iff)
  then have "cl_elem n (hd (list_elements (hd (header_values ''Content-Length'' hs))))"
    by (simp add: cl_value_ok_def list_all_iff)
  then show "n \<le> u64_max" by (rule cl_elem_bound)
qed

section \<open>No panic\<close>

lemma te_tokens_for_request_not_Panic [simp]: "te_tokens_for_request ts n \<noteq> Panic"
  by (induction ts n rule: te_tokens_for_request.induct) (simp_all add: Let_def)

lemma te_headers_for_request_not_Panic [simp]: "te_headers_for_request hs n \<noteq> Panic"
  by (induction hs n rule: te_headers_for_request.induct) (auto simp: panic_iff)

lemma te_tokens_for_response_not_Panic [simp]: "te_tokens_for_response ts all n \<noteq> Panic"
  by (induction ts all n rule: te_tokens_for_response.induct) (simp_all add: Let_def)

lemma te_headers_for_response_not_Panic [simp]: "te_headers_for_response hs all n \<noteq> Panic"
  by (induction hs all n rule: te_headers_for_response.induct) (auto simp: panic_iff)

lemma content_length_parts_not_Panic [simp]: "content_length_parts ps res \<noteq> Panic"
  by (induction ps res rule: content_length_parts.induct) (auto simp: panic_iff Let_def split: option.splits)

lemma content_length_headers_not_Panic [simp]: "content_length_headers hs res \<noteq> Panic"
  by (induction hs res rule: content_length_headers.induct)
    (auto simp: panic_iff parse_content_length_value_def split: option.splits)

lemma resolve_not_Panic [simp]:
  "resolve_body_headers_for_request hs \<noteq> Panic" "resolve_body_headers_for_response hs \<noteq> Panic"
  by (auto simp: resolve_body_headers_for_request_def resolve_body_headers_for_response_def
      parse_transfer_encoding_for_request_def parse_transfer_encoding_for_response_def parse_content_length_def
      panic_iff split: prod.splits if_splits)

end
