(* ===== verification/Messages.thy ===== *)
theory Messages
  imports Status_Code Body_Headers
begin

text \<open>
  The message types: the \<open>HttpHead\<close> trait with \<open>RequestHead\<close> and \<open>ResponseHead\<close>
  (\<^verbatim>\<open>src/decoder/head.rs\<close>), \<open>Request\<close> (\<^verbatim>\<open>src/request.rs\<close>) and \<open>Response\<close>
  (\<^verbatim>\<open>src/response.rs\<close>). The trait's provided methods are functions of the version and the
  headers. What the two message builders promise about their headers is the locale
  \<open>header_store\<close>, interpreted for both.
\<close>

section \<open>The HttpHead trait\<close>

definition get_header :: "header list \<Rightarrow> string \<Rightarrow> string option" where
  "get_header hs name = map_option snd (find (\<lambda>h. eq_ignore_ascii_case (fst h) name) hs)"

definition get_headers :: "header list \<Rightarrow> string \<Rightarrow> string list" where
  "get_headers hs name = map snd (filter (\<lambda>h. eq_ignore_ascii_case (fst h) name) hs)"

definition has_header :: "header list \<Rightarrow> string \<Rightarrow> bool" where
  "has_header hs name \<longleftrightarrow> list_ex (\<lambda>h. eq_ignore_ascii_case (fst h) name) hs"

definition connection :: "header list \<Rightarrow> string option" where
  "connection hs = get_header hs ''Connection''"

text \<open>The token loop of \<open>is_keep_alive\<close>: \<open>None\<close> is the early return \<open>false\<close>.\<close>

fun keep_alive_tokens :: "string list \<Rightarrow> bool \<Rightarrow> bool option" where
  "keep_alive_tokens [] ka = Some ka"
| "keep_alive_tokens (t # ts) ka =
     (let token = trim_ows t
      in if eq_ignore_ascii_case token ''close'' then None
         else keep_alive_tokens ts (if eq_ignore_ascii_case token ''keep-alive'' then True else ka))"

fun keep_alive_headers :: "header list \<Rightarrow> bool \<Rightarrow> bool option" where
  "keep_alive_headers [] ka = Some ka"
| "keep_alive_headers ((name, value) # hs) ka =
     (if \<not> eq_ignore_ascii_case name ''Connection'' then keep_alive_headers hs ka
      else Option.bind (keep_alive_tokens (split_on (CHR '','') value) ka) (keep_alive_headers hs))"

definition is_keep_alive :: "string \<Rightarrow> header list \<Rightarrow> bool" where
  "is_keep_alive version hs =
     (case keep_alive_headers hs False of
        None \<Rightarrow> False
      | Some has_keep_alive \<Rightarrow> if has_keep_alive then True else version = ''HTTP/1.1'')"

definition content_length :: "header list \<Rightarrow> (nat option, Error) result" where
  "content_length hs = parse_content_length hs"

fun last_te_token :: "header list \<Rightarrow> string option \<Rightarrow> string option" where
  "last_te_token [] last_token = last_token"
| "last_te_token ((name, value) # hs) last_token =
     (if \<not> eq_ignore_ascii_case name ''Transfer-Encoding'' then last_te_token hs last_token
      else last_te_token hs
        (foldl (\<lambda>acc t. let token = trim_ows t in if token \<noteq> [] then Some token else acc)
           last_token (split_on (CHR '','') value)))"

definition is_chunked :: "header list \<Rightarrow> bool" where
  "is_chunked hs = (case last_te_token hs None of Some t \<Rightarrow> eq_ignore_ascii_case t ''chunked'' | None \<Rightarrow> False)"

section \<open>Heads\<close>

record RequestHead =
  rh_method :: string
  rh_uri :: string
  rh_version :: string
  rh_headers :: "header list"

definition rh_with_version :: "string \<Rightarrow> string \<Rightarrow> string \<Rightarrow> (RequestHead, EncodeError) result" where
  "rh_with_version m uri version =
     reject_if (\<not> is_valid_method m) (InvalidMethod m)
      (reject_if (\<not> is_valid_request_target uri) (InvalidRequestTarget uri)
       (reject_if (\<not> is_valid_protocol_version version) (InvalidVersion version)
         (Ok \<lparr>rh_method = m, rh_uri = uri, rh_version = version, rh_headers = []\<rparr>)))"

definition rh_new :: "string \<Rightarrow> string \<Rightarrow> (RequestHead, EncodeError) result" where
  "rh_new m uri = rh_with_version m uri ''HTTP/1.1''"

definition rh_add_header :: "RequestHead \<Rightarrow> string \<Rightarrow> string \<Rightarrow> (RequestHead, EncodeError) result" where
  "rh_add_header h name value =
     reject_if (\<not> is_valid_header_name name) (InvalidHeaderName name)
      (reject_if (\<not> is_valid_field_value value) (InvalidHeaderValue name value)
        (Ok (h\<lparr>rh_headers := rh_headers h @ [(name, value)]\<rparr>)))"

definition rh_from_validated_parts :: "string \<Rightarrow> string \<Rightarrow> string \<Rightarrow> header list \<Rightarrow> RequestHead" where
  "rh_from_validated_parts m uri version hs =
     \<lparr>rh_method = m, rh_uri = uri, rh_version = version, rh_headers = hs\<rparr>"

record ResponseHead =
  sh_version :: string
  sh_status_code :: nat
  sh_reason_phrase :: string
  sh_headers :: "header list"

definition sh_with_version :: "string \<Rightarrow> nat \<Rightarrow> string \<Rightarrow> (ResponseHead, EncodeError) result" where
  "sh_with_version version status reason =
     reject_if (\<not> is_valid_protocol_version version) (InvalidVersion version)
      (reject_if (\<not> is_valid_status_code status) (InvalidStatusCode status)
       (reject_if (reason \<noteq> [] \<and> \<not> is_valid_reason_phrase reason) (InvalidReasonPhrase reason)
         (Ok \<lparr>sh_version = version, sh_status_code = status, sh_reason_phrase = reason, sh_headers = []\<rparr>)))"

definition sh_new :: "nat \<Rightarrow> string \<Rightarrow> (ResponseHead, EncodeError) result" where
  "sh_new status reason = sh_with_version ''HTTP/1.1'' status reason"

definition sh_add_header :: "ResponseHead \<Rightarrow> string \<Rightarrow> string \<Rightarrow> (ResponseHead, EncodeError) result" where
  "sh_add_header h name value =
     reject_if (\<not> is_valid_header_name name) (InvalidHeaderName name)
      (reject_if (\<not> is_valid_field_value value) (InvalidHeaderValue name value)
        (Ok (h\<lparr>sh_headers := sh_headers h @ [(name, value)]\<rparr>)))"

definition sh_status_class :: "ResponseHead \<Rightarrow> (StatusClass, unit) result" where
  "sh_status_class h = (case from_status_code (sh_status_code h) of Some c \<Rightarrow> Ok c | None \<Rightarrow> Panic)"

definition sh_from_validated_parts :: "string \<Rightarrow> nat \<Rightarrow> string \<Rightarrow> header list \<Rightarrow> ResponseHead" where
  "sh_from_validated_parts version status reason hs =
     \<lparr>sh_version = version, sh_status_code = status, sh_reason_phrase = reason, sh_headers = hs\<rparr>"

section \<open>Requests\<close>

record Request =
  rq_method :: string
  rq_uri :: string
  rq_version :: string
  rq_headers :: "header list"
  rq_body :: "string option"

definition rq_with_version :: "string \<Rightarrow> string \<Rightarrow> string \<Rightarrow> (Request, EncodeError) result" where
  "rq_with_version m uri version =
     reject_if (\<not> is_valid_method m) (InvalidMethod m)
      (reject_if (\<not> is_valid_request_target uri) (InvalidRequestTarget uri)
       (reject_if (list_ex (\<lambda>b. u8 b \<ge> 0x80) uri) (InvalidRequestTarget uri)
        (reject_if (\<not> is_valid_protocol_version version) (InvalidVersion version)
          (Ok \<lparr>rq_method = m, rq_uri = uri, rq_version = version, rq_headers = [], rq_body = None\<rparr>))))"

definition rq_new :: "string \<Rightarrow> string \<Rightarrow> (Request, EncodeError) result" where
  "rq_new m uri =
     reject_if (\<not> is_valid_method m) (InvalidMethod m)
      (reject_if (\<not> is_valid_request_target uri) (InvalidRequestTarget uri)
       (reject_if (list_ex (\<lambda>b. u8 b \<ge> 0x80) uri) (InvalidRequestTarget uri)
          (Ok \<lparr>rq_method = m, rq_uri = uri, rq_version = ''HTTP/1.1'', rq_headers = [], rq_body = None\<rparr>)))"

definition rq_from_raw_parts :: "string \<Rightarrow> string \<Rightarrow> string \<Rightarrow> header list \<Rightarrow> string option \<Rightarrow> Request" where
  "rq_from_raw_parts m uri version hs b =
     \<lparr>rq_method = m, rq_uri = uri, rq_version = version, rq_headers = hs, rq_body = b\<rparr>"

definition rq_add_header :: "Request \<Rightarrow> string \<Rightarrow> string \<Rightarrow> (Request, EncodeError) result" where
  "rq_add_header r name value =
     reject_if (\<not> is_valid_header_name name) (InvalidHeaderName name)
      (reject_if (\<not> is_valid_field_value value) (InvalidHeaderValue name value)
        (Ok (r\<lparr>rq_headers := rq_headers r @ [(name, value)]\<rparr>)))"

definition rq_set_header :: "Request \<Rightarrow> string \<Rightarrow> string \<Rightarrow> (Request, EncodeError) result" where
  "rq_set_header r name value =
     reject_if (\<not> is_valid_header_name name) (InvalidHeaderName name)
      (reject_if (\<not> is_valid_field_value value) (InvalidHeaderValue name value)
        (Ok (r\<lparr>rq_headers := filter (\<lambda>h. \<not> eq_ignore_ascii_case (fst h) name) (rq_headers r) @ [(name, value)]\<rparr>)))"

definition rq_set_body :: "Request \<Rightarrow> string \<Rightarrow> Request" where
  "rq_set_body r b = r\<lparr>rq_body := Some b\<rparr>"

definition rq_clear_body :: "Request \<Rightarrow> Request" where
  "rq_clear_body r = r\<lparr>rq_body := None\<rparr>"

section \<open>Responses\<close>

record Response =
  rs_version :: string
  rs_status_code :: nat
  rs_reason_phrase :: string
  rs_headers :: "header list"
  rs_body :: "string option"
  rs_omit_body :: bool

definition rs_with_version :: "string \<Rightarrow> nat \<Rightarrow> string \<Rightarrow> (Response, EncodeError) result" where
  "rs_with_version version status reason =
     reject_if (\<not> is_valid_protocol_version version) (InvalidVersion version)
      (reject_if (\<not> is_valid_status_code status) (InvalidStatusCode status)
       (reject_if (\<not> is_valid_reason_phrase reason) (InvalidReasonPhrase reason)
         (Ok \<lparr>rs_version = version, rs_status_code = status, rs_reason_phrase = reason, rs_headers = [],
              rs_body = None, rs_omit_body = False\<rparr>)))"

definition rs_new :: "nat \<Rightarrow> string \<Rightarrow> (Response, EncodeError) result" where
  "rs_new status reason =
     reject_if (\<not> is_valid_status_code status) (InvalidStatusCode status)
       (reject_if (\<not> is_valid_reason_phrase reason) (InvalidReasonPhrase reason)
         (Ok \<lparr>rs_version = ''HTTP/1.1'', rs_status_code = status, rs_reason_phrase = reason, rs_headers = [],
              rs_body = None, rs_omit_body = False\<rparr>))"

definition rs_with_status :: "StatusCode \<Rightarrow> (Response, EncodeError) result" where
  "rs_with_status s =
     (case rs_with_version ''HTTP/1.1'' (code s) (canonical_reason s) of Ok r \<Rightarrow> Ok r | _ \<Rightarrow> Panic)"

definition rs_from_raw_parts :: "string \<Rightarrow> nat \<Rightarrow> string \<Rightarrow> header list \<Rightarrow> string option \<Rightarrow> Response" where
  "rs_from_raw_parts version status reason hs b =
     \<lparr>rs_version = version, rs_status_code = status, rs_reason_phrase = reason, rs_headers = hs,
      rs_body = b, rs_omit_body = False\<rparr>"

definition rs_add_header :: "Response \<Rightarrow> string \<Rightarrow> string \<Rightarrow> (Response, EncodeError) result" where
  "rs_add_header r name value =
     reject_if (\<not> is_valid_header_name name) (InvalidHeaderName name)
      (reject_if (\<not> is_valid_field_value value) (InvalidHeaderValue name value)
        (Ok (r\<lparr>rs_headers := rs_headers r @ [(name, value)]\<rparr>)))"

definition rs_set_header :: "Response \<Rightarrow> string \<Rightarrow> string \<Rightarrow> (Response, EncodeError) result" where
  "rs_set_header r name value =
     reject_if (\<not> is_valid_header_name name) (InvalidHeaderName name)
      (reject_if (\<not> is_valid_field_value value) (InvalidHeaderValue name value)
        (Ok (r\<lparr>rs_headers := filter (\<lambda>h. \<not> eq_ignore_ascii_case (fst h) name) (rs_headers r) @ [(name, value)]\<rparr>)))"

definition rs_set_body :: "Response \<Rightarrow> string \<Rightarrow> Response" where
  "rs_set_body r b = r\<lparr>rs_body := Some b\<rparr>"

definition rs_clear_body :: "Response \<Rightarrow> Response" where
  "rs_clear_body r = r\<lparr>rs_body := None\<rparr>"

definition rs_set_omit_body :: "Response \<Rightarrow> bool \<Rightarrow> Response" where
  "rs_set_omit_body r omit = r\<lparr>rs_omit_body := omit\<rparr>"

definition rs_status_class :: "Response \<Rightarrow> (StatusClass, unit) result" where
  "rs_status_class r = (case from_status_code (rs_status_code r) of Some c \<Rightarrow> Ok c | None \<Rightarrow> Panic)"

section \<open>The header contract of the builders\<close>

lemma eq_ignore_ascii_case_cong:
  "eq_ignore_ascii_case a b \<Longrightarrow> eq_ignore_ascii_case c a = eq_ignore_ascii_case c b"
  by (simp add: eq_ignore_ascii_case_def)

locale header_store =
  fixes hdrs :: "'m \<Rightarrow> header list"
    and add :: "'m \<Rightarrow> string \<Rightarrow> string \<Rightarrow> ('m, EncodeError) result"
    and set_hdr :: "'m \<Rightarrow> string \<Rightarrow> string \<Rightarrow> ('m, EncodeError) result"
  assumes add_iff: "(\<exists>m'. add m n v = Ok m') \<longleftrightarrow> is_valid_header_name n \<and> is_valid_field_value v"
    and set_iff: "(\<exists>m'. set_hdr m n v = Ok m') \<longleftrightarrow> is_valid_header_name n \<and> is_valid_field_value v"
    and add_hdrs: "add m n v = Ok m' \<Longrightarrow> hdrs m' = hdrs m @ [(n, v)]"
    and set_hdrs: "set_hdr m n v = Ok m' \<Longrightarrow>
          hdrs m' = filter (\<lambda>h. \<not> eq_ignore_ascii_case (fst h) n) (hdrs m) @ [(n, v)]"
begin

lemma get_after_set:
  assumes "set_hdr m n v = Ok m'"
  shows "get_headers (hdrs m') k = (if eq_ignore_ascii_case n k then [v] else get_headers (hdrs m) k)"
proof (cases "eq_ignore_ascii_case n k")
  case True
  then have "filter (\<lambda>h. eq_ignore_ascii_case (fst h) k \<and> \<not> eq_ignore_ascii_case (fst h) n) (hdrs m) = []"
    using eq_ignore_ascii_case_cong [of n k] by (simp add: filter_empty_conv)
  with True show ?thesis by (simp add: get_headers_def set_hdrs [OF assms] conj_commute)
next
  case False
  have "filter (\<lambda>h. eq_ignore_ascii_case (fst h) k \<and> \<not> eq_ignore_ascii_case (fst h) n) (hdrs m) =
      filter (\<lambda>h. eq_ignore_ascii_case (fst h) k) (hdrs m)"
    using False by (intro filter_cong) (auto simp: eq_ignore_ascii_case_def)
  with False show ?thesis by (simp add: get_headers_def set_hdrs [OF assms] conj_commute)
qed

lemma get_after_add:
  "add m n v = Ok m' \<Longrightarrow> get_headers (hdrs m') k = get_headers (hdrs m) k @ (if eq_ignore_ascii_case n k then [v] else [])"
  by (simp add: get_headers_def add_hdrs)

lemma valid_preserved:
  assumes "list_all (\<lambda>h. is_valid_header_name (fst h) \<and> is_valid_field_value (snd h)) (hdrs m)"
    and "add m n v = Ok m' \<or> set_hdr m n v = Ok m'"
  shows "list_all (\<lambda>h. is_valid_header_name (fst h) \<and> is_valid_field_value (snd h)) (hdrs m')"
  using assms(2)
proof
  assume "add m n v = Ok m'"
  with add_iff [of m n v] add_hdrs assms(1) show ?thesis by auto
next
  assume "set_hdr m n v = Ok m'"
  with set_iff [of m n v] set_hdrs assms(1) show ?thesis by (auto simp: list_all_iff)
qed

end

interpretation rq: header_store rq_headers rq_add_header rq_set_header
  by unfold_locales (auto simp: rq_add_header_def rq_set_header_def result_iff)

interpretation rs: header_store rs_headers rs_add_header rs_set_header
  by unfold_locales (auto simp: rs_add_header_def rs_set_header_def result_iff)

lemma get_headers_eq_values: "get_headers hs n = header_values n hs"
  by (simp add: get_headers_def header_values_def)

lemma has_header_iff: "has_header hs n \<longleftrightarrow> get_headers hs n \<noteq> []"
  by (induction hs) (auto simp: has_header_def get_headers_def)

lemma get_header_hd: "get_header hs n = (case get_headers hs n of [] \<Rightarrow> None | v # _ \<Rightarrow> Some v)"
  by (induction hs) (auto simp: get_header_def get_headers_def)

section \<open>Keep-alive and chunked, as statements about token lists\<close>

lemma keep_alive_tokens_eq:
  "keep_alive_tokens ts ka =
     (if list_ex (\<lambda>t. eq_ignore_ascii_case (trim_ows t) ''close'') ts then None
      else Some (ka \<or> list_ex (\<lambda>t. eq_ignore_ascii_case (trim_ows t) ''keep-alive'') ts))"
  by (induction ts ka rule: keep_alive_tokens.induct) (auto simp: Let_def)

definition connection_tokens :: "header list \<Rightarrow> string list" where
  "connection_tokens hs = concat (map (\<lambda>v. map trim_ows (split_on (CHR '','') v)) (header_values ''Connection'' hs))"

lemma connection_tokens_simps [simp]:
  "connection_tokens [] = []"
  "connection_tokens ((n, v) # hs) =
     (if eq_ignore_ascii_case n ''Connection'' then map trim_ows (split_on (CHR '','') v) @ connection_tokens hs
      else connection_tokens hs)"
  by (simp_all add: connection_tokens_def)

lemma keep_alive_headers_eq:
  "keep_alive_headers hs ka =
     (if list_ex (\<lambda>t. eq_ignore_ascii_case t ''close'') (connection_tokens hs) then None
      else Some (ka \<or> list_ex (\<lambda>t. eq_ignore_ascii_case t ''keep-alive'') (connection_tokens hs)))"
proof (induction hs ka rule: keep_alive_headers.induct)
  case (1 ka)
  then show ?case by simp
next
  case (2 name v hs ka)
  show ?case
  proof (cases "eq_ignore_ascii_case name ''Connection''")
    case True
    have m: "list_ex P (map trim_ows ts) = list_ex (\<lambda>t. P (trim_ows t)) ts" for P and ts :: "string list"
      by (simp add: list_ex_iff)
    show ?thesis
      using True "2.IH"(2) by (auto simp: keep_alive_tokens_eq m)
  next
    case False
    with 2 show ?thesis by simp
  qed
qed

lemma is_keep_alive_iff:
  "is_keep_alive version hs \<longleftrightarrow>
     \<not> list_ex (\<lambda>t. eq_ignore_ascii_case t ''close'') (connection_tokens hs)
     \<and> (list_ex (\<lambda>t. eq_ignore_ascii_case t ''keep-alive'') (connection_tokens hs) \<or> version = ''HTTP/1.1'')"
  by (simp add: is_keep_alive_def keep_alive_headers_eq)

lemma fold_last_token:
  "foldl (\<lambda>acc t. let token = trim_ows t in if token \<noteq> [] then Some token else acc) acc ts =
     (if elems ts = [] then acc else Some (last (elems ts)))"
  by (induction ts arbitrary: acc) (auto simp: Let_def)

lemma last_te_token_eq:
  "last_te_token hs acc =
     (let es = header_elements ''Transfer-Encoding'' hs in if es = [] then acc else Some (last es))"
  by (induction hs acc rule: last_te_token.induct) (auto simp: Let_def fold_last_token [unfolded Let_def])

lemma is_chunked_iff:
  "is_chunked hs \<longleftrightarrow> header_elements ''Transfer-Encoding'' hs \<noteq> []
     \<and> is_chunked_token (last (header_elements ''Transfer-Encoding'' hs))"
  by (simp add: is_chunked_def last_te_token_eq Let_def is_chunked_token_def)

section \<open>Properties\<close>

text \<open>
  C24. After \<open>set_header\<close> on a request the name has exactly the new value, in whatever case it is
  asked for, and every other name keeps its values; \<open>add_header\<close> appends one value. Both fail
  exactly for an invalid name or value.
\<close>

theorem request_header_laws:
  "(\<exists>r'. rq_set_header r n v = Ok r') = (is_valid_header_name n \<and> is_valid_field_value v)
   \<and> (\<exists>r'. rq_add_header r n v = Ok r') = (is_valid_header_name n \<and> is_valid_field_value v)
   \<and> (\<forall>r'. rq_set_header r n v = Ok r' \<longrightarrow>
        get_headers (rq_headers r') k = (if eq_ignore_ascii_case n k then [v] else get_headers (rq_headers r) k))
   \<and> (\<forall>r'. rq_add_header r n v = Ok r' \<longrightarrow>
        get_headers (rq_headers r') k = get_headers (rq_headers r) k @ (if eq_ignore_ascii_case n k then [v] else []))"
  using rq.set_iff rq.add_iff rq.get_after_set rq.get_after_add by blast

theorem request_header_laws_witness:
  "\<exists>r'. rq_set_header \<lparr>rq_method = ''GET'', rq_uri = ''/'', rq_version = ''HTTP/1.1'',
       rq_headers = [(''a'', ''1''), (''B'', ''2'')], rq_body = None\<rparr> ''A'' ''3'' = Ok r'
     \<and> get_headers (rq_headers r') ''a'' = [''3'']"
proof -
  let ?r = "\<lparr>rq_method = ''GET'', rq_uri = ''/'', rq_version = ''HTTP/1.1'', rq_headers = [(''a'', ''1''), (''B'', ''2'')], rq_body = None\<rparr>"
  have v: "is_valid_header_name ''A'' \<and> is_valid_field_value ''3''" by code_simp
  have e: "eq_ignore_ascii_case ''A'' ''a''" by code_simp
  from v e request_header_laws [of ?r "''A''" "''3''" "''a''"] show ?thesis by metis
qed

text \<open>
  C25. A message keeps the connection open exactly when no \<open>Connection\<close> list element is \<open>close\<close>
  and either one is \<open>keep-alive\<close> or the version is HTTP/1.1, over all \<open>Connection\<close> headers and in
  any case.
\<close>

theorem keep_alive_decision:
  "is_keep_alive version hs \<longleftrightarrow>
     \<not> list_ex (\<lambda>t. eq_ignore_ascii_case t ''close'') (connection_tokens hs)
     \<and> (list_ex (\<lambda>t. eq_ignore_ascii_case t ''keep-alive'') (connection_tokens hs) \<or> version = ''HTTP/1.1'')"
  by (rule is_keep_alive_iff)

end
