(* ===== verification/Incremental.thy ===== *)
theory Incremental
  imports Prelude
begin

text \<open>
  Resumable computations over a buffer that grows. \<open>resumable\<close> is the contract of an operation
  that either returns a result or asks for more bytes: a result does not depend on bytes behind
  what was consumed, and asking for more loses nothing. \<open>incremental_loop\<close> is the contract of
  one turn of a loop that gives such an operation. The header loops and the trailer loop of the
  decoders meet the latter, their body loops and \<open>decode\<close> the former; in each case the outcome
  does not depend on how the input is cut into pieces.
\<close>

section \<open>Resumable operations\<close>

locale resumable =
  fixes run :: "'s \<Rightarrow> 'r option \<times> 's"
    and app :: "'s \<Rightarrow> string \<Rightarrow> 's"
    and inv :: "'s \<Rightarrow> bool"
  assumes run_done: "inv s \<Longrightarrow> run s = (Some r, s') \<Longrightarrow> run (app s d) = (Some r, app s' d)"
    and run_resume: "inv s \<Longrightarrow> run s = (None, s') \<Longrightarrow> run (app s d) = run (app s' d)"
    and run_inv: "inv s \<Longrightarrow> run s = (None, s') \<Longrightarrow> inv s'"
    and app_inv: "inv s \<Longrightarrow> inv (app s d)"
    and app_app: "app (app s a) b = app s (a @ b)"
    and app_Nil: "app s [] = s"
begin

text \<open>Feeding piece by piece and running after every piece, until there is a result.\<close>

primrec feed_run :: "'s \<Rightarrow> string list \<Rightarrow> 'r option \<times> 's" where
  "feed_run s [] = run s"
| "feed_run s (d # ds) =
     (case run s of (Some r, s') \<Rightarrow> (Some r, app s' (concat (d # ds))) | (None, s') \<Rightarrow> feed_run (app s' d) ds)"

theorem feed_run_concat: "inv s \<Longrightarrow> feed_run s ds = run (app s (concat ds))"
proof (induction ds arbitrary: s)
  case Nil
  then show ?case by (simp add: app_Nil)
next
  case (Cons d ds)
  obtain o' s' where rs: "run s = (o', s')" by (cases "run s") auto
  show ?case
  proof (cases o')
    case None
    then have "run s = (None, s')" using rs by simp
    with Cons run_inv app_inv run_resume [of s s' "d @ concat ds"] show ?thesis
      by (simp add: app_app)
  next
    case (Some r)
    with rs Cons.prems run_done show ?thesis by simp
  qed
qed

text \<open>Any two ways to cut the same bytes give the same outcome.\<close>

corollary segmentation_independent:
  "inv s \<Longrightarrow> concat ds = concat es \<Longrightarrow> feed_run s ds = feed_run s es"
  by (simp add: feed_run_concat)

end

section \<open>Loops\<close>

datatype ('s, 'r) step = Next 's | Done 'r 's | Wait

fun map_step :: "('s \<Rightarrow> 's) \<Rightarrow> ('s, 'r) step \<Rightarrow> ('s, 'r) step" where
  "map_step f (Next s) = Next (f s)"
| "map_step f (Done r s) = Done r (f s)"
| "map_step f Wait = Wait"

locale incremental_loop =
  fixes step :: "'s \<Rightarrow> ('s, 'r) step"
    and run :: "'s \<Rightarrow> 'r option \<times> 's"
    and app :: "'s \<Rightarrow> string \<Rightarrow> 's"
    and left :: "'s \<Rightarrow> nat"
  assumes run_step: "run s = (case step s of Next s' \<Rightarrow> run s' | Done r s' \<Rightarrow> (Some r, s') | Wait \<Rightarrow> (None, s))"
    and decrease: "step s = Next s' \<Longrightarrow> left s' < left s"
    and step_app: "step s \<noteq> Wait \<Longrightarrow> step (app s d) = map_step (\<lambda>t. app t d) (step s)"
    and loop_app_app: "app (app s a) b = app s (a @ b)"
    and loop_app_Nil: "app s [] = s"
begin

lemma run_induct [case_names step]:
  assumes "\<And>s. (\<And>s'. step s = Next s' \<Longrightarrow> P s') \<Longrightarrow> P s"
  shows "P s"
  using assms by (induction s rule: measure_induct_rule [of left]) (meson decrease)

lemma loop_done: "run s = (Some r, s') \<Longrightarrow> run (app s d) = (Some r, app s' d)"
proof (induction s rule: run_induct)
  case (step s)
  then show ?case
    using step_app [of s d] run_step [of s] run_step [of "app s d"]
    by (cases "step s") auto
qed

lemma loop_resume: "run s = (None, s') \<Longrightarrow> run (app s d) = run (app s' d)"
proof (induction s rule: run_induct)
  case (step s)
  then show ?case
    using step_app [of s d] run_step [of s] run_step [of "app s d"]
    by (cases "step s") auto
qed

end

sublocale incremental_loop \<subseteq> resumable run app "\<lambda>_. True"
  by unfold_locales (simp_all add: loop_done loop_resume loop_app_app loop_app_Nil)

section \<open>Streams of messages\<close>

text \<open>
  A connection carries one message after the other. \<open>pump\<close> runs the operation until it asks
  for more bytes or returns a result after which nothing more can be read; \<open>serve\<close> pumps after
  every piece that arrives.
\<close>

primrec serve ::
  "('s \<Rightarrow> 'r list \<times> bool \<times> 's) \<Rightarrow> ('s \<Rightarrow> string \<Rightarrow> 's) \<Rightarrow> 's \<Rightarrow> string list \<Rightarrow> 'r list \<times> bool \<times> 's" where
  "serve pump app s [] = pump s"
| "serve pump app s (d # ds) =
     (case pump s of (rs, stopped, s') \<Rightarrow>
        if stopped then (rs, True, app s' (concat (d # ds)))
        else (case serve pump app (app s' d) ds of (rs', b, t) \<Rightarrow> (rs @ rs', b, t)))"

locale message_stream = resumable run app inv
  for run :: "'s \<Rightarrow> 'r option \<times> 's" and app :: "'s \<Rightarrow> string \<Rightarrow> 's" and inv :: "'s \<Rightarrow> bool" +
  fixes pump :: "'s \<Rightarrow> 'r list \<times> bool \<times> 's"
    and more :: "'r \<Rightarrow> bool"
    and left :: "'s \<Rightarrow> nat"
  assumes pump_eq: "pump s =
     (case run s of
        (None, s') \<Rightarrow> ([], False, s')
      | (Some r, s') \<Rightarrow> if more r then (case pump s' of (rs, b, t) \<Rightarrow> (r # rs, b, t)) else ([r], True, s'))"
    and run_less: "run s = (Some r, s') \<Longrightarrow> more r \<Longrightarrow> left s' < left s"
    and run_more: "inv s \<Longrightarrow> run s = (Some r, s') \<Longrightarrow> more r \<Longrightarrow> inv s'"
begin

lemma pump_app:
  "inv s \<Longrightarrow> pump s = (rs, stopped, s') \<Longrightarrow> pump (app s d) =
     (if stopped then (rs, True, app s' d) else (case pump (app s' d) of (rs', b, t) \<Rightarrow> (rs @ rs', b, t)))
     \<and> (\<not> stopped \<longrightarrow> inv s')"
proof (induction s arbitrary: rs rule: measure_induct_rule [of left])
  case (less s)
  obtain q t where r: "run s = (q, t)" by (cases "run s") auto
  show ?case
  proof (cases q)
    case None
    with r have n: "run s = (None, t)" by simp
    with less.prems pump_eq [of s] have [simp]: "rs = []" "stopped = False" "s' = t" by simp_all
    have "pump (app s d) = pump (app t d)"
      using run_resume [OF less.prems(1) n, of d] pump_eq [of "app s d"] pump_eq [of "app t d"] by simp
    with run_inv [OF less.prems(1) n] show ?thesis by simp
  next
    case (Some x)
    with r have r': "run s = (Some x, t)" by simp
    note a = run_done [OF less.prems(1) r', of d]
    show ?thesis
    proof (cases "more x")
      case True
      obtain rs' b u where dt: "pump t = (rs', b, u)" by (cases "pump t") auto
      with r' True less.prems(2) pump_eq [of s] have e: "rs = x # rs'" "pump t = (rs', stopped, s')" by simp_all
      from less.IH [OF run_less [OF r' True] run_more [OF less.prems(1) r' True] e(2)] e a True pump_eq [of "app s d"]
      show ?thesis by (auto split: prod.splits)
    next
      case False
      with r' a less.prems(2) pump_eq [of s] pump_eq [of "app s d"] show ?thesis by simp
    qed
  qed
qed

theorem serve_concat: "inv s \<Longrightarrow> serve pump app s ds = pump (app s (concat ds))"
proof (induction ds arbitrary: s)
  case Nil
  then show ?case by (simp add: app_Nil)
next
  case (Cons d ds)
  obtain rs b s' where ds': "pump s = (rs, b, s')" by (cases "pump s") auto
  from pump_app [OF Cons.prems ds', of "d @ concat ds"] Cons.IH [of "app s' d"] app_inv ds' show ?case
    by (auto simp: app_app)
qed

end

end
