(* ===== verification/Body_Decoder.thy ===== *)
theory Body_Decoder
  imports Body_Headers Incremental
begin

text \<open>
  The state machine half of \<^verbatim>\<open>src/decoder/body.rs\<close>: \<open>BodyDecoder\<close> with \<open>peek_body\<close>,
  \<open>consume_body\<close>, the chunk-size line and the trailer section. An operation returns its result
  together with the decoder, the buffer and the phase as they are when it returns, on the error
  paths too.
\<close>

datatype BodyKind = ContentLength nat | Chunked | CloseDelimited | BodyNone | BodyTunnel

datatype BodyProgress = Advanced | NeedData | Complete "header list"

record BodyDecoder =
  trailers :: "header list"
  body_consumed :: nat
  trailer_count :: nat
  declared_trailers :: "string list"

definition bd_new :: BodyDecoder where
  "bd_new = \<lparr>trailers = [], body_consumed = 0, trailer_count = 0, declared_trailers = []\<rparr>"

definition bd_reset :: "BodyDecoder \<Rightarrow> BodyDecoder" where
  "bd_reset bd = bd\<lparr>trailers := [], body_consumed := 0, trailer_count := 0, declared_trailers := []\<rparr>"

definition set_declared_trailers :: "BodyDecoder \<Rightarrow> string list \<Rightarrow> BodyDecoder" where
  "set_declared_trailers bd declared = bd\<lparr>declared_trailers := declared\<rparr>"

definition bd_peek_body :: "string \<Rightarrow> DecodePhase \<Rightarrow> string option" where
  "bd_peek_body buf phase =
     (case phase of
        BodyContentLength rem \<Rightarrow>
          if buf = [] then None
          else
            let available = (if rem \<ge> length buf then length buf else rem)
            in if available > 0 then Some (take available buf) else None
      | BodyChunkedSize \<Rightarrow> None
      | BodyChunkedData rem \<Rightarrow>
          if buf = [] then None
          else
            let available = min (length buf) rem
            in if available > 0 then Some (take available buf) else None
      | BodyCloseDelimited \<Rightarrow> if buf = [] then None else Some buf
      | _ \<Rightarrow> None)"

section \<open>Chunk extensions\<close>

definition skip_bws :: "string \<Rightarrow> string" where
  "skip_bws s = dropWhile (\<lambda>b. b = SP \<or> b = HTAB) s"

definition is_qdtext :: "char \<Rightarrow> bool" where
  [class_defs]: "is_qdtext b \<longleftrightarrow>
     b = HTAB \<or> b = SP \<or> u8 b = 0x21 \<or> 0x23 \<le> u8 b \<and> u8 b \<le> 0x5B \<or> 0x5D \<le> u8 b \<and> u8 b \<le> 0x7E \<or> 0x80 \<le> u8 b"

text \<open>\<open>parse_quoted_string\<close> from the byte behind the opening quote on; the rest of the input.\<close>

fun ext_quoted_loop :: "string \<Rightarrow> (string, Error) result" where
  "ext_quoted_loop [] = Err (InvalidData ''invalid chunk-ext: unterminated quoted-string'')"
| "ext_quoted_loop (b # bs) =
     (if b = DQUOTE then Ok bs
      else if b = BACKSLASH then
        (case bs of
           [] \<Rightarrow> Err (InvalidData ''invalid chunk-ext: incomplete quoted-pair'')
         | escaped # rest \<Rightarrow>
             if escaped = HTAB \<or> escaped = SP \<or> 0x21 \<le> u8 escaped \<and> u8 escaped \<le> 0x7E \<or> 0x80 \<le> u8 escaped
             then ext_quoted_loop rest
             else Err (InvalidData ''invalid chunk-ext: invalid quoted-pair character''))
      else if is_qdtext b then ext_quoted_loop bs
      else Err (InvalidData ''invalid chunk-ext: invalid character in quoted-string''))"

definition ext_parse_quoted_string :: "string \<Rightarrow> (string, Error) result" where
  "ext_parse_quoted_string data = ext_quoted_loop (tl data)"

text \<open>The optional \<open>= value\<close> of one extension; the input starts behind the name.\<close>

definition chunk_ext_value :: "string \<Rightarrow> (string, Error) result" where
  "chunk_ext_value s =
     (if s \<noteq> [] \<and> hd s = CHR ''='' then
        let v = skip_bws (tl s)
        in if v = [] then Err (InvalidData (''invalid chunk-ext: missing value after '' @ [CHR 0x27, CHR ''='', CHR 0x27]))
           else if hd v = DQUOTE then ext_parse_quoted_string v
           else if takeWhile is_token_char v = []
           then Err (InvalidData ''invalid chunk-ext: empty or invalid value'')
           else Ok (dropWhile is_token_char v)
      else Ok s)"

lemma skip_bws_length: "length (skip_bws s) \<le> length s"
  by (simp add: skip_bws_def length_dropWhile_le)

lemma ext_quoted_loop_length: "ext_quoted_loop s = Ok r \<Longrightarrow> length r < length s"
  by (induction s rule: ext_quoted_loop.induct) (auto split: if_splits list.splits)

lemma chunk_ext_value_length: "chunk_ext_value s = Ok r \<Longrightarrow> length r \<le> length s"
proof -
  assume a: "chunk_ext_value s = Ok r"
  have "length (skip_bws (tl s)) \<le> length s" using skip_bws_length [of "tl s"] by simp
  moreover have "length (dropWhile is_token_char (skip_bws (tl s))) \<le> length (skip_bws (tl s))"
    by (rule length_dropWhile_le)
  ultimately show "length r \<le> length s"
    using a ext_quoted_loop_length [of "tl (skip_bws (tl s))" r]
    by (auto simp: chunk_ext_value_def ext_parse_quoted_string_def Let_def split: if_splits)
qed

function validate_chunk_ext :: "string \<Rightarrow> (unit, Error) result" where
  "validate_chunk_ext ext =
     (case skip_bws ext of
        [] \<Rightarrow> Ok ()
      | c # rest \<Rightarrow>
          if c \<noteq> CHR '';'' then Err (InvalidData (''invalid chunk-ext: expected '' @ [CHR 0x27, CHR '';'', CHR 0x27]))
          else
            let name_on = skip_bws rest
            in if takeWhile is_token_char name_on = []
               then Err (InvalidData ''invalid chunk-ext: empty or invalid name'')
               else (case chunk_ext_value (skip_bws (dropWhile is_token_char name_on)) of
                       Ok rest' \<Rightarrow> validate_chunk_ext rest'
                     | Err e \<Rightarrow> Err e
                     | Panic \<Rightarrow> Panic))"
  by pat_completeness auto
termination
proof (relation "measure length")
  fix ext c rest name_on rest'
  assume e: "skip_bws ext = c # rest" and n: "name_on = skip_bws rest"
    and v: "chunk_ext_value (skip_bws (dropWhile is_token_char name_on)) = Ok rest'"
  have "length rest' \<le> length (skip_bws (dropWhile is_token_char name_on))" using v by (rule chunk_ext_value_length)
  also have "\<dots> \<le> length (dropWhile is_token_char name_on)" by (rule skip_bws_length)
  also have "\<dots> \<le> length name_on" by (rule length_dropWhile_le)
  also have "\<dots> \<le> length rest" unfolding n by (rule skip_bws_length)
  also have "\<dots> < length ext" using e skip_bws_length [of ext] by simp
  finally show "(rest', ext) \<in> measure length" by simp
qed simp

declare validate_chunk_ext.simps [simp del]

section \<open>The chunk-size line\<close>

definition invalid_chunk_size :: "string \<Rightarrow> Error" where
  "invalid_chunk_size size_bytes = InvalidData (''invalid chunk size: '' @ from_utf8_lossy size_bytes)"

definition parse_chunk_line :: "string \<Rightarrow> (nat, Error) result" where
  "parse_chunk_line line_bytes =
     (let semi_pos = position (\<lambda>b. b = CHR '';'') line_bytes;
          size_end = (case semi_pos of Some p \<Rightarrow> p | None \<Rightarrow> length line_bytes);
          size_bytes = take size_end line_bytes;
          hex_end = (case position (\<lambda>b. \<not> is_ascii_hexdigit b) size_bytes of Some p \<Rightarrow> p | None \<Rightarrow> length size_bytes);
          trailing = drop hex_end size_bytes;
          hex_bytes = take hex_end size_bytes
      in reject_if (hex_end = 0) (invalid_chunk_size size_bytes)
          (reject_if (trailing \<noteq> [] \<and> semi_pos \<noteq> None \<and> \<not> list_all (\<lambda>b. b = SP \<or> b = HTAB) trailing)
             (invalid_chunk_size size_bytes)
           (reject_if (trailing \<noteq> [] \<and> semi_pos = None) (invalid_chunk_size size_bytes)
             (and_then (map_err (\<lambda>_. InvalidData ''invalid chunk size: not ASCII'') (from_utf8 hex_bytes)) (\<lambda>size_str.
              and_then (ok_or (parse_hex_usize size_str) (InvalidData (''invalid chunk size: '' @ size_str))) (\<lambda>chunk_size.
              and_then (case semi_pos of Some sp \<Rightarrow> validate_chunk_ext (drop sp line_bytes) | None \<Rightarrow> Ok ()) (\<lambda>_.
              Ok chunk_size)))))))"

section \<open>Trailers\<close>

text \<open>One turn of the loop of \<open>process_trailers\<close>; the result carries the phase it leaves.\<close>

definition trailer_step ::
  "DecoderLimits \<Rightarrow> BodyDecoder \<times> string \<Rightarrow> (BodyDecoder \<times> string, (bool, Error) result \<times> DecodePhase) step"
where
  "trailer_step limits s =
     (case s of (bd, buf) \<Rightarrow>
      (case find_line buf of
        None \<Rightarrow> Wait
      | Some pos \<Rightarrow>
          if pos = 0 then Done (Ok True, PhaseComplete) (bd, drain 2 buf)
          else if pos > max_header_line_size limits
          then Done (Err (HeaderLineTooLong pos (max_header_line_size limits)), ChunkedTrailer) (bd, buf)
          else if trailer_count bd \<ge> max_headers_count limits
          then Done (Err (TooManyHeaders (trailer_count bd + 1) (max_headers_count limits)), ChunkedTrailer) (bd, buf)
          else
            (case from_utf8 (take pos buf) of
               Err e \<Rightarrow> Done (Err (InvalidData (''invalid UTF-8: '' @ utf8_error_display e)), ChunkedTrailer) (bd, buf)
             | Panic \<Rightarrow> Done (Panic, ChunkedTrailer) (bd, buf)
             | Ok line \<Rightarrow>
                 let buf' = drain (pos + 2) buf
                 in (case parse_header_line line of
                       Err e \<Rightarrow> Done (Err e, ChunkedTrailer) (bd, buf')
                     | Panic \<Rightarrow> Done (Panic, ChunkedTrailer) (bd, buf')
                     | Ok (name, value) \<Rightarrow>
                         if is_prohibited_trailer_field name
                         then Done (Err (InvalidData (''prohibited trailer field: '' @ name)), ChunkedTrailer) (bd, buf')
                         else if \<not> list_ex (\<lambda>d. d = to_ascii_lowercase name) (declared_trailers bd)
                         then Done (Err (InvalidData (''undeclared trailer field: '' @ name)), ChunkedTrailer) (bd, buf')
                         else Next (bd\<lparr>trailers := trailers bd @ [(name, value)], trailer_count := trailer_count bd + 1\<rparr>, buf')))))"

lemma trailer_step_length: "trailer_step limits (bd, buf) = Next (bd', buf') \<Longrightarrow> length buf' < length buf"
  by (auto simp: trailer_step_def Let_def dest!: find_line_SomeD(1)
      split: option.splits if_splits result.splits prod.splits)

function trailer_loop ::
  "DecoderLimits \<Rightarrow> bool \<Rightarrow> BodyDecoder \<Rightarrow> string \<Rightarrow> (bool, Error) result \<times> BodyDecoder \<times> string \<times> DecodePhase"
where
  "trailer_loop limits advanced bd buf =
     (case trailer_step limits (bd, buf) of
        Wait \<Rightarrow> (Ok advanced, bd, buf, ChunkedTrailer)
      | Done (r, phase) (bd', buf') \<Rightarrow> (r, bd', buf', phase)
      | Next (bd', buf') \<Rightarrow> trailer_loop limits True bd' buf')"
  by pat_completeness auto
termination
  by (relation "measure (\<lambda>(_, _, _, buf). length buf)") (auto simp: trailer_step_length)

declare trailer_loop.simps [simp del]

definition process_trailers ::
  "BodyDecoder \<Rightarrow> string \<Rightarrow> DecodePhase \<Rightarrow> DecoderLimits \<Rightarrow> (bool, Error) result \<times> BodyDecoder \<times> string \<times> DecodePhase"
where
  "process_trailers bd buf phase limits =
     (if phase = ChunkedTrailer then trailer_loop limits False bd buf else (Ok False, bd, buf, phase))"

definition process_chunked_size ::
  "BodyDecoder \<Rightarrow> string \<Rightarrow> DecodePhase \<Rightarrow> DecoderLimits \<Rightarrow> (unit, Error) result \<times> BodyDecoder \<times> string \<times> DecodePhase"
where
  "process_chunked_size bd buf phase limits =
     (if phase \<noteq> BodyChunkedSize then (Ok (), bd, buf, phase)
      else case find_line buf of
        None \<Rightarrow> (Ok (), bd, buf, phase)
      | Some pos \<Rightarrow>
          if pos > max_chunk_line_size limits
          then (Err (ChunkLineTooLong pos (max_chunk_line_size limits)), bd, buf, phase)
          else
            (case parse_chunk_line (take pos buf) of
               Err e \<Rightarrow> (Err e, bd, buf, phase)
             | Panic \<Rightarrow> (Panic, bd, buf, phase)
             | Ok chunk_size \<Rightarrow>
                 let buf' = drain (pos + 2) buf
                 in if chunk_size = 0 then
                      (case process_trailers bd buf' ChunkedTrailer limits of
                         (r, bd', buf'', phase') \<Rightarrow> (and_then r (\<lambda>_. Ok ()), bd', buf'', phase'))
                    else
                      (case checked_add (body_consumed bd) chunk_size of
                         None \<Rightarrow> (Err (BodyTooLarge usize_max (max_body_size limits)), bd, buf', phase)
                       | Some new_size \<Rightarrow>
                           if new_size > max_body_size limits
                           then (Err (BodyTooLarge new_size (max_body_size limits)), bd, buf', phase)
                           else (Ok (), bd, buf', BodyChunkedData chunk_size))))"

section \<open>consume_body\<close>

definition expected_crlf :: Error where
  "expected_crlf = InvalidData ''invalid chunked encoding: expected CRLF after chunk data''"

text \<open>The branches of \<open>consume_body\<close> for the three phases that carry body bytes.\<close>

definition consume_content_length ::
  "BodyDecoder \<Rightarrow> string \<Rightarrow> nat \<Rightarrow> nat \<Rightarrow> DecoderLimits \<Rightarrow> (BodyProgress, Error) result \<times> BodyDecoder \<times> string \<times> DecodePhase"
where
  "consume_content_length bd buf rem len limits =
     (if len > rem then (Err (InvalidData ''consume_body: len exceeds remaining''), bd, buf, BodyContentLength rem)
      else if len > length buf then (Err (InvalidData ''consume_body: len exceeds buffer''), bd, buf, BodyContentLength rem)
      else
        let buf' = drain len buf; rem' = rem - len
        in case checked_add (body_consumed bd) len of
             None \<Rightarrow> (Err (BodyTooLarge usize_max (max_body_size limits)), bd, buf', BodyContentLength rem')
           | Some c \<Rightarrow>
               let bd' = bd\<lparr>body_consumed := c\<rparr>
               in if rem' = 0 then (Ok (Complete []), bd', buf', PhaseComplete)
                  else if len > 0 then (Ok Advanced, bd', buf', BodyContentLength rem')
                  else (Ok NeedData, bd', buf', BodyContentLength rem'))"

definition consume_chunked_data ::
  "BodyDecoder \<Rightarrow> string \<Rightarrow> nat \<Rightarrow> nat \<Rightarrow> DecoderLimits \<Rightarrow> (BodyProgress, Error) result \<times> BodyDecoder \<times> string \<times> DecodePhase"
where
  "consume_chunked_data bd buf rem len limits =
     (if len > rem then (Err (InvalidData ''consume_body: len exceeds chunk remaining''), bd, buf, BodyChunkedData rem)
      else if len > length buf then (Err (InvalidData ''consume_body: len exceeds buffer''), bd, buf, BodyChunkedData rem)
      else if len = 0 then (Ok NeedData, bd, buf, BodyChunkedData rem)
      else
        let buf' = drain len buf; rem' = rem - len
        in case checked_add (body_consumed bd) len of
             None \<Rightarrow> (Err (BodyTooLarge usize_max (max_body_size limits)), bd, buf', BodyChunkedData rem')
           | Some c \<Rightarrow>
               let bd' = bd\<lparr>body_consumed := c\<rparr>
               in if rem' = 0 then
                    (if length buf' \<ge> 2 then
                       (if take 2 buf' \<noteq> CRLF then (Err expected_crlf, bd', buf', BodyChunkedDataCrlf)
                        else (Ok Advanced, bd', drain 2 buf', BodyChunkedSize))
                     else (Ok NeedData, bd', buf', BodyChunkedDataCrlf))
                  else (Ok Advanced, bd', buf', BodyChunkedData rem'))"

definition consume_close_delimited ::
  "BodyDecoder \<Rightarrow> string \<Rightarrow> nat \<Rightarrow> DecoderLimits \<Rightarrow> (BodyProgress, Error) result \<times> BodyDecoder \<times> string \<times> DecodePhase"
where
  "consume_close_delimited bd buf len limits =
     (if len > length buf then (Err (InvalidData ''consume_body: len exceeds buffer''), bd, buf, BodyCloseDelimited)
      else if len = 0 then (Ok NeedData, bd, buf, BodyCloseDelimited)
      else case checked_add (body_consumed bd) len of
             None \<Rightarrow> (Err (BodyTooLarge usize_max (max_body_size limits)), bd, buf, BodyCloseDelimited)
           | Some new_size \<Rightarrow>
               if new_size > max_body_size limits
               then (Err (BodyTooLarge new_size (max_body_size limits)), bd, buf, BodyCloseDelimited)
               else (Ok Advanced, bd\<lparr>body_consumed := new_size\<rparr>, drain len buf, BodyCloseDelimited))"

text \<open>\<open>core::mem::take\<close> hands the collected trailers over with the result.\<close>

definition complete_with_trailers ::
  "BodyDecoder \<Rightarrow> string \<Rightarrow> DecodePhase \<Rightarrow> (BodyProgress, Error) result \<times> BodyDecoder \<times> string \<times> DecodePhase"
where
  "complete_with_trailers bd buf phase = (Ok (Complete (trailers bd)), bd\<lparr>trailers := []\<rparr>, buf, phase)"

definition bd_consume_body ::
  "BodyDecoder \<Rightarrow> string \<Rightarrow> DecodePhase \<Rightarrow> nat \<Rightarrow> DecoderLimits \<Rightarrow> (BodyProgress, Error) result \<times> BodyDecoder \<times> string \<times> DecodePhase"
where
  "bd_consume_body bd buf phase len limits =
     (case phase of
        BodyContentLength rem \<Rightarrow> consume_content_length bd buf rem len limits
      | BodyChunkedSize \<Rightarrow>
          (case process_chunked_size bd buf phase limits of
             (Err e, bd', buf', phase') \<Rightarrow> (Err e, bd', buf', phase')
           | (Panic, bd', buf', phase') \<Rightarrow> (Panic, bd', buf', phase')
           | (Ok _, bd', buf', phase') \<Rightarrow>
               if phase' = PhaseComplete then complete_with_trailers bd' buf' phase'
               else if phase' = phase then (Ok NeedData, bd', buf', phase')
               else (Ok Advanced, bd', buf', phase'))
      | BodyChunkedData rem \<Rightarrow> consume_chunked_data bd buf rem len limits
      | BodyChunkedDataCrlf \<Rightarrow>
          if length buf \<ge> 2 then
            (if take 2 buf \<noteq> CRLF then (Err expected_crlf, bd, buf, phase)
             else (Ok Advanced, bd, drain 2 buf, BodyChunkedSize))
          else (Ok NeedData, bd, buf, phase)
      | ChunkedTrailer \<Rightarrow>
          (case process_trailers bd buf phase limits of
             (Err e, bd', buf', phase') \<Rightarrow> (Err e, bd', buf', phase')
           | (Panic, bd', buf', phase') \<Rightarrow> (Panic, bd', buf', phase')
           | (Ok advanced, bd', buf', phase') \<Rightarrow>
               if phase' = PhaseComplete then complete_with_trailers bd' buf' phase'
               else if advanced then (Ok Advanced, bd', buf', phase')
               else (Ok NeedData, bd', buf', phase'))
      | BodyCloseDelimited \<Rightarrow> consume_close_delimited bd buf len limits
      | PhaseComplete \<Rightarrow> complete_with_trailers bd buf phase
      | StartLine \<Rightarrow> (Err (InvalidData ''consume_body called before decode_headers''), bd, buf, phase)
      | Headers \<Rightarrow> (Err (InvalidData ''consume_body called before decode_headers''), bd, buf, phase)
      | Tunnel \<Rightarrow> (Err (InvalidData ''consume_body cannot be used in tunnel mode, use take_remaining instead''), bd, buf, phase))"

section \<open>Progress\<close>

lemma trailer_loop_length:
  "trailer_loop limits adv bd buf = (r, bd', buf', ph) \<Longrightarrow>
     length buf' \<le> length buf \<and> (r = Ok True \<longrightarrow> adv \<or> length buf' < length buf)"
proof (induction limits adv bd buf rule: trailer_loop.induct)
  case (1 limits adv bd buf)
  show ?case
  proof (cases "trailer_step limits (bd, buf)")
    case (Next s)
    then obtain bd1 buf1 where n: "trailer_step limits (bd, buf) = Next (bd1, buf1)" by (cases s) auto
    with 1 have "length buf' \<le> length buf1" by (auto simp: trailer_loop.simps [of limits adv])
    with trailer_step_length [OF n] show ?thesis by simp
  next
    case (Done res s)
    obtain rr pp bd1 buf1 where d: "res = (rr, pp)" "s = (bd1, buf1)" by (cases res; cases s) auto
    have "length buf1 \<le> length buf \<and> (rr = Ok True \<longrightarrow> length buf1 < length buf)"
      using Done d by (auto simp: trailer_step_def Let_def dest!: find_line_SomeD(1)
        split: option.splits if_splits result.splits prod.splits)
    with Done d 1(2) show ?thesis by (auto simp: trailer_loop.simps [of limits adv])
  next
    case Wait
    with 1(2) show ?thesis by (auto simp: trailer_loop.simps [of limits adv])
  qed
qed

lemma process_chunked_size_length:
  assumes "process_chunked_size bd buf ph limits = (r, bd', buf', ph')"
  shows "length buf' \<le> length buf" and "r = Ok u \<Longrightarrow> ph' \<noteq> ph \<Longrightarrow> length buf' < length buf"
proof -
  have "length buf' \<le> length buf \<and> (buf' = buf \<and> ph' = ph \<or> length buf' < length buf)"
  proof (cases "find_line buf")
    case None
    with assms show ?thesis by (auto simp: process_chunked_size_def split: if_splits)
  next
    case (Some pos)
    have "pos + 2 \<le> length buf" using find_line_SomeD(1) [OF Some] .
    with assms Some show ?thesis
      by (auto simp: process_chunked_size_def process_trailers_def Let_def dest!: trailer_loop_length
          split: if_splits result.splits option.splits prod.splits)
  qed
  then show "length buf' \<le> length buf" "r = Ok u \<Longrightarrow> ph' \<noteq> ph \<Longrightarrow> length buf' < length buf" by auto
qed

lemma consume_length: "bd_consume_body bd buf ph len limits = (r, bd', buf', ph') \<Longrightarrow> length buf' \<le> length buf"
  by (auto simp: bd_consume_body_def consume_content_length_def consume_chunked_data_def consume_close_delimited_def
      complete_with_trailers_def process_trailers_def Let_def
      dest!: process_chunked_size_length(1) trailer_loop_length
      split: DecodePhase.splits if_splits option.splits prod.splits result.splits)

lemma progress_decreases:
  assumes "bd_consume_body bd buf ph 0 limits = (Ok Advanced, bd', buf', ph')"
  shows "length buf' < length buf"
proof (cases ph)
  case BodyChunkedSize
  with assms obtain bd1 buf1 ph1 where
    p: "process_chunked_size bd buf ph limits = (Ok (), bd1, buf1, ph1)" and n: "ph1 \<noteq> ph" "buf' = buf1"
    by (auto simp: bd_consume_body_def complete_with_trailers_def split: prod.splits result.splits if_splits)
  from process_chunked_size_length(2) [OF p refl n(1)] n(2) show ?thesis by simp
next
  case ChunkedTrailer
  with assms obtain bd1 buf1 ph1 where
    p: "trailer_loop limits False bd buf = (Ok True, bd1, buf1, ph1)" and n: "buf' = buf1"
    by (auto simp: bd_consume_body_def complete_with_trailers_def process_trailers_def
        split: prod.splits result.splits if_splits)
  from trailer_loop_length [OF p] n show ?thesis by simp
qed (use assms in \<open>auto simp: bd_consume_body_def consume_content_length_def consume_chunked_data_def
      consume_close_delimited_def complete_with_trailers_def Let_def split: if_splits option.splits\<close>)

lemma consume_peeked_decreases:
  assumes "bd_peek_body buf ph = Some dat" "bd_consume_body bd buf ph (length dat) limits = (Ok p, bd', buf', ph')"
  shows "length buf' < length buf"
proof -
  have "dat \<noteq> []" "length dat \<le> length buf"
    using assms(1) by (auto simp: bd_peek_body_def Let_def min_def split: DecodePhase.splits if_splits)
  moreover have "length buf' \<le> length buf - length dat"
    using assms by (auto simp: bd_peek_body_def bd_consume_body_def consume_content_length_def
        consume_chunked_data_def consume_close_delimited_def Let_def
        split: DecodePhase.splits if_splits option.splits)
  ultimately show ?thesis by (cases dat) auto
qed

section \<open>Reading a whole body\<close>

text \<open>
  The loop of \<open>decode\<close>, the same in both decoders: read what is there, otherwise advance the
  state machine. \<open>Ok True\<close> is a complete body, \<open>Ok False\<close> a request for more bytes.
\<close>

definition dec_consume_body ::
  "BodyDecoder \<Rightarrow> string \<Rightarrow> DecodePhase \<Rightarrow> nat \<Rightarrow> DecoderLimits \<Rightarrow> (BodyProgress, Error) result \<times> BodyDecoder \<times> string \<times> DecodePhase"
where
  "dec_consume_body bd buf phase len limits =
     (if len = 0 then (Err (InvalidData ''consume_body(0) is not allowed, use progress() instead''), bd, buf, phase)
      else bd_consume_body bd buf phase len limits)"

definition dec_progress ::
  "BodyDecoder \<Rightarrow> string \<Rightarrow> DecodePhase \<Rightarrow> DecoderLimits \<Rightarrow> (BodyProgress, Error) result \<times> BodyDecoder \<times> string \<times> DecodePhase"
where
  "dec_progress bd buf phase limits = bd_consume_body bd buf phase 0 limits"

function body_loop ::
  "DecoderLimits \<Rightarrow> BodyDecoder \<Rightarrow> string \<Rightarrow> DecodePhase \<Rightarrow> string \<Rightarrow>
     (bool, Error) result \<times> BodyDecoder \<times> string \<times> DecodePhase \<times> string"
where
  "body_loop limits bd buf phase body =
     (case bd_peek_body buf phase of
        Some dat \<Rightarrow>
          (case dec_consume_body bd buf phase (length dat) limits of
             (Err e, bd', buf', phase') \<Rightarrow> (Err e, bd', buf', phase', body @ dat)
           | (Panic, bd', buf', phase') \<Rightarrow> (Panic, bd', buf', phase', body @ dat)
           | (Ok p, bd', buf', phase') \<Rightarrow>
               if phase' = PhaseComplete then (Ok True, bd', buf', phase', body @ dat)
               else body_loop limits bd' buf' phase' (body @ dat))
      | None \<Rightarrow>
          (case dec_progress bd buf phase limits of
             (Err e, bd', buf', phase') \<Rightarrow> (Err e, bd', buf', phase', body)
           | (Panic, bd', buf', phase') \<Rightarrow> (Panic, bd', buf', phase', body)
           | (Ok p, bd', buf', phase') \<Rightarrow>
               (case p of
                  Complete _ \<Rightarrow> (Ok True, bd', buf', phase', body)
                | Advanced \<Rightarrow> body_loop limits bd' buf' phase' body
                | NeedData \<Rightarrow> (Ok False, bd', buf', phase', body))))"
  by pat_completeness auto
termination
  by (relation "measure (\<lambda>(_, _, buf, _, _). length buf)")
    (auto simp: dec_progress_def dec_consume_body_def split: if_splits
      intro: progress_decreases [OF sym] consume_peeked_decreases [OF _ sym])

declare body_loop.simps [simp del]

end
