(* ===== verification/Body_Correct.thy ===== *)
theory Body_Correct
  imports Body_Decoder
begin

text \<open>
  Correctness of the body decoder: no operation panics, the size and trailer limits are
  invariants of every operation, the body loop does not depend on how its input is cut, and
  bodies written in the chunked and the fixed-length format are read back exactly.
\<close>

section \<open>No panic\<close>

lemma ext_quoted_loop_not_Panic [simp]: "ext_quoted_loop s \<noteq> Panic"
  by (induction s rule: ext_quoted_loop.induct) (auto split: list.splits)

lemma chunk_ext_value_not_Panic [simp]: "chunk_ext_value s \<noteq> Panic"
  by (simp add: chunk_ext_value_def ext_parse_quoted_string_def Let_def)

lemma validate_chunk_ext_not_Panic [simp]: "validate_chunk_ext s \<noteq> Panic"
proof (induction s rule: validate_chunk_ext.induct)
  case (1 ext)
  then show ?case
    by (subst validate_chunk_ext.simps) (auto simp: Let_def split: list.splits result.splits)
qed

lemma parse_chunk_line_not_Panic [simp]: "parse_chunk_line s \<noteq> Panic"
  by (auto simp: parse_chunk_line_def panic_iff Let_def split: option.splits)

lemma trailer_loop_not_Panic: "trailer_loop limits adv bd buf = (r, bd', buf', ph) \<Longrightarrow> r \<noteq> Panic"
proof (induction limits adv bd buf rule: trailer_loop.induct)
  case (1 limits adv bd buf)
  then show ?case
    by (auto simp: trailer_loop.simps [of limits adv] trailer_step_def Let_def
        split: option.splits if_splits result.splits prod.splits)
qed

lemma process_chunked_size_not_Panic: "process_chunked_size bd buf ph limits = (r, bd', buf', ph') \<Longrightarrow> r \<noteq> Panic"
  by (auto simp: process_chunked_size_def process_trailers_def Let_def panic_iff
      dest!: trailer_loop_not_Panic split: if_splits option.splits result.splits prod.splits)

lemma consume_body_not_Panic: "bd_consume_body bd buf ph len limits = (r, bd', buf', ph') \<Longrightarrow> r \<noteq> Panic"
proof (cases ph)
  case BodyChunkedSize
  then show "bd_consume_body bd buf ph len limits = (r, bd', buf', ph') \<Longrightarrow> r \<noteq> Panic"
    using process_chunked_size_not_Panic [of bd buf ph limits]
    by (auto simp: bd_consume_body_def complete_with_trailers_def split: prod.splits result.splits if_splits)
next
  case ChunkedTrailer
  then show "bd_consume_body bd buf ph len limits = (r, bd', buf', ph') \<Longrightarrow> r \<noteq> Panic"
    using trailer_loop_not_Panic [of limits False bd buf]
    by (auto simp: bd_consume_body_def complete_with_trailers_def process_trailers_def
        split: prod.splits result.splits if_splits)
qed (auto simp: bd_consume_body_def consume_content_length_def consume_chunked_data_def
      consume_close_delimited_def complete_with_trailers_def Let_def split: if_splits option.splits)

section \<open>Limits and trailers\<close>

definition trailer_ok :: "string list \<Rightarrow> header \<Rightarrow> bool" where
  "trailer_ok declared h \<longleftrightarrow> header_ok h \<and> \<not> is_prohibited_trailer_field (fst h)
     \<and> to_ascii_lowercase (fst h) \<in> set declared"

definition trailers_ok :: "DecoderLimits \<Rightarrow> BodyDecoder \<Rightarrow> bool" where
  "trailers_ok l bd \<longleftrightarrow> list_all (trailer_ok (declared_trailers bd)) (trailers bd)
     \<and> length (trailers bd) \<le> trailer_count bd \<and> trailer_count bd \<le> max_headers_count l"

fun pending_body :: "DecodePhase \<Rightarrow> nat" where
  "pending_body (BodyContentLength n) = n"
| "pending_body (BodyChunkedData n) = n"
| "pending_body _ = 0"

text \<open>What has been read and what the current frame announces stays within the body limit.\<close>

definition body_inv :: "DecoderLimits \<Rightarrow> BodyDecoder \<Rightarrow> DecodePhase \<Rightarrow> bool" where
  "body_inv l bd ph \<longleftrightarrow> trailers_ok l bd \<and> body_consumed bd + pending_body ph \<le> max_body_size l"

definition idle_body :: "BodyDecoder \<Rightarrow> bool" where
  "idle_body bd \<longleftrightarrow> trailers bd = [] \<and> body_consumed bd = 0 \<and> trailer_count bd = 0"

lemma idle_body_simps [simp]: "idle_body (bd_reset bd)" "idle_body bd_new" "idle_body (set_declared_trailers bd ds) = idle_body bd"
  by (simp_all add: idle_body_def bd_reset_def bd_new_def set_declared_trailers_def)

lemma idle_body_inv: "idle_body bd \<Longrightarrow> pending_body ph \<le> max_body_size l \<Longrightarrow> body_inv l bd ph"
  by (simp add: idle_body_def body_inv_def trailers_ok_def)

lemma body_inv_init: "body_inv l bd_new StartLine"
  by (simp add: body_inv_def trailers_ok_def bd_new_def)

lemma trailer_loop_inv:
  "trailer_loop l adv bd buf = (r, bd', buf', ph) \<Longrightarrow> trailers_ok l bd \<Longrightarrow>
     trailers_ok l bd' \<and> body_consumed bd' = body_consumed bd \<and> declared_trailers bd' = declared_trailers bd
     \<and> (ph = ChunkedTrailer \<or> ph = PhaseComplete)"
proof (induction l adv bd buf rule: trailer_loop.induct)
  case (1 l adv bd buf)
  show ?case
  proof (cases "trailer_step l (bd, buf)")
    case (Next s)
    obtain bd1 buf1 where s: "s = (bd1, buf1)" by (cases s) auto
    have step: "trailers_ok l bd1" "body_consumed bd1 = body_consumed bd" "declared_trailers bd1 = declared_trailers bd"
      using Next s "1.prems"(2)
      by (auto simp: trailer_step_def trailers_ok_def trailer_ok_def Let_def list_ex_iff
          split: option.splits if_splits result.splits prod.splits intro: parse_header_line_ok)
    have "trailer_loop l True bd1 buf1 = (r, bd', buf', ph)"
      using "1.prems"(1) Next s by (simp add: trailer_loop.simps [of l adv])
    with "1.IH" [OF Next s [symmetric]] step show ?thesis by auto
  next
    case (Done res s)
    obtain rr pp bd1 buf1 where d: "res = (rr, pp)" "s = (bd1, buf1)" by (cases res; cases s) auto
    have "bd1 = bd" "pp = ChunkedTrailer \<or> pp = PhaseComplete"
      using Done d by (auto simp: trailer_step_def Let_def
        split: option.splits if_splits result.splits prod.splits)
    with Done d 1 show ?thesis by (auto simp: trailer_loop.simps [of l adv])
  next
    case Wait
    with 1 show ?thesis by (auto simp: trailer_loop.simps [of l adv])
  qed
qed

lemma process_chunked_size_inv:
  assumes "process_chunked_size bd buf ph l = (r, bd', buf', ph')" "body_inv l bd ph"
  shows "body_inv l bd' ph' \<and> body_consumed bd' = body_consumed bd \<and> declared_trailers bd' = declared_trailers bd"
proof -
  have t: "trailers_ok l bd" using assms(2) by (simp add: body_inv_def)
  show ?thesis
  proof (cases "find_line buf")
    case None
    with assms show ?thesis by (auto simp: process_chunked_size_def split: if_splits)
  next
    case (Some pos)
    show ?thesis
    proof (cases "parse_chunk_line (take pos buf) = Ok 0 \<and> ph = BodyChunkedSize \<and> pos \<le> max_chunk_line_size l")
      case True
      then obtain r1 where "trailer_loop l False bd (drop (pos + 2) buf) = (r1, bd', buf', ph')"
        using assms(1) Some by (auto simp: process_chunked_size_def process_trailers_def split: prod.splits)
      from trailer_loop_inv [OF this t] assms(2) show ?thesis by (auto simp: body_inv_def)
    next
      case False
      with assms Some show ?thesis
        by (auto simp: process_chunked_size_def Let_def body_inv_def checked_add_def
            split: if_splits result.splits)
    qed
  qed
qed

lemma consume_body_inv:
  assumes "bd_consume_body bd buf ph len l = (r, bd', buf', ph')" "body_inv l bd ph"
  shows "body_inv l bd' ph' \<and> declared_trailers bd' = declared_trailers bd
    \<and> (\<forall>ts. r = Ok (Complete ts) \<longrightarrow>
          list_all (trailer_ok (declared_trailers bd)) ts \<and> length ts \<le> max_headers_count l)"
proof -
  have take_ok: "list_all (trailer_ok (declared_trailers b)) (trailers b) \<and> length (trailers b) \<le> max_headers_count l
      \<and> body_inv l (b\<lparr>trailers := []\<rparr>) p" if "body_inv l b p" for b p
    using that by (auto simp: body_inv_def trailers_ok_def)
  show ?thesis
  proof (cases ph)
    case BodyChunkedSize
    obtain r1 bd1 buf1 ph1 where p: "process_chunked_size bd buf ph l = (r1, bd1, buf1, ph1)"
      by (metis prod_cases4)
    note i = process_chunked_size_inv [OF p assms(2)]
    with take_ok [of bd1 ph1] assms(1) p BodyChunkedSize show ?thesis
      by (auto simp: bd_consume_body_def complete_with_trailers_def split: result.splits if_splits)
  next
    case ChunkedTrailer
    obtain r1 bd1 buf1 ph1 where p: "trailer_loop l False bd buf = (r1, bd1, buf1, ph1)"
      by (metis prod_cases4)
    have "body_inv l bd1 ph1" "declared_trailers bd1 = declared_trailers bd"
      using trailer_loop_inv [OF p] assms(2) by (auto simp: body_inv_def)
    with take_ok [of bd1 ph1] assms(1) p ChunkedTrailer show ?thesis
      by (auto simp: bd_consume_body_def complete_with_trailers_def process_trailers_def split: result.splits if_splits)
  next
    case PhaseComplete
    with take_ok [OF assms(2)] assms(1) show ?thesis
      by (auto simp: bd_consume_body_def complete_with_trailers_def)
  qed (use assms in \<open>auto simp: bd_consume_body_def consume_content_length_def consume_chunked_data_def
      consume_close_delimited_def complete_with_trailers_def body_inv_def trailers_ok_def checked_add_def Let_def
      split: if_splits option.splits\<close>)
qed

section \<open>The trailer section, however it is cut\<close>

definition trailer_run :: "DecoderLimits \<Rightarrow> BodyDecoder \<times> string \<Rightarrow>
    ((bool, Error) result \<times> DecodePhase) option \<times> BodyDecoder \<times> string" where
  "trailer_run l s =
     (case trailer_loop l False (fst s) (snd s) of
        (r, bd, buf, ph) \<Rightarrow>
          (if is_ok r \<and> ph = ChunkedTrailer then None else Some (r, ph), bd, buf))"

lemma trailer_step_Done: "trailer_step l s = Done (r, ph) s' \<Longrightarrow> r \<noteq> Ok False \<and> (r = Ok b \<longrightarrow> ph = PhaseComplete)"
  by (auto simp: trailer_step_def Let_def split: option.splits if_splits result.splits prod.splits)

lemma trailer_loop_True: "trailer_loop l True bd buf = (r, bd', buf', ph) \<Longrightarrow> r \<noteq> Ok False"
proof (induction l True bd buf rule: trailer_loop.induct)
  case (1 l bd buf)
  then show ?case
    using trailer_step_Done [of l "(bd, buf)"]
    by (cases "trailer_step l (bd, buf)") (auto simp: trailer_loop.simps [of l True bd])
qed

lemma trailer_loop_True_iff [simp]: "trailer_loop l True bd buf = (Ok False, t) \<longleftrightarrow> False"
  using trailer_loop_True [of l bd buf "Ok False" "fst t" "fst (snd t)" "snd (snd t)"] by auto

lemma trailer_loop_False: "trailer_loop l False bd buf = (Ok False, bd', buf', ph) \<Longrightarrow> ph = ChunkedTrailer"
  using trailer_step_Done [of l "(bd, buf)"]
  by (cases "trailer_step l (bd, buf)") (auto simp: trailer_loop.simps [of l False bd])

lemma trailer_loop_advanced:
  "trailer_loop l adv bd buf =
     (case trailer_loop l False bd buf of (r, bd', buf', ph) \<Rightarrow>
        (if r = Ok False then Ok adv else r, bd', buf', ph))"
  using trailer_step_Done [of l "(bd, buf)"]
  by (cases "trailer_step l (bd, buf)") (auto simp: trailer_loop.simps [of l _ bd] split: prod.splits)

lemma trailer_run_step:
  "trailer_run l s = (case trailer_step l s of Next s' \<Rightarrow> trailer_run l s' | Done r s' \<Rightarrow> (Some r, s') | Wait \<Rightarrow> (None, s))"
proof (cases "trailer_step l s")
  case (Next s')
  obtain bd buf bd' buf' where s: "s = (bd, buf)" "s' = (bd', buf')" by (cases s; cases s') auto
  have "trailer_loop l False bd buf = trailer_loop l True bd' buf'"
    using Next s by (simp add: trailer_loop.simps [of l False bd])
  then show ?thesis
    using Next s trailer_loop_advanced [of l True bd' buf'] trailer_loop_False [of l bd' buf']
    by (auto simp: trailer_run_def split: prod.splits)
next
  case (Done r s')
  then have "fst r = Ok b \<Longrightarrow> snd r = PhaseComplete" for b
    using trailer_step_Done [of l s "fst r" "snd r" s' b] by (cases r) auto
  with Done show ?thesis
    by (cases s; cases r; cases s') (auto simp: trailer_run_def trailer_loop.simps [of l False] is_ok_iff)
next
  case Wait
  then show ?thesis by (cases s) (simp add: trailer_run_def trailer_loop.simps [of l False])
qed

lemma trailer_step_app:
  assumes "trailer_step l (bd, buf) \<noteq> Wait"
  shows "trailer_step l (bd, buf @ d) = map_step (\<lambda>t. (fst t, snd t @ d)) (trailer_step l (bd, buf))"
proof -
  obtain pos where pos: "find_line buf = Some pos"
    using assms by (cases "find_line buf") (auto simp: trailer_step_def)
  have "pos + 2 \<le> length buf" using find_line_SomeD(1) [OF pos] .
  then have *: "take pos (buf @ d) = take pos buf" "drop (pos + 2) (buf @ d) = drop (pos + 2) buf @ d"
      "drop 2 (buf @ d) = drop 2 buf @ d" by simp_all
  show ?thesis
    unfolding trailer_step_def prod.case pos find_line_append [OF pos] option.case *
    by (simp add: Let_def split: result.split prod.split)
qed

interpretation trailer: incremental_loop "trailer_step l" "trailer_run l" "\<lambda>s d. (fst s, snd s @ d)" "\<lambda>s. length (snd s)"
  for l
proof
  fix s :: "BodyDecoder \<times> string" and d
  show "trailer_step l s \<noteq> Wait \<Longrightarrow> trailer_step l (fst s, snd s @ d) = map_step (\<lambda>t. (fst t, snd t @ d)) (trailer_step l s)"
    using trailer_step_app [of l "fst s" "snd s" d] by simp
  show "trailer_run l s = (case trailer_step l s of Next s' \<Rightarrow> trailer_run l s' | Done r s' \<Rightarrow> (Some r, s') | Wait \<Rightarrow> (None, s))"
    by (rule trailer_run_step)
  show "trailer_step l s = Next s' \<Longrightarrow> length (snd s') < length (snd s)" for s'
    using trailer_step_length [of l "fst s" "snd s" "fst s'" "snd s'"] by simp
qed auto

section \<open>The body loop, however its input is cut\<close>

lemma trailer_loop_Ok:
  "trailer_loop l adv bd buf = (Ok b, bd1, buf1, ph1) \<Longrightarrow>
     ph1 = PhaseComplete \<or> ph1 = ChunkedTrailer \<and> trailer_step l (bd1, buf1) = Wait"
proof (induction l adv bd buf rule: trailer_loop.induct)
  case (1 l adv bd buf)
  then show ?case
    using trailer_step_Done [of l "(bd, buf)" "Ok b"]
    by (cases "trailer_step l (bd, buf)") (auto simp: trailer_loop.simps [of l adv bd])
qed

lemma body_loop_trailer:
  "body_loop l bd buf ChunkedTrailer body =
     (case trailer_run l (bd, buf) of
        (None, bd', buf') \<Rightarrow> (Ok False, bd', buf', ChunkedTrailer, body)
      | (Some (Ok b, ph), bd', buf') \<Rightarrow> (Ok True, bd'\<lparr>trailers := []\<rparr>, buf', PhaseComplete, body)
      | (Some (Err e, ph), bd', buf') \<Rightarrow> (Err e, bd', buf', ph, body)
      | (Some (Panic, ph), bd', buf') \<Rightarrow> (Panic, bd', buf', ph, body))"
proof -
  obtain r bd1 buf1 ph1 where t: "trailer_loop l False bd buf = (r, bd1, buf1, ph1)" by (metis prod_cases4)
  note simps = body_loop.simps [of l _ _ ChunkedTrailer] bd_peek_body_def dec_progress_def bd_consume_body_def
    process_trailers_def complete_with_trailers_def trailer_run_def
  show ?thesis
  proof (cases r)
    case (Ok b)
    with trailer_loop_Ok [of l False bd buf b bd1 buf1 ph1] t
    consider "ph1 = PhaseComplete" | "ph1 = ChunkedTrailer" "trailer_step l (bd1, buf1) = Wait" by auto
    then show ?thesis
    proof cases
      case 1
      then show ?thesis using t Ok by (simp add: simps)
    next
      case 2
      then have "trailer_loop l False bd1 buf1 = (Ok False, bd1, buf1, ChunkedTrailer)"
        by (simp add: trailer_loop.simps)
      with 2 t Ok show ?thesis by (cases b) (simp_all add: simps)
    qed
  qed (use t in \<open>simp_all add: simps\<close>)
qed

text \<open>The property of the loop: what running on more bytes gives, in terms of running on fewer.\<close>

definition body_cont :: "DecoderLimits \<Rightarrow> string \<Rightarrow>
    (bool, Error) result \<times> BodyDecoder \<times> string \<times> DecodePhase \<times> string \<Rightarrow>
    (bool, Error) result \<times> BodyDecoder \<times> string \<times> DecodePhase \<times> string" where
  "body_cont l d t = (case t of (r, bd, buf, ph, body) \<Rightarrow>
     if r = Ok False then body_loop l bd (buf @ d) ph body else (r, bd, buf @ d, ph, body))"

lemma body_trailer_app:
  "body_loop l bd (buf @ d) ChunkedTrailer body = body_cont l d (body_loop l bd buf ChunkedTrailer body)"
proof -
  obtain o' s' where r: "trailer_run l (bd, buf) = (o', s')" by (cases "trailer_run l (bd, buf)") auto
  show ?thesis
  proof (cases o')
    case None
    with trailer.run_resume [of l "(bd, buf)" s' d] r show ?thesis
      by (cases s') (simp add: body_loop_trailer body_cont_def)
  next
    case (Some rr)
    with trailer.run_done [of l "(bd, buf)" rr s' d] r show ?thesis
      by (cases s'; cases rr; cases "fst rr") (auto simp: body_loop_trailer body_cont_def)
  qed
qed

lemma body_loop_size_zero:
  assumes "find_line buf = Some pos" "pos \<le> max_chunk_line_size l" "parse_chunk_line (take pos buf) = Ok 0"
  shows "body_loop l bd buf BodyChunkedSize body = body_loop l bd (drop (pos + 2) buf) ChunkedTrailer body"
proof -
  obtain r bd1 buf1 ph1 where t: "trailer_loop l False bd (drop (pos + 2) buf) = (r, bd1, buf1, ph1)" by (metis prod_cases4)
  note simps = body_loop.simps [of l _ _ BodyChunkedSize] bd_peek_body_def dec_progress_def bd_consume_body_def
    process_chunked_size_def process_trailers_def complete_with_trailers_def trailer_run_def body_loop_trailer
  show ?thesis
  proof (cases r)
    case (Ok b)
    with trailer_loop_Ok t consider "ph1 = PhaseComplete" | "ph1 = ChunkedTrailer" "trailer_step l (bd1, buf1) = Wait"
      by blast
    then show ?thesis
    proof cases
      case 1
      then show ?thesis using t Ok assms by (simp add: simps)
    next
      case 2
      then have "trailer_loop l False bd1 buf1 = (Ok False, bd1, buf1, ChunkedTrailer)"
        by (simp add: trailer_loop.simps)
      with 2 t Ok assms show ?thesis by (simp add: simps)
    qed
  qed (use t assms in \<open>simp_all add: simps\<close>)
qed

lemma body_loop_empty:
  "0 < n \<Longrightarrow> body_consumed bd \<le> usize_max \<Longrightarrow>
     body_loop l bd [] (BodyContentLength n) body = (Ok False, bd, [], BodyContentLength n, body)"
  "body_loop l bd [] (BodyChunkedData n) body = (Ok False, bd, [], BodyChunkedData n, body)"
  by (simp_all add: body_loop.simps bd_peek_body_def dec_progress_def bd_consume_body_def
      consume_content_length_def consume_chunked_data_def checked_add_def)

lemma body_loop_crlf_wait:
  "length buf < 2 \<Longrightarrow> body_loop l bd buf BodyChunkedDataCrlf body = (Ok False, bd, buf, BodyChunkedDataCrlf, body)"
  by (simp add: body_loop.simps bd_peek_body_def dec_progress_def bd_consume_body_def)

lemma body_loop_crlf:
  "2 \<le> length buf \<Longrightarrow> body_loop l bd buf BodyChunkedDataCrlf body =
     (if take 2 buf \<noteq> CRLF then (Err expected_crlf, bd, buf, BodyChunkedDataCrlf, body)
      else body_loop l bd (drop 2 buf) BodyChunkedSize body)"
  by (simp add: body_loop.simps [of l bd buf] bd_peek_body_def dec_progress_def bd_consume_body_def)

text \<open>Reading a part of a frame: all of the buffer, or all of the frame.\<close>

lemma body_loop_content_length:
  assumes "0 < n" "body_consumed bd + n \<le> usize_max"
  shows "n \<le> length buf \<Longrightarrow> body_loop l bd buf (BodyContentLength n) body =
      (Ok True, bd\<lparr>body_consumed := body_consumed bd + n\<rparr>, drop n buf, PhaseComplete, body @ take n buf)"
    and "length buf < n \<Longrightarrow> body_loop l bd buf (BodyContentLength n) body =
      (Ok False, bd\<lparr>body_consumed := body_consumed bd + length buf\<rparr>, [], BodyContentLength (n - length buf), body @ buf)"
proof -
  show "n \<le> length buf \<Longrightarrow> body_loop l bd buf (BodyContentLength n) body =
      (Ok True, bd\<lparr>body_consumed := body_consumed bd + n\<rparr>, drop n buf, PhaseComplete, body @ take n buf)"
    using assms by (auto simp: body_loop.simps [of l bd buf] bd_peek_body_def dec_consume_body_def bd_consume_body_def
        consume_content_length_def checked_add_def Let_def min_def)
  assume short: "length buf < n"
  show "body_loop l bd buf (BodyContentLength n) body =
      (Ok False, bd\<lparr>body_consumed := body_consumed bd + length buf\<rparr>, [], BodyContentLength (n - length buf), body @ buf)"
  proof (cases "buf = []")
    case True
    with assms show ?thesis by (simp add: body_loop_empty)
  next
    case False
    with assms short body_loop_empty(1) [of "n - length buf" "bd\<lparr>body_consumed := body_consumed bd + length buf\<rparr>" l "body @ buf"]
    show ?thesis
      by (simp add: body_loop.simps [of l bd buf] bd_peek_body_def dec_consume_body_def bd_consume_body_def
          consume_content_length_def checked_add_def Let_def)
  qed
qed

lemma body_loop_chunk_data:
  assumes "0 < n" "body_consumed bd + n \<le> usize_max"
  shows "n \<le> length buf \<Longrightarrow> body_loop l bd buf (BodyChunkedData n) body =
      body_loop l (bd\<lparr>body_consumed := body_consumed bd + n\<rparr>) (drop n buf) BodyChunkedDataCrlf (body @ take n buf)"
    and "length buf < n \<Longrightarrow> body_loop l bd buf (BodyChunkedData n) body =
      (Ok False, bd\<lparr>body_consumed := body_consumed bd + length buf\<rparr>, [], BodyChunkedData (n - length buf), body @ buf)"
proof -
  show "body_loop l bd buf (BodyChunkedData n) body =
      body_loop l (bd\<lparr>body_consumed := body_consumed bd + n\<rparr>) (drop n buf) BodyChunkedDataCrlf (body @ take n buf)"
    if "n \<le> length buf"
  proof (cases "length (drop n buf) < 2")
    case True
    with that assms show ?thesis
      by (auto simp: body_loop.simps [of l bd buf] bd_peek_body_def dec_consume_body_def bd_consume_body_def
        consume_chunked_data_def checked_add_def Let_def min_def)
  next
    case False
    then have "body_loop l (bd\<lparr>body_consumed := body_consumed bd + n\<rparr>) (drop n buf) BodyChunkedDataCrlf (body @ take n buf) =
       (if take 2 (drop n buf) \<noteq> CRLF
        then (Err expected_crlf, bd\<lparr>body_consumed := body_consumed bd + n\<rparr>, drop n buf, BodyChunkedDataCrlf, body @ take n buf)
        else body_loop l (bd\<lparr>body_consumed := body_consumed bd + n\<rparr>) (drop 2 (drop n buf)) BodyChunkedSize (body @ take n buf))"
      by (intro body_loop_crlf) simp
    then show ?thesis using False that assms
      by (auto simp: body_loop.simps [of l bd buf] bd_peek_body_def dec_consume_body_def bd_consume_body_def
        consume_chunked_data_def checked_add_def Let_def min_def)
  qed
  assume short: "length buf < n"
  show "body_loop l bd buf (BodyChunkedData n) body =
      (Ok False, bd\<lparr>body_consumed := body_consumed bd + length buf\<rparr>, [], BodyChunkedData (n - length buf), body @ buf)"
  proof (cases "buf = []")
    case True
    then show ?thesis by (simp add: body_loop_empty)
  next
    case False
    with assms short body_loop_empty(2) [of l "bd\<lparr>body_consumed := body_consumed bd + length buf\<rparr>" "n - length buf" "body @ buf"]
    show ?thesis
      by (simp add: body_loop.simps [of l bd buf] bd_peek_body_def dec_consume_body_def bd_consume_body_def
          consume_chunked_data_def checked_add_def Let_def min_def)
  qed
qed

lemma body_loop_size_wait:
  "find_line buf = None \<Longrightarrow> body_loop l bd buf BodyChunkedSize body = (Ok False, bd, buf, BodyChunkedSize, body)"
  by (simp add: body_loop.simps [of l bd buf] bd_peek_body_def dec_progress_def bd_consume_body_def process_chunked_size_def)

text \<open>What a chunk-size line of the buffer leads to; \<open>None\<close> is a zero-size chunk.\<close>

definition size_error :: "DecoderLimits \<Rightarrow> BodyDecoder \<Rightarrow> nat \<Rightarrow> string \<Rightarrow> string \<Rightarrow> (Error \<times> string) option" where
  "size_error l bd pos line rest =
     (if pos > max_chunk_line_size l then Some (ChunkLineTooLong pos (max_chunk_line_size l), line @ CRLF @ rest)
      else case parse_chunk_line line of
             Err e \<Rightarrow> Some (e, line @ CRLF @ rest)
           | Panic \<Rightarrow> None
           | Ok n \<Rightarrow>
               if n = 0 then None
               else case checked_add (body_consumed bd) n of
                      None \<Rightarrow> Some (BodyTooLarge usize_max (max_body_size l), rest)
                    | Some k \<Rightarrow> if k > max_body_size l then Some (BodyTooLarge k (max_body_size l), rest) else None)"

lemma body_loop_size:
  assumes "find_line buf = Some pos"
  shows "body_loop l bd buf BodyChunkedSize body =
    (case size_error l bd pos (take pos buf) (drop (pos + 2) buf) of
       Some (e, buf') \<Rightarrow> (Err e, bd, buf', BodyChunkedSize, body)
     | None \<Rightarrow>
         (case parse_chunk_line (take pos buf) of
            Ok n \<Rightarrow> body_loop l bd (drop (pos + 2) buf) (if n = 0 then ChunkedTrailer else BodyChunkedData n) body
          | _ \<Rightarrow> (Panic, bd, buf, BodyChunkedSize, body)))"
proof (cases "pos \<le> max_chunk_line_size l \<and> parse_chunk_line (take pos buf) = Ok 0")
  case True
  then show ?thesis using body_loop_size_zero [OF assms] by (simp add: size_error_def)
next
  case False
  moreover have "take pos buf @ CRLF @ drop (pos + 2) buf = buf" using find_line_SomeD(2) [OF assms] by simp
  ultimately show ?thesis
    using assms by (auto simp: body_loop.simps [of l bd buf] bd_peek_body_def dec_progress_def bd_consume_body_def
        process_chunked_size_def size_error_def Let_def split: result.splits option.splits if_splits)
qed

lemma size_error_app:
  "size_error l bd pos line (rest @ d) = map_option (\<lambda>(e, b). (e, b @ d)) (size_error l bd pos line rest)"
  by (simp add: size_error_def split: result.splits option.splits)

lemma size_error_None:
  assumes "size_error l bd pos line rest = None" "parse_chunk_line line = Ok n" "n \<noteq> 0"
  shows "body_consumed bd + n \<le> usize_max" and "body_consumed bd + n \<le> max_body_size l"
  using assms by (auto simp: size_error_def checked_add_def split: if_splits option.splits)

lemma body_cont_err [simp]: "body_cont l d (Err e, bd, buf, ph, body) = (Err e, bd, buf @ d, ph, body)"
  by (simp add: body_cont_def)

lemma body_cont_wait [simp]: "body_cont l d (Ok False, bd, buf, ph, body) = body_loop l bd (buf @ d) ph body"
  by (simp add: body_cont_def)

lemma body_cont_done [simp]: "body_cont l d (Ok True, bd, buf, ph, body) = (Ok True, bd, buf @ d, ph, body)"
  by (simp add: body_cont_def)

lemma body_cont_panic [simp]: "body_cont l d (Panic, bd, buf, ph, body) = (Panic, bd, buf @ d, ph, body)"
  by (simp add: body_cont_def)

definition loop_phase :: "DecodePhase \<Rightarrow> bool" where
  "loop_phase ph \<longleftrightarrow> (case ph of BodyContentLength n \<Rightarrow> 0 < n | BodyChunkedSize \<Rightarrow> True | BodyChunkedData n \<Rightarrow> 0 < n
     | BodyChunkedDataCrlf \<Rightarrow> True | ChunkedTrailer \<Rightarrow> True | PhaseComplete \<Rightarrow> True | _ \<Rightarrow> False)"

lemma body_loop_crlf_app:
  assumes IH: "\<And>b bd body. length b < length buf \<Longrightarrow>
      body_loop l bd (b @ d) BodyChunkedSize body = body_cont l d (body_loop l bd b BodyChunkedSize body)"
  shows "body_loop l bd (buf @ d) BodyChunkedDataCrlf body = body_cont l d (body_loop l bd buf BodyChunkedDataCrlf body)"
proof (cases "length buf < 2")
  case True
  then show ?thesis by (simp add: body_loop_crlf_wait)
next
  case False
  then have *: "take 2 (buf @ d) = take 2 buf" "drop 2 (buf @ d) = drop 2 buf @ d" by simp_all
  have "body_loop l bd (drop 2 buf @ d) BodyChunkedSize body = body_cont l d (body_loop l bd (drop 2 buf) BodyChunkedSize body)"
    by (rule IH) (use False in simp)
  with False show ?thesis by (simp add: body_loop_crlf * del: take_append drop_append)
qed

lemma body_loop_content_length_app:
  assumes "0 < n" "body_consumed bd + n \<le> usize_max"
  shows "body_loop l bd (buf @ d) (BodyContentLength n) body = body_cont l d (body_loop l bd buf (BodyContentLength n) body)"
proof (cases "n \<le> length buf")
  case True
  then show ?thesis
    using body_loop_content_length(1) [OF assms, of buf] body_loop_content_length(1) [OF assms, of "buf @ d"] by simp
next
  case False
  let ?bd = "bd\<lparr>body_consumed := body_consumed bd + length buf\<rparr>"
  have short: "body_loop l bd buf (BodyContentLength n) body = (Ok False, ?bd, [], BodyContentLength (n - length buf), body @ buf)"
    using False by (intro body_loop_content_length(2) [OF assms]) simp
  have n': "0 < n - length buf" "body_consumed ?bd + (n - length buf) \<le> usize_max" using False assms by auto
  show ?thesis
  proof (cases "n \<le> length (buf @ d)")
    case True
    with False show ?thesis
      using body_loop_content_length(1) [OF n', of d l "body @ buf"] body_loop_content_length(1) [OF assms, of "buf @ d" l body]
      by (simp add: short)
  next
    case no: False
    with False show ?thesis
      using body_loop_content_length(2) [OF n', of d l "body @ buf"] body_loop_content_length(2) [OF assms, of "buf @ d" l body]
      by (simp add: short add.assoc)
  qed
qed

lemma body_loop_chunk_data_app:
  assumes "0 < n" "body_consumed bd + n \<le> usize_max"
    and IH: "\<And>b bd body. length b < length buf \<Longrightarrow>
      body_loop l bd (b @ d) BodyChunkedSize body = body_cont l d (body_loop l bd b BodyChunkedSize body)"
  shows "body_loop l bd (buf @ d) (BodyChunkedData n) body = body_cont l d (body_loop l bd buf (BodyChunkedData n) body)"
proof (cases "n \<le> length buf")
  case True
  let ?bd = "bd\<lparr>body_consumed := body_consumed bd + n\<rparr>"
  have "body_loop l ?bd (drop n buf @ d) BodyChunkedDataCrlf (body @ take n buf) =
      body_cont l d (body_loop l ?bd (drop n buf) BodyChunkedDataCrlf (body @ take n buf))"
    using True by (intro body_loop_crlf_app IH) auto
  with True show ?thesis
    using body_loop_chunk_data(1) [OF assms(1,2), of buf] body_loop_chunk_data(1) [OF assms(1,2), of "buf @ d"] by simp
next
  case False
  let ?bd = "bd\<lparr>body_consumed := body_consumed bd + length buf\<rparr>"
  have short: "body_loop l bd buf (BodyChunkedData n) body = (Ok False, ?bd, [], BodyChunkedData (n - length buf), body @ buf)"
    using False by (intro body_loop_chunk_data(2) [OF assms(1,2)]) simp
  have n': "0 < n - length buf" "body_consumed ?bd + (n - length buf) \<le> usize_max" using False assms by auto
  show ?thesis
  proof (cases "n \<le> length (buf @ d)")
    case True
    with False show ?thesis
      using body_loop_chunk_data(1) [OF n', of d l "body @ buf"] body_loop_chunk_data(1) [OF assms(1,2), of "buf @ d" l body]
      by (simp add: short)
  next
    case no: False
    with False show ?thesis
      using body_loop_chunk_data(2) [OF n', of d l "body @ buf"] body_loop_chunk_data(2) [OF assms(1,2), of "buf @ d" l body]
      by (simp add: short add.assoc)
  qed
qed

lemma body_loop_size_app:
  "body_loop l bd (buf @ d) BodyChunkedSize body = body_cont l d (body_loop l bd buf BodyChunkedSize body)"
proof (induction buf arbitrary: bd body rule: length_induct)
  case (1 buf)
  show ?case
  proof (cases "find_line buf")
    case None
    then show ?thesis by (simp add: body_loop_size_wait)
  next
    case (Some pos)
    have pos: "pos + 2 \<le> length buf" using find_line_SomeD(1) [OF Some] .
    then have *: "take pos (buf @ d) = take pos buf" "drop (pos + 2) (buf @ d) = drop (pos + 2) buf @ d" by simp_all
    let ?rest = "drop (pos + 2) buf" and ?line = "take pos buf"
    show ?thesis
    proof (cases "size_error l bd pos ?line ?rest")
      case err: (Some eb)
      then show ?thesis
        unfolding body_loop_size [OF Some] body_loop_size [OF find_line_append [OF Some]] * size_error_app
        by (cases eb) simp
    next
      case ok: None
      have data: "body_loop l bd (?rest @ d) (BodyChunkedData n) body =
          body_cont l d (body_loop l bd ?rest (BodyChunkedData n) body)" if "parse_chunk_line ?line = Ok n" "n \<noteq> 0" for n
        using that size_error_None [OF ok] 1 pos by (intro body_loop_chunk_data_app) auto
      show ?thesis
        unfolding body_loop_size [OF Some] body_loop_size [OF find_line_append [OF Some]] * size_error_app ok
        using data body_trailer_app by (auto split: result.splits)
    qed
  qed
qed

theorem body_loop_app:
  assumes "loop_phase ph" "body_consumed bd + pending_body ph \<le> usize_max"
  shows "body_loop l bd (buf @ d) ph body = body_cont l d (body_loop l bd buf ph body)"
  using assms
  by (cases ph)
    (auto simp: loop_phase_def body_loop_content_length_app body_loop_size_app body_trailer_app
      intro!: body_loop_chunk_data_app body_loop_crlf_app,
     simp add: body_loop.simps bd_peek_body_def dec_progress_def bd_consume_body_def complete_with_trailers_def)

section \<open>What the body loop keeps\<close>

lemma process_trailers_phase: "trailer_loop l adv bd buf = (r, bd', buf', ph) \<Longrightarrow> ph = ChunkedTrailer \<or> ph = PhaseComplete"
proof (induction l adv bd buf rule: trailer_loop.induct)
  case (1 l adv bd buf)
  have "trailer_step l (bd, buf) = Done (r, ph) s \<Longrightarrow> ph = ChunkedTrailer \<or> ph = PhaseComplete" for s
    by (auto simp: trailer_step_def Let_def split: option.splits if_splits result.splits prod.splits)
  with 1 show ?case
    by (cases "trailer_step l (bd, buf)") (auto simp: trailer_loop.simps [of l adv bd])
qed

lemma consume_loop_phase:
  assumes "bd_consume_body bd buf ph len l = (r, bd', buf', ph')" "loop_phase ph"
    "body_consumed bd + pending_body ph \<le> usize_max"
  shows "loop_phase ph'"
proof (cases ph)
  case BodyChunkedSize
  with assms(1) show ?thesis
    by (auto simp: bd_consume_body_def process_chunked_size_def process_trailers_def complete_with_trailers_def
        loop_phase_def Let_def dest!: process_trailers_phase split: if_splits option.splits prod.splits result.splits)
next
  case ChunkedTrailer
  with assms(1) show ?thesis
    by (auto simp: bd_consume_body_def process_trailers_def complete_with_trailers_def loop_phase_def
        dest!: process_trailers_phase split: if_splits prod.splits result.splits)
qed (use assms in \<open>auto simp: bd_consume_body_def consume_content_length_def consume_chunked_data_def
      complete_with_trailers_def loop_phase_def checked_add_def Let_def split: if_splits\<close>)

text \<open>The counter moves by exactly the bytes that leave the buffer as body data.\<close>

lemma consume_counts:
  assumes "bd_consume_body bd buf ph len l = (Ok p, bd', buf', ph')" "bd_peek_body buf ph = Some dat" "len = length dat"
  shows "body_consumed bd' = body_consumed bd + len"
  using assms
  by (auto simp: bd_consume_body_def bd_peek_body_def consume_content_length_def consume_chunked_data_def
      consume_close_delimited_def checked_add_def Let_def split: DecodePhase.splits if_splits option.splits)

lemma progress_counts:
  assumes "bd_consume_body bd buf ph 0 l = (Ok p, bd', buf', ph')" "body_inv l bd ph"
  shows "body_consumed bd' = body_consumed bd"
proof (cases ph)
  case BodyChunkedSize
  obtain r1 bd1 buf1 ph1 where ps: "process_chunked_size bd buf ph l = (r1, bd1, buf1, ph1)" by (metis prod_cases4)
  with process_chunked_size_inv [OF ps assms(2)] assms(1) BodyChunkedSize show ?thesis
    by (auto simp: bd_consume_body_def complete_with_trailers_def split: result.splits if_splits)
next
  case ChunkedTrailer
  obtain r1 bd1 buf1 ph1 where ps: "trailer_loop l False bd buf = (r1, bd1, buf1, ph1)" by (metis prod_cases4)
  with trailer_loop_inv [OF ps] assms ChunkedTrailer show ?thesis
    by (auto simp: bd_consume_body_def complete_with_trailers_def process_trailers_def body_inv_def
        split: result.splits if_splits)
qed (use assms(1) in \<open>auto simp: bd_consume_body_def consume_content_length_def consume_chunked_data_def
      consume_close_delimited_def checked_add_def complete_with_trailers_def Let_def split: if_splits option.splits\<close>)

lemma consume_header_phase:
  assumes "bd_consume_body bd buf ph len l = (r, bd', buf', ph')" "ph' = StartLine \<or> ph' = Headers"
  shows "ph' = ph \<and> bd' = bd \<and> \<not> is_ok r"
proof (cases ph)
  case BodyChunkedSize
  with assms show ?thesis
    by (auto simp: bd_consume_body_def process_chunked_size_def process_trailers_def complete_with_trailers_def
        Let_def dest!: process_trailers_phase split: if_splits option.splits prod.splits result.splits)
next
  case ChunkedTrailer
  with assms show ?thesis
    by (auto simp: bd_consume_body_def process_trailers_def complete_with_trailers_def
        dest!: process_trailers_phase split: if_splits prod.splits result.splits)
qed (use assms in \<open>auto simp: bd_consume_body_def consume_content_length_def consume_chunked_data_def
      consume_close_delimited_def complete_with_trailers_def Let_def split: if_splits option.splits\<close>)

text \<open>What the loop keeps, from any phase.\<close>

definition loop_keeps :: "DecoderLimits \<Rightarrow> BodyDecoder \<Rightarrow> DecodePhase \<Rightarrow> nat \<Rightarrow>
    (bool, Error) result \<Rightarrow> BodyDecoder \<Rightarrow> DecodePhase \<Rightarrow> nat \<Rightarrow> bool" where
  "loop_keeps l bd ph len r bd' ph' len' \<longleftrightarrow>
     r \<noteq> Panic \<and> body_inv l bd' ph' \<and> (loop_phase ph \<longrightarrow> loop_phase ph') \<and> declared_trailers bd' = declared_trailers bd
     \<and> (is_ok r \<longrightarrow> len' + body_consumed bd = len + body_consumed bd')
     \<and> (ph' = StartLine \<or> ph' = Headers \<longrightarrow> ph' = ph \<and> bd' = bd \<and> \<not> is_ok r)"

lemma body_loop_keeps:
  "body_loop l bd buf ph body = (r, bd', buf', ph', body') \<Longrightarrow> body_inv l bd ph \<Longrightarrow>
     max_body_size l \<le> usize_max \<Longrightarrow> loop_keeps l bd ph (length body) r bd' ph' (length body')"
proof (induction l bd buf ph body arbitrary: r bd' buf' ph' body' rule: body_loop.induct)
  case (1 l bd buf ph body)
  have le: "body_consumed bd + pending_body ph \<le> usize_max" using "1.prems"(2,3) by (simp add: body_inv_def)
  show ?case
  proof (cases "bd_peek_body buf ph")
    case None
    obtain r1 bd1 buf1 ph1 where c: "bd_consume_body bd buf ph 0 l = (r1, bd1, buf1, ph1)" by (metis prod_cases4)
    note i = consume_body_inv [OF c "1.prems"(2)] consume_loop_phase [OF c _ le] consume_body_not_Panic [OF c]
      consume_header_phase [OF c]
    have d: "dec_progress bd buf ph l = (r1, bd1, buf1, ph1)" using c by (simp add: dec_progress_def)
    have cnt: "is_ok r1 \<Longrightarrow> body_consumed bd1 = body_consumed bd"
      using progress_counts c "1.prems"(2) by (auto simp: is_ok_iff)
    show ?thesis
    proof (cases "r1 = Ok Advanced")
      case True
      have "body_loop l bd1 buf1 ph1 body = (r, bd', buf', ph', body')"
        using "1.prems"(1) None d True by (simp add: body_loop.simps [of l bd buf])
      then have "loop_keeps l bd1 ph1 (length body) r bd' ph' (length body')"
        using "1.IH"(1) [OF None d [symmetric] True refl refl refl] i "1.prems"(3) by simp
      with i cnt True show ?thesis by (auto simp: loop_keeps_def)
    next
      case False
      with "1.prems"(1) None d i cnt show ?thesis
        by (auto simp: loop_keeps_def body_loop.simps [of l bd buf] split: result.splits BodyProgress.splits)
    qed
  next
    case (Some dat)
    have nz: "length dat \<noteq> 0"
      using Some by (auto simp: bd_peek_body_def Let_def min_def split: DecodePhase.splits if_splits)
    obtain r1 bd1 buf1 ph1 where c: "bd_consume_body bd buf ph (length dat) l = (r1, bd1, buf1, ph1)" by (metis prod_cases4)
    note i = consume_body_inv [OF c "1.prems"(2)] consume_loop_phase [OF c _ le] consume_body_not_Panic [OF c]
      consume_header_phase [OF c]
    have cnt: "is_ok r1 \<Longrightarrow> body_consumed bd1 = body_consumed bd + length dat"
      using consume_counts [of bd buf ph "length dat" l _ bd1 buf1 ph1 dat] c Some by (auto simp: is_ok_iff)
    have d: "dec_consume_body bd buf ph (length dat) l = (r1, bd1, buf1, ph1)" using c nz by (simp add: dec_consume_body_def)
    show ?thesis
    proof (cases "is_ok r1 \<and> ph1 \<noteq> PhaseComplete")
      case True
      then obtain p where p: "r1 = Ok p" by (auto simp: is_ok_iff)
      have "body_loop l bd1 buf1 ph1 (body @ dat) = (r, bd', buf', ph', body')"
        using "1.prems"(1) Some d True p by (simp add: body_loop.simps [of l bd buf])
      then have "loop_keeps l bd1 ph1 (length (body @ dat)) r bd' ph' (length body')"
        using "1.IH"(2) [OF Some d [symmetric] p refl refl] True i "1.prems"(3) by simp
      with i cnt True show ?thesis by (auto simp: loop_keeps_def)
    next
      case False
      with "1.prems"(1) Some d i cnt show ?thesis
        by (cases r1) (auto simp: loop_keeps_def body_loop.simps [of l bd buf])
    qed
  qed
qed

lemma body_loop_inv:
  "body_loop l bd buf ph body = (r, bd', buf', ph', body') \<Longrightarrow> body_inv l bd ph \<Longrightarrow> loop_phase ph \<Longrightarrow>
     max_body_size l \<le> usize_max \<Longrightarrow> r \<noteq> Panic \<and> body_inv l bd' ph' \<and> loop_phase ph' \<and> declared_trailers bd' = declared_trailers bd
     \<and> (is_ok r \<longrightarrow> length body' + body_consumed bd = length body + body_consumed bd')"
  using body_loop_keeps [of l bd buf ph body r bd' buf' ph' body'] by (auto simp: loop_keeps_def)

lemma body_loop_length: "body_loop l bd buf ph body = (r, bd', buf', ph', body') \<Longrightarrow> length buf' \<le> length buf"
proof (induction l bd buf ph body arbitrary: r bd' buf' ph' body' rule: body_loop.induct)
  case (1 l bd buf ph body)
  show ?case
  proof (cases "bd_peek_body buf ph")
    case None
    obtain r1 bd1 buf1 ph1 where d: "dec_progress bd buf ph l = (r1, bd1, buf1, ph1)" by (metis prod_cases4)
    then have le: "length buf1 \<le> length buf" by (auto simp: dec_progress_def dest: consume_length)
    show ?thesis
    proof (cases "r1 = Ok Advanced")
      case True
      then have "body_loop l bd1 buf1 ph1 body = (r, bd', buf', ph', body')"
        using "1.prems" None d by (simp add: body_loop.simps [of l bd buf])
      from "1.IH"(1) [OF None d [symmetric] True refl refl refl this] le show ?thesis by simp
    next
      case False
      with "1.prems" None d le show ?thesis
        by (auto simp: body_loop.simps [of l bd buf] split: result.splits BodyProgress.splits)
    qed
  next
    case (Some dat)
    obtain r1 bd1 buf1 ph1 where d: "dec_consume_body bd buf ph (length dat) l = (r1, bd1, buf1, ph1)" by (metis prod_cases4)
    then have le: "length buf1 \<le> length buf" by (auto simp: dec_consume_body_def dest: consume_length split: if_splits)
    show ?thesis
    proof (cases "is_ok r1 \<and> ph1 \<noteq> PhaseComplete")
      case True
      then obtain p where p: "r1 = Ok p" by (auto simp: is_ok_iff)
      have "body_loop l bd1 buf1 ph1 (body @ dat) = (r, bd', buf', ph', body')"
        using "1.prems" Some d True p by (simp add: body_loop.simps [of l bd buf])
      with "1.IH"(2) [OF Some d [symmetric] p refl refl] True le show ?thesis by fastforce
    next
      case False
      with "1.prems" Some d le show ?thesis by (cases r1) (auto simp: body_loop.simps [of l bd buf])
    qed
  qed
qed

type_synonym body_state = "BodyDecoder \<times> string \<times> DecodePhase \<times> string"

definition body_run :: "DecoderLimits \<Rightarrow> body_state \<Rightarrow> (bool, Error) result option \<times> body_state" where
  "body_run l s = (case s of (bd, buf, ph, body) \<Rightarrow>
     (case body_loop l bd buf ph body of (r, s') \<Rightarrow> (if r = Ok False then None else Some r, s')))"

definition body_app :: "body_state \<Rightarrow> string \<Rightarrow> body_state" where
  "body_app s d = (case s of (bd, buf, ph, body) \<Rightarrow> (bd, buf @ d, ph, body))"

definition body_ready :: "DecoderLimits \<Rightarrow> body_state \<Rightarrow> bool" where
  "body_ready l s = (case s of (bd, buf, ph, body) \<Rightarrow> body_inv l bd ph \<and> loop_phase ph \<and> max_body_size l \<le> usize_max)"

lemma body_run_app:
  assumes "body_ready l s"
  shows "body_run l (body_app s d) =
    (case body_run l s of (None, s') \<Rightarrow> body_run l (body_app s' d) | (Some r, s') \<Rightarrow> (Some r, body_app s' d))"
proof -
  obtain bd buf ph body where s: "s = (bd, buf, ph, body)" by (metis prod_cases4)
  have "body_loop l bd (buf @ d) ph body = body_cont l d (body_loop l bd buf ph body)"
    using assms by (intro body_loop_app) (auto simp: s body_ready_def body_inv_def)
  then show ?thesis
    by (auto simp: s body_run_def body_app_def body_cont_def split: prod.splits)
qed

interpretation body: resumable "body_run l" body_app "body_ready l" for l
proof
  fix s s' :: body_state and d and r
  assume i: "body_ready l s"
  show "body_run l s = (Some r, s') \<Longrightarrow> body_run l (body_app s d) = (Some r, body_app s' d)"
    "body_run l s = (None, s') \<Longrightarrow> body_run l (body_app s d) = body_run l (body_app s' d)"
    using body_run_app [OF i] by simp_all
  show "body_run l s = (None, s') \<Longrightarrow> body_ready l s'"
    using i by (auto simp: body_run_def body_ready_def dest!: body_loop_inv split: prod.splits if_splits)
  show "body_ready l (body_app s d)" using i by (auto simp: body_app_def body_ready_def split: prod.splits)
qed (auto simp: body_app_def split: prod.splits)

section \<open>Chunked bodies are read back\<close>

definition chunk_frame :: "string \<Rightarrow> string" where
  "chunk_frame dat = to_base 16 (length dat) @ CRLF @ dat @ CRLF"

lemma hex_digit_char: "d < 16 \<Longrightarrow> is_ascii_hexdigit (digit_char d)"
  by (auto simp: class_defs of_char_digit_char)

lemma to_base_hex: "list_all is_ascii_hexdigit (to_base 16 n)"
  using set_to_base [of 16 _ n] hex_digit_char by (fastforce simp: list_all_iff)

lemma hexdigit_ascii: "is_ascii_hexdigit c \<Longrightarrow> u8 c < 0x80 \<and> c \<noteq> CHR '';'' \<and> c \<noteq> CR"
  by (auto simp: class_defs)

lemma parse_chunk_line_hex:
  assumes "list_all is_ascii_hexdigit s" "s \<noteq> []"
  shows "parse_chunk_line s = ok_or (parse_hex_usize s) (InvalidData (''invalid chunk size: '' @ s))"
proof -
  have "position (\<lambda>b. b = CHR '';'') s = None" "position (\<lambda>b. \<not> is_ascii_hexdigit b) s = None"
    using assms(1) hexdigit_ascii by (auto simp: position_None_iff list_all_iff)
  moreover have "from_utf8 s = Ok s"
    using assms(1) hexdigit_ascii valid_utf8_ascii by (auto simp: from_utf8_Ok_iff list_all_iff)
  ultimately show ?thesis
    using assms(2) by (simp add: parse_chunk_line_def and_then_def ok_or_def split: option.split)
qed

lemma parse_chunk_line_to_base: "n \<le> usize_max \<Longrightarrow> parse_chunk_line (to_base 16 n) = Ok n"
  using to_base_hex [of n] by (simp add: parse_chunk_line_hex from_str_radix_to_base)

lemma body_loop_chunk:
  assumes "dat \<noteq> []" "length (to_base 16 (length dat)) \<le> max_chunk_line_size l"
    "body_consumed bd + length dat \<le> max_body_size l" "max_body_size l \<le> usize_max"
  shows "body_loop l bd (chunk_frame dat @ rest) BodyChunkedSize body =
    body_loop l (bd\<lparr>body_consumed := body_consumed bd + length dat\<rparr>) rest BodyChunkedSize (body @ dat)"
proof -
  let ?h = "to_base 16 (length dat)" and ?tail = "dat @ CRLF @ rest"
  have buf: "chunk_frame dat @ rest = ?h @ CRLF @ ?tail" by (simp add: chunk_frame_def)
  have "CR \<notin> set ?h" using to_base_hex [of "length dat"] hexdigit_ascii by (auto simp: list_all_iff)
  then have fl: "find_line (?h @ CRLF @ ?tail) = Some (length ?h)" by (rule find_line_no_CR)
  have p: "parse_chunk_line ?h = Ok (length dat)" using assms by (intro parse_chunk_line_to_base) simp
  have sz: "size_error l bd (length ?h) ?h ?tail = None"
    using assms p by (simp add: size_error_def checked_add_def)
  have "body_loop l bd (?h @ CRLF @ ?tail) BodyChunkedSize body = body_loop l bd ?tail (BodyChunkedData (length dat)) body"
    unfolding body_loop_size [OF fl] using assms(1) sz by (simp add: p)
  also have "\<dots> = body_loop l (bd\<lparr>body_consumed := body_consumed bd + length dat\<rparr>) (CRLF @ rest) BodyChunkedDataCrlf (body @ dat)"
    using assms body_loop_chunk_data(1) [of "length dat" bd ?tail l body] by simp
  also have "\<dots> = body_loop l (bd\<lparr>body_consumed := body_consumed bd + length dat\<rparr>) rest BodyChunkedSize (body @ dat)"
    by (simp add: body_loop_crlf)
  finally show ?thesis by (simp add: buf)
qed

lemma body_loop_last_chunk:
  assumes "1 \<le> max_chunk_line_size l"
  shows "body_loop l bd (''0'' @ CRLF @ CRLF @ rest) BodyChunkedSize body =
     (Ok True, bd\<lparr>trailers := []\<rparr>, rest, PhaseComplete, body)"
proof -
  have z: "''0'' = to_base 16 0" by (simp add: to_base.simps digit_char_def char_of_def bit_0)
  have fl: "find_line (''0'' @ CRLF @ CRLF @ rest) = Some 1" using find_line_no_CR [of "''0''" "CRLF @ rest"] by simp
  have p: "parse_chunk_line ''0'' = Ok 0" unfolding z by (rule parse_chunk_line_to_base) simp
  have "body_loop l bd (''0'' @ CRLF @ CRLF @ rest) BodyChunkedSize body = body_loop l bd (CRLF @ rest) ChunkedTrailer body"
    using body_loop_size_zero [OF fl, of l bd body] assms p by simp
  also have "\<dots> = (Ok True, bd\<lparr>trailers := []\<rparr>, rest, PhaseComplete, body)"
    by (simp add: body_loop_trailer trailer_run_def trailer_loop.simps trailer_step_def)
  finally show ?thesis .
qed

lemma body_loop_chunks:
  assumes "\<forall>c \<in> set cs. c \<noteq> [] \<and> length (to_base 16 (length c)) \<le> max_chunk_line_size l"
    "body_consumed bd + length (concat cs) \<le> max_body_size l" "max_body_size l \<le> usize_max" "1 \<le> max_chunk_line_size l"
  shows "body_loop l bd (concat (map chunk_frame cs) @ ''0'' @ CRLF @ CRLF @ rest) BodyChunkedSize body =
    (Ok True, bd\<lparr>body_consumed := body_consumed bd + length (concat cs), trailers := []\<rparr>, rest, PhaseComplete, body @ concat cs)"
  using assms
proof (induction cs arbitrary: bd body)
  case Nil
  then show ?case using body_loop_last_chunk [of l bd rest body] by simp
next
  case (Cons c cs)
  have "body_loop l bd (chunk_frame c @ (concat (map chunk_frame cs) @ ''0'' @ CRLF @ CRLF @ rest)) BodyChunkedSize body =
      body_loop l (bd\<lparr>body_consumed := body_consumed bd + length c\<rparr>)
        (concat (map chunk_frame cs) @ ''0'' @ CRLF @ CRLF @ rest) BodyChunkedSize (body @ c)"
    using Cons.prems by (intro body_loop_chunk) auto
  with Cons.IH [of "bd\<lparr>body_consumed := body_consumed bd + length c\<rparr>" "body @ c"] Cons.prems
  show ?case by (simp add: add.assoc)
qed

end
