(* ===== verification/Request_Decoder.thy ===== *)
theory Request_Decoder
  imports Request_Target Buffer Compression Messages Body_Correct
begin

text \<open>
  \<^verbatim>\<open>src/decoder/request.rs\<close>: \<open>RequestDecoder\<close>. One turn of the loop of \<open>decode_headers\<close>
  is \<open>rd_step\<close>, built from one definition per part of the loop body; the loop, the body
  operations and \<open>decode\<close> follow the source. A method returns its result together with the
  decoder as it is when the method returns. The decompressor is a parameter: a value of type
  \<open>'d\<close> and the trait methods of a \<open>'d Decompressor\<close>.
\<close>

record 'd RequestDecoder =
  rd_buf :: string
  rd_phase :: DecodePhase
  rd_start_line :: "string option"
  rd_headers :: "header list"
  rd_body_decoder :: BodyDecoder
  rd_limits :: DecoderLimits
  rd_decoded_head :: "RequestHead option"
  rd_decoded_body_kind :: "BodyKind option"
  rd_decoded_body :: string
  rd_decompressor :: 'd
  rd_pending :: nat

section \<open>Construction and the receive buffer\<close>

definition rd_with_decompressor_and_limits :: "'d \<Rightarrow> DecoderLimits \<Rightarrow> 'd RequestDecoder" where
  "rd_with_decompressor_and_limits d l =
     \<lparr>rd_buf = [], rd_phase = StartLine, rd_start_line = None, rd_headers = [], rd_body_decoder = bd_new,
      rd_limits = l, rd_decoded_head = None, rd_decoded_body_kind = None, rd_decoded_body = [],
      rd_decompressor = d, rd_pending = 0\<rparr>"

definition rd_with_decompressor :: "'d \<Rightarrow> 'd RequestDecoder" where
  "rd_with_decompressor d = rd_with_decompressor_and_limits d default_limits"

definition rd_with_limits :: "DecoderLimits \<Rightarrow> NoCompression RequestDecoder" where
  "rd_with_limits l = rd_with_decompressor_and_limits nc_new l"

definition rd_new :: "NoCompression RequestDecoder" where
  "rd_new = rd_with_decompressor_and_limits nc_new default_limits"

definition rd_feed :: "'d RequestDecoder \<Rightarrow> string \<Rightarrow> (unit, Error) result \<times> 'd RequestDecoder" where
  "rd_feed st dat =
     (let (r, buf') = feed (rd_buf st) (rd_pending st) (max_buffer_size (rd_limits st)) dat
      in (r, st\<lparr>rd_buf := buf'\<rparr>))"

definition rd_feed_unchecked :: "'d RequestDecoder \<Rightarrow> string \<Rightarrow> 'd RequestDecoder" where
  "rd_feed_unchecked st dat = st\<lparr>rd_buf := feed_unchecked (rd_buf st) (rd_pending st) dat\<rparr>"

definition rd_mut_buf :: "'d RequestDecoder \<Rightarrow> nat \<Rightarrow> (string, Error) result \<times> 'd RequestDecoder" where
  "rd_mut_buf st len =
     (let (r, buf', p) = mut_buf (rd_buf st) (rd_pending st) (max_buffer_size (rd_limits st)) len
      in (r, st\<lparr>rd_buf := buf', rd_pending := p\<rparr>))"

definition rd_advance_buf :: "'d RequestDecoder \<Rightarrow> nat \<Rightarrow> (unit, Error) result \<times> 'd RequestDecoder" where
  "rd_advance_buf st len =
     (let (r, buf', p) = advance_buf (rd_buf st) (rd_pending st) len
      in (r, st\<lparr>rd_buf := buf', rd_pending := p\<rparr>))"

definition rd_available_buf :: "'d RequestDecoder \<Rightarrow> nat" where
  "rd_available_buf st = available_buf (rd_buf st) (max_buffer_size (rd_limits st))"

definition rd_remaining :: "'d RequestDecoder \<Rightarrow> string" where
  "rd_remaining st = remaining (rd_buf st) (rd_pending st)"

definition rd_reset :: "'d Decompressor \<Rightarrow> 'd RequestDecoder \<Rightarrow> 'd RequestDecoder" where
  "rd_reset D st = st\<lparr>rd_buf := [], rd_phase := StartLine, rd_start_line := None, rd_headers := [],
     rd_body_decoder := bd_reset (rd_body_decoder st), rd_decoded_head := None, rd_decoded_body_kind := None,
     rd_decoded_body := [], rd_decompressor := decompressor_reset D (rd_decompressor st), rd_pending := 0\<rparr>"

definition rd_take_remaining :: "'d RequestDecoder \<Rightarrow> string \<times> 'd RequestDecoder" where
  "rd_take_remaining st = (rd_buf st, st\<lparr>rd_pending := 0, rd_buf := []\<rparr>)"

definition rd_is_tunnel :: "'d RequestDecoder \<Rightarrow> bool" where
  "rd_is_tunnel st \<longleftrightarrow> rd_phase st = Tunnel"

section \<open>decode_headers\<close>

definition rq_determine_body_kind :: "header list \<Rightarrow> DecoderLimits \<Rightarrow> string \<Rightarrow> (BodyKind, Error) result" where
  "rq_determine_body_kind hs l version =
     and_then (resolve_body_headers_for_request hs) (\<lambda>(transfer_encoding_chunked, cl).
       if transfer_encoding_chunked then
         (if version \<noteq> ''HTTP/1.1'' then Err (InvalidData ''Transfer-Encoding is only defined for HTTP/1.1'')
          else Ok Chunked)
       else
         case cl of
           Some len \<Rightarrow>
             if len > max_body_size l then Err (BodyTooLarge (min len usize_max) (max_body_size l))
             else Ok (ContentLength len)
         | None \<Rightarrow> Ok BodyNone)"

text \<open>The checks on a request line, from the CR/LF test to the protocol version.\<close>

definition check_request_line :: "string \<Rightarrow> (unit, Error) result" where
  "check_request_line line =
     reject_if (CR \<in> set line \<or> LF \<in> set line) (InvalidData ''invalid request line: contains CR/LF'')
       (case splitn 3 SP line of
          [m, target, version] \<Rightarrow>
            reject_if (\<not> is_valid_method m) (InvalidData ''invalid request line: invalid method'')
             (reject_if (\<not> is_valid_request_target target) (InvalidData ''invalid request line: invalid request-target'')
              (reject_if (list_ex (\<lambda>b. u8 b \<ge> 0x80) target) (InvalidData ''invalid request-target: non-ASCII characters'')
               (and_then (parse_request_target_form target) (\<lambda>form.
                and_then (validate_request_target_for_method m form) (\<lambda>_.
                reject_if (\<not> is_valid_protocol_version version) (InvalidData ''invalid request line: invalid protocol version'')
                  (Ok ()))))))
        | _ \<Rightarrow> Err (InvalidData (''invalid request line: '' @ line)))"

definition rd_start_line_step ::
  "'d RequestDecoder \<Rightarrow> ('d RequestDecoder, (RequestHead \<times> BodyKind, Error) result) step" where
  "rd_start_line_step st =
     (case find_line (rd_buf st) of
        None \<Rightarrow> Wait
      | Some pos \<Rightarrow>
          (case from_utf8 (take pos (rd_buf st)) of
             Err e \<Rightarrow> Done (Err (InvalidData (''invalid UTF-8: '' @ utf8_error_display e))) st
           | Panic \<Rightarrow> Done Panic st
           | Ok line \<Rightarrow>
               let st1 = st\<lparr>rd_buf := drain (pos + 2) (rd_buf st)\<rparr>
               in (case check_request_line line of
                     Ok _ \<Rightarrow> Next (st1\<lparr>rd_start_line := Some line, rd_phase := Headers\<rparr>)
                   | Err e \<Rightarrow> Done (Err e) st1
                   | Panic \<Rightarrow> Done Panic st1)))"

definition check_host_headers :: "header list \<Rightarrow> (unit, Error) result" where
  "check_host_headers hs =
     (let host_headers = filter (\<lambda>h. eq_ignore_ascii_case (fst h) ''Host'') hs
      in case host_headers of
           [] \<Rightarrow> Err (InvalidData ''HTTP/1.1 request missing Host header'')
         | _ # _ # _ \<Rightarrow> Err (InvalidData ''HTTP/1.1 request contains multiple Host headers'')
         | [h] \<Rightarrow>
             if snd h \<noteq> [] \<and> \<not> is_ok (Host_parse (snd h))
             then Err (InvalidData ''HTTP/1.1 request contains invalid Host header value'')
             else Ok ())"

definition rq_body_phase :: "BodyKind \<Rightarrow> DecodePhase" where
  "rq_body_phase bk =
     (case bk of
        ContentLength len \<Rightarrow> if len > 0 then BodyContentLength len else PhaseComplete
      | Chunked \<Rightarrow> BodyChunkedSize
      | CloseDelimited \<Rightarrow> PhaseComplete
      | BodyNone \<Rightarrow> PhaseComplete
      | BodyTunnel \<Rightarrow> Tunnel)"

text \<open>Between the empty line and the transition: the \<open>Host\<close> checks and the body kind.\<close>

definition rq_body_kind :: "header list \<Rightarrow> DecoderLimits \<Rightarrow> string \<Rightarrow> (BodyKind, Error) result" where
  "rq_body_kind hs l line =
     (let version = nth_part 2 line; m = nth_part 0 line
      in and_then (if version = ''HTTP/1.1'' then check_host_headers hs else Ok ())
           (\<lambda>_. if m = ''CONNECT'' then Ok BodyTunnel else rq_determine_body_kind hs l version))"

text \<open>The empty line: checks, body kind, transition and the head.\<close>

definition rd_end_of_headers ::
  "'d RequestDecoder \<Rightarrow> (RequestHead \<times> BodyKind, Error) result \<times> 'd RequestDecoder" where
  "rd_end_of_headers st0 =
     (let st = st0\<lparr>rd_buf := drain 2 (rd_buf st0)\<rparr>
      in case rd_start_line st of
           None \<Rightarrow> (Err (InvalidData ''missing request line''), st)
         | Some line \<Rightarrow>
             (case rq_body_kind (rd_headers st) (rd_limits st) line of
                Err e \<Rightarrow> (Err e, st)
              | Panic \<Rightarrow> (Panic, st)
              | Ok body_kind \<Rightarrow>
                  let st1 = st\<lparr>rd_phase := rq_body_phase body_kind,
                              rd_body_decoder := set_declared_trailers (rd_body_decoder st)
                                                   (collect_declared_trailers (rd_headers st)),
                              rd_start_line := None\<rparr>
                  in (case splitn 3 SP line of
                        [m, uri, version] \<Rightarrow>
                          (Ok (rh_from_validated_parts m uri version (rd_headers st1), body_kind), st1\<lparr>rd_headers := []\<rparr>)
                      | _ \<Rightarrow> (Panic, st1))))"

definition rd_header_line_step ::
  "'d RequestDecoder \<Rightarrow> nat \<Rightarrow> ('d RequestDecoder, (RequestHead \<times> BodyKind, Error) result) step" where
  "rd_header_line_step st pos =
     (if pos > max_header_line_size (rd_limits st)
      then Done (Err (HeaderLineTooLong pos (max_header_line_size (rd_limits st)))) st
      else if length (rd_headers st) \<ge> max_headers_count (rd_limits st)
      then Done (Err (TooManyHeaders (length (rd_headers st) + 1) (max_headers_count (rd_limits st)))) st
      else
        (case from_utf8 (take pos (rd_buf st)) of
           Err e \<Rightarrow> Done (Err (InvalidData (''invalid UTF-8: '' @ utf8_error_display e))) st
         | Panic \<Rightarrow> Done Panic st
         | Ok line \<Rightarrow>
             let st1 = st\<lparr>rd_buf := drain (pos + 2) (rd_buf st)\<rparr>
             in (case parse_header_line line of
                   Ok h \<Rightarrow> Next (st1\<lparr>rd_headers := rd_headers st1 @ [h]\<rparr>)
                 | Err e \<Rightarrow> Done (Err e) st1
                 | Panic \<Rightarrow> Done Panic st1)))"

definition rd_next_message :: "'d Decompressor \<Rightarrow> 'd RequestDecoder \<Rightarrow> 'd RequestDecoder" where
  "rd_next_message D st = st\<lparr>rd_phase := StartLine, rd_start_line := None, rd_headers := [],
     rd_body_decoder := bd_reset (rd_body_decoder st),
     rd_decompressor := decompressor_reset D (rd_decompressor st)\<rparr>"

definition rd_step ::
  "'d Decompressor \<Rightarrow> 'd RequestDecoder \<Rightarrow> ('d RequestDecoder, (RequestHead \<times> BodyKind, Error) result) step" where
  "rd_step D st =
     (case rd_phase st of
        StartLine \<Rightarrow> rd_start_line_step st
      | Headers \<Rightarrow>
          (case find_line (rd_buf st) of
             None \<Rightarrow> Wait
           | Some pos \<Rightarrow>
               if pos = 0 then (case rd_end_of_headers st of (r, st') \<Rightarrow> Done r st')
               else rd_header_line_step st pos)
      | PhaseComplete \<Rightarrow> Next (rd_next_message D st)
      | Tunnel \<Rightarrow> Done (Err (InvalidData ''decode_headers cannot be used in tunnel mode'')) st
      | _ \<Rightarrow> Done (Err (InvalidData ''decode_headers called during body decoding'')) st)"

definition rd_left :: "'d RequestDecoder \<Rightarrow> nat" where
  "rd_left st = length (rd_buf st) + (if rd_phase st = PhaseComplete then 1 else 0)"

lemma rd_step_decreases: "rd_step D st = Next st' \<Longrightarrow> rd_left st' < rd_left st"
  by (auto simp: rd_step_def rd_start_line_step_def rd_header_line_step_def rd_next_message_def rd_left_def Let_def
      dest!: find_line_SomeD(1)
      split: DecodePhase.splits option.splits if_splits result.splits prod.splits)

function rd_decode_headers ::
  "'d Decompressor \<Rightarrow> 'd RequestDecoder \<Rightarrow> ((RequestHead \<times> BodyKind) option, Error) result \<times> 'd RequestDecoder"
where
  "rd_decode_headers D st =
     (case rd_step D st of
        Next st' \<Rightarrow> rd_decode_headers D st'
      | Wait \<Rightarrow> (Ok None, st)
      | Done r st' \<Rightarrow> (and_then r (\<lambda>x. Ok (Some x)), st'))"
  by pat_completeness auto
termination
  by (relation "measure (\<lambda>(_, st). rd_left st)") (auto simp: rd_step_decreases)

declare rd_decode_headers.simps [simp del]

section \<open>The body\<close>

definition rd_peek_body :: "'d RequestDecoder \<Rightarrow> string option" where
  "rd_peek_body st = bd_peek_body (rd_buf st) (rd_phase st)"

text \<open>Returns the status, the decoder and the new contents of the output buffer.\<close>

definition rd_peek_body_decompressed ::
  "'d Decompressor \<Rightarrow> 'd RequestDecoder \<Rightarrow> string \<Rightarrow> (CompressionStatus option, Error) result \<times> 'd RequestDecoder \<times> string"
where
  "rd_peek_body_decompressed D st out =
     (let input = (case bd_peek_body (rd_buf st) (rd_phase st) of Some b \<Rightarrow> b | None \<Rightarrow> [])
      in case decompress D (rd_decompressor st) input out of
           (r, d', out') \<Rightarrow>
             (and_then (map_err Compression r) (\<lambda>status.
                case status of
                  CompContinue c p \<Rightarrow> if c = 0 \<and> p = 0 then Ok None else Ok (Some status)
                | CompComplete c p \<Rightarrow> if c = 0 \<and> p = 0 then Ok None else Ok (Some status)
                | CompOutputFull c p \<Rightarrow> Ok (Some status)),
              st\<lparr>rd_decompressor := d'\<rparr>, out'))"

definition rd_put_body ::
  "'d RequestDecoder \<Rightarrow> (BodyProgress, Error) result \<times> BodyDecoder \<times> string \<times> DecodePhase \<Rightarrow>
     (BodyProgress, Error) result \<times> 'd RequestDecoder" where
  "rd_put_body st t =
     (case t of (r, bd, buf, ph) \<Rightarrow> (r, st\<lparr>rd_body_decoder := bd, rd_buf := buf, rd_phase := ph\<rparr>))"

definition rd_consume_body :: "'d RequestDecoder \<Rightarrow> nat \<Rightarrow> (BodyProgress, Error) result \<times> 'd RequestDecoder" where
  "rd_consume_body st len =
     rd_put_body st (dec_consume_body (rd_body_decoder st) (rd_buf st) (rd_phase st) len (rd_limits st))"

definition rd_progress :: "'d RequestDecoder \<Rightarrow> (BodyProgress, Error) result \<times> 'd RequestDecoder" where
  "rd_progress st = rd_put_body st (dec_progress (rd_body_decoder st) (rd_buf st) (rd_phase st) (rd_limits st))"

section \<open>decode\<close>

definition rd_body_loop :: "'d RequestDecoder \<Rightarrow> (bool, Error) result \<times> 'd RequestDecoder" where
  "rd_body_loop st =
     (case body_loop (rd_limits st) (rd_body_decoder st) (rd_buf st) (rd_phase st) (rd_decoded_body st) of
        (r, bd, buf, ph, body) \<Rightarrow>
          (r, st\<lparr>rd_body_decoder := bd, rd_buf := buf, rd_phase := ph, rd_decoded_body := body\<rparr>))"

definition rd_build_request ::
  "'d Decompressor \<Rightarrow> BodyKind \<Rightarrow> 'd RequestDecoder \<Rightarrow> (Request option, Error) result \<times> 'd RequestDecoder" where
  "rd_build_request D bk st =
     (case rd_decoded_head st of
        None \<Rightarrow> (Panic, st)
      | Some head \<Rightarrow>
          let body = (case bk of BodyNone \<Rightarrow> None | BodyTunnel \<Rightarrow> None | _ \<Rightarrow> Some (rd_decoded_body st))
          in (Ok (Some (rq_from_raw_parts (rh_method head) (rh_uri head) (rh_version head) (rh_headers head) body)),
              st\<lparr>rd_decoded_head := None, rd_phase := StartLine, rd_decoded_body_kind := None, rd_decoded_body := [],
                 rd_body_decoder := bd_reset (rd_body_decoder st),
                 rd_decompressor := decompressor_reset D (rd_decompressor st)\<rparr>))"

definition rd_decode_body ::
  "'d Decompressor \<Rightarrow> 'd RequestDecoder \<Rightarrow> (Request option, Error) result \<times> 'd RequestDecoder" where
  "rd_decode_body D st =
     (case rd_decoded_body_kind st of
        None \<Rightarrow> (Panic, st)
      | Some bk \<Rightarrow>
          if bk = BodyTunnel
          then (Err (InvalidData ''decode() cannot be used in tunnel mode, use take_remaining() instead''), st)
          else if bk = CloseDelimited \<or> bk = BodyNone then rd_build_request D bk st
          else
            (case rd_body_loop st of
               (Ok True, st') \<Rightarrow> rd_build_request D bk st'
             | (Ok False, st') \<Rightarrow> (Ok None, st')
             | (Err e, st') \<Rightarrow> (Err e, st')
             | (Panic, st') \<Rightarrow> (Panic, st')))"

definition rd_decode ::
  "'d Decompressor \<Rightarrow> 'd RequestDecoder \<Rightarrow> (Request option, Error) result \<times> 'd RequestDecoder" where
  "rd_decode D st =
     (if rd_decoded_head st = None then
        (if rd_phase st = StartLine \<or> rd_phase st = Headers then
           (case rd_decode_headers D st of
              (Ok None, st') \<Rightarrow> (Ok None, st')
            | (Ok (Some (head, bk)), st') \<Rightarrow>
                rd_decode_body D (st'\<lparr>rd_decoded_head := Some head, rd_decoded_body_kind := Some bk\<rparr>)
            | (Err e, st') \<Rightarrow> (Err e, st')
            | (Panic, st') \<Rightarrow> (Panic, st'))
         else (Err (InvalidData ''decode cannot be mixed with streaming API''), st))
      else rd_decode_body D st)"

end
