(* ===== verification/Request_Correct.thy ===== *)
theory Request_Correct
  imports Request_Decoder
begin

text \<open>
  Correctness of the request decoder: decoding does not depend on how the input is cut, heads
  that are returned meet every check the constructors assert, the limits hold, nothing panics,
  and the framing decision is the one RFC 9112 asks for.
\<close>

section \<open>However the input is cut: the header loop\<close>

definition rd_app :: "'d RequestDecoder \<Rightarrow> string \<Rightarrow> 'd RequestDecoder" where
  "rd_app st d = st\<lparr>rd_buf := rd_buf st @ d\<rparr>"

lemma rd_app_simps [simp]:
  "rd_buf (rd_app st d) = rd_buf st @ d" "rd_phase (rd_app st d) = rd_phase st"
  "rd_start_line (rd_app st d) = rd_start_line st" "rd_headers (rd_app st d) = rd_headers st"
  "rd_body_decoder (rd_app st d) = rd_body_decoder st" "rd_limits (rd_app st d) = rd_limits st"
  "rd_decoded_head (rd_app st d) = rd_decoded_head st" "rd_decoded_body_kind (rd_app st d) = rd_decoded_body_kind st"
  "rd_decoded_body (rd_app st d) = rd_decoded_body st" "rd_decompressor (rd_app st d) = rd_decompressor st"
  "rd_pending (rd_app st d) = rd_pending st"
  by (simp_all add: rd_app_def)

lemma rd_app_app: "rd_app (rd_app st a) b = rd_app st (a @ b)"
  by (simp add: rd_app_def)

lemma rd_app_Nil: "rd_app st [] = st"
  by (simp add: rd_app_def)

lemma rd_end_of_headers_app:
  "2 \<le> length (rd_buf st) \<Longrightarrow>
     rd_end_of_headers (rd_app st d) = (case rd_end_of_headers st of (r, st') \<Rightarrow> (r, rd_app st' d))"
  by (simp add: rd_end_of_headers_def rd_app_def Let_def split: option.split result.split list.split)

lemma rd_step_app:
  assumes "rd_step D st \<noteq> Wait"
  shows "rd_step D (rd_app st d) = map_step (\<lambda>t. rd_app t d) (rd_step D st)"
proof (cases "rd_phase st = StartLine \<or> rd_phase st = Headers")
  case True
  then obtain pos where pos: "find_line (rd_buf st) = Some pos"
    using assms by (cases "find_line (rd_buf st)") (auto simp: rd_step_def rd_start_line_step_def)
  have le: "pos + 2 \<le> length (rd_buf st)" using find_line_SomeD(1) [OF pos] .
  then have *: "take pos (rd_buf st @ d) = take pos (rd_buf st)"
      "drop (pos + 2) (rd_buf st @ d) = drop (pos + 2) (rd_buf st) @ d" by simp_all
  note pos' = find_line_append [OF pos, of d]
  show ?thesis
  proof (cases "rd_phase st = StartLine")
    case True
    then show ?thesis
      using pos pos' *
      by (simp add: rd_step_def rd_start_line_step_def rd_app_def Let_def split: result.split del: take_append drop_append)
  next
    case False
    with True have ph: "rd_phase st = Headers" by simp
    show ?thesis
    proof (cases "pos = 0")
      case True
      then show ?thesis
        using ph pos pos' le rd_end_of_headers_app [of st d]
        by (simp add: rd_step_def split: prod.split)
    next
      case False
      have "rd_header_line_step (rd_app st d) pos = map_step (\<lambda>t. rd_app t d) (rd_header_line_step st pos)"
        using * by (simp add: rd_header_line_step_def rd_app_def Let_def split: result.split del: take_append drop_append)
      with False ph pos pos' show ?thesis by (simp add: rd_step_def)
    qed
  qed
next
  case False
  then show ?thesis
    by (cases "rd_phase st") (simp_all add: rd_step_def rd_next_message_def rd_app_def)
qed

definition rd_run ::
  "'d Decompressor \<Rightarrow> 'd RequestDecoder \<Rightarrow> (RequestHead \<times> BodyKind, Error) result option \<times> 'd RequestDecoder" where
  "rd_run D st =
     (case rd_decode_headers D st of
        (Ok None, st') \<Rightarrow> (None, st')
      | (Ok (Some x), st') \<Rightarrow> (Some (Ok x), st')
      | (Err e, st') \<Rightarrow> (Some (Err e), st')
      | (Panic, st') \<Rightarrow> (Some Panic, st'))"

lemma rd_run_step:
  "rd_run D st = (case rd_step D st of Next st' \<Rightarrow> rd_run D st' | Done r st' \<Rightarrow> (Some r, st') | Wait \<Rightarrow> (None, st))"
  by (simp add: rd_run_def rd_decode_headers.simps [of D st] and_then_def split: step.split result.split)

interpretation rd_loop: incremental_loop "rd_step D" "rd_run D" rd_app rd_left for D
  by unfold_locales (simp_all add: rd_run_step [symmetric] rd_step_decreases rd_step_app rd_app_app rd_app_Nil)

section \<open>What a checked request line is\<close>

definition request_line_parts :: "string \<Rightarrow> string \<Rightarrow> string \<Rightarrow> bool" where
  "request_line_parts m t v \<longleftrightarrow> is_valid_method m \<and> is_valid_request_target t \<and> list_all (\<lambda>b. u8 b < 0x80) t
     \<and> is_valid_protocol_version v
     \<and> (\<exists>f. parse_request_target_form t = Ok f \<and> validate_request_target_for_method m f = Ok ())"

lemma method_no_SP: "is_valid_method m \<Longrightarrow> SP \<notin> set m \<and> CR \<notin> set m \<and> LF \<notin> set m"
  using header_name_no_sep by (simp add: is_valid_method_eq)

lemma target_bytes: "is_valid_request_target t \<Longrightarrow> b \<in> set t \<Longrightarrow> 0x20 < u8 b \<and> u8 b \<noteq> 0x7F"
  using request_target_loop_bytes by (auto simp: is_valid_request_target_def)

lemma target_no_SP: "is_valid_request_target t \<Longrightarrow> SP \<notin> set t \<and> CR \<notin> set t \<and> LF \<notin> set t"
  using target_bytes by fastforce

lemma split_on_SP_3: "SP \<notin> set a \<Longrightarrow> SP \<notin> set b \<Longrightarrow> SP \<notin> set c \<Longrightarrow> split_on SP (a @ SP # b @ SP # c) = [a, b, c]"
  by (simp add: split_on_append_sep split_on_no_sep)

lemma check_request_line_ok:
  assumes "check_request_line line = Ok u"
  obtains m t v where "line = m @ SP # t @ SP # v" "splitn 3 SP line = [m, t, v]" "request_line_parts m t v"
    "nth_part 0 line = m" "nth_part 2 line = v"
proof -
  obtain m t v where s: "splitn 3 SP line = [m, t, v]" and p: "request_line_parts m t v"
    using assms
    by (auto simp: check_request_line_def request_line_parts_def result_iff list_ex_iff list_all_iff not_le
        split: list.splits)
  from splitn_3_cases [of SP line] s have l: "line = m @ SP # t @ SP # v" by auto
  have "split_on SP line = [m, t, v]"
    unfolding l using p method_no_SP [of m] target_no_SP [of t] protocol_version_chars(1) [of v]
    by (intro split_on_SP_3) (auto simp: request_line_parts_def)
  then show thesis using that [OF l s p] by (simp add: nth_part_def)
qed

lemma check_request_line_parts:
  assumes "request_line_parts m t v"
  shows "check_request_line (m @ SP # t @ SP # v) = Ok ()"
proof -
  have p: "is_valid_method m" "is_valid_request_target t" "is_valid_protocol_version v"
    using assms by (auto simp: request_line_parts_def)
  have "splitn 3 SP (m @ SP # t @ SP # v) = [m, t, v]"
    using p method_no_SP target_no_SP by (intro splitn_3_three) auto
  moreover have "CR \<notin> set (m @ SP # t @ SP # v)" "LF \<notin> set (m @ SP # t @ SP # v)"
    using p method_no_SP target_no_SP protocol_version_chars by auto
  moreover have "\<not> list_ex (\<lambda>b. u8 b \<ge> 0x80) t"
    using assms by (auto simp: request_line_parts_def list_ex_iff list_all_iff not_le)
  ultimately show ?thesis
    using assms by (auto simp: check_request_line_def request_line_parts_def)
qed

section \<open>Invariant\<close>

definition request_head_ok :: "RequestHead \<Rightarrow> bool" where
  "request_head_ok h \<longleftrightarrow> request_line_parts (rh_method h) (rh_uri h) (rh_version h) \<and> list_all header_ok (rh_headers h)"

definition rd_inv :: "'d RequestDecoder \<Rightarrow> bool" where
  "rd_inv st \<longleftrightarrow> body_inv (rd_limits st) (rd_body_decoder st) (rd_phase st)
     \<and> list_all header_ok (rd_headers st) \<and> length (rd_headers st) \<le> max_headers_count (rd_limits st)
     \<and> (rd_phase st \<noteq> Headers \<longrightarrow> rd_headers st = [])
     \<and> (rd_phase st = StartLine \<longrightarrow> idle_body (rd_body_decoder st))
     \<and> (rd_phase st = Headers \<longrightarrow> idle_body (rd_body_decoder st)
          \<and> (\<exists>line. rd_start_line st = Some line \<and> check_request_line line = Ok ()))
     \<and> (\<forall>h. rd_decoded_head st = Some h \<longrightarrow> request_head_ok h \<and> rd_decoded_body_kind st \<noteq> None)"

lemma rd_inv_app [simp]: "rd_inv (rd_app st d) = rd_inv st"
  by (simp add: rd_inv_def)

lemma rq_body_phase_inv:
  assumes "rq_body_kind hs l line = Ok bk" "idle_body bd"
  shows "body_inv l bd (rq_body_phase bk)" "rq_body_phase bk \<noteq> StartLine" "rq_body_phase bk \<noteq> Headers"
proof -
  have "case bk of ContentLength n \<Rightarrow> n \<le> max_body_size l | _ \<Rightarrow> True"
    using assms(1) by (auto simp: rq_body_kind_def rq_determine_body_kind_def result_iff Let_def
        split: if_splits option.splits)
  then have "pending_body (rq_body_phase bk) \<le> max_body_size l"
    by (auto simp: rq_body_phase_def split: BodyKind.splits)
  then show "body_inv l bd (rq_body_phase bk)" using assms(2) by (rule idle_body_inv [rotated])
  show "rq_body_phase bk \<noteq> StartLine" "rq_body_phase bk \<noteq> Headers"
    by (auto simp: rq_body_phase_def split: BodyKind.splits)
qed

text \<open>What ending the header section yields when the line was checked.\<close>

lemma rd_end_of_headers_ok:
  assumes "rd_start_line st = Some line" "check_request_line line = Ok ()"
  obtains (error) e where "rd_end_of_headers st = (Err e, st\<lparr>rd_buf := drop 2 (rd_buf st)\<rparr>)"
      "rq_body_kind (rd_headers st) (rd_limits st) line = Err e"
  | (panic) "rd_end_of_headers st = (Panic, st\<lparr>rd_buf := drop 2 (rd_buf st)\<rparr>)"
      "rq_body_kind (rd_headers st) (rd_limits st) line = Panic"
  | (head) m t v bk where "line = m @ SP # t @ SP # v" "request_line_parts m t v"
      "nth_part 0 line = m" "nth_part 2 line = v"
      "rq_body_kind (rd_headers st) (rd_limits st) line = Ok bk"
      "rd_end_of_headers st =
         (Ok (\<lparr>rh_method = m, rh_uri = t, rh_version = v, rh_headers = rd_headers st\<rparr>, bk),
          st\<lparr>rd_buf := drop 2 (rd_buf st), rd_phase := rq_body_phase bk,
             rd_body_decoder := set_declared_trailers (rd_body_decoder st) (collect_declared_trailers (rd_headers st)),
             rd_start_line := None, rd_headers := []\<rparr>)"
proof (cases "rq_body_kind (rd_headers st) (rd_limits st) line")
  case (Ok bk)
  obtain m t v where l: "line = m @ SP # t @ SP # v" "splitn 3 SP line = [m, t, v]" "request_line_parts m t v"
    "nth_part 0 line = m" "nth_part 2 line = v"
    using check_request_line_ok [OF assms(2)] by metis
  have "rd_end_of_headers st =
         (Ok (\<lparr>rh_method = m, rh_uri = t, rh_version = v, rh_headers = rd_headers st\<rparr>, bk),
          st\<lparr>rd_buf := drop 2 (rd_buf st), rd_phase := rq_body_phase bk,
             rd_body_decoder := set_declared_trailers (rd_body_decoder st) (collect_declared_trailers (rd_headers st)),
             rd_start_line := None, rd_headers := []\<rparr>)"
    using assms(1) Ok l(2) by (simp add: rd_end_of_headers_def rh_from_validated_parts_def)
  with l Ok show ?thesis by (intro head)
qed (use assms(1) error panic in \<open>simp_all add: rd_end_of_headers_def\<close>)

lemma rd_end_of_headers_inv:
  assumes "rd_inv st" "rd_phase st = Headers" "rd_end_of_headers st = (r, st')"
  shows "rd_inv st' \<and> (\<forall>h bk. r = Ok (h, bk) \<longrightarrow> request_head_ok h \<and> length (rh_headers h) \<le> max_headers_count (rd_limits st)
     \<and> rd_phase st' = rq_body_phase bk)"
proof -
  obtain line where l: "rd_start_line st = Some line" "check_request_line line = Ok ()"
    and idle: "idle_body (rd_body_decoder st)" using assms(1,2) by (auto simp: rd_inv_def)
  show ?thesis
  proof (cases rule: rd_end_of_headers_ok [OF l])
    case (1 e)
    with assms l show ?thesis by (auto simp: rd_inv_def)
  next
    case 2
    with assms l show ?thesis by (auto simp: rd_inv_def)
  next
    case (3 m t v bk)
    note b = rq_body_phase_inv [OF 3(5), of "set_declared_trailers (rd_body_decoder st) (collect_declared_trailers (rd_headers st))"]
    show ?thesis
      using assms 3 b idle by (auto simp: rd_inv_def request_head_ok_def)
  qed
qed

lemma rd_step_inv:
  assumes "rd_inv st"
  shows "rd_step D st = Next st' \<Longrightarrow> rd_inv st'"
    and "rd_step D st = Done r st' \<Longrightarrow> rd_inv st' \<and>
      (\<forall>h bk. r = Ok (h, bk) \<longrightarrow> request_head_ok h \<and> length (rh_headers h) \<le> max_headers_count (rd_limits st)
         \<and> rd_phase st' = rq_body_phase bk)"
proof -
  have n: "rd_inv (rd_next_message D st)" if "rd_phase st = PhaseComplete"
    using assms that by (auto simp: rd_inv_def rd_next_message_def intro!: idle_body_inv)
  have s: "body_inv l bd Headers = body_inv l bd StartLine" for l bd by (simp add: body_inv_def)
  show "rd_step D st = Next st' \<Longrightarrow> rd_inv st'"
    using assms n
    by (auto simp: rd_step_def rd_start_line_step_def rd_header_line_step_def Let_def rd_inv_def s parse_header_line_ok
        split: DecodePhase.splits option.splits if_splits result.splits prod.splits)
  show "rd_step D st = Done r st' \<Longrightarrow> rd_inv st' \<and>
      (\<forall>h bk. r = Ok (h, bk) \<longrightarrow> request_head_ok h \<and> length (rh_headers h) \<le> max_headers_count (rd_limits st)
         \<and> rd_phase st' = rq_body_phase bk)"
  proof (cases "rd_phase st = Headers \<and> find_line (rd_buf st) = Some 0")
    case True
    then show "rd_step D st = Done r st' \<Longrightarrow> ?thesis"
      using rd_end_of_headers_inv [OF assms] by (auto simp: rd_step_def split: prod.splits)
  next
    case False
    then show "rd_step D st = Done r st' \<Longrightarrow> ?thesis"
      using assms
      by (auto simp: rd_step_def rd_start_line_step_def rd_header_line_step_def Let_def rd_inv_def
        split: DecodePhase.splits option.splits if_splits result.splits)
  qed
qed

section \<open>decode_headers\<close>

lemma rd_end_of_headers_keeps:
  "rd_end_of_headers st = (r, st') \<Longrightarrow>
     rd_limits st' = rd_limits st \<and> rd_decoded_head st' = rd_decoded_head st
     \<and> rd_decoded_body_kind st' = rd_decoded_body_kind st \<and> rd_decoded_body st' = rd_decoded_body st
     \<and> rd_pending st' = rd_pending st \<and> rd_buf st' = drop 2 (rd_buf st)"
  by (auto simp: rd_end_of_headers_def Let_def split: option.splits result.splits list.splits)

definition rd_keeps :: "'d RequestDecoder \<Rightarrow> 'd RequestDecoder \<Rightarrow> bool" where
  "rd_keeps st st' \<longleftrightarrow> rd_limits st' = rd_limits st \<and> rd_decoded_head st' = rd_decoded_head st
     \<and> rd_decoded_body_kind st' = rd_decoded_body_kind st \<and> rd_decoded_body st' = rd_decoded_body st
     \<and> rd_pending st' = rd_pending st \<and> (\<exists>k. rd_buf st' = drop k (rd_buf st))"

lemma rd_keeps_refl: "rd_keeps st st"
  by (auto simp: rd_keeps_def intro: exI [of _ 0])

lemma rd_keeps_trans: "rd_keeps a b \<Longrightarrow> rd_keeps b c \<Longrightarrow> rd_keeps a c"
  by (auto simp: rd_keeps_def)

lemma rd_step_keeps:
  shows "rd_step D st = Next st' \<Longrightarrow> rd_keeps st st'" and "rd_step D st = Done r st' \<Longrightarrow> rd_keeps st st'"
proof -
  show "rd_step D st = Next st' \<Longrightarrow> rd_keeps st st'"
    by (auto simp: rd_keeps_def rd_step_def rd_start_line_step_def rd_header_line_step_def rd_next_message_def Let_def
        intro: exI [of _ 0] split: DecodePhase.splits option.splits if_splits result.splits prod.splits)
  assume d: "rd_step D st = Done r st'"
  show "rd_keeps st st'"
  proof (cases "rd_phase st = Headers \<and> find_line (rd_buf st) = Some 0")
    case True
    with d have "rd_end_of_headers st = (r, st')" by (simp add: rd_step_def split: prod.splits)
    then show ?thesis using rd_end_of_headers_keeps [of st r st'] by (auto simp: rd_keeps_def)
  next
    case False
    with d show ?thesis
      by (auto simp: rd_keeps_def rd_step_def rd_start_line_step_def rd_header_line_step_def Let_def
        intro: exI [of _ 0] split: DecodePhase.splits option.splits if_splits result.splits)
  qed
qed

lemma rd_decode_headers_keeps: "rd_decode_headers D st = (r, st') \<Longrightarrow> rd_keeps st st'"
proof (induction D st rule: rd_decode_headers.induct)
  case (1 D st)
  then show ?case
    using rd_step_keeps [of D st] rd_keeps_trans [of st]
    by (cases "rd_step D st") (auto simp: rd_decode_headers.simps [of D st] intro: rd_keeps_refl)
qed

lemma rd_decode_headers_inv:
  "rd_decode_headers D st = (r, st') \<Longrightarrow> rd_inv st \<Longrightarrow> rd_inv st' \<and>
     (\<forall>h bk. r = Ok (Some (h, bk)) \<longrightarrow> request_head_ok h \<and> length (rh_headers h) \<le> max_headers_count (rd_limits st)
        \<and> rd_phase st' = rq_body_phase bk)"
proof (induction D st rule: rd_decode_headers.induct)
  case (1 D st)
  show ?case
  proof (cases "rd_step D st")
    case (Next s)
    with 1 rd_step_inv(1) [OF "1.prems"(2) Next] rd_step_keeps(1) [OF Next] show ?thesis
      by (auto simp: rd_decode_headers.simps [of D st] rd_keeps_def)
  next
    case (Done rr s)
    with 1 rd_step_inv(2) [OF "1.prems"(2) Done] show ?thesis
      by (auto simp: rd_decode_headers.simps [of D st] result_iff)
  next
    case Wait
    with 1 show ?thesis by (auto simp: rd_decode_headers.simps [of D st])
  qed
qed

lemma rq_body_kind_not_Panic [simp]: "rq_body_kind hs l line \<noteq> Panic"
proof -
  have "check_host_headers hs \<noteq> Panic" by (auto simp: check_host_headers_def Let_def split: list.splits)
  moreover have "rq_determine_body_kind hs l v \<noteq> Panic" for v
    by (auto simp: rq_determine_body_kind_def panic_iff split: prod.splits option.splits)
  ultimately show ?thesis by (auto simp: rq_body_kind_def panic_iff Let_def)
qed

lemma check_request_line_not_Panic: "length line \<le> i32_max \<Longrightarrow> check_request_line line \<noteq> Panic"
proof -
  assume len: "length line \<le> i32_max"
  have "parse_request_target_form t \<noteq> Panic" if "splitn 3 SP line = [m, t, v]" for m t v
  proof -
    have "length t \<le> length line" using that splitn_3_cases [of SP line] by auto
    with len show ?thesis using parse_request_target_form_not_Panic by simp
  qed
  then show ?thesis by (auto simp: check_request_line_def panic_iff split: list.splits)
qed

lemma rd_step_not_Panic:
  assumes "rd_inv st" "length (rd_buf st) \<le> i32_max" "rd_step D st = Done r st'"
  shows "r \<noteq> Panic"
proof (cases "rd_phase st = Headers \<and> find_line (rd_buf st) = Some 0")
  case True
  obtain line where l: "rd_start_line st = Some line" "check_request_line line = Ok ()"
    using assms(1) True by (auto simp: rd_inv_def)
  have "rd_end_of_headers st = (r, st')" using True assms(3) by (simp add: rd_step_def split: prod.splits)
  then show ?thesis by (cases rule: rd_end_of_headers_ok [OF l]) auto
next
  case False
  have "check_request_line (take pos (rd_buf st)) \<noteq> Panic" for pos
    using assms(2) by (intro check_request_line_not_Panic) simp
  with False assms(3) show ?thesis
    by (auto simp: rd_step_def rd_start_line_step_def rd_header_line_step_def Let_def result_iff
        split: DecodePhase.splits option.splits if_splits result.splits)
qed

lemma rd_decode_headers_not_Panic:
  "rd_inv st \<Longrightarrow> length (rd_buf st) \<le> i32_max \<Longrightarrow> rd_decode_headers D st = (r, st') \<Longrightarrow> r \<noteq> Panic"
proof (induction D st rule: rd_decode_headers.induct)
  case (1 D st)
  show ?case
  proof (cases "rd_step D st")
    case (Next s)
    obtain k where "rd_buf s = drop k (rd_buf st)" using rd_step_keeps(1) [OF Next] by (auto simp: rd_keeps_def)
    with 1 rd_step_inv(1) [OF "1.prems"(1) Next] Next show ?thesis
      by (auto simp: rd_decode_headers.simps [of D st])
  next
    case (Done rr s)
    with rd_step_not_Panic [OF "1.prems"(1,2) Done] "1.prems"(3) show ?thesis
      by (auto simp: rd_decode_headers.simps [of D st] panic_iff)
  next
    case Wait
    with 1 show ?thesis by (auto simp: rd_decode_headers.simps [of D st])
  qed
qed

section \<open>However the input is cut: decode\<close>

lemma rd_run_inject: "rd_run D st = rd_run D st' \<Longrightarrow> rd_decode_headers D st = rd_decode_headers D st'"
  by (auto simp: rd_run_def split: prod.splits result.splits option.splits)

lemma rd_decode_headers_app:
  "rd_decode_headers D (rd_app st d) =
     (case rd_decode_headers D st of (Ok None, st') \<Rightarrow> rd_decode_headers D (rd_app st' d) | (r, st') \<Rightarrow> (r, rd_app st' d))"
proof -
  obtain r st' where r: "rd_decode_headers D st = (r, st')" by (cases "rd_decode_headers D st") auto
  show ?thesis
  proof (cases "r = Ok None")
    case True
    then have "rd_run D st = (None, st')" using r by (simp add: rd_run_def)
    then have "rd_run D (rd_app st d) = rd_run D (rd_app st' d)" by (rule rd_loop.run_resume [OF TrueI])
    then have "rd_decode_headers D (rd_app st d) = rd_decode_headers D (rd_app st' d)" by (rule rd_run_inject)
    then show ?thesis using r True by simp
  next
    case False
    then obtain x where x: "rd_run D st = (Some x, st')" "r = and_then x (\<lambda>y. Ok (Some y))"
      using r by (cases r) (auto simp: rd_run_def)
    have "rd_run D (rd_app st d) = (Some x, rd_app st' d)" using x(1) by (rule rd_loop.run_done [OF TrueI])
    then have "rd_decode_headers D (rd_app st d) = (r, rd_app st' d)"
      using x(2) by (auto simp: rd_run_def split: prod.splits result.splits option.splits)
    then show ?thesis using r False by (auto split: result.splits option.splits)
  qed
qed

lemma rd_decode_headers_waits:
  "rd_decode_headers D st = (Ok None, st') \<Longrightarrow> rd_phase st' = StartLine \<or> rd_phase st' = Headers"
proof (induction D st rule: rd_decode_headers.induct)
  case (1 D st)
  have "rd_step D st = Wait \<Longrightarrow> rd_phase st = StartLine \<or> rd_phase st = Headers"
    by (auto simp: rd_step_def split: DecodePhase.splits)
  with 1 show ?case
    by (cases "rd_step D st") (auto simp: rd_decode_headers.simps [of D st] result_iff)
qed

lemma rd_build_request_app:
  "rd_build_request D bk (rd_app st d) = (case rd_build_request D bk st of (r, st') \<Rightarrow> (r, rd_app st' d))"
  by (simp add: rd_build_request_def rd_app_def split: option.split BodyKind.split)

lemma rd_body_loop_app:
  assumes "loop_phase (rd_phase st)" "rd_inv st" "max_body_size (rd_limits st) \<le> usize_max"
  shows "rd_body_loop (rd_app st d) =
    (case rd_body_loop st of (Ok False, st') \<Rightarrow> rd_body_loop (rd_app st' d) | (r, st') \<Rightarrow> (r, rd_app st' d))"
proof -
  have "body_consumed (rd_body_decoder st) + pending_body (rd_phase st) \<le> usize_max"
    using assms(2,3) by (auto simp: rd_inv_def body_inv_def)
  note app = body_loop_app [OF assms(1) this, of "rd_limits st" "rd_buf st" d "rd_decoded_body st"]
  show ?thesis
    unfolding rd_body_loop_def rd_app_simps app
    by (auto simp: rd_app_def body_cont_def split: prod.splits result.splits bool.splits)
qed

definition rd_ready :: "'d RequestDecoder \<Rightarrow> bool" where
  "rd_ready st \<longleftrightarrow> rd_inv st \<and> max_body_size (rd_limits st) \<le> usize_max
     \<and> (rd_decoded_head st \<noteq> None \<longrightarrow> rd_phase st \<noteq> Headers \<and> (\<exists>bk. rd_decoded_body_kind st = Some bk
          \<and> ((bk = Chunked \<or> (\<exists>n. bk = ContentLength n)) \<longrightarrow> loop_phase (rd_phase st))))"

lemma rd_ready_app [simp]: "rd_ready (rd_app st d) = rd_ready st"
  by (simp add: rd_ready_def)

lemma rd_body_loop_inv:
  assumes "rd_inv st" "max_body_size (rd_limits st) \<le> usize_max" "rd_body_loop st = (r, st')"
  shows "rd_inv st' \<and> r \<noteq> Panic \<and> rd_limits st' = rd_limits st \<and> rd_decoded_head st' = rd_decoded_head st
    \<and> rd_decoded_body_kind st' = rd_decoded_body_kind st \<and> rd_pending st' = rd_pending st
    \<and> (is_ok r \<longrightarrow> rd_headers st' = [])"
proof -
  obtain bd buf ph body where
    b: "body_loop (rd_limits st) (rd_body_decoder st) (rd_buf st) (rd_phase st) (rd_decoded_body st) = (r, bd, buf, ph, body)"
    and st': "st' = st\<lparr>rd_body_decoder := bd, rd_buf := buf, rd_phase := ph, rd_decoded_body := body\<rparr>"
    using assms(3) by (auto simp: rd_body_loop_def split: prod.splits)
  note i = body_loop_keeps [OF b _ assms(2)]
  have h: "rd_phase st = Headers \<Longrightarrow> ph = Headers \<and> bd = rd_body_decoder st \<and> \<not> is_ok r"
    using b by (auto simp: body_loop.simps [of _ _ _ Headers] bd_peek_body_def dec_progress_def bd_consume_body_def)
  have "body_inv (rd_limits st) (rd_body_decoder st) (rd_phase st)" using assms(1) by (simp add: rd_inv_def)
  note k = i [OF this, unfolded loop_keeps_def]
  show ?thesis
  proof (cases "rd_phase st = Headers")
    case True
    with h k assms(1) show ?thesis by (auto simp: rd_inv_def st')
  next
    case False
    then have "ph \<noteq> Headers" using k by (metis (no_types))
    with False k assms(1) show ?thesis by (auto simp: rd_inv_def st')
  qed
qed

lemma rd_body_loop_ready:
  assumes "rd_ready st" "loop_phase (rd_phase st)" "rd_body_loop st = (r, st')"
  shows "rd_ready st' \<and> loop_phase (rd_phase st') \<and> rd_decoded_head st' = rd_decoded_head st
     \<and> rd_decoded_body_kind st' = rd_decoded_body_kind st \<and> rd_limits st' = rd_limits st \<and> r \<noteq> Panic"
proof -
  have r: "rd_inv st" "max_body_size (rd_limits st) \<le> usize_max" using assms(1) by (auto simp: rd_ready_def)
  obtain bd buf ph body where
    b: "body_loop (rd_limits st) (rd_body_decoder st) (rd_buf st) (rd_phase st) (rd_decoded_body st) = (r, bd, buf, ph, body)"
    and ph: "rd_phase st' = ph"
    using assms(3) by (auto simp: rd_body_loop_def split: prod.splits)
  have "loop_phase ph" using body_loop_inv [OF b _ assms(2) r(2)] r(1) by (simp add: rd_inv_def)
  moreover from this have "ph \<noteq> Headers" by (auto simp: loop_phase_def)
  ultimately show ?thesis using rd_body_loop_inv [OF r assms(3)] ph assms(1) by (auto simp: rd_ready_def)
qed

lemma rd_decode_body_app:
  assumes "rd_ready st" "rd_decoded_head st \<noteq> None"
  shows "rd_decode_body D (rd_app st d) =
    (case rd_decode_body D st of (Ok None, st') \<Rightarrow> rd_decode D (rd_app st' d) | (r, st') \<Rightarrow> (r, rd_app st' d))"
proof -
  obtain bk where bk: "rd_decoded_body_kind st = Some bk"
    "(bk = Chunked \<or> (\<exists>n. bk = ContentLength n)) \<longrightarrow> loop_phase (rd_phase st)"
    using assms by (auto simp: rd_ready_def)
  have build: "fst (rd_build_request D bk s) \<noteq> Ok None" for s
    by (auto simp: rd_build_request_def Let_def split: option.splits)
  show ?thesis
  proof (cases "bk = Chunked \<or> (\<exists>n. bk = ContentLength n)")
    case True
    with bk have ph: "loop_phase (rd_phase st)" by simp
    have i: "rd_inv st" "max_body_size (rd_limits st) \<le> usize_max" using assms(1) by (auto simp: rd_ready_def)
    obtain r st' where l: "rd_body_loop st = (r, st')" by (cases "rd_body_loop st") auto
    note k = rd_body_loop_ready [OF assms(1) ph l]
    have nt: "bk \<noteq> BodyTunnel" "bk \<noteq> CloseDelimited" "bk \<noteq> BodyNone" using True by auto
    have unf: "rd_decode_body D s = (case rd_body_loop s of (Ok True, st') \<Rightarrow> rd_build_request D bk st'
        | (Ok False, st') \<Rightarrow> (Ok None, st') | (Err e, st') \<Rightarrow> (Err e, st') | (Panic, st') \<Rightarrow> (Panic, st'))"
      if "rd_decoded_body_kind s = Some bk" for s
      using nt that by (simp add: rd_decode_body_def)
    show ?thesis
    proof (cases "r = Ok False")
      case True
      have "rd_decode D (rd_app st' d) = rd_decode_body D (rd_app st' d)"
        using k assms(2) by (auto simp: rd_decode_def)
      with True show ?thesis
        using rd_body_loop_app [OF ph i, of d] l k bk(1) by (simp add: unf)
    next
      case False
      then have "rd_body_loop (rd_app st d) = (r, rd_app st' d)"
        using rd_body_loop_app [OF ph i, of d] l by (simp split: result.splits bool.splits)
      then have "rd_decode_body D (rd_app st d) = (case rd_decode_body D st of (q, s) \<Rightarrow> (q, rd_app s d))"
        using bk(1) False l by (cases r) (simp_all add: unf rd_build_request_app split: bool.split)
      moreover have "fst (rd_decode_body D st) \<noteq> Ok None"
        using bk(1) False l build [of st'] by (cases r) (simp_all add: unf split: bool.split)
      ultimately show ?thesis by (rule case_not_None)
    qed
  next
    case False
    then have "rd_decode_body D (rd_app st d) = (case rd_decode_body D st of (q, s) \<Rightarrow> (q, rd_app s d))"
      using bk(1) by (cases bk) (simp_all add: rd_decode_body_def rd_build_request_app)
    moreover have "fst (rd_decode_body D st) \<noteq> Ok None"
      using False bk(1) build [of st] by (cases bk) (simp_all add: rd_decode_body_def)
    ultimately show ?thesis by (rule case_not_None)
  qed
qed

lemma rq_body_phase_not_Headers [simp]: "rq_body_phase bk \<noteq> Headers"
  by (simp add: rq_body_phase_def split: BodyKind.split)

lemma rq_body_phase_loop:
  "bk = Chunked \<or> (\<exists>n. bk = ContentLength n) \<Longrightarrow> loop_phase (rq_body_phase bk)"
  by (auto simp: rq_body_phase_def loop_phase_def)

text \<open>The state \<open>decode\<close> continues with once the head is there.\<close>

lemma rd_head_ready:
  assumes "rd_ready st" "rd_decode_headers D st = (Ok (Some (h, bk)), st')"
  shows "rd_ready (st'\<lparr>rd_decoded_head := Some h, rd_decoded_body_kind := Some bk\<rparr>)"
proof -
  have "rd_inv st" using assms(1) by (simp add: rd_ready_def)
  note i = rd_decode_headers_inv [OF assms(2) this] rd_decode_headers_keeps [OF assms(2)]
  have ph: "rd_phase st' = rq_body_phase bk" and h: "request_head_ok h" and inv: "rd_inv st'" using i by blast+
  have lim: "max_body_size (rd_limits st') \<le> usize_max" using i(2) assms(1) by (simp add: rd_ready_def rd_keeps_def)
  have "rd_inv (st'\<lparr>rd_decoded_head := Some h, rd_decoded_body_kind := Some bk\<rparr>)"
    using inv h by (simp add: rd_inv_def)
  with ph lim rq_body_phase_loop [of bk] show ?thesis by (auto simp: rd_ready_def)
qed

lemma rd_decode_app:
  assumes "rd_ready st"
  shows "rd_decode D (rd_app st d) =
    (case rd_decode D st of (Ok None, st') \<Rightarrow> rd_decode D (rd_app st' d) | (r, st') \<Rightarrow> (r, rd_app st' d))"
proof (cases "rd_decoded_head st = None \<and> (rd_phase st = StartLine \<or> rd_phase st = Headers)")
  case True
  obtain r st' where r: "rd_decode_headers D st = (r, st')" by (cases "rd_decode_headers D st") auto
  note app = rd_decode_headers_app [of D st d]
  show ?thesis
  proof (cases r)
    case (Ok x)
    show ?thesis
    proof (cases x)
      case None
      have "rd_phase st' = StartLine \<or> rd_phase st' = Headers" "rd_decoded_head st' = None"
        using rd_decode_headers_waits [of D st st'] rd_decode_headers_keeps [OF r] r Ok None True
        by (auto simp: rd_keeps_def)
      then have "rd_decode D (rd_app st d) = rd_decode D (rd_app st' d)"
        using True app r Ok None by (simp add: rd_decode_def)
      moreover have "rd_decode D st = (Ok None, st')" using True r Ok None by (auto simp: rd_decode_def)
      ultimately show ?thesis by simp
    next
      case (Some hb)
      obtain h bk where hb: "hb = (h, bk)" by (cases hb)
      let ?st = "st'\<lparr>rd_decoded_head := Some h, rd_decoded_body_kind := Some bk\<rparr>"
      have eq: "rd_app st' d\<lparr>rd_decoded_head := Some h, rd_decoded_body_kind := Some bk\<rparr> = rd_app ?st d"
        by (simp add: rd_app_def)
      have "rd_decode D (rd_app st d) = rd_decode_body D (rd_app ?st d)" "rd_decode D st = rd_decode_body D ?st"
        using True app r Ok Some hb by (auto simp: rd_decode_def eq)
      then show ?thesis
        using rd_decode_body_app [OF rd_head_ready [OF assms, of D h bk st'], of D d] r Ok Some hb by simp
    qed
  qed (use True app r in \<open>auto simp: rd_decode_def\<close>)
next
  case False
  then show ?thesis
    using rd_decode_body_app [OF assms, of D d] by (cases "rd_decoded_head st") (auto simp: rd_decode_def)
qed

lemma rd_build_request_inv:
  assumes "rd_inv st" "rd_decoded_head st = Some h" "rd_headers st = []" "rd_build_request D bk st = (r, st')"
  shows "rd_inv st' \<and> rd_decoded_head st' = None \<and> rd_limits st' = rd_limits st \<and> rd_pending st' = rd_pending st \<and> r =
    Ok (Some (rq_from_raw_parts (rh_method h) (rh_uri h) (rh_version h) (rh_headers h)
      (case bk of BodyNone \<Rightarrow> None | BodyTunnel \<Rightarrow> None | _ \<Rightarrow> Some (rd_decoded_body st))))"
  using assms by (auto simp: rd_build_request_def rd_inv_def Let_def intro!: idle_body_inv)

text \<open>A request that \<open>decode\<close> returns passes every check \<open>Request::from_raw_parts\<close> asserts.\<close>

definition request_ok :: "Request \<Rightarrow> bool" where
  "request_ok r \<longleftrightarrow> request_line_parts (rq_method r) (rq_uri r) (rq_version r) \<and> list_all header_ok (rq_headers r)"

text \<open>A head that \<open>decode\<close> keeps for later calls has a body to wait for, or opens a tunnel.\<close>

definition rd_kind_ok :: "'d RequestDecoder \<Rightarrow> bool" where
  "rd_kind_ok st \<longleftrightarrow> (rd_decoded_head st \<noteq> None \<longrightarrow>
     rd_decoded_body_kind st \<noteq> Some BodyNone \<and> rd_decoded_body_kind st \<noteq> Some CloseDelimited)"

lemma rd_decode_body_inv:
  assumes "rd_inv st" "max_body_size (rd_limits st) \<le> usize_max" "rd_decoded_head st \<noteq> None"
    "rd_headers st = [] \<or> rd_kind_ok st" "rd_decode_body D st = (r, st')"
  shows "rd_inv st' \<and> rd_kind_ok st' \<and> r \<noteq> Panic \<and> rd_limits st' = rd_limits st \<and> rd_pending st' = rd_pending st
    \<and> (\<forall>q. r = Ok (Some q) \<longrightarrow> request_ok q)"
proof -
  obtain h where h: "rd_decoded_head st = Some h" using assms(3) by blast
  then have "request_head_ok h \<and> rd_decoded_body_kind st \<noteq> None" using assms(1) by (simp add: rd_inv_def)
  with h obtain bk where bk: "rd_decoded_body_kind st = Some bk" "rd_decoded_head st = Some h" "request_head_ok h"
    by blast
  have build: "rd_inv s' \<and> rd_kind_ok s' \<and> q \<noteq> Panic \<and> rd_limits s' = rd_limits s \<and> rd_pending s' = rd_pending s \<and> (\<forall>x. q = Ok (Some x) \<longrightarrow> request_ok x)"
    if "rd_build_request D bk s = (q, s')" "rd_inv s" "rd_decoded_head s = Some h" "rd_headers s = []" for s q s'
    using rd_build_request_inv [OF that(2-4,1)] bk(3)
    by (auto simp: request_ok_def request_head_ok_def rq_from_raw_parts_def rd_kind_ok_def)
  show ?thesis
  proof (cases "bk = Chunked \<or> (\<exists>n. bk = ContentLength n)")
    case True
    obtain q s where l: "rd_body_loop st = (q, s)" by (cases "rd_body_loop st") auto
    note i = rd_body_loop_inv [OF assms(1,2) l]
    show ?thesis
    proof (cases "q = Ok True")
      case T: True
      have "rd_decode_body D st = rd_build_request D bk s" using True T l bk by (auto simp: rd_decode_body_def)
      with build [of s r st'] assms(5) i T bk show ?thesis by auto
    next
      case False
      with True l bk i assms(5) show ?thesis
        by (cases q) (auto simp: rd_decode_body_def rd_kind_ok_def split: bool.splits)
    qed
  next
    case False
    show ?thesis
    proof (cases "bk = BodyTunnel")
      case True
      with assms bk show ?thesis by (auto simp: rd_decode_body_def rd_kind_ok_def)
    next
      case nt: False
      with False bk have "rd_decode_body D st = rd_build_request D bk st" by (cases bk) (auto simp: rd_decode_body_def)
      moreover have "rd_headers st = []" using False nt bk assms(4) by (cases bk) (auto simp: rd_kind_ok_def)
      ultimately show ?thesis using build [of st r st'] assms bk by auto
    qed
  qed
qed

lemma rd_decode_inv:
  assumes "rd_inv st" "rd_kind_ok st" "max_body_size (rd_limits st) \<le> usize_max" "rd_decode D st = (r, st')"
  shows "rd_inv st' \<and> rd_kind_ok st' \<and> rd_limits st' = rd_limits st \<and> rd_pending st' = rd_pending st
    \<and> (length (rd_buf st) \<le> i32_max \<longrightarrow> r \<noteq> Panic) \<and> (\<forall>q. r = Ok (Some q) \<longrightarrow> request_ok q)"
proof (cases "rd_decoded_head st = None \<and> (rd_phase st = StartLine \<or> rd_phase st = Headers)")
  case True
  obtain q s where h: "rd_decode_headers D st = (q, s)" by (cases "rd_decode_headers D st") auto
  note i = rd_decode_headers_inv [OF h assms(1)] rd_decode_headers_keeps [OF h, unfolded rd_keeps_def]
    rd_decode_headers_not_Panic [OF assms(1) _ h]
  show ?thesis
  proof (cases "\<exists>hd bk. q = Ok (Some (hd, bk))")
    case T: True
    then obtain hd bk where q: "q = Ok (Some (hd, bk))" by blast
    let ?s = "s\<lparr>rd_decoded_head := Some hd, rd_decoded_body_kind := Some bk\<rparr>"
    have "rd_decode D st = rd_decode_body D ?s" using True h q by (auto simp: rd_decode_def)
    moreover have "rd_inv ?s" using i q by (auto simp: rd_inv_def)
    moreover have "rd_headers ?s = []"
    proof -
      have "rd_phase s \<noteq> Headers" using i q by (auto simp: rq_body_phase_def split: BodyKind.splits)
      then show ?thesis using i by (simp add: rd_inv_def)
    qed
    ultimately show ?thesis using rd_decode_body_inv [of ?s D r st'] assms(3,4) i by auto
  next
    case False
    then have "rd_decode D st = (and_then q (\<lambda>_. Ok None), s)"
      using True h by (cases q) (auto simp: rd_decode_def split: option.splits)
    with assms(2,4) i True show ?thesis by (cases q) (auto simp: rd_kind_ok_def)
  qed
next
  case False
  show ?thesis
  proof (cases "rd_decoded_head st = None")
    case True
    with False assms show ?thesis by (auto simp: rd_decode_def)
  next
    case no: False
    then have "rd_decode_body D st = (r, st')" using assms(4) by (auto simp: rd_decode_def)
    with rd_decode_body_inv [OF assms(1,3) no] assms(2) show ?thesis by blast
  qed
qed

definition rd_decode_run ::
  "'d Decompressor \<Rightarrow> 'd RequestDecoder \<Rightarrow> (Request option, Error) result option \<times> 'd RequestDecoder" where
  "rd_decode_run D st = (case rd_decode D st of (r, st') \<Rightarrow> (if r = Ok None then None else Some r, st'))"

lemma rd_decode_body_waits_ready:
  assumes "rd_ready st" "rd_decoded_head st \<noteq> None" "rd_decode_body D st = (Ok None, st')"
  shows "rd_ready st'"
proof -
  obtain bk where bk: "rd_decoded_body_kind st = Some bk"
    "(bk = Chunked \<or> (\<exists>n. bk = ContentLength n)) \<longrightarrow> loop_phase (rd_phase st)"
    using assms(1,2) by (auto simp: rd_ready_def)
  have build: "rd_build_request D bk s \<noteq> (Ok None, s')" for s s'
    by (auto simp: rd_build_request_def Let_def split: option.splits)
  with assms(3) bk have l: "rd_body_loop st = (Ok False, st')" and k: "bk = Chunked \<or> (\<exists>n. bk = ContentLength n)"
    by (cases bk; auto simp: rd_decode_body_def split: result.splits bool.splits prod.splits)+
  from bk(2) k have "loop_phase (rd_phase st)" by simp
  from rd_body_loop_ready [OF assms(1) this l] show ?thesis by simp
qed

lemma rd_decode_waits_ready:
  assumes "rd_ready st" "rd_decode D st = (Ok None, st')"
  shows "rd_ready st'"
proof (cases "rd_decoded_head st = None")
  case True
  with assms(2) have ph: "rd_phase st = StartLine \<or> rd_phase st = Headers" by (auto simp: rd_decode_def split: if_splits)
  obtain q s where h: "rd_decode_headers D st = (q, s)" by (cases "rd_decode_headers D st") auto
  have i: "rd_inv st" using assms(1) by (simp add: rd_ready_def)
  show ?thesis
  proof (cases "q = Ok None")
    case True
    with h ph assms(2) \<open>rd_decoded_head st = None\<close> have "s = st'" by (auto simp: rd_decode_def)
    with rd_decode_headers_inv [OF h i] rd_decode_headers_keeps [OF h, unfolded rd_keeps_def] assms(1)
      \<open>rd_decoded_head st = None\<close> show ?thesis by (auto simp: rd_ready_def)
  next
    case False
    then obtain hd bk where q: "q = Ok (Some (hd, bk))"
      using h ph assms(2) True by (cases q) (auto simp: rd_decode_def split: option.splits)
    let ?s = "s\<lparr>rd_decoded_head := Some hd, rd_decoded_body_kind := Some bk\<rparr>"
    have "rd_decode_body D ?s = (Ok None, st')" using h ph assms(2) True q by (auto simp: rd_decode_def)
    moreover have "rd_ready ?s" using rd_head_ready assms(1) h q by blast
    ultimately show ?thesis using rd_decode_body_waits_ready [of ?s D st'] by simp
  qed
next
  case False
  then have "rd_decode_body D st = (Ok None, st')" using assms(2) by (auto simp: rd_decode_def)
  then show ?thesis by (rule rd_decode_body_waits_ready [OF assms(1) False])
qed

interpretation rd_dec: resumable "rd_decode_run D" rd_app rd_ready for D
proof
  fix s s' :: "'a RequestDecoder" and r d
  assume i: "rd_ready s"
  show "rd_decode_run D s = (Some r, s') \<Longrightarrow> rd_decode_run D (rd_app s d) = (Some r, rd_app s' d)"
    using rd_decode_app [OF i, of D d]
    by (auto simp: rd_decode_run_def split: prod.splits result.splits option.splits if_splits)
  show "rd_decode_run D s = (None, s') \<Longrightarrow> rd_decode_run D (rd_app s d) = rd_decode_run D (rd_app s' d)"
    using rd_decode_app [OF i, of D d]
    by (auto simp: rd_decode_run_def split: prod.splits if_splits)
  show "rd_decode_run D s = (None, s') \<Longrightarrow> rd_ready s'"
    using rd_decode_waits_ready [OF i] by (auto simp: rd_decode_run_def split: prod.splits if_splits)
  show "rd_ready (rd_app s d)" using i by simp
qed (simp_all add: rd_app_app rd_app_Nil)

end
