(* ===== verification/Request_Stream.thy ===== *)
theory Request_Stream
  imports Request_Correct
begin

text \<open>
  A connection of pipelined requests: \<open>decode\<close> called until it asks for more bytes. Every
  request that is returned shortens what is left to read, so the loop ends, and the sequence of
  requests does not depend on how the bytes arrive.
\<close>

text \<open>The buffer only shrinks in the operations that decode.\<close>

lemma rd_build_request_buf: "rd_build_request D bk s = (q, s') \<Longrightarrow> rd_buf s' = rd_buf s"
  by (auto simp: rd_build_request_def Let_def split: option.splits)

lemma rd_decode_body_length:
  assumes "rd_decode_body D s = (q, s')"
  shows "length (rd_buf s') \<le> length (rd_buf s)"
proof -
  obtain x t where l: "rd_body_loop s = (x, t)" by (cases "rd_body_loop s") auto
  then have "length (rd_buf t) \<le> length (rd_buf s)"
    by (auto simp: rd_body_loop_def dest!: body_loop_length split: prod.splits)
  moreover have "s' = s \<or> s' = t \<or> (\<exists>bk. rd_build_request D bk s = (q, s')) \<or> (\<exists>bk. rd_build_request D bk t = (q, s'))"
    using assms l by (auto simp: rd_decode_body_def split: option.splits if_splits result.splits bool.splits)
  ultimately show ?thesis using rd_build_request_buf by (metis order_refl)
qed

text \<open>What \<open>decode\<close> does: nothing, the header part only, or the header part (unless it was done before) and the body.\<close>

lemma rd_decode_cases:
  assumes "rd_decode D st = (r, st')"
  obtains (stuck) "st' = st" "\<not> is_ok r"
  | (headers) q where "rd_decode_headers D st = (q, st')" "rd_decoded_head st = None" "\<And>x. r \<noteq> Ok (Some x)"
  | (both) hd bk s where "rd_decoded_head st = None" "rd_decode_headers D st = (Ok (Some (hd, bk)), s)"
      "rd_decode_body D (s\<lparr>rd_decoded_head := Some hd, rd_decoded_body_kind := Some bk\<rparr>) = (r, st')"
  | (body) "rd_decoded_head st \<noteq> None" "rd_decode_body D st = (r, st')"
proof (cases "rd_decoded_head st")
  case (Some h)
  with assms body show ?thesis by (simp add: rd_decode_def)
next
  case None
  obtain q s where q: "rd_decode_headers D st = (q, s)" by (cases "rd_decode_headers D st") auto
  show ?thesis
  proof (cases "rd_phase st = StartLine \<or> rd_phase st = Headers")
    case True
    show ?thesis
    proof (cases "\<exists>hd bk. q = Ok (Some (hd, bk))")
      case T: True
      with q None True assms both show ?thesis by (auto simp: rd_decode_def)
    next
      case False
      with q None True assms have "st' = s" "\<And>x. r \<noteq> Ok (Some x)"
        by (cases q; auto simp: rd_decode_def split: option.splits)+
      with headers [of q] q None show ?thesis by blast
    qed
  next
    case False
    with None assms stuck show ?thesis by (auto simp: rd_decode_def)
  qed
qed

lemma rd_step_shrinks:
  "rd_step D st = Done (Ok x) st' \<Longrightarrow> length (rd_buf st') < length (rd_buf st)"
proof (cases "rd_phase st = Headers \<and> find_line (rd_buf st) = Some 0")
  case True
  then have "2 \<le> length (rd_buf st)" using find_line_SomeD(1) [of "rd_buf st" 0] by simp
  moreover assume "rd_step D st = Done (Ok x) st'"
  ultimately show ?thesis using True rd_end_of_headers_keeps [of st "Ok x" st'] by (auto simp: rd_step_def split: prod.splits)
next
  case False
  then show "rd_step D st = Done (Ok x) st' \<Longrightarrow> ?thesis"
    by (auto simp: rd_step_def rd_start_line_step_def rd_header_line_step_def Let_def
        split: DecodePhase.splits option.splits if_splits result.splits)
qed

lemma rd_decode_headers_shrinks:
  "rd_decode_headers D st = (Ok (Some x), st') \<Longrightarrow> length (rd_buf st') < length (rd_buf st)"
proof (induction D st rule: rd_decode_headers.induct)
  case (1 D st)
  show ?case
  proof (cases "rd_step D st")
    case (Next s)
    with 1 rd_step_keeps(1) [OF Next] show ?thesis by (fastforce simp: rd_decode_headers.simps [of D st] rd_keeps_def)
  next
    case (Done r s)
    with 1(2) rd_step_shrinks [of D st] show ?thesis by (auto simp: rd_decode_headers.simps [of D st] result_iff)
  next
    case Wait
    with 1(2) show ?thesis by (simp add: rd_decode_headers.simps [of D st])
  qed
qed

lemma rd_decode_length: "rd_decode D st = (r, st') \<Longrightarrow> length (rd_buf st') \<le> length (rd_buf st)"
proof (erule rd_decode_cases)
  fix q assume "rd_decode_headers D st = (q, st')"
  then show ?thesis using rd_decode_headers_keeps [of D st q st'] by (auto simp: rd_keeps_def)
next
  fix hd bk s
  assume "rd_decode_headers D st = (Ok (Some (hd, bk)), s)"
    "rd_decode_body D (s\<lparr>rd_decoded_head := Some hd, rd_decoded_body_kind := Some bk\<rparr>) = (r, st')"
  from rd_decode_headers_shrinks [OF this(1)] rd_decode_body_length [OF this(2)] show ?thesis by simp
qed (simp_all add: rd_decode_body_length)

definition rd_unread :: "'d RequestDecoder \<Rightarrow> nat" where
  "rd_unread st = length (rd_buf st) + (if rd_decoded_head st = None then 0 else 1)"

lemma rd_build_request_head: "rd_build_request D bk s = (Ok (Some q), s') \<Longrightarrow> rd_decoded_head s' = None"
  by (auto simp: rd_build_request_def Let_def split: option.splits)

lemma rd_decode_body_head: "rd_decode_body D s = (Ok (Some q), s') \<Longrightarrow> rd_decoded_head s' = None"
  by (auto simp: rd_decode_body_def dest: rd_build_request_head split: option.splits if_splits result.splits bool.splits prod.splits)

lemma rd_decode_less:
  assumes "rd_decode D st = (Ok (Some q), st')"
  shows "rd_unread st' < rd_unread st"
  using assms
proof (cases rule: rd_decode_cases)
  case (headers p)
  then show ?thesis by blast
next
  case (both hd bk s)
  with rd_decode_headers_shrinks [OF both(2)] rd_decode_body_length [OF both(3)] rd_decode_body_head [OF both(3)]
  show ?thesis by (simp add: rd_unread_def)
next
  case body
  with rd_decode_body_length [OF body(2)] rd_decode_body_head [OF body(2)] show ?thesis by (auto simp: rd_unread_def)
qed simp_all

text \<open>The requests that can be read now; the flag says whether decoding stopped with an error.\<close>

function rd_pump ::
  "'d Decompressor \<Rightarrow> 'd RequestDecoder \<Rightarrow> (Request option, Error) result list \<times> bool \<times> 'd RequestDecoder" where
  "rd_pump D st =
     (case rd_decode D st of (r, st') \<Rightarrow>
        (case r of
           Ok None \<Rightarrow> ([], False, st')
         | Ok (Some q) \<Rightarrow> (case rd_pump D st' of (rs, b, t) \<Rightarrow> (r # rs, b, t))
         | _ \<Rightarrow> ([r], True, st')))"
  by pat_completeness auto
termination
  by (relation "measure (\<lambda>(_, st). rd_unread st)") (auto intro: rd_decode_less [OF sym])

declare rd_pump.simps [simp del]

lemma rd_decode_ready:
  assumes "rd_ready st" "rd_decode D st = (Ok (Some q), st')"
  shows "rd_ready st'"
proof -
  have head: "rd_decoded_head st' = None"
    using assms(2) by (cases rule: rd_decode_cases) (auto dest: rd_decode_body_head)
  have "rd_inv st' \<and> rd_limits st' = rd_limits st"
    using assms(2)
  proof (cases rule: rd_decode_cases)
    case (both hd bk s)
    let ?s = "s\<lparr>rd_decoded_head := Some hd, rd_decoded_body_kind := Some bk\<rparr>"
    have i: "rd_inv st" using assms(1) by (simp add: rd_ready_def)
    have r: "rd_ready ?s" by (rule rd_head_ready [OF assms(1) both(2)])
    then have "rd_inv ?s" "max_body_size (rd_limits ?s) \<le> usize_max" "rd_decoded_head ?s \<noteq> None" "rd_headers ?s = []"
      by (simp_all add: rd_ready_def rd_inv_def)
    with rd_decode_body_inv [OF _ _ _ _ both(3)] have "rd_inv st'" "rd_limits st' = rd_limits ?s" by blast+
    with rd_decode_headers_keeps [OF both(2)]
    show "rd_inv st' \<and> rd_limits st' = rd_limits st" by (simp add: rd_keeps_def)
  next
    case body
    have "rd_headers st = []" using assms(1) body(1) by (simp add: rd_ready_def rd_inv_def)
    then show "rd_inv st' \<and> rd_limits st' = rd_limits st"
      using rd_decode_body_inv [OF _ _ body(1) _ body(2)] assms(1) by (simp add: rd_ready_def)
  next
    case (headers p)
    then show "rd_inv st' \<and> rd_limits st' = rd_limits st" by blast
  qed simp_all
  with head assms(1) show ?thesis by (simp add: rd_ready_def)
qed

interpretation rd_conn: message_stream "rd_decode_run D" rd_app rd_ready "rd_pump D" is_ok rd_unread for D
proof
  fix s s' :: "'a RequestDecoder" and r
  show "rd_pump D s =
     (case rd_decode_run D s of
        (None, s') \<Rightarrow> ([], False, s')
      | (Some r, s') \<Rightarrow> if is_ok r then (case rd_pump D s' of (rs, b, t) \<Rightarrow> (r # rs, b, t)) else ([r], True, s'))"
    by (simp add: rd_pump.simps [of D s] rd_decode_run_def split: prod.split result.split option.split)
  assume r: "rd_decode_run D s = (Some r, s')" "is_ok r"
  then obtain q where q: "rd_decode D s = (Ok (Some q), s')"
    by (cases r) (auto simp: rd_decode_run_def split: prod.splits if_splits)
  show "rd_unread s' < rd_unread s" by (rule rd_decode_less [OF q])
  show "rd_ready s \<Longrightarrow> rd_ready s'" by (rule rd_decode_ready [OF _ q])
qed

lemma rd_feed_unchecked_app: "rd_feed_unchecked = rd_app"
  by (intro ext) (simp add: rd_feed_unchecked_def feed_unchecked_def rd_app_def)

lemma rd_ready_init: "max_body_size l \<le> usize_max \<Longrightarrow> rd_ready (rd_with_decompressor_and_limits d l)"
  by (simp add: rd_ready_def rd_inv_def rd_with_decompressor_and_limits_def idle_body_inv)

section \<open>The body limit\<close>

lemma rd_decode_headers_idle:
  "rd_decode_headers D st = (Ok (Some x), st') \<Longrightarrow> rd_inv st \<Longrightarrow> idle_body (rd_body_decoder st')"
proof (induction D st rule: rd_decode_headers.induct)
  case (1 D st)
  show ?case
  proof (cases "rd_step D st")
    case (Next s)
    with 1 rd_step_inv(1) [OF "1.prems"(2) Next] show ?thesis by (simp add: rd_decode_headers.simps [of D st])
  next
    case (Done r s)
    with "1.prems"(1) have s: "s = st'" and r: "r = Ok x" by (auto simp: rd_decode_headers.simps [of D st] result_iff)
    have h: "rd_phase st = Headers \<and> find_line (rd_buf st) = Some 0"
      using Done r by (auto simp: rd_step_def rd_start_line_step_def rd_header_line_step_def Let_def
          split: DecodePhase.splits option.splits if_splits result.splits prod.splits)
    then have e: "rd_end_of_headers st = (Ok x, st')" using Done r s by (simp add: rd_step_def split: prod.splits)
    obtain line where l: "rd_start_line st = Some line" "check_request_line line = Ok ()"
      and idle: "idle_body (rd_body_decoder st)" using "1.prems"(2) h by (auto simp: rd_inv_def)
    show ?thesis by (cases rule: rd_end_of_headers_ok [OF l]) (use e idle in auto)
  next
    case Wait
    with 1 show ?thesis by (simp add: rd_decode_headers.simps [of D st])
  qed
qed

text \<open>The body collected so far is what the body decoder has counted.\<close>

definition rd_counted :: "'d RequestDecoder \<Rightarrow> bool" where
  "rd_counted st \<longleftrightarrow>
     (if rd_decoded_head st = None then rd_decoded_body st = []
      else length (rd_decoded_body st) = body_consumed (rd_body_decoder st))"

definition body_within :: "nat \<Rightarrow> Request \<Rightarrow> bool" where
  "body_within n q \<longleftrightarrow> (case rq_body q of Some b \<Rightarrow> length b \<le> n | None \<Rightarrow> True)"

lemma rd_build_request_counted:
  assumes "rd_build_request D bk st = (Ok x, st')" "rd_inv st" "length (rd_decoded_body st) = body_consumed (rd_body_decoder st)"
  shows "rd_counted st' \<and> (\<forall>q. x = Some q \<longrightarrow> body_within (max_body_size (rd_limits st)) q)"
proof -
  have "body_consumed (rd_body_decoder st) \<le> max_body_size (rd_limits st)"
    using assms(2) by (simp add: rd_inv_def body_inv_def)
  with assms(1,3) show ?thesis
    by (auto simp: rd_build_request_def Let_def rd_counted_def body_within_def rq_from_raw_parts_def
        split: option.splits BodyKind.splits)
qed

lemma rd_decode_body_counted:
  assumes "rd_decode_body D st = (Ok x, st')" "rd_ready st" "rd_decoded_head st \<noteq> None" "rd_counted st"
  shows "rd_counted st' \<and> (\<forall>q. x = Some q \<longrightarrow> body_within (max_body_size (rd_limits st)) q)"
proof -
  have i: "rd_inv st" "max_body_size (rd_limits st) \<le> usize_max" using assms(2) by (simp_all add: rd_ready_def)
  have c: "length (rd_decoded_body st) = body_consumed (rd_body_decoder st)" using assms(3,4) by (simp add: rd_counted_def)
  obtain bk where bk: "rd_decoded_body_kind st = Some bk" using assms(2,3) by (auto simp: rd_ready_def)
  show ?thesis
  proof (cases "bk = BodyTunnel \<or> bk = CloseDelimited \<or> bk = BodyNone")
    case True
    then have "rd_build_request D bk st = (Ok x, st')" using assms(1) bk by (auto simp: rd_decode_body_def)
    then show ?thesis using rd_build_request_counted i(1) c by blast
  next
    case False
    obtain q s where l: "rd_body_loop st = (q, s)" by (cases "rd_body_loop st") auto
    then obtain bd buf ph body where
      b: "body_loop (rd_limits st) (rd_body_decoder st) (rd_buf st) (rd_phase st) (rd_decoded_body st) = (q, bd, buf, ph, body)"
      and s: "s = st\<lparr>rd_body_decoder := bd, rd_buf := buf, rd_phase := ph, rd_decoded_body := body\<rparr>"
      by (auto simp: rd_body_loop_def split: prod.splits)
    have bi: "body_inv (rd_limits st) (rd_body_decoder st) (rd_phase st)" using i(1) by (simp add: rd_inv_def)
    have cs: "is_ok q \<Longrightarrow> length (rd_decoded_body s) = body_consumed (rd_body_decoder s)"
      using body_loop_keeps [OF b bi i(2)] c by (auto simp: loop_keeps_def s)
    have inv: "rd_inv s" using rd_body_loop_inv [OF i l] by blast
    have d: "q = Ok True \<and> rd_build_request D bk s = (Ok x, st') \<or> q = Ok False \<and> x = None \<and> st' = s"
      using assms(1) bk False l by (auto simp: rd_decode_body_def split: result.splits bool.splits)
    then show ?thesis
    proof
      assume "q = Ok True \<and> rd_build_request D bk s = (Ok x, st')"
      with rd_build_request_counted [of D bk s x st'] inv cs show ?thesis by (simp add: s)
    next
      assume "q = Ok False \<and> x = None \<and> st' = s"
      with cs assms(3) show ?thesis by (auto simp: rd_counted_def s)
    qed
  qed
qed

lemma rd_decode_counted:
  assumes "rd_decode D st = (Ok x, st')" "rd_ready st" "rd_counted st"
  shows "rd_counted st' \<and> (\<forall>q. x = Some q \<longrightarrow> body_within (max_body_size (rd_limits st)) q)"
  using assms(1)
proof (cases rule: rd_decode_cases)
  case (headers q)
  with rd_decode_headers_keeps [OF headers(1)] assms(3) show ?thesis
    by (cases x) (auto simp: rd_counted_def rd_keeps_def)
next
  case (both hd bk s)
  let ?s = "s\<lparr>rd_decoded_head := Some hd, rd_decoded_body_kind := Some bk\<rparr>"
  have i: "rd_inv st" using assms(2) by (simp add: rd_ready_def)
  have k: "rd_decoded_body s = []" "rd_limits s = rd_limits st"
    using rd_decode_headers_keeps [OF both(2)] assms(3) both(1) by (auto simp: rd_counted_def rd_keeps_def)
  have "rd_counted ?s" using rd_decode_headers_idle [OF both(2) i] k by (simp add: rd_counted_def idle_body_def)
  with rd_decode_body_counted [OF both(3) rd_head_ready [OF assms(2) both(2)]] k show ?thesis by simp
next
  case body
  with rd_decode_body_counted [OF body(2) assms(2)] assms(3) show ?thesis by simp
qed simp

lemma rd_decode_ready_any:
  "rd_ready st \<Longrightarrow> rd_decode D st = (Ok x, st') \<Longrightarrow> rd_ready st'"
  using rd_decode_waits_ready rd_decode_ready by (cases x) blast+

lemma rd_decode_limits:
  assumes "rd_ready st" "rd_decode D st = (Ok x, st')"
  shows "rd_limits st' = rd_limits st"
  using assms(2)
proof (cases rule: rd_decode_cases)
  case (headers q)
  with rd_decode_headers_keeps [OF headers(1)] show ?thesis by (simp add: rd_keeps_def)
next
  case (both hd bk s)
  let ?s = "s\<lparr>rd_decoded_head := Some hd, rd_decoded_body_kind := Some bk\<rparr>"
  have "rd_ready ?s" by (rule rd_head_ready [OF assms(1) both(2)])
  then have "rd_limits st' = rd_limits ?s"
    using rd_decode_body_inv [OF _ _ _ _ both(3)] by (simp add: rd_ready_def rd_inv_def)
  with rd_decode_headers_keeps [OF both(2)] show ?thesis by (simp add: rd_keeps_def)
next
  case body
  have "rd_headers st = []" using assms(1) body(1) by (simp add: rd_ready_def rd_inv_def)
  with rd_decode_body_inv [OF _ _ body(1) _ body(2)] assms(1) show ?thesis by (simp add: rd_ready_def)
qed simp

lemma rd_pump_within:
  "rd_pump D st = (rs, b, t) \<Longrightarrow> rd_ready st \<Longrightarrow> rd_counted st \<Longrightarrow> Ok (Some q) \<in> set rs \<Longrightarrow>
     body_within (max_body_size (rd_limits st)) q"
proof (induction D st arbitrary: rs rule: rd_pump.induct)
  case (1 D st)
  obtain r st' where d: "rd_decode D st = (r, st')" by (cases "rd_decode D st") auto
  show ?case
  proof (cases "\<exists>q'. r = Ok (Some q')")
    case True
    then obtain q' where q': "r = Ok (Some q')" by blast
    with d have d': "rd_decode D st = (Ok (Some q'), st')" by simp
    obtain rs' where rs': "rd_pump D st' = (rs', b, t)" "rs = r # rs'"
      using "1.prems"(1) d q' by (auto simp: rd_pump.simps [of D st] split: prod.splits)
    have "rd_ready st'" "rd_limits st' = rd_limits st" using rd_decode_ready_any rd_decode_limits "1.prems"(2) d' by blast+
    with "1.IH" [OF d [symmetric] q' refl rs'(1)] rd_decode_counted [OF d' "1.prems"(2,3)] rs'(2) q' "1.prems"(4)
    show ?thesis by auto
  next
    case False
    with "1.prems"(1,4) d have "Ok (Some q) \<in> {r}"
      by (cases r) (auto simp: rd_pump.simps [of D st] split: option.splits)
    with False show ?thesis by auto
  qed
qed

end
