(* ===== verification/Encoder.thy ===== *)
theory Encoder
  imports Messages Request_Target Compression
begin

text \<open>
  \<^verbatim>\<open>src/encoder.rs\<close>: the encoders of requests, responses and chunks. A \<open>Vec<u8>\<close> is its
  contents; its capacity matters only to the allocator and is the subject of
  \<open>estimate_request_capacity\<close> and its companions, which are modelled apart from the output.
  The fixed arrays the number writers fill from the back are modelled with their index, which
  panics below zero.
\<close>

definition is_valid_version_for_encode :: "string \<Rightarrow> bool" where
  "is_valid_version_for_encode version \<longleftrightarrow> version \<noteq> [] \<and> list_all (\<lambda>b. 0x21 \<le> u8 b \<and> u8 b \<le> 0x7E) version"

section \<open>Numbers\<close>

definition hex_nibble :: "nat \<Rightarrow> char" where
  "hex_nibble nibble = char_of (if nibble < 10 then 0x30 + nibble else 0x61 + nibble - 10)"

text \<open>\<open>remaining & 0xF\<close> and \<open>remaining >>= 4\<close> on an unsigned number.\<close>

function write_hex_loop :: "string \<Rightarrow> nat \<Rightarrow> nat \<Rightarrow> (string \<times> nat, 'e) result" where
  "write_hex_loop tmp i remaining =
     (if remaining = 0 then Ok (tmp, i)
      else if i = 0 then Panic
      else write_hex_loop (tmp[i - 1 := hex_nibble (remaining mod 16)]) (i - 1) (remaining div 16))"
  by pat_completeness auto
termination by (relation "measure (\<lambda>(_, _, r). r)") auto

definition write_hex_usize :: "string \<Rightarrow> nat \<Rightarrow> (string, 'e) result" where
  "write_hex_usize buf n =
     (if n = 0 then Ok (buf @ ''0'')
      else and_then (write_hex_loop (replicate 16 (CHR 0x00)) 16 n) (\<lambda>(tmp, i). Ok (buf @ drop i tmp)))"

function write_decimal_loop :: "string \<Rightarrow> nat \<Rightarrow> nat \<Rightarrow> (string \<times> nat, 'e) result" where
  "write_decimal_loop tmp i remaining =
     (if remaining = 0 then Ok (tmp, i)
      else if i = 0 then Panic
      else write_decimal_loop (tmp[i - 1 := char_of (0x30 + remaining mod 10)]) (i - 1) (remaining div 10))"
  by pat_completeness auto
termination by (relation "measure (\<lambda>(_, _, r). r)") auto

definition write_usize_decimal :: "string \<Rightarrow> nat \<Rightarrow> (string, 'e) result" where
  "write_usize_decimal buf n =
     (if n = 0 then Ok (buf @ ''0'')
      else and_then (write_decimal_loop (replicate 20 (CHR 0x00)) 20 n) (\<lambda>(tmp, i). Ok (buf @ drop i tmp)))"

declare write_hex_loop.simps [simp del] write_decimal_loop.simps [simp del]

section \<open>Capacity\<close>

definition ENCODE_CAPACITY_LIMIT :: nat where
  "ENCODE_CAPACITY_LIMIT = 64 * 1024 * 1024"

definition AUTO_CONTENT_LENGTH_CAPACITY :: nat where
  "AUTO_CONTENT_LENGTH_CAPACITY = 38"

definition should_auto_emit_content_length_for_request :: "Request \<Rightarrow> bool" where
  "should_auto_emit_content_length_for_request r \<longleftrightarrow>
     rq_body r \<noteq> None \<and> \<not> has_header (rq_headers r) ''Content-Length'' \<and> \<not> has_header (rq_headers r) ''Transfer-Encoding''"

definition response_status_has_body :: "nat \<Rightarrow> bool" where
  "response_status_has_body status \<longleftrightarrow> \<not> ((100 \<le> status \<and> status < 200) \<or> status = 204 \<or> status = 304)"

definition should_auto_emit_content_length_for_response :: "Response \<Rightarrow> bool" where
  "should_auto_emit_content_length_for_response r \<longleftrightarrow>
     response_status_has_body (rs_status_code r) \<and> \<not> has_header (rs_headers r) ''Content-Length''
     \<and> \<not> has_header (rs_headers r) ''Transfer-Encoding''
     \<and> (case map_option length (rs_body r) of
          None \<Rightarrow> False
        | Some n \<Rightarrow> \<not> (rs_omit_body r \<and> n = 0))"

text \<open>\<open>total = total.checked_add(n)?\<close> for each \<open>n\<close> of a list.\<close>

fun checked_sum :: "nat \<Rightarrow> nat list \<Rightarrow> nat option" where
  "checked_sum acc [] = Some acc"
| "checked_sum acc (n # ns) = (case checked_add acc n of None \<Rightarrow> None | Some t \<Rightarrow> checked_sum t ns)"

definition header_sizes :: "header list \<Rightarrow> nat list" where
  "header_sizes hs = concat (map (\<lambda>(name, v). [length name, length v, 4]) hs)"

definition estimate_request_capacity :: "Request \<Rightarrow> nat option" where
  "estimate_request_capacity r =
     checked_sum 0
       ([length (rq_method r), length (rq_uri r), length (rq_version r), 4] @ header_sizes (rq_headers r)
        @ (if should_auto_emit_content_length_for_request r then [AUTO_CONTENT_LENGTH_CAPACITY] else [])
        @ [2] @ (case rq_body r of Some body \<Rightarrow> [length body] | None \<Rightarrow> []))"

definition body_will_be_encoded :: "Response \<Rightarrow> bool" where
  "body_will_be_encoded r \<longleftrightarrow> response_status_has_body (rs_status_code r) \<and> \<not> rs_omit_body r"

definition estimate_response_capacity :: "Response \<Rightarrow> nat option" where
  "estimate_response_capacity r =
     checked_sum 0
       ([length (rs_version r), 3, length (rs_reason_phrase r), 4] @ header_sizes (rs_headers r)
        @ (if should_auto_emit_content_length_for_response r then [AUTO_CONTENT_LENGTH_CAPACITY] else [])
        @ [2] @ (if body_will_be_encoded r then (case rs_body r of Some body \<Rightarrow> [length body] | None \<Rightarrow> []) else []))"

text \<open>The capacity of the buffer; its contents are empty.\<close>

definition allocate_encode_buffer :: "nat option \<Rightarrow> nat" where
  "allocate_encode_buffer estimated =
     (case estimated of Some c \<Rightarrow> if c \<le> ENCODE_CAPACITY_LIMIT then c else 0 | None \<Rightarrow> 0)"

section \<open>Validation\<close>

definition looks_like_authority_form :: "string \<Rightarrow> bool" where
  "looks_like_authority_form uri \<longleftrightarrow> CHR ''@'' \<notin> set uri \<and>
     (case rfind_char (CHR '':'') uri of
        Some colon_pos \<Rightarrow>
          let port_str = drop (colon_pos + 1) uri; h = take colon_pos uri
          in port_str \<noteq> [] \<and> list_all is_ascii_digit port_str \<and> parse_u16 port_str \<noteq> None \<and> h \<noteq> []
      | None \<Rightarrow> False)"

definition detect_request_target_form :: "string \<Rightarrow> (RequestTargetForm, EncodeError) result" where
  "detect_request_target_form uri =
     (if uri = ''*'' then Ok Asterisk
      else if contains_sub uri ''://'' then Ok Absolute
      else if starts_with uri ''/'' then Ok Origin
      else if looks_like_authority_form uri then Ok Authority
      else if detect_scheme uri \<noteq> None then Ok Absolute
      else Err (InvalidRequestTarget uri))"

definition validate_encoder_authority_form :: "string \<Rightarrow> (unit, EncodeError) result" where
  "validate_encoder_authority_form uri =
     (case rfind_char (CHR '':'') uri of
        Some colon_pos \<Rightarrow> and_then (map_err (\<lambda>_. InvalidRequestTarget uri) (Host_parse (take colon_pos uri))) (\<lambda>_. Ok ())
      | None \<Rightarrow> Ok ())"

definition reject_http_without_authority_prefix :: "string \<Rightarrow> (unit, EncodeError) result" where
  "reject_http_without_authority_prefix uri =
     (case find_char (CHR '':'') uri of
        Some colon_pos \<Rightarrow>
          let scheme = take colon_pos uri
          in if (eq_ignore_ascii_case scheme ''http'' \<or> eq_ignore_ascii_case scheme ''https'')
                \<and> \<not> starts_with (drop colon_pos uri) ''://''
             then Err (InvalidRequestTarget uri) else Ok ()
      | None \<Rightarrow> Ok ())"

definition validate_request_target_form :: "string \<Rightarrow> string \<Rightarrow> (unit, EncodeError) result" where
  "validate_request_target_form m uri =
     and_then (detect_request_target_form uri) (\<lambda>form.
       if m = ''CONNECT'' then
         (if form = Authority then validate_encoder_authority_form uri else Err (InvalidRequestTargetForm m uri))
       else
         case form of
           Asterisk \<Rightarrow> if m = ''OPTIONS'' then Ok () else Err (InvalidRequestTargetForm m uri)
         | Authority \<Rightarrow> Err (InvalidRequestTargetForm m uri)
         | Origin \<Rightarrow> if list_ex (\<lambda>b. b = CHR ''['' \<or> b = CHR '']'') uri then Err (InvalidRequestTarget uri) else Ok ()
         | Absolute \<Rightarrow> reject_http_without_authority_prefix uri)"

fun validate_headers :: "header list \<Rightarrow> (unit, EncodeError) result" where
  "validate_headers [] = Ok ()"
| "validate_headers ((name, v) # hs) =
     reject_if (\<not> is_valid_header_name name) (InvalidHeaderName name)
      (reject_if (\<not> is_valid_field_value v) (InvalidHeaderValue name v) (validate_headers hs))"

definition validate_request_fields :: "Request \<Rightarrow> (unit, EncodeError) result" where
  "validate_request_fields r =
     reject_if (\<not> is_valid_method (rq_method r)) (InvalidMethod (rq_method r))
      (reject_if (\<not> is_valid_request_target (rq_uri r)) (InvalidRequestTarget (rq_uri r))
       (reject_if (list_ex (\<lambda>b. u8 b > 0x7E) (rq_uri r)) (InvalidRequestTarget (rq_uri r))
        (and_then (validate_request_target_form (rq_method r) (rq_uri r)) (\<lambda>_.
         reject_if (\<not> is_valid_version_for_encode (rq_version r)) (InvalidVersion (rq_version r))
          (validate_headers (rq_headers r))))))"

definition validate_response_fields :: "Response \<Rightarrow> (unit, EncodeError) result" where
  "validate_response_fields r =
     reject_if (\<not> is_valid_version_for_encode (rs_version r)) (InvalidVersion (rs_version r))
      (reject_if (\<not> is_valid_status_code (rs_status_code r)) (InvalidStatusCode (rs_status_code r))
       (reject_if (rs_reason_phrase r \<noteq> [] \<and> \<not> is_valid_reason_phrase (rs_reason_phrase r))
          (InvalidReasonPhrase (rs_reason_phrase r))
        (validate_headers (rs_headers r))))"

text \<open>What follows \<open>"://"\<close> up to the first slash or question mark.\<close>

definition authority_of_uri :: "string \<Rightarrow> string option" where
  "authority_of_uri uri =
     (case find_sub ''://'' uri of
        None \<Rightarrow> None
      | Some i \<Rightarrow>
          let after_scheme = drop (i + 3) uri;
              e = (case position (\<lambda>b. b = CHR ''/'' \<or> b = CHR ''?'') after_scheme of
                     Some k \<Rightarrow> k | None \<Rightarrow> length after_scheme)
          in Some (take e after_scheme))"

text \<open>The part of an authority behind the last at sign.\<close>

definition strip_userinfo :: "string \<Rightarrow> string" where
  "strip_userinfo authority =
     (case rfind_char (CHR ''@'') authority of Some at_pos \<Rightarrow> drop (at_pos + 1) authority | None \<Rightarrow> authority)"

definition extract_authority_from_uri :: "string \<Rightarrow> string option" where
  "extract_authority_from_uri uri = map_option strip_userinfo (authority_of_uri uri)"

definition is_http_uri :: "string \<Rightarrow> bool" where
  "is_http_uri uri \<longleftrightarrow>
     (let lower = to_ascii_lowercase uri in starts_with lower ''http://'' \<or> starts_with lower ''https://'')"

definition reject_http_userinfo :: "string \<Rightarrow> (unit, EncodeError) result" where
  "reject_http_userinfo uri =
     (if \<not> is_http_uri uri then Ok ()
      else case authority_of_uri uri of
             None \<Rightarrow> Ok ()
           | Some authority \<Rightarrow> if CHR ''@'' \<in> set authority then Err (UserinfoInHttpUri uri) else Ok ())"

definition reject_http_empty_host :: "string \<Rightarrow> (unit, EncodeError) result" where
  "reject_http_empty_host uri =
     (if \<not> is_http_uri uri then Ok ()
      else case authority_of_uri uri of
             None \<Rightarrow> Ok ()
           | Some authority \<Rightarrow>
               let host_port = strip_userinfo authority
               in if host_port = [] \<or> starts_with host_port '':'' then Err (EmptyHostInHttpUri uri) else Ok ())"

text \<open>The three comparisons of \<open>validate_host_header\<close> with the single Host value.\<close>

definition host_matches_absolute :: "Request \<Rightarrow> string \<Rightarrow> (unit, EncodeError) result" where
  "host_matches_absolute r host_value =
     (if contains_sub (rq_uri r) ''://'' then
        (case extract_authority_from_uri (rq_uri r) of
           Some authority \<Rightarrow>
             if authority \<noteq> [] \<and> \<not> eq_ignore_ascii_case authority host_value
             then Err (HostAuthorityMismatch host_value authority) else Ok ()
         | None \<Rightarrow> Ok ())
      else Ok ())"

definition host_matches_connect :: "Request \<Rightarrow> string \<Rightarrow> (unit, EncodeError) result" where
  "host_matches_connect r host_value =
     (if rq_method r = ''CONNECT'' then
        (case rfind_char (CHR '':'') (rq_uri r) of
           None \<Rightarrow> Ok ()
         | Some colon_pos \<Rightarrow>
             let target_host = take colon_pos (rq_uri r); target_port_str = drop (colon_pos + 1) (rq_uri r)
             in if host_value = [] then Err (HostAuthorityMismatch host_value (rq_uri r))
                else
                  (case Host_parse host_value of
                     Ok parsed_host \<Rightarrow>
                       if \<not> eq_ignore_ascii_case (host parsed_host) target_host
                       then Err (HostAuthorityMismatch host_value (rq_uri r))
                       else
                         (case (port parsed_host, parse_u16 target_port_str) of
                            (Some host_port, Some target_port) \<Rightarrow>
                              if host_port \<noteq> target_port then Err (HostAuthorityMismatch host_value (rq_uri r)) else Ok ()
                          | _ \<Rightarrow> Ok ())
                   | _ \<Rightarrow> Ok ()))
      else Ok ())"

definition host_empty_without_authority :: "Request \<Rightarrow> string \<Rightarrow> (unit, EncodeError) result" where
  "host_empty_without_authority r host_value =
     (if detect_request_target_form (rq_uri r) = Ok Absolute \<and> \<not> contains_sub (rq_uri r) ''://'' \<and> host_value \<noteq> []
      then Err (NonEmptyHostWithoutAuthority host_value (rq_uri r)) else Ok ())"

definition validate_host_header :: "Request \<Rightarrow> (unit, EncodeError) result" where
  "validate_host_header r =
     (if rq_version r \<noteq> ''HTTP/1.1'' then Ok ()
      else
        case map snd (filter (\<lambda>h. eq_ignore_ascii_case (fst h) ''Host'') (rq_headers r)) of
          [] \<Rightarrow> Err MissingHostHeader
        | _ # _ # _ \<Rightarrow> Err DuplicateHostHeader
        | [host_value] \<Rightarrow>
            reject_if (host_value \<noteq> [] \<and> \<not> is_ok (Host_parse host_value)) (InvalidHostHeader host_value)
             (and_then (host_matches_absolute r host_value) (\<lambda>_.
              and_then (host_matches_connect r host_value) (\<lambda>_.
                host_empty_without_authority r host_value))))"

fun content_length_header_loop :: "header list \<Rightarrow> nat option \<Rightarrow> (nat option, EncodeError) result" where
  "content_length_header_loop [] res = Ok res"
| "content_length_header_loop ((name, v) # hs) res =
     (if \<not> eq_ignore_ascii_case name ''Content-Length'' then content_length_header_loop hs res
      else
        let trimmed = trim_ows v
        in reject_if (trimmed = [] \<or> \<not> list_all is_ascii_digit trimmed) (InvalidContentLengthValue v)
            (and_then (ok_or (parse_u64 trimmed) (InvalidContentLengthValue v)) (\<lambda>parsed.
              case res of
                None \<Rightarrow> content_length_header_loop hs (Some parsed)
              | Some prev \<Rightarrow> if prev \<noteq> parsed then Err DuplicateContentLength else content_length_header_loop hs res)))"

definition validate_content_length_headers :: "header list \<Rightarrow> (nat option, EncodeError) result" where
  "validate_content_length_headers hs = content_length_header_loop hs None"

section \<open>Requests and responses\<close>

definition header_line :: "header \<Rightarrow> string" where
  "header_line h = fst h @ '': '' @ snd h @ CRLF"

definition header_lines :: "header list \<Rightarrow> string" where
  "header_lines hs = concat (map header_line hs)"

text \<open>\<open>body_bytes().map(len).unwrap_or(0)\<close>.\<close>

definition body_len :: "string option \<Rightarrow> nat" where
  "body_len b = (case b of Some x \<Rightarrow> length x | None \<Rightarrow> 0)"

definition match_content_length :: "header list \<Rightarrow> nat \<Rightarrow> bool \<Rightarrow> (unit, EncodeError) result" where
  "match_content_length hs body_length should_validate =
     and_then (validate_content_length_headers hs) (\<lambda>res.
       case res of
         Some header_value \<Rightarrow>
           if should_validate \<and> header_value \<noteq> body_length
           then Err (ContentLengthMismatch header_value body_length) else Ok ()
       | None \<Rightarrow> Ok ())"

definition request_line :: "Request \<Rightarrow> string" where
  "request_line r = rq_method r @ [SP] @ rq_uri r @ [SP] @ rq_version r @ CRLF"

text \<open>The checks \<open>encode_request\<close> and \<open>encode_request_headers\<close> begin with.\<close>

definition request_checks :: "Request \<Rightarrow> (unit, EncodeError) result" where
  "request_checks r =
     and_then (validate_request_fields r) (\<lambda>_.
     and_then (reject_http_userinfo (rq_uri r)) (\<lambda>_.
     and_then (reject_http_empty_host (rq_uri r)) (\<lambda>_.
     and_then (validate_host_header r) (\<lambda>_.
       reject_if (has_header (rq_headers r) ''Transfer-Encoding'' \<and> has_header (rq_headers r) ''Content-Length'')
         ConflictingTransferEncodingAndContentLength (Ok ())))))"

definition encode_request :: "Request \<Rightarrow> (string, EncodeError) result" where
  "encode_request r =
     and_then (request_checks r) (\<lambda>_.
     and_then (if \<not> has_header (rq_headers r) ''Transfer-Encoding''
               then match_content_length (rq_headers r) (body_len (rq_body r)) True else Ok ()) (\<lambda>_.
       let buf = request_line r @ header_lines (rq_headers r)
       in and_then
            (if should_auto_emit_content_length_for_request r
             then and_then (write_usize_decimal (buf @ ''Content-Length: '') (body_len (rq_body r))) (\<lambda>b. Ok (b @ CRLF))
             else Ok buf) (\<lambda>buf1.
          Ok (buf1 @ CRLF @ (case rq_body r of Some body \<Rightarrow> body | None \<Rightarrow> [])))))"

definition encode_request_headers :: "Request \<Rightarrow> (string, EncodeError) result" where
  "encode_request_headers r =
     and_then (request_checks r) (\<lambda>_.
     and_then (if rq_method r \<noteq> ''CONNECT'' \<and> \<not> has_header (rq_headers r) ''Transfer-Encoding''
               then match_content_length (rq_headers r) (body_len (rq_body r)) True else Ok ()) (\<lambda>_.
       Ok (request_line r @ header_lines (rq_headers r) @ CRLF)))"

text \<open>The checks \<open>encode_response\<close> and \<open>encode_response_headers\<close> begin with.\<close>

definition response_checks :: "Response \<Rightarrow> (unit, EncodeError) result" where
  "response_checks r =
     (let is_1xx_or_204 = ((100 \<le> rs_status_code r \<and> rs_status_code r < 200) \<or> rs_status_code r = 204)
      in and_then (validate_response_fields r) (\<lambda>_.
         reject_if (has_header (rs_headers r) ''Transfer-Encoding'' \<and> has_header (rs_headers r) ''Content-Length'')
           ConflictingTransferEncodingAndContentLength
          (reject_if (is_1xx_or_204 \<and> has_header (rs_headers r) ''Transfer-Encoding'')
             (ForbiddenTransferEncoding (rs_status_code r))
            (reject_if (is_1xx_or_204 \<and> has_header (rs_headers r) ''Content-Length'')
               (ForbiddenContentLength (rs_status_code r)) (Ok ())))))"

definition checks_205_headers :: "Response \<Rightarrow> (unit, EncodeError) result" where
  "checks_205_headers r =
     reject_if (rs_status_code r = 205 \<and> has_header (rs_headers r) ''Transfer-Encoding'') (ForbiddenTransferEncoding 205)
      (reject_if (rs_status_code r = 205
                   \<and> (case get_header (rs_headers r) ''Content-Length'' of Some cl \<Rightarrow> trim_ows cl \<noteq> ''0'' | None \<Rightarrow> False))
         (ForbiddenContentLength 205) (Ok ()))"

definition write_status_line :: "Response \<Rightarrow> (string, EncodeError) result" where
  "write_status_line r =
     and_then (write_usize_decimal (rs_version r @ [SP]) (rs_status_code r)) (\<lambda>b.
       Ok (b @ [SP] @ rs_reason_phrase r @ CRLF))"

definition encode_response :: "Response \<Rightarrow> (string, EncodeError) result" where
  "encode_response r =
     and_then (response_checks r) (\<lambda>_.
     and_then (reject_if (rs_status_code r = 205 \<and> (case rs_body r of Some b \<Rightarrow> b \<noteq> [] | None \<Rightarrow> False))
                 ForbiddenBodyFor205 (Ok ())) (\<lambda>_.
     and_then (checks_205_headers r) (\<lambda>_.
     and_then (if response_status_has_body (rs_status_code r) \<and> \<not> has_header (rs_headers r) ''Transfer-Encoding''
               then match_content_length (rs_headers r) (body_len (rs_body r))
                      (body_will_be_encoded r \<or> body_len (rs_body r) \<noteq> 0)
               else Ok ()) (\<lambda>_.
     and_then (write_status_line r) (\<lambda>line.
       let buf = line @ header_lines (rs_headers r)
       in and_then
            (if should_auto_emit_content_length_for_response r
             then and_then (write_usize_decimal (buf @ ''Content-Length: '') (body_len (rs_body r))) (\<lambda>b. Ok (b @ CRLF))
             else Ok buf) (\<lambda>buf1.
          Ok (buf1 @ CRLF @ (if body_will_be_encoded r then (case rs_body r of Some body \<Rightarrow> body | None \<Rightarrow> []) else []))))))))"

definition encode_response_headers :: "Response \<Rightarrow> (string, EncodeError) result" where
  "encode_response_headers r =
     and_then (response_checks r) (\<lambda>_.
     and_then (checks_205_headers r) (\<lambda>_.
     and_then (if response_status_has_body (rs_status_code r) \<and> \<not> has_header (rs_headers r) ''Transfer-Encoding''
               then match_content_length (rs_headers r) (body_len (rs_body r)) True else Ok ()) (\<lambda>_.
     and_then (write_status_line r) (\<lambda>line. Ok (line @ header_lines (rs_headers r) @ CRLF)))))"

section \<open>Chunks\<close>

definition encode_chunk :: "string \<Rightarrow> (string, 'e) result" where
  "encode_chunk dat =
     (if dat = [] then Ok (''0'' @ CRLF @ CRLF)
      else and_then (write_hex_usize [] (length dat)) (\<lambda>buf. Ok (buf @ CRLF @ dat @ CRLF)))"

fun encode_chunks_loop :: "string \<Rightarrow> string list \<Rightarrow> (string, 'e) result" where
  "encode_chunks_loop buf [] = Ok buf"
| "encode_chunks_loop buf (chunk # chunks) =
     and_then (write_hex_usize buf (length chunk)) (\<lambda>b. encode_chunks_loop (b @ CRLF @ chunk @ CRLF) chunks)"

definition encode_chunks :: "string list \<Rightarrow> (string, 'e) result" where
  "encode_chunks chunks = and_then (encode_chunks_loop [] chunks) (\<lambda>buf. Ok (buf @ ''0'' @ CRLF @ CRLF))"

fun encode_chunks_capacity_loop :: "nat \<Rightarrow> string list \<Rightarrow> nat option" where
  "encode_chunks_capacity_loop acc [] = checked_add acc 5"
| "encode_chunks_capacity_loop acc (chunk # chunks) =
     Option.bind (checked_add (length chunk) 20) (\<lambda>per.
     Option.bind (checked_add acc per) (\<lambda>t. encode_chunks_capacity_loop t chunks))"

definition encode_chunks_capacity :: "string list \<Rightarrow> nat option" where
  "encode_chunks_capacity chunks = encode_chunks_capacity_loop 0 chunks"

section \<open>Encoders with a compressor\<close>

record 'c ResponseEncoder =
  se_compressor :: 'c

record 'c RequestEncoder =
  re_compressor :: 'c

definition se_compress_body ::
  "'c Compressor \<Rightarrow> 'c ResponseEncoder \<Rightarrow> string \<Rightarrow> string \<Rightarrow>
     (CompressionStatus, CompressionError) result \<times> 'c ResponseEncoder \<times> string" where
  "se_compress_body C e input out =
     (case compress C (se_compressor e) input out of (r, c, out') \<Rightarrow> (r, e\<lparr>se_compressor := c\<rparr>, out'))"

definition se_finish ::
  "'c Compressor \<Rightarrow> 'c ResponseEncoder \<Rightarrow> string \<Rightarrow>
     (CompressionStatus, CompressionError) result \<times> 'c ResponseEncoder \<times> string" where
  "se_finish C e out = (case finish C (se_compressor e) out of (r, c, out') \<Rightarrow> (r, e\<lparr>se_compressor := c\<rparr>, out'))"

definition se_reset :: "'c Compressor \<Rightarrow> 'c ResponseEncoder \<Rightarrow> 'c ResponseEncoder" where
  "se_reset C e = e\<lparr>se_compressor := compressor_reset C (se_compressor e)\<rparr>"

definition re_compress_body ::
  "'c Compressor \<Rightarrow> 'c RequestEncoder \<Rightarrow> string \<Rightarrow> string \<Rightarrow>
     (CompressionStatus, CompressionError) result \<times> 'c RequestEncoder \<times> string" where
  "re_compress_body C e input out =
     (case compress C (re_compressor e) input out of (r, c, out') \<Rightarrow> (r, e\<lparr>re_compressor := c\<rparr>, out'))"

definition re_finish ::
  "'c Compressor \<Rightarrow> 'c RequestEncoder \<Rightarrow> string \<Rightarrow>
     (CompressionStatus, CompressionError) result \<times> 'c RequestEncoder \<times> string" where
  "re_finish C e out = (case finish C (re_compressor e) out of (r, c, out') \<Rightarrow> (r, e\<lparr>re_compressor := c\<rparr>, out'))"

definition re_reset :: "'c Compressor \<Rightarrow> 'c RequestEncoder \<Rightarrow> 'c RequestEncoder" where
  "re_reset C e = e\<lparr>re_compressor := compressor_reset C (re_compressor e)\<rparr>"

end
