(* ===== verification/Encoder_Correct.thy ===== *)
theory Encoder_Correct
  imports Encoder Body_Correct
begin

text \<open>
  Facts about the encoders: the number writers write what the reference conversion prints and
  their fixed arrays are large enough, the capacity estimates bound the output, nothing panics,
  and chunks are framed the way the body decoder reads them.
\<close>

section \<open>The number writers\<close>

locale digit_writer =
  fixes loop :: "string \<Rightarrow> nat \<Rightarrow> nat \<Rightarrow> (string \<times> nat, 'e) result"
    and base :: nat and digit :: "nat \<Rightarrow> char"
  assumes loop_eq: "loop tmp i r =
     (if r = 0 then Ok (tmp, i) else if i = 0 then Panic else loop (tmp[i - 1 := digit (r mod base)]) (i - 1) (r div base))"
    and base: "2 \<le> base"
    and digit: "d < base \<Longrightarrow> digit d = digit_char d"
begin

lemma loop_digits:
  "0 < r \<Longrightarrow> r < base ^ i \<Longrightarrow> i \<le> length tmp \<Longrightarrow>
     \<exists>tmp' j. loop tmp i r = Ok (tmp', j) \<and> drop j tmp' = to_base base r @ drop i tmp"
proof (induction r arbitrary: tmp i rule: less_induct)
  case (less r)
  then obtain k where i: "i = Suc k" by (cases i) auto
  let ?tmp = "tmp[k := digit (r mod base)]"
  have d: "digit (r mod base) = digit_char (r mod base)" using base by (intro digit) simp
  have dr: "drop k ?tmp = digit_char (r mod base) # drop i tmp"
    using less.prems(3) d by (simp add: i Cons_nth_drop_Suc [symmetric])
  have step: "loop tmp i r = loop ?tmp k (r div base)" using less.prems(1) loop_eq [of tmp i r] by (simp add: i)
  show ?case
  proof (cases "r < base")
    case True
    then have "loop tmp i r = Ok (?tmp, k)" using step loop_eq [of ?tmp k 0] by simp
    with True dr show ?thesis by (simp add: to_base.simps)
  next
    case False
    have "r div base < base ^ k" using less.prems(2) base by (simp add: i less_mult_imp_div_less mult.commute)
    moreover have "r div base < r" "0 < r div base" using less.prems(1) False base by (auto simp: div_greater_zero_iff)
    ultimately obtain tmp' j where "loop ?tmp k (r div base) = Ok (tmp', j)"
      "drop j tmp' = to_base base (r div base) @ drop k ?tmp"
      using less.IH [of "r div base" k ?tmp] less.prems(3) i by auto
    with step dr False base show ?thesis by (simp add: to_base.simps [of base r])
  qed
qed

lemma writes:
  assumes "n < base ^ w" "0 < n"
  shows "and_then (loop (replicate w (CHR 0x00)) w n) (\<lambda>(tmp, i). Ok (buf @ drop i tmp)) = Ok (buf @ to_base base n)"
  using loop_digits [of n w "replicate w (CHR 0x00)"] assms by auto

end

interpretation hex_writer: digit_writer write_hex_loop 16 hex_nibble
  by unfold_locales (simp_all add: write_hex_loop.simps [of _ _ r for r] hex_nibble_def digit_char_def)

interpretation dec_writer: digit_writer write_decimal_loop 10 "\<lambda>d. char_of (0x30 + d)"
  by unfold_locales (simp_all add: write_decimal_loop.simps [of _ _ r for r] digit_char_def)

lemma to_base_0: "to_base b 0 = ''0''"
  by (cases b) (simp_all add: to_base.simps digit_char_def char_of_def bit_0)

lemma write_hex_usize_eq: "n \<le> usize_max \<Longrightarrow> write_hex_usize buf n = Ok (buf @ to_base 16 n)"
  using hex_writer.writes [of n 16 buf] by (auto simp: write_hex_usize_def usize_max_def to_base_0)

lemma write_usize_decimal_eq: "n \<le> usize_max \<Longrightarrow> write_usize_decimal buf n = Ok (buf @ nat_to_dec n)"
  using dec_writer.writes [of n 20 buf] by (auto simp: write_usize_decimal_def usize_max_def nat_to_dec_def to_base_0)

lemma length_to_base: "2 \<le> b \<Longrightarrow> 0 < k \<Longrightarrow> n < b ^ k \<Longrightarrow> length (to_base b n) \<le> k"
proof (induction k arbitrary: n)
  case (Suc k)
  show ?case
  proof (cases "n < b")
    case True
    then show ?thesis by (simp add: to_base.simps)
  next
    case False
    have "n div b < b ^ k" using Suc.prems by (simp add: less_mult_imp_div_less mult.commute)
    moreover have "0 < k" using False Suc.prems by (cases k) auto
    ultimately show ?thesis using Suc.IH [of "n div b"] Suc.prems False by (simp add: to_base.simps [of b n])
  qed
qed simp

lemma length_nat_to_dec: "n \<le> usize_max \<Longrightarrow> length (nat_to_dec n) \<le> 20"
  using length_to_base [of 10 20 n] by (simp add: nat_to_dec_def usize_max_def)

lemma length_status_code: "is_valid_status_code n \<Longrightarrow> length (nat_to_dec n) \<le> 3 \<and> n \<le> usize_max"
  using length_to_base [of 10 3 n] by (simp add: nat_to_dec_def is_valid_status_code_def usize_max_def)

section \<open>Capacity\<close>

lemma checked_sum_Some: "checked_sum acc ns = Some c \<Longrightarrow> c = acc + sum_list ns \<and> (ns \<noteq> [] \<longrightarrow> c \<le> usize_max)"
proof (induction ns arbitrary: acc)
  case Nil
  then show ?case by simp
next
  case (Cons n ns)
  then have "acc + n \<le> usize_max" "checked_sum (acc + n) ns = Some c"
    by (auto simp: checked_add_def split: if_splits)
  with Cons.IH [of "acc + n"] show ?case by (cases "ns = []") auto
qed

declare checked_sum.simps [simp del]

lemma header_sizes_sum: "sum_list (header_sizes hs) = length (header_lines hs)"
  by (induction hs) (auto simp: header_sizes_def header_lines_def header_line_def)

lemma estimate_request_eq:
  "estimate_request_capacity r = Some c \<Longrightarrow>
     c = length (request_line r) + length (header_lines (rq_headers r))
         + (if should_auto_emit_content_length_for_request r then 38 else 0) + 2 + body_len (rq_body r) \<and> c \<le> usize_max"
  by (auto simp: estimate_request_capacity_def request_line_def AUTO_CONTENT_LENGTH_CAPACITY_def body_len_def
      header_sizes_sum dest!: checked_sum_Some split: option.splits)

text \<open>The bytes of an encoded message: start line, the headers with the one that is added, body.\<close>

definition auto_content_length :: "bool \<Rightarrow> string option \<Rightarrow> header list" where
  "auto_content_length auto b = (if auto then [(''Content-Length'', nat_to_dec (body_len b))] else [])"

definition body_bytes :: "string option \<Rightarrow> string" where
  "body_bytes b = (case b of Some x \<Rightarrow> x | None \<Rightarrow> [])"

lemma length_body_bytes [simp]: "length (body_bytes b) = body_len b"
  by (simp add: body_bytes_def body_len_def split: option.split)

lemma header_lines_append [simp]: "header_lines (a @ b) = header_lines a @ header_lines b"
  by (simp add: header_lines_def)

lemma header_lines_auto:
  "header_lines (auto_content_length auto b) = (if auto then ''Content-Length: '' @ nat_to_dec (body_len b) @ CRLF else [])"
  by (simp add: auto_content_length_def header_lines_def header_line_def)

lemma auto_length: "body_len b \<le> usize_max \<Longrightarrow> length (header_lines (auto_content_length auto b)) \<le> (if auto then 38 else 0)"
  using length_nat_to_dec [of "body_len b"] by (simp add: header_lines_auto)

definition request_headers_sent :: "Request \<Rightarrow> header list" where
  "request_headers_sent r = rq_headers r @ auto_content_length (should_auto_emit_content_length_for_request r) (rq_body r)"

definition response_headers_sent :: "Response \<Rightarrow> header list" where
  "response_headers_sent r = rs_headers r @ auto_content_length (should_auto_emit_content_length_for_response r) (rs_body r)"

lemma encode_request_bytes:
  assumes "encode_request r = Ok out" "body_len (rq_body r) \<le> usize_max"
  shows "out = request_line r @ header_lines (request_headers_sent r) @ CRLF @ body_bytes (rq_body r)"
  using assms
  by (auto simp: encode_request_def result_iff write_usize_decimal_eq Let_def request_headers_sent_def header_lines_auto
      body_bytes_def split: if_splits)

lemma request_capacity_sufficient:
  assumes "encode_request r = Ok out" "estimate_request_capacity r = Some c"
  shows "length out \<le> c"
proof -
  note e = estimate_request_eq [OF assms(2)]
  then have b: "body_len (rq_body r) \<le> usize_max" by linarith
  show ?thesis
    using encode_request_bytes [OF assms(1) b] e auto_length [OF b, of "should_auto_emit_content_length_for_request r"]
    by (simp add: request_headers_sent_def)
qed

lemma estimate_response_eq:
  "estimate_response_capacity r = Some c \<Longrightarrow>
     c = length (rs_version r) + 3 + length (rs_reason_phrase r) + 4 + length (header_lines (rs_headers r))
         + (if should_auto_emit_content_length_for_response r then 38 else 0) + 2
         + (if body_will_be_encoded r then body_len (rs_body r) else 0)"
  by (auto simp: estimate_response_capacity_def AUTO_CONTENT_LENGTH_CAPACITY_def body_len_def
      header_sizes_sum dest!: checked_sum_Some split: option.splits)

lemma write_status_line_eq:
  "is_valid_status_code (rs_status_code r) \<Longrightarrow>
     write_status_line r = Ok (rs_version r @ [SP] @ nat_to_dec (rs_status_code r) @ [SP] @ rs_reason_phrase r @ CRLF)"
  using length_status_code [of "rs_status_code r"] by (simp add: write_status_line_def write_usize_decimal_eq)

lemma encode_response_status: "encode_response r = Ok out \<Longrightarrow> is_valid_status_code (rs_status_code r)"
  by (auto simp: encode_response_def response_checks_def validate_response_fields_def result_iff Let_def)

definition status_line_bytes :: "Response \<Rightarrow> string" where
  "status_line_bytes r = rs_version r @ [SP] @ nat_to_dec (rs_status_code r) @ [SP] @ rs_reason_phrase r @ CRLF"

lemma encode_response_bytes:
  assumes "encode_response r = Ok out" "body_len (rs_body r) \<le> usize_max"
  shows "out = status_line_bytes r @ header_lines (response_headers_sent r) @ CRLF
     @ (if body_will_be_encoded r then body_bytes (rs_body r) else [])"
proof -
  have "write_status_line r = Ok (status_line_bytes r)"
    using write_status_line_eq [OF encode_response_status [OF assms(1)]] by (simp add: status_line_bytes_def)
  with assms show ?thesis
    by (auto simp: encode_response_def result_iff write_usize_decimal_eq Let_def response_headers_sent_def header_lines_auto
        body_bytes_def split: if_splits)
qed

lemma response_capacity_sufficient:
  assumes "encode_response r = Ok out" "estimate_response_capacity r = Some c" "body_len (rs_body r) \<le> usize_max"
  shows "length out \<le> c"
  using encode_response_bytes [OF assms(1,3)] estimate_response_eq [OF assms(2)]
    auto_length [OF assms(3), of "should_auto_emit_content_length_for_response r"]
    length_status_code [OF encode_response_status [OF assms(1)]]
  by (simp add: response_headers_sent_def status_line_bytes_def)

section \<open>No panics\<close>

lemma validate_headers_not_Panic [simp]: "validate_headers hs \<noteq> Panic"
  by (induction hs rule: validate_headers.induct) (auto simp: panic_iff)

lemma validate_headers_Ok:
  "validate_headers hs = Ok u \<longleftrightarrow> list_all (\<lambda>h. is_valid_header_name (fst h) \<and> is_valid_field_value (snd h)) hs"
  by (induction hs rule: validate_headers.induct) (auto simp: result_iff)

lemma content_length_header_loop_not_Panic [simp]: "content_length_header_loop hs res \<noteq> Panic"
  by (induction hs res rule: content_length_header_loop.induct) (auto simp: panic_iff Let_def split: option.splits)

lemma match_content_length_not_Panic [simp]: "match_content_length hs n b \<noteq> Panic"
  by (auto simp: match_content_length_def validate_content_length_headers_def panic_iff split: option.splits)

lemma target_form_not_Panic [simp]:
  "detect_request_target_form uri \<noteq> Panic" "validate_request_target_form m uri \<noteq> Panic"
  by (auto simp: detect_request_target_form_def validate_request_target_form_def validate_encoder_authority_form_def
      reject_http_without_authority_prefix_def panic_iff Let_def split: option.splits RequestTargetForm.splits)

lemma validate_host_header_not_Panic [simp]: "validate_host_header r \<noteq> Panic"
  by (auto simp: validate_host_header_def host_matches_absolute_def host_matches_connect_def
      host_empty_without_authority_def panic_iff Let_def split: list.splits option.splits result.splits if_splits)

lemma request_checks_not_Panic [simp]: "request_checks r \<noteq> Panic"
  by (auto simp: request_checks_def validate_request_fields_def reject_http_userinfo_def reject_http_empty_host_def
      panic_iff Let_def split: option.splits)

lemma encode_request_not_Panic:
  "body_len (rq_body r) \<le> usize_max \<Longrightarrow> encode_request r \<noteq> Panic"
  by (auto simp: encode_request_def panic_iff Let_def write_usize_decimal_eq split: if_splits)

lemma encode_response_not_Panic:
  assumes "body_len (rs_body r) \<le> usize_max"
  shows "encode_response r \<noteq> Panic"
proof (cases "is_valid_status_code (rs_status_code r)")
  case True
  then show ?thesis
    using assms
    by (auto simp: encode_response_def response_checks_def validate_response_fields_def checks_205_headers_def
        write_status_line_eq panic_iff Let_def write_usize_decimal_eq split: if_splits)
next
  case False
  then have "\<exists>e. response_checks r = Err e"
    by (simp add: response_checks_def validate_response_fields_def reject_if_def)
  then show ?thesis by (auto simp: encode_response_def)
qed

section \<open>Chunks\<close>

lemma encode_chunk_frame:
  "dat \<noteq> [] \<Longrightarrow> length dat \<le> usize_max \<Longrightarrow> encode_chunk dat = Ok (chunk_frame dat)"
  by (simp add: encode_chunk_def write_hex_usize_eq chunk_frame_def)

lemma encode_chunks_loop_frame:
  "\<forall>c \<in> set cs. length c \<le> usize_max \<Longrightarrow> encode_chunks_loop buf cs = Ok (buf @ concat (map chunk_frame cs))"
  by (induction cs arbitrary: buf) (simp_all add: write_hex_usize_eq chunk_frame_def)

lemma encode_chunks_frame:
  "\<forall>c \<in> set cs. length c \<le> usize_max \<Longrightarrow>
     encode_chunks cs = Ok (concat (map chunk_frame cs) @ ''0'' @ CRLF @ CRLF)"
  by (simp add: encode_chunks_def encode_chunks_loop_frame)

lemma encode_chunks_capacity_Some:
  "encode_chunks_capacity_loop acc cs = Some c \<Longrightarrow>
     c = acc + length (concat cs) + 20 * length cs + 5 \<and> (\<forall>x \<in> set cs. length x \<le> usize_max)"
proof (induction cs arbitrary: acc)
  case Nil
  then show ?case by (simp add: checked_add_def split: if_splits)
next
  case (Cons x cs)
  then have "length x + 20 \<le> usize_max" "encode_chunks_capacity_loop (acc + (length x + 20)) cs = Some c"
    by (auto simp: checked_add_def split: if_splits bind_splits)
  with Cons.IH [of "acc + (length x + 20)"] show ?case by auto
qed

lemma length_chunk_frame: "length c \<le> usize_max \<Longrightarrow> length (chunk_frame c) \<le> length c + 20"
  using length_to_base [of 16 16 "length c"] by (simp add: chunk_frame_def usize_max_def)

lemma chunks_capacity_sufficient:
  assumes "encode_chunks cs = Ok out" "encode_chunks_capacity cs = Some c"
  shows "length out \<le> c"
proof -
  have c: "c = length (concat cs) + 20 * length cs + 5" "\<forall>x \<in> set cs. length x \<le> usize_max"
    using encode_chunks_capacity_Some [of 0 cs c] assms(2) by (auto simp: encode_chunks_capacity_def)
  have "length (concat (map chunk_frame cs)) \<le> length (concat cs) + 20 * length cs"
    using c(2) by (induction cs) (auto dest!: length_chunk_frame)
  moreover have "out = concat (map chunk_frame cs) @ ''0'' @ CRLF @ CRLF"
    using assms(1) encode_chunks_frame [OF c(2), where 'a = 'a] by simp
  ultimately show ?thesis using c(1) by simp
qed

section \<open>The framing headers the encoder sends\<close>

lemma digits_list_element:
  assumes "trim_ows v \<noteq> []" "list_all is_ascii_digit (trim_ows v)"
  shows "list_elements v = [trim_ows v]"
proof -
  have "\<not> is_ascii_digit (CHR '','')" "\<not> is_ows (CHR '','')" by (simp_all add: is_ascii_digit_def is_ows_def)
  moreover obtain l r where "v = l @ trim_ows v @ r" "\<forall>c \<in> set l. is_ows c" "\<forall>c \<in> set r. is_ows c"
    using trim_ows_spec [of v] by blast
  ultimately have "CHR '','' \<notin> set l \<union> set (trim_ows v) \<union> set r" using assms(2) by (auto simp: list_all_iff)
  with \<open>v = l @ trim_ows v @ r\<close> have "CHR '','' \<notin> set v" by (metis Un_assoc set_append)
  with assms(1) show ?thesis by (simp add: list_elements_single)
qed

lemma parse_content_length_digits:
  assumes "trim_ows v \<noteq> []" "list_all is_ascii_digit (trim_ows v)" "parse_u64 (trim_ows v) = Some n"
  shows "parse_content_length_value v = Ok n"
  using assms by (simp add: parse_content_length_value_iff digits_list_element cl_elem_def)

text \<open>What the encoder accepts as \<open>Content-Length\<close> headers the decoder reads as the same number.\<close>

lemma content_length_agree:
  "content_length_header_loop hs res = Ok x \<Longrightarrow> content_length_headers hs res = Ok x"
proof (induction hs res rule: content_length_header_loop.induct)
  case (1 res)
  then show ?case by simp
next
  case (2 name v hs res)
  show ?case
  proof (cases "eq_ignore_ascii_case name ''Content-Length''")
    case False
    with 2 show ?thesis by simp
  next
    case True
    with "2.prems" obtain n where n: "trim_ows v \<noteq> []" "list_all is_ascii_digit (trim_ows v)" "parse_u64 (trim_ows v) = Some n"
      by (auto simp: result_iff Let_def)
    with True "2.prems" have "(case res of None \<Rightarrow> content_length_header_loop hs (Some n)
        | Some prev \<Rightarrow> if prev \<noteq> n then Err DuplicateContentLength else content_length_header_loop hs res) = Ok x"
      by (simp add: Let_def)
    with True n "2.IH"(2,3) parse_content_length_digits [OF n] show ?thesis
      by (cases res) (auto split: if_splits)
  qed
qed

lemma has_header_values: "has_header hs n \<longleftrightarrow> header_values n hs \<noteq> []"
  by (simp add: has_header_iff get_headers_eq_values)

lemma header_values_append: "header_values n (a @ b) = header_values n a @ header_values n b"
  by (simp add: header_values_def)

lemma framing_names:
  "\<not> eq_ignore_ascii_case ''Content-Length'' ''Transfer-Encoding''" "\<not> eq_ignore_ascii_case ''Content-Length'' ''Host''"
  by (simp_all add: eq_ignore_ascii_case_def to_ascii_lowercase_def)

lemma header_values_auto:
  "header_values ''Transfer-Encoding'' (auto_content_length a b) = []"
  "header_values ''Host'' (auto_content_length a b) = []"
  "header_values ''Content-Length'' (auto_content_length a b) = (if a then [nat_to_dec (body_len b)] else [])"
  by (simp_all add: auto_content_length_def framing_names header_values_def)

lemma nat_to_dec_trim: "trim_ows (nat_to_dec n) = nat_to_dec n"
proof (rule trim_ows_no_ows)
  have "is_ascii_digit c \<Longrightarrow> \<not> is_ows c" for c by (auto simp: is_ascii_digit_def is_ows_def)
  then show "\<forall>c \<in> set (nat_to_dec n). \<not> is_ows c" using nat_to_dec_digits [of n] by (auto simp: list_all_iff)
qed

lemma cl_value_nat_to_dec: "n \<le> u64_max \<Longrightarrow> cl_value_ok n (nat_to_dec n)"
  using digits_list_element [of "nat_to_dec n"] nat_to_dec_digits [of n] nat_to_dec_neq_Nil [of n] parse_u64_nat_to_dec [of n]
  by (simp add: cl_value_ok_def nat_to_dec_trim cl_elem_def)

lemma u64_usize: "u64_max = usize_max"
  by (simp add: u64_max_def usize_max_def)

text \<open>
  The lengths that go out: when \<open>Content-Length\<close> is sent it is the length of the body, whether it
  was given or added.
\<close>

lemma sent_content_length:
  assumes "match_content_length hs (body_len b) True = Ok u" "body_len b \<le> usize_max"
    "auto \<longleftrightarrow> b \<noteq> None \<and> \<not> has_header hs ''Content-Length''"
  shows "\<exists>res. parse_content_length (hs @ auto_content_length auto b) = Ok res
    \<and> (case res of Some n \<Rightarrow> n = body_len b | None \<Rightarrow> b = None)
    \<and> (res \<noteq> None \<longleftrightarrow> has_header (hs @ auto_content_length auto b) ''Content-Length'')"
proof (cases auto)
  case True
  then have v: "header_values ''Content-Length'' (hs @ auto_content_length auto b) = [nat_to_dec (body_len b)]"
    using assms(3) by (simp add: header_values_append header_values_auto has_header_values)
  then have "parse_content_length (hs @ auto_content_length auto b) = Ok (Some (body_len b))"
    using assms(2) by (simp add: parse_content_length_iff cl_value_nat_to_dec u64_usize)
  with v show ?thesis by (simp add: has_header_values)
next
  case False
  then have a: "hs @ auto_content_length auto b = hs" by (simp add: auto_content_length_def)
  obtain res where res: "content_length_header_loop hs None = Ok res"
    "\<forall>n. res = Some n \<longrightarrow> n = body_len b"
    using assms(1) by (auto simp: match_content_length_def validate_content_length_headers_def result_iff
        split: option.splits if_splits)
  have p: "parse_content_length hs = Ok res" using content_length_agree [OF res(1)] by (simp add: parse_content_length_def)
  then have "res \<noteq> None \<longleftrightarrow> has_header hs ''Content-Length''"
    by (auto simp: parse_content_length_iff has_header_values split: if_splits)
  with a p res(2) assms(3) False show ?thesis by (auto split: option.splits)
qed

section \<open>Properties\<close>

text \<open>
  C17. The estimate that sizes the output buffer of \<open>encode_request\<close> is an upper bound of what is
  written, so encoding never reallocates; likewise for \<open>encode_chunks\<close>.
\<close>

theorem capacity_estimates_sufficient:
  "(encode_request r = Ok out \<and> estimate_request_capacity r = Some c \<longrightarrow> length out \<le> c)
   \<and> (encode_response s = Ok out \<and> estimate_response_capacity s = Some c \<and> body_len (rs_body s) \<le> usize_max \<longrightarrow> length out \<le> c)
   \<and> (encode_chunks cs = (Ok out :: (string, EncodeError) result) \<and> encode_chunks_capacity cs = Some c \<longrightarrow> length out \<le> c)"
  using request_capacity_sufficient response_capacity_sufficient chunks_capacity_sufficient by blast

theorem capacity_estimates_sufficient_witness:
  "encode_chunks [''ab''] = (Ok (''2'' @ CRLF @ ''ab'' @ CRLF @ ''0'' @ CRLF @ CRLF) :: (string, EncodeError) result)
   \<and> encode_chunks_capacity [''ab''] = Some 27 \<and> length (''2'' @ CRLF @ ''ab'' @ CRLF @ ''0'' @ CRLF @ CRLF) \<le> 27"
proof -
  have e: "encode_chunks [''ab''] = (Ok (''2'' @ CRLF @ ''ab'' @ CRLF @ ''0'' @ CRLF @ CRLF) :: (string, EncodeError) result)"
    by code_simp
  have c: "encode_chunks_capacity [''ab''] = Some 27" by code_simp
  have "length (''2'' @ CRLF @ ''ab'' @ CRLF @ ''0'' @ CRLF @ CRLF) \<le> 27"
    by (rule capacity_estimates_sufficient [THEN conjunct2, THEN conjunct2, rule_format, OF conjI, OF e c])
  with e c show ?thesis by (intro conjI)
qed

text \<open>
  C18. The digit writers fill a stack array from its end; for every \<open>usize\<close> they stay within the
  array and append the number in base 16 and base 10.
\<close>

theorem number_writers_reference:
  assumes "n \<le> usize_max"
  shows "write_hex_usize buf n = Ok (buf @ to_base 16 n) \<and> write_usize_decimal buf n = Ok (buf @ to_base 10 n)"
  by (simp add: write_hex_usize_eq [OF assms] write_usize_decimal_eq [OF assms] nat_to_dec_def)

theorem number_writers_reference_witness:
  "usize_max \<le> usize_max \<and> write_hex_usize ''x'' usize_max = Ok (''x'' @ to_base 16 usize_max)
    \<and> write_usize_decimal ''x'' usize_max = Ok (''x'' @ to_base 10 usize_max)"
  by (intro conjI number_writers_reference [THEN conjunct1] number_writers_reference [THEN conjunct2]) simp_all

text \<open>
  C19. No message makes an encoder panic: every rejected message is an error value.
\<close>

theorem encoders_no_panic:
  assumes "body_len (rq_body r) \<le> usize_max" "body_len (rs_body s) \<le> usize_max"
  shows "encode_request r \<noteq> Panic \<and> encode_response s \<noteq> Panic"
  using encode_request_not_Panic [OF assms(1)] encode_response_not_Panic [OF assms(2)] by blast

theorem encoders_no_panic_witness:
  "encode_request \<lparr>rq_method = ''GET'', rq_uri = ''/'', rq_version = ''HTTP/1.1'', rq_headers = [], rq_body = None\<rparr> \<noteq> Panic
   \<and> encode_response \<lparr>rs_version = ''HTTP/1.1'', rs_status_code = 7, rs_reason_phrase = [], rs_headers = [], rs_body = None, rs_omit_body = False\<rparr> \<noteq> Panic"
  by (rule encoders_no_panic) (simp_all add: body_len_def)

end
