(* ===== verification/Wire.thy ===== *)
theory Wire
  imports Encoder_Correct
begin

text \<open>
  What the two round trips share: how a header line and a framed body the encoder writes are
  read by the decoders.
\<close>

section \<open>Header lines\<close>

text \<open>A header the decoder can take: valid, trimmed, UTF-8 and within the line limit.\<close>

definition wire_header :: "DecoderLimits \<Rightarrow> header \<Rightarrow> bool" where
  "wire_header l h \<longleftrightarrow> header_ok h \<and> valid_utf8 (snd h) \<and> length (fst h) + 2 + length (snd h) \<le> max_header_line_size l"

lemma take_drop_line: "take (length a) (a @ CRLF @ b) = a" "drop (length a + 2) (a @ CRLF @ b) = b"
  by simp_all

lemma wire_header_line:
  assumes "wire_header l h"
  shows "find_line (header_line h @ rest) = Some (length (fst h) + 2 + length (snd h))"
    "take (length (fst h) + 2 + length (snd h)) (header_line h @ rest) = fst h @ '': '' @ snd h"
    "drop (length (fst h) + 2 + length (snd h) + 2) (header_line h @ rest) = rest"
    "from_utf8 (fst h @ '': '' @ snd h) = Ok (fst h @ '': '' @ snd h)"
    "parse_header_line (fst h @ '': '' @ snd h) = Ok h"
proof -
  have n: "is_valid_header_name (fst h)" "is_valid_field_value (snd h)" "trim_ows (snd h) = snd h" "valid_utf8 (snd h)"
    using assms by (auto simp: wire_header_def header_ok_def)
  let ?line = "fst h @ '': '' @ snd h"
  have cr: "CR \<notin> set ?line" using header_name_no_sep [OF n(1)] field_value_no_crlf [OF n(2)] by auto
  have len: "length ?line = length (fst h) + 2 + length (snd h)" by simp
  have eq: "header_line h @ rest = ?line @ CRLF @ rest" by (simp add: header_line_def)
  show "find_line (header_line h @ rest) = Some (length (fst h) + 2 + length (snd h))"
    unfolding eq len [symmetric] by (rule find_line_no_CR [OF cr])
  show "take (length (fst h) + 2 + length (snd h)) (header_line h @ rest) = ?line"
    unfolding eq len [symmetric] by (rule take_drop_line)
  show "drop (length (fst h) + 2 + length (snd h) + 2) (header_line h @ rest) = rest"
    unfolding eq len [symmetric] by (rule take_drop_line)
  have "valid_utf8 '': ''" by (simp add: valid_utf8_ascii)
  then have "valid_utf8 ?line" using header_name_utf8 [OF n(1)] n(4) by (simp only: valid_utf8_append)
  then show "from_utf8 ?line = Ok ?line" by (simp add: from_utf8_Ok_iff)
  show "parse_header_line ?line = Ok h" using parse_header_line_encoded [OF n(1,2)] n(3) by simp
qed

section \<open>Bodies\<close>

definition payload :: "BodyKind \<Rightarrow> string \<Rightarrow> string \<Rightarrow> DecoderLimits \<Rightarrow> bool" where
  "payload bk raw body l \<longleftrightarrow>
     (case bk of
        BodyNone \<Rightarrow> raw = [] \<and> body = []
      | ContentLength n \<Rightarrow> raw = body \<and> length body = n
      | Chunked \<Rightarrow> (\<exists>cs. raw = concat (map chunk_frame cs) @ ''0'' @ CRLF @ CRLF \<and> body = concat cs
          \<and> (\<forall>c \<in> set cs. c \<noteq> [] \<and> length (to_base 16 (length c)) \<le> max_chunk_line_size l)
          \<and> length body \<le> max_body_size l \<and> 1 \<le> max_chunk_line_size l)
      | _ \<Rightarrow> False)"

text \<open>The phase a decoder enters for a framed body.\<close>

definition payload_phase :: "BodyKind \<Rightarrow> DecodePhase \<Rightarrow> bool" where
  "payload_phase bk ph \<longleftrightarrow> (bk = Chunked \<longrightarrow> ph = BodyChunkedSize)
     \<and> (\<forall>n. bk = ContentLength n \<longrightarrow> ph = (if 0 < n then BodyContentLength n else PhaseComplete))"

lemma body_loop_payload:
  assumes "payload bk raw body l" "bk \<noteq> BodyNone" "\<forall>n. bk = ContentLength n \<longrightarrow> n \<le> max_body_size l"
    "max_body_size l \<le> usize_max" "idle_body bd" "payload_phase bk ph"
  shows "\<exists>bd'. body_loop l bd (raw @ rest) ph [] = (Ok True, bd', rest, PhaseComplete, body)"
proof (cases bk)
  case (ContentLength n)
  show ?thesis
  proof (cases "n = 0")
    case True
    with ContentLength assms show ?thesis
      by (simp add: payload_def payload_phase_def body_loop.simps [of l bd] bd_peek_body_def dec_progress_def
          bd_consume_body_def complete_with_trailers_def)
  next
    case False
    have "n \<le> usize_max" using assms(3,4) ContentLength by auto
    with False ContentLength assms(1,5,6) body_loop_content_length(1) [of n bd "raw @ rest" l "[]"] show ?thesis
      by (auto simp: payload_def payload_phase_def idle_body_def)
  qed
next
  case Chunked
  then obtain cs where cs: "raw = concat (map chunk_frame cs) @ ''0'' @ CRLF @ CRLF" "body = concat cs"
    "\<forall>c \<in> set cs. c \<noteq> [] \<and> length (to_base 16 (length c)) \<le> max_chunk_line_size l"
    "length body \<le> max_body_size l" "1 \<le> max_chunk_line_size l"
    using assms(1) by (auto simp: payload_def)
  have "body_loop l bd (concat (map chunk_frame cs) @ ''0'' @ CRLF @ CRLF @ rest) BodyChunkedSize [] =
      (Ok True, bd\<lparr>body_consumed := body_consumed bd + length (concat cs), trailers := []\<rparr>, rest, PhaseComplete, [] @ concat cs)"
    using cs assms(4,5) by (intro body_loop_chunks) (simp_all add: idle_body_def)
  then show ?thesis using Chunked cs(1,2) assms(6) by (simp add: payload_phase_def)
qed (use assms in \<open>simp_all add: payload_def\<close>)

text \<open>The body a decoded request has for each kind of framing.\<close>

definition framed_body :: "BodyKind \<Rightarrow> string \<Rightarrow> string option" where
  "framed_body bk body = (if bk = BodyNone then None else Some body)"

lemma bd_reset_new [simp]: "bd_reset bd = bd_new"
  by (cases bd) (simp add: bd_reset_def bd_new_def)

end
