(* ===== verification/Request_Roundtrip.thy ===== *)
theory Request_Roundtrip
  imports Request_Stream Wire
begin

text \<open>
  What \<open>encode_request\<close> writes, \<open>decode\<close> reads back: for one request, for its chunked
  variant, and for any number of pipelined requests.
\<close>

section \<open>Reading a head\<close>

definition fresh_decoder :: "DecoderLimits \<Rightarrow> 'd \<Rightarrow> string \<Rightarrow> 'd RequestDecoder" where
  "fresh_decoder l d buf = (rd_with_decompressor_and_limits d l)\<lparr>rd_buf := buf\<rparr>"

lemma fresh_decoder_feed: "rd_feed_unchecked (rd_with_decompressor_and_limits d l) buf = fresh_decoder l d buf"
  by (simp add: rd_feed_unchecked_def feed_unchecked_def fresh_decoder_def rd_with_decompressor_and_limits_def)

lemma fresh_decoder_simps [simp]:
  "rd_buf (fresh_decoder l d buf) = buf" "rd_phase (fresh_decoder l d buf) = StartLine"
  "rd_start_line (fresh_decoder l d buf) = None" "rd_headers (fresh_decoder l d buf) = []"
  "rd_body_decoder (fresh_decoder l d buf) = bd_new" "rd_limits (fresh_decoder l d buf) = l"
  "rd_decoded_head (fresh_decoder l d buf) = None" "rd_decoded_body (fresh_decoder l d buf) = []"
  "rd_decompressor (fresh_decoder l d buf) = d"
  by (simp_all add: fresh_decoder_def rd_with_decompressor_and_limits_def)

lemma rd_step_header:
  assumes "wire_header l h" "rd_phase st = Headers" "rd_limits st = l" "length (rd_headers st) < max_headers_count l"
    "rd_buf st = header_line h @ rest"
  shows "rd_step D st = Next (st\<lparr>rd_buf := rest, rd_headers := rd_headers st @ [h]\<rparr>)"
proof -
  have step: "rd_step D st = Next (st\<lparr>rd_buf := r, rd_headers := rd_headers st @ [h]\<rparr>)"
    if "find_line (rd_buf st) = Some p" "p \<noteq> 0" "p \<le> max_header_line_size l" "take p (rd_buf st) = line"
      "drop (p + 2) (rd_buf st) = r" "from_utf8 line = Ok line" "parse_header_line line = Ok h" for p line r
    using that assms(2-4) by (simp add: rd_step_def rd_header_line_step_def)
  note w = wire_header_line(1,2,3) [OF assms(1), of rest, folded assms(5)] wire_header_line(4,5) [OF assms(1)]
  show ?thesis using assms(1) by (intro step [OF w(1) _ _ w(2-5)]) (simp_all add: wire_header_def)
qed

lemma rd_decode_headers_lines:
  assumes "list_all (wire_header l) hs" "rd_phase st = Headers" "rd_limits st = l"
    "length (rd_headers st) + length hs \<le> max_headers_count l" "rd_buf st = header_lines hs @ rest"
  shows "rd_decode_headers D st = rd_decode_headers D (st\<lparr>rd_buf := rest, rd_headers := rd_headers st @ hs\<rparr>)"
  using assms
proof (induction hs arbitrary: st)
  case Nil
  then have "st\<lparr>rd_buf := rest, rd_headers := rd_headers st @ []\<rparr> = st" by (cases st) (simp add: header_lines_def)
  then show ?case by simp
next
  case (Cons h hs)
  have "rd_step D st = Next (st\<lparr>rd_buf := header_lines hs @ rest, rd_headers := rd_headers st @ [h]\<rparr>)"
    using Cons.prems by (intro rd_step_header [where l = l]) (simp_all add: header_lines_def)
  then have "rd_decode_headers D st =
      rd_decode_headers D (st\<lparr>rd_buf := header_lines hs @ rest, rd_headers := rd_headers st @ [h]\<rparr>)"
    by (simp add: rd_decode_headers.simps [of D st])
  also have "\<dots> = rd_decode_headers D (st\<lparr>rd_buf := rest, rd_headers := rd_headers st @ h # hs\<rparr>)"
    using Cons.IH [of "st\<lparr>rd_buf := header_lines hs @ rest, rd_headers := rd_headers st @ [h]\<rparr>"] Cons.prems by simp
  finally show ?case .
qed

lemma request_line_facts:
  assumes "request_line_parts m t v"
  shows "find_line (m @ [SP] @ t @ [SP] @ v @ CRLF @ rest) = Some (length (m @ SP # t @ SP # v))"
    "from_utf8 (m @ SP # t @ SP # v) = Ok (m @ SP # t @ SP # v)"
proof -
  have p: "is_valid_method m" "is_valid_request_target t" "is_valid_protocol_version v" "list_all (\<lambda>b. u8 b < 0x80) t"
    using assms by (auto simp: request_line_parts_def)
  have "CR \<notin> set (m @ SP # t @ SP # v)" using p method_no_SP target_no_SP protocol_version_chars by auto
  from find_line_no_CR [OF this, of rest]
  show "find_line (m @ [SP] @ t @ [SP] @ v @ CRLF @ rest) = Some (length (m @ SP # t @ SP # v))" by simp
  have "list_all (\<lambda>b. u8 b < 0x80) m"
    using p(1) token_char_ascii by (auto simp: is_valid_method_eq is_valid_header_name_def list_all_iff)
  then have "valid_utf8 (m @ SP # t @ SP # v)"
    using p(4) protocol_version_chars(4) [OF p(3)] by (intro valid_utf8_ascii) simp
  then show "from_utf8 (m @ SP # t @ SP # v) = Ok (m @ SP # t @ SP # v)" by (simp add: from_utf8_Ok_iff)
qed

lemma splitn_request_line:
  "request_line_parts m t v \<Longrightarrow> splitn 3 SP (m @ SP # t @ SP # v) = [m, t, v]"
  using method_no_SP target_no_SP by (intro splitn_3_three) (auto simp: request_line_parts_def)

text \<open>Reading a whole head from a fresh decoder.\<close>

lemma rd_decode_headers_wire:
  assumes "request_line_parts m t v" "list_all (wire_header l) hs" "length hs \<le> max_headers_count l"
    "rq_body_kind hs l (m @ SP # t @ SP # v) = Ok bk"
  shows "rd_decode_headers D (fresh_decoder l d (m @ [SP] @ t @ [SP] @ v @ CRLF @ header_lines hs @ CRLF @ rest)) =
    (Ok (Some (\<lparr>rh_method = m, rh_uri = t, rh_version = v, rh_headers = hs\<rparr>, bk)),
     (fresh_decoder l d rest)\<lparr>rd_phase := rq_body_phase bk,
        rd_body_decoder := set_declared_trailers bd_new (collect_declared_trailers hs)\<rparr>)"
proof -
  let ?line = "m @ SP # t @ SP # v" and ?st = "\<lambda>buf. fresh_decoder l d buf"
  let ?buf = "header_lines hs @ CRLF @ rest"
  let ?s1 = "(?st ?buf)\<lparr>rd_start_line := Some ?line, rd_phase := Headers\<rparr>"
  let ?s2 = "?s1\<lparr>rd_buf := CRLF @ rest, rd_headers := hs\<rparr>"
  have eq: "m @ [SP] @ t @ [SP] @ v @ CRLF @ ?buf = ?line @ CRLF @ ?buf" by simp
  have upd: "(?st x)\<lparr>rd_buf := y\<rparr> = ?st y" for x y by (simp add: fresh_decoder_def)
  note f = request_line_facts(1) [OF assms(1), of ?buf] request_line_facts(2) [OF assms(1)]
  note t = take_drop_line [of ?line ?buf]
  have "rd_step D (?st (m @ [SP] @ t @ [SP] @ v @ CRLF @ ?buf)) = Next ?s1"
    unfolding rd_step_def rd_start_line_step_def
    using f check_request_line_parts [OF assms(1)] unfolding fresh_decoder_simps eq
    by (simp only: DecodePhase.case option.case result.case t upd Let_def)
  then have "rd_decode_headers D (?st (m @ [SP] @ t @ [SP] @ v @ CRLF @ ?buf)) = rd_decode_headers D ?s1"
    by (simp only: rd_decode_headers.simps [of D "?st (m @ [SP] @ t @ [SP] @ v @ CRLF @ ?buf)"] step.case)
  also have "\<dots> = rd_decode_headers D ?s2"
    using rd_decode_headers_lines [OF assms(2), of ?s1 "CRLF @ rest" D] assms(3) by simp
  also have "rd_step D ?s2 = Done (Ok (\<lparr>rh_method = m, rh_uri = t, rh_version = v, rh_headers = hs\<rparr>, bk))
     ((?st rest)\<lparr>rd_phase := rq_body_phase bk, rd_body_decoder := set_declared_trailers bd_new (collect_declared_trailers hs)\<rparr>)"
    using assms(4) splitn_request_line [OF assms(1)]
    by (simp add: rd_step_def rd_end_of_headers_def rh_from_validated_parts_def Let_def)
      (simp add: fresh_decoder_def rd_with_decompressor_and_limits_def)
  then have "rd_decode_headers D ?s2 = (Ok (Some (\<lparr>rh_method = m, rh_uri = t, rh_version = v, rh_headers = hs\<rparr>, bk)),
     (?st rest)\<lparr>rd_phase := rq_body_phase bk, rd_body_decoder := set_declared_trailers bd_new (collect_declared_trailers hs)\<rparr>)"
    by (simp only: rd_decode_headers.simps [of D ?s2] step.case and_then_simps)
  finally show ?thesis .
qed

section \<open>Reading a message\<close>

lemma rd_build_fresh:
  assumes "rd_decoded_head st = Some h" "bk = BodyNone \<longrightarrow> rd_decoded_body st = []" "bk \<noteq> BodyTunnel"
    "st\<lparr>rd_decoded_head := None, rd_phase := StartLine, rd_decoded_body_kind := None, rd_decoded_body := [],
        rd_body_decoder := bd_new, rd_decompressor := d'\<rparr> = fresh_decoder l d' rest" "decompressor_reset D (rd_decompressor st) = d'"
  shows "rd_build_request D bk st =
    (Ok (Some \<lparr>rq_method = rh_method h, rq_uri = rh_uri h, rq_version = rh_version h, rq_headers = rh_headers h,
               rq_body = framed_body bk (rd_decoded_body st)\<rparr>), fresh_decoder l d' rest)"
  using assms by (simp add: rd_build_request_def rq_from_raw_parts_def framed_body_def Let_def split: BodyKind.split)

lemma rd_decode_wire:
  assumes "request_line_parts m t v" "list_all (wire_header l) hs" "length hs \<le> max_headers_count l"
    "rq_body_kind hs l (m @ SP # t @ SP # v) = Ok bk" "payload bk raw body l" "max_body_size l \<le> usize_max"
  shows "rd_decode D (fresh_decoder l d (m @ [SP] @ t @ [SP] @ v @ CRLF @ header_lines hs @ CRLF @ raw @ rest)) =
    (Ok (Some \<lparr>rq_method = m, rq_uri = t, rq_version = v, rq_headers = hs, rq_body = framed_body bk body\<rparr>),
     fresh_decoder l (decompressor_reset D d) rest)"
proof -
  let ?head = "\<lparr>rh_method = m, rh_uri = t, rh_version = v, rh_headers = hs\<rparr>"
  let ?bd = "set_declared_trailers bd_new (collect_declared_trailers hs)"
  let ?s = "(fresh_decoder l d (raw @ rest))\<lparr>rd_phase := rq_body_phase bk, rd_body_decoder := ?bd,
     rd_decoded_head := Some ?head, rd_decoded_body_kind := Some bk\<rparr>"
  have "rd_decode D (fresh_decoder l d (m @ [SP] @ t @ [SP] @ v @ CRLF @ header_lines hs @ CRLF @ raw @ rest)) =
      rd_decode_body D ?s"
    using rd_decode_headers_wire [OF assms(1-4), of D d "raw @ rest"] by (simp add: rd_decode_def)
  also have "\<dots> = (Ok (Some \<lparr>rq_method = m, rq_uri = t, rq_version = v, rq_headers = hs, rq_body = framed_body bk body\<rparr>),
     fresh_decoder l (decompressor_reset D d) rest)"
  proof (cases "bk = BodyNone")
    case True
    then have e: "raw = []" "body = []" using assms(5) by (simp_all add: payload_def)
    have "rd_build_request D BodyNone ?s = (Ok (Some \<lparr>rq_method = rh_method ?head, rq_uri = rh_uri ?head,
        rq_version = rh_version ?head, rq_headers = rh_headers ?head, rq_body = framed_body BodyNone (rd_decoded_body ?s)\<rparr>),
        fresh_decoder l (decompressor_reset D d) rest)"
      by (rule rd_build_fresh) (simp_all add: e, simp add: fresh_decoder_def rd_with_decompressor_and_limits_def)
    with True e show ?thesis by (simp add: rd_decode_body_def framed_body_def)
  next
    case False
    have "bk = ContentLength n \<longrightarrow> n \<le> max_body_size l" for n
      using rq_body_phase_inv(1) [OF assms(4), of ?bd] by (cases "n = 0") (auto simp: rq_body_phase_def body_inv_def)
    then have n: "\<forall>n. bk = ContentLength n \<longrightarrow> n \<le> max_body_size l" by blast
    have "idle_body ?bd" by simp
    then obtain bd' where b: "body_loop l ?bd (raw @ rest) (rq_body_phase bk) [] = (Ok True, bd', rest, PhaseComplete, body)"
      using body_loop_payload [OF assms(5) False n assms(6), of ?bd "rq_body_phase bk" rest]
      by (auto simp: payload_phase_def rq_body_phase_def)
    let ?t = "?s\<lparr>rd_body_decoder := bd', rd_buf := rest, rd_phase := PhaseComplete, rd_decoded_body := body\<rparr>"
    have loop: "rd_body_loop ?s = (Ok True, ?t)" using b by (simp add: rd_body_loop_def)
    have k: "bk \<noteq> BodyTunnel" "bk \<noteq> CloseDelimited" using assms(5) by (auto simp: payload_def)
    with False loop have "rd_decode_body D ?s = rd_build_request D bk ?t" by (simp add: rd_decode_body_def)
    moreover have "rd_build_request D bk ?t = (Ok (Some \<lparr>rq_method = rh_method ?head, rq_uri = rh_uri ?head,
        rq_version = rh_version ?head, rq_headers = rh_headers ?head, rq_body = framed_body bk (rd_decoded_body ?t)\<rparr>),
        fresh_decoder l (decompressor_reset D d) rest)"
      by (rule rd_build_fresh) (simp_all add: False k, simp add: fresh_decoder_def rd_with_decompressor_and_limits_def)
    ultimately show ?thesis by simp
  qed
  finally show ?thesis .
qed

section \<open>Encoding and decoding\<close>

lemma host_headers_agree:
  assumes "validate_host_header r = Ok u" "rq_version r = ''HTTP/1.1''" "header_values ''Host'' hs = header_values ''Host'' (rq_headers r)"
  shows "check_host_headers hs = Ok ()"
proof -
  obtain v where v: "header_values ''Host'' (rq_headers r) = [v]" "v \<noteq> [] \<longrightarrow> is_ok (Host_parse v)"
    using assms(1,2) by (auto simp: validate_host_header_def header_values_def result_iff split: list.splits)
  with assms(3) obtain h where "filter (\<lambda>h. eq_ignore_ascii_case (fst h) ''Host'') hs = [h]" "snd h = v"
    by (auto simp: header_values_def)
  with v(2) show ?thesis by (auto simp: check_host_headers_def)
qed

text \<open>
  A request the decoder of limits \<open>l\<close> can take as it is sent: the line is one the decoder accepts,
  the headers are, and the body is announced by its length.
\<close>

definition sendable :: "DecoderLimits \<Rightarrow> Request \<Rightarrow> bool" where
  "sendable l r \<longleftrightarrow> request_line_parts (rq_method r) (rq_uri r) (rq_version r) \<and> rq_method r \<noteq> ''CONNECT''
     \<and> \<not> has_header (rq_headers r) ''Transfer-Encoding''
     \<and> list_all (wire_header l) (request_headers_sent r) \<and> length (request_headers_sent r) \<le> max_headers_count l
     \<and> body_len (rq_body r) \<le> max_body_size l"

text \<open>What the receiver sees: the added header, and a body exactly when a length was sent.\<close>

definition received :: "Request \<Rightarrow> Request" where
  "received r = r\<lparr>rq_headers := request_headers_sent r,
     rq_body := (if has_header (request_headers_sent r) ''Content-Length'' then Some (body_bytes (rq_body r)) else None)\<rparr>"

lemma encode_request_body_kind:
  assumes "encode_request r = Ok out" "sendable l r" "max_body_size l \<le> usize_max"
  shows "rq_body_kind (request_headers_sent r) l (rq_method r @ SP # rq_uri r @ SP # rq_version r) =
    Ok (if has_header (request_headers_sent r) ''Content-Length'' then ContentLength (body_len (rq_body r)) else BodyNone)"
    "\<not> has_header (request_headers_sent r) ''Content-Length'' \<Longrightarrow> rq_body r = None"
proof -
  let ?hs = "request_headers_sent r" and ?line = "rq_method r @ SP # rq_uri r @ SP # rq_version r"
  have s: "request_line_parts (rq_method r) (rq_uri r) (rq_version r)" "rq_method r \<noteq> ''CONNECT''"
    "\<not> has_header (rq_headers r) ''Transfer-Encoding''" "body_len (rq_body r) \<le> max_body_size l"
    using assms(2) by (simp_all add: sendable_def)
  have e: "validate_host_header r = Ok ()" "match_content_length (rq_headers r) (body_len (rq_body r)) True = Ok ()"
    using assms(1) s(3) by (auto simp: encode_request_def request_checks_def result_iff)
  have a: "should_auto_emit_content_length_for_request r \<longleftrightarrow> rq_body r \<noteq> None \<and> \<not> has_header (rq_headers r) ''Content-Length''"
    using s(3) by (simp add: should_auto_emit_content_length_for_request_def)
  obtain res where res: "parse_content_length ?hs = Ok res"
    "case res of Some n \<Rightarrow> n = body_len (rq_body r) | None \<Rightarrow> rq_body r = None"
    "res \<noteq> None \<longleftrightarrow> has_header ?hs ''Content-Length''"
    using sent_content_length [OF e(2) _ a] s(4) assms(3) by (auto simp: request_headers_sent_def)
  have "header_elements ''Transfer-Encoding'' ?hs = []"
    using s(3) by (simp add: header_elements_def request_headers_sent_def header_values_append header_values_auto has_header_values)
  then have "parse_transfer_encoding_for_request ?hs = Ok False" by (simp add: parse_te_request_iff)
  with res(1) have rb: "resolve_body_headers_for_request ?hs = Ok (False, res)"
    by (simp add: resolve_body_headers_for_request_def)
  have h: "rq_version r = ''HTTP/1.1'' \<Longrightarrow> check_host_headers ?hs = Ok ()"
    by (rule host_headers_agree [OF e(1)]) (simp_all add: request_headers_sent_def header_values_append header_values_auto)
  have n: "nth_part 0 ?line = rq_method r" "nth_part 2 ?line = rq_version r"
    using s(1) method_no_SP target_no_SP protocol_version_chars(1)
    by (auto simp: nth_part_def split_on_SP_3 request_line_parts_def)
  have "rq_determine_body_kind ?hs l (rq_version r) = Ok (case res of Some n \<Rightarrow> ContentLength n | None \<Rightarrow> BodyNone)"
    using res(2) s(4) by (cases res) (simp_all add: rq_determine_body_kind_def rb)
  with n s(2) h show "rq_body_kind ?hs l ?line =
      Ok (if has_header ?hs ''Content-Length'' then ContentLength (body_len (rq_body r)) else BodyNone)"
    using res(2,3) unfolding rq_body_kind_def Let_def n
    by (cases "rq_version r = ''HTTP/1.1''"; cases res) simp_all
  show "\<not> has_header ?hs ''Content-Length'' \<Longrightarrow> rq_body r = None" using res(2,3) by (cases res) auto
qed

theorem request_roundtrip:
  assumes "encode_request r = Ok out" "sendable l r" "max_body_size l \<le> usize_max"
  shows "rd_decode D (fresh_decoder l d (out @ rest)) =
    (Ok (Some (received r)), fresh_decoder l (decompressor_reset D d) rest)"
proof -
  let ?hs = "request_headers_sent r"
  let ?bk = "if has_header ?hs ''Content-Length'' then ContentLength (body_len (rq_body r)) else BodyNone"
  note k = encode_request_body_kind [OF assms]
  have s: "request_line_parts (rq_method r) (rq_uri r) (rq_version r)" "list_all (wire_header l) ?hs"
    "length ?hs \<le> max_headers_count l" "body_len (rq_body r) \<le> usize_max"
    using assms(2,3) by (auto simp: sendable_def)
  have out: "out @ rest = rq_method r @ [SP] @ rq_uri r @ [SP] @ rq_version r @ CRLF @ header_lines ?hs @ CRLF
      @ body_bytes (rq_body r) @ rest"
    using encode_request_bytes [OF assms(1) s(4)] by (simp add: request_line_def)
  have "payload ?bk (body_bytes (rq_body r)) (body_bytes (rq_body r)) l"
    using k(2) by (cases "has_header ?hs ''Content-Length''") (simp_all add: payload_def, simp add: body_bytes_def)
  from rd_decode_wire [OF s(1-3) k(1) this assms(3), of D d rest] show ?thesis
    unfolding out by (simp add: received_def framed_body_def)
qed

text \<open>Any number of encoded requests, one after the other.\<close>

theorem pipeline_roundtrip:
  assumes "list_all2 (\<lambda>r out. encode_request r = Ok out) rs outs" "list_all (sendable l) rs" "max_body_size l \<le> usize_max"
  shows "\<exists>d'. rd_pump D (fresh_decoder l d (concat outs)) =
    (map (\<lambda>r. Ok (Some (received r))) rs, False, fresh_decoder l d' [])"
  using assms(1,2)
proof (induction arbitrary: d rule: list_all2_induct)
  case Nil
  have "rd_decode D (fresh_decoder l d []) = (Ok None, fresh_decoder l d [])"
    by (simp add: rd_decode_def rd_decode_headers.simps [of D] rd_step_def rd_start_line_step_def)
  then show ?case by (auto simp: rd_pump.simps [of D])
next
  case (Cons r rs out outs)
  have "rd_decode D (fresh_decoder l d (out @ concat outs)) =
      (Ok (Some (received r)), fresh_decoder l (decompressor_reset D d) (concat outs))"
    using Cons.hyps Cons.prems by (intro request_roundtrip [OF _ _ assms(3)]) simp_all
  moreover obtain d' where "rd_pump D (fresh_decoder l (decompressor_reset D d) (concat outs)) =
      (map (\<lambda>r. Ok (Some (received r))) rs, False, fresh_decoder l d' [])"
    using Cons.IH Cons.prems by fastforce
  ultimately show ?case by (auto simp: rd_pump.simps [of D "fresh_decoder l d (out @ concat outs)"])
qed

section \<open>Chunked requests\<close>

text \<open>A head for a chunked body: \<open>Transfer-Encoding\<close> is \<open>chunked\<close> and nothing else.\<close>

definition streamable :: "DecoderLimits \<Rightarrow> Request \<Rightarrow> bool" where
  "streamable l r \<longleftrightarrow> request_line_parts (rq_method r) (rq_uri r) (rq_version r) \<and> rq_method r \<noteq> ''CONNECT''
     \<and> rq_version r = ''HTTP/1.1'' \<and> header_values ''Transfer-Encoding'' (rq_headers r) = [''chunked'']
     \<and> list_all (wire_header l) (rq_headers r) \<and> length (rq_headers r) \<le> max_headers_count l"

lemma encode_request_headers_body_kind:
  assumes "encode_request_headers r = Ok out" "streamable l r"
  shows "rq_body_kind (rq_headers r) l (rq_method r @ SP # rq_uri r @ SP # rq_version r) = Ok Chunked"
    "out = request_line r @ header_lines (rq_headers r) @ CRLF"
proof -
  let ?hs = "rq_headers r" and ?line = "rq_method r @ SP # rq_uri r @ SP # rq_version r"
  have s: "request_line_parts (rq_method r) (rq_uri r) (rq_version r)" "rq_method r \<noteq> ''CONNECT''"
    "rq_version r = ''HTTP/1.1''" "header_values ''Transfer-Encoding'' ?hs = [''chunked'']"
    using assms(2) unfolding streamable_def by blast+
  have e: "validate_host_header r = Ok ()" "\<not> has_header ?hs ''Content-Length''"
    using assms(1) s(4) by (auto simp: encode_request_headers_def request_checks_def result_iff has_header_values)
  have "CHR '','' \<notin> set ''chunked''" "trim_ows ''chunked'' = ''chunked''" "is_chunked_token ''chunked''"
    by (simp_all add: trim_ows_no_ows is_ows_def is_chunked_token_def)
  then have "header_elements ''Transfer-Encoding'' ?hs = [''chunked'']" "is_chunked_token ''chunked''"
    using s(4) by (simp_all add: header_elements_def list_elements_single)
  then have "parse_transfer_encoding_for_request ?hs = Ok True" by (simp add: parse_te_request_iff)
  moreover have "parse_content_length ?hs = Ok None" using e(2) by (simp add: parse_content_length_iff has_header_values)
  ultimately have rb: "resolve_body_headers_for_request ?hs = Ok (True, None)"
    by (simp add: resolve_body_headers_for_request_def)
  have h: "check_host_headers ?hs = Ok ()" by (rule host_headers_agree [OF e(1) s(3) refl])
  have n: "nth_part 0 ?line = rq_method r" "nth_part 2 ?line = rq_version r"
    using s(1) method_no_SP target_no_SP protocol_version_chars(1)
    by (auto simp: nth_part_def split_on_SP_3 request_line_parts_def)
  show "rq_body_kind ?hs l ?line = Ok Chunked"
    unfolding rq_body_kind_def Let_def n using s(2,3) h by (simp add: rq_determine_body_kind_def rb)
  show "out = request_line r @ header_lines (rq_headers r) @ CRLF"
    using assms(1) by (auto simp: encode_request_headers_def result_iff)
qed

theorem chunked_request_roundtrip:
  assumes "encode_request_headers r = Ok head" "encode_chunks cs = (Ok chunks :: (string, EncodeError) result)" "streamable l r"
    "\<forall>c \<in> set cs. c \<noteq> [] \<and> length (to_base 16 (length c)) \<le> max_chunk_line_size l"
    "length (concat cs) \<le> max_body_size l" "max_body_size l \<le> usize_max" "1 \<le> max_chunk_line_size l"
  shows "rd_decode D (fresh_decoder l d (head @ chunks @ rest)) =
    (Ok (Some (r\<lparr>rq_body := Some (concat cs)\<rparr>)), fresh_decoder l (decompressor_reset D d) rest)"
proof -
  note k = encode_request_headers_body_kind [OF assms(1,3)]
  have s: "request_line_parts (rq_method r) (rq_uri r) (rq_version r)" "list_all (wire_header l) (rq_headers r)"
    "length (rq_headers r) \<le> max_headers_count l"
    using assms(3) unfolding streamable_def by blast+
  have "length c \<le> length (concat cs)" if "c \<in> set cs" for c using that by (induction cs) auto
  then have len: "\<forall>c \<in> set cs. length c \<le> usize_max" using assms(5,6) by (metis order_trans)
  have ch: "chunks = concat (map chunk_frame cs) @ ''0'' @ CRLF @ CRLF"
    using assms(2) encode_chunks_frame [OF len, where 'a = EncodeError] by simp
  have "payload Chunked chunks (concat cs) l" using assms(4,5,7) ch by (auto simp: payload_def)
  from rd_decode_wire [OF s k(1) this assms(6), of D d rest] show ?thesis
    by (simp add: k(2) request_line_def framed_body_def)
qed

end
