(* ===== verification/Response_Decoder.thy ===== *)
theory Response_Decoder
  imports Buffer Compression Messages Body_Correct
begin

text \<open>
  \<^verbatim>\<open>src/decoder/response.rs\<close>: \<open>ResponseDecoder\<close>, laid out like the request decoder. What
  differs: the request method the caller announces, the status line, the body kind (which may
  also remove headers), close-delimited bodies and \<open>mark_eof\<close>.
\<close>

record 'd ResponseDecoder =
  sd_buf :: string
  sd_phase :: DecodePhase
  sd_start_line :: "string option"
  sd_headers :: "header list"
  sd_body_decoder :: BodyDecoder
  sd_limits :: DecoderLimits
  sd_decoded_head :: "ResponseHead option"
  sd_decoded_body_kind :: "BodyKind option"
  sd_decoded_body :: string
  sd_decompressor :: 'd
  sd_request_method :: "string option"
  sd_pending :: nat

section \<open>Construction and the receive buffer\<close>

definition sd_with_decompressor_and_limits :: "'d \<Rightarrow> DecoderLimits \<Rightarrow> 'd ResponseDecoder" where
  "sd_with_decompressor_and_limits d l =
     \<lparr>sd_buf = [], sd_phase = StartLine, sd_start_line = None, sd_headers = [], sd_body_decoder = bd_new,
      sd_limits = l, sd_decoded_head = None, sd_decoded_body_kind = None, sd_decoded_body = [],
      sd_decompressor = d, sd_request_method = None, sd_pending = 0\<rparr>"

definition sd_with_decompressor :: "'d \<Rightarrow> 'd ResponseDecoder" where
  "sd_with_decompressor d = sd_with_decompressor_and_limits d default_limits"

definition sd_with_limits :: "DecoderLimits \<Rightarrow> NoCompression ResponseDecoder" where
  "sd_with_limits l = sd_with_decompressor_and_limits nc_new l"

definition sd_new :: "NoCompression ResponseDecoder" where
  "sd_new = sd_with_decompressor_and_limits nc_new default_limits"

definition sd_set_request_method :: "'d ResponseDecoder \<Rightarrow> string \<Rightarrow> 'd ResponseDecoder" where
  "sd_set_request_method st m = st\<lparr>sd_request_method := Some m\<rparr>"

definition sd_feed :: "'d ResponseDecoder \<Rightarrow> string \<Rightarrow> (unit, Error) result \<times> 'd ResponseDecoder" where
  "sd_feed st dat =
     (let (r, buf') = feed (sd_buf st) (sd_pending st) (max_buffer_size (sd_limits st)) dat
      in (r, st\<lparr>sd_buf := buf'\<rparr>))"

definition sd_feed_unchecked :: "'d ResponseDecoder \<Rightarrow> string \<Rightarrow> 'd ResponseDecoder" where
  "sd_feed_unchecked st dat = st\<lparr>sd_buf := feed_unchecked (sd_buf st) (sd_pending st) dat\<rparr>"

definition sd_mut_buf :: "'d ResponseDecoder \<Rightarrow> nat \<Rightarrow> (string, Error) result \<times> 'd ResponseDecoder" where
  "sd_mut_buf st len =
     (let (r, buf', p) = mut_buf (sd_buf st) (sd_pending st) (max_buffer_size (sd_limits st)) len
      in (r, st\<lparr>sd_buf := buf', sd_pending := p\<rparr>))"

definition sd_advance_buf :: "'d ResponseDecoder \<Rightarrow> nat \<Rightarrow> (unit, Error) result \<times> 'd ResponseDecoder" where
  "sd_advance_buf st len =
     (let (r, buf', p) = advance_buf (sd_buf st) (sd_pending st) len
      in (r, st\<lparr>sd_buf := buf', sd_pending := p\<rparr>))"

definition sd_available_buf :: "'d ResponseDecoder \<Rightarrow> nat" where
  "sd_available_buf st = available_buf (sd_buf st) (max_buffer_size (sd_limits st))"

definition sd_remaining :: "'d ResponseDecoder \<Rightarrow> string" where
  "sd_remaining st = remaining (sd_buf st) (sd_pending st)"

definition sd_reset :: "'d Decompressor \<Rightarrow> 'd ResponseDecoder \<Rightarrow> 'd ResponseDecoder" where
  "sd_reset D st = st\<lparr>sd_buf := [], sd_phase := StartLine, sd_start_line := None, sd_headers := [],
     sd_body_decoder := bd_reset (sd_body_decoder st), sd_decoded_head := None, sd_decoded_body_kind := None,
     sd_decoded_body := [], sd_decompressor := decompressor_reset D (sd_decompressor st),
     sd_request_method := None, sd_pending := 0\<rparr>"

definition sd_take_remaining :: "'d ResponseDecoder \<Rightarrow> string \<times> 'd ResponseDecoder" where
  "sd_take_remaining st = (sd_buf st, st\<lparr>sd_pending := 0, sd_buf := []\<rparr>)"

definition sd_is_tunnel :: "'d ResponseDecoder \<Rightarrow> bool" where
  "sd_is_tunnel st \<longleftrightarrow> sd_phase st = Tunnel"

definition sd_mark_eof :: "'d ResponseDecoder \<Rightarrow> 'd ResponseDecoder" where
  "sd_mark_eof st = (if sd_phase st = BodyCloseDelimited then st\<lparr>sd_phase := PhaseComplete\<rparr> else st)"

definition sd_is_close_delimited :: "'d ResponseDecoder \<Rightarrow> bool" where
  "sd_is_close_delimited st \<longleftrightarrow> sd_phase st = BodyCloseDelimited"

section \<open>decode_headers\<close>

definition status_has_body :: "nat \<Rightarrow> bool" where
  "status_has_body status_code \<longleftrightarrow>
     \<not> ((100 \<le> status_code \<and> status_code < 200) \<or> status_code = 204 \<or> status_code = 304)"

text \<open>
  \<open>determine_body_kind\<close>: the result and the headers the decoder holds afterwards, as the branch
  for \<open>CONNECT\<close> removes \<open>Transfer-Encoding\<close> and \<open>Content-Length\<close> from them. The arguments are
  the fields the method reads.
\<close>

definition rs_determine_body_kind ::
  "string option \<Rightarrow> string option \<Rightarrow> header list \<Rightarrow> DecoderLimits \<Rightarrow> nat \<Rightarrow> (BodyKind, Error) result \<times> header list" where
  "rs_determine_body_kind request_method start_line hs l status_code =
     (if request_method = Some ''HEAD'' \<or> \<not> status_has_body status_code then (Ok BodyNone, hs)
      else if request_method = Some ''CONNECT'' \<and> 200 \<le> status_code \<and> status_code < 300 then
        (Ok BodyTunnel,
         filter (\<lambda>h. \<not> eq_ignore_ascii_case (fst h) ''Transfer-Encoding''
                   \<and> \<not> eq_ignore_ascii_case (fst h) ''Content-Length'') hs)
      else
        let version = (case start_line of Some sl \<Rightarrow> nth_part 0 sl | None \<Rightarrow> [])
        in (if version \<noteq> ''HTTP/1.1'' \<and> list_ex (\<lambda>h. eq_ignore_ascii_case (fst h) ''Transfer-Encoding'') hs
            then Err (InvalidData ''Transfer-Encoding is only defined for HTTP/1.1'')
            else and_then (resolve_body_headers_for_response hs) (\<lambda>(te_result, content_length).
              case te_result of
                TeChunked \<Rightarrow> Ok Chunked
              | TeOther \<Rightarrow> Ok CloseDelimited
              | TeNone \<Rightarrow>
                  (case content_length of
                     Some len \<Rightarrow>
                       if len > max_body_size l then Err (BodyTooLarge (min len usize_max) (max_body_size l))
                       else Ok (ContentLength len)
                   | None \<Rightarrow> Ok CloseDelimited)),
            hs))"

text \<open>The checks on a status line, from the CR/LF test to the reason phrase.\<close>

definition check_status_line :: "string \<Rightarrow> (unit, Error) result" where
  "check_status_line line =
     reject_if (CR \<in> set line \<or> LF \<in> set line) (InvalidData ''invalid status line: contains CR/LF'')
       (case splitn 3 SP line of
          version # status # rest \<Rightarrow>
            reject_if (\<not> is_valid_protocol_version version) (InvalidData ''invalid status line: invalid protocol version'')
             (and_then (ok_or (parse_u16 status) (InvalidData (''invalid status line: invalid status code: '' @ status)))
               (\<lambda>status_code.
                 reject_if (\<not> is_valid_status_code status_code)
                   (InvalidData (''invalid status line: status code out of range: '' @ nat_to_dec status_code))
                   (case rest of
                      reason # _ \<Rightarrow>
                        reject_if (reason \<noteq> [] \<and> \<not> is_valid_reason_phrase reason)
                          (InvalidData ''invalid status line: invalid reason-phrase'') (Ok ())
                    | [] \<Rightarrow> Ok ())))
        | _ \<Rightarrow> Err (InvalidData (''invalid status line: '' @ line)))"

definition sd_start_line_step ::
  "'d ResponseDecoder \<Rightarrow> ('d ResponseDecoder, (ResponseHead \<times> BodyKind, Error) result) step" where
  "sd_start_line_step st =
     (case find_line (sd_buf st) of
        None \<Rightarrow> Wait
      | Some pos \<Rightarrow>
          (case from_utf8 (take pos (sd_buf st)) of
             Err e \<Rightarrow> Done (Err (InvalidData (''invalid UTF-8: '' @ utf8_error_display e))) st
           | Panic \<Rightarrow> Done Panic st
           | Ok line \<Rightarrow>
               let st1 = st\<lparr>sd_buf := drain (pos + 2) (sd_buf st)\<rparr>
               in (case check_status_line line of
                     Ok _ \<Rightarrow> Next (st1\<lparr>sd_start_line := Some line, sd_phase := Headers\<rparr>)
                   | Err e \<Rightarrow> Done (Err e) st1
                   | Panic \<Rightarrow> Done Panic st1)))"

text \<open>\<open>parts[1].parse()\<close> of the stored line; the index panics when there is no second part.\<close>

definition stored_status_code :: "string \<Rightarrow> (nat, Error) result" where
  "stored_status_code line =
     (case splitn 3 SP line of
        _ # status # _ \<Rightarrow> ok_or (parse_u16 status) (InvalidData (''invalid status code: '' @ status))
      | _ \<Rightarrow> Panic)"

definition rs_body_phase :: "BodyKind \<Rightarrow> DecodePhase" where
  "rs_body_phase bk =
     (case bk of
        ContentLength len \<Rightarrow> if len > 0 then BodyContentLength len else PhaseComplete
      | Chunked \<Rightarrow> BodyChunkedSize
      | CloseDelimited \<Rightarrow> BodyCloseDelimited
      | BodyNone \<Rightarrow> PhaseComplete
      | BodyTunnel \<Rightarrow> Tunnel)"

text \<open>The empty line: status code, body kind, transition and the head.\<close>

definition sd_end_of_headers ::
  "'d ResponseDecoder \<Rightarrow> (ResponseHead \<times> BodyKind, Error) result \<times> 'd ResponseDecoder" where
  "sd_end_of_headers st0 =
     (let st = st0\<lparr>sd_buf := drain 2 (sd_buf st0)\<rparr>
      in case sd_start_line st of
           None \<Rightarrow> (Err (InvalidData ''missing status line''), st)
         | Some line \<Rightarrow>
             (case stored_status_code line of
                Err e \<Rightarrow> (Err e, st)
              | Panic \<Rightarrow> (Panic, st)
              | Ok status_code \<Rightarrow>
                  (case rs_determine_body_kind (sd_request_method st) (sd_start_line st) (sd_headers st) (sd_limits st) status_code of
                     (Err e, hs) \<Rightarrow> (Err e, st\<lparr>sd_headers := hs\<rparr>)
                   | (Panic, hs) \<Rightarrow> (Panic, st\<lparr>sd_headers := hs\<rparr>)
                   | (Ok body_kind, hs) \<Rightarrow>
                       let st1 = st\<lparr>sd_headers := hs, sd_phase := rs_body_phase body_kind,
                                   sd_body_decoder := set_declared_trailers (sd_body_decoder st) (collect_declared_trailers hs),
                                   sd_start_line := None\<rparr>;
                           parts = splitn 3 SP line;
                           reason = (if 2 < length parts then parts ! 2 else [])
                       in (Ok (sh_from_validated_parts (hd parts) status_code reason (sd_headers st1), body_kind),
                           st1\<lparr>sd_headers := []\<rparr>))))"

definition sd_header_line_step ::
  "'d ResponseDecoder \<Rightarrow> nat \<Rightarrow> ('d ResponseDecoder, (ResponseHead \<times> BodyKind, Error) result) step" where
  "sd_header_line_step st pos =
     (if pos > max_header_line_size (sd_limits st)
      then Done (Err (HeaderLineTooLong pos (max_header_line_size (sd_limits st)))) st
      else if length (sd_headers st) \<ge> max_headers_count (sd_limits st)
      then Done (Err (TooManyHeaders (length (sd_headers st) + 1) (max_headers_count (sd_limits st)))) st
      else
        (case from_utf8 (take pos (sd_buf st)) of
           Err e \<Rightarrow> Done (Err (InvalidData (''invalid UTF-8: '' @ utf8_error_display e))) st
         | Panic \<Rightarrow> Done Panic st
         | Ok line \<Rightarrow>
             let st1 = st\<lparr>sd_buf := drain (pos + 2) (sd_buf st)\<rparr>
             in (case parse_header_line line of
                   Ok h \<Rightarrow> Next (st1\<lparr>sd_headers := sd_headers st1 @ [h]\<rparr>)
                 | Err e \<Rightarrow> Done (Err e) st1
                 | Panic \<Rightarrow> Done Panic st1)))"

definition sd_next_message :: "'d Decompressor \<Rightarrow> 'd ResponseDecoder \<Rightarrow> 'd ResponseDecoder" where
  "sd_next_message D st = st\<lparr>sd_phase := StartLine, sd_start_line := None, sd_headers := [],
     sd_body_decoder := bd_reset (sd_body_decoder st),
     sd_decompressor := decompressor_reset D (sd_decompressor st), sd_request_method := None\<rparr>"

definition sd_step ::
  "'d Decompressor \<Rightarrow> 'd ResponseDecoder \<Rightarrow> ('d ResponseDecoder, (ResponseHead \<times> BodyKind, Error) result) step" where
  "sd_step D st =
     (case sd_phase st of
        StartLine \<Rightarrow> sd_start_line_step st
      | Headers \<Rightarrow>
          (case find_line (sd_buf st) of
             None \<Rightarrow> Wait
           | Some pos \<Rightarrow>
               if pos = 0 then (case sd_end_of_headers st of (r, st') \<Rightarrow> Done r st')
               else sd_header_line_step st pos)
      | PhaseComplete \<Rightarrow> Next (sd_next_message D st)
      | Tunnel \<Rightarrow> Done (Err (InvalidData ''decode_headers cannot be used in tunnel mode'')) st
      | _ \<Rightarrow> Done (Err (InvalidData ''decode_headers called during body decoding'')) st)"

definition sd_left :: "'d ResponseDecoder \<Rightarrow> nat" where
  "sd_left st = length (sd_buf st) + (if sd_phase st = PhaseComplete then 1 else 0)"

lemma sd_step_decreases: "sd_step D st = Next st' \<Longrightarrow> sd_left st' < sd_left st"
  by (auto simp: sd_step_def sd_start_line_step_def sd_header_line_step_def sd_next_message_def sd_left_def Let_def
      dest!: find_line_SomeD(1)
      split: DecodePhase.splits option.splits if_splits result.splits prod.splits)

function sd_decode_headers ::
  "'d Decompressor \<Rightarrow> 'd ResponseDecoder \<Rightarrow> ((ResponseHead \<times> BodyKind) option, Error) result \<times> 'd ResponseDecoder"
where
  "sd_decode_headers D st =
     (case sd_step D st of
        Next st' \<Rightarrow> sd_decode_headers D st'
      | Wait \<Rightarrow> (Ok None, st)
      | Done r st' \<Rightarrow> (and_then r (\<lambda>x. Ok (Some x)), st'))"
  by pat_completeness auto
termination
  by (relation "measure (\<lambda>(_, st). sd_left st)") (auto simp: sd_step_decreases)

declare sd_decode_headers.simps [simp del]

section \<open>The body\<close>

definition sd_peek_body :: "'d ResponseDecoder \<Rightarrow> string option" where
  "sd_peek_body st = bd_peek_body (sd_buf st) (sd_phase st)"

text \<open>Returns the status, the decoder and the new contents of the output buffer.\<close>

definition sd_peek_body_decompressed ::
  "'d Decompressor \<Rightarrow> 'd ResponseDecoder \<Rightarrow> string \<Rightarrow> (CompressionStatus option, Error) result \<times> 'd ResponseDecoder \<times> string"
where
  "sd_peek_body_decompressed D st out =
     (let input = (case bd_peek_body (sd_buf st) (sd_phase st) of Some b \<Rightarrow> b | None \<Rightarrow> [])
      in case decompress D (sd_decompressor st) input out of
           (r, d', out') \<Rightarrow>
             (and_then (map_err Compression r) (\<lambda>status.
                case status of
                  CompContinue c p \<Rightarrow> if c = 0 \<and> p = 0 then Ok None else Ok (Some status)
                | CompComplete c p \<Rightarrow> if c = 0 \<and> p = 0 then Ok None else Ok (Some status)
                | CompOutputFull c p \<Rightarrow> Ok (Some status)),
              st\<lparr>sd_decompressor := d'\<rparr>, out'))"

definition sd_put_body ::
  "'d ResponseDecoder \<Rightarrow> (BodyProgress, Error) result \<times> BodyDecoder \<times> string \<times> DecodePhase \<Rightarrow>
     (BodyProgress, Error) result \<times> 'd ResponseDecoder" where
  "sd_put_body st t =
     (case t of (r, bd, buf, ph) \<Rightarrow> (r, st\<lparr>sd_body_decoder := bd, sd_buf := buf, sd_phase := ph\<rparr>))"

definition sd_consume_body :: "'d ResponseDecoder \<Rightarrow> nat \<Rightarrow> (BodyProgress, Error) result \<times> 'd ResponseDecoder" where
  "sd_consume_body st len =
     sd_put_body st (dec_consume_body (sd_body_decoder st) (sd_buf st) (sd_phase st) len (sd_limits st))"

definition sd_progress :: "'d ResponseDecoder \<Rightarrow> (BodyProgress, Error) result \<times> 'd ResponseDecoder" where
  "sd_progress st = sd_put_body st (dec_progress (sd_body_decoder st) (sd_buf st) (sd_phase st) (sd_limits st))"

section \<open>decode\<close>

definition sd_body_loop :: "'d ResponseDecoder \<Rightarrow> (bool, Error) result \<times> 'd ResponseDecoder" where
  "sd_body_loop st =
     (case body_loop (sd_limits st) (sd_body_decoder st) (sd_buf st) (sd_phase st) (sd_decoded_body st) of
        (r, bd, buf, ph, body) \<Rightarrow>
          (r, st\<lparr>sd_body_decoder := bd, sd_buf := buf, sd_phase := ph, sd_decoded_body := body\<rparr>))"

text \<open>The branch for a close-delimited body: take what is there; the flag says whether the end was marked.\<close>

definition sd_close_delimited :: "'d ResponseDecoder \<Rightarrow> (bool, Error) result \<times> 'd ResponseDecoder" where
  "sd_close_delimited st =
     (case bd_peek_body (sd_buf st) (sd_phase st) of
        None \<Rightarrow> (Ok (sd_phase st = PhaseComplete), st)
      | Some dat \<Rightarrow>
          (case checked_add (length (sd_decoded_body st)) (length dat) of
             None \<Rightarrow> (Err (BodyTooLarge usize_max (max_body_size (sd_limits st))), st)
           | Some new_size \<Rightarrow>
               if new_size > max_body_size (sd_limits st)
               then (Err (BodyTooLarge new_size (max_body_size (sd_limits st))), st)
               else
                 (case sd_consume_body (st\<lparr>sd_decoded_body := sd_decoded_body st @ dat\<rparr>) (length dat) of
                    (Ok _, st') \<Rightarrow> (Ok (sd_phase st' = PhaseComplete), st')
                  | (Err e, st') \<Rightarrow> (Err e, st')
                  | (Panic, st') \<Rightarrow> (Panic, st'))))"

definition sd_build_response ::
  "'d Decompressor \<Rightarrow> BodyKind \<Rightarrow> 'd ResponseDecoder \<Rightarrow> (Response option, Error) result \<times> 'd ResponseDecoder" where
  "sd_build_response D bk st =
     (case sd_decoded_head st of
        None \<Rightarrow> (Panic, st)
      | Some head \<Rightarrow>
          let body = (case bk of BodyNone \<Rightarrow> None | BodyTunnel \<Rightarrow> None | _ \<Rightarrow> Some (sd_decoded_body st))
          in (Ok (Some (rs_from_raw_parts (sh_version head) (sh_status_code head) (sh_reason_phrase head) (sh_headers head) body)),
              st\<lparr>sd_decoded_head := None, sd_phase := StartLine, sd_decoded_body_kind := None, sd_decoded_body := [],
                 sd_body_decoder := bd_reset (sd_body_decoder st),
                 sd_decompressor := decompressor_reset D (sd_decompressor st), sd_request_method := None\<rparr>))"

definition sd_decode_body ::
  "'d Decompressor \<Rightarrow> 'd ResponseDecoder \<Rightarrow> (Response option, Error) result \<times> 'd ResponseDecoder" where
  "sd_decode_body D st =
     (case sd_decoded_body_kind st of
        None \<Rightarrow> (Panic, st)
      | Some bk \<Rightarrow>
          if bk = BodyTunnel
          then (Err (InvalidData ''decode() cannot be used in tunnel mode, use take_remaining() instead''), st)
          else if bk = BodyNone then sd_build_response D bk st
          else
            (case (if bk = CloseDelimited then sd_close_delimited st else sd_body_loop st) of
               (Ok True, st') \<Rightarrow> sd_build_response D bk st'
             | (Ok False, st') \<Rightarrow> (Ok None, st')
             | (Err e, st') \<Rightarrow> (Err e, st')
             | (Panic, st') \<Rightarrow> (Panic, st')))"

definition sd_decode ::
  "'d Decompressor \<Rightarrow> 'd ResponseDecoder \<Rightarrow> (Response option, Error) result \<times> 'd ResponseDecoder" where
  "sd_decode D st =
     (if sd_decoded_head st = None then
        (if sd_phase st = StartLine \<or> sd_phase st = Headers then
           (case sd_decode_headers D st of
              (Ok None, st') \<Rightarrow> (Ok None, st')
            | (Ok (Some (head, bk)), st') \<Rightarrow>
                sd_decode_body D (st'\<lparr>sd_decoded_head := Some head, sd_decoded_body_kind := Some bk\<rparr>)
            | (Err e, st') \<Rightarrow> (Err e, st')
            | (Panic, st') \<Rightarrow> (Panic, st'))
         else (Err (InvalidData ''decode cannot be mixed with streaming API''), st))
      else sd_decode_body D st)"

end
