(* ===== verification/Response_Correct.thy ===== *)
theory Response_Correct
  imports Response_Decoder
begin

text \<open>
  Correctness of the response decoder, along the lines of the request decoder: independence of
  how the input is cut, valid heads, limits, no panics, and the framing decision of RFC 9112
  section 6.3.
\<close>

section \<open>However the input is cut: the header loop\<close>

definition sd_app :: "'d ResponseDecoder \<Rightarrow> string \<Rightarrow> 'd ResponseDecoder" where
  "sd_app st d = st\<lparr>sd_buf := sd_buf st @ d\<rparr>"

lemma sd_app_simps [simp]:
  "sd_buf (sd_app st d) = sd_buf st @ d" "sd_phase (sd_app st d) = sd_phase st"
  "sd_start_line (sd_app st d) = sd_start_line st" "sd_headers (sd_app st d) = sd_headers st"
  "sd_body_decoder (sd_app st d) = sd_body_decoder st" "sd_limits (sd_app st d) = sd_limits st"
  "sd_decoded_head (sd_app st d) = sd_decoded_head st" "sd_decoded_body_kind (sd_app st d) = sd_decoded_body_kind st"
  "sd_decoded_body (sd_app st d) = sd_decoded_body st" "sd_decompressor (sd_app st d) = sd_decompressor st"
  "sd_request_method (sd_app st d) = sd_request_method st" "sd_pending (sd_app st d) = sd_pending st"
  by (simp_all add: sd_app_def)

lemma sd_app_app: "sd_app (sd_app st a) b = sd_app st (a @ b)"
  by (simp add: sd_app_def)

lemma sd_app_Nil: "sd_app st [] = st"
  by (simp add: sd_app_def)

lemma sd_end_of_headers_app:
  "2 \<le> length (sd_buf st) \<Longrightarrow>
     sd_end_of_headers (sd_app st d) = (case sd_end_of_headers st of (r, st') \<Rightarrow> (r, sd_app st' d))"
  by (simp add: sd_end_of_headers_def sd_app_def Let_def split: option.split result.split prod.split)

lemma sd_step_app:
  assumes "sd_step D st \<noteq> Wait"
  shows "sd_step D (sd_app st d) = map_step (\<lambda>t. sd_app t d) (sd_step D st)"
proof (cases "sd_phase st = StartLine \<or> sd_phase st = Headers")
  case True
  then obtain pos where pos: "find_line (sd_buf st) = Some pos"
    using assms by (cases "find_line (sd_buf st)") (auto simp: sd_step_def sd_start_line_step_def)
  have le: "pos + 2 \<le> length (sd_buf st)" using find_line_SomeD(1) [OF pos] .
  then have *: "take pos (sd_buf st @ d) = take pos (sd_buf st)"
      "drop (pos + 2) (sd_buf st @ d) = drop (pos + 2) (sd_buf st) @ d" by simp_all
  note pos' = find_line_append [OF pos, of d]
  show ?thesis
  proof (cases "sd_phase st = StartLine")
    case True
    then show ?thesis
      using pos pos' *
      by (simp add: sd_step_def sd_start_line_step_def sd_app_def Let_def split: result.split del: take_append drop_append)
  next
    case False
    with True have ph: "sd_phase st = Headers" by simp
    show ?thesis
    proof (cases "pos = 0")
      case True
      then show ?thesis
        using ph pos pos' le sd_end_of_headers_app [of st d]
        by (simp add: sd_step_def split: prod.split)
    next
      case False
      have "sd_header_line_step (sd_app st d) pos = map_step (\<lambda>t. sd_app t d) (sd_header_line_step st pos)"
        using * by (simp add: sd_header_line_step_def sd_app_def Let_def split: result.split del: take_append drop_append)
      with False ph pos pos' show ?thesis by (simp add: sd_step_def)
    qed
  qed
next
  case False
  then show ?thesis
    by (cases "sd_phase st") (simp_all add: sd_step_def sd_next_message_def sd_app_def)
qed

definition sd_run ::
  "'d Decompressor \<Rightarrow> 'd ResponseDecoder \<Rightarrow> (ResponseHead \<times> BodyKind, Error) result option \<times> 'd ResponseDecoder" where
  "sd_run D st =
     (case sd_decode_headers D st of
        (Ok None, st') \<Rightarrow> (None, st')
      | (Ok (Some x), st') \<Rightarrow> (Some (Ok x), st')
      | (Err e, st') \<Rightarrow> (Some (Err e), st')
      | (Panic, st') \<Rightarrow> (Some Panic, st'))"

lemma sd_run_step:
  "sd_run D st = (case sd_step D st of Next st' \<Rightarrow> sd_run D st' | Done r st' \<Rightarrow> (Some r, st') | Wait \<Rightarrow> (None, st))"
  by (simp add: sd_run_def sd_decode_headers.simps [of D st] and_then_def split: step.split result.split)

interpretation sd_loop: incremental_loop "sd_step D" "sd_run D" sd_app sd_left for D
  by unfold_locales (simp_all add: sd_run_step [symmetric] sd_step_decreases sd_step_app sd_app_app sd_app_Nil)

section \<open>What a checked status line is\<close>

definition status_line_parts :: "string \<Rightarrow> nat \<Rightarrow> string \<Rightarrow> bool" where
  "status_line_parts v num reason \<longleftrightarrow> is_valid_protocol_version v \<and> is_valid_status_code num
     \<and> (reason = [] \<or> is_valid_reason_phrase reason)"

text \<open>The fields \<open>decode_headers\<close> reads from a status line when the header section ends.\<close>

definition status_line_fields :: "string \<Rightarrow> string \<Rightarrow> nat \<Rightarrow> string \<Rightarrow> bool" where
  "status_line_fields line v num reason \<longleftrightarrow> status_line_parts v num reason
     \<and> stored_status_code line = Ok num \<and> hd (splitn 3 SP line) = v
     \<and> reason = (if 2 < length (splitn 3 SP line) then splitn 3 SP line ! 2 else []) \<and> nth_part 0 line = v"

lemma nth_part_0: "SP \<notin> set a \<Longrightarrow> nth_part 0 (a @ SP # b) = a"
  by (simp add: nth_part_def split_on_append_sep)

lemma check_status_line_ok:
  assumes "check_status_line line = Ok u"
  obtains v num reason where "status_line_fields line v num reason"
proof -
  obtain v s rest num where p: "splitn 3 SP line = v # s # rest" "is_valid_protocol_version v"
    "parse_u16 s = Some num" "is_valid_status_code num"
    and r: "case rest of reason # _ \<Rightarrow> reason = [] \<or> is_valid_reason_phrase reason | [] \<Rightarrow> True"
    using assms by (auto simp: check_status_line_def result_iff split: list.splits)
  let ?reason = "case rest of reason # _ \<Rightarrow> reason | [] \<Rightarrow> []"
  have "nth_part 0 line = v" using splitn_3_cases [of SP line] p(1) nth_part_0 by auto
  moreover have "length rest \<le> 1" using splitn_3_cases [of SP line] p(1) by auto
  ultimately have "status_line_fields line v num ?reason"
    using p r by (auto simp: status_line_fields_def status_line_parts_def stored_status_code_def ok_or_def split: list.splits)
  then show thesis by (rule that)
qed

lemma check_status_line_not_Panic [simp]: "check_status_line line \<noteq> Panic"
  by (auto simp: check_status_line_def panic_iff split: list.splits)

lemma rs_determine_body_kind_not_Panic [simp]: "fst (rs_determine_body_kind m sl hs l num) \<noteq> Panic"
  by (auto simp: rs_determine_body_kind_def panic_iff Let_def split: prod.splits option.splits TransferEncodingResult.splits)

section \<open>Invariant\<close>

definition response_head_ok :: "ResponseHead \<Rightarrow> bool" where
  "response_head_ok h \<longleftrightarrow> status_line_parts (sh_version h) (sh_status_code h) (sh_reason_phrase h)
     \<and> list_all header_ok (sh_headers h)"

definition sd_inv :: "'d ResponseDecoder \<Rightarrow> bool" where
  "sd_inv st \<longleftrightarrow> body_inv (sd_limits st) (sd_body_decoder st) (sd_phase st)
     \<and> list_all header_ok (sd_headers st) \<and> length (sd_headers st) \<le> max_headers_count (sd_limits st)
     \<and> (sd_phase st \<noteq> Headers \<longrightarrow> sd_headers st = [])
     \<and> (sd_phase st = StartLine \<longrightarrow> idle_body (sd_body_decoder st))
     \<and> (sd_phase st = Headers \<longrightarrow> idle_body (sd_body_decoder st)
          \<and> (\<exists>line. sd_start_line st = Some line \<and> check_status_line line = Ok ()))
     \<and> (\<forall>h. sd_decoded_head st = Some h \<longrightarrow> response_head_ok h \<and> sd_decoded_body_kind st \<noteq> None)"

lemma sd_inv_app [simp]: "sd_inv (sd_app st d) = sd_inv st"
  by (simp add: sd_inv_def)

lemma rs_body_phase_simps [simp]: "rs_body_phase bk \<noteq> StartLine" "rs_body_phase bk \<noteq> Headers"
  by (simp_all add: rs_body_phase_def split: BodyKind.split)

lemma rs_determine_body_kind_ok:
  assumes "rs_determine_body_kind m sl hs l num = (Ok bk, hs')"
  shows "pending_body (rs_body_phase bk) \<le> max_body_size l" "\<exists>P. hs' = filter P hs"
proof -
  have "case bk of ContentLength n \<Rightarrow> n \<le> max_body_size l | _ \<Rightarrow> True"
    using assms by (auto simp: rs_determine_body_kind_def result_iff Let_def
        split: if_splits option.splits TransferEncodingResult.splits)
  then show "pending_body (rs_body_phase bk) \<le> max_body_size l"
    by (auto simp: rs_body_phase_def split: BodyKind.splits)
  have "hs = filter (\<lambda>_. True) hs" by simp
  moreover have "hs' = hs \<or> (\<exists>P. hs' = filter P hs)"
    using assms by (auto simp: rs_determine_body_kind_def Let_def split: if_splits)
  ultimately show "\<exists>P. hs' = filter P hs" by metis
qed

lemma rs_determine_body_kind_err:
  "rs_determine_body_kind m sl hs l num = (Err e, hs') \<Longrightarrow> hs' = hs"
  by (auto simp: rs_determine_body_kind_def Let_def split: if_splits)

text \<open>What ending the header section yields when the line was checked.\<close>

lemma sd_end_of_headers_ok:
  assumes "sd_start_line st = Some line" "check_status_line line = Ok ()"
  obtains (error) e where "sd_end_of_headers st = (Err e, st\<lparr>sd_buf := drop 2 (sd_buf st)\<rparr>)"
  | (head) v num reason bk hs where "status_line_fields line v num reason"
      "rs_determine_body_kind (sd_request_method st) (Some line) (sd_headers st) (sd_limits st) num = (Ok bk, hs)"
      "sd_end_of_headers st =
         (Ok (\<lparr>sh_version = v, sh_status_code = num, sh_reason_phrase = reason, sh_headers = hs\<rparr>, bk),
          st\<lparr>sd_buf := drop 2 (sd_buf st), sd_phase := rs_body_phase bk,
             sd_body_decoder := set_declared_trailers (sd_body_decoder st) (collect_declared_trailers hs),
             sd_start_line := None, sd_headers := []\<rparr>)"
proof -
  obtain v num reason where f: "status_line_fields line v num reason" using check_status_line_ok [OF assms(2)] .
  obtain k hs where k: "rs_determine_body_kind (sd_request_method st) (Some line) (sd_headers st) (sd_limits st) num = (k, hs)"
    by (cases "rs_determine_body_kind (sd_request_method st) (Some line) (sd_headers st) (sd_limits st) num") auto
  have sc: "stored_status_code line = Ok num" using f by (simp add: status_line_fields_def)
  have "k \<noteq> Panic" using rs_determine_body_kind_not_Panic k by (metis fst_conv)
  show thesis
  proof (cases k)
    case (Ok bk)
    with f k sc assms(1) show thesis
      by (intro head [OF f]) (auto simp: sd_end_of_headers_def sh_from_validated_parts_def status_line_fields_def Let_def)
  next
    case (Err e)
    with k rs_determine_body_kind_err have "hs = sd_headers st" by blast
    with Err k sc assms(1) show thesis by (intro error [of e]) (simp add: sd_end_of_headers_def)
  next
    case Panic
    with \<open>k \<noteq> Panic\<close> show thesis by simp
  qed
qed

lemma sd_end_of_headers_inv:
  assumes "sd_inv st" "sd_phase st = Headers" "sd_end_of_headers st = (r, st')"
  shows "sd_inv st' \<and> r \<noteq> Panic \<and> (\<forall>h bk. r = Ok (h, bk) \<longrightarrow> response_head_ok h
     \<and> length (sh_headers h) \<le> max_headers_count (sd_limits st) \<and> sd_phase st' = rs_body_phase bk)"
proof -
  obtain line where l: "sd_start_line st = Some line" "check_status_line line = Ok ()"
    and idle: "idle_body (sd_body_decoder st)" using assms(1,2) by (auto simp: sd_inv_def)
  show ?thesis
  proof (cases rule: sd_end_of_headers_ok [OF l])
    case (1 e)
    with assms l show ?thesis by (auto simp: sd_inv_def)
  next
    case (2 v num reason bk hs)
    obtain P where P: "hs = filter P (sd_headers st)" using rs_determine_body_kind_ok(2) [OF 2(2)] ..
    have hs: "list_all header_ok hs" "length hs \<le> max_headers_count (sd_limits st)"
      using assms(1) order_trans [OF length_filter_le [of P "sd_headers st"]] by (simp_all add: P sd_inv_def list_all_iff)
    have p: "status_line_parts v num reason" using 2(1) unfolding status_line_fields_def by blast
    have b: "body_inv (sd_limits st) (set_declared_trailers (sd_body_decoder st) (collect_declared_trailers hs)) (rs_body_phase bk)"
      using rs_determine_body_kind_ok(1) [OF 2(2)] idle by (intro idle_body_inv) simp_all
    from 2(3) assms(3) have r: "r = Ok (\<lparr>sh_version = v, sh_status_code = num, sh_reason_phrase = reason, sh_headers = hs\<rparr>, bk)"
      "st' = st\<lparr>sd_buf := drop 2 (sd_buf st), sd_phase := rs_body_phase bk,
             sd_body_decoder := set_declared_trailers (sd_body_decoder st) (collect_declared_trailers hs),
             sd_start_line := None, sd_headers := []\<rparr>" by simp_all
    have "sd_inv st'" using assms(1) b by (simp add: r sd_inv_def)
    with hs p show ?thesis by (simp add: r response_head_ok_def)
  qed
qed

lemma sd_step_inv:
  assumes "sd_inv st"
  shows "sd_step D st = Next st' \<Longrightarrow> sd_inv st'"
    and "sd_step D st = Done r st' \<Longrightarrow> sd_inv st' \<and>
      (\<forall>h bk. r = Ok (h, bk) \<longrightarrow> response_head_ok h \<and> length (sh_headers h) \<le> max_headers_count (sd_limits st)
         \<and> sd_phase st' = rs_body_phase bk)"
proof -
  have n: "sd_inv (sd_next_message D st)" if "sd_phase st = PhaseComplete"
    using assms that by (auto simp: sd_inv_def sd_next_message_def intro!: idle_body_inv)
  have s: "body_inv l bd Headers = body_inv l bd StartLine" for l bd by (simp add: body_inv_def)
  show "sd_step D st = Next st' \<Longrightarrow> sd_inv st'"
    using assms n
    by (auto simp: sd_step_def sd_start_line_step_def sd_header_line_step_def Let_def sd_inv_def s parse_header_line_ok
        split: DecodePhase.splits option.splits if_splits result.splits prod.splits)
  show "sd_step D st = Done r st' \<Longrightarrow> sd_inv st' \<and>
      (\<forall>h bk. r = Ok (h, bk) \<longrightarrow> response_head_ok h \<and> length (sh_headers h) \<le> max_headers_count (sd_limits st)
         \<and> sd_phase st' = rs_body_phase bk)"
  proof (cases "sd_phase st = Headers \<and> find_line (sd_buf st) = Some 0")
    case True
    then show "sd_step D st = Done r st' \<Longrightarrow> ?thesis"
      using sd_end_of_headers_inv [OF assms] by (auto simp: sd_step_def split: prod.splits)
  next
    case False
    then show "sd_step D st = Done r st' \<Longrightarrow> ?thesis"
      using assms
      by (auto simp: sd_step_def sd_start_line_step_def sd_header_line_step_def Let_def sd_inv_def
        split: DecodePhase.splits option.splits if_splits result.splits)
  qed
qed

section \<open>decode_headers\<close>

lemma sd_end_of_headers_keeps:
  "sd_end_of_headers st = (r, st') \<Longrightarrow>
     sd_limits st' = sd_limits st \<and> sd_decoded_head st' = sd_decoded_head st
     \<and> sd_decoded_body_kind st' = sd_decoded_body_kind st \<and> sd_decoded_body st' = sd_decoded_body st
     \<and> sd_pending st' = sd_pending st \<and> sd_buf st' = drop 2 (sd_buf st)"
  by (auto simp: sd_end_of_headers_def Let_def split: option.splits result.splits prod.splits)

definition sd_keeps :: "'d ResponseDecoder \<Rightarrow> 'd ResponseDecoder \<Rightarrow> bool" where
  "sd_keeps st st' \<longleftrightarrow> sd_limits st' = sd_limits st \<and> sd_decoded_head st' = sd_decoded_head st
     \<and> sd_decoded_body_kind st' = sd_decoded_body_kind st \<and> sd_decoded_body st' = sd_decoded_body st
     \<and> sd_pending st' = sd_pending st \<and> (\<exists>k. sd_buf st' = drop k (sd_buf st))"

lemma sd_keeps_refl: "sd_keeps st st"
  by (auto simp: sd_keeps_def intro: exI [of _ 0])

lemma sd_keeps_trans: "sd_keeps a b \<Longrightarrow> sd_keeps b c \<Longrightarrow> sd_keeps a c"
  by (auto simp: sd_keeps_def)

lemma sd_step_keeps:
  shows "sd_step D st = Next st' \<Longrightarrow> sd_keeps st st'" and "sd_step D st = Done r st' \<Longrightarrow> sd_keeps st st'"
proof -
  show "sd_step D st = Next st' \<Longrightarrow> sd_keeps st st'"
    by (auto simp: sd_keeps_def sd_step_def sd_start_line_step_def sd_header_line_step_def sd_next_message_def Let_def
        intro: exI [of _ 0] split: DecodePhase.splits option.splits if_splits result.splits prod.splits)
  assume d: "sd_step D st = Done r st'"
  show "sd_keeps st st'"
  proof (cases "sd_phase st = Headers \<and> find_line (sd_buf st) = Some 0")
    case True
    with d have "sd_end_of_headers st = (r, st')" by (simp add: sd_step_def split: prod.splits)
    then show ?thesis using sd_end_of_headers_keeps [of st r st'] by (auto simp: sd_keeps_def)
  next
    case False
    with d show ?thesis
      by (auto simp: sd_keeps_def sd_step_def sd_start_line_step_def sd_header_line_step_def Let_def
        intro: exI [of _ 0] split: DecodePhase.splits option.splits if_splits result.splits)
  qed
qed

lemma sd_decode_headers_keeps: "sd_decode_headers D st = (r, st') \<Longrightarrow> sd_keeps st st'"
proof (induction D st rule: sd_decode_headers.induct)
  case (1 D st)
  then show ?case
    using sd_step_keeps [of D st] sd_keeps_trans [of st]
    by (cases "sd_step D st") (auto simp: sd_decode_headers.simps [of D st] intro: sd_keeps_refl)
qed

lemma sd_decode_headers_inv:
  "sd_decode_headers D st = (r, st') \<Longrightarrow> sd_inv st \<Longrightarrow> sd_inv st' \<and>
     (\<forall>h bk. r = Ok (Some (h, bk)) \<longrightarrow> response_head_ok h \<and> length (sh_headers h) \<le> max_headers_count (sd_limits st)
        \<and> sd_phase st' = rs_body_phase bk)"
proof (induction D st rule: sd_decode_headers.induct)
  case (1 D st)
  show ?case
  proof (cases "sd_step D st")
    case (Next s)
    with 1 sd_step_inv(1) [OF "1.prems"(2) Next] sd_step_keeps(1) [OF Next] show ?thesis
      by (auto simp: sd_decode_headers.simps [of D st] sd_keeps_def)
  next
    case (Done rr s)
    with 1 sd_step_inv(2) [OF "1.prems"(2) Done] show ?thesis
      by (auto simp: sd_decode_headers.simps [of D st] result_iff)
  next
    case Wait
    with 1 show ?thesis by (auto simp: sd_decode_headers.simps [of D st])
  qed
qed

lemma sd_step_not_Panic:
  assumes "sd_inv st" "sd_step D st = Done r st'"
  shows "r \<noteq> Panic"
proof (cases "sd_phase st = Headers \<and> find_line (sd_buf st) = Some 0")
  case True
  then have "sd_end_of_headers st = (r, st')" using assms(2) by (simp add: sd_step_def split: prod.splits)
  with sd_end_of_headers_inv [OF assms(1)] True show ?thesis by blast
next
  case False
  with assms(2) show ?thesis
    by (auto simp: sd_step_def sd_start_line_step_def sd_header_line_step_def Let_def result_iff
        split: DecodePhase.splits option.splits if_splits result.splits)
qed

lemma sd_decode_headers_not_Panic: "sd_inv st \<Longrightarrow> sd_decode_headers D st = (r, st') \<Longrightarrow> r \<noteq> Panic"
proof (induction D st rule: sd_decode_headers.induct)
  case (1 D st)
  show ?case
  proof (cases "sd_step D st")
    case (Next s)
    with 1 sd_step_inv(1) [OF "1.prems"(1) Next] show ?thesis by (auto simp: sd_decode_headers.simps [of D st])
  next
    case (Done rr s)
    with sd_step_not_Panic [OF "1.prems"(1) Done] "1.prems"(2) show ?thesis
      by (auto simp: sd_decode_headers.simps [of D st] panic_iff)
  next
    case Wait
    with 1 show ?thesis by (auto simp: sd_decode_headers.simps [of D st])
  qed
qed

section \<open>However the input is cut: decode\<close>

lemma sd_run_inject: "sd_run D st = sd_run D st' \<Longrightarrow> sd_decode_headers D st = sd_decode_headers D st'"
  by (auto simp: sd_run_def split: prod.splits result.splits option.splits)

lemma sd_decode_headers_app:
  "sd_decode_headers D (sd_app st d) =
     (case sd_decode_headers D st of (Ok None, st') \<Rightarrow> sd_decode_headers D (sd_app st' d) | (r, st') \<Rightarrow> (r, sd_app st' d))"
proof -
  obtain r st' where r: "sd_decode_headers D st = (r, st')" by (cases "sd_decode_headers D st") auto
  show ?thesis
  proof (cases "r = Ok None")
    case True
    then have "sd_run D st = (None, st')" using r by (simp add: sd_run_def)
    then have "sd_run D (sd_app st d) = sd_run D (sd_app st' d)" by (rule sd_loop.run_resume [OF TrueI])
    then have "sd_decode_headers D (sd_app st d) = sd_decode_headers D (sd_app st' d)" by (rule sd_run_inject)
    then show ?thesis using r True by simp
  next
    case False
    then obtain x where x: "sd_run D st = (Some x, st')" "r = and_then x (\<lambda>y. Ok (Some y))"
      using r by (cases r) (auto simp: sd_run_def)
    have "sd_run D (sd_app st d) = (Some x, sd_app st' d)" using x(1) by (rule sd_loop.run_done [OF TrueI])
    then have "sd_decode_headers D (sd_app st d) = (r, sd_app st' d)"
      using x(2) by (auto simp: sd_run_def split: prod.splits result.splits option.splits)
    then show ?thesis using r False by (auto split: result.splits option.splits)
  qed
qed

lemma sd_decode_headers_waits:
  "sd_decode_headers D st = (Ok None, st') \<Longrightarrow> sd_phase st' = StartLine \<or> sd_phase st' = Headers"
proof (induction D st rule: sd_decode_headers.induct)
  case (1 D st)
  have "sd_step D st = Wait \<Longrightarrow> sd_phase st = StartLine \<or> sd_phase st = Headers"
    by (auto simp: sd_step_def split: DecodePhase.splits)
  with 1 show ?case
    by (cases "sd_step D st") (auto simp: sd_decode_headers.simps [of D st] result_iff)
qed

lemma sd_build_response_app:
  "sd_build_response D bk (sd_app st d) = (case sd_build_response D bk st of (r, st') \<Rightarrow> (r, sd_app st' d))"
  by (simp add: sd_build_response_def sd_app_def split: option.split BodyKind.split)

lemma sd_body_loop_app:
  assumes "loop_phase (sd_phase st)" "sd_inv st" "max_body_size (sd_limits st) \<le> usize_max"
  shows "sd_body_loop (sd_app st d) =
    (case sd_body_loop st of (Ok False, st') \<Rightarrow> sd_body_loop (sd_app st' d) | (r, st') \<Rightarrow> (r, sd_app st' d))"
proof -
  have "body_consumed (sd_body_decoder st) + pending_body (sd_phase st) \<le> usize_max"
    using assms(2,3) by (auto simp: sd_inv_def body_inv_def)
  note app = body_loop_app [OF assms(1) this, of "sd_limits st" "sd_buf st" d "sd_decoded_body st"]
  show ?thesis
    unfolding sd_body_loop_def sd_app_simps app
    by (auto simp: sd_app_def body_cont_def split: prod.splits result.splits bool.splits)
qed

text \<open>
  A close-delimited body is limited, and the size an overflow error reports is the size at the
  moment it is found; so pieces matter for that error message. What a caller observes is taken
  up to the error: more bytes needed, a response, or failure.
\<close>

definition sd_observe ::
  "(Response option, Error) result \<times> 'd ResponseDecoder \<Rightarrow> Response option option \<times> 'd ResponseDecoder option" where
  "sd_observe x =
     (case x of
        (Ok None, st) \<Rightarrow> (None, Some st)
      | (Ok (Some q), st) \<Rightarrow> (Some (Some q), Some st)
      | (_, st) \<Rightarrow> (Some None, None))"

definition sd_decode_run ::
  "'d Decompressor \<Rightarrow> 'd ResponseDecoder option \<Rightarrow> Response option option \<times> 'd ResponseDecoder option" where
  "sd_decode_run D so = (case so of None \<Rightarrow> (Some None, None) | Some st \<Rightarrow> sd_observe (sd_decode D st))"

definition sd_app_opt :: "'d ResponseDecoder option \<Rightarrow> string \<Rightarrow> 'd ResponseDecoder option" where
  "sd_app_opt so d = map_option (\<lambda>st. sd_app st d) so"

lemma sd_app_opt_simps [simp]: "sd_app_opt None d = None" "sd_app_opt (Some st) d = Some (sd_app st d)"
  by (simp_all add: sd_app_opt_def)

text \<open>\<open>y\<close> is what the operation does on more bytes when \<open>x\<close> is what it does now; \<open>z\<close> continues after waiting.\<close>

definition continues ::
  "Response option option \<times> 'd ResponseDecoder option \<Rightarrow> string \<Rightarrow>
     ('d ResponseDecoder \<Rightarrow> Response option option \<times> 'd ResponseDecoder option) \<Rightarrow>
     Response option option \<times> 'd ResponseDecoder option" where
  "continues x d z = (case x of (None, Some st) \<Rightarrow> z st | (r, so) \<Rightarrow> (r, sd_app_opt so d))"

lemma sd_observe_exact:
  assumes "y = (case x of (Ok None, st) \<Rightarrow> w st | (r, st) \<Rightarrow> (r, sd_app st d))"
  shows "sd_observe y = continues (sd_observe x) d (\<lambda>st. sd_observe (w st))"
proof -
  obtain r st where x: "x = (r, st)" by (cases x) auto
  show ?thesis
    using assms by (cases r) (auto simp: x sd_observe_def continues_def split: option.splits)
qed

definition sd_ready :: "'d ResponseDecoder \<Rightarrow> bool" where
  "sd_ready st \<longleftrightarrow> sd_inv st \<and> max_body_size (sd_limits st) \<le> usize_max
     \<and> (sd_decoded_head st \<noteq> None \<longrightarrow> sd_phase st \<noteq> Headers \<and> (\<exists>bk. sd_decoded_body_kind st = Some bk
          \<and> ((bk = Chunked \<or> (\<exists>n. bk = ContentLength n)) \<longrightarrow> loop_phase (sd_phase st))
          \<and> (bk = CloseDelimited \<longrightarrow> sd_phase st = BodyCloseDelimited \<or> sd_phase st = PhaseComplete)))"

lemma sd_ready_app [simp]: "sd_ready (sd_app st d) = sd_ready st"
  by (simp add: sd_ready_def)

section \<open>Close-delimited bodies\<close>

definition close_fits :: "'d ResponseDecoder \<Rightarrow> bool" where
  "close_fits st \<longleftrightarrow> length (sd_decoded_body st) + length (sd_buf st) \<le> max_body_size (sd_limits st)
     \<and> body_consumed (sd_body_decoder st) + length (sd_buf st) \<le> max_body_size (sd_limits st)"

definition close_take :: "'d ResponseDecoder \<Rightarrow> 'd ResponseDecoder" where
  "close_take st = st\<lparr>sd_decoded_body := sd_decoded_body st @ sd_buf st, sd_buf := [],
     sd_body_decoder := (sd_body_decoder st)\<lparr>body_consumed := body_consumed (sd_body_decoder st) + length (sd_buf st)\<rparr>\<rparr>"

lemma sd_close_delimited_open:
  assumes "sd_phase st = BodyCloseDelimited" "max_body_size (sd_limits st) \<le> usize_max"
  shows "sd_buf st = [] \<Longrightarrow> sd_close_delimited st = (Ok False, st)"
    and "sd_buf st \<noteq> [] \<Longrightarrow> close_fits st \<Longrightarrow> sd_close_delimited st = (Ok False, close_take st)"
    and "sd_buf st \<noteq> [] \<Longrightarrow> \<not> close_fits st \<Longrightarrow> \<exists>e st'. sd_close_delimited st = (Err e, st')"
  using assms
  by (auto simp: sd_close_delimited_def bd_peek_body_def sd_consume_body_def dec_consume_body_def bd_consume_body_def
      consume_close_delimited_def sd_put_body_def close_fits_def close_take_def checked_add_def Let_def)

lemma sd_close_delimited_complete: "sd_phase st = PhaseComplete \<Longrightarrow> sd_close_delimited st = (Ok True, st)"
  by (simp add: sd_close_delimited_def bd_peek_body_def)

text \<open>Taking the body in two steps fits exactly when taking it at once does, and ends in the same state.\<close>

lemma close_take_app:
  assumes "close_fits st"
  shows "close_fits (sd_app (close_take st) d) = close_fits (sd_app st d)"
    and "close_take (sd_app (close_take st) d) = close_take (sd_app st d)"
  using assms by (auto simp: close_fits_def close_take_def sd_app_def ac_simps)

definition close_outcome :: "'d ResponseDecoder \<Rightarrow> 'd ResponseDecoder option" where
  "close_outcome st = (if sd_buf st = [] then Some st else if close_fits st then Some (close_take st) else None)"

lemma sd_decode_body_close:
  assumes "sd_phase st = BodyCloseDelimited" "max_body_size (sd_limits st) \<le> usize_max"
    "sd_decoded_body_kind st = Some CloseDelimited"
  shows "sd_observe (sd_decode_body D st) = (case close_outcome st of Some st' \<Rightarrow> (None, Some st') | None \<Rightarrow> (Some None, None))"
  using sd_close_delimited_open [OF assms(1,2)] assms(3)
  by (cases "sd_buf st = []"; cases "close_fits st") (auto simp: sd_decode_body_def close_outcome_def sd_observe_def)

lemma close_outcome_app:
  "(case close_outcome st of Some st' \<Rightarrow> close_outcome (sd_app st' d) = close_outcome (sd_app st d)
     | None \<Rightarrow> close_outcome (sd_app st d) = None)"
proof (cases "sd_buf st = []")
  case True
  then show ?thesis by (simp add: close_outcome_def)
next
  case ne: False
  show ?thesis
  proof (cases "close_fits st")
    case False
    then have "\<not> close_fits (sd_app st d)" by (auto simp: close_fits_def)
    with ne False show ?thesis by (simp add: close_outcome_def)
  next
    case True
    show ?thesis
    proof (cases "d = []")
      case T: True
      with True ne show ?thesis by (simp add: close_outcome_def sd_app_def close_take_def)
    next
      case False
      with True ne close_take_app [OF True, of d] show ?thesis by (simp add: close_outcome_def close_take_def)
    qed
  qed
qed

lemma close_outcome_keeps:
  assumes "close_outcome st = Some st'"
  shows "sd_phase st' = sd_phase st" "sd_limits st' = sd_limits st" "sd_decoded_head st' = sd_decoded_head st"
    "sd_decoded_body_kind st' = sd_decoded_body_kind st" "sd_pending st' = sd_pending st" "sd_headers st' = sd_headers st"
  using assms by (auto simp: close_outcome_def close_take_def split: if_splits)

lemma close_outcome_inv:
  assumes "close_outcome st = Some st'" "sd_inv st" "sd_phase st = BodyCloseDelimited"
  shows "sd_inv st'"
  using assms
  by (auto simp: close_outcome_def close_take_def close_fits_def sd_inv_def body_inv_def trailers_ok_def split: if_splits)

section \<open>The body loop and decode\<close>

lemma sd_body_loop_inv:
  assumes "sd_inv st" "max_body_size (sd_limits st) \<le> usize_max" "sd_body_loop st = (r, st')"
  shows "sd_inv st' \<and> r \<noteq> Panic \<and> sd_limits st' = sd_limits st \<and> sd_decoded_head st' = sd_decoded_head st
    \<and> sd_decoded_body_kind st' = sd_decoded_body_kind st \<and> sd_pending st' = sd_pending st
    \<and> (is_ok r \<longrightarrow> sd_headers st' = [])"
proof -
  obtain bd buf ph body where
    b: "body_loop (sd_limits st) (sd_body_decoder st) (sd_buf st) (sd_phase st) (sd_decoded_body st) = (r, bd, buf, ph, body)"
    and st': "st' = st\<lparr>sd_body_decoder := bd, sd_buf := buf, sd_phase := ph, sd_decoded_body := body\<rparr>"
    using assms(3) by (auto simp: sd_body_loop_def split: prod.splits)
  note i = body_loop_keeps [OF b _ assms(2)]
  have h: "sd_phase st = Headers \<Longrightarrow> ph = Headers \<and> bd = sd_body_decoder st \<and> \<not> is_ok r"
    using b by (auto simp: body_loop.simps [of _ _ _ Headers] bd_peek_body_def dec_progress_def bd_consume_body_def)
  have "body_inv (sd_limits st) (sd_body_decoder st) (sd_phase st)" using assms(1) by (simp add: sd_inv_def)
  note k = i [OF this, unfolded loop_keeps_def]
  show ?thesis
  proof (cases "sd_phase st = Headers")
    case True
    with h k assms(1) show ?thesis by (auto simp: sd_inv_def st')
  next
    case False
    then have "ph \<noteq> Headers" using k by (metis (no_types))
    with False k assms(1) show ?thesis by (auto simp: sd_inv_def st')
  qed
qed

lemma sd_body_loop_ready:
  assumes "sd_ready st" "loop_phase (sd_phase st)" "sd_body_loop st = (r, st')"
    "sd_decoded_body_kind st \<noteq> Some CloseDelimited"
  shows "sd_ready st' \<and> loop_phase (sd_phase st') \<and> sd_decoded_head st' = sd_decoded_head st
     \<and> sd_decoded_body_kind st' = sd_decoded_body_kind st \<and> sd_limits st' = sd_limits st \<and> r \<noteq> Panic"
proof -
  have r: "sd_inv st" "max_body_size (sd_limits st) \<le> usize_max" using assms(1) by (auto simp: sd_ready_def)
  obtain bd buf ph body where
    b: "body_loop (sd_limits st) (sd_body_decoder st) (sd_buf st) (sd_phase st) (sd_decoded_body st) = (r, bd, buf, ph, body)"
    and ph: "sd_phase st' = ph"
    using assms(3) by (auto simp: sd_body_loop_def split: prod.splits)
  have "loop_phase ph" using body_loop_inv [OF b _ assms(2) r(2)] r(1) by (simp add: sd_inv_def)
  moreover from this have "ph \<noteq> Headers" by (auto simp: loop_phase_def)
  ultimately show ?thesis using sd_body_loop_inv [OF r assms(3)] ph assms(1,4) by (auto simp: sd_ready_def)
qed

text \<open>\<open>decode_body\<close> for the kinds that are read by the loop.\<close>

lemma sd_decode_body_loop:
  assumes "sd_decoded_body_kind st = Some bk" "bk = Chunked \<or> (\<exists>n. bk = ContentLength n)"
  shows "sd_decode_body D st = (case sd_body_loop st of (Ok True, st') \<Rightarrow> sd_build_response D bk st'
        | (Ok False, st') \<Rightarrow> (Ok None, st') | (Err e, st') \<Rightarrow> (Err e, st') | (Panic, st') \<Rightarrow> (Panic, st'))"
  using assms by (auto simp: sd_decode_body_def)

lemma sd_build_response_not_None: "fst (sd_build_response D bk s) \<noteq> Ok None"
  by (auto simp: sd_build_response_def Let_def split: option.splits)

lemma sd_decode_body_loop_app:
  assumes "sd_ready st" "sd_decoded_head st \<noteq> None" "sd_decoded_body_kind st = Some bk"
    "bk = Chunked \<or> (\<exists>n. bk = ContentLength n)"
  shows "sd_decode_body D (sd_app st d) =
    (case sd_decode_body D st of (Ok None, st') \<Rightarrow> sd_decode D (sd_app st' d) | (r, st') \<Rightarrow> (r, sd_app st' d))"
proof -
  have ph: "loop_phase (sd_phase st)" using assms by (auto simp: sd_ready_def)
  have i: "sd_inv st" "max_body_size (sd_limits st) \<le> usize_max" using assms(1) by (auto simp: sd_ready_def)
  obtain r st' where l: "sd_body_loop st = (r, st')" by (cases "sd_body_loop st") auto
  have nc: "sd_decoded_body_kind st \<noteq> Some CloseDelimited" using assms(3,4) by auto
  note k = sd_body_loop_ready [OF assms(1) ph l nc]
  note unf = sd_decode_body_loop [OF _ assms(4)]
  show ?thesis
  proof (cases "r = Ok False")
    case True
    have "sd_decode D (sd_app st' d) = sd_decode_body D (sd_app st' d)"
      using k assms(2) by (auto simp: sd_decode_def)
    with True show ?thesis
      using sd_body_loop_app [OF ph i, of d] l k assms(3) by (simp add: unf)
  next
    case False
    then have "sd_body_loop (sd_app st d) = (r, sd_app st' d)"
      using sd_body_loop_app [OF ph i, of d] l by (simp split: result.splits bool.splits)
    then have "sd_decode_body D (sd_app st d) = (case sd_decode_body D st of (q, s) \<Rightarrow> (q, sd_app s d))"
      using assms(3) False l by (cases r) (simp_all add: unf sd_build_response_app split: bool.split)
    moreover have "fst (sd_decode_body D st) \<noteq> Ok None"
      using assms(3) False l sd_build_response_not_None [of D bk st'] by (cases r) (simp_all add: unf split: bool.split)
    ultimately show ?thesis by (rule case_not_None)
  qed
qed

lemma sd_decode_body_app:
  assumes "sd_ready st" "sd_decoded_head st \<noteq> None"
  shows "sd_observe (sd_decode_body D (sd_app st d)) =
    continues (sd_observe (sd_decode_body D st)) d (\<lambda>s. sd_observe (sd_decode D (sd_app s d)))"
proof -
  obtain bk where bk: "sd_decoded_body_kind st = Some bk"
    "bk = CloseDelimited \<longrightarrow> sd_phase st = BodyCloseDelimited \<or> sd_phase st = PhaseComplete"
    using assms by (auto simp: sd_ready_def)
  consider (loop) "bk = Chunked \<or> (\<exists>n. bk = ContentLength n)" | (close) "bk = CloseDelimited" "sd_phase st = BodyCloseDelimited"
    | (other) "bk = BodyNone \<or> bk = BodyTunnel \<or> bk = CloseDelimited \<and> sd_phase st = PhaseComplete"
    using bk(2) by (cases bk) auto
  then show ?thesis
  proof cases
    case loop
    from sd_decode_body_loop_app [OF assms bk(1) loop] show ?thesis by (rule sd_observe_exact)
  next
    case close
    have m: "max_body_size (sd_limits st) \<le> usize_max" using assms(1) by (simp add: sd_ready_def)
    note now = sd_decode_body_close [OF close(2) m, of D] and later = sd_decode_body_close [of "sd_app _ d" D]
    show ?thesis
    proof (cases "close_outcome st")
      case None
      with close_outcome_app [of st d] now later [of st] close m bk(1) show ?thesis by (simp add: continues_def)
    next
      case (Some st')
      note k = close_outcome_keeps [OF Some]
      have "sd_decode D (sd_app st' d) = sd_decode_body D (sd_app st' d)" using k(3) assms(2) by (auto simp: sd_decode_def)
      with Some close_outcome_app [of st d] now later [of st] later [of st'] close m bk(1) k show ?thesis
        by (simp add: continues_def)
    qed
  next
    case other
    have "sd_decode_body D (sd_app st d) = (case sd_decode_body D st of (q, s) \<Rightarrow> (q, sd_app s d))"
      using other bk(1) by (auto simp: sd_decode_body_def sd_build_response_app sd_close_delimited_complete)
    moreover have "fst (sd_decode_body D st) \<noteq> Ok None"
      using other bk(1) sd_build_response_not_None [of D bk st]
      by (auto simp: sd_decode_body_def sd_close_delimited_complete)
    ultimately have "sd_decode_body D (sd_app st d) =
        (case sd_decode_body D st of (Ok None, s) \<Rightarrow> sd_decode D (sd_app s d) | (q, s) \<Rightarrow> (q, sd_app s d))"
      by (rule case_not_None)
    then show ?thesis by (rule sd_observe_exact)
  qed
qed

lemma rs_body_phase_kind:
  "bk = Chunked \<or> (\<exists>n. bk = ContentLength n) \<Longrightarrow> loop_phase (rs_body_phase bk)"
  "bk = CloseDelimited \<Longrightarrow> rs_body_phase bk = BodyCloseDelimited"
  by (auto simp: rs_body_phase_def loop_phase_def)

text \<open>The state \<open>decode\<close> continues with once the head is there.\<close>

lemma sd_head_ready:
  assumes "sd_ready st" "sd_decode_headers D st = (Ok (Some (h, bk)), st')"
  shows "sd_ready (st'\<lparr>sd_decoded_head := Some h, sd_decoded_body_kind := Some bk\<rparr>)"
proof -
  have "sd_inv st" using assms(1) by (simp add: sd_ready_def)
  note i = sd_decode_headers_inv [OF assms(2) this] sd_decode_headers_keeps [OF assms(2)]
  have ph: "sd_phase st' = rs_body_phase bk" and h: "response_head_ok h" and inv: "sd_inv st'" using i by blast+
  have lim: "max_body_size (sd_limits st') \<le> usize_max" using i(2) assms(1) by (simp add: sd_ready_def sd_keeps_def)
  have "sd_inv (st'\<lparr>sd_decoded_head := Some h, sd_decoded_body_kind := Some bk\<rparr>)"
    using inv h by (simp add: sd_inv_def)
  with ph lim rs_body_phase_kind [of bk] show ?thesis by (auto simp: sd_ready_def)
qed

lemma sd_decode_app:
  assumes "sd_ready st"
  shows "sd_observe (sd_decode D (sd_app st d)) =
    continues (sd_observe (sd_decode D st)) d (\<lambda>s. sd_observe (sd_decode D (sd_app s d)))"
proof (cases "sd_decoded_head st = None \<and> (sd_phase st = StartLine \<or> sd_phase st = Headers)")
  case True
  obtain r st' where r: "sd_decode_headers D st = (r, st')" by (cases "sd_decode_headers D st") auto
  note app = sd_decode_headers_app [of D st d]
  show ?thesis
  proof (cases "\<exists>h bk. r = Ok (Some (h, bk))")
    case T: True
    then obtain h bk where hb: "r = Ok (Some (h, bk))" by blast
    let ?st = "st'\<lparr>sd_decoded_head := Some h, sd_decoded_body_kind := Some bk\<rparr>"
    have eq: "sd_app st' d\<lparr>sd_decoded_head := Some h, sd_decoded_body_kind := Some bk\<rparr> = sd_app ?st d"
      by (simp add: sd_app_def)
    have "sd_decode D (sd_app st d) = sd_decode_body D (sd_app ?st d)" "sd_decode D st = sd_decode_body D ?st"
      using True app r hb by (auto simp: sd_decode_def eq)
    then show ?thesis
      using sd_decode_body_app [OF sd_head_ready [OF assms, of D h bk st'], of D d] r hb by simp
  next
    case False
    have "sd_decode D (sd_app st d) =
        (case sd_decode D st of (Ok None, st') \<Rightarrow> sd_decode D (sd_app st' d) | (r, st') \<Rightarrow> (r, sd_app st' d))"
    proof (cases "r = Ok None")
      case None: True
      have "sd_phase st' = StartLine \<or> sd_phase st' = Headers" "sd_decoded_head st' = None"
        using sd_decode_headers_waits [of D st st'] sd_decode_headers_keeps [OF r] r None True
        by (auto simp: sd_keeps_def)
      with True app r None show ?thesis by (auto simp: sd_decode_def)
    next
      case no: False
      with True app r False show ?thesis by (cases r) (auto simp: sd_decode_def split: option.splits)
    qed
    then show ?thesis by (rule sd_observe_exact)
  qed
next
  case False
  show ?thesis
  proof (cases "sd_decoded_head st")
    case None
    with False have "sd_decode D (sd_app st d) =
        (case sd_decode D st of (Ok None, st') \<Rightarrow> sd_decode D (sd_app st' d) | (r, st') \<Rightarrow> (r, sd_app st' d))"
      by (auto simp: sd_decode_def)
    then show ?thesis by (rule sd_observe_exact)
  next
    case (Some h)
    then show ?thesis using sd_decode_body_app [OF assms, of D d] by (simp add: sd_decode_def)
  qed
qed

end
