(* ===== verification/Response_Stream.thy ===== *)
theory Response_Stream
  imports Response_Correct
begin

text \<open>
  The response decoder over a connection: what \<open>decode\<close> keeps and returns, that every response
  shortens what is left to read, and that a sequence of responses does not depend on how the
  bytes arrive.
\<close>

section \<open>What decode keeps\<close>

definition response_ok :: "Response \<Rightarrow> bool" where
  "response_ok r \<longleftrightarrow> status_line_parts (rs_version r) (rs_status_code r) (rs_reason_phrase r)
     \<and> list_all header_ok (rs_headers r) \<and> \<not> rs_omit_body r"

text \<open>A head that \<open>decode\<close> keeps for later calls has a body to wait for, or opens a tunnel.\<close>

definition sd_kind_ok :: "'d ResponseDecoder \<Rightarrow> bool" where
  "sd_kind_ok st \<longleftrightarrow> (sd_decoded_head st \<noteq> None \<longrightarrow> sd_decoded_body_kind st \<noteq> Some BodyNone)"

lemma sd_consume_inv:
  assumes "sd_inv st" "bd_consume_body (sd_body_decoder st) (sd_buf st) (sd_phase st) n (sd_limits st) = (r, bd, buf, ph)"
  shows "sd_inv (st\<lparr>sd_body_decoder := bd, sd_buf := buf, sd_phase := ph\<rparr>)"
proof -
  have b: "body_inv (sd_limits st) (sd_body_decoder st) (sd_phase st)" using assms(1) by (simp add: sd_inv_def)
  note i = consume_body_inv [OF assms(2) b] consume_header_phase [OF assms(2)]
  show ?thesis
  proof (cases "sd_phase st = Headers")
    case True
    then have "ph = Headers \<and> bd = sd_body_decoder st" using assms(2) by (auto simp: bd_consume_body_def)
    with assms(1) True show ?thesis by (simp add: sd_inv_def)
  next
    case False
    have "ph = StartLine \<longrightarrow> idle_body bd" "ph \<noteq> Headers"
      using i(2) False assms(1) by (auto simp: sd_inv_def)
    with i(1) False assms(1) show ?thesis by (simp add: sd_inv_def)
  qed
qed

definition sd_frame :: "'d ResponseDecoder \<Rightarrow> 'd ResponseDecoder \<Rightarrow> bool" where
  "sd_frame st st' \<longleftrightarrow> sd_limits st' = sd_limits st \<and> sd_decoded_head st' = sd_decoded_head st
     \<and> sd_decoded_body_kind st' = sd_decoded_body_kind st \<and> sd_pending st' = sd_pending st
     \<and> length (sd_buf st') \<le> length (sd_buf st)"

lemma sd_close_delimited_inv:
  assumes "sd_inv st" "sd_close_delimited st = (r, st')"
  shows "sd_inv st' \<and> r \<noteq> Panic \<and> sd_frame st st' \<and> (r = Ok True \<longrightarrow> sd_headers st' = [])"
proof (cases "st' = st")
  case True
  have c: "r = Ok True \<Longrightarrow> sd_phase st' = PhaseComplete"
    using assms(2) by (auto simp: sd_close_delimited_def split: option.splits if_splits prod.splits result.splits)
  have "r \<noteq> Panic"
    using assms(2)
    by (auto simp: sd_close_delimited_def sd_consume_body_def sd_put_body_def dec_consume_body_def
        dest!: consume_body_not_Panic split: option.splits if_splits prod.splits result.splits)
  with True assms(1) c show ?thesis by (auto simp: sd_frame_def sd_inv_def)
next
  case False
  let ?st = "\<lambda>dat. st\<lparr>sd_decoded_body := sd_decoded_body st @ dat\<rparr>"
  obtain dat q where d: "bd_peek_body (sd_buf st) (sd_phase st) = Some dat"
    and c: "sd_consume_body (?st dat) (length dat) = (q, st')"
    and r: "r = and_then q (\<lambda>_. Ok (sd_phase st' = PhaseComplete))"
    using False assms(2) by (auto simp: sd_close_delimited_def split: option.splits if_splits prod.splits result.splits)
  have "length dat \<noteq> 0"
    using d by (auto simp: bd_peek_body_def Let_def min_def split: DecodePhase.splits if_splits)
  with c obtain bd buf ph where b: "bd_consume_body (sd_body_decoder st) (sd_buf st) (sd_phase st) (length dat) (sd_limits st) = (q, bd, buf, ph)"
    and st': "st' = (?st dat)\<lparr>sd_body_decoder := bd, sd_buf := buf, sd_phase := ph\<rparr>"
    by (auto simp: sd_consume_body_def dec_consume_body_def sd_put_body_def split: prod.splits)
  have i: "sd_inv (?st dat)" using assms(1) by (simp add: sd_inv_def)
  have "sd_inv st'" using sd_consume_inv [OF i, of "length dat" q bd buf ph] b st' by simp
  with r consume_body_not_Panic [OF b] consume_length [OF b] st' show ?thesis
    by (auto simp: sd_frame_def sd_inv_def panic_iff result_iff)
qed

lemma sd_body_loop_frame:
  assumes "sd_inv st" "max_body_size (sd_limits st) \<le> usize_max" "sd_body_loop st = (r, st')"
  shows "sd_inv st' \<and> r \<noteq> Panic \<and> sd_frame st st' \<and> (r = Ok True \<longrightarrow> sd_headers st' = [])"
  using sd_body_loop_inv [OF assms] assms(3)
  by (auto simp: sd_frame_def sd_body_loop_def is_ok_iff dest!: body_loop_length split: prod.splits)

lemma sd_build_response_inv:
  assumes "sd_inv st" "sd_decoded_head st = Some h" "sd_headers st = []" "sd_build_response D bk st = (r, st')"
  shows "sd_inv st' \<and> sd_decoded_head st' = None \<and> sd_limits st' = sd_limits st \<and> sd_pending st' = sd_pending st
    \<and> sd_buf st' = sd_buf st \<and> sd_phase st' = StartLine \<and> (\<exists>q. r = Ok (Some q) \<and> response_ok q)"
  using assms
  by (auto simp: sd_build_response_def sd_inv_def Let_def response_ok_def response_head_ok_def rs_from_raw_parts_def
      intro!: idle_body_inv)

definition sd_body_keeps ::
  "'d ResponseDecoder \<Rightarrow> (Response option, Error) result \<Rightarrow> 'd ResponseDecoder \<Rightarrow> bool" where
  "sd_body_keeps st r st' \<longleftrightarrow> sd_inv st' \<and> sd_kind_ok st' \<and> r \<noteq> Panic \<and> sd_limits st' = sd_limits st
     \<and> sd_pending st' = sd_pending st \<and> length (sd_buf st') \<le> length (sd_buf st)
     \<and> (\<forall>q. r = Ok (Some q) \<longrightarrow> response_ok q \<and> sd_decoded_head st' = None)
     \<and> (r = Ok None \<longrightarrow> sd_decoded_head st' = sd_decoded_head st \<and> sd_decoded_body_kind st' = sd_decoded_body_kind st)"

lemma sd_decode_body_inv:
  assumes "sd_inv st" "max_body_size (sd_limits st) \<le> usize_max" "sd_decoded_head st \<noteq> None"
    "sd_headers st = [] \<or> sd_kind_ok st" "sd_decode_body D st = (r, st')"
  shows "sd_body_keeps st r st'"
proof -
  obtain h where h: "sd_decoded_head st = Some h" using assms(3) by blast
  then obtain bk where bk: "sd_decoded_body_kind st = Some bk" using assms(1) by (auto simp: sd_inv_def)
  consider (tunnel) "bk = BodyTunnel" | (none) "bk = BodyNone" | (body) "bk \<noteq> BodyTunnel" "bk \<noteq> BodyNone" by auto
  then show ?thesis
  proof cases
    case tunnel
    with assms bk h show ?thesis by (auto simp: sd_decode_body_def sd_body_keeps_def sd_kind_ok_def)
  next
    case none
    then have "sd_headers st = []" using assms(4) bk h by (auto simp: sd_kind_ok_def)
    moreover have "sd_build_response D bk st = (r, st')" using assms(5) none bk by (simp add: sd_decode_body_def)
    ultimately show ?thesis
      using sd_build_response_inv [OF assms(1) h, of D bk r st'] by (auto simp: sd_body_keeps_def sd_kind_ok_def)
  next
    case body
    obtain q s where q: "(if bk = CloseDelimited then sd_close_delimited st else sd_body_loop st) = (q, s)"
      by (cases "if bk = CloseDelimited then sd_close_delimited st else sd_body_loop st") auto
    then have i: "sd_inv s \<and> q \<noteq> Panic \<and> sd_frame st s \<and> (q = Ok True \<longrightarrow> sd_headers s = [])"
      using sd_close_delimited_inv [OF assms(1)] sd_body_loop_frame [OF assms(1,2)] by (auto split: if_splits)
    have d: "sd_decode_body D st = (case q of Ok True \<Rightarrow> sd_build_response D bk s | Ok False \<Rightarrow> (Ok None, s)
        | Err e \<Rightarrow> (Err e, s) | Panic \<Rightarrow> (Panic, s))"
      using body bk q by (simp add: sd_decode_body_def split: result.split)
    show ?thesis
    proof (cases "q = Ok True")
      case True
      then have "sd_build_response D bk s = (r, st')" using d assms(5) by simp
      moreover have "sd_decoded_head s = Some h" using i h by (simp add: sd_frame_def)
      ultimately show ?thesis
        using sd_build_response_inv [of s h D bk r st'] i True by (auto simp: sd_body_keeps_def sd_kind_ok_def sd_frame_def)
    next
      case False
      with d assms(5) i bk body show ?thesis
        by (cases q) (auto simp: sd_body_keeps_def sd_kind_ok_def sd_frame_def split: bool.splits)
    qed
  qed
qed

text \<open>What \<open>decode\<close> does: nothing, the header part only, or the header part (unless it was done before) and the body.\<close>

lemma sd_decode_cases:
  assumes "sd_decode D st = (r, st')"
  obtains (stuck) e where "st' = st" "r = Err e"
  | (headers) q where "sd_decode_headers D st = (q, st')" "sd_decoded_head st = None" "r = and_then q (\<lambda>_. Ok None)"
  | (both) hd bk s where "sd_decoded_head st = None" "sd_decode_headers D st = (Ok (Some (hd, bk)), s)"
      "sd_decode_body D (s\<lparr>sd_decoded_head := Some hd, sd_decoded_body_kind := Some bk\<rparr>) = (r, st')"
  | (body) "sd_decoded_head st \<noteq> None" "sd_decode_body D st = (r, st')"
proof (cases "sd_decoded_head st")
  case (Some h)
  with assms body show ?thesis by (simp add: sd_decode_def)
next
  case None
  obtain q s where q: "sd_decode_headers D st = (q, s)" by (cases "sd_decode_headers D st") auto
  show ?thesis
  proof (cases "sd_phase st = StartLine \<or> sd_phase st = Headers")
    case True
    show ?thesis
    proof (cases "\<exists>hd bk. q = Ok (Some (hd, bk))")
      case T: True
      with q None True assms both show ?thesis by (auto simp: sd_decode_def)
    next
      case False
      with q None True assms have "st' = s" "r = and_then q (\<lambda>_. Ok None)"
        by (cases q; auto simp: sd_decode_def split: option.splits)+
      with headers [of q] q None show ?thesis by blast
    qed
  next
    case False
    with None assms stuck show ?thesis by (auto simp: sd_decode_def)
  qed
qed

lemma sd_step_shrinks:
  "sd_step D st = Done (Ok x) st' \<Longrightarrow> length (sd_buf st') < length (sd_buf st)"
proof (cases "sd_phase st = Headers \<and> find_line (sd_buf st) = Some 0")
  case True
  then have "2 \<le> length (sd_buf st)" using find_line_SomeD(1) [of "sd_buf st" 0] by simp
  moreover assume "sd_step D st = Done (Ok x) st'"
  ultimately show ?thesis using True sd_end_of_headers_keeps [of st "Ok x" st'] by (auto simp: sd_step_def split: prod.splits)
next
  case False
  then show "sd_step D st = Done (Ok x) st' \<Longrightarrow> ?thesis"
    by (auto simp: sd_step_def sd_start_line_step_def sd_header_line_step_def Let_def
        split: DecodePhase.splits option.splits if_splits result.splits)
qed

lemma sd_decode_headers_shrinks:
  "sd_decode_headers D st = (Ok (Some x), st') \<Longrightarrow> length (sd_buf st') < length (sd_buf st)"
proof (induction D st rule: sd_decode_headers.induct)
  case (1 D st)
  show ?case
  proof (cases "sd_step D st")
    case (Next s)
    with 1 sd_step_keeps(1) [OF Next] show ?thesis by (fastforce simp: sd_decode_headers.simps [of D st] sd_keeps_def)
  next
    case (Done r s)
    with 1(2) sd_step_shrinks [of D st] show ?thesis by (auto simp: sd_decode_headers.simps [of D st] result_iff)
  next
    case Wait
    with 1(2) show ?thesis by (simp add: sd_decode_headers.simps [of D st])
  qed
qed

text \<open>Everything \<open>decode\<close> keeps, in one statement.\<close>

lemma sd_decode_keeps:
  assumes "sd_inv st" "sd_kind_ok st" "max_body_size (sd_limits st) \<le> usize_max" "sd_decode D st = (r, st')"
  shows "sd_inv st' \<and> sd_kind_ok st' \<and> r \<noteq> Panic \<and> sd_limits st' = sd_limits st \<and> sd_pending st' = sd_pending st
     \<and> length (sd_buf st') \<le> length (sd_buf st) \<and> (\<forall>q. r = Ok (Some q) \<longrightarrow> response_ok q \<and> sd_decoded_head st' = None)"
  using assms(4)
proof (cases rule: sd_decode_cases)
  case (stuck e)
  with assms show ?thesis by simp
next
  case (headers q)
  have "r \<noteq> Panic"
    using sd_decode_headers_not_Panic [OF assms(1) headers(1)] headers assms(4)
    by (simp add: panic_iff)
  with headers sd_decode_headers_inv [OF headers(1) assms(1)] sd_decode_headers_keeps [OF headers(1)] show ?thesis
    by (auto simp: sd_keeps_def sd_kind_ok_def result_iff)
next
  case (both hd bk s)
  let ?s = "s\<lparr>sd_decoded_head := Some hd, sd_decoded_body_kind := Some bk\<rparr>"
  note i = sd_decode_headers_inv [OF both(2) assms(1)] sd_decode_headers_keeps [OF both(2)]
  have "sd_phase s \<noteq> Headers" using i by simp
  then have h: "sd_headers ?s = []" using i by (simp add: sd_inv_def)
  have "sd_inv s" "response_head_ok hd" using i by blast+
  then have "sd_inv ?s" by (simp add: sd_inv_def)
  moreover have "max_body_size (sd_limits ?s) \<le> usize_max" using i assms(3) by (simp add: sd_keeps_def)
  ultimately have "sd_body_keeps ?s r st'" using sd_decode_body_inv [of ?s D r st'] both(3) h by simp
  with i show ?thesis by (auto simp: sd_body_keeps_def sd_keeps_def)
next
  case body
  from sd_decode_body_inv [OF assms(1,3) body(1) _ body(2)] assms(2) show ?thesis by (auto simp: sd_body_keeps_def)
qed

section \<open>Streams of responses\<close>

definition sd_unread :: "'d ResponseDecoder \<Rightarrow> nat" where
  "sd_unread st = length (sd_buf st) + (if sd_decoded_head st = None then 0 else 1)"

lemma sd_build_response_head: "sd_build_response D bk s = (Ok (Some q), s') \<Longrightarrow> sd_decoded_head s' = None \<and> sd_buf s' = sd_buf s"
  by (auto simp: sd_build_response_def Let_def split: option.splits)

lemma sd_close_delimited_length: "sd_close_delimited s = (q, s') \<Longrightarrow> length (sd_buf s') \<le> length (sd_buf s)"
  by (auto simp: sd_close_delimited_def sd_consume_body_def sd_put_body_def dec_consume_body_def
      dest!: consume_length split: option.splits if_splits prod.splits result.splits)

lemma sd_decode_body_shrinks:
  assumes "sd_decode_body D s = (Ok (Some q), s')"
  shows "sd_decoded_head s' = None \<and> length (sd_buf s') \<le> length (sd_buf s)"
proof -
  obtain bk t x where t: "sd_build_response D bk t = (Ok (Some q), s')"
    "t = s \<or> (x, t) = sd_close_delimited s \<or> (x, t) = sd_body_loop s"
    using assms by (auto simp: sd_decode_body_def split: option.splits if_splits result.splits bool.splits prod.splits)
  have "length (sd_buf t) \<le> length (sd_buf s)"
    using t(2) sd_close_delimited_length [of s x t]
    by (auto simp: sd_body_loop_def dest!: body_loop_length split: prod.splits)
  with sd_build_response_head [OF t(1)] show ?thesis by simp
qed

lemma sd_decode_less:
  assumes "sd_decode D st = (Ok (Some q), st')"
  shows "sd_unread st' < sd_unread st"
  using assms
proof (cases rule: sd_decode_cases)
  case (headers p)
  then have "and_then p (\<lambda>_. Ok None) = Ok (Some q)" by simp
  then show ?thesis by (simp add: and_then_Ok_iff)
next
  case (both hd bk s)
  with sd_decode_headers_shrinks [OF both(2)] sd_decode_body_shrinks [OF both(3)] show ?thesis by (simp add: sd_unread_def)
next
  case body
  with sd_decode_body_shrinks [OF body(2)] show ?thesis by (auto simp: sd_unread_def)
qed simp_all

text \<open>
  The responses that can be read now. The second component says whether decoding failed; after
  a failure no decoder is left to compare.
\<close>

function sd_pump ::
  "'d Decompressor \<Rightarrow> 'd ResponseDecoder option \<Rightarrow> Response option list \<times> bool \<times> 'd ResponseDecoder option" where
  "sd_pump D None = ([None], True, None)"
| "sd_pump D (Some st) =
     (case sd_decode D st of (r, st') \<Rightarrow>
        (case r of
           Ok None \<Rightarrow> ([], False, Some st')
         | Ok (Some q) \<Rightarrow> (case sd_pump D (Some st') of (rs, b, t) \<Rightarrow> (Some q # rs, b, t))
         | _ \<Rightarrow> ([None], True, None)))"
  by pat_completeness auto
termination
  by (relation "measure (\<lambda>(_, so). case so of None \<Rightarrow> 0 | Some st \<Rightarrow> sd_unread st)") (auto intro: sd_decode_less [OF sym])

declare sd_pump.simps [simp del]

lemma sd_waits_body:
  assumes "sd_ready st" "sd_decoded_head st \<noteq> None" "sd_decode_body D st = (Ok None, st')"
  shows "sd_ready st'"
proof -
  obtain bk where bk: "sd_decoded_body_kind st = Some bk"
    "bk = Chunked \<or> (\<exists>n. bk = ContentLength n) \<longrightarrow> loop_phase (sd_phase st)"
    "bk = CloseDelimited \<longrightarrow> sd_phase st = BodyCloseDelimited \<or> sd_phase st = PhaseComplete"
    using assms by (auto simp: sd_ready_def)
  have i: "sd_inv st" "max_body_size (sd_limits st) \<le> usize_max" "sd_phase st \<noteq> Headers" using assms by (auto simp: sd_ready_def)
  have h: "sd_headers st = [] \<or> sd_kind_ok st" using i by (simp add: sd_inv_def)
  have k: "sd_body_keeps st (Ok None) st'" by (rule sd_decode_body_inv [OF i(1,2) assms(2) h assms(3)])
  have ph: "sd_phase st' \<noteq> Headers \<and> (bk = Chunked \<or> (\<exists>n. bk = ContentLength n) \<longrightarrow> loop_phase (sd_phase st'))
      \<and> (bk = CloseDelimited \<longrightarrow> sd_phase st' = BodyCloseDelimited \<or> sd_phase st' = PhaseComplete)"
  proof (cases "bk = Chunked \<or> (\<exists>n. bk = ContentLength n)")
    case True
    then have "sd_body_loop st = (Ok False, st')"
      using assms(3) sd_build_response_not_None [of D bk] sd_decode_body_loop [OF bk(1) True, of D]
      by (auto split: prod.splits result.splits bool.splits) (metis fst_conv)+
    moreover have "sd_decoded_body_kind st \<noteq> Some CloseDelimited" using True bk(1) by auto
    ultimately have "loop_phase (sd_phase st')" using sd_body_loop_ready [OF assms(1)] bk True by blast
    with True show ?thesis by (auto simp: loop_phase_def)
  next
    case False
    then have "bk = CloseDelimited" "sd_phase st = BodyCloseDelimited"
      using assms(3) bk sd_build_response_not_None [of D bk st]
      by (cases bk; auto simp: sd_decode_body_def sd_close_delimited_complete)+
    then obtain s where "close_outcome st = Some s" "sd_observe (sd_decode_body D st) = (None, Some s)"
      using sd_decode_body_close [OF _ i(2), of D] assms(3) bk(1) by (cases "close_outcome st") (auto simp: sd_observe_def)
    with close_outcome_keeps [of st s] assms(3) \<open>sd_phase st = BodyCloseDelimited\<close> \<open>bk = CloseDelimited\<close> show ?thesis
      by (auto simp: sd_observe_def)
  qed
  with k bk(1) i show ?thesis by (auto simp: sd_body_keeps_def sd_ready_def)
qed

lemma sd_decode_ready:
  assumes "sd_ready st" "sd_decode D st = (Ok x, st')"
  shows "sd_ready st'"
  using assms(2)
proof (cases rule: sd_decode_cases)
  case (headers q)
  have "sd_inv st" using assms(1) by (simp add: sd_ready_def)
  from sd_decode_headers_inv [OF headers(1) this] sd_decode_headers_keeps [OF headers(1)] headers(2) assms(1)
  show ?thesis by (auto simp: sd_ready_def sd_keeps_def)
next
  case (both hd bk s)
  let ?s = "s\<lparr>sd_decoded_head := Some hd, sd_decoded_body_kind := Some bk\<rparr>"
  have r: "sd_ready ?s" by (rule sd_head_ready [OF assms(1) both(2)])
  show ?thesis
  proof (cases x)
    case None
    with sd_waits_body [OF r, of D st'] both(3) show ?thesis by simp
  next
    case (Some q)
    have "sd_headers ?s = []" using r by (simp add: sd_ready_def sd_inv_def)
    then have "sd_body_keeps ?s (Ok x) st'" using sd_decode_body_inv [OF _ _ _ _ both(3)] r by (simp add: sd_ready_def)
    with Some r show ?thesis by (auto simp: sd_body_keeps_def sd_ready_def)
  qed
next
  case body
  show ?thesis
  proof (cases x)
    case None
    with sd_waits_body [OF assms(1) body(1), of D st'] body(2) show ?thesis by simp
  next
    case (Some q)
    have "sd_headers st = []" using assms(1) body(1) by (simp add: sd_ready_def sd_inv_def)
    then have "sd_body_keeps st (Ok x) st'" using sd_decode_body_inv [OF _ _ body(1) _ body(2)] assms(1) by (simp add: sd_ready_def)
    with Some assms(1) show ?thesis by (auto simp: sd_body_keeps_def sd_ready_def)
  qed
qed simp

definition sd_ready_opt :: "'d ResponseDecoder option \<Rightarrow> bool" where
  "sd_ready_opt so = (case so of None \<Rightarrow> True | Some st \<Rightarrow> sd_ready st)"

definition sd_unread_opt :: "'d ResponseDecoder option \<Rightarrow> nat" where
  "sd_unread_opt so = (case so of None \<Rightarrow> 0 | Some st \<Rightarrow> sd_unread st)"

lemma sd_decode_run_ok:
  "sd_decode_run D so = (None, so') \<Longrightarrow> \<exists>st st'. so = Some st \<and> so' = Some st' \<and> sd_decode D st = (Ok None, st')"
  "sd_decode_run D so = (Some (Some q), so') \<Longrightarrow> \<exists>st st'. so = Some st \<and> so' = Some st' \<and> sd_decode D st = (Ok (Some q), st')"
  by (auto simp: sd_decode_run_def sd_observe_def split: option.splits prod.splits result.splits)

interpretation sd_dec: resumable "sd_decode_run D" sd_app_opt sd_ready_opt for D
proof
  fix s s' :: "'a ResponseDecoder option" and r d
  assume i: "sd_ready_opt s"
  have c: "sd_decode_run D (sd_app_opt s d) = continues (sd_decode_run D s) d (\<lambda>t. sd_decode_run D (Some (sd_app t d)))"
    if "s = Some t" for t
    using sd_decode_app [of t D d] i that by (simp add: sd_ready_opt_def sd_decode_run_def)
  show "sd_decode_run D s = (Some r, s') \<Longrightarrow> sd_decode_run D (sd_app_opt s d) = (Some r, sd_app_opt s' d)"
    using c by (cases s) (auto simp: sd_decode_run_def continues_def)
  show "sd_decode_run D s = (None, s') \<Longrightarrow> sd_decode_run D (sd_app_opt s d) = sd_decode_run D (sd_app_opt s' d)"
    using c sd_decode_run_ok(1) [of D s s'] by (auto simp: continues_def)
  show "sd_decode_run D s = (None, s') \<Longrightarrow> sd_ready_opt s'"
    using sd_decode_run_ok(1) [of D s s'] i sd_decode_ready by (auto simp: sd_ready_opt_def)
  show "sd_ready_opt (sd_app_opt s d)" using i by (cases s) (simp_all add: sd_ready_opt_def)
qed (auto simp: sd_app_opt_def sd_app_app sd_app_Nil map_option.compositionality comp_def option.map_ident)

interpretation sd_conn: message_stream "sd_decode_run D" sd_app_opt sd_ready_opt "sd_pump D" "\<lambda>r. r \<noteq> None" sd_unread_opt for D
proof
  fix s s' :: "'a ResponseDecoder option" and r
  show "sd_pump D s =
     (case sd_decode_run D s of
        (None, s') \<Rightarrow> ([], False, s')
      | (Some r, s') \<Rightarrow> if r \<noteq> None then (case sd_pump D s' of (rs, b, t) \<Rightarrow> (r # rs, b, t)) else ([r], True, s'))"
    by (cases s) (simp_all add: sd_pump.simps [of D] sd_decode_run_def sd_observe_def split: prod.split result.split option.split)
  assume r: "sd_decode_run D s = (Some r, s')" "r \<noteq> None"
  then obtain q st st' where q: "s = Some st" "s' = Some st'" "sd_decode D st = (Ok (Some q), st')"
    using sd_decode_run_ok(2) by blast
  show "sd_unread_opt s' < sd_unread_opt s" using sd_decode_less [OF q(3)] q by (simp add: sd_unread_opt_def)
  show "sd_ready_opt s \<Longrightarrow> sd_ready_opt s'" using sd_decode_ready [OF _ q(3)] q by (simp add: sd_ready_opt_def)
qed

lemma sd_feed_unchecked_app: "sd_feed_unchecked = sd_app"
  by (intro ext) (simp add: sd_feed_unchecked_def feed_unchecked_def sd_app_def)

lemma sd_ready_init:
  "max_body_size l \<le> usize_max \<Longrightarrow> sd_ready (sd_with_decompressor_and_limits d l)"
  "max_body_size l \<le> usize_max \<Longrightarrow> sd_ready (sd_set_request_method (sd_with_decompressor_and_limits d l) m)"
  by (simp_all add: sd_ready_def sd_inv_def sd_with_decompressor_and_limits_def sd_set_request_method_def idle_body_inv)

section \<open>The body limit\<close>

lemma sd_decode_headers_idle:
  "sd_decode_headers D st = (Ok (Some x), st') \<Longrightarrow> sd_inv st \<Longrightarrow> idle_body (sd_body_decoder st')"
proof (induction D st rule: sd_decode_headers.induct)
  case (1 D st)
  show ?case
  proof (cases "sd_step D st")
    case (Next s)
    with 1 sd_step_inv(1) [OF "1.prems"(2) Next] show ?thesis by (simp add: sd_decode_headers.simps [of D st])
  next
    case (Done r s)
    with "1.prems"(1) have s: "s = st'" and r: "r = Ok x" by (auto simp: sd_decode_headers.simps [of D st] result_iff)
    have h: "sd_phase st = Headers \<and> find_line (sd_buf st) = Some 0"
      using Done r by (auto simp: sd_step_def sd_start_line_step_def sd_header_line_step_def Let_def
          split: DecodePhase.splits option.splits if_splits result.splits prod.splits)
    then have e: "sd_end_of_headers st = (Ok x, st')" using Done r s by (simp add: sd_step_def split: prod.splits)
    obtain line where l: "sd_start_line st = Some line" "check_status_line line = Ok ()"
      and idle: "idle_body (sd_body_decoder st)" using "1.prems"(2) h by (auto simp: sd_inv_def)
    show ?thesis by (cases rule: sd_end_of_headers_ok [OF l]) (use e idle in auto)
  next
    case Wait
    with 1 show ?thesis by (simp add: sd_decode_headers.simps [of D st])
  qed
qed

text \<open>The body collected so far is what the body decoder has counted.\<close>

definition sd_counted :: "'d ResponseDecoder \<Rightarrow> bool" where
  "sd_counted st \<longleftrightarrow>
     (if sd_decoded_head st = None then sd_decoded_body st = []
      else length (sd_decoded_body st) = body_consumed (sd_body_decoder st))"

definition response_within ::"nat \<Rightarrow> Response \<Rightarrow> bool" where
  "response_within n q \<longleftrightarrow> (case rs_body q of Some b \<Rightarrow> length b \<le> n | None \<Rightarrow> True)"

lemma sd_build_response_counted:
  assumes "sd_build_response D bk st = (Ok x, st')" "sd_inv st" "length (sd_decoded_body st) = body_consumed (sd_body_decoder st)"
  shows "sd_counted st' \<and> (\<forall>q. x = Some q \<longrightarrow> response_within (max_body_size (sd_limits st)) q)"
proof -
  have "body_consumed (sd_body_decoder st) \<le> max_body_size (sd_limits st)"
    using assms(2) by (simp add: sd_inv_def body_inv_def)
  with assms(1,3) show ?thesis
    by (auto simp: sd_build_response_def Let_def sd_counted_def response_within_def rs_from_raw_parts_def
        split: option.splits BodyKind.splits)
qed

lemma sd_body_loop_counted:
  assumes "sd_body_loop st = (Ok x, s)" "sd_inv st" "max_body_size (sd_limits st) \<le> usize_max"
    "length (sd_decoded_body st) = body_consumed (sd_body_decoder st)"
  shows "length (sd_decoded_body s) = body_consumed (sd_body_decoder s)"
proof -
  obtain bd buf ph body where
    b: "body_loop (sd_limits st) (sd_body_decoder st) (sd_buf st) (sd_phase st) (sd_decoded_body st) = (Ok x, bd, buf, ph, body)"
    and s: "s = st\<lparr>sd_body_decoder := bd, sd_buf := buf, sd_phase := ph, sd_decoded_body := body\<rparr>"
    using assms(1) by (auto simp: sd_body_loop_def split: prod.splits)
  have "body_inv (sd_limits st) (sd_body_decoder st) (sd_phase st)" using assms(2) by (simp add: sd_inv_def)
  from body_loop_keeps [OF b this assms(3)] assms(4) show ?thesis by (auto simp: loop_keeps_def s)
qed

lemma sd_close_delimited_counted:
  assumes "sd_close_delimited st = (Ok x, s)" "sd_phase st = BodyCloseDelimited \<or> sd_phase st = PhaseComplete"
    "max_body_size (sd_limits st) \<le> usize_max" "length (sd_decoded_body st) = body_consumed (sd_body_decoder st)"
  shows "length (sd_decoded_body s) = body_consumed (sd_body_decoder s)"
proof (cases "sd_phase st = PhaseComplete")
  case True
  with assms show ?thesis by (simp add: sd_close_delimited_complete)
next
  case False
  with assms(2) have "sd_phase st = BodyCloseDelimited" by simp
  note o = sd_close_delimited_open [OF this assms(3)]
  show ?thesis
    using o assms(1,4) by (cases "sd_buf st = []"; cases "close_fits st") (auto simp: close_take_def)
qed

lemma sd_decode_body_counted:
  assumes "sd_decode_body D st = (Ok x, st')" "sd_ready st" "sd_decoded_head st \<noteq> None" "sd_counted st"
  shows "sd_counted st' \<and> (\<forall>q. x = Some q \<longrightarrow> response_within (max_body_size (sd_limits st)) q)"
proof -
  have i: "sd_inv st" "max_body_size (sd_limits st) \<le> usize_max" using assms(2) by (simp_all add: sd_ready_def)
  have c: "length (sd_decoded_body st) = body_consumed (sd_body_decoder st)" using assms(3,4) by (simp add: sd_counted_def)
  obtain bk where bk: "sd_decoded_body_kind st = Some bk"
    "bk = CloseDelimited \<longrightarrow> sd_phase st = BodyCloseDelimited \<or> sd_phase st = PhaseComplete"
    using assms(2,3) by (auto simp: sd_ready_def)
  show ?thesis
  proof (cases "bk = BodyTunnel \<or> bk = BodyNone")
    case True
    then have "sd_build_response D bk st = (Ok x, st')" using assms(1) bk by (auto simp: sd_decode_body_def)
    then show ?thesis using sd_build_response_counted i(1) c by blast
  next
    case False
    obtain q s where l: "(if bk = CloseDelimited then sd_close_delimited st else sd_body_loop st) = (q, s)"
      by (cases "if bk = CloseDelimited then sd_close_delimited st else sd_body_loop st") auto
    have cs: "q = Ok y \<Longrightarrow> length (sd_decoded_body s) = body_consumed (sd_body_decoder s)" for y
      using l sd_close_delimited_counted [of st y s] sd_body_loop_counted [of st y s] bk(2) i c by (auto split: if_splits)
    have f: "sd_inv s \<and> sd_frame st s"
      using l sd_close_delimited_inv [OF i(1)] sd_body_loop_frame [OF i] by (auto split: if_splits)
    have d: "q = Ok True \<and> sd_build_response D bk s = (Ok x, st') \<or> q = Ok False \<and> x = None \<and> st' = s"
      using assms(1) bk(1) False l by (auto simp: sd_decode_body_def split: result.splits bool.splits)
    then show ?thesis
    proof
      assume "q = Ok True \<and> sd_build_response D bk s = (Ok x, st')"
      with sd_build_response_counted [of D bk s x st'] f cs show ?thesis by (simp add: sd_frame_def)
    next
      assume "q = Ok False \<and> x = None \<and> st' = s"
      with cs f assms(3) show ?thesis by (auto simp: sd_counted_def sd_frame_def)
    qed
  qed
qed

lemma sd_decode_counted:
  assumes "sd_decode D st = (Ok x, st')" "sd_ready st" "sd_counted st"
  shows "sd_counted st' \<and> (\<forall>q. x = Some q \<longrightarrow> response_within (max_body_size (sd_limits st)) q)"
  using assms(1)
proof (cases rule: sd_decode_cases)
  case (headers q)
  then have "x = None" by (simp add: and_then_Ok_iff eq_commute [of "Ok x"])
  with headers sd_decode_headers_keeps [OF headers(1)] assms(3) show ?thesis
    by (auto simp: sd_counted_def sd_keeps_def)
next
  case (both hd bk s)
  let ?s = "s\<lparr>sd_decoded_head := Some hd, sd_decoded_body_kind := Some bk\<rparr>"
  have i: "sd_inv st" using assms(2) by (simp add: sd_ready_def)
  have k: "sd_decoded_body s = []" "sd_limits s = sd_limits st"
    using sd_decode_headers_keeps [OF both(2)] assms(3) both(1) by (auto simp: sd_counted_def sd_keeps_def)
  have "sd_counted ?s" using sd_decode_headers_idle [OF both(2) i] k by (simp add: sd_counted_def idle_body_def)
  with sd_decode_body_counted [OF both(3) sd_head_ready [OF assms(2) both(2)]] k show ?thesis by simp
next
  case body
  with sd_decode_body_counted [OF body(2) assms(2)] assms(3) show ?thesis by simp
qed simp

lemma sd_decode_limits:
  assumes "sd_ready st" "sd_decode D st = (Ok x, st')"
  shows "sd_limits st' = sd_limits st"
  using assms(2)
proof (cases rule: sd_decode_cases)
  case (headers q)
  with sd_decode_headers_keeps [OF headers(1)] show ?thesis by (simp add: sd_keeps_def)
next
  case (both hd bk s)
  let ?s = "s\<lparr>sd_decoded_head := Some hd, sd_decoded_body_kind := Some bk\<rparr>"
  have "sd_ready ?s" by (rule sd_head_ready [OF assms(1) both(2)])
  then have "sd_body_keeps ?s (Ok x) st'"
    using sd_decode_body_inv [OF _ _ _ _ both(3)] by (simp add: sd_ready_def sd_inv_def)
  with sd_decode_headers_keeps [OF both(2)] show ?thesis by (simp add: sd_keeps_def sd_body_keeps_def)
next
  case body
  have "sd_headers st = []" using assms(1) body(1) by (simp add: sd_ready_def sd_inv_def)
  with sd_decode_body_inv [OF _ _ body(1) _ body(2)] assms(1) show ?thesis by (simp add: sd_ready_def sd_body_keeps_def)
qed simp

lemma sd_pump_within:
  "sd_pump D so = (rs, b, t) \<Longrightarrow> so = Some st \<Longrightarrow> sd_ready st \<Longrightarrow> sd_counted st \<Longrightarrow> Some q \<in> set rs \<Longrightarrow>
     response_within (max_body_size (sd_limits st)) q"
proof (induction D so arbitrary: rs st rule: sd_pump.induct)
  case (1 D)
  then show ?case by simp
next
  case (2 D st0)
  then have [simp]: "st0 = st" by simp
  obtain r st' where d: "sd_decode D st = (r, st')" by (cases "sd_decode D st") auto
  show ?case
  proof (cases "\<exists>q'. r = Ok (Some q')")
    case True
    then obtain q' where q': "r = Ok (Some q')" by blast
    with d have d': "sd_decode D st = (Ok (Some q'), st')" by simp
    obtain rs' where rs': "sd_pump D (Some st') = (rs', b, t)" "rs = Some q' # rs'"
      using "2.prems"(1) d q' by (auto simp: sd_pump.simps [of D] split: prod.splits)
    have "sd_ready st'" "sd_limits st' = sd_limits st" using sd_decode_ready sd_decode_limits "2.prems"(3) d' by blast+
    with "2.IH" [of r st' "Some q'" q' rs' st'] d q' sd_decode_counted [OF d' "2.prems"(3,4)] rs' "2.prems"(5)
    show ?thesis by auto
  next
    case False
    with "2.prems"(1,5) d show ?thesis by (cases r) (auto simp: sd_pump.simps [of D] split: option.splits)
  qed
qed

end
