(* ===== verification/Response_Roundtrip.thy ===== *)
theory Response_Roundtrip
  imports Response_Stream Wire
begin

text \<open>
  What \<open>encode_response\<close> writes, \<open>decode\<close> reads back, for ordinary responses and for responses
  without a body: answers to \<open>HEAD\<close>, informational ones, 204 and 304.
\<close>

section \<open>Reading a head\<close>

definition fresh_response :: "DecoderLimits \<Rightarrow> 'd \<Rightarrow> string option \<Rightarrow> string \<Rightarrow> 'd ResponseDecoder" where
  "fresh_response l d m buf = (sd_with_decompressor_and_limits d l)\<lparr>sd_buf := buf, sd_request_method := m\<rparr>"

lemma fresh_response_simps [simp]:
  "sd_buf (fresh_response l d m buf) = buf" "sd_phase (fresh_response l d m buf) = StartLine"
  "sd_start_line (fresh_response l d m buf) = None" "sd_headers (fresh_response l d m buf) = []"
  "sd_body_decoder (fresh_response l d m buf) = bd_new" "sd_limits (fresh_response l d m buf) = l"
  "sd_decoded_head (fresh_response l d m buf) = None" "sd_decoded_body (fresh_response l d m buf) = []"
  "sd_decompressor (fresh_response l d m buf) = d" "sd_request_method (fresh_response l d m buf) = m"
  by (simp_all add: fresh_response_def sd_with_decompressor_and_limits_def)

lemma sd_step_header:
  assumes "wire_header l h" "sd_phase st = Headers" "sd_limits st = l" "length (sd_headers st) < max_headers_count l"
    "sd_buf st = header_line h @ rest"
  shows "sd_step D st = Next (st\<lparr>sd_buf := rest, sd_headers := sd_headers st @ [h]\<rparr>)"
proof -
  have step: "sd_step D st = Next (st\<lparr>sd_buf := r, sd_headers := sd_headers st @ [h]\<rparr>)"
    if "find_line (sd_buf st) = Some p" "p \<noteq> 0" "p \<le> max_header_line_size l" "take p (sd_buf st) = line"
      "drop (p + 2) (sd_buf st) = r" "from_utf8 line = Ok line" "parse_header_line line = Ok h" for p line r
    using that assms(2-4) by (simp add: sd_step_def sd_header_line_step_def)
  note w = wire_header_line(1,2,3) [OF assms(1), of rest, folded assms(5)] wire_header_line(4,5) [OF assms(1)]
  show ?thesis using assms(1) by (intro step [OF w(1) _ _ w(2-5)]) (simp_all add: wire_header_def)
qed

lemma sd_decode_headers_lines:
  assumes "list_all (wire_header l) hs" "sd_phase st = Headers" "sd_limits st = l"
    "length (sd_headers st) + length hs \<le> max_headers_count l" "sd_buf st = header_lines hs @ rest"
  shows "sd_decode_headers D st = sd_decode_headers D (st\<lparr>sd_buf := rest, sd_headers := sd_headers st @ hs\<rparr>)"
  using assms
proof (induction hs arbitrary: st)
  case Nil
  then have "st\<lparr>sd_buf := rest, sd_headers := sd_headers st @ []\<rparr> = st" by (cases st) (simp add: header_lines_def)
  then show ?case by simp
next
  case (Cons h hs)
  have "sd_step D st = Next (st\<lparr>sd_buf := header_lines hs @ rest, sd_headers := sd_headers st @ [h]\<rparr>)"
    using Cons.prems by (intro sd_step_header [where l = l]) (simp_all add: header_lines_def)
  then have "sd_decode_headers D st =
      sd_decode_headers D (st\<lparr>sd_buf := header_lines hs @ rest, sd_headers := sd_headers st @ [h]\<rparr>)"
    by (simp add: sd_decode_headers.simps [of D st])
  also have "\<dots> = sd_decode_headers D (st\<lparr>sd_buf := rest, sd_headers := sd_headers st @ h # hs\<rparr>)"
    using Cons.IH [of "st\<lparr>sd_buf := header_lines hs @ rest, sd_headers := sd_headers st @ [h]\<rparr>"] Cons.prems by simp
  finally show ?case .
qed

definition status_text :: "string \<Rightarrow> nat \<Rightarrow> string \<Rightarrow> string" where
  "status_text v n reason = v @ SP # nat_to_dec n @ SP # reason"

lemma digits_no_sep: "list_all is_ascii_digit s \<Longrightarrow> SP \<notin> set s \<and> CR \<notin> set s \<and> LF \<notin> set s"
  using digit_not_dot by (fastforce simp: list_all_iff)

lemma status_text_facts:
  assumes "status_line_parts v n reason" "valid_utf8 reason"
  shows "find_line (status_text v n reason @ CRLF @ rest) = Some (length (status_text v n reason))"
    "from_utf8 (status_text v n reason) = Ok (status_text v n reason)"
    "check_status_line (status_text v n reason) = Ok ()"
    "stored_status_code (status_text v n reason) = Ok n"
    "splitn 3 SP (status_text v n reason) = [v, nat_to_dec n, reason]"
    "nth_part 0 (status_text v n reason) = v"
proof -
  have p: "is_valid_protocol_version v" "is_valid_status_code n" "reason = [] \<or> is_valid_reason_phrase reason"
    using assms(1) by (simp_all add: status_line_parts_def)
  note v = protocol_version_chars [OF p(1)]
  note dg = digits_no_sep [OF nat_to_dec_digits [of n]]
  have r: "CR \<notin> set reason" "LF \<notin> set reason"
    using p(3) field_vchar_not_crlf by (auto simp: is_valid_reason_phrase_def list_all_iff is_valid_field_vchar_def)
  have cr: "CR \<notin> set (status_text v n reason)" "LF \<notin> set (status_text v n reason)"
    using v dg r by (auto simp: status_text_def)
  show "find_line (status_text v n reason @ CRLF @ rest) = Some (length (status_text v n reason))"
    by (rule find_line_no_CR [OF cr(1)])
  have "list_all (\<lambda>b. u8 b < 0x80) (v @ SP # nat_to_dec n @ [SP])"
    using v(4) nat_to_dec_digits [of n] digit_ascii by (auto simp: list_all_iff)
  then have "valid_utf8 ((v @ SP # nat_to_dec n @ [SP]) @ reason)"
    using assms(2) valid_utf8_ascii valid_utf8_append by blast
  then show "from_utf8 (status_text v n reason) = Ok (status_text v n reason)"
    by (simp add: from_utf8_Ok_iff status_text_def)
  show sp: "splitn 3 SP (status_text v n reason) = [v, nat_to_dec n, reason]"
    unfolding status_text_def using v(1) dg by (intro splitn_3_three) auto
  have "n \<le> u16_max" using p(2) by (simp add: is_valid_status_code_def u16_max_def)
  then have n: "parse_u16 (nat_to_dec n) = Some n" by (simp add: nat_to_dec_def from_str_radix_to_base)
  show "check_status_line (status_text v n reason) = Ok ()"
    using cr sp n p by (auto simp: check_status_line_def)
  show "stored_status_code (status_text v n reason) = Ok n" using sp n by (simp add: stored_status_code_def)
  show "nth_part 0 (status_text v n reason) = v" using v(1) by (simp add: status_text_def nth_part_0)
qed

text \<open>Reading a whole head from a fresh decoder.\<close>

lemma sd_decode_headers_wire:
  assumes "status_line_parts v n reason" "valid_utf8 reason" "list_all (wire_header l) hs" "length hs \<le> max_headers_count l"
    "rs_determine_body_kind m (Some (status_text v n reason)) hs l n = (Ok bk, hs')"
  shows "sd_decode_headers D (fresh_response l d m (status_text v n reason @ CRLF @ header_lines hs @ CRLF @ rest)) =
    (Ok (Some (\<lparr>sh_version = v, sh_status_code = n, sh_reason_phrase = reason, sh_headers = hs'\<rparr>, bk)),
     (fresh_response l d m rest)\<lparr>sd_phase := rs_body_phase bk,
        sd_body_decoder := set_declared_trailers bd_new (collect_declared_trailers hs')\<rparr>)"
proof -
  let ?line = "status_text v n reason" and ?st = "\<lambda>buf. fresh_response l d m buf"
  let ?buf = "header_lines hs @ CRLF @ rest"
  let ?s1 = "(?st ?buf)\<lparr>sd_start_line := Some ?line, sd_phase := Headers\<rparr>"
  let ?s2 = "?s1\<lparr>sd_buf := CRLF @ rest, sd_headers := hs\<rparr>"
  have upd: "(?st x)\<lparr>sd_buf := y\<rparr> = ?st y" for x y by (simp add: fresh_response_def)
  note f = status_text_facts(1) [OF assms(1,2), of ?buf] status_text_facts(2-5) [OF assms(1,2)]
  note t = take_drop_line [of ?line ?buf]
  have "sd_step D (?st (?line @ CRLF @ ?buf)) = Next ?s1"
    unfolding sd_step_def sd_start_line_step_def
    using f(1,2,3) by (simp only: fresh_response_simps DecodePhase.case option.case result.case t upd Let_def)
  then have "sd_decode_headers D (?st (?line @ CRLF @ ?buf)) = sd_decode_headers D ?s1"
    by (simp only: sd_decode_headers.simps [of D "?st (?line @ CRLF @ ?buf)"] step.case)
  also have "\<dots> = sd_decode_headers D ?s2"
    using sd_decode_headers_lines [OF assms(3), of ?s1 "CRLF @ rest" D] assms(4) by simp
  also have "sd_step D ?s2 = Done (Ok (\<lparr>sh_version = v, sh_status_code = n, sh_reason_phrase = reason, sh_headers = hs'\<rparr>, bk))
     ((?st rest)\<lparr>sd_phase := rs_body_phase bk, sd_body_decoder := set_declared_trailers bd_new (collect_declared_trailers hs')\<rparr>)"
    using assms(5) f(4,5)
    by (simp add: sd_step_def sd_end_of_headers_def sh_from_validated_parts_def Let_def)
      (simp add: fresh_response_def sd_with_decompressor_and_limits_def)
  then have "sd_decode_headers D ?s2 = (Ok (Some (\<lparr>sh_version = v, sh_status_code = n, sh_reason_phrase = reason, sh_headers = hs'\<rparr>, bk)),
     (?st rest)\<lparr>sd_phase := rs_body_phase bk, sd_body_decoder := set_declared_trailers bd_new (collect_declared_trailers hs')\<rparr>)"
    by (simp only: sd_decode_headers.simps [of D ?s2] step.case and_then_simps)
  finally show ?thesis .
qed

section \<open>Reading a message\<close>

lemma sd_build_fresh:
  assumes "sd_decoded_head st = Some h" "bk \<noteq> BodyTunnel"
    "st\<lparr>sd_decoded_head := None, sd_phase := StartLine, sd_decoded_body_kind := None, sd_decoded_body := [],
        sd_body_decoder := bd_new, sd_decompressor := d', sd_request_method := None\<rparr> = fresh_response l d' None rest"
    "decompressor_reset D (sd_decompressor st) = d'"
  shows "sd_build_response D bk st =
    (Ok (Some \<lparr>rs_version = sh_version h, rs_status_code = sh_status_code h, rs_reason_phrase = sh_reason_phrase h,
               rs_headers = sh_headers h, rs_body = framed_body bk (sd_decoded_body st), rs_omit_body = False\<rparr>),
     fresh_response l d' None rest)"
  using assms by (simp add: sd_build_response_def rs_from_raw_parts_def framed_body_def Let_def split: BodyKind.split)

lemma sd_decode_wire:
  assumes "status_line_parts v n reason" "valid_utf8 reason" "list_all (wire_header l) hs" "length hs \<le> max_headers_count l"
    "rs_determine_body_kind m (Some (status_text v n reason)) hs l n = (Ok bk, hs')" "payload bk raw body l" "max_body_size l \<le> usize_max"
  shows "sd_decode D (fresh_response l d m (status_text v n reason @ CRLF @ header_lines hs @ CRLF @ raw @ rest)) =
    (Ok (Some \<lparr>rs_version = v, rs_status_code = n, rs_reason_phrase = reason, rs_headers = hs',
               rs_body = framed_body bk body, rs_omit_body = False\<rparr>),
     fresh_response l (decompressor_reset D d) None rest)"
proof -
  let ?head = "\<lparr>sh_version = v, sh_status_code = n, sh_reason_phrase = reason, sh_headers = hs'\<rparr>"
  let ?bd = "set_declared_trailers bd_new (collect_declared_trailers hs')"
  let ?s = "(fresh_response l d m (raw @ rest))\<lparr>sd_phase := rs_body_phase bk, sd_body_decoder := ?bd,
     sd_decoded_head := Some ?head, sd_decoded_body_kind := Some bk\<rparr>"
  have k: "bk \<noteq> BodyTunnel" "bk \<noteq> CloseDelimited" using assms(6) by (auto simp: payload_def)
  have "sd_decode D (fresh_response l d m (status_text v n reason @ CRLF @ header_lines hs @ CRLF @ raw @ rest)) =
      sd_decode_body D ?s"
    using sd_decode_headers_wire [OF assms(1-5), of D d "raw @ rest"] by (simp add: sd_decode_def)
  also have "\<dots> = (Ok (Some \<lparr>rs_version = v, rs_status_code = n, rs_reason_phrase = reason, rs_headers = hs',
               rs_body = framed_body bk body, rs_omit_body = False\<rparr>),
     fresh_response l (decompressor_reset D d) None rest)"
  proof (cases "bk = BodyNone")
    case True
    then have e: "raw = []" "body = []" using assms(6) by (simp_all add: payload_def)
    have "sd_build_response D BodyNone ?s =
      (Ok (Some \<lparr>rs_version = sh_version ?head, rs_status_code = sh_status_code ?head, rs_reason_phrase = sh_reason_phrase ?head,
               rs_headers = sh_headers ?head, rs_body = framed_body BodyNone (sd_decoded_body ?s), rs_omit_body = False\<rparr>),
       fresh_response l (decompressor_reset D d) None rest)"
      by (rule sd_build_fresh) (simp_all add: e, simp add: fresh_response_def sd_with_decompressor_and_limits_def)
    with True e show ?thesis by (simp add: sd_decode_body_def framed_body_def)
  next
    case False
    have "bk = ContentLength i \<longrightarrow> i \<le> max_body_size l" for i
      using rs_determine_body_kind_ok(1) [OF assms(5)] by (cases "i = 0") (auto simp: rs_body_phase_def)
    then have i: "\<forall>i. bk = ContentLength i \<longrightarrow> i \<le> max_body_size l" by blast
    obtain bd' where b: "body_loop l ?bd (raw @ rest) (rs_body_phase bk) [] = (Ok True, bd', rest, PhaseComplete, body)"
      using body_loop_payload [OF assms(6) False i assms(7), of ?bd "rs_body_phase bk" rest]
      by (auto simp: payload_phase_def rs_body_phase_def)
    let ?t = "?s\<lparr>sd_body_decoder := bd', sd_buf := rest, sd_phase := PhaseComplete, sd_decoded_body := body\<rparr>"
    have loop: "sd_body_loop ?s = (Ok True, ?t)" using b by (simp add: sd_body_loop_def)
    with False k have "sd_decode_body D ?s = sd_build_response D bk ?t" by (simp add: sd_decode_body_def)
    moreover have "sd_build_response D bk ?t =
      (Ok (Some \<lparr>rs_version = sh_version ?head, rs_status_code = sh_status_code ?head, rs_reason_phrase = sh_reason_phrase ?head,
               rs_headers = sh_headers ?head, rs_body = framed_body bk (sd_decoded_body ?t), rs_omit_body = False\<rparr>),
       fresh_response l (decompressor_reset D d) None rest)"
      by (rule sd_build_fresh) (simp_all add: False k, simp add: fresh_response_def sd_with_decompressor_and_limits_def)
    ultimately show ?thesis by simp
  qed
  finally show ?thesis .
qed

section \<open>Encoding and decoding\<close>

text \<open>
  A response the decoder of limits \<open>l\<close> can take as it is sent. A status that allows a body has
  one or announces its length, as it would otherwise end with the connection.
\<close>

definition sendable_response :: "DecoderLimits \<Rightarrow> Response \<Rightarrow> bool" where
  "sendable_response l r \<longleftrightarrow> is_valid_protocol_version (rs_version r) \<and> valid_utf8 (rs_reason_phrase r)
     \<and> \<not> has_header (rs_headers r) ''Transfer-Encoding''
     \<and> list_all (wire_header l) (response_headers_sent r) \<and> length (response_headers_sent r) \<le> max_headers_count l
     \<and> body_len (rs_body r) \<le> max_body_size l"

lemma encode_response_parts:
  assumes "encode_response r = Ok out" "sendable_response l r"
  shows "status_line_parts (rs_version r) (rs_status_code r) (rs_reason_phrase r)"
  using assms
  by (auto simp: encode_response_def response_checks_def validate_response_fields_def result_iff Let_def
      sendable_response_def status_line_parts_def)

lemma status_has_body_eq: "status_has_body = response_status_has_body"
  by (intro ext) (simp add: status_has_body_def response_status_has_body_def)

lemma status_line_bytes_text:
  "status_line_bytes r = status_text (rs_version r) (rs_status_code r) (rs_reason_phrase r) @ CRLF"
  by (simp add: status_line_bytes_def status_text_def)

theorem bodyless_response_roundtrip:
  assumes "encode_response r = Ok out" "sendable_response l r" "max_body_size l \<le> usize_max"
    "m = Some ''HEAD'' \<and> rs_omit_body r \<or> \<not> response_status_has_body (rs_status_code r)"
  shows "sd_decode D (fresh_response l d m (out @ rest)) =
    (Ok (Some (r\<lparr>rs_headers := response_headers_sent r, rs_body := None, rs_omit_body := False\<rparr>)),
     fresh_response l (decompressor_reset D d) None rest)"
proof -
  let ?hs = "response_headers_sent r" and ?line = "status_text (rs_version r) (rs_status_code r) (rs_reason_phrase r)"
  have s: "valid_utf8 (rs_reason_phrase r)" "list_all (wire_header l) ?hs" "length ?hs \<le> max_headers_count l"
    "body_len (rs_body r) \<le> usize_max"
    using assms(2,3) by (auto simp: sendable_response_def)
  have out: "out @ rest = ?line @ CRLF @ header_lines ?hs @ CRLF @ [] @ rest"
    using encode_response_bytes [OF assms(1) s(4)] assms(4) by (auto simp: status_line_bytes_text body_will_be_encoded_def)
  have k: "rs_determine_body_kind m (Some ?line) ?hs l (rs_status_code r) = (Ok BodyNone, ?hs)"
    using assms(4) by (auto simp: rs_determine_body_kind_def status_has_body_eq)
  have "payload BodyNone [] [] l" by (simp add: payload_def)
  from sd_decode_wire [OF encode_response_parts [OF assms(1,2)] s(1-3) k this assms(3), of D d rest]
  show ?thesis unfolding out by (simp add: framed_body_def)
qed

theorem response_roundtrip:
  assumes "encode_response r = Ok out" "sendable_response l r" "max_body_size l \<le> usize_max"
    "response_status_has_body (rs_status_code r)" "\<not> rs_omit_body r"
    "rs_body r \<noteq> None \<or> has_header (rs_headers r) ''Content-Length''"
    "m \<noteq> Some ''HEAD''" "m \<noteq> Some ''CONNECT''"
  shows "sd_decode D (fresh_response l d m (out @ rest)) =
    (Ok (Some (r\<lparr>rs_headers := response_headers_sent r, rs_body := Some (body_bytes (rs_body r))\<rparr>)),
     fresh_response l (decompressor_reset D d) None rest)"
proof -
  let ?hs = "response_headers_sent r" and ?line = "status_text (rs_version r) (rs_status_code r) (rs_reason_phrase r)"
  let ?bk = "ContentLength (body_len (rs_body r))"
  have s: "valid_utf8 (rs_reason_phrase r)" "list_all (wire_header l) ?hs" "length ?hs \<le> max_headers_count l"
    "body_len (rs_body r) \<le> usize_max" "\<not> has_header (rs_headers r) ''Transfer-Encoding''" "body_len (rs_body r) \<le> max_body_size l"
    using assms(2,3) by (auto simp: sendable_response_def)
  have b: "body_will_be_encoded r" using assms(4,5) by (simp add: body_will_be_encoded_def)
  have out: "out @ rest = ?line @ CRLF @ header_lines ?hs @ CRLF @ body_bytes (rs_body r) @ rest"
    using encode_response_bytes [OF assms(1) s(4)] b by (simp add: status_line_bytes_text)
  have cl: "match_content_length (rs_headers r) (body_len (rs_body r)) True = Ok ()"
    using assms(1,4) s(5) b by (auto simp: encode_response_def result_iff)
  have a: "should_auto_emit_content_length_for_response r \<longleftrightarrow> rs_body r \<noteq> None \<and> \<not> has_header (rs_headers r) ''Content-Length''"
    using assms(4,5) s(5) by (auto simp: should_auto_emit_content_length_for_response_def split: option.splits)
  have "parse_content_length ?hs = Ok (Some (body_len (rs_body r)))"
    using sent_content_length [OF cl s(4) a] assms(6)
    by (auto simp: response_headers_sent_def has_header_values header_values_append header_values_auto a split: option.splits)
  moreover have te: "header_values ''Transfer-Encoding'' ?hs = []"
    using s(5) by (simp add: response_headers_sent_def header_values_append header_values_auto has_header_values)
  ultimately have "resolve_body_headers_for_response ?hs = Ok (TeNone, Some (body_len (rs_body r)))"
    using parse_te_response_iff [of ?hs TeNone]
    by (simp add: resolve_body_headers_for_response_def header_elements_def chunked_count_def)
  moreover have "\<not> list_ex (\<lambda>h. eq_ignore_ascii_case (fst h) ''Transfer-Encoding'') ?hs"
    using te has_header_values [of ?hs "''Transfer-Encoding''"] by (simp add: has_header_def)
  ultimately have k: "rs_determine_body_kind m (Some ?line) ?hs l (rs_status_code r) = (Ok ?bk, ?hs)"
    using assms(4,7,8) s(6) by (simp add: rs_determine_body_kind_def status_has_body_eq)
  have "payload ?bk (body_bytes (rs_body r)) (body_bytes (rs_body r)) l" by (simp add: payload_def)
  from sd_decode_wire [OF encode_response_parts [OF assms(1,2)] s(1-3) k this assms(3), of D d rest] assms(5)
  show ?thesis unfolding out by (simp add: framed_body_def)
qed

end
