(* ===== verification/Request_Reachable.thy ===== *)
theory Request_Reachable
  imports Request_Stream
begin

text \<open>
  The states of a \<open>RequestDecoder\<close> that its public methods can reach, and the invariant they
  keep: limits, well-formed trailers, checked start line, bounded buffer.
\<close>

section \<open>Reachable decoders\<close>

text \<open>
  The states a program can reach through the public API on untrusted input. The guards are the
  contracts the methods assert in debug builds: no unconfirmed slot when a method other than
  \<open>mut_buf\<close> and \<open>advance_buf\<close> is called. Between those two the caller may write the slot.
\<close>

inductive rd_reachable :: "'d Decompressor \<Rightarrow> DecoderLimits \<Rightarrow> 'd RequestDecoder \<Rightarrow> bool" for D l where
  init: "rd_reachable D l (rd_with_decompressor_and_limits d l)"
| feed: "rd_reachable D l st \<Longrightarrow> rd_pending st = 0 \<Longrightarrow> rd_feed st dat = (r, st') \<Longrightarrow> rd_reachable D l st'"
| mut: "rd_reachable D l st \<Longrightarrow> rd_mut_buf st n = (r, st') \<Longrightarrow> rd_reachable D l st'"
| slot: "rd_reachable D l st \<Longrightarrow> length dat \<le> rd_pending st \<Longrightarrow>
    rd_reachable D l (st\<lparr>rd_buf := write_slot (rd_buf st) (rd_pending st) dat\<rparr>)"
| advance: "rd_reachable D l st \<Longrightarrow> rd_advance_buf st n = (r, st') \<Longrightarrow> rd_reachable D l st'"
| headers: "rd_reachable D l st \<Longrightarrow> rd_pending st = 0 \<Longrightarrow> rd_decode_headers D st = (r, st') \<Longrightarrow> rd_reachable D l st'"
| consume: "rd_reachable D l st \<Longrightarrow> rd_pending st = 0 \<Longrightarrow> rd_consume_body st n = (r, st') \<Longrightarrow> rd_reachable D l st'"
| progress: "rd_reachable D l st \<Longrightarrow> rd_pending st = 0 \<Longrightarrow> rd_progress st = (r, st') \<Longrightarrow> rd_reachable D l st'"
| decompressed: "rd_reachable D l st \<Longrightarrow> rd_pending st = 0 \<Longrightarrow>
    rd_peek_body_decompressed D st out = (r, st', out') \<Longrightarrow> rd_reachable D l st'"
| decode: "rd_reachable D l st \<Longrightarrow> rd_pending st = 0 \<Longrightarrow> rd_decode D st = (r, st') \<Longrightarrow> rd_reachable D l st'"
| take: "rd_reachable D l st \<Longrightarrow> rd_pending st = 0 \<Longrightarrow> rd_take_remaining st = (b, st') \<Longrightarrow> rd_reachable D l st'"
| reset: "rd_reachable D l st \<Longrightarrow> rd_reachable D l (rd_reset D st)"

definition rd_good :: "DecoderLimits \<Rightarrow> 'd RequestDecoder \<Rightarrow> bool" where
  "rd_good l st \<longleftrightarrow> rd_inv st \<and> rd_kind_ok st \<and> rd_limits st = l \<and> buffer_inv (max_buffer_size l) (rd_buf st) (rd_pending st)"

lemma rd_put_body_good:
  assumes "rd_good l st" "rd_pending st = 0"
    "bd_consume_body (rd_body_decoder st) (rd_buf st) (rd_phase st) n l = (r, bd, buf, ph)"
  shows "rd_good l (st\<lparr>rd_body_decoder := bd, rd_buf := buf, rd_phase := ph\<rparr>)"
proof -
  have g: "rd_inv st" "rd_limits st = l" "length (rd_buf st) \<le> max_buffer_size l"
    using assms(1) by (auto simp: rd_good_def buffer_inv_def)
  have b: "body_inv l (rd_body_decoder st) (rd_phase st)" using g by (simp add: rd_inv_def)
  note i = consume_body_inv [OF assms(3) b] consume_header_phase [OF assms(3)] consume_length [OF assms(3)]
  have "rd_phase st = Headers \<Longrightarrow> ph = Headers \<and> bd = rd_body_decoder st"
    using assms(3) by (auto simp: bd_consume_body_def)
  then have "rd_inv (st\<lparr>rd_body_decoder := bd, rd_buf := buf, rd_phase := ph\<rparr>)"
    using i g by (cases "rd_phase st = Headers") (auto simp: rd_inv_def)
  with i g assms(1,2) show ?thesis by (simp add: rd_good_def rd_kind_ok_def buffer_inv_def)
qed

lemma rd_buf_good:
  assumes "rd_good l st" "buffer_inv (max_buffer_size l) buf p"
  shows "rd_good l (st\<lparr>rd_buf := buf, rd_pending := p\<rparr>)"
  using assms by (auto simp: rd_good_def rd_inv_def rd_kind_ok_def)

lemma rd_feed_good:
  assumes "rd_good l st" "rd_feed st dat = (r, st')" shows "rd_good l st'"
proof -
  obtain buf' where f: "feed (rd_buf st) (rd_pending st) (max_buffer_size l) dat = (r, buf')" "st' = st\<lparr>rd_buf := buf'\<rparr>"
    using assms by (auto simp: rd_feed_def rd_good_def split: prod.splits)
  with feed_inv [OF _ f(1)] rd_buf_good [OF assms(1), of buf' "rd_pending st"] assms(1) show ?thesis
    by (simp add: rd_good_def)
qed

lemma rd_mut_good:
  assumes "rd_good l st" "rd_mut_buf st n = (r, st')" shows "rd_good l st' \<and> r \<noteq> Panic"
proof -
  obtain buf' p' where f: "mut_buf (rd_buf st) (rd_pending st) (max_buffer_size l) n = (r, buf', p')"
    "st' = st\<lparr>rd_buf := buf', rd_pending := p'\<rparr>"
    using assms by (auto simp: rd_mut_buf_def rd_good_def split: prod.splits)
  have "buffer_inv (max_buffer_size l) (rd_buf st) (rd_pending st)" using assms(1) by (simp add: rd_good_def)
  from mut_buf_inv(1,2) [OF this f(1)] rd_buf_good [OF assms(1)] f(2) show ?thesis by simp
qed

lemma rd_advance_good:
  assumes "rd_good l st" "rd_advance_buf st n = (r, st')" shows "rd_good l st' \<and> r = Ok ()"
proof -
  obtain buf' p' where f: "advance_buf (rd_buf st) (rd_pending st) n = (r, buf', p')"
    "st' = st\<lparr>rd_buf := buf', rd_pending := p'\<rparr>"
    using assms by (auto simp: rd_advance_buf_def split: prod.splits)
  have "buffer_inv (max_buffer_size l) (rd_buf st) (rd_pending st)" using assms(1) by (simp add: rd_good_def)
  from advance_buf_inv(1,2) [OF this f(1)] rd_buf_good [OF assms(1)] f(2) show ?thesis by simp
qed

theorem rd_reachable_good:
  assumes "rd_reachable D l st" "max_body_size l \<le> usize_max"
  shows "rd_good l st"
  using assms(1)
proof induction
  case (init d)
  show ?case
    by (auto simp: rd_good_def rd_inv_def rd_kind_ok_def buffer_inv_def rd_with_decompressor_and_limits_def
        intro!: idle_body_inv)
next
  case (feed st dat r st')
  then show ?case using rd_feed_good by blast
next
  case (mut st n r st')
  then show ?case using rd_mut_good by blast
next
  case (slot st dat)
  then show ?case
    using rd_buf_good [of l st _ "rd_pending st"] write_slot_inv [of "max_buffer_size l" "rd_buf st" "rd_pending st" dat]
    by (simp add: rd_good_def)
next
  case (advance st n r st')
  then show ?case using rd_advance_good by blast
next
  case (headers st r st')
  then have "rd_inv st" by (simp add: rd_good_def)
  from rd_decode_headers_inv [OF headers(3) this] rd_decode_headers_keeps [OF headers(3)] headers(2,4)
  show ?case by (auto simp: rd_good_def rd_keeps_def rd_kind_ok_def buffer_inv_def)
next
  case (consume st n r st')
  then have lim: "rd_limits st = l" by (simp add: rd_good_def)
  obtain bd buf ph where c: "dec_consume_body (rd_body_decoder st) (rd_buf st) (rd_phase st) n l = (r, bd, buf, ph)"
    "st' = st\<lparr>rd_body_decoder := bd, rd_buf := buf, rd_phase := ph\<rparr>"
    using consume(3) lim by (auto simp: rd_consume_body_def rd_put_body_def split: prod.splits)
  show ?case
  proof (cases "n = 0")
    case True
    with c consume show ?thesis by (auto simp: dec_consume_body_def)
  next
    case False
    with c rd_put_body_good [of l st n] consume show ?thesis by (auto simp: dec_consume_body_def)
  qed
next
  case (progress st r st')
  then have lim: "rd_limits st = l" by (simp add: rd_good_def)
  with progress rd_put_body_good [of l st 0] show ?case
    by (auto simp: rd_progress_def rd_put_body_def dec_progress_def split: prod.splits)
next
  case (decompressed st out r st' out')
  then show ?case
    by (auto simp: rd_peek_body_decompressed_def rd_good_def rd_inv_def rd_kind_ok_def split: prod.splits)
next
  case (decode st r st')
  then have g: "rd_inv st" "rd_kind_ok st" "max_body_size (rd_limits st) \<le> usize_max"
    using assms(2) by (simp_all add: rd_good_def)
  from rd_decode_inv [OF g decode(3)] rd_decode_length [OF decode(3)] decode(2,4) show ?case
    by (simp add: rd_good_def buffer_inv_def)
next
  case (take st b st')
  then show ?case
    by (auto simp: rd_take_remaining_def rd_good_def rd_inv_def rd_kind_ok_def buffer_inv_def)
next
  case (reset st)
  then show ?case
    by (auto simp: rd_reset_def rd_good_def rd_inv_def rd_kind_ok_def buffer_inv_def intro!: idle_body_inv)
qed

end
