(* ===== verification/Response_Reachable.thy ===== *)
theory Response_Reachable
  imports Response_Stream
begin

text \<open>
  The states of a \<open>ResponseDecoder\<close> that its public methods can reach, and the invariant they
  keep.
\<close>

section \<open>Reachable decoders\<close>

text \<open>
  The states a program can reach through the public API on untrusted input. The guards are the
  contracts the methods assert in debug builds: no unconfirmed slot when a method other than
  \<open>mut_buf\<close> and \<open>advance_buf\<close> is called. Between those two the caller may write the slot.
\<close>

inductive sd_reachable :: "'d Decompressor \<Rightarrow> DecoderLimits \<Rightarrow> 'd ResponseDecoder \<Rightarrow> bool" for D l where
  init: "sd_reachable D l (sd_with_decompressor_and_limits d l)"
| feed: "sd_reachable D l st \<Longrightarrow> sd_pending st = 0 \<Longrightarrow> sd_feed st dat = (r, st') \<Longrightarrow> sd_reachable D l st'"
| mut: "sd_reachable D l st \<Longrightarrow> sd_mut_buf st n = (r, st') \<Longrightarrow> sd_reachable D l st'"
| slot: "sd_reachable D l st \<Longrightarrow> length dat \<le> sd_pending st \<Longrightarrow>
    sd_reachable D l (st\<lparr>sd_buf := write_slot (sd_buf st) (sd_pending st) dat\<rparr>)"
| advance: "sd_reachable D l st \<Longrightarrow> sd_advance_buf st n = (r, st') \<Longrightarrow> sd_reachable D l st'"
| headers: "sd_reachable D l st \<Longrightarrow> sd_pending st = 0 \<Longrightarrow> sd_decode_headers D st = (r, st') \<Longrightarrow> sd_reachable D l st'"
| consume: "sd_reachable D l st \<Longrightarrow> sd_pending st = 0 \<Longrightarrow> sd_consume_body st n = (r, st') \<Longrightarrow> sd_reachable D l st'"
| progress: "sd_reachable D l st \<Longrightarrow> sd_pending st = 0 \<Longrightarrow> sd_progress st = (r, st') \<Longrightarrow> sd_reachable D l st'"
| decompressed: "sd_reachable D l st \<Longrightarrow> sd_pending st = 0 \<Longrightarrow>
    sd_peek_body_decompressed D st out = (r, st', out') \<Longrightarrow> sd_reachable D l st'"
| decode: "sd_reachable D l st \<Longrightarrow> sd_pending st = 0 \<Longrightarrow> sd_decode D st = (r, st') \<Longrightarrow> sd_reachable D l st'"
| take: "sd_reachable D l st \<Longrightarrow> sd_pending st = 0 \<Longrightarrow> sd_take_remaining st = (b, st') \<Longrightarrow> sd_reachable D l st'"
| eof: "sd_reachable D l st \<Longrightarrow> sd_pending st = 0 \<Longrightarrow> sd_reachable D l (sd_mark_eof st)"
| meth: "sd_reachable D l st \<Longrightarrow> sd_reachable D l (sd_set_request_method st m)"
| reset: "sd_reachable D l st \<Longrightarrow> sd_reachable D l (sd_reset D st)"

definition sd_good :: "DecoderLimits \<Rightarrow> 'd ResponseDecoder \<Rightarrow> bool" where
  "sd_good l st \<longleftrightarrow> sd_inv st \<and> sd_kind_ok st \<and> sd_limits st = l \<and> buffer_inv (max_buffer_size l) (sd_buf st) (sd_pending st)"

lemma sd_put_body_good:
  assumes "sd_good l st" "sd_pending st = 0"
    "bd_consume_body (sd_body_decoder st) (sd_buf st) (sd_phase st) n l = (r, bd, buf, ph)"
  shows "sd_good l (st\<lparr>sd_body_decoder := bd, sd_buf := buf, sd_phase := ph\<rparr>)"
  using assms sd_consume_inv [of st n r bd buf ph] consume_length [OF assms(3)]
  by (simp add: sd_good_def sd_kind_ok_def buffer_inv_def)

lemma sd_buf_good:
  assumes "sd_good l st" "buffer_inv (max_buffer_size l) buf p"
  shows "sd_good l (st\<lparr>sd_buf := buf, sd_pending := p\<rparr>)"
  using assms by (auto simp: sd_good_def sd_inv_def sd_kind_ok_def)

lemma sd_feed_good:
  assumes "sd_good l st" "sd_feed st dat = (r, st')" shows "sd_good l st'"
proof -
  obtain buf' where f: "feed (sd_buf st) (sd_pending st) (max_buffer_size l) dat = (r, buf')" "st' = st\<lparr>sd_buf := buf'\<rparr>"
    using assms by (auto simp: sd_feed_def sd_good_def split: prod.splits)
  with feed_inv [OF _ f(1)] sd_buf_good [OF assms(1), of buf' "sd_pending st"] assms(1) show ?thesis
    by (simp add: sd_good_def)
qed

lemma sd_mut_good:
  assumes "sd_good l st" "sd_mut_buf st n = (r, st')" shows "sd_good l st' \<and> r \<noteq> Panic"
proof -
  obtain buf' p' where f: "mut_buf (sd_buf st) (sd_pending st) (max_buffer_size l) n = (r, buf', p')"
    "st' = st\<lparr>sd_buf := buf', sd_pending := p'\<rparr>"
    using assms by (auto simp: sd_mut_buf_def sd_good_def split: prod.splits)
  have "buffer_inv (max_buffer_size l) (sd_buf st) (sd_pending st)" using assms(1) by (simp add: sd_good_def)
  from mut_buf_inv(1,2) [OF this f(1)] sd_buf_good [OF assms(1)] f(2) show ?thesis by simp
qed

lemma sd_advance_good:
  assumes "sd_good l st" "sd_advance_buf st n = (r, st')" shows "sd_good l st' \<and> r = Ok ()"
proof -
  obtain buf' p' where f: "advance_buf (sd_buf st) (sd_pending st) n = (r, buf', p')"
    "st' = st\<lparr>sd_buf := buf', sd_pending := p'\<rparr>"
    using assms by (auto simp: sd_advance_buf_def split: prod.splits)
  have "buffer_inv (max_buffer_size l) (sd_buf st) (sd_pending st)" using assms(1) by (simp add: sd_good_def)
  from advance_buf_inv(1,2) [OF this f(1)] sd_buf_good [OF assms(1)] f(2) show ?thesis by simp
qed

theorem sd_reachable_good:
  assumes "sd_reachable D l st" "max_body_size l \<le> usize_max"
  shows "sd_good l st"
  using assms(1)
proof induction
  case (init d)
  show ?case
    by (auto simp: sd_good_def sd_inv_def sd_kind_ok_def buffer_inv_def sd_with_decompressor_and_limits_def
        intro!: idle_body_inv)
next
  case (feed st dat r st')
  then show ?case using sd_feed_good by blast
next
  case (mut st n r st')
  then show ?case using sd_mut_good by blast
next
  case (slot st dat)
  then show ?case
    using sd_buf_good [of l st _ "sd_pending st"] write_slot_inv [of "max_buffer_size l" "sd_buf st" "sd_pending st" dat]
    by (simp add: sd_good_def)
next
  case (advance st n r st')
  then show ?case using sd_advance_good by blast
next
  case (headers st r st')
  then have "sd_inv st" by (simp add: sd_good_def)
  from sd_decode_headers_inv [OF headers(3) this] sd_decode_headers_keeps [OF headers(3)] headers(2,4)
  show ?case by (auto simp: sd_good_def sd_keeps_def sd_kind_ok_def buffer_inv_def)
next
  case (consume st n r st')
  then have lim: "sd_limits st = l" by (simp add: sd_good_def)
  obtain bd buf ph where c: "dec_consume_body (sd_body_decoder st) (sd_buf st) (sd_phase st) n l = (r, bd, buf, ph)"
    "st' = st\<lparr>sd_body_decoder := bd, sd_buf := buf, sd_phase := ph\<rparr>"
    using consume(3) lim by (auto simp: sd_consume_body_def sd_put_body_def split: prod.splits)
  show ?case
  proof (cases "n = 0")
    case True
    with c consume show ?thesis by (auto simp: dec_consume_body_def)
  next
    case False
    with c sd_put_body_good [of l st n] consume show ?thesis by (auto simp: dec_consume_body_def)
  qed
next
  case (progress st r st')
  then have lim: "sd_limits st = l" by (simp add: sd_good_def)
  with progress sd_put_body_good [of l st 0] show ?case
    by (auto simp: sd_progress_def sd_put_body_def dec_progress_def split: prod.splits)
next
  case (decompressed st out r st' out')
  then show ?case
    by (auto simp: sd_peek_body_decompressed_def sd_good_def sd_inv_def sd_kind_ok_def split: prod.splits)
next
  case (decode st r st')
  then have g: "sd_inv st" "sd_kind_ok st" "max_body_size (sd_limits st) \<le> usize_max"
    using assms(2) by (simp_all add: sd_good_def)
  from sd_decode_keeps [OF g decode(3)] decode(2,4) show ?case by (simp add: sd_good_def buffer_inv_def)
next
  case (take st b st')
  then show ?case
    by (auto simp: sd_take_remaining_def sd_good_def sd_inv_def sd_kind_ok_def buffer_inv_def)
next
  case (eof st)
  then show ?case by (auto simp: sd_mark_eof_def sd_good_def sd_inv_def sd_kind_ok_def body_inv_def)
next
  case (meth st m)
  then show ?case by (auto simp: sd_set_request_method_def sd_good_def sd_inv_def sd_kind_ok_def)
next
  case (reset st)
  then show ?case
    by (auto simp: sd_reset_def sd_good_def sd_inv_def sd_kind_ok_def buffer_inv_def intro!: idle_body_inv)
qed

end
