(* ===== verification/Framing.thy ===== *)
theory Framing
  imports Request_Reachable Response_Reachable
begin

text \<open>
  The framing decisions of both decoders, stated over the lists of header values: when a message
  is chunked, when it has a length, when it ends with its head or with the connection.
\<close>

section \<open>Requests\<close>

definition host_ok :: "header list \<Rightarrow> bool" where
  "host_ok hs \<longleftrightarrow> (case header_values ''Host'' hs of [v] \<Rightarrow> v = [] \<or> is_ok (Host_parse v) | _ \<Rightarrow> False)"

lemma check_host_headers_iff: "check_host_headers hs = Ok u \<longleftrightarrow> host_ok hs"
  by (auto simp: check_host_headers_def host_ok_def header_values_def Let_def split: list.splits)

text \<open>RFC 9112 section 6.3 for requests, with the additional checks of this library.\<close>

fun request_framing :: "BodyKind \<Rightarrow> header list \<Rightarrow> DecoderLimits \<Rightarrow> string \<Rightarrow> bool" where
  "request_framing Chunked hs l v \<longleftrightarrow> v = ''HTTP/1.1'' \<and> header_values ''Content-Length'' hs = []
     \<and> (\<exists>t. header_elements ''Transfer-Encoding'' hs = [t] \<and> is_chunked_token t)"
| "request_framing (ContentLength n) hs l v \<longleftrightarrow> header_elements ''Transfer-Encoding'' hs = []
     \<and> header_values ''Content-Length'' hs \<noteq> [] \<and> list_all (cl_value_ok n) (header_values ''Content-Length'' hs)
     \<and> n \<le> max_body_size l"
| "request_framing BodyNone hs l v \<longleftrightarrow> header_elements ''Transfer-Encoding'' hs = [] \<and> header_values ''Content-Length'' hs = []"
| "request_framing _ hs l v \<longleftrightarrow> False"

lemma resolve_request_iff:
  "resolve_body_headers_for_request hs = Ok (c, cl) \<longleftrightarrow>
     (if c then (\<exists>t. header_elements ''Transfer-Encoding'' hs = [t] \<and> is_chunked_token t)
        \<and> header_values ''Content-Length'' hs = [] \<and> cl = None
      else header_elements ''Transfer-Encoding'' hs = [] \<and> parse_content_length hs = Ok cl)"
  by (cases cl) (auto simp: resolve_body_headers_for_request_def result_iff parse_te_request_iff parse_content_length_iff
      split: if_splits)

lemma rq_determine_body_kind_iff:
  "rq_determine_body_kind hs l v = Ok bk \<longleftrightarrow> request_framing bk hs l v"
proof -
  have iff: "rq_determine_body_kind hs l v = Ok bk \<longleftrightarrow>
     (\<exists>cl. resolve_body_headers_for_request hs = Ok (True, cl) \<and> v = ''HTTP/1.1'' \<and> bk = Chunked)
     \<or> (\<exists>n. resolve_body_headers_for_request hs = Ok (False, Some n) \<and> n \<le> max_body_size l \<and> bk = ContentLength n)
     \<or> (resolve_body_headers_for_request hs = Ok (False, None) \<and> bk = BodyNone)"
  proof (cases "resolve_body_headers_for_request hs")
    case (Ok p)
    obtain c cl where p: "p = (c, cl)" by (cases p)
    show ?thesis using Ok unfolding p rq_determine_body_kind_def by (cases c; cases cl) auto
  qed (simp_all add: rq_determine_body_kind_def)
  have eq: "rq_determine_body_kind hs l v = Ok bk \<longleftrightarrow>
     (case bk of
        Chunked \<Rightarrow> v = ''HTTP/1.1'' \<and> (\<exists>cl. resolve_body_headers_for_request hs = Ok (True, cl))
      | ContentLength n \<Rightarrow> resolve_body_headers_for_request hs = Ok (False, Some n) \<and> n \<le> max_body_size l
      | BodyNone \<Rightarrow> resolve_body_headers_for_request hs = Ok (False, None)
      | _ \<Rightarrow> False)"
    unfolding iff by (cases bk) (simp_all, blast?)
  show ?thesis
    unfolding eq resolve_request_iff parse_content_length_iff by (cases bk) (simp_all, blast)
qed

section \<open>Responses\<close>

definition te_responses_ok :: "string list \<Rightarrow> bool" where
  "te_responses_ok es \<longleftrightarrow> list_all te_elem_ok es \<and> chunked_count es \<le> 1"

fun response_framing :: "BodyKind \<Rightarrow> header list \<Rightarrow> DecoderLimits \<Rightarrow> bool" where
  "response_framing Chunked hs l \<longleftrightarrow> (let es = header_elements ''Transfer-Encoding'' hs
     in es \<noteq> [] \<and> te_responses_ok es \<and> is_chunked_token (te_base (last es)) \<and> header_values ''Content-Length'' hs = [])"
| "response_framing CloseDelimited hs l \<longleftrightarrow> header_values ''Content-Length'' hs = []
     \<and> (let es = header_elements ''Transfer-Encoding'' hs
        in es = [] \<or> te_responses_ok es \<and> \<not> is_chunked_token (te_base (last es)))"
| "response_framing (ContentLength n) hs l \<longleftrightarrow> header_elements ''Transfer-Encoding'' hs = []
     \<and> header_values ''Content-Length'' hs \<noteq> [] \<and> list_all (cl_value_ok n) (header_values ''Content-Length'' hs)
     \<and> n \<le> max_body_size l"
| "response_framing _ hs l \<longleftrightarrow> False"

lemma resolve_response_iff:
  "resolve_body_headers_for_response hs = Ok (te, cl) \<longleftrightarrow>
     (let es = header_elements ''Transfer-Encoding'' hs
      in if te = TeNone then es = [] \<and> parse_content_length hs = Ok cl
         else es \<noteq> [] \<and> te_responses_ok es \<and> te = (if is_chunked_token (te_base (last es)) then TeChunked else TeOther)
              \<and> header_values ''Content-Length'' hs = [] \<and> cl = None)"
  by (auto simp: resolve_body_headers_for_response_def result_iff parse_te_response_iff parse_content_length_iff
      te_responses_ok_def chunked_count_def Let_def split: if_splits)

text \<open>The part of the decision that looks at the framing headers.\<close>

lemma response_kind_iff:
  "and_then (resolve_body_headers_for_response hs) (\<lambda>(te_result, cl).
      case te_result of
        TeChunked \<Rightarrow> Ok Chunked
      | TeOther \<Rightarrow> Ok CloseDelimited
      | TeNone \<Rightarrow> (case cl of
           Some len \<Rightarrow> if len > max_body_size l then Err (BodyTooLarge (min len usize_max) (max_body_size l))
                       else Ok (ContentLength len)
         | None \<Rightarrow> Ok CloseDelimited)) = Ok bk \<longleftrightarrow> response_framing bk hs l"
    (is "?lhs = _ \<longleftrightarrow> _")
proof -
  have iff: "?lhs = Ok bk \<longleftrightarrow>
     (\<exists>cl. resolve_body_headers_for_response hs = Ok (TeChunked, cl) \<and> bk = Chunked)
     \<or> (\<exists>cl. resolve_body_headers_for_response hs = Ok (TeOther, cl) \<and> bk = CloseDelimited)
     \<or> (\<exists>n. resolve_body_headers_for_response hs = Ok (TeNone, Some n) \<and> n \<le> max_body_size l \<and> bk = ContentLength n)
     \<or> (resolve_body_headers_for_response hs = Ok (TeNone, None) \<and> bk = CloseDelimited)"
  proof (cases "resolve_body_headers_for_response hs")
    case (Ok p)
    obtain te cl where p: "p = (te, cl)" by (cases p)
    show ?thesis using Ok unfolding p by (cases te; cases cl) auto
  qed auto
  have eq: "?lhs = Ok bk \<longleftrightarrow>
     (case bk of
        Chunked \<Rightarrow> (\<exists>cl. resolve_body_headers_for_response hs = Ok (TeChunked, cl))
      | CloseDelimited \<Rightarrow> (\<exists>cl. resolve_body_headers_for_response hs = Ok (TeOther, cl))
          \<or> resolve_body_headers_for_response hs = Ok (TeNone, None)
      | ContentLength n \<Rightarrow> resolve_body_headers_for_response hs = Ok (TeNone, Some n) \<and> n \<le> max_body_size l
      | _ \<Rightarrow> False)"
    unfolding iff by (cases bk) simp_all
  show ?thesis
    unfolding eq resolve_response_iff parse_content_length_iff Let_def by (cases bk) (auto simp: Let_def)
qed

lemma rs_determine_body_kind_iff:
  assumes "request_method \<noteq> Some ''HEAD''" "status_has_body n"
    "\<not> (request_method = Some ''CONNECT'' \<and> 200 \<le> n \<and> n < 300)"
  shows "fst (rs_determine_body_kind request_method (Some line) hs l n) = Ok bk \<longleftrightarrow>
    response_framing bk hs l \<and> (nth_part 0 line \<noteq> ''HTTP/1.1'' \<longrightarrow> header_values ''Transfer-Encoding'' hs = [])"
    and "snd (rs_determine_body_kind request_method (Some line) hs l n) = hs"
proof -
  have te: "list_ex (\<lambda>h. eq_ignore_ascii_case (fst h) ''Transfer-Encoding'') hs \<longleftrightarrow> header_values ''Transfer-Encoding'' hs \<noteq> []"
    by (auto simp: header_values_def list_ex_iff filter_empty_conv)
  have c: "(request_method = Some ''CONNECT'' \<and> 200 \<le> n \<and> n < 300) = False" using assms(3) by blast
  have "rs_determine_body_kind request_method (Some line) hs l n =
      (if nth_part 0 line \<noteq> ''HTTP/1.1'' \<and> header_values ''Transfer-Encoding'' hs \<noteq> []
       then Err (InvalidData ''Transfer-Encoding is only defined for HTTP/1.1'')
       else and_then (resolve_body_headers_for_response hs) (\<lambda>(te_result, cl).
          case te_result of
            TeChunked \<Rightarrow> Ok Chunked
          | TeOther \<Rightarrow> Ok CloseDelimited
          | TeNone \<Rightarrow> (case cl of
               Some len \<Rightarrow> if len > max_body_size l then Err (BodyTooLarge (min len usize_max) (max_body_size l))
                           else Ok (ContentLength len)
             | None \<Rightarrow> Ok CloseDelimited)), hs)"
    using assms(1,2) c unfolding rs_determine_body_kind_def te by (simp only: if_False HOL.simp_thms Let_def option.case)
  then show "fst (rs_determine_body_kind request_method (Some line) hs l n) = Ok bk \<longleftrightarrow>
      response_framing bk hs l \<and> (nth_part 0 line \<noteq> ''HTTP/1.1'' \<longrightarrow> header_values ''Transfer-Encoding'' hs = [])"
    and "snd (rs_determine_body_kind request_method (Some line) hs l n) = hs"
    using response_kind_iff [of hs l bk] by auto
qed

end
