(* ===== verification/Base64.thy ===== *)
theory Base64
  imports Utf8
begin

unbundle bit_operations_syntax

text \<open>
  \<^verbatim>\<open>src/base64.rs\<close>: the Base64 codec of RFC 4648 section 4. The \<open>u32\<close> accumulators never
  hold more than 24 bits, so they are natural numbers with the source's bit operations.
\<close>

datatype Base64Error = B64InvalidCharacter | B64InvalidPadding

definition BASE64_ALPHABET :: string where
  "BASE64_ALPHABET = ''ABCDEFGHIJKLMNOPQRSTUVWXYZabcdefghijklmnopqrstuvwxyz0123456789+/''"

section \<open>Encoding\<close>

function base64_encode_loop :: "string \<Rightarrow> nat \<Rightarrow> string" where
  "base64_encode_loop input i =
     (if i < length input then
        let b0 = u8 (input ! i);
            b1 = (if i + 1 < length input then u8 (input ! (i + 1)) else 0);
            b2 = (if i + 2 < length input then u8 (input ! (i + 2)) else 0);
            n = push_bit 16 b0 OR push_bit 8 b1 OR b2
        in [BASE64_ALPHABET ! (drop_bit 18 n AND 0x3F),
            BASE64_ALPHABET ! (drop_bit 12 n AND 0x3F),
            (if i + 1 < length input then BASE64_ALPHABET ! (drop_bit 6 n AND 0x3F) else CHR ''=''),
            (if i + 2 < length input then BASE64_ALPHABET ! (n AND 0x3F) else CHR ''='')]
           @ base64_encode_loop input (i + 3)
      else [])"
  by pat_completeness auto
termination by (relation "measure (\<lambda>(input, i). length input - i)") auto

declare base64_encode_loop.simps [simp del]

definition base64_encode :: "string \<Rightarrow> string" where
  "base64_encode input = base64_encode_loop input 0"

section \<open>Decoding\<close>

text \<open>The first loop: white space is dropped, a character outside ASCII is an error.\<close>

fun base64_normalize :: "string list \<Rightarrow> string \<Rightarrow> (string, Base64Error) result" where
  "base64_normalize [] normalized = Ok normalized"
| "base64_normalize (c # cs) normalized =
     (if c = '' '' \<or> c = [HTAB] \<or> c = [LF] \<or> c = [CR] then base64_normalize cs normalized
      else if length c \<noteq> 1 then Err B64InvalidCharacter
      else base64_normalize cs (normalized @ c))"

definition base64_val :: "char \<Rightarrow> nat option" where
  "base64_val b =
     (if 0x41 \<le> u8 b \<and> u8 b \<le> 0x5A then Some (u8 b - 0x41)
      else if 0x61 \<le> u8 b \<and> u8 b \<le> 0x7A then Some (u8 b - 0x61 + 26)
      else if is_ascii_digit b then Some (u8 b - 0x30 + 52)
      else if b = CHR ''+'' then Some 62
      else if b = CHR ''/'' then Some 63
      else None)"

text \<open>The second loop, with the result, \<open>buf\<close> and \<open>bits\<close>.\<close>

fun base64_decode_loop :: "string \<Rightarrow> string \<Rightarrow> nat \<Rightarrow> nat \<Rightarrow> (string \<times> nat, Base64Error) result" where
  "base64_decode_loop [] acc buf bits = Ok (acc, buf)"
| "base64_decode_loop (b # bs) acc buf bits =
     (case base64_val b of
        None \<Rightarrow> Err B64InvalidCharacter
      | Some val \<Rightarrow>
          let buf1 = push_bit 6 buf OR val; bits1 = bits + 6
          in if bits1 \<ge> 8
             then base64_decode_loop bs (acc @ [char_of (drop_bit (bits1 - 8) buf1 mod 256)])
                    (buf1 AND (push_bit (bits1 - 8) 1 - 1)) (bits1 - 8)
             else base64_decode_loop bs acc buf1 bits1)"

definition base64_decode :: "string \<Rightarrow> (string, Base64Error) result" where
  "base64_decode input =
     and_then (base64_normalize (char_slices input) []) (\<lambda>normalized.
       if normalized = [] then Ok []
       else
         let pad_count = length (takeWhile (\<lambda>b. b = CHR ''='') (rev normalized))
         in reject_if (pad_count > 2) B64InvalidPadding
             (reject_if (length normalized mod 4 \<noteq> 0) B64InvalidPadding
               (let dat = take (length normalized - pad_count) normalized;
                    last_block_chars = length dat mod 4;
                    valid = (if pad_count = 0 then last_block_chars = 0
                             else if pad_count = 1 then last_block_chars = 3
                             else if pad_count = 2 then last_block_chars = 2
                             else False)
                in reject_if (\<not> valid) B64InvalidPadding
                     (and_then (base64_decode_loop dat [] 0 0) (\<lambda>(res, buf).
                        reject_if (buf \<noteq> 0) B64InvalidPadding (Ok res))))))"

section \<open>Groups\<close>

text \<open>The reference: three bytes are four digits of six bits, in plain arithmetic.\<close>

definition b64 :: "nat \<Rightarrow> char" where
  "b64 i = BASE64_ALPHABET ! i"

fun groups :: "string \<Rightarrow> string" where
  "groups (a # b # c # rest) =
     [b64 (u8 a div 4), b64 (u8 a mod 4 * 16 + u8 b div 16), b64 (u8 b mod 16 * 4 + u8 c div 64), b64 (u8 c mod 64)] @ groups rest"
| "groups [a, b] = [b64 (u8 a div 4), b64 (u8 a mod 4 * 16 + u8 b div 16), b64 (u8 b mod 16 * 4), CHR ''='']"
| "groups [a] = [b64 (u8 a div 4), b64 (u8 a mod 4 * 16), CHR ''='', CHR ''='']"
| "groups [] = []"

lemma or_disjoint:
  assumes "b < 2 ^ k"
  shows "push_bit k a OR b = a * 2 ^ k + (b :: nat)"
proof -
  have "take_bit k b = b" using assms by (simp add: take_bit_nat_eq_self)
  then have low: "bit b n \<Longrightarrow> n < k" for n by (metis bit_take_bit_iff)
  have "push_bit k a AND b = 0" by (intro bit_eqI) (auto simp: bit_simps dest: low)
  then have "push_bit k a OR b = push_bit k a + b" by (simp add: disjunctive_add_eq_or)
  then show ?thesis by (simp add: push_bit_eq_mult)
qed

lemma and_63: "n AND 0x3F = n mod (64 :: nat)"
  using take_bit_eq_mask [of 6 n] by (simp add: take_bit_eq_mod mask_eq_exp_minus_1)

lemma three_bytes:
  assumes "a < 256" "b < 256" "c < 256"
  shows "push_bit 16 a OR push_bit 8 b OR c = a * 65536 + b * 256 + (c :: nat)"
  using or_disjoint [of c 8 b] or_disjoint [of "b * 256 + c" 16 a] assms by simp

lemma div_mod_split:
  fixes k m x :: nat
  shows "x < m \<Longrightarrow> (k * m + x) div m = k" "x < m \<Longrightarrow> (k * m + x) mod m = x"
  by simp_all

lemma digits_of_three:
  fixes a b c :: nat
  assumes "a < 256" "b < 256" "c < 256"
  defines "n \<equiv> a * 65536 + b * 256 + c"
  shows "n div 262144 mod 64 = a div 4" "n div 4096 mod 64 = a mod 4 * 16 + b div 16"
    "n div 64 mod 64 = b mod 16 * 4 + c div 64" "n mod 64 = c mod 64"
proof -
  define a1 a0 b1 b0 c1 c0 where "a1 = a div 4" "a0 = a mod 4" "b1 = b div 16" "b0 = b mod 16" "c1 = c div 64" "c0 = c mod 64"
  note vars = this
  have a: "a = a1 * 4 + a0" "a0 < 4" "a1 < 64" and b: "b = b1 * 16 + b0" "b0 < 16" "b1 < 16"
    and c: "c = c1 * 64 + c0" "c0 < 64" "c1 < 4" using assms(1-3) unfolding vars by auto
  have e: "n = a1 * 262144 + (a0 * 65536 + b1 * 4096 + b0 * 256 + c1 * 64 + c0)"
    "n = (a1 * 64 + (a0 * 16 + b1)) * 4096 + (b0 * 256 + c1 * 64 + c0)"
    "n = ((a1 * 64 + (a0 * 16 + b1)) * 64 + (b0 * 4 + c1)) * 64 + c0"
    unfolding n_def a(1) b(1) c(1) by (simp_all add: algebra_simps)
  have "n div 262144 = a1" unfolding e(1) by (rule div_mod_split(1)) (use a(2) b(2,3) c(2,3) in linarith)
  moreover have "n div 4096 = a1 * 64 + (a0 * 16 + b1)"
    unfolding e(2) by (rule div_mod_split(1)) (use b(2) c(2,3) in linarith)
  moreover have "n div 64 = (a1 * 64 + (a0 * 16 + b1)) * 64 + (b0 * 4 + c1)" unfolding e(3) by (rule div_mod_split(1) [OF c(2)])
  moreover have "n mod 64 = c0" unfolding e(3) by (rule div_mod_split(2) [OF c(2)])
  moreover have "(a1 * 64 + (a0 * 16 + b1)) mod 64 = a0 * 16 + b1"
    "((a1 * 64 + (a0 * 16 + b1)) * 64 + (b0 * 4 + c1)) mod 64 = b0 * 4 + c1"
    by (rule div_mod_split(2), use a(2) b(2,3) c(3) in linarith)+
  ultimately show "n div 262144 mod 64 = a div 4" "n div 4096 mod 64 = a mod 4 * 16 + b div 16"
    "n div 64 mod 64 = b mod 16 * 4 + c div 64" "n mod 64 = c mod 64"
    using a(3) by (simp_all add: vars [symmetric])
qed

lemma group_digits:
  fixes a b c :: nat
  assumes "a < 256" "b < 256" "c < 256"
  defines "n \<equiv> push_bit 16 a OR push_bit 8 b OR c"
  shows "drop_bit 18 n AND 0x3F = a div 4" "drop_bit 12 n AND 0x3F = a mod 4 * 16 + b div 16"
    "drop_bit 6 n AND 0x3F = b mod 16 * 4 + c div 64" "n AND 0x3F = c mod 64"
proof -
  have d: "drop_bit 18 x = x div 262144" "drop_bit 12 x = x div 4096" "drop_bit 6 x = x div 64" for x :: nat
    by (simp_all add: drop_bit_eq_div)
  show "drop_bit 18 n AND 0x3F = a div 4" "drop_bit 12 n AND 0x3F = a mod 4 * 16 + b div 16"
    "drop_bit 6 n AND 0x3F = b mod 16 * 4 + c div 64" "n AND 0x3F = c mod 64"
    unfolding n_def three_bytes [OF assms(1-3)] and_63 d by (rule digits_of_three [OF assms(1-3)])+
qed

lemma drop_nth: "i < length s \<Longrightarrow> drop i s = s ! i # drop (i + 1) s"
  by (simp add: Cons_nth_drop_Suc)

lemma encode_loop_groups: "base64_encode_loop input i = groups (drop i input)"
proof (induction input i rule: base64_encode_loop.induct)
  case (1 input i)
  note u = u8_less_256
  have z: "(0::nat) < 256" by simp
  note eq = base64_encode_loop.simps [of input i]
  consider "\<not> i < length input" | "i < length input" "\<not> i + 1 < length input" "\<not> i + 2 < length input"
    | "i < length input" "i + 1 < length input" "\<not> i + 2 < length input"
    | "i < length input" "i + 1 < length input" "i + 2 < length input" by linarith
  then show ?case
  proof cases
    case 1
    then show ?thesis by (simp add: eq)
  next
    case 2
    then have "drop i input = [input ! i]" "drop (i + 3) input = []" using drop_nth [of i input] by simp_all
    then show ?thesis
      unfolding eq using 2 "1.IH" by (simp only: if_True if_False Let_def group_digits [OF u z z] groups.simps b64_def [symmetric]) simp
  next
    case 3
    then have "drop i input = [input ! i, input ! (i + 1)]" "drop (i + 3) input = []"
      using drop_nth [of i input] drop_nth [of "i + 1" input] by simp_all
    then show ?thesis
      unfolding eq using 3 "1.IH" by (simp only: if_True if_False Let_def group_digits [OF u u z] groups.simps b64_def [symmetric]) simp
  next
    case 4
    then have "drop i input = input ! i # input ! (i + 1) # input ! (i + 2) # drop (i + 3) input"
      using drop_nth [of i input] drop_nth [of "i + 1" input] drop_nth [of "i + 2" input] by (simp add: numeral_3_eq_3)
    then show ?thesis
      unfolding eq using 4 "1.IH" by (simp only: if_True if_False Let_def group_digits [OF u u u] groups.simps b64_def [symmetric])
  qed
qed

section \<open>Digits and values\<close>

definition b64_byte :: "nat \<Rightarrow> nat" where
  "b64_byte i = (if i < 26 then i + 65 else if i < 52 then i + 71 else if i < 62 then i - 4 else if i = 62 then 43 else 47)"

lemma b64_eq: "i < 64 \<Longrightarrow> b64 i = char_of (b64_byte i)"
proof -
  have "map b64 [0..<64] = map (\<lambda>i. char_of (b64_byte i)) [0..<64]" by code_simp
  then have "\<forall>i \<in> set [0..<64]. b64 i = char_of (b64_byte i)" unfolding map_eq_conv .
  then show "i < 64 \<Longrightarrow> b64 i = char_of (b64_byte i)" by simp
qed

lemma u8_b64: "i < 64 \<Longrightarrow> u8 (b64 i) = b64_byte i"
  by (simp add: b64_eq b64_byte_def)

lemma val_b64: "i < 64 \<Longrightarrow> base64_val (b64 i) = Some i"
  by (auto simp: base64_val_def u8_b64 b64_byte_def is_ascii_digit_def u8_inject [symmetric] simp del: u8_inject)

lemma val_SomeD:
  assumes "base64_val c = Some i"
  shows "i < 64 \<and> b64 i = c"
proof -
  have "i < 64 \<and> b64_byte i = u8 c"
    using assms by (auto simp: base64_val_def b64_byte_def is_ascii_digit_def split: if_splits)
  then show ?thesis using b64_eq by simp
qed

definition b64_white :: "char \<Rightarrow> bool" where
  "b64_white c \<longleftrightarrow> c = SP \<or> c = HTAB \<or> c = LF \<or> c = CR"

lemma b64_chars: "i < 64 \<Longrightarrow> u8 (b64 i) < 0x80 \<and> \<not> b64_white (b64 i) \<and> b64 i \<noteq> CHR ''=''"
  by (auto simp: b64_white_def u8_b64 b64_byte_def u8_inject [symmetric] simp del: u8_inject)

section \<open>The decoding loop in arithmetic\<close>

lemma decode_loop_step:
  assumes "base64_val b = Some v"
  shows "base64_decode_loop (b # bs) acc buf bits =
    (if 2 \<le> bits
     then base64_decode_loop bs (acc @ [char_of ((buf * 64 + v) div 2 ^ (bits - 2) mod 256)]) ((buf * 64 + v) mod 2 ^ (bits - 2)) (bits - 2)
     else base64_decode_loop bs acc (buf * 64 + v) (bits + 6))"
proof -
  have "v < 2 ^ 6" using val_SomeD [OF assms] by simp
  from or_disjoint [OF this, of buf] have o: "push_bit 6 buf OR v = buf * 64 + v" by simp
  have m: "x AND (push_bit k 1 - 1) = x mod 2 ^ k" for x k :: nat
    using take_bit_eq_mask [of k x] by (simp add: take_bit_eq_mod mask_eq_exp_minus_1 push_bit_eq_mult)
  have "bits + 6 - 8 = bits - 2" by simp
  with assms show ?thesis by (simp only: base64_decode_loop.simps option.case o m Let_def drop_bit_eq_div) simp
qed

declare base64_decode_loop.simps(2) [simp del]

lemma decode_loop_bits:
  assumes "base64_val b = Some v"
  shows "base64_decode_loop (b # bs) acc 0 0 = base64_decode_loop bs acc v 6"
    "base64_decode_loop (b # bs) acc buf 6 = base64_decode_loop bs (acc @ [char_of ((buf * 64 + v) div 16 mod 256)]) ((buf * 64 + v) mod 16) 4"
    "base64_decode_loop (b # bs) acc buf 4 = base64_decode_loop bs (acc @ [char_of ((buf * 64 + v) div 4 mod 256)]) ((buf * 64 + v) mod 4) 2"
    "base64_decode_loop (b # bs) acc buf 2 = base64_decode_loop bs (acc @ [char_of ((buf * 64 + v) mod 256)]) 0 0"
  by (simp_all add: decode_loop_step [OF assms])

lemma scale_div:
  fixes m x n y :: nat
  assumes "0 < m"
  shows "(x * (n * m) + y) div m = x * n + y div m" "(x * (n * m) + y) mod m = y mod m"
  using assms by (simp_all add: mult.assoc [symmetric])

lemma char_of_mod: "char_of (n mod 256) = char_of (n :: nat)"
  by simp

lemma decode_quad:
  assumes "base64_val a = Some i" "base64_val b = Some j" "base64_val c = Some k"
  shows "base64_val d = Some l \<Longrightarrow> base64_decode_loop (a # b # c # d # rest) acc 0 0 =
      base64_decode_loop rest (acc @ [char_of (i * 4 + j div 16), char_of (j mod 16 * 16 + k div 4), char_of (k mod 4 * 64 + l)]) 0 0"
    and "base64_decode_loop [a, b, c] acc 0 0 = Ok (acc @ [char_of (i * 4 + j div 16), char_of (j mod 16 * 16 + k div 4)], k mod 4)"
    and "base64_decode_loop [a, b] acc 0 0 = Ok (acc @ [char_of (i * 4 + j div 16)], j mod 16)"
proof -
  have e: "(x * 64 + y) div 16 = x * 4 + y div 16" "(x * 64 + y) mod 16 = y mod 16"
    "(x * 64 + y) div 4 = x * 16 + y div 4" "(x * 64 + y) mod 4 = y mod 4" for x y :: nat
    using scale_div [of 16 x 4 y] scale_div [of 4 x 16 y] by simp_all
  note simps = char_of_mod e decode_loop_bits [OF assms(1)] decode_loop_bits [OF assms(2)] decode_loop_bits [OF assms(3)]
    append.simps append_assoc base64_decode_loop.simps(1)
  show "base64_val d = Some l \<Longrightarrow> base64_decode_loop (a # b # c # d # rest) acc 0 0 =
      base64_decode_loop rest (acc @ [char_of (i * 4 + j div 16), char_of (j mod 16 * 16 + k div 4), char_of (k mod 4 * 64 + l)]) 0 0"
    using decode_loop_bits(4) [of d l] by (simp only: simps)
  show "base64_decode_loop [a, b, c] acc 0 0 = Ok (acc @ [char_of (i * 4 + j div 16), char_of (j mod 16 * 16 + k div 4)], k mod 4)"
    "base64_decode_loop [a, b] acc 0 0 = Ok (acc @ [char_of (i * 4 + j div 16)], j mod 16)"
    by (simp_all only: simps)
qed

lemma decode_loop_acc:
  "base64_decode_loop bs acc buf bits = and_then (base64_decode_loop bs [] buf bits) (\<lambda>(r, b). Ok (acc @ r, b))"
proof (induction bs arbitrary: acc buf bits)
  case Nil
  then show ?case by simp
next
  case (Cons c bs)
  show ?case
  proof (cases "base64_val c")
    case None
    then show ?thesis by (simp add: base64_decode_loop.simps(2))
  next
    case (Some v)
    let ?x = "char_of ((buf * 64 + v) div 2 ^ (bits - 2) mod 256)"
    have "and_then (base64_decode_loop bs [?x] b m) (\<lambda>(r, b). Ok (acc @ r, b)) = base64_decode_loop bs (acc @ [?x]) b m" for b m
      by (subst Cons.IH [of "[?x]"], subst Cons.IH [of "acc @ [?x]"]) (cases "base64_decode_loop bs [] b m"; auto)
    moreover have "and_then (base64_decode_loop bs [] b m) (\<lambda>(r, b). Ok (acc @ r, b)) = base64_decode_loop bs acc b m" for b m
      by (rule Cons.IH [symmetric])
    ultimately show ?thesis by (simp add: decode_loop_step [OF Some])
  qed
qed

section \<open>Round trips\<close>

lemma u8_digits:
  "u8 a div 4 < 64" "u8 a mod 4 * 16 + u8 b div 16 < 64" "u8 b mod 16 * 4 + u8 c div 64 < 64" "u8 c mod 64 < 64"
  "u8 a mod 4 * 16 < 64" "u8 b mod 16 * 4 < 64"
proof -
  have "u8 b div 16 < 16" "u8 c div 64 < 4" "u8 a mod 4 < 4" "u8 b mod 16 < 16"
    using u8_less_256 [of b] u8_less_256 [of c] by (simp_all add: div_less_iff_less_mult)
  then show "u8 a mod 4 * 16 + u8 b div 16 < 64" "u8 b mod 16 * 4 + u8 c div 64 < 64"
    "u8 a mod 4 * 16 < 64" "u8 b mod 16 * 4 < 64" by simp_all
qed (use u8_less_256 [of a] in \<open>simp_all add: div_less_iff_less_mult\<close>)

lemma recombine:
  fixes a b c :: nat
  assumes "b < 256" "c < 256"
  shows "a div 4 * 4 + (a mod 4 * 16 + b div 16) div 16 = a"
    "(a mod 4 * 16 + b div 16) mod 16 * 16 + (b mod 16 * 4 + c div 64) div 4 = b"
    "(b mod 16 * 4 + c div 64) mod 4 * 64 + c mod 64 = c"
proof -
  have "b div 16 < 16" "c div 64 < 4" using assms by (simp_all add: div_less_iff_less_mult)
  then have "(a mod 4 * 16 + b div 16) div 16 = a mod 4" "(a mod 4 * 16 + b div 16) mod 16 = b div 16"
    "(b mod 16 * 4 + c div 64) div 4 = b mod 16" "(b mod 16 * 4 + c div 64) mod 4 = c div 64"
    by (simp_all only: div_mod_split)
  then show "a div 4 * 4 + (a mod 4 * 16 + b div 16) div 16 = a"
    "(a mod 4 * 16 + b div 16) mod 16 * 16 + (b mod 16 * 4 + c div 64) div 4 = b"
    "(b mod 16 * 4 + c div 64) mod 4 * 64 + c mod 64 = c"
    by (simp_all only: div_mult_mod_eq)
qed

definition pad_ok :: "nat \<Rightarrow> nat \<Rightarrow> bool" where
  "pad_ok k n \<longleftrightarrow> (if k = 0 then n mod 4 = 0 else if k = 1 then n mod 4 = 3 else if k = 2 then n mod 4 = 2 else False)"

lemma groups_decode:
  "\<exists>dat k. groups bs = dat @ replicate k (CHR ''='') \<and> list_all (\<lambda>c. base64_val c \<noteq> None) dat
     \<and> base64_decode_loop dat [] 0 0 = Ok (bs, 0) \<and> pad_ok k (length dat)"
proof (induction bs rule: groups.induct)
  case (1 a b c rest)
  then obtain dat k where d: "groups rest = dat @ replicate k (CHR ''='')" "list_all (\<lambda>c. base64_val c \<noteq> None) dat"
    "base64_decode_loop dat [] 0 0 = Ok (rest, 0)" "pad_ok k (length dat)" by blast
  let ?q = "[b64 (u8 a div 4), b64 (u8 a mod 4 * 16 + u8 b div 16), b64 (u8 b mod 16 * 4 + u8 c div 64), b64 (u8 c mod 64)]"
  note v = val_b64 [OF u8_digits(1) [of a]] val_b64 [OF u8_digits(2) [of a b]] val_b64 [OF u8_digits(3) [of b c]] val_b64 [OF u8_digits(4) [of c]]
  have "base64_decode_loop (?q @ dat) [] 0 0 = Ok (a # b # c # rest, 0)"
    using decode_quad(1) [OF v, of dat "[]"] decode_loop_acc [of dat "[a, b, c]" 0 0] d(3)
      recombine(1,2) [OF u8_less_256 [of b] u8_less_256 [of c], of "u8 a"] recombine(3) [OF u8_less_256 [of b] u8_less_256 [of c]] by (simp add: char_of_char)
  moreover have "list_all (\<lambda>c. base64_val c \<noteq> None) (?q @ dat)" using v d(2) by simp
  moreover have "pad_ok k (length (?q @ dat))" using d(4) by (auto simp: pad_ok_def split: if_splits)
  moreover have "groups (a # b # c # rest) = (?q @ dat) @ replicate k (CHR ''='')" using d(1) by simp
  ultimately show ?case by blast
next
  case (2 a b)
  let ?q = "[b64 (u8 a div 4), b64 (u8 a mod 4 * 16 + u8 b div 16), b64 (u8 b mod 16 * 4)]"
  note v = val_b64 [OF u8_digits(1) [of a]] val_b64 [OF u8_digits(2) [of a b]] val_b64 [OF u8_digits(6) [of b]]
  have "base64_decode_loop ?q [] 0 0 = Ok ([a, b], 0)"
    using decode_quad(2) [OF v, of "[]"] recombine(1,2) [of "u8 b" 0 "u8 a"] by (simp add: char_of_char)
  moreover have "groups [a, b] = ?q @ replicate 1 (CHR ''='')" by simp
  moreover have "pad_ok 1 (length ?q)" "list_all (\<lambda>c. base64_val c \<noteq> None) ?q" using v by (simp_all add: pad_ok_def)
  ultimately show ?case by blast
next
  case (3 a)
  let ?q = "[b64 (u8 a div 4), b64 (u8 a mod 4 * 16)]"
  note v = val_b64 [OF u8_digits(1) [of a]] val_b64 [OF u8_digits(5) [of a]]
  have "base64_decode_loop ?q [] 0 0 = Ok ([a], 0)"
    using decode_quad(3) [OF v v(1), of "[]"] recombine(1) [of 0 0 "u8 a"] by (simp add: char_of_char)
  moreover have "groups [a] = ?q @ replicate 2 (CHR ''='')" by (simp add: numeral_2_eq_2)
  moreover have "pad_ok 2 (length ?q)" "list_all (\<lambda>c. base64_val c \<noteq> None) ?q" using v by (simp_all add: pad_ok_def)
  ultimately show ?case by blast
next
  case 4
  show ?case by (intro exI [of _ "[]"] exI [of _ 0]) (simp add: pad_ok_def)
qed

lemma normalize_eq:
  "list_all (\<lambda>c. u8 c < 0x80 \<and> \<not> b64_white c) s \<Longrightarrow> base64_normalize (map (\<lambda>c. [c]) s) acc = Ok (acc @ s)"
  by (induction s arbitrary: acc) (auto simp: b64_white_def)

lemma decode_padded:
  assumes "list_all (\<lambda>c. base64_val c \<noteq> None) dat" "pad_ok k (length dat)"
  shows "base64_decode (dat @ replicate k (CHR ''='')) =
    and_then (base64_decode_loop dat [] 0 0) (\<lambda>(res, buf). reject_if (buf \<noteq> 0) B64InvalidPadding (Ok res))"
proof -
  let ?s = "dat @ replicate k (CHR ''='')"
  have c: "u8 c < 0x80 \<and> \<not> b64_white c \<and> c \<noteq> CHR ''=''" if "c \<in> set dat" for c
    using that assms(1) val_SomeD [of c] b64_chars by (fastforce simp: list_all_iff)
  have a: "list_all (\<lambda>c. u8 c < 0x80 \<and> \<not> b64_white c) ?s" using c by (auto simp: list_all_iff b64_white_def)
  then have "list_all (\<lambda>c. u8 c < 0x80) ?s" by (simp add: list_all_iff)
  then have n: "base64_normalize (char_slices ?s) [] = Ok ?s" using normalize_eq [OF a] by (simp add: char_slices_ascii)
  have "takeWhile (\<lambda>b. b = CHR ''='') (rev ?s) = replicate k (CHR ''='')"
    using c by (cases "rev dat") (auto simp: takeWhile_append)
  then have p: "length (takeWhile (\<lambda>b. b = CHR ''='') (rev ?s)) = k" by simp
  have "(length dat + k) mod 4 = 0"
    using assms(2) mod_add_left_eq [of "length dat" 4 k] by (auto simp: pad_ok_def split: if_splits)
  then have k: "k \<le> 2" "length ?s mod 4 = 0" using assms(2) by (auto simp: pad_ok_def split: if_splits)
  have t: "take (length ?s - k) ?s = dat" by simp
  show ?thesis
  proof (cases "?s = []")
    case True
    then show ?thesis by (simp add: base64_decode_def)
  next
    case False
    with n p k t assms(2) show ?thesis unfolding base64_decode_def by (simp add: Let_def pad_ok_def split: if_splits)
  qed
qed

lemma decode_encode: "base64_decode (base64_encode bs) = Ok bs"
proof -
  obtain dat k where "groups bs = dat @ replicate k (CHR ''='')" "list_all (\<lambda>c. base64_val c \<noteq> None) dat"
    "base64_decode_loop dat [] 0 0 = Ok (bs, 0)" "pad_ok k (length dat)" using groups_decode by blast
  then show ?thesis using decode_padded by (simp add: base64_encode_def encode_loop_groups)
qed

lemma normalize_filter:
  "base64_normalize cs acc = Ok t \<Longrightarrow> t = acc @ filter (\<lambda>c. \<not> b64_white c) (concat cs)"
proof (induction cs arbitrary: acc)
  case (Cons c cs)
  show ?case
  proof (cases "c = '' '' \<or> c = [HTAB] \<or> c = [LF] \<or> c = [CR]")
    case True
    with Cons show ?thesis by (auto simp: b64_white_def)
  next
    case False
    with Cons.prems have l: "length c = 1" and n: "base64_normalize cs (acc @ c) = Ok t" by (auto split: if_splits)
    from l obtain x where "c = [x]" by (cases c) auto
    with False Cons.IH [OF n] show ?thesis by (simp add: b64_white_def)
  qed
qed simp

lemma decode_loop_vals: "base64_decode_loop bs acc buf bits = Ok r \<Longrightarrow> list_all (\<lambda>c. base64_val c \<noteq> None) bs"
  by (induction bs acc buf bits rule: base64_decode_loop.induct)
    (auto simp: base64_decode_loop.simps(2) Let_def split: option.splits if_splits)

lemma split_digits:
  fixes i j k l :: nat
  assumes "i < 64" "j < 64" "k < 64" "l < 64"
  shows "u8 (char_of (i * 4 + j div 16)) div 4 = i"
    "u8 (char_of (i * 4 + j div 16)) mod 4 * 16 + u8 (char_of (j mod 16 * 16 + k div 4)) div 16 = j"
    "u8 (char_of (j mod 16 * 16 + k div 4)) mod 16 * 4 + u8 (char_of (k mod 4 * 64 + l)) div 64 = k"
    "u8 (char_of (k mod 4 * 64 + l)) mod 64 = l"
    "j mod 16 = 0 \<Longrightarrow> u8 (char_of (i * 4 + j div 16)) mod 4 * 16 = j"
    "k mod 4 = 0 \<Longrightarrow> u8 (char_of (j mod 16 * 16 + k div 4)) mod 16 * 4 = k"
proof -
  have s: "j div 16 < 4" "k div 4 < 16" using assms by (simp_all add: div_less_iff_less_mult)
  have "i * 4 + j div 16 < 256" using assms(1) s(1) by linarith
  then have a: "u8 (char_of (i * 4 + j div 16)) = i * 4 + j div 16" by simp
  have "j mod 16 < 16" by simp
  then have "j mod 16 * 16 + k div 4 < 256" using s(2) by linarith
  then have b: "u8 (char_of (j mod 16 * 16 + k div 4)) = j mod 16 * 16 + k div 4" by simp
  have "k mod 4 < 4" by simp
  then have "k mod 4 * 64 + l < 256" using assms(4) by linarith
  then have c: "u8 (char_of (k mod 4 * 64 + l)) = k mod 4 * 64 + l" by simp
  note e = div_mod_split [OF s(1), of i] div_mod_split [OF s(2), of "j mod 16"] div_mod_split [OF assms(4), of "k mod 4"]
  show "u8 (char_of (i * 4 + j div 16)) div 4 = i"
    "u8 (char_of (i * 4 + j div 16)) mod 4 * 16 + u8 (char_of (j mod 16 * 16 + k div 4)) div 16 = j"
    "u8 (char_of (j mod 16 * 16 + k div 4)) mod 16 * 4 + u8 (char_of (k mod 4 * 64 + l)) div 64 = k"
    "u8 (char_of (k mod 4 * 64 + l)) mod 64 = l"
    unfolding a b c e div_mult_mod_eq by (rule refl)+
  show "j mod 16 = 0 \<Longrightarrow> u8 (char_of (i * 4 + j div 16)) mod 4 * 16 = j" unfolding a e using div_mult_mod_eq [of j 16] by simp
  show "k mod 4 = 0 \<Longrightarrow> u8 (char_of (j mod 16 * 16 + k div 4)) mod 16 * 4 = k" unfolding b e using div_mult_mod_eq [of k 4] by simp
qed

fun quads :: "'a list \<Rightarrow> bool" where
  "quads (a # b # c # d # rest) = quads rest"
| "quads _ = True"

lemma decode_groups:
  "base64_decode_loop dat [] 0 0 = Ok (bs, 0) \<Longrightarrow> pad_ok k (length dat) \<Longrightarrow> groups bs = dat @ replicate k (CHR ''='')"
proof (induction dat arbitrary: bs rule: quads.induct [case_names four none one two three])
  case (four a b c d rest)
  obtain i j m l where v: "base64_val a = Some i" "base64_val b = Some j" "base64_val c = Some m" "base64_val d = Some l"
    using decode_loop_vals [OF four.prems(1)] by auto
  note r = val_SomeD [OF v(1)] val_SomeD [OF v(2)] val_SomeD [OF v(3)] val_SomeD [OF v(4)]
  let ?q = "[char_of (i * 4 + j div 16), char_of (j mod 16 * 16 + m div 4), char_of (m mod 4 * 64 + l)]"
  from four.prems(1) have "base64_decode_loop rest ?q 0 0 = Ok (bs, 0)" using decode_quad(1) [OF v, of rest "[]"] by simp
  then obtain bs' where bs: "bs = ?q @ bs'" "base64_decode_loop rest [] 0 0 = Ok (bs', 0)"
    by (subst (asm) decode_loop_acc) (auto simp: and_then_Ok_iff)
  have "pad_ok k (length rest)" using four.prems(2) by (auto simp: pad_ok_def split: if_splits)
  with four.IH bs(2) have "groups bs' = rest @ replicate k (CHR ''='')" by blast
  moreover have "groups bs = [b64 i, b64 j, b64 m, b64 l] @ groups bs'"
    unfolding bs(1) append.simps groups.simps split_digits [OF r(1-4) [THEN conjunct1]] by (rule refl)
  ultimately show ?case using r by simp
next
  case none
  then show ?case by (auto simp: pad_ok_def split: if_splits)
next
  case (one a)
  then show ?case by (simp add: pad_ok_def split: if_splits)
next
  case (two a b)
  then have k: "k = 2" by (simp add: pad_ok_def split: if_splits)
  obtain i j where v: "base64_val a = Some i" "base64_val b = Some j" using decode_loop_vals [OF two(1)] by auto
  note r = val_SomeD [OF v(1)] val_SomeD [OF v(2)]
  from two(1) have bs: "bs = [char_of (i * 4 + j div 16)]" "j mod 16 = 0" using decode_quad(3) [OF v v(1), of "[]"] by simp_all
  note e = split_digits(1,5) [OF r [THEN conjunct1] r(1) [THEN conjunct1] r(1) [THEN conjunct1]]
  have "groups bs = [b64 i, b64 j] @ replicate 2 (CHR ''='')"
    unfolding bs(1) groups.simps e(1) e(2) [OF bs(2)] by (simp add: numeral_2_eq_2)
  with r k show ?case by simp
next
  case (three a b c)
  then have k: "k = 1" by (simp add: pad_ok_def split: if_splits)
  obtain i j m where v: "base64_val a = Some i" "base64_val b = Some j" "base64_val c = Some m"
    using decode_loop_vals [OF three(1)] by auto
  note r = val_SomeD [OF v(1)] val_SomeD [OF v(2)] val_SomeD [OF v(3)]
  from three(1) have bs: "bs = [char_of (i * 4 + j div 16), char_of (j mod 16 * 16 + m div 4)]" "m mod 4 = 0"
    using decode_quad(2) [OF v, of "[]"] by simp_all
  note e = split_digits(1,2,6) [OF r [THEN conjunct1] r(1) [THEN conjunct1]]
  have "groups bs = [b64 i, b64 j, b64 m] @ replicate 1 (CHR ''='')"
    unfolding bs(1) groups.simps e(1,2) e(3) [OF bs(2)] by simp
  with r k show ?case by simp
qed

lemma encode_decode:
  assumes "base64_decode s = Ok bs"
  shows "base64_encode bs = filter (\<lambda>c. \<not> b64_white c) s"
proof -
  obtain t where n: "base64_normalize (char_slices s) [] = Ok t" using assms by (auto simp: base64_decode_def and_then_Ok_iff)
  then have t: "t = filter (\<lambda>c. \<not> b64_white c) s" using normalize_filter by fastforce
  let ?k = "length (takeWhile (\<lambda>b. b = CHR ''='') (rev t))" and ?d = "take (length t - length (takeWhile (\<lambda>b. b = CHR ''='') (rev t))) t"
  show ?thesis
  proof (cases "t = []")
    case True
    then show ?thesis using assms n t by (simp add: base64_decode_def base64_encode_def encode_loop_groups)
  next
    case False
    with assms n have "base64_decode_loop ?d [] 0 0 = Ok (bs, 0)" "pad_ok ?k (length ?d)"
      by (auto simp: base64_decode_def Let_def pad_ok_def result_iff split: if_splits)
    then have "groups bs = ?d @ replicate ?k (CHR ''='')" by (rule decode_groups)
    moreover have "?d @ replicate ?k (CHR ''='') = t"
    proof -
      have "takeWhile (\<lambda>b. b = CHR ''='') (rev t) = replicate ?k (CHR ''='')"
        by (intro replicate_eqI) (auto dest: set_takeWhileD)
      then have "t = rev (dropWhile (\<lambda>b. b = CHR ''='') (rev t)) @ replicate ?k (CHR ''='')"
        by (metis rev_append rev_replicate rev_rev_ident takeWhile_dropWhile_id)
      then show ?thesis by (metis append_take_drop_id append_eq_append_conv length_append length_replicate diff_add_inverse2 append_eq_conv_conj)
    qed
    ultimately show ?thesis using t by (simp add: base64_encode_def encode_loop_groups)
  qed
qed

text \<open>
  C31. Decoding is the inverse of encoding, and only canonical text is accepted: whatever is
  decoded is, up to white space, exactly the encoding of the result, so that credentials have
  one representation.
\<close>

theorem base64_roundtrip:
  assumes "base64_decode s = Ok cs"
  shows "base64_encode cs = filter (\<lambda>c. c \<noteq> SP \<and> c \<noteq> HTAB \<and> c \<noteq> LF \<and> c \<noteq> CR) s \<and> base64_decode (base64_encode bs) = Ok bs"
  using encode_decode [OF assms] decode_encode [of bs] by (simp add: b64_white_def)

theorem base64_roundtrip_witness:
  "base64_decode ''Zm8= '' = Ok ''fo'' \<and> base64_encode ''fo'' = filter (\<lambda>c. c \<noteq> SP \<and> c \<noteq> HTAB \<and> c \<noteq> LF \<and> c \<noteq> CR) ''Zm8= ''
   \<and> base64_decode (base64_encode ''user:password'') = Ok ''user:password''"
proof -
  have d: "base64_decode ''Zm8= '' = Ok ''fo''" by code_simp
  from d base64_roundtrip [OF d] show ?thesis by blast
qed

end
