(* ===== verification/Etag.thy ===== *)
theory Etag
  imports Utf8
begin

text \<open>
  \<^verbatim>\<open>src/etag.rs\<close>: entity tags and the lists of \<open>If-Match\<close> and \<open>If-None-Match\<close>.
\<close>

datatype ETagError = ETEmpty | ETInvalidFormat | ETMissingQuote | ETInvalidCharacter

fun ETagError_display :: "ETagError \<Rightarrow> string" where
  "ETagError_display ETEmpty = ''empty etag''"
| "ETagError_display ETInvalidFormat = ''invalid etag format''"
| "ETagError_display ETMissingQuote = ''missing quote in etag''"
| "ETagError_display ETInvalidCharacter = ''invalid character in etag''"

record EntityTag =
  et_weak :: bool
  et_tag :: string

definition is_etagc :: "char \<Rightarrow> bool" where
  "is_etagc b \<longleftrightarrow> u8 b = 0x21 \<or> (0x23 \<le> u8 b \<and> u8 b \<le> 0x7E) \<or> u8 b \<ge> 0x80"

definition EntityTag_parse :: "string \<Rightarrow> (EntityTag, ETagError) result" where
  "EntityTag_parse s =
     (let input = str_trim s
      in reject_if (input = []) ETEmpty
           (let (weak, rest) = (case strip_prefix input ''W/'' of Some rest \<Rightarrow> (True, rest) | None \<Rightarrow> (False, input))
            in reject_if (\<not> starts_with rest [DQUOTE]) ETMissingQuote
                 (and_then (ok_or (find_char DQUOTE (drop 1 rest)) ETMissingQuote) (\<lambda>end_quote.
                    let tag = take end_quote (drop 1 rest)
                    in reject_if (\<not> list_all is_etagc tag) ETInvalidCharacter
                         (let after_quote = drop (2 + end_quote) rest
                          in reject_if (after_quote \<noteq> []) ETInvalidFormat (Ok \<lparr>et_weak = weak, et_tag = tag\<rparr>))))))"

definition EntityTag_strong :: "string \<Rightarrow> (EntityTag, ETagError) result" where
  "EntityTag_strong tag = reject_if (\<not> list_all is_etagc tag) ETInvalidCharacter (Ok \<lparr>et_weak = False, et_tag = tag\<rparr>)"

definition EntityTag_weak :: "string \<Rightarrow> (EntityTag, ETagError) result" where
  "EntityTag_weak tag = reject_if (\<not> list_all is_etagc tag) ETInvalidCharacter (Ok \<lparr>et_weak = True, et_tag = tag\<rparr>)"

definition et_is_strong :: "EntityTag \<Rightarrow> bool" where
  "et_is_strong t \<longleftrightarrow> \<not> et_weak t"

definition strong_compare :: "EntityTag \<Rightarrow> EntityTag \<Rightarrow> bool" where
  "strong_compare a b \<longleftrightarrow> \<not> et_weak a \<and> \<not> et_weak b \<and> et_tag a = et_tag b"

definition weak_compare :: "EntityTag \<Rightarrow> EntityTag \<Rightarrow> bool" where
  "weak_compare a b \<longleftrightarrow> et_tag a = et_tag b"

definition EntityTag_display :: "EntityTag \<Rightarrow> string" where
  "EntityTag_display t = (if et_weak t then ''W/'' @ [DQUOTE] @ et_tag t @ [DQUOTE] else [DQUOTE] @ et_tag t @ [DQUOTE])"

section \<open>Lists\<close>

text \<open>\<open>split_etag_list_raw\<close>: the piece read so far stands for \<open>start..i\<close>.\<close>

fun split_etag_loop :: "string \<Rightarrow> bool \<Rightarrow> string \<Rightarrow> string list" where
  "split_etag_loop [] in_quotes cur = [cur]"
| "split_etag_loop (b # bs) in_quotes cur =
     (if b = DQUOTE then split_etag_loop bs (\<not> in_quotes) (cur @ [b])
      else if b = CHR '','' \<and> \<not> in_quotes then cur # split_etag_loop bs in_quotes []
      else split_etag_loop bs in_quotes (cur @ [b]))"

definition split_etag_list_raw :: "string \<Rightarrow> string list" where
  "split_etag_list_raw input = split_etag_loop input False []"

datatype ETagList = AnyTag | Tags "EntityTag list"

fun etag_parts :: "string list \<Rightarrow> EntityTag list \<Rightarrow> (EntityTag list, ETagError) result" where
  "etag_parts [] etags = Ok etags"
| "etag_parts (p # ps) etags =
     (let part = str_trim p
      in if part \<noteq> [] then and_then (EntityTag_parse part) (\<lambda>t. etag_parts ps (etags @ [t])) else etag_parts ps etags)"

definition parse_etag_list :: "string \<Rightarrow> (ETagList, ETagError) result" where
  "parse_etag_list s =
     (let input = str_trim s
      in reject_if (input = []) ETEmpty
           (if input = ''*'' then Ok AnyTag
            else and_then (etag_parts (split_etag_list_raw input) []) (\<lambda>etags.
                   reject_if (etags = []) ETEmpty (Ok (Tags etags)))))"

definition ETagList_is_any :: "ETagList \<Rightarrow> bool" where
  "ETagList_is_any l \<longleftrightarrow> (case l of AnyTag \<Rightarrow> True | _ \<Rightarrow> False)"

fun contains_weak :: "ETagList \<Rightarrow> EntityTag \<Rightarrow> bool" where
  "contains_weak AnyTag etag = True"
| "contains_weak (Tags tags) etag = list_ex (\<lambda>t. weak_compare t etag) tags"

fun contains_strong :: "ETagList \<Rightarrow> EntityTag \<Rightarrow> bool" where
  "contains_strong AnyTag etag = True"
| "contains_strong (Tags tags) etag = list_ex (\<lambda>t. strong_compare t etag) tags"

fun ETagList_display :: "ETagList \<Rightarrow> string" where
  "ETagList_display AnyTag = ''*''"
| "ETagList_display (Tags tags) = join_comma (map EntityTag_display tags)"

section \<open>Lemmas\<close>

definition etag_ok :: "EntityTag \<Rightarrow> bool" where
  "etag_ok t \<longleftrightarrow> list_all is_etagc (et_tag t)"

text \<open>Every entity tag that the module makes has a tag of \<open>etagc\<close> bytes only.\<close>

lemma EntityTag_parse_ok: "EntityTag_parse s = Ok t \<Longrightarrow> etag_ok t"
  by (auto simp: EntityTag_parse_def etag_ok_def Let_def result_iff split: option.splits)

lemma EntityTag_strong_ok: "EntityTag_strong s = Ok t \<Longrightarrow> etag_ok t"
  by (auto simp: EntityTag_strong_def etag_ok_def result_iff)

lemma EntityTag_weak_ok: "EntityTag_weak s = Ok t \<Longrightarrow> etag_ok t"
  by (auto simp: EntityTag_weak_def etag_ok_def result_iff)

lemma etag_parts_ok:
  "etag_parts ps acc = Ok ts \<Longrightarrow> list_all etag_ok acc \<Longrightarrow> list_all etag_ok ts"
  by (induction ps arbitrary: acc)
     (auto simp: Let_def result_iff EntityTag_parse_ok split: if_splits)

lemma parse_etag_list_ok: "parse_etag_list s = Ok (Tags ts) \<Longrightarrow> ts \<noteq> [] \<and> list_all etag_ok ts"
  by (auto simp: parse_etag_list_def Let_def result_iff dest: etag_parts_ok split: if_splits)

lemma etagc_no_quote: "list_all is_etagc m \<Longrightarrow> DQUOTE \<notin> set m"
  by (auto simp: list_all_iff is_etagc_def)

lemma EntityTag_display_ends:
  "\<exists>x m. EntityTag_display t = x # m @ [DQUOTE] \<and> (x = DQUOTE \<or> x = CHR ''W'')"
  by (cases "et_weak t") (auto simp: EntityTag_display_def)

lemma str_trim_display [simp]: "str_trim (EntityTag_display t) = EntityTag_display t"
  using EntityTag_display_ends [of t] str_trim_ends [of _ DQUOTE]
  by (auto simp: is_whitespace_cp_def)

lemma EntityTag_display_not_Nil [simp]: "EntityTag_display t \<noteq> []"
  using EntityTag_display_ends [of t] by auto

lemma EntityTag_parse_display: "etag_ok t \<Longrightarrow> EntityTag_parse (EntityTag_display t) = Ok t"
proof -
  assume ok: "etag_ok t"
  then have q: "find_char DQUOTE (et_tag t @ [DQUOTE]) = Some (length (et_tag t))"
    using position_mid [of "et_tag t" "\<lambda>x. x = DQUOTE" DQUOTE "[]"] etagc_no_quote [of "et_tag t"]
    by (auto simp: find_char_def etag_ok_def)
  have "strip_prefix (EntityTag_display t) ''W/''
          = (if et_weak t then Some ([DQUOTE] @ et_tag t @ [DQUOTE]) else None)"
    by (cases "et_tag t") (auto simp: EntityTag_display_def strip_prefix_def starts_with_def)
  then show ?thesis
    using ok q unfolding EntityTag_parse_def str_trim_display Let_def
    by (cases "et_weak t") (simp_all add: EntityTag_display_def etag_ok_def starts_with_def)
qed

text \<open>The splitter ignores a comma between the quotes of a displayed tag.\<close>

lemma split_etag_loop_quoted:
  "DQUOTE \<notin> set m \<Longrightarrow> split_etag_loop (m @ r) True cur = split_etag_loop r True (cur @ m)"
  by (induction m arbitrary: cur) auto

lemma split_etag_loop_display:
  assumes "etag_ok t"
  shows "split_etag_loop (EntityTag_display t @ r) False cur
           = split_etag_loop r False (cur @ EntityTag_display t)"
  using split_etag_loop_quoted [of "et_tag t"] etagc_no_quote [of "et_tag t"] assms
  by (cases "et_weak t") (simp_all add: EntityTag_display_def etag_ok_def)

lemma split_etag_loop_join:
  assumes "list_all etag_ok ts" "ts \<noteq> []"
  shows "\<exists>ps. split_etag_loop (join_comma (map EntityTag_display ts)) False [] = ps
           \<and> map str_trim ps = map EntityTag_display ts"
proof -
  have "map str_trim (split_etag_loop (join_comma (map EntityTag_display ts)) False cur)
          = map EntityTag_display ts" if "cur = [] \<or> cur = [SP]" for cur
    using assms that
  proof (induction ts arbitrary: cur rule: induct_list012)
    case (2 t)
    then show ?case using split_etag_loop_display [of t "[]" cur] by auto
  next
    case (3 t u ts)
    have "map str_trim (split_etag_loop (join_comma (map EntityTag_display (u # ts))) False [SP])
            = map EntityTag_display (u # ts)"
      using "3.IH"(2) [of "[SP]"] "3.prems" by simp
    then show ?case
      using "3.prems" split_etag_loop_display [of t _ cur] by auto
  qed simp
  then show ?thesis by blast
qed

lemma etag_parts_displays:
  "map str_trim ps = map EntityTag_display ts \<Longrightarrow> list_all etag_ok ts
   \<Longrightarrow> etag_parts ps acc = Ok (acc @ ts)"
  by (induction ts arbitrary: ps acc) (auto simp: Let_def EntityTag_parse_display)

lemma join_tags_ends:
  "ts \<noteq> [] \<Longrightarrow> \<exists>x m. join_comma (map EntityTag_display ts) = x # m @ [DQUOTE]
                    \<and> (x = DQUOTE \<or> x = CHR ''W'')"
proof (induction ts rule: induct_list012)
  case (2 t)
  then show ?case using EntityTag_display_ends [of t] by simp
next
  case (3 t u ts)
  then obtain y n where "join_comma (map EntityTag_display (u # ts)) = y # n @ [DQUOTE]" by auto
  with EntityTag_display_ends [of t] show ?case by auto
qed simp

lemma parse_display_Tags:
  assumes "ts \<noteq> []" "list_all etag_ok ts"
  shows "parse_etag_list (ETagList_display (Tags ts)) = Ok (Tags ts)"
proof -
  let ?s = "join_comma (map EntityTag_display ts)"
  obtain x m where e: "?s = x # m @ [DQUOTE]" "x = DQUOTE \<or> x = CHR ''W''"
    using join_tags_ends [OF assms(1)] by blast
  then have t: "str_trim ?s = ?s" using str_trim_ends [of x DQUOTE m] by (auto simp: is_whitespace_cp_def)
  obtain ps where "split_etag_loop ?s False [] = ps" "map str_trim ps = map EntityTag_display ts"
    using split_etag_loop_join [OF assms(2,1)] by blast
  then have "etag_parts (split_etag_list_raw ?s) [] = Ok ts"
    using etag_parts_displays [of ps ts "[]"] assms(2) by (simp add: split_etag_list_raw_def)
  with t e assms(1) show ?thesis by (simp add: parse_etag_list_def)
qed

lemma contains_strong_weak: "contains_strong l t \<Longrightarrow> contains_weak l t"
  by (cases l) (auto simp: list_ex_iff strong_compare_def weak_compare_def)

text \<open>
  A list of entity tags survives printing and parsing, with commas inside the quotes of a tag,
  weak flags, order and repetitions kept.
\<close>

lemma etag_list_roundtrip:
  assumes "parse_etag_list s = Ok l"
  shows "parse_etag_list (ETagList_display l) = Ok l"
proof (cases l)
  case AnyTag
  then show ?thesis by (simp add: parse_etag_list_def str_trim_single is_whitespace_cp_def)
next
  case (Tags ts)
  with assms show ?thesis using parse_display_Tags parse_etag_list_ok [of s ts] by simp
qed

end
