(* ===== verification/Rust_Str.thy ===== *)
theory Rust_Str
  imports Utf8
begin

text \<open>
  More of \<open>core::str\<close> and \<open>core::fmt\<close>, for the header modules: one-sided trimming,
  splitting at white space and at a string, slicing at a character boundary, zero padding,
  and parsing of small integers.
\<close>

lemma and_then_cong [fundef_cong]:
  "r = r' \<Longrightarrow> (\<And>x. r' = Ok x \<Longrightarrow> f x = f' x) \<Longrightarrow> and_then r f = and_then r' f'"
  by (cases r') simp_all

lemma reject_if_cong [fundef_cong]:
  "b = b' \<Longrightarrow> e = e' \<Longrightarrow> (\<not> b' \<Longrightarrow> k = k') \<Longrightarrow> reject_if b e k = reject_if b' e' k'"
  by (simp add: reject_if_def)

text \<open>A condition on the value of an \<open>Option\<close>, if there is one.\<close>

definition opt_all :: "('a \<Rightarrow> bool) \<Rightarrow> 'a option \<Rightarrow> bool" where
  "opt_all p x = (case x of None \<Rightarrow> True | Some v \<Rightarrow> p v)"

lemma opt_all_simps [simp]: "opt_all p None" "opt_all p (Some v) = p v"
  by (simp_all add: opt_all_def)

section \<open>Definitions\<close>

text \<open>\<open>trim_start_matches\<close> of a character.\<close>

definition trim_start_char :: "char \<Rightarrow> string \<Rightarrow> string" where
  "trim_start_char c s = dropWhile (\<lambda>x. x = c) s"

abbreviation ws_slice :: "string \<Rightarrow> bool" where
  "ws_slice sl \<equiv> is_whitespace_cp (code_point sl)"

definition str_trim_start :: "string \<Rightarrow> string" where
  "str_trim_start s = concat (dropWhile ws_slice (char_slices s))"

definition str_trim_end :: "string \<Rightarrow> string" where
  "str_trim_end s = concat (rev (dropWhile ws_slice (rev (char_slices s))))"

text \<open>\<open>split_whitespace\<close>: the maximal runs of characters that are not white space.\<close>

fun ws_runs :: "string list \<Rightarrow> string \<Rightarrow> string list" where
  "ws_runs [] cur = (if cur = [] then [] else [cur])"
| "ws_runs (c # cs) cur =
     (if ws_slice c then (if cur = [] then ws_runs cs [] else cur # ws_runs cs []) else ws_runs cs (cur @ c))"

definition split_whitespace :: "string \<Rightarrow> string list" where
  "split_whitespace s = ws_runs (char_slices s) []"

text \<open>\<open>str::split\<close> with a non-empty string as separator.\<close>

function split_sub :: "string \<Rightarrow> string \<Rightarrow> string list" where
  "split_sub pat s =
     (if pat = [] then [s]
      else case find_sub pat s of
             None \<Rightarrow> [s]
           | Some i \<Rightarrow> take i s # split_sub pat (drop (i + length pat) s))"
  by pat_completeness auto
termination
proof (relation "measure (\<lambda>(pat, s). length s)", goal_cases)
  case 1
  show ?case by simp
next
  case (2 pat s i)
  have "find_sub pat s = Some i \<Longrightarrow> i + length pat \<le> length s" for i
    by (induction pat s arbitrary: i rule: find_sub.induct)
       (auto simp: starts_with_def min_def split: if_splits dest: arg_cong [where f = length])
  with 2 show ?case by (cases pat) auto
qed

declare split_sub.simps [simp del]

text \<open>\<open>str::get(..n)\<close> and \<open>str::get(n..)\<close>: \<open>None\<close> past the end or inside a character.\<close>

definition is_char_boundary :: "string \<Rightarrow> nat \<Rightarrow> bool" where
  "is_char_boundary s n \<longleftrightarrow> n = 0 \<or> n = length s \<or> n < length s \<and> \<not> is_cont (s ! n)"

definition str_get_to :: "string \<Rightarrow> nat \<Rightarrow> string option" where
  "str_get_to s n = (if n \<le> length s \<and> is_char_boundary s n then Some (take n s) else None)"

definition str_get_from :: "string \<Rightarrow> nat \<Rightarrow> string option" where
  "str_get_from s n = (if n \<le> length s \<and> is_char_boundary s n then Some (drop n s) else None)"

definition ends_with :: "string \<Rightarrow> string \<Rightarrow> bool" where
  "ends_with s pat \<longleftrightarrow> length pat \<le> length s \<and> drop (length s - length pat) s = pat"

definition strip_suffix :: "string \<Rightarrow> string \<Rightarrow> string option" where
  "strip_suffix s pat = (if ends_with s pat then Some (take (length s - length pat) s) else None)"

abbreviation parse_u8 :: "string \<Rightarrow> nat option" where
  "parse_u8 s \<equiv> from_str_radix 10 255 s"

abbreviation parse_u32 :: "string \<Rightarrow> nat option" where
  "parse_u32 s \<equiv> from_str_radix 10 4294967295 s"

text \<open>\<open>{:0w}\<close>.\<close>

definition pad_dec :: "nat \<Rightarrow> nat \<Rightarrow> string" where
  "pad_dec w n = replicate (w - length (nat_to_dec n)) CHR ''0'' @ nat_to_dec n"

section \<open>Facts\<close>

lemma and_thenE: "and_then r f = Ok y \<Longrightarrow> (\<And>x. r = Ok x \<Longrightarrow> f x = Ok y \<Longrightarrow> P) \<Longrightarrow> P"
  by (auto simp: and_then_Ok_iff)

lemma reject_ifE: "reject_if b e k = Ok y \<Longrightarrow> (\<not> b \<Longrightarrow> k = Ok y \<Longrightarrow> P) \<Longrightarrow> P"
  by (auto simp: reject_if_Ok_iff)

lemma ok_orE: "ok_or x e = Ok v \<Longrightarrow> (x = Some v \<Longrightarrow> P) \<Longrightarrow> P"
  by (auto simp: ok_or_Ok_iff)

lemmas resultE = and_thenE reject_ifE ok_orE

definition plain :: "char \<Rightarrow> bool" where
  "plain c \<longleftrightarrow> u8 c < 0x80 \<and> \<not> is_whitespace_cp (u8 c)"

lemma plain_SP [simp]: "\<not> plain SP"
  by (simp add: plain_def is_whitespace_cp_def)

lemma char_slices_plain: "list_all plain s \<Longrightarrow> char_slices (s @ r) = map (\<lambda>c. [c]) s @ char_slices r"
  by (induction s) (simp_all add: plain_def)

lemma ws_runs_plain: "list_all plain s \<Longrightarrow> ws_runs (map (\<lambda>c. [c]) s @ cs) cur = ws_runs cs (cur @ s)"
  by (induction s arbitrary: cur) (simp_all add: plain_def)

lemma split_whitespace_word:
  "list_all plain s \<Longrightarrow> s \<noteq> [] \<Longrightarrow> split_whitespace (s @ SP # r) = s # split_whitespace r"
  by (simp add: split_whitespace_def char_slices_plain ws_runs_plain is_whitespace_cp_def)

lemma split_whitespace_last: "list_all plain s \<Longrightarrow> s \<noteq> [] \<Longrightarrow> split_whitespace s = [s]"
  using char_slices_plain [of s "[]"] ws_runs_plain [of s "[]" "[]"] by (simp add: split_whitespace_def)

lemma str_trim_start_plain: "plain c \<Longrightarrow> str_trim_start (c # s) = c # s"
  by (simp add: str_trim_start_def plain_def)

lemma str_trim_start_SP [simp]: "str_trim_start (SP # s) = str_trim_start s"
  by (simp add: str_trim_start_def is_whitespace_cp_def)

lemma str_trim_start_Nil [simp]: "str_trim_start [] = []"
  by (simp add: str_trim_start_def)

lemma str_trim_plain_ends: "plain x \<Longrightarrow> plain y \<Longrightarrow> str_trim (x # m @ [y]) = x # m @ [y]"
  by (rule str_trim_ends) (simp_all add: plain_def)

lemma str_trim_plain: "list_all plain s \<Longrightarrow> str_trim s = s"
proof (cases s rule: rev_cases)
  case (snoc m y)
  assume "list_all plain s"
  with snoc show ?thesis
    by (cases m) (auto simp: str_trim_single plain_def intro!: str_trim_ends)
qed simp

lemma digit_char_plain: "d < 16 \<Longrightarrow> plain (digit_char d)"
  by (simp add: plain_def of_char_digit_char is_whitespace_cp_def)

lemma nat_to_dec_digit_chars: "c \<in> set (nat_to_dec n) \<Longrightarrow> \<exists>d < 10. c = digit_char d"
  unfolding nat_to_dec_def using set_to_base [of 10 c n] by simp

lemma nat_to_dec_not_Nil [simp]: "nat_to_dec n \<noteq> []"
  by (simp add: nat_to_dec_def)

lemma nat_to_dec_is_digit: "c \<in> set (nat_to_dec n) \<Longrightarrow> is_ascii_digit c"
  by (auto dest!: nat_to_dec_digit_chars simp: is_ascii_digit_def of_char_digit_char)

lemma nat_to_dec_plain: "list_all plain (nat_to_dec n)"
  by (auto simp: list_all_iff intro: digit_char_plain dest!: nat_to_dec_digit_chars)

lemma pad_dec_not_Nil [simp]: "pad_dec w n \<noteq> []"
  by (simp add: pad_dec_def)

lemma pad_dec_is_digit: "c \<in> set (pad_dec w n) \<Longrightarrow> is_ascii_digit c"
  by (auto simp: pad_dec_def is_ascii_digit_def [of "CHR ''0''"] dest: nat_to_dec_is_digit)

lemma digit_plain: "is_ascii_digit c \<Longrightarrow> plain c"
  by (auto simp: is_ascii_digit_def plain_def is_whitespace_cp_def)

lemma pad_dec_plain: "list_all plain (pad_dec w n)"
  by (auto simp: list_all_iff intro: digit_plain dest: pad_dec_is_digit)

lemma digits_value_zeros: "digits_value 10 0 (replicate k CHR ''0'' @ s) = digits_value 10 0 s"
  by (induction k) (simp_all add: to_digit_def is_ascii_digit_def)

text \<open>What \<open>{:0w}\<close> prints, \<open>parse\<close> reads back.\<close>

lemma digit_not_plus: "is_ascii_digit c \<Longrightarrow> c \<noteq> CHR ''+''"
  by (auto simp: is_ascii_digit_def)

lemma from_str_radix_pad_dec: "n \<le> mx \<Longrightarrow> from_str_radix 10 mx (pad_dec w n) = Some n"
proof -
  assume n: "n \<le> mx"
  obtain c cs where c: "pad_dec w n = c # cs" by (cases "pad_dec w n") auto
  then have "c \<noteq> CHR ''+''" using pad_dec_is_digit [of c w n] digit_not_plus by auto
  moreover have "digits_value 10 0 (pad_dec w n) = Some n"
    by (simp add: pad_dec_def digits_value_zeros to_base_digits nat_to_dec_def)
  ultimately show ?thesis using c n by (simp add: from_str_radix_def)
qed

lemma from_str_radix_nat_to_dec: "n \<le> mx \<Longrightarrow> from_str_radix 10 mx (nat_to_dec n) = Some n"
  by (simp add: nat_to_dec_def from_str_radix_to_base)

end
