(* ===== verification/Date.thy ===== *)
theory Date
  imports Rust_Str
begin

text \<open>
  \<^verbatim>\<open>src/date.rs\<close>: HTTP dates in the three formats of RFC 9110 Section 5.6.7. The fields of
  \<open>HttpDate\<close> are \<open>u8\<close> and \<open>u16\<close> values; the arithmetic on two-digit years
  is \<open>u16\<close> arithmetic, which panics when it leaves the range.
\<close>

datatype DateError = DEmpty | DInvalidFormat | DInvalidDayName | DInvalidDay | DInvalidMonth
  | DInvalidYear | DRfc850Date | DInvalidHour | DInvalidMinute | DInvalidSecond | DNotGmt

fun DateError_display :: "DateError \<Rightarrow> string" where
  "DateError_display DEmpty = ''empty date''"
| "DateError_display DInvalidFormat = ''invalid date format''"
| "DateError_display DInvalidDayName = ''invalid day name''"
| "DateError_display DInvalidDay = ''invalid day''"
| "DateError_display DInvalidMonth = ''invalid month''"
| "DateError_display DInvalidYear = ''invalid year''"
| "DateError_display DRfc850Date = ''rfc850-date format requires reference year''"
| "DateError_display DInvalidHour = ''invalid hour''"
| "DateError_display DInvalidMinute = ''invalid minute''"
| "DateError_display DInvalidSecond = ''invalid second''"
| "DateError_display DNotGmt = ''timezone is not GMT''"

datatype DayOfWeek = Sunday | Monday | Tuesday | Wednesday | Thursday | Friday | Saturday

fun short_name :: "DayOfWeek \<Rightarrow> string" where
  "short_name Sunday = ''Sun''"
| "short_name Monday = ''Mon''"
| "short_name Tuesday = ''Tue''"
| "short_name Wednesday = ''Wed''"
| "short_name Thursday = ''Thu''"
| "short_name Friday = ''Fri''"
| "short_name Saturday = ''Sat''"

definition DayOfWeek_from_name :: "string \<Rightarrow> DayOfWeek option" where
  "DayOfWeek_from_name s =
     (if s = ''Sun'' \<or> s = ''Sunday'' then Some Sunday
      else if s = ''Mon'' \<or> s = ''Monday'' then Some Monday
      else if s = ''Tue'' \<or> s = ''Tuesday'' then Some Tuesday
      else if s = ''Wed'' \<or> s = ''Wednesday'' then Some Wednesday
      else if s = ''Thu'' \<or> s = ''Thursday'' then Some Thursday
      else if s = ''Fri'' \<or> s = ''Friday'' then Some Friday
      else if s = ''Sat'' \<or> s = ''Saturday'' then Some Saturday
      else None)"

record HttpDate =
  hd_day_of_week :: DayOfWeek
  hd_day :: nat
  hd_month :: nat
  hd_year :: nat
  hd_hour :: nat
  hd_minute :: nat
  hd_second :: nat

text \<open>\<open>Ord::cmp\<close> compares the six numbers lexicographically; the day of the week does not count.\<close>

datatype Ordering = OLess | OEqual | OGreater

fun cmp_list :: "nat list \<Rightarrow> nat list \<Rightarrow> Ordering" where
  "cmp_list (x # xs) (y # ys) = (if x < y then OLess else if x > y then OGreater else cmp_list xs ys)"
| "cmp_list [] [] = OEqual"
| "cmp_list [] _ = OLess"
| "cmp_list _ [] = OGreater"

definition hd_fields :: "HttpDate \<Rightarrow> nat list" where
  "hd_fields d = [hd_year d, hd_month d, hd_day d, hd_hour d, hd_minute d, hd_second d]"

definition HttpDate_cmp :: "HttpDate \<Rightarrow> HttpDate \<Rightarrow> Ordering" where
  "HttpDate_cmp a b = cmp_list (hd_fields a) (hd_fields b)"

definition max_day_in_month :: "nat \<Rightarrow> nat \<Rightarrow> nat" where
  "max_day_in_month month year =
     (if month \<in> set [1, 3, 5, 7, 8, 10, 12] then 31
      else if month \<in> set [4, 6, 9, 11] then 30
      else if month = 2 then
        (let leap = year mod 4 = 0 \<and> (year mod 100 \<noteq> 0 \<or> year mod 400 = 0) in if leap then 29 else 28)
      else 0)"

definition HttpDate_new ::
    "DayOfWeek \<Rightarrow> nat \<Rightarrow> nat \<Rightarrow> nat \<Rightarrow> nat \<Rightarrow> nat \<Rightarrow> nat \<Rightarrow> (HttpDate, DateError) result" where
  "HttpDate_new day_of_week day month year hour minute second =
     reject_if (\<not> (1 \<le> month \<and> month \<le> 12)) DInvalidMonth
       (let max_day = max_day_in_month month year
        in reject_if (day < 1 \<or> day > max_day) DInvalidDay
             (reject_if (year < 1) DInvalidYear
               (reject_if (hour > 23) DInvalidHour
                 (reject_if (minute > 59) DInvalidMinute
                   (reject_if (second > 60) DInvalidSecond
                     (Ok \<lparr>hd_day_of_week = day_of_week, hd_day = day, hd_month = month, hd_year = year,
                          hd_hour = hour, hd_minute = minute, hd_second = second\<rparr>))))))"

definition parse_month :: "string \<Rightarrow> (nat, DateError) result" where
  "parse_month s =
     (if s = ''Jan'' then Ok 1 else if s = ''Feb'' then Ok 2 else if s = ''Mar'' then Ok 3
      else if s = ''Apr'' then Ok 4 else if s = ''May'' then Ok 5 else if s = ''Jun'' then Ok 6
      else if s = ''Jul'' then Ok 7 else if s = ''Aug'' then Ok 8 else if s = ''Sep'' then Ok 9
      else if s = ''Oct'' then Ok 10 else if s = ''Nov'' then Ok 11 else if s = ''Dec'' then Ok 12
      else Err DInvalidMonth)"

definition month_name :: "nat \<Rightarrow> string" where
  "month_name month =
     (if month = 1 then ''Jan'' else if month = 2 then ''Feb'' else if month = 3 then ''Mar''
      else if month = 4 then ''Apr'' else if month = 5 then ''May'' else if month = 6 then ''Jun''
      else if month = 7 then ''Jul'' else if month = 8 then ''Aug'' else if month = 9 then ''Sep''
      else if month = 10 then ''Oct'' else if month = 11 then ''Nov'' else if month = 12 then ''Dec''
      else ''???'')"

definition interpret_two_digit_year :: "nat \<Rightarrow> nat \<Rightarrow> (nat, DateError) result" where
  "interpret_two_digit_year two_digit reference_year =
     (let current_century = (reference_year div 100) * 100;
          candidate = current_century + two_digit
      in if candidate > u16_max \<or> reference_year + 50 > u16_max then Panic
         else if candidate > reference_year + 50 then (if candidate < 100 then Panic else Ok (candidate - 100))
         else Ok candidate)"

definition parse_time :: "string \<Rightarrow> (nat \<times> nat \<times> nat, DateError) result" where
  "parse_time s =
     (let parts = split_on CHR '':'' s
      in reject_if (length parts \<noteq> 3) DInvalidFormat
           (and_then (ok_or (parse_u8 (parts ! 0)) DInvalidHour) (\<lambda>hour.
            and_then (ok_or (parse_u8 (parts ! 1)) DInvalidMinute) (\<lambda>minute.
            and_then (ok_or (parse_u8 (parts ! 2)) DInvalidSecond) (\<lambda>second.
              reject_if (hour > 23) DInvalidHour
                (reject_if (minute > 59) DInvalidMinute
                  (reject_if (second > 60) DInvalidSecond (Ok (hour, minute, second)))))))))"

definition parse_imf_fixdate :: "string \<Rightarrow> string \<Rightarrow> (HttpDate, DateError) result" where
  "parse_imf_fixdate day_name rest =
     and_then (ok_or (DayOfWeek_from_name day_name) DInvalidDayName) (\<lambda>day_of_week.
       let parts = split_whitespace rest
       in reject_if (length parts \<noteq> 5) DInvalidFormat
            (and_then (ok_or (parse_u8 (parts ! 0)) DInvalidDay) (\<lambda>day.
             and_then (parse_month (parts ! 1)) (\<lambda>month.
             and_then (ok_or (parse_u16 (parts ! 2)) DInvalidYear) (\<lambda>year.
             and_then (parse_time (parts ! 3)) (\<lambda>(hour, minute, second).
               reject_if (parts ! 4 \<noteq> ''GMT'') DNotGmt
                 (HttpDate_new day_of_week day month year hour minute second)))))))"

definition parse_rfc850_inner :: "string \<Rightarrow> string \<Rightarrow> nat \<Rightarrow> (HttpDate, DateError) result" where
  "parse_rfc850_inner day_name rest reference_year =
     and_then (ok_or (DayOfWeek_from_name day_name) DInvalidDayName) (\<lambda>day_of_week.
       let parts = split_whitespace rest
       in reject_if (length parts \<noteq> 3) DInvalidFormat
            (let date_parts = split_on CHR ''-'' (parts ! 0)
             in reject_if (length date_parts \<noteq> 3) DInvalidFormat
                  (and_then (ok_or (parse_u8 (date_parts ! 0)) DInvalidDay) (\<lambda>day.
                   and_then (parse_month (date_parts ! 1)) (\<lambda>month.
                   let raw_year_str = date_parts ! 2
                   in and_then (ok_or (parse_u16 raw_year_str) DInvalidYear) (\<lambda>raw_year.
                      and_then (if length raw_year_str = 2 then interpret_two_digit_year raw_year reference_year
                                else Ok raw_year) (\<lambda>year.
                      and_then (parse_time (parts ! 1)) (\<lambda>(hour, minute, second).
                        reject_if (parts ! 2 \<noteq> ''GMT'') DNotGmt
                          (HttpDate_new day_of_week day month year hour minute second)))))))))"

definition parse_asctime :: "string \<Rightarrow> (HttpDate, DateError) result" where
  "parse_asctime input =
     (let parts = split_whitespace input
      in reject_if (length parts \<noteq> 5) DInvalidFormat
           (and_then (ok_or (DayOfWeek_from_name (parts ! 0)) DInvalidDayName) (\<lambda>day_of_week.
            and_then (parse_month (parts ! 1)) (\<lambda>month.
            and_then (ok_or (parse_u8 (parts ! 2)) DInvalidDay) (\<lambda>day.
            and_then (parse_time (parts ! 3)) (\<lambda>(hour, minute, second).
            and_then (ok_or (parse_u16 (parts ! 4)) DInvalidYear) (\<lambda>year.
              HttpDate_new day_of_week day month year hour minute second))))))) "

definition HttpDate_parse :: "string \<Rightarrow> (HttpDate, DateError) result" where
  "HttpDate_parse s =
     (let input = str_trim s
      in reject_if (input = []) DEmpty
           (case find_char CHR '','' input of
              Some comma_pos \<Rightarrow>
                (let day_name = take comma_pos input; rest = str_trim_start (drop (comma_pos + 1) input)
                 in if CHR ''-'' \<in> set rest then Err DRfc850Date else parse_imf_fixdate day_name rest)
            | None \<Rightarrow> parse_asctime input))"

definition HttpDate_parse_rfc850 :: "string \<Rightarrow> nat \<Rightarrow> (HttpDate, DateError) result" where
  "HttpDate_parse_rfc850 s reference_year =
     (let input = str_trim s
      in reject_if (input = []) DEmpty
           (and_then (ok_or (find_char CHR '','' input) DInvalidFormat) (\<lambda>comma_pos.
              let day_name = take comma_pos input; rest = str_trim_start (drop (comma_pos + 1) input)
              in reject_if (CHR ''-'' \<notin> set rest) DInvalidFormat
                   (parse_rfc850_inner day_name rest reference_year))))"

definition HttpDate_display :: "HttpDate \<Rightarrow> string" where
  "HttpDate_display d =
     short_name (hd_day_of_week d) @ '', '' @ pad_dec 2 (hd_day d) @ '' '' @ month_name (hd_month d) @ '' ''
     @ pad_dec 4 (hd_year d) @ '' '' @ pad_dec 2 (hd_hour d) @ '':'' @ pad_dec 2 (hd_minute d) @ '':''
     @ pad_dec 2 (hd_second d) @ '' GMT''"

section \<open>Valid dates\<close>

text \<open>What \<open>HttpDate::new\<close> guarantees of a date, with the range of the \<open>u16\<close> year.\<close>

definition date_ok :: "HttpDate \<Rightarrow> bool" where
  "date_ok d \<longleftrightarrow> 1 \<le> hd_month d \<and> hd_month d \<le> 12 \<and> 1 \<le> hd_day d
     \<and> hd_day d \<le> max_day_in_month (hd_month d) (hd_year d) \<and> 1 \<le> hd_year d \<and> hd_year d \<le> u16_max
     \<and> hd_hour d \<le> 23 \<and> hd_minute d \<le> 59 \<and> hd_second d \<le> 60"

lemma HttpDate_new_ok:
  "HttpDate_new w dy m y h mi s = Ok d \<Longrightarrow> y \<le> u16_max \<Longrightarrow> date_ok d"
  by (auto simp: HttpDate_new_def date_ok_def Let_def result_iff)

lemma HttpDate_new_fields:
  "date_ok d \<Longrightarrow> HttpDate_new (hd_day_of_week d) (hd_day d) (hd_month d) (hd_year d) (hd_hour d)
     (hd_minute d) (hd_second d) = Ok d"
  by (simp add: HttpDate_new_def date_ok_def not_less)

lemma parse_u16_le: "parse_u16 s = Some y \<Longrightarrow> y \<le> u16_max"
  by (rule from_str_radix_bound)

lemma interpret_two_digit_year_le: "interpret_two_digit_year t r = Ok y \<Longrightarrow> y \<le> u16_max"
  by (auto simp: interpret_two_digit_year_def Let_def split: if_splits)

lemma HttpDate_parse_ok: "HttpDate_parse s = Ok d \<Longrightarrow> date_ok d"
  by (auto simp: HttpDate_parse_def parse_imf_fixdate_def parse_asctime_def Let_def result_iff
           split: option.splits if_splits prod.splits dest!: parse_u16_le HttpDate_new_ok)

lemma HttpDate_parse_rfc850_ok: "HttpDate_parse_rfc850 s r = Ok d \<Longrightarrow> date_ok d"
  by (auto simp: HttpDate_parse_rfc850_def parse_rfc850_inner_def Let_def result_iff
           split: option.splits if_splits prod.splits
           dest!: parse_u16_le interpret_two_digit_year_le HttpDate_new_ok)

section \<open>The printed form\<close>

lemma from_name_short_name: "DayOfWeek_from_name (short_name w) = Some w"
  by (cases w) (simp_all add: DayOfWeek_from_name_def)

lemma month_cases: "1 \<le> m \<Longrightarrow> m \<le> 12 \<Longrightarrow> m \<in> {1, 2, 3, 4, 5, 6, 7, 8, 9, 10, 11, 12 :: nat}"
  by (simp, presburger)

lemma parse_month_name: "1 \<le> m \<Longrightarrow> m \<le> 12 \<Longrightarrow> parse_month (month_name m) = Ok m"
  by (drule (1) month_cases) (auto simp: parse_month_def month_name_def)

lemma plain_letters: "is_ascii_alphabetic c \<Longrightarrow> plain c"
  by (auto simp: is_ascii_alphabetic_def plain_def is_whitespace_cp_def)

lemma month_name_letters:
  "1 \<le> m \<Longrightarrow> m \<le> 12 \<Longrightarrow> list_all is_ascii_alphabetic (month_name m) \<and> month_name m \<noteq> []"
  by (drule (1) month_cases) (auto simp: month_name_def is_ascii_alphabetic_def)

lemma short_name_letters: "list_all is_ascii_alphabetic (short_name w) \<and> short_name w \<noteq> []"
  by (cases w) (simp_all add: is_ascii_alphabetic_def)

definition time_text :: "HttpDate \<Rightarrow> string" where
  "time_text d = pad_dec 2 (hd_hour d) @ '':'' @ pad_dec 2 (hd_minute d) @ '':'' @ pad_dec 2 (hd_second d)"

lemma pad_dec_no: "\<not> is_ascii_digit c \<Longrightarrow> c \<notin> set (pad_dec w n)"
  using pad_dec_is_digit by blast

lemma parse_time_text: "date_ok d \<Longrightarrow> parse_time (time_text d) = Ok (hd_hour d, hd_minute d, hd_second d)"
proof -
  assume ok: "date_ok d"
  have "\<not> is_ascii_digit CHR '':''" by (simp add: is_ascii_digit_def)
  then have "split_on CHR '':'' (time_text d)
      = [pad_dec 2 (hd_hour d), pad_dec 2 (hd_minute d), pad_dec 2 (hd_second d)]"
    by (simp add: time_text_def split_on_append_sep split_on_no_sep pad_dec_no)
  with ok show ?thesis
    by (simp add: parse_time_def date_ok_def from_str_radix_pad_dec)
qed

lemma time_text_plain: "list_all plain (time_text d) \<and> time_text d \<noteq> []"
  using pad_dec_plain by (auto simp: time_text_def plain_def is_whitespace_cp_def)

definition rest_text :: "HttpDate \<Rightarrow> string" where
  "rest_text d = pad_dec 2 (hd_day d) @ SP # month_name (hd_month d) @ SP # pad_dec 4 (hd_year d)
     @ SP # time_text d @ SP # ''GMT''"

lemma HttpDate_display_eq: "HttpDate_display d = short_name (hd_day_of_week d) @ CHR '','' # SP # rest_text d"
  by (simp add: HttpDate_display_def rest_text_def time_text_def)

lemma split_rest_text:
  assumes "date_ok d"
  shows "split_whitespace (rest_text d)
    = [pad_dec 2 (hd_day d), month_name (hd_month d), pad_dec 4 (hd_year d), time_text d, ''GMT'']"
proof -
  have m: "list_all plain (month_name (hd_month d))" "month_name (hd_month d) \<noteq> []"
    using assms month_name_letters [of "hd_month d"] plain_letters by (auto simp: date_ok_def list_all_iff)
  have g: "split_whitespace ''GMT'' = [''GMT'']"
    by (rule split_whitespace_last) (simp_all add: plain_def is_whitespace_cp_def)
  show ?thesis
    unfolding rest_text_def
    by (simp add: split_whitespace_word pad_dec_plain m time_text_plain g)
qed

lemma parse_imf_rest:
  assumes "date_ok d"
  shows "parse_imf_fixdate (short_name (hd_day_of_week d)) (rest_text d) = Ok d"
proof -
  have "max_day_in_month (hd_month d) (hd_year d) \<le> 31" by (simp add: max_day_in_month_def Let_def)
  then have b: "hd_day d \<le> 255" "hd_year d \<le> u16_max" "1 \<le> hd_month d" "hd_month d \<le> 12"
    using assms by (simp_all add: date_ok_def)
  show ?thesis
    by (simp add: parse_imf_fixdate_def from_name_short_name split_rest_text [OF assms] parse_time_text [OF assms]
          HttpDate_new_fields [OF assms] from_str_radix_pad_dec b(1,2) parse_month_name [OF b(3,4)])
qed

lemma rest_text_first:
  "\<exists>c r. rest_text d = c # r \<and> plain c" "\<exists>m. rest_text d = m @ [CHR ''T'']"
proof -
  obtain c r where "pad_dec 2 (hd_day d) = c # r" by (cases "pad_dec 2 (hd_day d)") auto
  moreover have "plain c" using pad_dec_plain [of 2 "hd_day d"] calculation by simp
  ultimately show "\<exists>c r. rest_text d = c # r \<and> plain c" by (auto simp: rest_text_def)
qed (auto simp: rest_text_def)

lemma rest_text_no_dash: "date_ok d \<Longrightarrow> CHR ''-'' \<notin> set (rest_text d)"
  using month_name_letters [of "hd_month d"] pad_dec_no [of "CHR ''-''"]
  by (auto simp: rest_text_def time_text_def date_ok_def is_ascii_digit_def is_ascii_alphabetic_def list_all_iff)

lemma HttpDate_parse_display:
  assumes "date_ok d"
  shows "HttpDate_parse (HttpDate_display d) = Ok d"
proof -
  let ?n = "short_name (hd_day_of_week d)"
  have n: "CHR '','' \<notin> set ?n" "?n \<noteq> []" "\<forall>c \<in> set ?n. plain c"
    using short_name_letters [of "hd_day_of_week d"] plain_letters
    by (auto simp: list_all_iff is_ascii_alphabetic_def)
  obtain m where m: "rest_text d = m @ [CHR ''T'']" using rest_text_first(2) by blast
  obtain x n' where x: "?n = x # n'" using n(2) by (cases ?n) auto
  have t: "str_trim (HttpDate_display d) = HttpDate_display d"
    using str_trim_plain_ends [of x "CHR ''T''" "n' @ CHR '','' # SP # m"] n(3) x m
    by (simp add: HttpDate_display_eq plain_def is_whitespace_cp_def)
  have f: "find_char CHR '','' (HttpDate_display d) = Some (length ?n)"
    using n(1) position_mid [of ?n "\<lambda>c. c = CHR '',''" "CHR '',''" "SP # rest_text d"]
    by (auto simp: find_char_def HttpDate_display_eq)
  have "str_trim_start (drop (length ?n + 1) (HttpDate_display d)) = rest_text d"
    using rest_text_first(1) [of d] by (auto simp: HttpDate_display_eq str_trim_start_plain)
  then show ?thesis
    using n(2) rest_text_no_dash [OF assms] parse_imf_rest [OF assms]
    unfolding HttpDate_parse_def t Let_def f option.case
    by (simp add: HttpDate_display_eq)
qed

section \<open>Two-digit years\<close>

text \<open>
  The resolved year has the given last two digits and lies in the hundred years that end fifty
  years after the reference, whenever the \<open>u16\<close> arithmetic stays in range.
\<close>

lemma interpret_two_digit_year_spec:
  assumes "t < 100" "50 \<le> r" "r \<le> u16_max - 50"
  shows "\<exists>y. interpret_two_digit_year t r = Ok y \<and> y mod 100 = t \<and> y \<le> r + 50 \<and> r < y + 100"
proof -
  define c where "c = r div 100"
  have r: "c * 100 \<le> r" "r < c * 100 + 100" unfolding c_def by linarith+
  have "c \<le> 654" using r(1) assms(3) by (simp add: u16_max_def)
  then have u: "c * 100 + t \<le> u16_max" "r + 50 \<le> u16_max" using assms by (simp_all add: u16_max_def)
  have m: "(c * 100 + t) mod 100 = t" using assms(1) by simp
  show ?thesis
  proof (cases "c * 100 + t > r + 50")
    case True
    then have "100 \<le> c * 100 + t" using assms(2) by simp
    moreover from this have "(c * 100 + t - 100) mod 100 = t" using m by (metis le_mod_geq)
    ultimately show ?thesis using True assms(1) r u
      by (simp add: interpret_two_digit_year_def c_def [symmetric] Let_def)
  next
    case False
    then show ?thesis using assms(1) r u m
      by (simp add: interpret_two_digit_year_def c_def [symmetric] Let_def)
  qed
qed

text \<open>
  An HTTP date survives printing and parsing: whatever date the parsers return (from IMF-fixdate,
  asctime or RFC 850 text), \<open>HttpDate::parse\<close> of its \<open>Display\<close> text returns the same date.
\<close>

lemma http_date_roundtrip:
  assumes "HttpDate_parse s = Ok d \<or> HttpDate_parse_rfc850 s reference_year = Ok d"
  shows "HttpDate_parse (HttpDate_display d) = Ok d"
  using assms HttpDate_parse_ok HttpDate_parse_rfc850_ok HttpDate_parse_display by blast

end
