(* ===== verification/Str_Valid.thy ===== *)
theory Str_Valid
  imports Rust_Str Validate
begin

text \<open>
  A \<open>&str\<close> is valid UTF-8: the operations of \<open>core::str\<close> that the header parsers apply to
  their input (trimming, slicing at an ASCII character, iterating over characters) keep it so,
  and never make it longer.
\<close>

section \<open>Characters of valid strings\<close>

lemma good_slices_concat:
  assumes "\<forall>c \<in> set cl. good_slice c"
  shows "char_slices (concat cl) = cl" and "valid_utf8 (concat cl)"
  using assms by (induction cl) (simp_all add: char_slices_append good_slice_def valid_utf8_append)

lemma valid_utf8_iff: "valid_utf8 s \<longleftrightarrow> (\<forall>c \<in> set (char_slices s). good_slice c)"
  using good_slices good_slices_concat(2) [of "char_slices s"] by auto

lemma valid_utf8_subset:
  assumes "valid_utf8 s" "set cl \<subseteq> set (char_slices s)"
  shows "valid_utf8 (concat cl)"
  using assms good_slices_concat(2) [of cl] by (auto simp: valid_utf8_iff [of s])

lemma valid_utf8_ascii_split:
  assumes "u8 y < 0x80"
  shows "valid_utf8 (a @ y # b) \<longleftrightarrow> valid_utf8 a \<and> valid_utf8 b"
proof -
  have "good_slice [y]" using assms by (simp add: good_slice_def valid_utf8_Cons_ascii)
  then show ?thesis unfolding valid_utf8_iff char_slices_append_ascii [OF assms] by auto
qed

lemma valid_utf8_trim: "valid_utf8 s \<Longrightarrow> valid_utf8 (str_trim s)"
  unfolding str_trim_def Let_def
  by (erule valid_utf8_subset) (auto dest!: set_dropWhileD)

lemma valid_utf8_trim_start: "valid_utf8 s \<Longrightarrow> valid_utf8 (str_trim_start s)"
  unfolding str_trim_start_def by (erule valid_utf8_subset) (auto dest!: set_dropWhileD)

lemma valid_utf8_find_char:
  assumes "valid_utf8 s" "find_char c s = Some i" "u8 c < 0x80"
  shows "valid_utf8 (take i s)" "valid_utf8 (drop (Suc i) s)"
proof -
  obtain a b where "s = a @ c # b" "length a = i"
    using assms(2) position_Some_split [of "\<lambda>x. x = c" s i] by (auto simp: find_char_def)
  with assms show "valid_utf8 (take i s)" "valid_utf8 (drop (Suc i) s)"
    using valid_utf8_ascii_split [of c a b] by auto
qed

section \<open>Lengths\<close>

lemma length_concat_dropWhile: "length (concat (dropWhile p xs)) \<le> length (concat xs)"
  by (induction xs) auto

lemma length_concat_rev: "length (concat (rev xs)) = length (concat xs)"
  by (induction xs) auto

lemma length_str_trim: "length (str_trim s) \<le> length s"
proof -
  let ?w = "\<lambda>sl. is_whitespace_cp (code_point sl)"
  have "length (str_trim s) \<le> length (concat (dropWhile ?w (char_slices s)))"
    using length_concat_dropWhile [of ?w "rev (dropWhile ?w (char_slices s))"]
    by (simp add: str_trim_def Let_def length_concat_rev)
  also have "\<dots> \<le> length s"
    using length_concat_dropWhile [of ?w "char_slices s"] by simp
  finally show ?thesis .
qed

lemma length_str_trim_start: "length (str_trim_start s) \<le> length s"
  using length_concat_dropWhile [of ws_slice "char_slices s"] by (simp add: str_trim_start_def)

lemma quoted_string_loop_length:
  "quoted_string_loop cs e res = Ok (v, rest) \<Longrightarrow> length rest \<le> length (concat cs)"
  by (induction cs e res rule: quoted_string_loop.induct) (auto split: if_splits)

lemma parse_quoted_string_length: "parse_quoted_string s = Ok (v, rest) \<Longrightarrow> length rest \<le> length s"
  using quoted_string_loop_length [of "char_slices s" False "[]"] by (simp add: parse_quoted_string_def)

section \<open>Quoted strings\<close>

text \<open>A text that \<open>parse_quoted_string\<close> can return: valid, every character quotable.\<close>

definition quotable :: "string \<Rightarrow> bool" where
  "quotable v \<longleftrightarrow> valid_utf8 v \<and> (\<forall>c \<in> set (char_slices v). is_quoted_pair_char (code_point c))"

lemma qdtext_quoted_pair: "is_qdtext_char c \<Longrightarrow> is_quoted_pair_char c"
  by (auto simp: is_qdtext_char_def is_quoted_pair_char_def)

lemma quoted_string_loop_slices:
  "quoted_string_loop cs e res = Ok (v, rest) \<Longrightarrow>
     \<exists>vs ws. v = res @ concat vs \<and> rest = concat ws \<and> set vs \<subseteq> set cs \<and> set ws \<subseteq> set cs
       \<and> (\<forall>c \<in> set vs. is_quoted_pair_char (code_point c))"
proof (induction cs e res rule: quoted_string_loop.induct)
  case (1 e res)
  then show ?case by simp
next
  case (2 c cs e res)
  consider (esc) "e" "is_quoted_pair_char (code_point c)"
    | (bs) "\<not> e" "c = [BACKSLASH]"
    | (dq) "\<not> e" "c \<noteq> [BACKSLASH]" "c = [DQUOTE]"
    | (qd) "\<not> e" "c \<noteq> [BACKSLASH]" "c \<noteq> [DQUOTE]" "is_qdtext_char (code_point c)"
    using "2.prems" by (auto split: if_splits)
  then show ?case
  proof cases
    case esc
    with "2.IH"(1) "2.prems" obtain vs ws where
      "v = (res @ c) @ concat vs" "rest = concat ws" "set vs \<subseteq> set cs" "set ws \<subseteq> set cs"
      "\<forall>c \<in> set vs. is_quoted_pair_char (code_point c)" by auto
    with esc show ?thesis by (intro exI [of _ "c # vs"] exI [of _ ws]) auto
  next
    case bs
    with "2.IH"(2) "2.prems" show ?thesis by fastforce
  next
    case dq
    with "2.prems" show ?thesis by (intro exI [of _ "[]"] exI [of _ cs]) auto
  next
    case qd
    with "2.IH"(3) "2.prems" obtain vs ws where
      "v = (res @ c) @ concat vs" "rest = concat ws" "set vs \<subseteq> set cs" "set ws \<subseteq> set cs"
      "\<forall>c \<in> set vs. is_quoted_pair_char (code_point c)" by auto
    with qd show ?thesis
      by (intro exI [of _ "c # vs"] exI [of _ ws]) (auto simp: qdtext_quoted_pair)
  qed
qed

lemma parse_quoted_string_valid:
  assumes "valid_utf8 s" "parse_quoted_string s = Ok (v, rest)"
  shows "quotable v" "valid_utf8 rest"
proof -
  obtain vs ws where v: "v = concat vs" "rest = concat ws" "set vs \<subseteq> set (char_slices s)"
      "set ws \<subseteq> set (char_slices s)" "\<forall>c \<in> set vs. is_quoted_pair_char (code_point c)"
    using quoted_string_loop_slices [of "char_slices s" False "[]" v rest] assms(2)
    by (auto simp: parse_quoted_string_def)
  have g: "\<forall>c \<in> set vs. good_slice c" using v(3) assms(1) by (auto simp: valid_utf8_iff)
  show "valid_utf8 rest" using v(2,4) valid_utf8_subset [OF assms(1)] by simp
  show "quotable v" using v(1,5) good_slices_concat [OF g] by (simp add: quotable_def)
qed

lemma parse_escape_quotable:
  "quotable v \<Longrightarrow> parse_quoted_string (escape_quotes v @ DQUOTE # rest) = Ok (v, rest)"
  using parse_escape_quotes [of v rest] sanitize_id [of v] by (simp add: quotable_def)

lemma token_quotable: "list_all is_token_char v \<Longrightarrow> quotable v"
proof -
  assume a: "list_all is_token_char v"
  then have t: "list_all (\<lambda>c. u8 c < 0x80) v" by (auto simp: list_all_iff dest: token_char_ascii)
  have "is_quoted_pair_char (u8 c)" if "c \<in> set v" for c
    using a that token_char_range [of c] by (auto simp: list_all_iff is_quoted_pair_char_def)
  with t show ?thesis by (auto simp: quotable_def valid_utf8_ascii char_slices_ascii)
qed

section \<open>Tokens\<close>

lemma find_char_mid: "c \<notin> set a \<Longrightarrow> find_char c (a @ c # b) = Some (length a)"
  unfolding find_char_def by (rule position_mid) auto

lemma find_char_None: "find_char c s = None \<longleftrightarrow> c \<notin> set s"
  by (auto simp: find_char_def position_None_iff)

lemma token_plain: "is_token_char c \<Longrightarrow> plain c"
  using token_char_range [of c] by (auto simp: plain_def is_whitespace_cp_def)

lemma valid_token_no: "is_valid_token u \<Longrightarrow> \<not> is_token_char c \<Longrightarrow> c \<notin> set u"
  by (auto simp: is_valid_token_def list_all_iff)

lemma valid_token_plain: "is_valid_token u \<Longrightarrow> list_all plain u"
  by (auto simp: is_valid_token_def list_all_iff token_plain)

lemma valid_token_trim [simp]: "is_valid_token u \<Longrightarrow> str_trim u = u"
  by (rule str_trim_plain [OF valid_token_plain])

lemma valid_token_not_Nil: "is_valid_token u \<Longrightarrow> u \<noteq> []"
  by (simp add: is_valid_token_def)

lemma str_trim_plain_hd_last: "s \<noteq> [] \<Longrightarrow> plain (hd s) \<Longrightarrow> plain (last s) \<Longrightarrow> str_trim s = s"
proof -
  assume a: "s \<noteq> []" "plain (hd s)" "plain (last s)"
  then obtain x t where s: "s = x # t" by (cases s) auto
  show ?thesis
  proof (cases t rule: rev_cases)
    case Nil
    with a s show ?thesis by (simp add: str_trim_plain)
  next
    case (snoc m y)
    with a s show ?thesis by (simp add: str_trim_plain_ends)
  qed
qed

section \<open>Optional white space\<close>

lemma ows_ascii: "is_ows c \<Longrightarrow> u8 c < 0x80"
  by (auto simp: is_ows_def)

lemma span_stop:
  assumes "\<forall>x \<in> set xs. p x" "ys = [] \<or> \<not> p (hd ys)"
  shows "takeWhile p (xs @ ys) = xs" "dropWhile p (xs @ ys) = ys"
  using assms by (induction xs) (cases ys, auto)+

lemma plain_not_ows: "plain c \<Longrightarrow> \<not> is_ows c"
  by (auto simp: is_ows_def plain_def is_whitespace_cp_def)

lemma token_not_ows: "is_token_char c \<Longrightarrow> \<not> is_ows c \<and> c \<noteq> CHR '','' \<and> c \<noteq> DQUOTE"
proof -
  assume c: "is_token_char c"
  then have "c \<noteq> DQUOTE" by (auto simp: is_token_char_def)
  with c plain_not_ows [OF token_plain [OF c]] token_char_not_sep [OF c] show ?thesis by blast
qed

lemma valid_utf8_dropWhile:
  "(\<And>c. p c \<Longrightarrow> u8 c < 0x80) \<Longrightarrow> valid_utf8 s \<Longrightarrow> valid_utf8 (dropWhile p s)"
  by (induction s) (auto simp: valid_utf8_Cons_ascii)

lemma valid_utf8_tl: "s \<noteq> [] \<Longrightarrow> u8 (hd s) < 0x80 \<Longrightarrow> valid_utf8 s \<Longrightarrow> valid_utf8 (tl s)"
  by (cases s) (auto simp: valid_utf8_Cons_ascii)

section \<open>Trimming\<close>

lemma valid_utf8_trim_ows:
  assumes "valid_utf8 s"
  shows "valid_utf8 (trim_ows s)"
proof -
  obtain l r where d: "s = l @ trim_ows s @ r" "\<forall>c \<in> set l. is_ows c" "\<forall>c \<in> set r. is_ows c"
    using trim_ows_spec [of s] by blast
  have "valid_utf8 l" using d(2) by (intro valid_utf8_ascii) (simp add: list_all_iff ows_ascii)
  moreover have "l @ trim_ows s @ r = s" using d(1) by (rule sym)
  then have "valid_utf8 (l @ trim_ows s @ r)" using assms by (simp only:)
  ultimately have v: "valid_utf8 (trim_ows s @ r)" by (simp add: valid_utf8_append)
  show ?thesis
  proof (cases r)
    case (Cons y u)
    then have "u8 y < 0x80" using d(3) ows_ascii by simp
    then show ?thesis using v valid_utf8_ascii_split [of y "trim_ows s" u] Cons by simp
  qed (use v in simp)
qed

lemma valid_utf8_split_on:
  assumes "u8 d < 0x80" "valid_utf8 s" "p \<in> set (split_on d s)"
  shows "valid_utf8 p"
  using assms(2,3)
proof (induction "length s" arbitrary: s rule: less_induct)
  case less
  show ?case
  proof (cases "d \<in> set s")
    case False
    then show ?thesis using less.prems by (simp add: split_on_no_sep)
  next
    case True
    then obtain a b where s: "s = a @ d # b" "d \<notin> set a" by (auto dest: split_list_first)
    then have v: "valid_utf8 a" "valid_utf8 b" using less.prems(1) valid_utf8_ascii_split [OF assms(1)] by auto
    have "p = a \<or> p \<in> set (split_on d b)" using less.prems(2) s split_on_append_sep [OF s(2)] by simp
    then show ?thesis using v less.hyps [of b] s(1) by auto
  qed
qed

definition trim_both :: "('a \<Rightarrow> bool) \<Rightarrow> 'a list \<Rightarrow> 'a list" where
  "trim_both p xs = rev (dropWhile p (rev (dropWhile p xs)))"

lemma str_trim_eq: "str_trim s = concat (trim_both ws_slice (char_slices s))"
  by (simp add: str_trim_def trim_both_def Let_def)

lemma set_trim_both: "set (trim_both p xs) \<subseteq> set xs"
  by (auto simp: trim_both_def dest!: set_dropWhileD)

lemma trim_both_idem: "trim_both p (trim_both p xs) = trim_both p xs"
proof -
  let ?d = "dropWhile p xs" and ?t = "trim_both p xs"
  have d: "?d = ?t @ rev (takeWhile p (rev ?d))"
    unfolding trim_both_def by (metis rev_append rev_rev_ident takeWhile_dropWhile_id)
  have "dropWhile p ?t = ?t"
  proof (cases "?t = []")
    case False
    then have "?d \<noteq> []" "hd ?t = hd ?d" using d by (metis append_is_Nil_conv, metis hd_append2)
    then show ?thesis using hd_dropWhile [of p xs] dropWhile_eq_self_iff by metis
  qed simp
  moreover have "dropWhile p (rev ?t) = rev ?t"
    unfolding trim_both_def rev_rev_ident by (rule dropWhile_idem)
  ultimately show ?thesis by (simp add: trim_both_def)
qed

lemma trim_both_snoc: "p x \<Longrightarrow> trim_both p (xs @ [x]) = trim_both p xs"
proof (cases "\<forall>y \<in> set xs. p y")
  case True
  assume "p x"
  with True have "dropWhile p (xs @ [x]) = []" "dropWhile p xs = []" by auto
  then show ?thesis by (simp only: trim_both_def)
next
  case False
  assume "p x"
  moreover from False have "dropWhile p (xs @ [x]) = dropWhile p xs @ [x]" by (auto simp: dropWhile_append)
  ultimately show ?thesis by (simp add: trim_both_def)
qed

lemma str_trim_idem:
  assumes "valid_utf8 s"
  shows "str_trim (str_trim s) = str_trim s"
proof -
  have "\<forall>c \<in> set (trim_both ws_slice (char_slices s)). good_slice c"
    using assms set_trim_both [of ws_slice "char_slices s"] by (auto simp: valid_utf8_iff)
  from good_slices_concat(1) [OF this] show ?thesis
    unfolding str_trim_eq [of "str_trim s"] by (simp add: str_trim_eq trim_both_idem)
qed

lemma set_str_trim: "set (str_trim s) \<subseteq> set s"
proof -
  have "set (str_trim s) \<subseteq> set (concat (char_slices s))"
    unfolding str_trim_eq set_concat using set_trim_both [of ws_slice "char_slices s"] by blast
  then show ?thesis by simp
qed

lemma str_trim_snoc_ws:
  assumes "u8 c < 0x80" "is_whitespace_cp (u8 c)"
  shows "str_trim (q @ [c]) = str_trim q"
proof -
  have "char_slices (q @ [c]) = char_slices q @ [[c]]" using char_slices_append_ascii [OF assms(1), of q "[]"] by simp
  then show ?thesis using trim_both_snoc [of ws_slice "[c]"] assms by (simp add: str_trim_eq)
qed

lemma str_trim_last:
  assumes "str_trim p = p" "p \<noteq> []"
  shows "\<not> is_ows (last p)"
proof
  assume o: "is_ows (last p)"
  obtain q c where p: "p = q @ [c]" using assms(2) by (cases p rule: rev_cases) auto
  with o have "u8 c < 0x80" "is_whitespace_cp (u8 c)" by (auto simp: is_ows_def is_whitespace_cp_def)
  then have "length p \<le> length q" using str_trim_snoc_ws [of c q] assms(1) length_str_trim [of q] p by simp
  then show False using p by simp
qed

lemma trim_ows_ends: "m \<noteq> [] \<Longrightarrow> \<not> is_ows (hd m) \<Longrightarrow> \<not> is_ows (last m) \<Longrightarrow> trim_ows m = m"
  using trim_ows_mid [of "[]" "[]" m] by simp

end
