(* ===== verification/Ranges.thy ===== *)
theory Ranges
  imports Str_Valid
begin

text \<open>
  \<^verbatim>\<open>src/range.rs\<close>: the \<open>Range\<close>, \<open>Content-Range\<close> and \<open>Accept-Ranges\<close>
  headers. Positions and lengths are \<open>u64\<close> values.
\<close>

datatype RangeError = REmpty | RInvalidFormat | RInvalidUnit | RInvalidRange | RInvalidBounds

fun RangeError_display :: "RangeError \<Rightarrow> string" where
  "RangeError_display REmpty = ''empty range header''"
| "RangeError_display RInvalidFormat = ''invalid range header format''"
| "RangeError_display RInvalidUnit = ''invalid range unit''"
| "RangeError_display RInvalidRange = ''invalid range specification''"
| "RangeError_display RInvalidBounds = ''invalid range bounds''"

datatype RangeSpec = RangeFromTo nat nat | FromStart nat | Suffix nat

fun to_bounds :: "RangeSpec \<Rightarrow> nat \<Rightarrow> (nat \<times> nat) option" where
  "to_bounds (RangeFromTo start stop) total_length =
     (if total_length = 0 then None
      else if start > stop \<or> start \<ge> total_length then None
      else Some (start, min stop (total_length - 1)))"
| "to_bounds (FromStart start) total_length =
     (if total_length = 0 then None
      else if start \<ge> total_length then None
      else Some (start, total_length - 1))"
| "to_bounds (Suffix len) total_length =
     (if total_length = 0 then None
      else if len = 0 then None
      else Some (total_length - len, total_length - 1))"

fun RangeSpec_display :: "RangeSpec \<Rightarrow> string" where
  "RangeSpec_display (RangeFromTo start stop) = nat_to_dec start @ ''-'' @ nat_to_dec stop"
| "RangeSpec_display (FromStart start) = nat_to_dec start @ ''-''"
| "RangeSpec_display (Suffix len) = ''-'' @ nat_to_dec len"

record RangeHeader =
  rg_unit :: string
  rg_ranges :: "RangeSpec list"

definition parse_range_spec :: "string \<Rightarrow> (RangeSpec, RangeError) result" where
  "parse_range_spec s =
     and_then (ok_or (find_char CHR ''-'' s) RInvalidRange) (\<lambda>dash_pos.
       let start_str = str_trim (take dash_pos s); end_str = str_trim (drop (dash_pos + 1) s)
       in reject_if (start_str = [] \<and> end_str = []) RInvalidRange
            (if start_str = [] then and_then (ok_or (parse_u64 end_str) RInvalidRange) (\<lambda>len. Ok (Suffix len))
             else and_then (ok_or (parse_u64 start_str) RInvalidRange) (\<lambda>start.
                    if end_str = [] then Ok (FromStart start)
                    else and_then (ok_or (parse_u64 end_str) RInvalidRange) (\<lambda>stop.
                           reject_if (start > stop) RInvalidBounds (Ok (RangeFromTo start stop))))))"

fun range_parts :: "string list \<Rightarrow> RangeSpec list \<Rightarrow> (RangeSpec list, RangeError) result" where
  "range_parts [] ranges = Ok ranges"
| "range_parts (p # ps) ranges =
     (let part = str_trim p
      in if part = [] then range_parts ps ranges
         else and_then (parse_range_spec part) (\<lambda>r. range_parts ps (ranges @ [r])))"

definition Range_parse :: "string \<Rightarrow> (RangeHeader, RangeError) result" where
  "Range_parse s =
     (let input = str_trim s
      in reject_if (input = []) REmpty
           (and_then (ok_or (find_char CHR ''='' input) RInvalidFormat) (\<lambda>eq_pos.
              let unit = str_trim (take eq_pos input); ranges_str = str_trim (drop (eq_pos + 1) input)
              in reject_if (\<not> is_valid_token unit) RInvalidUnit
                   (and_then (range_parts (split_on CHR '','' ranges_str) []) (\<lambda>ranges.
                      reject_if (ranges = []) REmpty (Ok \<lparr>rg_unit = unit, rg_ranges = ranges\<rparr>))))))"

definition Range_is_bytes :: "RangeHeader \<Rightarrow> bool" where
  "Range_is_bytes r \<longleftrightarrow> eq_ignore_ascii_case (rg_unit r) ''bytes''"

definition Range_first :: "RangeHeader \<Rightarrow> RangeSpec option" where
  "Range_first r = (case rg_ranges r of [] \<Rightarrow> None | x # _ \<Rightarrow> Some x)"

definition Range_display :: "RangeHeader \<Rightarrow> string" where
  "Range_display r = rg_unit r @ ''='' @ join_comma (map RangeSpec_display (rg_ranges r))"

section \<open>Content-Range\<close>

definition validate_content_range_parts :: "nat \<Rightarrow> nat \<Rightarrow> nat option \<Rightarrow> (unit, RangeError) result" where
  "validate_content_range_parts start stop complete_length =
     reject_if (start > stop) RInvalidBounds
       (case complete_length of
          Some len \<Rightarrow> reject_if (len \<le> stop) RInvalidBounds (Ok ())
        | None \<Rightarrow> Ok ())"

record ContentRange =
  cr_unit :: string
  cr_start :: "nat option"
  cr_end :: "nat option"
  cr_complete_length :: "nat option"

definition ContentRange_parse :: "string \<Rightarrow> (ContentRange, RangeError) result" where
  "ContentRange_parse s =
     (let input = str_trim s
      in reject_if (input = []) REmpty
           (and_then (ok_or (find_char SP input) RInvalidFormat) (\<lambda>space_pos.
              let unit = str_trim (take space_pos input); rest = str_trim (drop (space_pos + 1) input)
              in reject_if (\<not> is_valid_token unit) RInvalidUnit
                   (and_then (ok_or (find_char CHR ''/'' rest) RInvalidFormat) (\<lambda>slash_pos.
                      let range_str = str_trim (take slash_pos rest);
                          length_str = str_trim (drop (slash_pos + 1) rest)
                      in and_then (if length_str = ''*'' then Ok None
                                   else and_then (ok_or (parse_u64 length_str) RInvalidFormat) (\<lambda>n. Ok (Some n)))
                           (\<lambda>complete_length.
                              if range_str = ''*'' then
                                reject_if (complete_length = None) RInvalidFormat
                                  (Ok \<lparr>cr_unit = unit, cr_start = None, cr_end = None,
                                       cr_complete_length = complete_length\<rparr>)
                              else and_then (ok_or (find_char CHR ''-'' range_str) RInvalidFormat) (\<lambda>dash_pos.
                                   and_then (ok_or (parse_u64 (take dash_pos range_str)) RInvalidFormat) (\<lambda>start.
                                   and_then (ok_or (parse_u64 (drop (dash_pos + 1) range_str)) RInvalidFormat) (\<lambda>stop.
                                   and_then (validate_content_range_parts start stop complete_length) (\<lambda>_.
                                     Ok \<lparr>cr_unit = unit, cr_start = Some start, cr_end = Some stop,
                                         cr_complete_length = complete_length\<rparr>))))))))))"

text \<open>\<open>new_bytes\<close> asserts its arguments: a failed assertion is a panic.\<close>

definition ContentRange_new_bytes :: "nat \<Rightarrow> nat \<Rightarrow> nat option \<Rightarrow> (ContentRange, RangeError) result" where
  "ContentRange_new_bytes start stop complete_length =
     (if \<not> start \<le> stop then Panic
      else if (case complete_length of Some len \<Rightarrow> \<not> len > stop | None \<Rightarrow> False) then Panic
      else Ok \<lparr>cr_unit = ''bytes'', cr_start = Some start, cr_end = Some stop, cr_complete_length = complete_length\<rparr>)"

definition ContentRange_unsatisfied :: "string \<Rightarrow> nat \<Rightarrow> ContentRange" where
  "ContentRange_unsatisfied unit complete_length =
     \<lparr>cr_unit = unit, cr_start = None, cr_end = None, cr_complete_length = Some complete_length\<rparr>"

definition ContentRange_length :: "ContentRange \<Rightarrow> nat option" where
  "ContentRange_length cr =
     (case (cr_start cr, cr_end cr) of
        (Some s, Some e) \<Rightarrow> if e < s then None else if e - s + 1 > u64_max then None else Some (e - s + 1)
      | _ \<Rightarrow> None)"

definition ContentRange_is_unsatisfied :: "ContentRange \<Rightarrow> bool" where
  "ContentRange_is_unsatisfied cr \<longleftrightarrow> cr_start cr = None \<and> cr_end cr = None"

definition ContentRange_display :: "ContentRange \<Rightarrow> string" where
  "ContentRange_display cr =
     (case (cr_start cr, cr_end cr) of
        (Some s, Some e) \<Rightarrow> cr_unit cr @ '' '' @ nat_to_dec s @ ''-'' @ nat_to_dec e @ ''/''
      | _ \<Rightarrow> cr_unit cr @ '' */'')
     @ (case cr_complete_length cr of Some len \<Rightarrow> nat_to_dec len | None \<Rightarrow> ''*'')"

section \<open>Accept-Ranges\<close>

record AcceptRanges =
  ar_units :: "string list"

definition AcceptRanges_parse :: "string \<Rightarrow> (AcceptRanges, RangeError) result" where
  "AcceptRanges_parse s =
     (let input = str_trim s
      in reject_if (input = []) REmpty
           (let units = filter (\<lambda>u. u \<noteq> []) (map str_trim (split_on CHR '','' input))
            in reject_if (units = []) REmpty
                 (reject_if (\<not> list_all is_valid_token units) RInvalidUnit
                   (reject_if (length units > 1 \<and> list_ex (\<lambda>u. eq_ignore_ascii_case u ''none'') units) RInvalidUnit
                     (Ok \<lparr>ar_units = units\<rparr>)))))"

definition AcceptRanges_bytes :: AcceptRanges where
  "AcceptRanges_bytes = \<lparr>ar_units = [''bytes'']\<rparr>"

definition AcceptRanges_none :: AcceptRanges where
  "AcceptRanges_none = \<lparr>ar_units = [''none'']\<rparr>"

definition accepts_bytes :: "AcceptRanges \<Rightarrow> bool" where
  "accepts_bytes ar \<longleftrightarrow> list_ex (\<lambda>u. eq_ignore_ascii_case u ''bytes'') (ar_units ar)"

definition AcceptRanges_is_none :: "AcceptRanges \<Rightarrow> bool" where
  "AcceptRanges_is_none ar \<longleftrightarrow> (case ar_units ar of [u] \<Rightarrow> eq_ignore_ascii_case u ''none'' | _ \<Rightarrow> False)"

definition AcceptRanges_display :: "AcceptRanges \<Rightarrow> string" where
  "AcceptRanges_display ar = join_comma (ar_units ar)"

section \<open>The octets a range selects\<close>

text \<open>The abstract meaning of a range specification (RFC 9110 Section 14.1.2).\<close>

fun selects :: "RangeSpec \<Rightarrow> nat \<Rightarrow> nat \<Rightarrow> bool" where
  "selects (RangeFromTo start stop) n i \<longleftrightarrow> start \<le> i \<and> i \<le> stop \<and> i < n"
| "selects (FromStart start) n i \<longleftrightarrow> start \<le> i \<and> i < n"
| "selects (Suffix len) n i \<longleftrightarrow> i < n \<and> n \<le> i + len"

lemma to_bounds_selects: "to_bounds spec n = Some (s, e) \<Longrightarrow> {i. selects spec n i} = {s..e} \<and> s \<le> e \<and> e < n"
  by (cases spec) (auto split: if_splits simp: min_def)

lemma to_bounds_None: "to_bounds spec n = None \<longleftrightarrow> {i. selects spec n i} = {}"
proof (cases "to_bounds spec n")
  case None
  then show ?thesis by (cases spec) (auto split: if_splits)
next
  case (Some p)
  with to_bounds_selects [of spec n "fst p" "snd p"] show ?thesis by auto
qed

section \<open>Printed forms\<close>

lemma plain_not_SP: "plain c \<Longrightarrow> c \<noteq> SP"
  by auto

lemma nat_to_dec_no: "\<not> is_ascii_digit c \<Longrightarrow> c \<notin> set (nat_to_dec n)"
  using nat_to_dec_is_digit by blast

lemma nat_to_dec_not_star [simp]: "nat_to_dec n \<noteq> ''*''"
  using nat_to_dec_no [of "CHR ''*''" n] by (auto simp: is_ascii_digit_def)

fun spec_ok :: "RangeSpec \<Rightarrow> bool" where
  "spec_ok (RangeFromTo s e) \<longleftrightarrow> s \<le> e \<and> e \<le> u64_max"
| "spec_ok (FromStart s) \<longleftrightarrow> s \<le> u64_max"
| "spec_ok (Suffix n) \<longleftrightarrow> n \<le> u64_max"

lemma parse_range_spec_ok: "parse_range_spec s = Ok r \<Longrightarrow> spec_ok r"
  by (auto simp: parse_range_spec_def Let_def result_iff split: if_splits dest: from_str_radix_bound)

lemma range_parts_ok: "range_parts ps acc = Ok rs \<Longrightarrow> list_all spec_ok acc \<Longrightarrow> list_all spec_ok rs"
  by (induction ps arbitrary: acc) (auto simp: Let_def result_iff parse_range_spec_ok split: if_splits)

lemma str_trim_dec [simp]: "str_trim (nat_to_dec n) = nat_to_dec n"
  by (rule str_trim_plain [OF nat_to_dec_plain])

lemma parse_range_spec_display: "spec_ok r \<Longrightarrow> parse_range_spec (RangeSpec_display r) = Ok r"
proof -
  assume ok: "spec_ok r"
  have no: "CHR ''-'' \<notin> set (nat_to_dec n)" for n
    using nat_to_dec_no by (simp add: is_ascii_digit_def)
  have f: "find_char CHR ''-'' (nat_to_dec n @ CHR ''-'' # t) = Some (length (nat_to_dec n))" for n t
    using no by (rule find_char_mid)
  have g: "find_char CHR ''-'' (CHR ''-'' # t) = Some 0" for t by (simp add: find_char_def)
  from ok show ?thesis
    by (cases r) (simp_all add: parse_range_spec_def f g from_str_radix_nat_to_dec)
qed

lemma RangeSpec_display_plain: "list_all plain (RangeSpec_display r) \<and> RangeSpec_display r \<noteq> []"
  using nat_to_dec_plain by (cases r) (auto simp: plain_def is_whitespace_cp_def)

lemma RangeSpec_display_no_comma: "CHR '','' \<notin> set (RangeSpec_display r)"
  using nat_to_dec_no [of "CHR '',''"] by (cases r) (auto simp: is_ascii_digit_def)

text \<open>Splitting a joined list at commas gives the items back, up to white space.\<close>

lemma split_join_comma:
  assumes "list_all (\<lambda>x. list_all plain x \<and> CHR '','' \<notin> set x) xs" "xs \<noteq> []"
  shows "map str_trim (split_on CHR '','' (join_comma xs)) = xs"
proof -
  have "map str_trim (split_on CHR '','' (cur @ join_comma xs)) = xs" if "cur = [] \<or> cur = [SP]" for cur
    using assms that
  proof (induction xs arbitrary: cur rule: induct_list012)
    case (2 x)
    then have "split_on CHR '','' (cur @ join_comma [x]) = [cur @ x]" by (auto simp: split_on_no_sep)
    with 2 show ?case by (auto simp: str_trim_plain)
  next
    case (3 x y zs)
    then have "split_on CHR '','' (cur @ join_comma (x # y # zs))
               = (cur @ x) # split_on CHR '','' ([SP] @ join_comma (y # zs))"
      using split_on_append_sep [of "CHR '',''" "cur @ x"] by auto
    moreover have "map str_trim (split_on CHR '','' ([SP] @ join_comma (y # zs))) = y # zs"
      using "3.IH"(2) [of "[SP]"] "3.prems" by simp
    ultimately show ?case using 3 by (auto simp: str_trim_plain)
  qed simp
  from this [of "[]"] show ?thesis by simp
qed

lemma range_parts_displays:
  "map str_trim ps = map RangeSpec_display rs \<Longrightarrow> list_all spec_ok rs \<Longrightarrow> range_parts ps acc = Ok (acc @ rs)"
  using RangeSpec_display_plain
  by (induction rs arbitrary: ps acc) (auto simp: Let_def parse_range_spec_display)

lemma join_comma_plain_ends:
  assumes "xs \<noteq> []" "list_all (\<lambda>x. list_all plain x \<and> x \<noteq> []) xs"
  shows "join_comma xs \<noteq> [] \<and> plain (hd (join_comma xs)) \<and> plain (last (join_comma xs))"
  using assms
proof (induction xs rule: induct_list012)
  case (2 x)
  then show ?case by (simp add: list_all_iff)
next
  case (3 x y zs)
  then show ?case by (auto simp: list_all_iff)
qed simp

lemma Range_parse_display:
  assumes u: "is_valid_token (rg_unit r)" and n: "rg_ranges r \<noteq> []" and ok: "list_all spec_ok (rg_ranges r)"
  shows "Range_parse (Range_display r) = Ok r"
proof -
  let ?j = "join_comma (map RangeSpec_display (rg_ranges r))"
  have d: "list_all (\<lambda>x. list_all plain x \<and> x \<noteq> []) (map RangeSpec_display (rg_ranges r))"
    using RangeSpec_display_plain by (auto simp: list_all_iff)
  have j: "?j \<noteq> []" "plain (hd ?j)" "plain (last ?j)" using join_comma_plain_ends [OF _ d] n by auto
  have u': "rg_unit r \<noteq> []" "list_all plain (rg_unit r)"
    using u valid_token_plain by (auto simp: is_valid_token_def)
  then have t: "str_trim (Range_display r) = Range_display r"
    using j by (intro str_trim_plain_hd_last) (auto simp: Range_display_def hd_append list_all_iff)
  have "CHR ''='' \<notin> set (rg_unit r)" using valid_token_no [OF u] by (simp add: is_token_char_def)
  then have f: "find_char CHR ''='' (Range_display r) = Some (length (rg_unit r))"
    by (simp add: Range_display_def find_char_mid)
  have s: "map str_trim (split_on CHR '','' ?j) = map RangeSpec_display (rg_ranges r)"
    using RangeSpec_display_plain RangeSpec_display_no_comma n by (intro split_join_comma) (auto simp: list_all_iff)
  have p: "take (length (rg_unit r)) (Range_display r) = rg_unit r"
          "drop (length (rg_unit r) + 1) (Range_display r) = ?j" "Range_display r \<noteq> []"
    by (simp_all add: Range_display_def)
  show ?thesis
    unfolding Range_parse_def t Let_def f ok_or_simps and_then_simps p str_trim_plain [OF u'(2)]
      str_trim_plain_hd_last [OF j] range_parts_displays [OF s ok]
    using u n by (simp add: p(3))
qed

lemma Range_parse_valid:
  "Range_parse s = Ok r \<Longrightarrow> is_valid_token (rg_unit r) \<and> rg_ranges r \<noteq> [] \<and> list_all spec_ok (rg_ranges r)"
  by (auto simp: Range_parse_def Let_def result_iff dest: range_parts_ok)

lemma range_header_roundtrip: "Range_parse s = Ok r \<Longrightarrow> Range_parse (Range_display r) = Ok r"
  using Range_parse_valid Range_parse_display by blast

section \<open>Content-Range of a satisfiable range\<close>

definition content_range_ok :: "ContentRange \<Rightarrow> bool" where
  "content_range_ok cr \<longleftrightarrow> is_valid_token (cr_unit cr)
     \<and> (case (cr_start cr, cr_end cr) of
          (Some s, Some e) \<Rightarrow> s \<le> e \<and> e \<le> u64_max
            \<and> (case cr_complete_length cr of None \<Rightarrow> True | Some n \<Rightarrow> e < n \<and> n \<le> u64_max)
        | (None, None) \<Rightarrow> (case cr_complete_length cr of None \<Rightarrow> False | Some n \<Rightarrow> n \<le> u64_max)
        | _ \<Rightarrow> False)"

lemma validate_content_range_parts_Ok_iff [result_iff]:
  "validate_content_range_parts s e c = Ok u \<longleftrightarrow> s \<le> e \<and> (case c of None \<Rightarrow> True | Some n \<Rightarrow> e < n)"
  by (cases c) (auto simp: validate_content_range_parts_def reject_if_def)

lemma complete_length_bound:
  "(if t = ''*'' then Ok None else and_then (ok_or (parse_u64 t) RInvalidFormat) (\<lambda>n. Ok (Some n))) = Ok c
   \<Longrightarrow> case c of None \<Rightarrow> True | Some n \<Rightarrow> n \<le> u64_max"
  by (auto simp: result_iff split: if_splits dest: from_str_radix_bound)

lemma content_range_ok_cases:
  "is_valid_token unit \<Longrightarrow> s \<le> e \<Longrightarrow> e \<le> u64_max \<Longrightarrow> case c of None \<Rightarrow> True | Some n \<Rightarrow> n \<le> u64_max
   \<Longrightarrow> case c of None \<Rightarrow> True | Some n \<Rightarrow> e < n
   \<Longrightarrow> content_range_ok \<lparr>cr_unit = unit, cr_start = Some s, cr_end = Some e, cr_complete_length = c\<rparr>"
  "is_valid_token unit \<Longrightarrow> c \<noteq> None \<Longrightarrow> case c of None \<Rightarrow> True | Some n \<Rightarrow> n \<le> u64_max
   \<Longrightarrow> content_range_ok \<lparr>cr_unit = unit, cr_start = None, cr_end = None, cr_complete_length = c\<rparr>"
  by (cases c; simp add: content_range_ok_def)+

lemma if_Ok_iff: "(if b then x else y) = Ok z \<longleftrightarrow> b \<and> x = Ok z \<or> \<not> b \<and> y = Ok z"
  by simp

lemma ContentRange_parse_ok: "ContentRange_parse s = Ok cr \<Longrightarrow> content_range_ok cr"
  unfolding ContentRange_parse_def Let_def
  by (elim resultE, drule complete_length_bound)
     (auto simp: if_Ok_iff elim!: resultE intro!: content_range_ok_cases dest: from_str_radix_bound
           simp: validate_content_range_parts_Ok_iff)

definition range_text :: "ContentRange \<Rightarrow> string" where
  "range_text cr = (case (cr_start cr, cr_end cr) of
     (Some s, Some e) \<Rightarrow> nat_to_dec s @ ''-'' @ nat_to_dec e | _ \<Rightarrow> ''*'')"

definition length_text :: "ContentRange \<Rightarrow> string" where
  "length_text cr = (case cr_complete_length cr of Some len \<Rightarrow> nat_to_dec len | None \<Rightarrow> ''*'')"

lemma ContentRange_display_eq:
  "ContentRange_display cr = cr_unit cr @ SP # range_text cr @ CHR ''/'' # length_text cr"
  by (simp add: ContentRange_display_def range_text_def length_text_def split: option.splits)

lemma length_text_plain: "list_all plain (length_text cr) \<and> length_text cr \<noteq> []"
  using nat_to_dec_plain by (auto simp: length_text_def plain_def is_whitespace_cp_def split: option.splits)

lemma range_text_plain: "list_all plain (range_text cr) \<and> range_text cr \<noteq> [] \<and> CHR ''/'' \<notin> set (range_text cr)"
  using nat_to_dec_plain nat_to_dec_no [of "CHR ''/''"]
  by (auto simp: range_text_def plain_def is_whitespace_cp_def is_ascii_digit_def split: option.splits)

lemma range_text_not_star: "nat_to_dec s @ CHR ''-'' # t \<noteq> ''*''"
  by (cases "nat_to_dec s") auto

text \<open>The four pieces \<open>ContentRange::parse\<close> cuts the printed text into.\<close>

lemma ContentRange_display_pieces:
  assumes "is_valid_token (cr_unit cr)"
  defines "rest \<equiv> range_text cr @ CHR ''/'' # length_text cr"
  shows "str_trim (ContentRange_display cr) = ContentRange_display cr"
    and "find_char SP (ContentRange_display cr) = Some (length (cr_unit cr))"
    and "take (length (cr_unit cr)) (ContentRange_display cr) = cr_unit cr"
    and "drop (length (cr_unit cr) + 1) (ContentRange_display cr) = rest"
    and "str_trim (cr_unit cr) = cr_unit cr" and "str_trim rest = rest"
    and "find_char CHR ''/'' rest = Some (length (range_text cr))"
proof -
  have u: "cr_unit cr \<noteq> []" "list_all plain (cr_unit cr)"
    using assms(1) valid_token_plain by (auto simp: is_valid_token_def)
  have "last (length_text cr) \<in> set (length_text cr)" "hd (range_text cr) \<in> set (range_text cr)"
    using length_text_plain range_text_plain by simp_all
  then have l: "plain (last (length_text cr))" "plain (hd (range_text cr))"
    using length_text_plain [of cr] range_text_plain [of cr] by (auto simp: list_all_iff)
  show "str_trim (ContentRange_display cr) = ContentRange_display cr"
    using u l(1) length_text_plain [of cr]
    by (intro str_trim_plain_hd_last) (auto simp: ContentRange_display_eq hd_append list_all_iff)
  show "str_trim rest = rest"
    using l length_text_plain [of cr] range_text_plain [of cr]
    by (intro str_trim_plain_hd_last) (auto simp: rest_def hd_append)
  have "SP \<notin> set (cr_unit cr)" using valid_token_no [OF assms(1)] by (simp add: is_token_char_def)
  then show "find_char SP (ContentRange_display cr) = Some (length (cr_unit cr))"
    by (simp add: ContentRange_display_eq find_char_mid)
  show "find_char CHR ''/'' rest = Some (length (range_text cr))"
    using range_text_plain [of cr] by (simp add: rest_def find_char_mid)
qed (simp_all add: ContentRange_display_eq rest_def str_trim_plain valid_token_plain assms(1))

lemma parse_length_text:
  assumes "case cr_complete_length cr of None \<Rightarrow> True | Some n \<Rightarrow> n \<le> u64_max"
  shows "(if length_text cr = ''*'' then Ok None
          else and_then (ok_or (parse_u64 (length_text cr)) RInvalidFormat) (\<lambda>n. Ok (Some n)))
         = Ok (cr_complete_length cr)"
  using assms by (cases "cr_complete_length cr") (simp_all add: length_text_def from_str_radix_nat_to_dec)

lemma ContentRange_parse_display:
  assumes ok: "content_range_ok cr"
  shows "ContentRange_parse (ContentRange_display cr) = Ok cr"
proof -
  have u: "is_valid_token (cr_unit cr)" using ok by (simp add: content_range_ok_def)
  have c: "case cr_complete_length cr of None \<Rightarrow> True | Some n \<Rightarrow> n \<le> u64_max"
    using ok by (auto simp: content_range_ok_def split: option.splits)
  let ?rest = "range_text cr @ CHR ''/'' # length_text cr"
  have p: "take (length (range_text cr)) ?rest = range_text cr"
          "drop (length (range_text cr) + 1) ?rest = length_text cr"
          "ContentRange_display cr \<noteq> []" by (simp_all add: ContentRange_display_eq)
  have t: "str_trim (range_text cr) = range_text cr" "str_trim (length_text cr) = length_text cr"
    using range_text_plain length_text_plain by (simp_all add: str_trim_plain)
  have no: "CHR ''-'' \<notin> set (nat_to_dec n)" for n using nat_to_dec_no by (simp add: is_ascii_digit_def)
  note s = ContentRange_display_pieces [OF u] p t parse_length_text [OF c]
  consider (sat) a b where "cr_start cr = Some a" "cr_end cr = Some b"
    | (unsat) n where "cr_start cr = None" "cr_end cr = None" "cr_complete_length cr = Some n"
    using ok by (auto simp: content_range_ok_def split: option.splits)
  then show ?thesis
  proof cases
    case sat
    have v: "validate_content_range_parts a b (cr_complete_length cr) = Ok ()"
      and ab: "a \<le> u64_max" "b \<le> u64_max"
      using ok sat by (auto simp: content_range_ok_def validate_content_range_parts_def split: option.splits)
    have r: "range_text cr = nat_to_dec a @ CHR ''-'' # nat_to_dec b" by (simp add: range_text_def sat)
    have f: "find_char CHR ''-'' (range_text cr) = Some (length (nat_to_dec a))"
      unfolding r by (rule find_char_mid [OF no])
    show ?thesis
      unfolding ContentRange_parse_def Let_def s ok_or_simps and_then_simps f
      using u ab sat v range_text_not_star p(3) by (simp add: r from_str_radix_nat_to_dec)
  next
    case unsat
    then have "range_text cr = ''*''" by (simp add: range_text_def)
    then show ?thesis
      unfolding ContentRange_parse_def Let_def s ok_or_simps and_then_simps
      using u unsat p(3) by simp
  qed
qed

text \<open>
  C34. A satisfiable range makes a correct \<open>Content-Range\<close>: when \<open>to_bounds\<close> of a range
  specification against a representation of \<open>n\<close> octets returns bounds, they enclose exactly
  the octets the specification selects; \<open>ContentRange::new_bytes\<close> with these bounds does not
  panic, its length is the number of selected octets, and its text parses back to it.
\<close>

theorem range_to_content_range:
  assumes "to_bounds spec n = Some (start, stop)" "n \<le> u64_max"
  shows "{i. selects spec n i} = {start..stop}
    \<and> (\<exists>cr. ContentRange_new_bytes start stop (Some n) = Ok cr
         \<and> ContentRange_length cr = Some (card {i. selects spec n i})
         \<and> ContentRange_parse (ContentRange_display cr) = Ok cr)"
proof -
  let ?cr = "\<lparr>cr_unit = ''bytes'', cr_start = Some start, cr_end = Some stop, cr_complete_length = Some n\<rparr>"
  have s: "{i. selects spec n i} = {start..stop}" "start \<le> stop" "stop < n"
    using to_bounds_selects [OF assms(1)] by auto
  have "content_range_ok ?cr"
    using s assms(2) by (simp add: content_range_ok_def is_valid_token_def is_token_char_def)
  moreover have "ContentRange_length ?cr = Some (card {start..stop})"
    using s(2,3) assms(2) by (auto simp: ContentRange_length_def)
  moreover have "ContentRange_new_bytes start stop (Some n) = Ok ?cr"
    using s(2,3) by (simp add: ContentRange_new_bytes_def)
  ultimately show ?thesis using s(1) ContentRange_parse_display by metis
qed

theorem range_to_content_range_witness:
  "{i. selects (Suffix 500) 1000 i} = {500..999}
    \<and> (\<exists>cr. ContentRange_new_bytes 500 999 (Some 1000) = Ok cr
         \<and> ContentRange_length cr = Some (card {i. selects (Suffix 500) 1000 i})
         \<and> ContentRange_parse (ContentRange_display cr) = Ok cr)"
  by (rule range_to_content_range) (simp_all add: u64_max_def)

end
