(* ===== verification/Content_Type.thy ===== *)
theory Content_Type
  imports Str_Valid
begin

text \<open>
  \<^verbatim>\<open>src/content_type.rs\<close>: media types with parameters. The parameter loop of the source is the
  recursion of \<open>parse_parameters_loop\<close>, which ends because every round removes a name and its
  equals sign.
\<close>

datatype ContentTypeError = CTEmpty | CTInvalidMediaType | CTInvalidParameter | CTUnterminatedQuote

fun ContentTypeError_display :: "ContentTypeError \<Rightarrow> string" where
  "ContentTypeError_display CTEmpty = ''empty Content-Type''"
| "ContentTypeError_display CTInvalidMediaType = ''invalid media type''"
| "ContentTypeError_display CTInvalidParameter = ''invalid parameter''"
| "ContentTypeError_display CTUnterminatedQuote = ''unterminated quote''"

fun ct_from_quoted_error :: "QuotedStringError \<Rightarrow> ContentTypeError" where
  "ct_from_quoted_error InvalidQdtext = CTInvalidParameter"
| "ct_from_quoted_error InvalidQuotedPair = CTInvalidParameter"
| "ct_from_quoted_error Unterminated = CTUnterminatedQuote"

record ContentType =
  ct_media_type :: string
  ct_subtype :: string
  ct_parameters :: "(string \<times> string) list"

definition split_at_semicolon :: "string \<Rightarrow> string \<times> string" where
  "split_at_semicolon input =
     (case find_char CHR '';'' input of
        Some pos \<Rightarrow> (str_trim (take pos input), str_trim (drop (pos + 1) input))
      | None \<Rightarrow> (str_trim input, []))"

definition parse_media_type :: "string \<Rightarrow> (string \<times> string, ContentTypeError) result" where
  "parse_media_type s =
     (let input = str_trim s
      in reject_if (input = []) CTInvalidMediaType
           (and_then (ok_or (find_char CHR ''/'' input) CTInvalidMediaType) (\<lambda>slash_pos.
              let media_type = str_trim (take slash_pos input); subtype = str_trim (drop (slash_pos + 1) input)
              in reject_if (media_type = [] \<or> subtype = []) CTInvalidMediaType
                   (reject_if (\<not> is_valid_token media_type \<or> \<not> is_valid_token subtype) CTInvalidMediaType
                     (Ok (media_type, subtype))))))"

definition parse_token_value :: "string \<Rightarrow> (string \<times> string, ContentTypeError) result" where
  "parse_token_value input =
     (let stop = (\<lambda>c. c = [CHR '';''] \<or> ws_slice c);
          token = concat (takeWhile (\<lambda>c. \<not> stop c) (char_slices input))
      in reject_if (\<not> is_valid_token token) CTInvalidParameter
           (Ok (token, concat (dropWhile (\<lambda>c. \<not> stop c) (char_slices input)))))"

definition parse_value :: "string \<Rightarrow> (string \<times> string, ContentTypeError) result" where
  "parse_value rest =
     (case strip_prefix rest [DQUOTE] of
        Some after_quote \<Rightarrow> map_err ct_from_quoted_error (parse_quoted_string after_quote)
      | None \<Rightarrow> parse_token_value rest)"

lemma parse_token_value_length: "parse_token_value s = Ok (v, r) \<Longrightarrow> length r \<le> length s"
  using length_concat_dropWhile [of _ "char_slices s"]
  by (fastforce simp: parse_token_value_def Let_def result_iff)

lemma parse_value_length: "parse_value s = Ok (v, r) \<Longrightarrow> length r \<le> length s"
  by (auto simp: parse_value_def strip_prefix_def result_iff split: if_splits
           dest: parse_token_value_length dest!: parse_quoted_string_length)

lemma length_trim_start_char: "length (trim_start_char c s) \<le> length s"
  by (simp add: trim_start_char_def length_dropWhile_le)

function parse_parameters_loop ::
    "string \<Rightarrow> (string \<times> string) list \<Rightarrow> ((string \<times> string) list, ContentTypeError) result" where
  "parse_parameters_loop rest0 parameters =
     (if rest0 = [] then Ok parameters
      else let rest = str_trim (trim_start_char CHR '';'' rest0)
           in if rest = [] then Ok parameters
              else and_then (ok_or (find_char CHR ''='' rest) CTInvalidParameter) (\<lambda>eq_pos.
                     let name = str_trim (take eq_pos rest)
                     in reject_if (name = [] \<or> \<not> is_valid_token name) CTInvalidParameter
                          (and_then (parse_value (str_trim (drop (eq_pos + 1) rest))) (\<lambda>(value, remaining).
                             parse_parameters_loop (str_trim (trim_start_char CHR '';'' remaining))
                               (parameters @ [(to_ascii_lowercase name, value)])))))"
  by pat_completeness auto
termination
proof (relation "measure (\<lambda>(s, _). length s)", goal_cases)
  case 1
  show ?case by simp
next
  case (2 rest0 ps rest eq_pos name vr val remaining)
  then have v: "length remaining \<le> length (str_trim (drop (eq_pos + 1) rest))"
    using parse_value_length [of "str_trim (drop (eq_pos + 1) rest)" val remaining] by auto
  have "eq_pos < length rest"
    using 2 by (auto simp: ok_or_Ok_iff find_char_def dest: position_less)
  moreover have "length rest \<le> length rest0"
    using 2 length_str_trim [of "trim_start_char CHR '';'' rest0"] length_trim_start_char [of "CHR '';''" rest0] by simp
  moreover have "length (str_trim (trim_start_char CHR '';'' remaining)) \<le> length remaining"
    using length_str_trim length_trim_start_char le_trans by blast
  ultimately show ?case
    using v length_str_trim [of "drop (eq_pos + 1) rest"] by simp
qed

declare parse_parameters_loop.simps [simp del]

definition parse_parameters :: "string \<Rightarrow> ((string \<times> string) list, ContentTypeError) result" where
  "parse_parameters input = parse_parameters_loop (str_trim input) []"

definition ContentType_parse :: "string \<Rightarrow> (ContentType, ContentTypeError) result" where
  "ContentType_parse s =
     (let input = str_trim s
      in reject_if (input = []) CTEmpty
           (let (media_type_part, rest) = split_at_semicolon input
            in and_then (parse_media_type media_type_part) (\<lambda>(media_type, subtype).
               and_then (parse_parameters rest) (\<lambda>parameters.
                 Ok \<lparr>ct_media_type = to_ascii_lowercase media_type, ct_subtype = to_ascii_lowercase subtype,
                     ct_parameters = parameters\<rparr>))))"

definition ContentType_new :: "string \<Rightarrow> string \<Rightarrow> ContentType" where
  "ContentType_new media_type subtype =
     \<lparr>ct_media_type = to_ascii_lowercase media_type, ct_subtype = to_ascii_lowercase subtype, ct_parameters = []\<rparr>"

definition ct_with_parameter :: "ContentType \<Rightarrow> string \<Rightarrow> string \<Rightarrow> ContentType" where
  "ct_with_parameter ct name value = ct\<lparr>ct_parameters := ct_parameters ct @ [(to_ascii_lowercase name, value)]\<rparr>"

definition ct_mime_type :: "ContentType \<Rightarrow> string" where
  "ct_mime_type ct = ct_media_type ct @ ''/'' @ ct_subtype ct"

definition ct_parameter :: "ContentType \<Rightarrow> string \<Rightarrow> string option" where
  "ct_parameter ct name = map_of (ct_parameters ct) (to_ascii_lowercase name)"

definition ct_charset :: "ContentType \<Rightarrow> string option" where
  "ct_charset ct = ct_parameter ct ''charset''"

definition ct_boundary :: "ContentType \<Rightarrow> string option" where
  "ct_boundary ct = ct_parameter ct ''boundary''"

definition ct_is_text :: "ContentType \<Rightarrow> bool" where
  "ct_is_text ct \<longleftrightarrow> ct_media_type ct = ''text''"

definition ct_is_json :: "ContentType \<Rightarrow> bool" where
  "ct_is_json ct \<longleftrightarrow> ct_media_type ct = ''application'' \<and> ct_subtype ct = ''json''"

definition ct_is_multipart :: "ContentType \<Rightarrow> bool" where
  "ct_is_multipart ct \<longleftrightarrow> ct_media_type ct = ''multipart''"

definition ct_is_form_data :: "ContentType \<Rightarrow> bool" where
  "ct_is_form_data ct \<longleftrightarrow> ct_media_type ct = ''multipart'' \<and> ct_subtype ct = ''form-data''"

definition ct_is_form_urlencoded :: "ContentType \<Rightarrow> bool" where
  "ct_is_form_urlencoded ct \<longleftrightarrow> ct_media_type ct = ''application'' \<and> ct_subtype ct = ''x-www-form-urlencoded''"

definition needs_quoting :: "string \<Rightarrow> bool" where
  "needs_quoting s \<longleftrightarrow> s = [] \<or> list_ex (\<lambda>b. \<not> is_token_char b) s"

definition ct_parameter_display :: "string \<times> string \<Rightarrow> string" where
  "ct_parameter_display nv =
     (if needs_quoting (snd nv) then ''; '' @ fst nv @ ''='' @ [DQUOTE] @ escape_quotes (snd nv) @ [DQUOTE]
      else ''; '' @ fst nv @ ''='' @ snd nv)"

definition ContentType_display :: "ContentType \<Rightarrow> string" where
  "ContentType_display ct =
     ct_media_type ct @ ''/'' @ ct_subtype ct @ concat (map ct_parameter_display (ct_parameters ct))"

section \<open>What is parsed\<close>

definition param_ok :: "string \<times> string \<Rightarrow> bool" where
  "param_ok nv \<longleftrightarrow> is_valid_token (fst nv) \<and> to_ascii_lowercase (fst nv) = fst nv \<and> quotable (snd nv)"

lemma param_ok_iff: "param_ok (n, v) \<longleftrightarrow> is_valid_token n \<and> to_ascii_lowercase n = n \<and> quotable v"
  by (simp add: param_ok_def)

definition content_type_ok :: "ContentType \<Rightarrow> bool" where
  "content_type_ok ct \<longleftrightarrow> is_valid_token (ct_media_type ct) \<and> is_valid_token (ct_subtype ct)
     \<and> to_ascii_lowercase (ct_media_type ct) = ct_media_type ct \<and> to_ascii_lowercase (ct_subtype ct) = ct_subtype ct
     \<and> list_all param_ok (ct_parameters ct)"

lemma parse_token_value_valid:
  assumes "valid_utf8 s" "parse_token_value s = Ok (v, r)"
  shows "quotable v" "valid_utf8 r"
proof -
  let ?p = "\<lambda>c. \<not> (c = [CHR '';''] \<or> ws_slice c)"
  have "is_valid_token v" "r = concat (dropWhile ?p (char_slices s))"
    using assms(2) by (auto simp: parse_token_value_def Let_def result_iff)
  then show "quotable v" "valid_utf8 r"
    using valid_utf8_subset [OF assms(1), of "dropWhile ?p (char_slices s)"]
    by (auto simp: token_quotable is_valid_token_def dest: set_dropWhileD)
qed

lemma parse_value_valid:
  assumes "valid_utf8 s" "parse_value s = Ok (v, r)"
  shows "quotable v" "valid_utf8 r"
proof -
  have "quotable v \<and> valid_utf8 r"
  proof (cases "starts_with s [DQUOTE]")
    case True
    then obtain t where t: "s = DQUOTE # t" by (cases s) (auto simp: starts_with_def)
    then have "valid_utf8 t" using assms(1) by (simp add: valid_utf8_Cons_ascii)
    moreover have "parse_quoted_string t = Ok (v, r)"
      using assms(2) True t by (simp add: parse_value_def strip_prefix_def map_err_Ok_iff)
    ultimately show ?thesis using parse_quoted_string_valid by blast
  next
    case False
    then have "parse_token_value s = Ok (v, r)" using assms(2) by (simp add: parse_value_def strip_prefix_def)
    then show ?thesis using parse_token_value_valid [OF assms(1)] by blast
  qed
  then show "quotable v" "valid_utf8 r" by auto
qed

lemma valid_utf8_dropWhile_char: "u8 c < 0x80 \<Longrightarrow> valid_utf8 s \<Longrightarrow> valid_utf8 (trim_start_char c s)"
  by (induction s) (auto simp: trim_start_char_def valid_utf8_Cons_ascii)

lemma parse_parameters_loop_ok:
  "parse_parameters_loop s acc = Ok ps \<Longrightarrow> valid_utf8 s \<Longrightarrow> list_all param_ok acc \<Longrightarrow> list_all param_ok ps"
proof (induction s acc rule: parse_parameters_loop.induct)
  case (1 s acc)
  let ?rest = "str_trim (trim_start_char CHR '';'' s)"
  show ?case
  proof (cases "s = [] \<or> ?rest = []")
    case True
    then show ?thesis using "1.prems" by (auto simp: parse_parameters_loop.simps [of s acc] Let_def split: if_splits)
  next
    case False
    have vr: "valid_utf8 ?rest" using "1.prems"(2) by (simp add: valid_utf8_trim valid_utf8_dropWhile_char)
    obtain i v r where f: "find_char CHR ''='' ?rest = Some i"
      and n: "is_valid_token (str_trim (take i ?rest))"
      and p: "parse_value (str_trim (drop (i + 1) ?rest)) = Ok (v, r)"
      and l: "parse_parameters_loop (str_trim (trim_start_char CHR '';'' r))
               (acc @ [(to_ascii_lowercase (str_trim (take i ?rest)), v)]) = Ok ps"
      using "1.prems"(1) False
      by (auto simp: parse_parameters_loop.simps [of s acc] Let_def result_iff)
    have "valid_utf8 (str_trim (drop (i + 1) ?rest))"
      using valid_utf8_find_char(2) [OF vr f] by (simp add: valid_utf8_trim)
    from parse_value_valid [OF this p] have q: "quotable v" "valid_utf8 r" by auto
    have a: "list_all param_ok (acc @ [(to_ascii_lowercase (str_trim (take i ?rest)), v)])"
      using "1.prems"(3) n q(1) by (simp add: param_ok_iff valid_token_lower)
    have "str_trim (take i ?rest) \<noteq> []" using n by (simp add: is_valid_token_def)
    with "1.IH" [OF _ refl _ _ refl _ p refl l _ a] False f n q(2) show ?thesis
      by (simp add: valid_utf8_trim valid_utf8_dropWhile_char)
  qed
qed

lemma ContentType_parse_ok:
  assumes "valid_utf8 s" "ContentType_parse s = Ok ct"
  shows "content_type_ok ct"
proof -
  obtain mp rest m t ps where a: "split_at_semicolon (str_trim s) = (mp, rest)"
    "parse_media_type mp = Ok (m, t)" "parse_parameters rest = Ok ps"
    "ct = \<lparr>ct_media_type = to_ascii_lowercase m, ct_subtype = to_ascii_lowercase t, ct_parameters = ps\<rparr>"
    using assms(2) by (auto simp: ContentType_parse_def Let_def result_iff split: prod.splits)
  have "valid_utf8 rest"
    using a(1) valid_utf8_trim [OF assms(1)] valid_utf8_find_char(2) [of "str_trim s" "CHR '';''"]
    by (auto simp: split_at_semicolon_def valid_utf8_trim split: option.splits)
  then have "list_all param_ok ps"
    using a(3) parse_parameters_loop_ok [of "str_trim rest" "[]" ps]
    by (simp add: parse_parameters_def valid_utf8_trim)
  moreover have "is_valid_token m" "is_valid_token t"
    using a(2) by (auto simp: parse_media_type_def Let_def result_iff)
  ultimately show ?thesis using a(4) by (simp add: content_type_ok_def valid_token_lower)
qed

section \<open>The printed form\<close>

text \<open>The value part of a printed parameter is read back, whatever parameter follows.\<close>

definition value_text :: "string \<Rightarrow> string" where
  "value_text v = (if needs_quoting v then [DQUOTE] @ escape_quotes v @ [DQUOTE] else v)"

lemma ct_parameter_display_eq: "ct_parameter_display (n, v) = CHR '';'' # SP # n @ CHR ''='' # value_text v"
  by (simp add: ct_parameter_display_def value_text_def)

lemma not_needs_quoting: "\<not> needs_quoting v \<longleftrightarrow> is_valid_token v"
  by (auto simp: needs_quoting_def is_valid_token_def list_all_iff list_ex_iff)

lemma value_text_ends: "value_text v \<noteq> [] \<and> plain (hd (value_text v)) \<and> plain (last (value_text v))"
proof (cases "needs_quoting v")
  case True
  then show ?thesis by (simp add: value_text_def plain_def is_whitespace_cp_def)
next
  case False
  then have "v \<noteq> []" "list_all plain v" using valid_token_plain by (auto simp: not_needs_quoting is_valid_token_def)
  with False show ?thesis by (simp add: value_text_def list_all_iff)
qed

lemma parse_token_value_stop:
  assumes "is_valid_token v" "t = [] \<or> (\<exists>u. t = CHR '';'' # u)"
  shows "parse_token_value (v @ t) = Ok (v, t)"
proof -
  let ?p = "\<lambda>c. \<not> (c = [CHR '';''] \<or> ws_slice c)"
  have p: "list_all plain v" by (rule valid_token_plain [OF assms(1)])
  have n: "CHR '';'' \<notin> set v" using valid_token_no [OF assms(1)] by (simp add: is_token_char_def)
  have s: "char_slices (v @ t) = map (\<lambda>c. [c]) v @ char_slices t" by (rule char_slices_plain [OF p])
  have all: "\<forall>c \<in> set (map (\<lambda>c. [c]) v). ?p c" using p n by (auto simp: list_all_iff plain_def)
  have t: "takeWhile ?p (char_slices t) = []" "dropWhile ?p (char_slices t) = char_slices t"
    using assms(2) by auto
  have "takeWhile ?p (char_slices (v @ t)) = map (\<lambda>c. [c]) v"
       "dropWhile ?p (char_slices (v @ t)) = char_slices t"
    unfolding s takeWhile_append dropWhile_append if_P [OF all] t by simp_all
  moreover have "concat (map (\<lambda>c. [c]) v) = v" by (induction v) simp_all
  ultimately show ?thesis using assms(1) by (simp add: parse_token_value_def Let_def)
qed

lemma parse_value_text:
  assumes "quotable v" "t = [] \<or> (\<exists>u. t = CHR '';'' # u)"
  shows "parse_value (value_text v @ t) = Ok (v, t)"
proof (cases "needs_quoting v")
  case True
  then show ?thesis using parse_escape_quotable [OF assms(1), of t]
    by (simp add: value_text_def parse_value_def strip_prefix_def starts_with_def)
next
  case False
  then have v: "is_valid_token v" by (simp add: not_needs_quoting)
  then obtain c w where "v = c # w" "is_token_char c" by (cases v) (auto simp: is_valid_token_def)
  then have "\<not> starts_with (v @ t) [DQUOTE]" by (auto simp: starts_with_def is_token_char_def)
  with False parse_token_value_stop [OF v assms(2)] show ?thesis
    by (simp add: value_text_def parse_value_def strip_prefix_def)
qed

definition params_text :: "(string \<times> string) list \<Rightarrow> string" where
  "params_text ps = concat (map ct_parameter_display ps)"

lemma params_text_simps [simp]:
  "params_text [] = []"
  "params_text ((n, v) # ps) = CHR '';'' # SP # n @ CHR ''='' # value_text v @ params_text ps"
  by (simp_all add: params_text_def ct_parameter_display_eq)

lemma params_text_cases: "params_text ps = [] \<or> (\<exists>u. params_text ps = CHR '';'' # u)"
  by (cases ps) auto

lemma params_text_last: "params_text ps \<noteq> [] \<Longrightarrow> plain (last (params_text ps))"
proof (induction ps)
  case (Cons p ps)
  obtain n v where p: "p = (n, v)" by (cases p)
  then show ?case using Cons.IH value_text_ends [of v] by (cases "params_text ps = []") simp_all
qed simp

lemma params_text_tail:
  "value_text v @ params_text ps \<noteq> []" "plain (hd (value_text v @ params_text ps))"
  "plain (last (value_text v @ params_text ps))"
  using value_text_ends [of v] params_text_last [of ps] by (auto simp: hd_append last_append)

lemma params_text_trim:
  assumes "is_valid_token n"
  shows "str_trim (n @ CHR ''='' # value_text v @ params_text ps) = n @ CHR ''='' # value_text v @ params_text ps"
  using valid_token_plain [OF assms] valid_token_not_Nil [OF assms] params_text_tail [of v ps]
  by (intro str_trim_plain_hd_last) (auto simp: list_all_iff hd_append)

lemma params_text_trim_twice:
  assumes "list_all param_ok ps"
  shows "str_trim (str_trim (trim_start_char CHR '';'' (params_text ps))) = str_trim (trim_start_char CHR '';'' (params_text ps))"
proof (cases ps)
  case (Cons p qs)
  then obtain n v where p: "p = (n, v)" "is_valid_token n" using assms by (cases p) (auto simp: param_ok_iff)
  with Cons show ?thesis by (simp add: trim_start_char_def params_text_trim)
qed (simp add: trim_start_char_def)

lemma parse_parameters_text:
  assumes "list_all param_ok ps"
  shows "parse_parameters_loop (str_trim (trim_start_char CHR '';'' (params_text ps))) acc = Ok (acc @ ps)"
  using assms
proof (induction ps arbitrary: acc)
  case Nil
  then show ?case by (simp add: trim_start_char_def parse_parameters_loop.simps)
next
  case (Cons p ps)
  obtain n v where p: "p = (n, v)" by (cases p)
  with Cons.prems have n: "is_valid_token n" "to_ascii_lowercase n = n" "quotable v" "list_all param_ok ps"
    by (simp_all add: param_ok_iff)
  let ?s = "n @ CHR ''='' # value_text v @ params_text ps"
  have np: "n \<noteq> []" using n(1) valid_token_not_Nil by auto
  have nsemi: "hd n \<noteq> CHR '';''" using n(1) np by (cases n) (auto simp: is_valid_token_def is_token_char_def)
  then have ts: "trim_start_char CHR '';'' ?s = ?s" using np by (cases n) (auto simp: trim_start_char_def)
  have f: "find_char CHR ''='' ?s = Some (length n)"
    using valid_token_no [OF n(1)] by (intro find_char_mid) (simp add: is_token_char_def)
  have d: "str_trim (value_text v @ params_text ps) = value_text v @ params_text ps"
    by (rule str_trim_plain_hd_last [OF params_text_tail])
  have "parse_parameters_loop ?s acc = parse_parameters_loop
      (str_trim (trim_start_char CHR '';'' (params_text ps))) (acc @ [(n, v)])"
    unfolding parse_parameters_loop.simps [of ?s acc] Let_def ts params_text_trim [OF n(1)] f
    using np n parse_value_text [OF n(3) params_text_cases [of ps]] by (simp add: d)
  also have "\<dots> = Ok (acc @ p # ps)" using Cons.IH [OF n(4), of "acc @ [(n, v)]"] p by simp
  finally show ?case using p params_text_trim [OF n(1)] by (simp add: trim_start_char_def)
qed

lemma ContentType_display_trim:
  assumes "content_type_ok ct"
  shows "str_trim (ContentType_display ct) = ContentType_display ct"
proof -
  have mt: "ct_media_type ct \<noteq> []" "list_all plain (ct_media_type ct)" "ct_subtype ct \<noteq> []" "list_all plain (ct_subtype ct)"
    using assms valid_token_plain valid_token_not_Nil by (auto simp: content_type_ok_def)
  have "ContentType_display ct = (ct_media_type ct @ CHR ''/'' # ct_subtype ct) @ params_text (ct_parameters ct)"
    by (simp add: ContentType_display_def params_text_def)
  with mt params_text_last [of "ct_parameters ct"] show ?thesis
    by (intro str_trim_plain_hd_last) (auto simp: last_append hd_append list_all_iff)
qed

lemma ContentType_parse_display:
  assumes "content_type_ok ct"
  shows "ContentType_parse (ContentType_display ct) = Ok ct"
proof -
  let ?m = "ct_media_type ct" and ?t = "ct_subtype ct" and ?ps = "ct_parameters ct"
  let ?h = "?m @ CHR ''/'' # ?t"
  have ok: "is_valid_token ?m" "is_valid_token ?t" "to_ascii_lowercase ?m = ?m" "to_ascii_lowercase ?t = ?t"
    "list_all param_ok ?ps" using assms by (simp_all add: content_type_ok_def)
  have mt: "?m \<noteq> []" "list_all plain ?m" "?t \<noteq> []" "list_all plain ?t"
    using ok(1,2) valid_token_plain valid_token_not_Nil by auto
  have d: "ContentType_display ct = ?h @ params_text ?ps" by (simp add: ContentType_display_def params_text_def)
  have h: "?h \<noteq> []" "plain (hd ?h)" "plain (last ?h)" using mt by (auto simp: list_all_iff hd_append)
  have th: "str_trim ?h = ?h" by (rule str_trim_plain_hd_last [OF h])
  note t = ContentType_display_trim [OF assms]
  have no: "CHR '';'' \<notin> set ?h" using valid_token_no [OF ok(1)] valid_token_no [OF ok(2)] by (simp add: is_token_char_def)
  have "split_at_semicolon (ContentType_display ct)
      = (?h, str_trim (trim_start_char CHR '';'' (params_text ?ps))) \<or>
      split_at_semicolon (ContentType_display ct) = (?h, str_trim (drop 1 (params_text ?ps)))"
  proof (cases ?ps)
    case Nil
    then show ?thesis using no th by (simp add: d split_at_semicolon_def find_char_None [THEN iffD2] trim_start_char_def)
  next
    case (Cons p ps)
    then obtain u where "params_text ?ps = CHR '';'' # u" using params_text_cases by (cases p) auto
    then show ?thesis using find_char_mid [OF no, of u] th by (simp add: d split_at_semicolon_def)
  qed
  moreover have "str_trim (drop 1 (params_text ?ps)) = str_trim (trim_start_char CHR '';'' (params_text ?ps))"
    by (cases ?ps) (auto simp: trim_start_char_def params_text_def ct_parameter_display_eq)
  ultimately have sp: "split_at_semicolon (ContentType_display ct)
      = (?h, str_trim (trim_start_char CHR '';'' (params_text ?ps)))" by simp
  have pm: "parse_media_type ?h = Ok (?m, ?t)"
    using valid_token_no [OF ok(1)] mt ok(1,2) find_char_mid [of "CHR ''/''" ?m ?t]
    unfolding parse_media_type_def th Let_def by (simp add: is_token_char_def)
  have pp: "parse_parameters (str_trim (trim_start_char CHR '';'' (params_text ?ps))) = Ok ?ps"
    using parse_parameters_text [OF ok(5), of "[]"] by (simp add: parse_parameters_def params_text_trim_twice [OF ok(5)])
  have "ContentType_display ct \<noteq> []" using mt(1) by (simp add: d)
  then show ?thesis
    unfolding ContentType_parse_def t Let_def sp using pm pp ok(3,4) by simp
qed

lemma content_type_roundtrip:
  "valid_utf8 s \<Longrightarrow> ContentType_parse s = Ok ct \<Longrightarrow> ContentType_parse (ContentType_display ct) = Ok ct"
  using ContentType_parse_ok ContentType_parse_display by blast

end
