(* ===== verification/Content_Disposition.thy ===== *)
theory Content_Disposition
  imports Str_Valid
begin

text \<open>
  \<^verbatim>\<open>src/content_disposition.rs\<close>: the \<open>Content-Disposition\<close> header with quoted parameters and
  the extended values of RFC 8187.
\<close>

datatype ContentDispositionError = CDEmpty | CDInvalidFormat | CDInvalidDispositionType | CDInvalidParameter
  | CDInvalidExtValue | CDDuplicateParameter string | CDTooManyParameters

fun ContentDispositionError_display :: "ContentDispositionError \<Rightarrow> string" where
  "ContentDispositionError_display CDEmpty = ''empty content-disposition''"
| "ContentDispositionError_display CDInvalidFormat = ''invalid content-disposition format''"
| "ContentDispositionError_display CDInvalidDispositionType = ''invalid disposition-type''"
| "ContentDispositionError_display CDInvalidParameter = ''invalid parameter''"
| "ContentDispositionError_display CDInvalidExtValue = ''invalid ext-value encoding''"
| "ContentDispositionError_display (CDDuplicateParameter name) = ''duplicate parameter: '' @ name"
| "ContentDispositionError_display CDTooManyParameters = ''too many content-disposition parameters''"

definition MAX_PARAMS :: nat where "MAX_PARAMS = 32"

datatype DispositionType = Inline | Attachment | FormData | Unknown string

definition DispositionType_from_str :: "string \<Rightarrow> (DispositionType, ContentDispositionError) result" where
  "DispositionType_from_str s =
     (let lower = to_ascii_lowercase s
      in if lower = ''inline'' then Ok Inline
         else if lower = ''attachment'' then Ok Attachment
         else if lower = ''form-data'' then Ok FormData
         else if is_valid_token s then Ok (Unknown lower)
         else Err CDInvalidDispositionType)"

fun DispositionType_display :: "DispositionType \<Rightarrow> string" where
  "DispositionType_display Inline = ''inline''"
| "DispositionType_display Attachment = ''attachment''"
| "DispositionType_display FormData = ''form-data''"
| "DispositionType_display (Unknown s) = s"

record ContentDisposition =
  cd_disposition_type :: DispositionType
  cd_filename :: "string option"
  cd_filename_ext :: "string option"
  cd_name :: "string option"
  cd_parameters :: "(string \<times> string) list"

section \<open>Values\<close>

fun split_params_loop :: "string list \<Rightarrow> bool \<Rightarrow> bool \<Rightarrow> string \<Rightarrow> string list" where
  "split_params_loop [] in_quotes escape_next current = (if current = [] then [] else [current])"
| "split_params_loop (c # cs) in_quotes escape_next current =
     (if escape_next then split_params_loop cs in_quotes False (current @ c)
      else if c = [BACKSLASH] \<and> in_quotes then split_params_loop cs in_quotes True (current @ c)
      else if c = [DQUOTE] then split_params_loop cs (\<not> in_quotes) False (current @ c)
      else if c = [CHR '';''] \<and> \<not> in_quotes then current # split_params_loop cs in_quotes False []
      else split_params_loop cs in_quotes False (current @ c))"

definition split_params :: "string \<Rightarrow> string list" where
  "split_params input = split_params_loop (char_slices input) False False []"

fun cd_quoted_loop :: "string list \<Rightarrow> string \<Rightarrow> (string, ContentDispositionError) result" where
  "cd_quoted_loop [] res = Ok res"
| "cd_quoted_loop (c # cs) res =
     (if c = [BACKSLASH] then
        (case cs of
           [] \<Rightarrow> Err CDInvalidParameter
         | nxt # cs' \<Rightarrow>
             if \<not> is_quoted_pair_char (code_point nxt) then Err CDInvalidParameter
             else cd_quoted_loop cs' (res @ nxt))
      else if \<not> is_qdtext_char (code_point c) then Err CDInvalidParameter
      else cd_quoted_loop cs (res @ c))"

definition cd_parse_quoted_string :: "string \<Rightarrow> (string, ContentDispositionError) result" where
  "cd_parse_quoted_string s = cd_quoted_loop (char_slices s) []"

definition parse_param_value :: "string \<Rightarrow> (string, ContentDispositionError) result" where
  "parse_param_value v =
     (let value = str_trim v
      in if starts_with value [DQUOTE] then
           (if ends_with value [DQUOTE] \<and> length value \<ge> 2
            then cd_parse_quoted_string (take (length value - 2) (drop 1 value))
            else Err CDInvalidParameter)
         else reject_if (\<not> is_valid_token value) CDInvalidParameter (Ok value))"

definition is_attr_char :: "char \<Rightarrow> bool" where
  "is_attr_char b \<longleftrightarrow> is_ascii_alphabetic b \<or> is_ascii_digit b
     \<or> b \<in> set [CHR ''!'', CHR ''#'', CHR ''$'', CHR ''&'', CHR ''+'', CHR ''-'', CHR ''.'',
                CHR ''^'', CHR ''_'', CHR 0x60, CHR ''|'', CHR ''~'']"

text \<open>The hexadecimal digits after a percent sign are read with \<open>u8::from_str_radix\<close>.\<close>

fun cd_percent_loop :: "string list \<Rightarrow> string \<Rightarrow> (string, ContentDispositionError) result" where
  "cd_percent_loop [] bytes = Ok bytes"
| "cd_percent_loop (c # cs) bytes =
     (if c = ''%'' then
        (let hex = concat (take 2 cs)
         in if length hex \<noteq> 2 then Err CDInvalidExtValue
            else (case from_str_radix 16 255 hex of
                    None \<Rightarrow> Err CDInvalidExtValue
                  | Some byte \<Rightarrow> cd_percent_loop (drop 2 cs) (bytes @ [char_of byte])))
      else if \<not> (case c of [b] \<Rightarrow> u8 b < 0x80 \<and> is_attr_char b | _ \<Rightarrow> False) then Err CDInvalidExtValue
      else cd_percent_loop cs (bytes @ c))"

definition cd_percent_decode :: "string \<Rightarrow> (string, ContentDispositionError) result" where
  "cd_percent_decode s =
     and_then (cd_percent_loop (char_slices s) []) (\<lambda>bytes.
       reject_if (\<not> valid_utf8 bytes) CDInvalidExtValue (Ok bytes))"

definition parse_ext_value :: "string \<Rightarrow> (string, ContentDispositionError) result" where
  "parse_ext_value v =
     (let value = str_trim v
      in and_then (ok_or (find_char CHR 0x27 value) CDInvalidExtValue) (\<lambda>first_quote.
           let charset = take first_quote value; rest = drop (first_quote + 1) value
           in and_then (ok_or (find_char CHR 0x27 rest) CDInvalidExtValue) (\<lambda>second_quote.
                let encoded_value = drop (second_quote + 1) rest
                in reject_if (\<not> eq_ignore_ascii_case charset ''UTF-8'') CDInvalidExtValue
                     (cd_percent_decode encoded_value))))"

definition encode_ext_byte :: "char \<Rightarrow> string" where
  "encode_ext_byte b = (if is_attr_char b then [b] else ''%'' @ hex2_upper (u8 b))"

definition encode_ext_value :: "string \<Rightarrow> string" where
  "encode_ext_value s = concat (map encode_ext_byte s)"

section \<open>The header\<close>

definition cd_set_param :: "ContentDisposition \<Rightarrow> string \<Rightarrow> string \<Rightarrow> (ContentDisposition, ContentDispositionError) result" where
  "cd_set_param cd param_name param_value =
     (if param_name = ''filename'' then and_then (parse_param_value param_value) (\<lambda>v. Ok (cd\<lparr>cd_filename := Some v\<rparr>))
      else if param_name = ''filename*'' then and_then (parse_ext_value param_value) (\<lambda>v. Ok (cd\<lparr>cd_filename_ext := Some v\<rparr>))
      else if param_name = ''name'' then and_then (parse_param_value param_value) (\<lambda>v. Ok (cd\<lparr>cd_name := Some v\<rparr>))
      else and_then (parse_param_value param_value) (\<lambda>v. Ok (cd\<lparr>cd_parameters := cd_parameters cd @ [(param_name, v)]\<rparr>)))"

fun cd_params_loop ::
    "string list \<Rightarrow> string list \<Rightarrow> ContentDisposition \<Rightarrow> (ContentDisposition, ContentDispositionError) result" where
  "cd_params_loop [] seen_params cd = Ok cd"
| "cd_params_loop (p # ps) seen_params cd =
     (let part = str_trim p
      in if part = [] then cd_params_loop ps seen_params cd
         else case find_char CHR ''='' part of
                None \<Rightarrow> cd_params_loop ps seen_params cd
              | Some eq_pos \<Rightarrow>
                  (let param_name = to_ascii_lowercase (str_trim (take eq_pos part));
                       param_value = str_trim (drop (eq_pos + 1) part)
                   in reject_if (param_name \<in> set seen_params) (CDDuplicateParameter param_name)
                        (reject_if (length seen_params \<ge> MAX_PARAMS) CDTooManyParameters
                          (and_then (cd_set_param cd param_name param_value)
                             (cd_params_loop ps (seen_params @ [param_name]))))))"

definition ContentDisposition_new :: "DispositionType \<Rightarrow> ContentDisposition" where
  "ContentDisposition_new disposition_type =
     \<lparr>cd_disposition_type = disposition_type, cd_filename = None, cd_filename_ext = None, cd_name = None,
      cd_parameters = []\<rparr>"

definition ContentDisposition_parse :: "string \<Rightarrow> (ContentDisposition, ContentDispositionError) result" where
  "ContentDisposition_parse s =
     (let input = str_trim s
      in reject_if (input = []) CDEmpty
           (let parts = split_params input
            in case parts of
                 [] \<Rightarrow> Err CDInvalidFormat
               | type_str # params \<Rightarrow>
                   and_then (DispositionType_from_str (str_trim type_str)) (\<lambda>disposition_type.
                     cd_params_loop params [] (ContentDisposition_new disposition_type))))"

definition cd_effective_filename :: "ContentDisposition \<Rightarrow> string option" where
  "cd_effective_filename cd = (case cd_filename_ext cd of Some f \<Rightarrow> Some f | None \<Rightarrow> cd_filename cd)"

definition cd_parameter :: "ContentDisposition \<Rightarrow> string \<Rightarrow> string option" where
  "cd_parameter cd name = map_of (cd_parameters cd) (to_ascii_lowercase name)"

definition cd_is_inline :: "ContentDisposition \<Rightarrow> bool" where
  "cd_is_inline cd \<longleftrightarrow> cd_disposition_type cd = Inline"

definition cd_is_attachment :: "ContentDisposition \<Rightarrow> bool" where
  "cd_is_attachment cd \<longleftrightarrow> cd_disposition_type cd = Attachment"

definition cd_is_form_data :: "ContentDisposition \<Rightarrow> bool" where
  "cd_is_form_data cd \<longleftrightarrow> cd_disposition_type cd = FormData"

definition cd_with_filename :: "ContentDisposition \<Rightarrow> string \<Rightarrow> ContentDisposition" where
  "cd_with_filename cd filename = cd\<lparr>cd_filename := Some filename\<rparr>"

definition cd_with_filename_ext :: "ContentDisposition \<Rightarrow> string \<Rightarrow> ContentDisposition" where
  "cd_with_filename_ext cd filename = cd\<lparr>cd_filename_ext := Some filename\<rparr>"

definition cd_with_name :: "ContentDisposition \<Rightarrow> string \<Rightarrow> ContentDisposition" where
  "cd_with_name cd name = cd\<lparr>cd_name := Some name\<rparr>"

definition quoted_param :: "string \<Rightarrow> string \<Rightarrow> string" where
  "quoted_param name v = ''; '' @ name @ ''='' @ [DQUOTE] @ escape_quotes v @ [DQUOTE]"

definition ContentDisposition_display :: "ContentDisposition \<Rightarrow> string" where
  "ContentDisposition_display cd =
     DispositionType_display (cd_disposition_type cd)
     @ (case cd_name cd of Some name \<Rightarrow> quoted_param ''name'' name | None \<Rightarrow> [])
     @ (case cd_filename cd of Some filename \<Rightarrow> quoted_param ''filename'' filename | None \<Rightarrow> [])
     @ (case cd_filename_ext cd of
          Some filename_ext \<Rightarrow> ''; filename*=UTF-8'' @ [CHR 0x27, CHR 0x27] @ encode_ext_value filename_ext
        | None \<Rightarrow> [])
     @ concat (map (\<lambda>(name, v). quoted_param name v) (cd_parameters cd))"

section \<open>Quoted values\<close>

text \<open>
  Inside quotes the splitter copies an escaped text, and the value parser reads it back; both
  follow the escapes of \<open>escape_quotes\<close>.
\<close>

lemma split_params_escape:
  assumes "\<forall>c \<in> set cl. good_slice c"
  shows "split_params_loop (concat (map escape_slices cl) @ cs) True False cur
           = split_params_loop cs True False (cur @ concat (map escape_char cl))"
  using assms
proof (induction cl arbitrary: cur)
  case (Cons c cl)
  then have "split_params_loop (escape_slices c @ xs) True False cur = split_params_loop xs True False (cur @ escape_char c)"
    for xs by (auto simp: escape_slices_def escape_char_def)
  with Cons show ?case by simp
qed simp

lemma cd_quoted_escape:
  assumes "\<forall>c \<in> set cl. good_slice c"
  shows "cd_quoted_loop (concat (map escape_slices cl)) res = Ok (res @ concat (map sanitize_char cl))"
  using assms
proof (induction cl arbitrary: res)
  case (Cons c cl)
  have g: "good_slice c" using Cons.prems by simp
  have q: "is_quoted_pair_char (code_point c) \<Longrightarrow> c \<noteq> [DQUOTE] \<Longrightarrow> c \<noteq> [BACKSLASH] \<Longrightarrow> is_qdtext_char (code_point c)"
    using good_slice_special [OF g] by (auto simp: is_quoted_pair_char_def is_qdtext_char_def)
  have "cd_quoted_loop (escape_slices c @ xs) res = cd_quoted_loop xs (res @ sanitize_char c)" for xs
    using q by (cases "c = [DQUOTE] \<or> c = [BACKSLASH]")
      (auto simp: escape_slices_def sanitize_char_def is_quoted_pair_char_def is_qdtext_char_def)
  with Cons show ?case by simp
qed simp

lemma parse_param_value_quoted:
  assumes "valid_utf8 v"
  shows "parse_param_value ([DQUOTE] @ escape_quotes v @ [DQUOTE]) = Ok (sanitize v)"
proof -
  let ?q = "[DQUOTE] @ escape_quotes v @ [DQUOTE]"
  have t: "str_trim ?q = ?q"
    by (rule str_trim_plain_hd_last) (simp_all add: plain_def is_whitespace_cp_def)
  have g: "\<forall>c \<in> set (char_slices v). good_slice c" using assms by (simp add: valid_utf8_iff)
  have "char_slices (escape_quotes v) = concat (map escape_slices (char_slices v))"
    using char_slices_escape [OF g, of "[]"] by (simp add: escape_quotes_def)
  then have "cd_parse_quoted_string (escape_quotes v) = Ok (sanitize v)"
    using cd_quoted_escape [OF g, of "[]"] by (simp add: cd_parse_quoted_string_def sanitize_def)
  then show ?thesis
    unfolding parse_param_value_def t Let_def by (simp add: starts_with_def ends_with_def)
qed

section \<open>Extended values\<close>

lemma hex_upper_digit_props:
  assumes "d < 16"
  shows "to_digit 16 (hex_upper_digit d) = Some d" "u8 (hex_upper_digit d) < 0x80" "hex_upper_digit d \<noteq> CHR ''+''"
    "hex_upper_digit d \<noteq> DQUOTE \<and> hex_upper_digit d \<noteq> CHR '';'' \<and> plain (hex_upper_digit d)"
proof -
  have "u8 (hex_upper_digit d) = (if d < 10 then 0x30 + d else 0x37 + d)"
    using assms by (auto simp: hex_upper_digit_def)
  then show "to_digit 16 (hex_upper_digit d) = Some d" "u8 (hex_upper_digit d) < 0x80"
    "hex_upper_digit d \<noteq> CHR ''+''"
    "hex_upper_digit d \<noteq> DQUOTE \<and> hex_upper_digit d \<noteq> CHR '';'' \<and> plain (hex_upper_digit d)"
    using assms by (auto simp: to_digit_def is_ascii_digit_def plain_def is_whitespace_cp_def split: if_splits)
qed

lemma from_str_radix_hex2: "n < 256 \<Longrightarrow> from_str_radix 16 255 (hex2_upper n) = Some n"
proof -
  assume n: "n < 256"
  then have "n div 16 < 16" "n mod 16 < 16" by auto
  then show ?thesis
    using hex_upper_digit_props [of "n div 16"] hex_upper_digit_props [of "n mod 16"] n
    by (simp add: from_str_radix_def hex2_upper_def)
qed

lemma attr_char_ascii: "is_attr_char b \<Longrightarrow> u8 b < 0x80 \<and> b \<noteq> CHR ''%'' \<and> b \<noteq> DQUOTE \<and> b \<noteq> CHR '';'' \<and> b \<noteq> CHR 0x27 \<and> plain b"
  by (auto simp: is_attr_char_def is_ascii_alphabetic_def is_ascii_digit_def plain_def is_whitespace_cp_def)

lemma encode_ext_byte_ascii:
  assumes "x \<in> set (encode_ext_byte b)"
  shows "u8 x < 0x80 \<and> x \<noteq> DQUOTE \<and> x \<noteq> CHR '';'' \<and> plain x"
proof -
  have "u8 b div 16 < 16" "u8 b mod 16 < 16" by (simp_all add: less_mult_imp_div_less)
  then show ?thesis
    using assms attr_char_ascii [of b] hex_upper_digit_props(2,4)
    by (auto simp: encode_ext_byte_def hex2_upper_def plain_def is_whitespace_cp_def split: if_splits)
qed

lemma encode_ext_value_ascii: "list_all (\<lambda>c. u8 c < 0x80 \<and> c \<noteq> DQUOTE \<and> c \<noteq> CHR '';'' \<and> plain c) (encode_ext_value s)"
  unfolding list_all_iff encode_ext_value_def using encode_ext_byte_ascii by fastforce

lemma cd_percent_loop_encode:
  "cd_percent_loop (map (\<lambda>c. [c]) (encode_ext_value s)) acc = Ok (acc @ s)"
proof (induction s arbitrary: acc)
  case (Cons b s)
  show ?case
  proof (cases "is_attr_char b")
    case True
    with Cons attr_char_ascii [of b] show ?thesis by (simp add: encode_ext_value_def encode_ext_byte_def)
  next
    case False
    have "concat (take 2 (map (\<lambda>c. [c]) (hex2_upper (u8 b)) @ xs)) = hex2_upper (u8 b)" for xs :: "string list"
      by (simp add: hex2_upper_def)
    moreover have "length (hex2_upper (u8 b)) = 2" by (simp add: hex2_upper_def)
    ultimately show ?thesis using Cons False from_str_radix_hex2 [of "u8 b"]
      by (simp add: encode_ext_value_def encode_ext_byte_def Let_def hex2_upper_def)
  qed
qed (simp add: encode_ext_value_def)

lemma cd_percent_decode_encode: "valid_utf8 s \<Longrightarrow> cd_percent_decode (encode_ext_value s) = Ok s"
proof -
  assume "valid_utf8 s"
  moreover have "char_slices (encode_ext_value s) = map (\<lambda>c. [c]) (encode_ext_value s)"
    using encode_ext_value_ascii [of s] by (intro char_slices_ascii) (auto simp: list_all_iff)
  ultimately show ?thesis by (simp add: cd_percent_decode_def cd_percent_loop_encode)
qed

lemma parse_ext_value_encode:
  assumes "valid_utf8 s"
  shows "parse_ext_value (''UTF-8'' @ [CHR 0x27, CHR 0x27] @ encode_ext_value s) = Ok s"
proof -
  let ?v = "''UTF-8'' @ [CHR 0x27, CHR 0x27] @ encode_ext_value s"
  have t: "str_trim ?v = ?v"
    using encode_ext_value_ascii [of s]
    by (intro str_trim_plain) (auto simp: list_all_iff plain_def is_whitespace_cp_def)
  have "find_char CHR 0x27 ?v = Some 5" by (simp add: find_char_def)
  then show ?thesis
    unfolding parse_ext_value_def t Let_def
    by (simp add: find_char_def cd_percent_decode_encode [OF assms])
qed

section \<open>The printed form\<close>

text \<open>Texts that the splitter copies whole, outside quotes.\<close>

definition split_safe :: "string \<Rightarrow> bool" where
  "split_safe p \<longleftrightarrow> (\<forall>t cur. split_params_loop (char_slices (p @ t)) False False cur
     = split_params_loop (char_slices t) False False (cur @ p))"

lemma split_safe_append: "split_safe p \<Longrightarrow> split_safe q \<Longrightarrow> split_safe (p @ q)"
  by (simp add: split_safe_def)

lemma split_safe_plain:
  assumes "list_all (\<lambda>c. u8 c < 0x80 \<and> c \<noteq> DQUOTE \<and> c \<noteq> CHR '';'') a"
  shows "split_safe a"
proof -
  have "split_params_loop (char_slices (a @ t)) False False cur
     = split_params_loop (char_slices t) False False (cur @ a)" for t cur
    using assms by (induction a arbitrary: cur) simp_all
  then show ?thesis by (simp add: split_safe_def)
qed

lemma split_safe_quoted:
  assumes "valid_utf8 v"
  shows "split_safe ([DQUOTE] @ escape_quotes v @ [DQUOTE])"
proof -
  have g: "\<forall>c \<in> set (char_slices v). good_slice c" using assms by (simp add: valid_utf8_iff)
  show ?thesis
    unfolding split_safe_def escape_quotes_def
    using split_params_escape [OF g] char_slices_escape [OF g] by simp
qed

lemma split_params_pieces:
  assumes "split_safe d" "list_all (\<lambda>p. split_safe p \<and> p \<noteq> []) ps" "d \<noteq> []"
  shows "split_params (d @ concat (map (\<lambda>p. CHR '';'' # SP # p) ps)) = d # map (\<lambda>p. SP # p) ps"
proof -
  have "split_params_loop (char_slices (concat (map (\<lambda>p. CHR '';'' # SP # p) ps))) False False cur
          = cur # map (\<lambda>p. SP # p) ps" if "cur \<noteq> []" for cur
    using assms(2) that
  proof (induction ps arbitrary: cur)
    case (Cons p ps)
    then have "split_params_loop (char_slices (p @ concat (map (\<lambda>p. CHR '';'' # SP # p) ps))) False False [SP]
        = (SP # p) # map (\<lambda>p. SP # p) ps"
      by (simp add: split_safe_def)
    then show ?case by simp
  qed simp
  with assms(1,3) show ?thesis by (simp add: split_params_def split_safe_def)
qed

text \<open>One parameter of the loop: a lower-case name, an equals sign and a value.\<close>

lemma cd_params_step:
  assumes n: "is_valid_token n" "to_ascii_lowercase n = n" and v: "v \<noteq> []" "plain (hd v)" "plain (last v)"
    and seen: "n \<notin> set seen" "length seen < MAX_PARAMS"
  shows "cd_params_loop ((SP # n @ CHR ''='' # v) # ps) seen cd
           = and_then (cd_set_param cd n v) (cd_params_loop ps (seen @ [n]))"
proof -
  have np: "n \<noteq> []" "list_all plain n" using n valid_token_plain valid_token_not_Nil by auto
  let ?p = "n @ CHR ''='' # v"
  have t: "str_trim (SP # ?p) = ?p"
    using str_trim_plain_hd_last [of ?p] np v by (simp add: list_all_iff hd_append)
  have f: "find_char CHR ''='' ?p = Some (length n)"
    using valid_token_no [OF n(1)] by (intro find_char_mid) (simp add: is_token_char_def)
  have vt: "str_trim v = v" by (rule str_trim_plain_hd_last [OF v])
  show ?thesis
    unfolding cd_params_loop.simps t Let_def f option.case
    using n(1) np(1) seen by (simp add: n(2) vt)
qed

definition known_type :: "DispositionType \<Rightarrow> bool" where
  "known_type t \<longleftrightarrow> t = Inline \<or> t = Attachment \<or> t = FormData"

definition cd_pieces :: "ContentDisposition \<Rightarrow> (string \<times> string) list" where
  "cd_pieces cd =
     (case cd_name cd of Some v \<Rightarrow> [(''name'', [DQUOTE] @ escape_quotes v @ [DQUOTE])] | None \<Rightarrow> [])
     @ (case cd_filename cd of Some v \<Rightarrow> [(''filename'', [DQUOTE] @ escape_quotes v @ [DQUOTE])] | None \<Rightarrow> [])
     @ (case cd_filename_ext cd of
          Some v \<Rightarrow> [(''filename*'', ''UTF-8'' @ [CHR 0x27, CHR 0x27] @ encode_ext_value v)] | None \<Rightarrow> [])"

definition cd_ok :: "ContentDisposition \<Rightarrow> bool" where
  "cd_ok cd \<longleftrightarrow> known_type (cd_disposition_type cd) \<and> cd_parameters cd = []
     \<and> opt_all valid_utf8 (cd_name cd) \<and> opt_all valid_utf8 (cd_filename cd)
     \<and> opt_all valid_utf8 (cd_filename_ext cd)"

lemma cd_display_pieces:
  "cd_parameters cd = [] \<Longrightarrow> ContentDisposition_display cd
     = DispositionType_display (cd_disposition_type cd)
       @ concat (map (\<lambda>p. CHR '';'' # SP # p) (map (\<lambda>(n, v). n @ CHR ''='' # v) (cd_pieces cd)))"
  by (simp add: ContentDisposition_display_def cd_pieces_def quoted_param_def split: option.splits)

lemma ext_value_ends:
  "plain (last (''UTF-8'' @ [CHR 0x27, CHR 0x27] @ encode_ext_value v))"
  using encode_ext_value_ascii [of v] by (simp add: list_all_iff plain_def is_whitespace_cp_def)

lemma cd_piece_safe:
  assumes "cd_ok cd" "(n, v) \<in> set (cd_pieces cd)"
  shows "split_safe (n @ CHR ''='' # v)" "v \<noteq> []" "plain (hd v)" "plain (last v)"
proof -
  have a: "split_safe ''name=''" "split_safe ''filename=''" "split_safe ''filename*=UTF-8''"
    by (simp_all add: split_safe_plain)
  have e: "split_safe ([CHR 0x27, CHR 0x27] @ encode_ext_value x)" for x
    using encode_ext_value_ascii [of x] by (intro split_safe_plain) (auto simp: list_all_iff)
  show "split_safe (n @ CHR ''='' # v)"
    using assms split_safe_append [OF a(1) split_safe_quoted] split_safe_append [OF a(2) split_safe_quoted]
      split_safe_append [OF a(3) e]
    by (cases "cd_name cd"; cases "cd_filename cd"; cases "cd_filename_ext cd") (auto simp: cd_pieces_def cd_ok_def)
  show "v \<noteq> []" "plain (hd v)" "plain (last v)"
    using assms(2) ext_value_ends
    by (auto simp: cd_pieces_def plain_def is_whitespace_cp_def split: option.splits if_splits)
qed

lemma cd_params_loop_pieces:
  assumes "cd_ok cd"
  shows "cd_params_loop (map (\<lambda>(n, v). SP # n @ CHR ''='' # v) (cd_pieces cd)) []
           (ContentDisposition_new (cd_disposition_type cd))
         = Ok (cd\<lparr>cd_name := map_option sanitize (cd_name cd), cd_filename := map_option sanitize (cd_filename cd)\<rparr>)"
proof -
  note v = cd_piece_safe(2,3,4) [OF assms]
  have nt: "is_valid_token ''name''" "is_valid_token ''filename''" "is_valid_token ''filename*''"
    "to_ascii_lowercase ''name'' = ''name''" "to_ascii_lowercase ''filename'' = ''filename''"
    "to_ascii_lowercase ''filename*'' = ''filename*''"
    by (simp_all add: is_valid_token_def is_token_char_def to_ascii_lowercase_def ascii_lower_def)
  have q: "plain DQUOTE" by (simp add: plain_def is_whitespace_cp_def)
  have u: "plain CHR ''U''" by (simp add: plain_def is_whitespace_cp_def)
  have e: "plain (last (CHR 0x27 # CHR 0x27 # encode_ext_value x))" for x
    using ext_value_ends [of x] by simp
  note step = cd_params_step [OF nt(1,4)] cd_params_step [OF nt(2,5)] cd_params_step [OF nt(3,6)]
  note pv = parse_param_value_quoted parse_ext_value_encode
  show ?thesis
    using assms
    by (cases "cd_name cd"; cases "cd_filename cd"; cases "cd_filename_ext cd")
       (simp_all add: cd_pieces_def cd_ok_def step [simplified] cd_set_param_def pv [simplified] q u e [simplified]
          MAX_PARAMS_def ContentDisposition_new_def)
qed

lemma cd_type_display:
  assumes "cd_ok cd"
  defines "d \<equiv> DispositionType_display (cd_disposition_type cd)"
  shows "d \<noteq> []" "list_all plain d" "split_safe d" "DispositionType_from_str d = Ok (cd_disposition_type cd)"
  using assms
  by (auto simp: cd_ok_def known_type_def plain_def is_whitespace_cp_def split_safe_plain DispositionType_from_str_def
        to_ascii_lowercase_def ascii_lower_def)

lemma cd_pieces_safe:
  assumes "cd_ok cd"
  shows "list_all (\<lambda>p. split_safe p \<and> p \<noteq> [] \<and> plain (last p)) (map (\<lambda>(n, v). n @ CHR ''='' # v) (cd_pieces cd))"
  using cd_piece_safe [OF assms] by (auto simp: list_all_iff)

lemma ContentDisposition_display_trim:
  assumes "cd_ok cd"
  shows "str_trim (ContentDisposition_display cd) = ContentDisposition_display cd"
proof -
  let ?d = "DispositionType_display (cd_disposition_type cd)"
  let ?ps = "map (\<lambda>(n, v). n @ CHR ''='' # v) (cd_pieces cd)"
  note d = cd_type_display [OF assms]
  have x: "ContentDisposition_display cd = ?d @ concat (map (\<lambda>p. CHR '';'' # SP # p) ?ps)"
    using assms by (simp add: cd_display_pieces cd_ok_def)
  have l: "plain (last (?d @ concat (map (\<lambda>p. CHR '';'' # SP # p) ?ps)))"
  proof (cases ?ps rule: rev_cases)
    case Nil
    then show ?thesis using d(1,2) by (simp add: list_all_iff)
  next
    case (snoc qs q)
    then have "plain (last q)" "q \<noteq> []" using cd_pieces_safe [OF assms] by (auto simp: list_all_iff)
    then show ?thesis using snoc by simp
  qed
  show ?thesis
    unfolding x using l d(1,2) by (intro str_trim_plain_hd_last) (auto simp: list_all_iff hd_append)
qed

lemma ContentDisposition_parse_display:
  assumes "cd_ok cd"
  shows "ContentDisposition_parse (ContentDisposition_display cd)
         = Ok (cd\<lparr>cd_name := map_option sanitize (cd_name cd), cd_filename := map_option sanitize (cd_filename cd)\<rparr>)"
proof -
  let ?d = "DispositionType_display (cd_disposition_type cd)"
  let ?ps = "map (\<lambda>(n, v). n @ CHR ''='' # v) (cd_pieces cd)"
  note d = cd_type_display [OF assms]
  have x: "ContentDisposition_display cd = ?d @ concat (map (\<lambda>p. CHR '';'' # SP # p) ?ps)"
    using assms by (simp add: cd_display_pieces cd_ok_def)
  have p: "list_all (\<lambda>p. split_safe p \<and> p \<noteq> []) ?ps" using cd_pieces_safe [OF assms] by (auto simp: list_all_iff)
  have s: "split_params (ContentDisposition_display cd) = ?d # map (\<lambda>p. SP # p) ?ps"
    unfolding x by (rule split_params_pieces [OF d(3) p d(1)])
  have m: "map (\<lambda>p. SP # p) ?ps = map (\<lambda>(n, v). SP # n @ CHR ''='' # v) (cd_pieces cd)" by auto
  have "ContentDisposition_display cd \<noteq> []" using d(1) x by simp
  then show ?thesis
    unfolding ContentDisposition_parse_def ContentDisposition_display_trim [OF assms] Let_def s m
    using d(4) str_trim_plain [OF d(2)] cd_params_loop_pieces [OF assms] by simp
qed

end
