(* ===== verification/Multipart.thy ===== *)
theory Multipart
  imports Content_Type Content_Disposition
begin

text \<open>
  \<^verbatim>\<open>src/multipart.rs\<close>: the incremental parser for \<open>multipart/form-data\<close> bodies and the builder.
  An index into the buffer past its end is a panic, as in Rust. One round of the parser's loop is
  \<open>mp_step\<close>: it returns or continues.
\<close>

datatype MultipartError = MPEmpty | MPInvalidBoundary | MPInvalidHeader | MPInvalidPart | MPIncomplete
  | MPMissingContentDisposition | MPInvalidContentDisposition | MPMissingName | MPBufferOverflow nat nat

fun MultipartError_display :: "MultipartError \<Rightarrow> string" where
  "MultipartError_display MPEmpty = ''empty multipart body''"
| "MultipartError_display MPInvalidBoundary = ''invalid boundary''"
| "MultipartError_display MPInvalidHeader = ''invalid part header''"
| "MultipartError_display MPInvalidPart = ''invalid part''"
| "MultipartError_display MPIncomplete = ''incomplete multipart data''"
| "MultipartError_display MPMissingContentDisposition = ''missing Content-Disposition header (RFC 7578 Section 4.2)''"
| "MultipartError_display MPInvalidContentDisposition =
     ''Content-Disposition type must be form-data (RFC 7578 Section 4.2)''"
| "MultipartError_display MPMissingName =
     ''Content-Disposition must contain name parameter (RFC 7578 Section 4.2)''"
| "MultipartError_display (MPBufferOverflow sz limit) =
     ''buffer overflow: size='' @ nat_to_dec sz @ '', limit='' @ nat_to_dec limit"

section \<open>Parts\<close>

record Part =
  pt_content_disposition :: "ContentDisposition option"
  pt_content_type :: "ContentType option"
  pt_headers :: "(string \<times> string) list"
  pt_body :: string

definition result_ok :: "('a, 'e) result \<Rightarrow> 'a option" where
  "result_ok r = (case r of Ok x \<Rightarrow> Some x | _ \<Rightarrow> None)"

definition Part_new :: "string \<Rightarrow> Part" where
  "Part_new name =
     \<lparr>pt_content_disposition = Some (cd_with_name (ContentDisposition_new FormData) name),
      pt_content_type = None, pt_headers = [], pt_body = []\<rparr>"

definition Part_file :: "string \<Rightarrow> string \<Rightarrow> string \<Rightarrow> Part" where
  "Part_file name filename content_type =
     \<lparr>pt_content_disposition = Some (cd_with_filename (cd_with_name (ContentDisposition_new FormData) name) filename),
      pt_content_type = result_ok (ContentType_parse content_type), pt_headers = [], pt_body = []\<rparr>"

definition pt_with_body :: "Part \<Rightarrow> string \<Rightarrow> Part" where
  "pt_with_body p body = p\<lparr>pt_body := body\<rparr>"

definition pt_with_content_type :: "Part \<Rightarrow> ContentType \<Rightarrow> Part" where
  "pt_with_content_type p content_type = p\<lparr>pt_content_type := Some content_type\<rparr>"

definition pt_name :: "Part \<Rightarrow> string option" where
  "pt_name p = Option.bind (pt_content_disposition p) cd_name"

definition pt_filename :: "Part \<Rightarrow> string option" where
  "pt_filename p = Option.bind (pt_content_disposition p) cd_effective_filename"

definition pt_body_str :: "Part \<Rightarrow> string option" where
  "pt_body_str p = (if valid_utf8 (pt_body p) then Some (pt_body p) else None)"

definition pt_is_file :: "Part \<Rightarrow> bool" where
  "pt_is_file p \<longleftrightarrow> pt_filename p \<noteq> None"

section \<open>Searching the buffer\<close>

function find_bytes_loop :: "string \<Rightarrow> string \<Rightarrow> char \<Rightarrow> nat \<Rightarrow> nat \<Rightarrow> nat option" where
  "find_bytes_loop haystack needle first max_start i =
     (if i \<le> max_start then
        (case position (\<lambda>b. b = first) (take (max_start + 1 - i) (drop i haystack)) of
           Some offset \<Rightarrow>
             if take (length needle) (drop (i + offset) haystack) = needle then Some (i + offset)
             else find_bytes_loop haystack needle first max_start (i + offset + 1)
         | None \<Rightarrow> None)
      else None)"
  by pat_completeness auto
termination by (relation "measure (\<lambda>(h, n, f, m, i). Suc m - i)") auto

declare find_bytes_loop.simps [simp del]

definition find_bytes :: "string \<Rightarrow> string \<Rightarrow> nat option" where
  "find_bytes haystack needle =
     (if needle = [] then Some 0
      else if length needle > length haystack then None
      else find_bytes_loop haystack needle (hd needle) (length haystack - length needle) 0)"

section \<open>The parser\<close>

datatype ParserState = Initial | InPart | AfterInnerDelimiter | Finished

record MultipartParser =
  mp_first_delimiter :: string
  mp_inner_delimiter :: string
  mp_buffer :: string
  mp_pos :: nat
  mp_state :: ParserState
  mp_finished :: bool
  mp_max_buffer_size :: nat
  mp_boundary_scan_offset :: nat

definition is_valid_boundary_char :: "char \<Rightarrow> bool" where
  "is_valid_boundary_char b \<longleftrightarrow> is_ascii_alphabetic b \<or> is_ascii_digit b
     \<or> b \<in> set [CHR 0x27, CHR ''('', CHR '')'', CHR ''+'', CHR ''_'', CHR '','', CHR ''-'', CHR ''.'',
                CHR ''/'', CHR '':'', CHR ''='', CHR ''?'', SP]"

definition is_valid_boundary :: "string \<Rightarrow> bool" where
  "is_valid_boundary boundary \<longleftrightarrow>
     (if boundary = [] \<or> length boundary > 70 then False
      else if \<not> list_all is_valid_boundary_char boundary then False
      else last boundary \<noteq> SP)"

definition mp_new :: "string \<Rightarrow> MultipartParser" where
  "mp_new boundary =
     \<lparr>mp_first_delimiter = ''--'' @ boundary, mp_inner_delimiter = CRLF @ ''--'' @ boundary,
      mp_buffer = [], mp_pos = 0, mp_state = Initial, mp_finished = False,
      mp_max_buffer_size = 10 * 1024 * 1024, mp_boundary_scan_offset = 0\<rparr>"

definition mp_with_max_buffer_size :: "MultipartParser \<Rightarrow> nat \<Rightarrow> MultipartParser" where
  "mp_with_max_buffer_size p n = p\<lparr>mp_max_buffer_size := n\<rparr>"

definition mp_try_new :: "string \<Rightarrow> (MultipartParser, MultipartError) result" where
  "mp_try_new boundary = reject_if (\<not> is_valid_boundary boundary) MPInvalidBoundary (Ok (mp_new boundary))"

definition mp_feed :: "string \<Rightarrow> MultipartParser \<Rightarrow> (unit, MultipartError) result \<times> MultipartParser" where
  "mp_feed data p =
     (if mp_pos p > length (mp_buffer p) then (Panic, p)
      else let effective = length (mp_buffer p) - mp_pos p;
               new_size = min (effective + length data) usize_max
           in if new_size > mp_max_buffer_size p then (Err (MPBufferOverflow new_size (mp_max_buffer_size p)), p)
              else (Ok (), p\<lparr>mp_buffer := mp_buffer p @ data\<rparr>))"

text \<open>Skipping transport padding from \<open>i\<close>.\<close>

definition is_padding :: "char \<Rightarrow> bool" where
  "is_padding b \<longleftrightarrow> b = SP \<or> b = HTAB"

definition skip_padding :: "string \<Rightarrow> nat \<Rightarrow> nat" where
  "skip_padding buffer i = i + length (takeWhile is_padding (drop i buffer))"

type_synonym part_result = "(Part option, MultipartError) result"

definition mp_initial :: "MultipartParser \<Rightarrow> part_result option \<times> MultipartParser" where
  "mp_initial p =
     (let buffer = mp_buffer p; start = max (mp_pos p) (mp_boundary_scan_offset p)
      in if start > length buffer then (Some Panic, p)
         else case find_bytes (drop start buffer) (mp_first_delimiter p) of
                Some rel_pos \<Rightarrow>
                  (let after_delim = start + rel_pos + length (mp_first_delimiter p)
                   in if length buffer \<ge> after_delim + 2 then
                        (let padded = skip_padding buffer after_delim
                         in if length buffer < padded + 2
                            then (Some (Err MPIncomplete),
                                  p\<lparr>mp_boundary_scan_offset := min (start + rel_pos) (length buffer)\<rparr>)
                            else let head = take 2 (drop padded buffer)
                                 in if head = CRLF
                                    then (None, p\<lparr>mp_pos := padded + 2, mp_boundary_scan_offset := padded + 2,
                                                  mp_state := InPart\<rparr>)
                                    else if head = ''--''
                                    then (Some (Ok None), p\<lparr>mp_state := Finished, mp_finished := True\<rparr>)
                                    else (Some (Err MPInvalidPart), p))
                      else (Some (Err MPIncomplete),
                            p\<lparr>mp_boundary_scan_offset := min (start + rel_pos) (length buffer)\<rparr>))
              | None \<Rightarrow>
                  (let overlap = length (mp_first_delimiter p) - 1
                   in (Some (Err MPIncomplete), p\<lparr>mp_boundary_scan_offset := length buffer - overlap\<rparr>)))"

fun part_headers_loop ::
    "string list \<Rightarrow> ContentDisposition option \<Rightarrow> ContentType option \<Rightarrow> (string \<times> string) list
     \<Rightarrow> ContentDisposition option \<times> ContentType option \<times> (string \<times> string) list" where
  "part_headers_loop [] content_disposition content_type headers = (content_disposition, content_type, headers)"
| "part_headers_loop (line # ls) content_disposition content_type headers =
     (if line = [] then part_headers_loop ls content_disposition content_type headers
      else case split_once CHR '':'' line of
             None \<Rightarrow> part_headers_loop ls content_disposition content_type headers
           | Some (n, v) \<Rightarrow>
               (let name = str_trim n; value = str_trim v
                in if eq_ignore_ascii_case name ''Content-Disposition''
                   then part_headers_loop ls (result_ok (ContentDisposition_parse value)) content_type headers
                   else if eq_ignore_ascii_case name ''Content-Type''
                   then part_headers_loop ls content_disposition (result_ok (ContentType_parse value)) headers
                   else part_headers_loop ls content_disposition content_type (headers @ [(name, value)])))"

text \<open>The header block of a part: its three kinds of fields, and the checks of RFC 7578.\<close>

definition parse_part_headers ::
    "string \<Rightarrow> (ContentDisposition \<times> ContentType option \<times> (string \<times> string) list, MultipartError) result" where
  "parse_part_headers header_bytes =
     and_then (map_err (\<lambda>_. MPInvalidHeader) (from_utf8 header_bytes)) (\<lambda>headers_str.
       let (cd, ct, headers) = part_headers_loop (split_sub CRLF headers_str) None None []
       in and_then (ok_or cd MPMissingContentDisposition) (\<lambda>content_disposition.
            reject_if (\<not> cd_is_form_data content_disposition) MPInvalidContentDisposition
              (reject_if (cd_name content_disposition = None) MPMissingName
                (Ok (content_disposition, ct, headers)))))"

text \<open>The compaction of the buffer after a part.\<close>

definition mp_compact :: "MultipartParser \<Rightarrow> MultipartParser" where
  "mp_compact p =
     (if mp_pos p > length (mp_buffer p) div 2
      then p\<lparr>mp_buffer := drain (mp_pos p) (mp_buffer p), mp_pos := 0,
             mp_boundary_scan_offset := mp_boundary_scan_offset p - mp_pos p\<rparr>
      else p)"

definition mp_after_body :: "MultipartParser \<Rightarrow> nat \<Rightarrow> (unit, MultipartError) result \<times> MultipartParser" where
  "mp_after_body p body_end =
     (let buffer = mp_buffer p; after_delim = body_end + length (mp_inner_delimiter p);
          padded = skip_padding buffer after_delim
      in if length buffer \<ge> padded + 2 then
           (if take 2 (drop padded buffer) = ''--'' then (Ok (), p\<lparr>mp_finished := True, mp_state := Finished\<rparr>)
            else if take 2 (drop padded buffer) = CRLF then (Ok (), p\<lparr>mp_pos := padded + 2\<rparr>)
            else (Err MPInvalidPart, p))
         else (Ok (), p\<lparr>mp_pos := padded, mp_state := AfterInnerDelimiter\<rparr>))"

definition mp_in_part :: "MultipartParser \<Rightarrow> part_result \<times> MultipartParser" where
  "mp_in_part p =
     (let buffer = mp_buffer p
      in if mp_pos p > length buffer then (Panic, p)
         else case find_bytes (drop (mp_pos p) buffer) (CRLF @ CRLF) of
                None \<Rightarrow> (Err MPIncomplete, p)
              | Some header_end_rel \<Rightarrow>
                  (let header_bytes = take header_end_rel (drop (mp_pos p) buffer);
                       body_start = mp_pos p + header_end_rel + 4
                   in case parse_part_headers header_bytes of
                        Panic \<Rightarrow> (Panic, p)
                      | Err e \<Rightarrow> (Err e, p)
                      | Ok (content_disposition, content_type, headers) \<Rightarrow>
                          (let search_start = max body_start (mp_boundary_scan_offset p)
                           in if search_start > length buffer then (Panic, p)
                              else case find_bytes (drop search_start buffer) (mp_inner_delimiter p) of
                                     Some body_end_rel \<Rightarrow>
                                       (let body_end = search_start + body_end_rel;
                                            body = take (body_end - body_start) (drop body_start buffer)
                                        in case mp_after_body p body_end of
                                             (Ok _, p1) \<Rightarrow>
                                               (Ok (Some \<lparr>pt_content_disposition = Some content_disposition,
                                                          pt_content_type = content_type, pt_headers = headers,
                                                          pt_body = body\<rparr>),
                                                mp_compact (p1\<lparr>mp_boundary_scan_offset := mp_pos p1\<rparr>))
                                           | (Err e, p1) \<Rightarrow> (Err e, p1)
                                           | (Panic, p1) \<Rightarrow> (Panic, p1))
                                   | None \<Rightarrow>
                                       (let overlap = length (mp_inner_delimiter p) - 1
                                        in (Err MPIncomplete,
                                            p\<lparr>mp_boundary_scan_offset := max (length buffer - overlap) body_start\<rparr>)))))"

definition mp_after_inner :: "MultipartParser \<Rightarrow> part_result option \<times> MultipartParser" where
  "mp_after_inner p =
     (let buffer = mp_buffer p; padded = skip_padding buffer (mp_pos p)
      in if length buffer < padded + 2 then (Some (Err MPIncomplete), p\<lparr>mp_pos := padded\<rparr>)
         else let head = take 2 (drop padded buffer)
              in if head = ''--'' then (Some (Ok None), p\<lparr>mp_finished := True, mp_state := Finished\<rparr>)
                 else if head = CRLF
                 then (None, p\<lparr>mp_pos := padded + 2, mp_boundary_scan_offset := padded + 2, mp_state := InPart\<rparr>)
                 else (Some (Err MPInvalidPart), p))"

definition mp_step :: "MultipartParser \<Rightarrow> part_result option \<times> MultipartParser" where
  "mp_step p =
     (case mp_state p of
        Initial \<Rightarrow> mp_initial p
      | InPart \<Rightarrow> (case mp_in_part p of (r, p') \<Rightarrow> (Some r, p'))
      | AfterInnerDelimiter \<Rightarrow> mp_after_inner p
      | Finished \<Rightarrow> (Some (Ok None), p))"

text \<open>Only the two states that look for a delimiter continue the loop, and they continue in \<open>InPart\<close>.\<close>

lemma mp_step_continue: "mp_step p = (None, p') \<Longrightarrow> mp_state p \<noteq> InPart \<and> mp_state p' = InPart"
  by (auto simp: mp_step_def mp_initial_def mp_after_inner_def Let_def
           split: ParserState.splits if_splits option.splits prod.splits)

function mp_loop :: "MultipartParser \<Rightarrow> part_result \<times> MultipartParser" where
  "mp_loop p = (case mp_step p of (Some r, p') \<Rightarrow> (r, p') | (None, p') \<Rightarrow> mp_loop p')"
  by pat_completeness auto
termination
  by (relation "measure (\<lambda>p. if mp_state p = InPart then 0 else 1)") (auto dest: mp_step_continue [OF sym])

declare mp_loop.simps [simp del]

definition mp_next_part :: "MultipartParser \<Rightarrow> part_result \<times> MultipartParser" where
  "mp_next_part p = (if mp_finished p then (Ok None, p) else mp_loop p)"

section \<open>The builder\<close>

record MultipartBuilder =
  mb_boundary :: string
  mb_parts :: "Part list"

definition mb_new :: "nat \<Rightarrow> MultipartBuilder" where
  "mb_new random_value = \<lparr>mb_boundary = ''----FormBoundary'' @ nat_to_dec random_value, mb_parts = []\<rparr>"

definition mb_with_boundary :: "string \<Rightarrow> MultipartBuilder" where
  "mb_with_boundary boundary = \<lparr>mb_boundary = boundary, mb_parts = []\<rparr>"

definition mb_try_with_boundary :: "string \<Rightarrow> (MultipartBuilder, MultipartError) result" where
  "mb_try_with_boundary boundary =
     reject_if (\<not> is_valid_boundary boundary) MPInvalidBoundary (Ok (mb_with_boundary boundary))"

definition mb_content_type :: "MultipartBuilder \<Rightarrow> string" where
  "mb_content_type b =
     (if list_all is_token_char (mb_boundary b) then ''multipart/form-data; boundary='' @ mb_boundary b
      else ''multipart/form-data; boundary='' @ [DQUOTE] @ mb_boundary b @ [DQUOTE])"

definition mb_part :: "MultipartBuilder \<Rightarrow> Part \<Rightarrow> MultipartBuilder" where
  "mb_part b part = b\<lparr>mb_parts := mb_parts b @ [part]\<rparr>"

definition mb_text_field :: "MultipartBuilder \<Rightarrow> string \<Rightarrow> string \<Rightarrow> MultipartBuilder" where
  "mb_text_field b name value = b\<lparr>mb_parts := mb_parts b @ [pt_with_body (Part_new name) value]\<rparr>"

definition mb_file_field :: "MultipartBuilder \<Rightarrow> string \<Rightarrow> string \<Rightarrow> string \<Rightarrow> string \<Rightarrow> MultipartBuilder" where
  "mb_file_field b name filename content_type data =
     b\<lparr>mb_parts := mb_parts b @ [pt_with_body (Part_file name filename content_type) data]\<rparr>"

definition build_part :: "string \<Rightarrow> Part \<Rightarrow> string" where
  "build_part boundary part =
     ''--'' @ boundary @ CRLF
     @ (case pt_content_disposition part of
          Some cd \<Rightarrow> ''Content-Disposition: '' @ ContentDisposition_display cd @ CRLF | None \<Rightarrow> [])
     @ (case pt_content_type part of
          Some ct \<Rightarrow> ''Content-Type: '' @ ContentType_display ct @ CRLF | None \<Rightarrow> [])
     @ concat (map (\<lambda>(name, v). name @ '': '' @ v @ CRLF) (pt_headers part))
     @ CRLF @ pt_body part @ CRLF"

definition mb_build :: "MultipartBuilder \<Rightarrow> string" where
  "mb_build b = concat (map (build_part (mb_boundary b)) (mb_parts b)) @ ''--'' @ mb_boundary b @ ''--'' @ CRLF"

end
