(* ===== verification/Refinement.thy ===== *)
theory Refinement
  imports Prelude
begin

text \<open>
  Functional refinement of a state machine: an implementation with an invariant and an abstraction
  function, a specification on the abstract states, and the simulation that relates one operation.
  Whole runs then agree.
\<close>

fun run_ops :: "('i \<Rightarrow> 's \<Rightarrow> 'o \<times> 's) \<Rightarrow> 'i list \<Rightarrow> 's \<Rightarrow> 'o list \<times> 's" where
  "run_ops step [] s = ([], s)"
| "run_ops step (i # is) s =
     (let (out, s1) = step i s; (outs, s2) = run_ops step is s1 in (out # outs, s2))"

locale refinement =
  fixes inv :: "'s \<Rightarrow> bool"
    and abs :: "'s \<Rightarrow> 'a"
    and step :: "'i \<Rightarrow> 's \<Rightarrow> 'o \<times> 's"
    and spec :: "'i \<Rightarrow> 'a \<Rightarrow> 'o \<times> 'a"
  assumes simulation: "inv s \<Longrightarrow> spec i (abs s) = (fst (step i s), abs (snd (step i s)))"
    and invariant: "inv s \<Longrightarrow> inv (snd (step i s))"
begin

lemma run_invariant: "inv s \<Longrightarrow> inv (snd (run_ops step is s))"
proof (induction "is" arbitrary: s)
  case (Cons i "is")
  obtain out s1 where "step i s = (out, s1)" by (cases "step i s")
  with invariant [OF Cons.prems, of i] Cons.IH [of s1] show ?case by (auto split: prod.splits)
qed simp

lemma run_refines:
  "inv s \<Longrightarrow> run_ops spec is (abs s) = (fst (run_ops step is s), abs (snd (run_ops step is s)))"
proof (induction "is" arbitrary: s)
  case (Cons i "is")
  obtain out s1 where s1: "step i s = (out, s1)" by (cases "step i s")
  then have "spec i (abs s) = (out, abs s1)" "inv s1"
    using simulation [OF Cons.prems, of i] invariant [OF Cons.prems, of i] by auto
  with s1 Cons.IH [of s1] show ?case by (simp add: Let_def split: prod.splits)
qed simp

end

end
