(* ===== verification/Multipart_Correct.thy ===== *)
theory Multipart_Correct
  imports Multipart Refinement
begin

text \<open>
  The multipart parser keeps an offset into its buffer, compacts the buffer now and then and
  remembers how far it has searched for a delimiter. It refines a parser that keeps only the
  unread bytes and searches them from the start.
\<close>

section \<open>First occurrences\<close>

lemma find_sub_Some_iff:
  assumes "n \<noteq> []"
  shows "find_sub n h = Some i \<longleftrightarrow> starts_with (drop i h) n \<and> (\<forall>j < i. \<not> starts_with (drop j h) n)"
proof (induction h arbitrary: i)
  case Nil
  with assms show ?case by (simp add: starts_with_def)
next
  case (Cons c h)
  show ?case
  proof (cases i)
    case 0
    then show ?thesis by auto
  next
    case (Suc k)
    then show ?thesis using Cons [of k] by (auto simp: All_less_Suc2)
  qed
qed

lemma find_sub_None_iff:
  assumes "n \<noteq> []"
  shows "find_sub n h = None \<longleftrightarrow> (\<forall>j. \<not> starts_with (drop j h) n)"
proof (induction h)
  case Nil
  with assms show ?case by (simp add: starts_with_def)
next
  case (Cons c h)
  have "(\<forall>j. P j) \<longleftrightarrow> P 0 \<and> (\<forall>j. P (Suc j))" for P :: "nat \<Rightarrow> bool"
    by (metis not0_implies_Suc)
  from this [of "\<lambda>j. \<not> starts_with (drop j (c # h)) n"] Cons show ?case by auto
qed

lemma starts_with_length: "starts_with (drop i h) n \<Longrightarrow> n \<noteq> [] \<Longrightarrow> i + length n \<le> length h"
proof -
  assume "starts_with (drop i h) n" "n \<noteq> []"
  then have "min (length n) (length h - i) = length n" "length n > 0"
    by (auto simp: starts_with_def dest: arg_cong [where f = length])
  then show "i + length n \<le> length h" by linarith
qed

lemma starts_with_append_iff:
  "i + length n \<le> length h \<Longrightarrow> starts_with (drop i (h @ d)) n \<longleftrightarrow> starts_with (drop i h) n"
  by (simp add: starts_with_def)

lemma find_sub_le: "find_sub n h = Some i \<Longrightarrow> n \<noteq> [] \<Longrightarrow> i + length n \<le> length h"
  using find_sub_Some_iff starts_with_length by blast

lemma find_sub_append: "find_sub n h = Some i \<Longrightarrow> n \<noteq> [] \<Longrightarrow> find_sub n (h @ d) = Some i"
proof -
  assume a: "find_sub n h = Some i" "n \<noteq> []"
  then have "i + length n \<le> length h" by (rule find_sub_le)
  then have "\<forall>j \<le> i. starts_with (drop j (h @ d)) n \<longleftrightarrow> starts_with (drop j h) n"
    by (intro allI impI starts_with_append_iff) simp
  with a show "find_sub n (h @ d) = Some i" by (simp add: find_sub_Some_iff del: drop_append)
qed

text \<open>A search may start behind positions that are known not to match.\<close>

lemma find_sub_skip:
  assumes "n \<noteq> []" "k \<le> length h" "\<forall>j < k. \<not> starts_with (drop j h) n"
  shows "find_sub n h = map_option (\<lambda>i. k + i) (find_sub n (drop k h))"
proof (cases "find_sub n (drop k h)")
  case None
  then have "\<not> starts_with (drop (k + j) h) n" for j
    using assms(1) by (simp add: find_sub_None_iff add.commute)
  then have "\<not> starts_with (drop j h) n" for j
    using assms(3) by (cases "j < k") (auto dest: le_Suc_ex simp: not_less)
  then have "find_sub n h = None" using assms(1) by (simp add: find_sub_None_iff)
  with None show ?thesis by simp
next
  case (Some i)
  then have s: "starts_with (drop (k + i) h) n" "\<forall>j < i. \<not> starts_with (drop (k + j) h) n"
    using assms(1) by (auto simp: find_sub_Some_iff add.commute)
  have "\<not> starts_with (drop j h) n" if "j < k + i" for j
    using assms(3) s(2) that by (cases "j < k") (auto simp: not_less dest!: le_Suc_ex)
  with s(1) assms(1) have "find_sub n h = Some (k + i)" by (simp add: find_sub_Some_iff)
  with Some show ?thesis by simp
qed

text \<open>The first-byte search of the source finds the first occurrence.\<close>

lemma starts_with_hd: "starts_with (drop j h) n \<Longrightarrow> n \<noteq> [] \<Longrightarrow> h ! j = hd n"
  using starts_with_length [of j h n]
  by (cases n) (auto simp: starts_with_def hd_drop_conv_nth Cons_nth_drop_Suc [symmetric])

lemma find_bytes_loop_eq:
  assumes "n \<noteq> []" "length n \<le> length h" "i \<le> length h"
  shows "find_bytes_loop h n (hd n) (length h - length n) i = map_option (\<lambda>k. i + k) (find_sub n (drop i h))"
  using assms(3)
proof (induction "Suc (length h) - i" arbitrary: i rule: less_induct)
  case less
  let ?m = "length h - length n"
  have out: "\<not> starts_with (drop j h) n" if "j > ?m" for j
    using that starts_with_length [of j h n] assms(1,2) by auto
  show ?case
  proof (cases "i \<le> ?m")
    case False
    then have "find_sub n (drop i h) = None"
      using out assms(1) by (simp add: find_sub_None_iff)
    with False show ?thesis by (simp add: find_bytes_loop.simps [of _ _ _ _ i])
  next
    case True
    let ?w = "take (?m + 1 - i) (drop i h)"
    show ?thesis
    proof (cases "position (\<lambda>b. b = hd n) ?w")
      case None
      have "\<not> starts_with (drop j (drop i h)) n" for j
      proof (cases "i + j \<le> ?m")
        case True
        then have "j < length ?w" using assms(1,2) by (cases n) auto
        then have "?w ! j \<in> set ?w" by (rule nth_mem)
        then have "h ! (i + j) \<noteq> hd n" using None \<open>j < length ?w\<close> by (auto simp: position_None_iff)
        then show ?thesis using starts_with_hd [of "i + j" h n] assms(1) by (auto simp: add.commute)
      next
        case False
        then show ?thesis using out [of "i + j"] by (simp add: add.commute)
      qed
      then have "find_sub n (drop i h) = None" using assms(1) by (simp add: find_sub_None_iff)
      with True None show ?thesis by (simp add: find_bytes_loop.simps [of _ _ _ _ i])
    next
      case (Some off)
      have o: "off < length ?w" "\<forall>b \<in> set (take off ?w). b \<noteq> hd n"
        using position_SomeD [OF Some] by auto
      have before: "\<forall>j < off. \<not> starts_with (drop j (drop i h)) n"
      proof (intro allI impI)
        fix j assume j: "j < off"
        then have "take off ?w ! j \<in> set (take off ?w)" using o(1) by (intro nth_mem) simp
        then have "h ! (i + j) \<noteq> hd n" using o j by auto
        then show "\<not> starts_with (drop j (drop i h)) n"
          using starts_with_hd [of "i + j" h n] assms(1) by (auto simp: add.commute)
      qed
      have oi: "i + off \<le> ?m" using o(1) True by (simp, linarith)
      show ?thesis
      proof (cases "starts_with (drop (i + off) h) n")
        case True
        then have "find_sub n (drop i h) = Some off"
          using before assms(1) by (simp add: find_sub_Some_iff add.commute)
        with True Some \<open>i \<le> ?m\<close> show ?thesis
          by (simp add: find_bytes_loop.simps [of _ _ _ _ i] starts_with_def)
      next
        case False
        have "length n > 0" using assms(1) by simp
        then have le: "i + off + 1 \<le> length h" using oi assms(2) by linarith
        have "find_bytes_loop h n (hd n) ?m (i + off + 1)
            = map_option (\<lambda>k. i + off + 1 + k) (find_sub n (drop (i + off + 1) h))"
          using le less.prems by (intro less.hyps) auto
        moreover have "find_sub n (drop i h) = map_option (\<lambda>k. (off + 1) + k) (find_sub n (drop (off + 1) (drop i h)))"
        proof (rule find_sub_skip)
          show "off + 1 \<le> length (drop i h)" using le by simp
          show "\<forall>j < off + 1. \<not> starts_with (drop j (drop i h)) n"
            using before False by (auto simp: less_Suc_eq add.commute)
        qed (rule assms(1))
        ultimately show ?thesis using False Some True
          by (simp add: find_bytes_loop.simps [of _ _ _ _ i] starts_with_def option.map_comp o_def add.commute add.left_commute)
      qed
    qed
  qed
qed

lemma find_bytes_eq: "find_bytes h n = find_sub n h"
proof (cases "n = []")
  case True
  then show ?thesis by (cases h) (simp_all add: find_bytes_def starts_with_def)
next
  case False
  show ?thesis
  proof (cases "length n > length h")
    case True
    then have "find_sub n h = None" using False starts_with_length [of _ h n] by (auto simp: find_sub_None_iff)
    with True False show ?thesis by (simp add: find_bytes_def)
  next
    case le: False
    then show ?thesis using False find_bytes_loop_eq [of n h 0] by (simp add: find_bytes_def option.map_ident)
  qed
qed

section \<open>The abstract parser\<close>

text \<open>Unread bytes, a phase, and no positions.\<close>

record AbsParser =
  ap_first :: string
  ap_inner :: string
  ap_unread :: string
  ap_state :: ParserState
  ap_finished :: bool
  ap_max :: nat

definition ap_feed :: "string \<Rightarrow> AbsParser \<Rightarrow> (unit, MultipartError) result \<times> AbsParser" where
  "ap_feed data a =
     (let new_size = min (length (ap_unread a) + length data) usize_max
      in if new_size > ap_max a then (Err (MPBufferOverflow new_size (ap_max a)), a)
         else (Ok (), a\<lparr>ap_unread := ap_unread a @ data\<rparr>))"

text \<open>What follows a delimiter: padding and two bytes that decide.\<close>

datatype after = NeedMore string | NextPart string | Closed | Bad

definition after_delimiter :: "string \<Rightarrow> after" where
  "after_delimiter rest =
     (let r = dropWhile is_padding rest
      in if length r < 2 then NeedMore r
         else if take 2 r = CRLF then NextPart (drop 2 r)
         else if take 2 r = ''--'' then Closed else Bad)"

definition ap_in_part :: "AbsParser \<Rightarrow> part_result \<times> AbsParser" where
  "ap_in_part a =
     (case find_sub (CRLF @ CRLF) (ap_unread a) of
        None \<Rightarrow> (Err MPIncomplete, a)
      | Some h \<Rightarrow>
          (case parse_part_headers (take h (ap_unread a)) of
             Panic \<Rightarrow> (Panic, a)
           | Err e \<Rightarrow> (Err e, a)
           | Ok (cd, ct, headers) \<Rightarrow>
               (let rest = drop (h + 4) (ap_unread a)
                in case find_sub (ap_inner a) rest of
                     None \<Rightarrow> (Err MPIncomplete, a)
                   | Some e \<Rightarrow>
                       (let part = \<lparr>pt_content_disposition = Some cd, pt_content_type = ct, pt_headers = headers,
                                    pt_body = take e rest\<rparr>
                        in case after_delimiter (drop (e + length (ap_inner a)) rest) of
                             NeedMore r \<Rightarrow> (Ok (Some part), a\<lparr>ap_unread := r, ap_state := AfterInnerDelimiter\<rparr>)
                           | NextPart r \<Rightarrow> (Ok (Some part), a\<lparr>ap_unread := r\<rparr>)
                           | Closed \<Rightarrow> (Ok (Some part), a\<lparr>ap_finished := True, ap_state := Finished\<rparr>)
                           | Bad \<Rightarrow> (Err MPInvalidPart, a)))))"

definition ap_initial :: "AbsParser \<Rightarrow> part_result option \<times> AbsParser" where
  "ap_initial a =
     (case find_sub (ap_first a) (ap_unread a) of
        None \<Rightarrow> (Some (Err MPIncomplete), a)
      | Some i \<Rightarrow>
          (case after_delimiter (drop (i + length (ap_first a)) (ap_unread a)) of
             NeedMore r \<Rightarrow> (Some (Err MPIncomplete), a)
           | NextPart r \<Rightarrow> (None, a\<lparr>ap_unread := r, ap_state := InPart\<rparr>)
           | Closed \<Rightarrow> (Some (Ok None), a\<lparr>ap_finished := True, ap_state := Finished\<rparr>)
           | Bad \<Rightarrow> (Some (Err MPInvalidPart), a)))"

definition ap_after_inner :: "AbsParser \<Rightarrow> part_result option \<times> AbsParser" where
  "ap_after_inner a =
     (case after_delimiter (ap_unread a) of
        NeedMore r \<Rightarrow> (Some (Err MPIncomplete), a\<lparr>ap_unread := r\<rparr>)
      | NextPart r \<Rightarrow> (None, a\<lparr>ap_unread := r, ap_state := InPart\<rparr>)
      | Closed \<Rightarrow> (Some (Ok None), a\<lparr>ap_finished := True, ap_state := Finished\<rparr>)
      | Bad \<Rightarrow> (Some (Err MPInvalidPart), a))"

fun ap_continue :: "part_result option \<times> AbsParser \<Rightarrow> part_result \<times> AbsParser" where
  "ap_continue (Some r, a) = (r, a)"
| "ap_continue (None, a) = ap_in_part a"

definition ap_next :: "AbsParser \<Rightarrow> part_result \<times> AbsParser" where
  "ap_next a =
     (if ap_finished a then (Ok None, a)
      else case ap_state a of
             Initial \<Rightarrow> ap_continue (ap_initial a)
           | InPart \<Rightarrow> ap_in_part a
           | AfterInnerDelimiter \<Rightarrow> ap_continue (ap_after_inner a)
           | Finished \<Rightarrow> (Ok None, a))"

definition mp_abs :: "MultipartParser \<Rightarrow> AbsParser" where
  "mp_abs p =
     \<lparr>ap_first = mp_first_delimiter p, ap_inner = mp_inner_delimiter p, ap_unread = drop (mp_pos p) (mp_buffer p),
      ap_state = mp_state p, ap_finished = mp_finished p, ap_max = mp_max_buffer_size p\<rparr>"

section \<open>The invariant\<close>

text \<open>No delimiter starts between the start of the search and the remembered offset.\<close>

definition no_match :: "string \<Rightarrow> nat \<Rightarrow> nat \<Rightarrow> string \<Rightarrow> bool" where
  "no_match buf from till n \<longleftrightarrow>
     (\<forall>j. from \<le> j \<and> j < till \<longrightarrow> j + length n \<le> length buf \<and> \<not> starts_with (drop j buf) n)"

definition mp_inv :: "MultipartParser \<Rightarrow> bool" where
  "mp_inv p \<longleftrightarrow> mp_first_delimiter p \<noteq> [] \<and> mp_inner_delimiter p \<noteq> []
     \<and> mp_pos p \<le> length (mp_buffer p) \<and> mp_boundary_scan_offset p \<le> length (mp_buffer p)
     \<and> (mp_state p = Initial \<longrightarrow>
          no_match (mp_buffer p) (mp_pos p) (mp_boundary_scan_offset p) (mp_first_delimiter p))
     \<and> (mp_state p = InPart \<longrightarrow>
          (case find_sub (CRLF @ CRLF) (drop (mp_pos p) (mp_buffer p)) of
             None \<Rightarrow> mp_boundary_scan_offset p \<le> mp_pos p
           | Some h \<Rightarrow> no_match (mp_buffer p) (mp_pos p + h + 4) (mp_boundary_scan_offset p) (mp_inner_delimiter p)))"

lemma no_match_append: "no_match buf from till n \<Longrightarrow> no_match (buf @ d) from till n"
  by (auto simp: no_match_def starts_with_append_iff simp del: drop_append)

lemma no_match_empty [simp]: "till \<le> from \<Longrightarrow> no_match buf from till n"
  by (auto simp: no_match_def)

text \<open>Searching from the remembered offset finds what searching from the start finds.\<close>

lemma find_from_offset:
  assumes "n \<noteq> []" "from \<le> length buf" "till \<le> length buf" "no_match buf from till n"
  shows "find_sub n (drop from buf)
           = map_option (\<lambda>i. max from till - from + i) (find_sub n (drop (max from till) buf))"
proof -
  have "find_sub n (drop from buf) = map_option (\<lambda>i. max from till - from + i)
          (find_sub n (drop (max from till - from) (drop from buf)))"
    using assms by (intro find_sub_skip) (auto simp: no_match_def add.commute max_def)
  then show ?thesis by simp
qed

text \<open>After a failed search the offset leaves room for a delimiter cut by the end of the buffer.\<close>

lemma no_match_after_search:
  assumes "n \<noteq> []" "from \<le> length buf" "find_sub n (drop from buf) = None"
  shows "no_match buf from (length buf - (length n - 1)) n"
proof -
  have "\<not> starts_with (drop j buf) n" if "from \<le> j" for j
  proof -
    have "\<not> starts_with (drop (j - from) (drop from buf)) n" using assms(3) find_sub_None_iff [OF assms(1)] by blast
    with that show ?thesis by simp
  qed
  moreover have "length n > 0" using assms(1) by simp
  ultimately show ?thesis by (auto simp: no_match_def)
qed

lemma no_match_first:
  assumes "n \<noteq> []" "find_sub n (drop from buf) = Some i"
  shows "no_match buf from (from + i) n"
proof -
  have l: "i + length n \<le> length buf - from" using find_sub_le [OF assms(2,1)] by simp
  have "\<not> starts_with (drop (from + j) buf) n" if "j < i" for j
    using assms that by (auto simp: find_sub_Some_iff add.commute)
  then have "\<not> starts_with (drop j buf) n" if "from \<le> j" "j < from + i" for j
    using that by (metis le_add_diff_inverse nat_add_left_cancel_less)
  moreover have "length n > 0" using assms(1) by simp
  ultimately show ?thesis using l by (auto simp: no_match_def)
qed

section \<open>The simulation\<close>

lemma skip_padding_drop:
  assumes "i \<le> length buf"
  shows "drop (skip_padding buf i) buf = dropWhile is_padding (drop i buf)" "skip_padding buf i \<le> length buf"
    "i \<le> skip_padding buf i"
proof -
  let ?k = "length (takeWhile is_padding (drop i buf))"
  have "?k \<le> length (drop i buf)" by (rule length_takeWhile_le)
  with assms show "skip_padding buf i \<le> length buf" by (simp add: skip_padding_def)
  have "drop (skip_padding buf i) buf = drop ?k (drop i buf)" by (simp add: skip_padding_def add.commute)
  then show "drop (skip_padding buf i) buf = dropWhile is_padding (drop i buf)" by (simp add: dropWhile_eq_drop)
qed (simp add: skip_padding_def)

text \<open>The two bytes behind the padding, as the source reads them and as \<open>after_delimiter\<close> does.\<close>

lemma after_delimiter_at:
  assumes "i \<le> length buf"
  defines "padded \<equiv> skip_padding buf i"
  shows "after_delimiter (drop i buf) =
    (if length buf < padded + 2 then NeedMore (drop padded buf)
     else if take 2 (drop padded buf) = CRLF then NextPart (drop (padded + 2) buf)
     else if take 2 (drop padded buf) = ''--'' then Closed else Bad)"
proof -
  have l: "length (dropWhile is_padding (drop i buf)) = length buf - padded" "padded \<le> length buf"
    using skip_padding_drop [OF assms(1)] by (auto simp: padded_def dest: arg_cong [where f = length])
  then have "length (dropWhile is_padding (drop i buf)) < 2 \<longleftrightarrow> length buf < padded + 2" by linarith
  moreover have "drop 2 (dropWhile is_padding (drop i buf)) = drop (padded + 2) buf"
    unfolding skip_padding_drop(1) [OF assms(1), symmetric] padded_def drop_drop by (simp add: add.commute)
  ultimately show ?thesis
    using skip_padding_drop(1) [OF assms(1)] unfolding after_delimiter_def Let_def padded_def by simp
qed

lemma mp_initial_refines:
  assumes inv: "mp_inv p" and st: "mp_state p = Initial"
  shows "ap_initial (mp_abs p) = (fst (mp_initial p), mp_abs (snd (mp_initial p))) \<and> mp_inv (snd (mp_initial p))"
proof -
  let ?b = "mp_buffer p" and ?n = "mp_first_delimiter p"
  let ?s = "max (mp_pos p) (mp_boundary_scan_offset p)"
  have i: "?n \<noteq> []" "mp_inner_delimiter p \<noteq> []" "mp_pos p \<le> length ?b" "mp_boundary_scan_offset p \<le> length ?b"
    "no_match ?b (mp_pos p) (mp_boundary_scan_offset p) ?n"
    using inv st by (simp_all add: mp_inv_def)
  have s: "?s \<le> length ?b" "mp_pos p \<le> ?s" using i by simp_all
  note f = find_from_offset [OF i(1,3,4,5)]
  show ?thesis
  proof (cases "find_sub ?n (drop ?s ?b)")
    case None
    have "no_match ?b (mp_pos p) (length ?b - (length ?n - 1)) ?n"
      using no_match_after_search [OF i(1,3)] f None by simp
    then show ?thesis
      using None s(1) f st i
      by (simp add: mp_initial_def Let_def find_bytes_eq ap_initial_def mp_abs_def mp_inv_def)
  next
    case (Some k)
    let ?a = "?s + k + length ?n"
    have fk: "find_sub ?n (drop (mp_pos p) ?b) = Some (?s - mp_pos p + k)" using f Some by simp
    have a: "?a \<le> length ?b" using find_sub_le [OF Some i(1)] s(1) unfolding length_drop by linarith
    have e: "drop (?s - mp_pos p + k + length ?n) (drop (mp_pos p) ?b) = drop ?a ?b"
      using s(2) by (simp add: add.commute add.left_commute)
    have nm: "no_match ?b (mp_pos p) (min (?s + k) (length ?b)) ?n"
      using no_match_first [OF i(1) fk] s(2) a by simp
    have short: "\<not> ?a + 2 \<le> length ?b \<Longrightarrow> length ?b < skip_padding ?b ?a + 2"
      using skip_padding_drop(3) [OF a] by simp
    note ad = after_delimiter_at [OF a]
    show ?thesis
    proof (cases "length ?b < skip_padding ?b ?a + 2")
      case True
      then show ?thesis
        using Some s(1) fk e ad nm st i short
        by (auto simp: mp_initial_def Let_def find_bytes_eq ap_initial_def mp_abs_def mp_inv_def)
    next
      case False
      with short have "?a + 2 \<le> length ?b" by blast
      then show ?thesis
        using False Some s(1) fk e ad st i
        by (auto simp: mp_initial_def Let_def find_bytes_eq ap_initial_def mp_abs_def mp_inv_def split: option.splits)
    qed
  qed
qed

lemma mp_after_inner_refines:
  assumes inv: "mp_inv p"
  shows "ap_after_inner (mp_abs p) = (fst (mp_after_inner p), mp_abs (snd (mp_after_inner p)))
    \<and> (mp_state p = AfterInnerDelimiter \<longrightarrow> mp_inv (snd (mp_after_inner p)))"
proof -
  have i: "mp_pos p \<le> length (mp_buffer p)" using inv by (simp add: mp_inv_def)
  show ?thesis
    using inv after_delimiter_at [OF i] skip_padding_drop(2) [OF i]
    by (auto simp: mp_after_inner_def Let_def ap_after_inner_def mp_abs_def mp_inv_def split: option.splits)
qed

text \<open>Compaction changes neither the unread bytes nor the invariant.\<close>

lemma mp_compact_abs: "mp_abs (mp_compact p) = mp_abs p"
  by (simp add: mp_compact_def mp_abs_def)

lemma mp_compact_inv:
  assumes "mp_pos p \<le> length (mp_buffer p)" "mp_boundary_scan_offset p = mp_pos p" "mp_state p \<noteq> Initial"
    "mp_first_delimiter p \<noteq> []" "mp_inner_delimiter p \<noteq> []"
  shows "mp_inv (mp_compact p)"
  using assms by (auto simp: mp_compact_def mp_inv_def split: option.splits)

fun ap_after_part :: "after \<Rightarrow> AbsParser \<Rightarrow> AbsParser" where
  "ap_after_part (NeedMore r) a = a\<lparr>ap_unread := r, ap_state := AfterInnerDelimiter\<rparr>"
| "ap_after_part (NextPart r) a = a\<lparr>ap_unread := r\<rparr>"
| "ap_after_part Closed a = a\<lparr>ap_finished := True, ap_state := Finished\<rparr>"
| "ap_after_part Bad a = a"

lemma mp_after_body_refines:
  assumes inv: "mp_inv p" and st: "mp_state p = InPart" and a: "e + length (mp_inner_delimiter p) \<le> length (mp_buffer p)"
  defines "k \<equiv> after_delimiter (drop (e + length (mp_inner_delimiter p)) (mp_buffer p))"
  shows "k = Bad \<Longrightarrow> mp_after_body p e = (Err MPInvalidPart, p)"
    and "k \<noteq> Bad \<Longrightarrow> \<exists>p1. mp_after_body p e = (Ok (), p1)
           \<and> mp_abs (mp_compact (p1\<lparr>mp_boundary_scan_offset := mp_pos p1\<rparr>)) = ap_after_part k (mp_abs p)
           \<and> mp_inv (mp_compact (p1\<lparr>mp_boundary_scan_offset := mp_pos p1\<rparr>))"
proof -
  let ?d = "skip_padding (mp_buffer p) (e + length (mp_inner_delimiter p))"
  note ad = after_delimiter_at [OF a, folded k_def]
  have i: "mp_first_delimiter p \<noteq> []" "mp_inner_delimiter p \<noteq> []" "mp_pos p \<le> length (mp_buffer p)"
    using inv by (simp_all add: mp_inv_def)
  have d: "?d \<le> length (mp_buffer p)" by (rule skip_padding_drop(2) [OF a])
  show "k = Bad \<Longrightarrow> mp_after_body p e = (Err MPInvalidPart, p)"
    using ad by (simp add: mp_after_body_def Let_def split: if_splits)
  assume nb: "k \<noteq> Bad"
  consider (more) "length (mp_buffer p) < ?d + 2" | (crlf) "\<not> length (mp_buffer p) < ?d + 2" "take 2 (drop ?d (mp_buffer p)) = CRLF"
    | (close) "\<not> length (mp_buffer p) < ?d + 2" "take 2 (drop ?d (mp_buffer p)) = ''--''"
    using ad nb by (auto split: if_splits)
  then show "\<exists>p1. mp_after_body p e = (Ok (), p1)
           \<and> mp_abs (mp_compact (p1\<lparr>mp_boundary_scan_offset := mp_pos p1\<rparr>)) = ap_after_part k (mp_abs p)
           \<and> mp_inv (mp_compact (p1\<lparr>mp_boundary_scan_offset := mp_pos p1\<rparr>))"
    unfolding mp_compact_abs by cases (use ad i d st in \<open>simp_all add: mp_after_body_def Let_def mp_compact_inv mp_abs_def\<close>)
qed

lemma ap_after_part_cases:
  "k \<noteq> Bad \<Longrightarrow> (case k of
     NeedMore r \<Rightarrow> (x, a\<lparr>ap_unread := r, ap_state := AfterInnerDelimiter\<rparr>)
   | NextPart r \<Rightarrow> (x, a\<lparr>ap_unread := r\<rparr>)
   | Closed \<Rightarrow> (x, a\<lparr>ap_finished := True, ap_state := Finished\<rparr>)
   | Bad \<Rightarrow> y) = (x, ap_after_part k a)"
  by (cases k) simp_all

lemma mp_in_part_refines:
  assumes inv: "mp_inv p" and st: "mp_state p = InPart"
  shows "ap_in_part (mp_abs p) = (fst (mp_in_part p), mp_abs (snd (mp_in_part p))) \<and> mp_inv (snd (mp_in_part p))"
proof -
  let ?b = "mp_buffer p" and ?n = "mp_inner_delimiter p"
  have i: "mp_first_delimiter p \<noteq> []" "?n \<noteq> []" "mp_pos p \<le> length ?b" "mp_boundary_scan_offset p \<le> length ?b"
    using inv by (simp_all add: mp_inv_def)
  show ?thesis
  proof (cases "find_sub (CRLF @ CRLF) (drop (mp_pos p) ?b)")
    case None
    then show ?thesis using inv i by (simp add: mp_in_part_def Let_def find_bytes_eq ap_in_part_def mp_abs_def)
  next
    case (Some h)
    let ?u = "mp_pos p + h + 4"
    let ?s = "max ?u (mp_boundary_scan_offset p)"
    have u: "?u \<le> length ?b" using find_sub_le [OF Some] i(3) by simp
    have nm: "no_match ?b ?u (mp_boundary_scan_offset p) ?n" using inv st Some by (simp add: mp_inv_def)
    have s: "?s \<le> length ?b" "?u \<le> ?s" using u i(4) by simp_all
    have r: "drop (h + 4) (drop (mp_pos p) ?b) = drop ?u ?b" by (simp add: ac_simps)
    note f = find_from_offset [OF i(2) u i(4) nm]
    show ?thesis
    proof (cases "parse_part_headers (take h (drop (mp_pos p) ?b))")
      case (Ok x)
      obtain cd ct hs where x: "x = (cd, ct, hs)" by (cases x)
      show ?thesis
      proof (cases "find_sub ?n (drop ?s ?b)")
        case None
        have fu: "find_sub ?n (drop ?u ?b) = None" using f None by simp
        have "no_match ?b ?u (max (length ?b - (length ?n - 1)) ?u) ?n"
          using no_match_after_search [OF i(2) u fu] by (cases "?u \<le> length ?b - (length ?n - 1)") (auto simp: max_def)
        then have "mp_inv (p\<lparr>mp_boundary_scan_offset := max (length ?b - (length ?n - 1)) ?u\<rparr>)"
          using inv st Some u by (simp add: mp_inv_def)
        then show ?thesis using Some Ok x None s i fu r
          by (simp add: mp_in_part_def Let_def find_bytes_eq ap_in_part_def mp_abs_def)
      next
        case (Some k)
        let ?e = "?s + k" and ?a = "?s + k + length ?n"
        have fk: "find_sub ?n (drop ?u ?b) = Some (?s - ?u + k)" using f Some by simp
        have a: "?a \<le> length ?b" using find_sub_le [OF Some i(2)] s(1) unfolding length_drop by linarith
        have e: "drop (?s - ?u + k + length ?n) (drop ?u ?b) = drop ?a ?b" "?s - ?u + k = ?e - ?u"
          using s(2) by (simp_all add: add.commute add.left_commute)
        note hd = \<open>find_sub (CRLF @ CRLF) (drop (mp_pos p) ?b) = Some h\<close>
        let ?part = "\<lparr>pt_content_disposition = Some cd, pt_content_type = ct, pt_headers = hs,
                      pt_body = take (?e - ?u) (drop ?u ?b)\<rparr>"
        let ?k = "after_delimiter (drop ?a ?b)"
        have ns: "(length ?b < ?s) = False" using s(1) by (simp only: not_less simp_thms eq_False)
        have ab: "ap_unread (mp_abs p) = drop (mp_pos p) ?b" "ap_inner (mp_abs p) = ?n" by (simp_all add: mp_abs_def)
        have c: "mp_in_part p = (case mp_after_body p ?e of
            (Ok _, p1) \<Rightarrow> (Ok (Some ?part), mp_compact (p1\<lparr>mp_boundary_scan_offset := mp_pos p1\<rparr>))
          | (Err x, p1) \<Rightarrow> (Err x, p1) | (Panic, p1) \<Rightarrow> (Panic, p1))"
          using hd Ok x Some i(3) unfolding mp_in_part_def Let_def find_bytes_eq by (simp add: ns)
        have d: "ap_in_part (mp_abs p) = (if ?k = Bad then (Err MPInvalidPart, mp_abs p)
            else (Ok (Some ?part), ap_after_part ?k (mp_abs p)))"
          unfolding ap_in_part_def ab hd option.case Ok x result.case prod.case Let_def r fk e
          by (cases "?k = Bad") (simp_all add: ap_after_part_cases)
        show ?thesis
        proof (cases "?k = Bad")
          case True
          with mp_after_body_refines(1) [OF inv st a] c d inv show ?thesis by simp
        next
          case False
          with mp_after_body_refines(2) [OF inv st a] c d show ?thesis by auto
        qed
      qed
    qed (use Some i inv in \<open>simp_all add: mp_in_part_def Let_def find_bytes_eq ap_in_part_def mp_abs_def\<close>)
  qed
qed

text \<open>The loop makes at most one more round, in \<open>InPart\<close>.\<close>

fun mp_continue :: "part_result option \<times> MultipartParser \<Rightarrow> part_result \<times> MultipartParser" where
  "mp_continue (Some r, p) = (r, p)"
| "mp_continue (None, p) = mp_in_part p"

lemma mp_loop_in_part: "mp_state q = InPart \<Longrightarrow> mp_loop q = mp_in_part q"
  by (simp add: mp_loop.simps [of q] mp_step_def split: prod.splits)

lemma mp_loop_continue: "mp_loop p = mp_continue (mp_step p)"
proof (cases "mp_step p")
  case (Pair r q)
  then show ?thesis
    using mp_step_continue [of p q] mp_loop_in_part [of q]
    by (cases r) (simp_all add: mp_loop.simps [of p])
qed

lemma mp_continue_refines:
  assumes "a = (fst r, mp_abs (snd r))" "mp_inv (snd r)" "fst r = None \<Longrightarrow> mp_state (snd r) = InPart"
  shows "ap_continue a = (fst (mp_continue r), mp_abs (snd (mp_continue r))) \<and> mp_inv (snd (mp_continue r))"
proof (cases r)
  case (Pair x q)
  then show ?thesis using assms mp_in_part_refines [of q] by (cases x) simp_all
qed

lemma mp_next_refines:
  assumes inv: "mp_inv p"
  shows "ap_next (mp_abs p) = (fst (mp_next_part p), mp_abs (snd (mp_next_part p)))
    \<and> mp_inv (snd (mp_next_part p))"
proof (cases "mp_finished p")
  case True
  then show ?thesis using inv by (simp add: mp_next_part_def ap_next_def mp_abs_def)
next
  case False
  then have n: "mp_next_part p = mp_continue (mp_step p)" by (simp add: mp_next_part_def mp_loop_continue)
  have fa: "ap_finished (mp_abs p) = False" "ap_state (mp_abs p) = mp_state p" using False by (simp_all add: mp_abs_def)
  have c: "fst (mp_step p) = None \<Longrightarrow> mp_state (snd (mp_step p)) = InPart"
    using mp_step_continue [of p "snd (mp_step p)"] by (metis prod.collapse)
  show ?thesis
  proof (cases "mp_state p")
    case Initial
    then have "mp_step p = mp_initial p" by (simp add: mp_step_def)
    then show ?thesis
      using mp_continue_refines [of "ap_initial (mp_abs p)" "mp_step p"] mp_initial_refines [OF inv Initial] c
      unfolding n ap_next_def fa Initial by simp
  next
    case InPart
    then show ?thesis using mp_in_part_refines [OF inv InPart] False
      by (simp add: mp_next_part_def mp_loop_in_part ap_next_def fa)
  next
    case AfterInnerDelimiter
    then have "mp_step p = mp_after_inner p" by (simp add: mp_step_def)
    then show ?thesis
      using mp_continue_refines [of "ap_after_inner (mp_abs p)" "mp_step p"] mp_after_inner_refines [OF inv]
        AfterInnerDelimiter c
      unfolding n ap_next_def fa AfterInnerDelimiter by simp
  next
    case Finished
    then show ?thesis using inv unfolding n ap_next_def fa by (simp add: mp_step_def)
  qed
qed

lemma mp_feed_refines:
  assumes inv: "mp_inv p"
  shows "ap_feed d (mp_abs p) = (fst (mp_feed d p), mp_abs (snd (mp_feed d p))) \<and> mp_inv (snd (mp_feed d p))"
proof -
  let ?b = "mp_buffer p"
  have i: "mp_pos p \<le> length ?b" using inv by (simp add: mp_inv_def)
  have "mp_inv (p\<lparr>mp_buffer := ?b @ d\<rparr>)"
  proof (cases "find_sub (CRLF @ CRLF) (drop (mp_pos p) ?b)")
    case None
    then have "mp_state p = InPart \<Longrightarrow> mp_boundary_scan_offset p \<le> mp_pos p" using inv by (simp add: mp_inv_def)
    then show ?thesis using inv i by (auto simp: mp_inv_def no_match_append split: option.splits)
  next
    case (Some h)
    then have "find_sub (CRLF @ CRLF) (drop (mp_pos p) ?b @ d) = Some h" by (rule find_sub_append) simp
    then show ?thesis using inv i Some by (auto simp: mp_inv_def no_match_append)
  qed
  then show ?thesis using inv i by (simp add: mp_feed_def ap_feed_def Let_def mp_abs_def)
qed

section \<open>Runs\<close>

datatype mp_op = Feed string | Next
datatype mp_out = Fed "(unit, MultipartError) result" | Got part_result

fun mp_op_step :: "mp_op \<Rightarrow> MultipartParser \<Rightarrow> mp_out \<times> MultipartParser" where
  "mp_op_step (Feed d) p = (case mp_feed d p of (r, p') \<Rightarrow> (Fed r, p'))"
| "mp_op_step Next p = (case mp_next_part p of (r, p') \<Rightarrow> (Got r, p'))"

fun ap_op_step :: "mp_op \<Rightarrow> AbsParser \<Rightarrow> mp_out \<times> AbsParser" where
  "ap_op_step (Feed d) a = (case ap_feed d a of (r, a') \<Rightarrow> (Fed r, a'))"
| "ap_op_step Next a = (case ap_next a of (r, a') \<Rightarrow> (Got r, a'))"

lemma mp_op_refines:
  assumes "mp_inv s"
  shows "ap_op_step i (mp_abs s) = (fst (mp_op_step i s), mp_abs (snd (mp_op_step i s)))"
    and "mp_inv (snd (mp_op_step i s))"
  using mp_feed_refines [OF assms] mp_next_refines [OF assms] by (cases i; simp add: case_prod_beta)+

interpretation mpr: refinement mp_inv mp_abs mp_op_step ap_op_step
  by unfold_locales (simp_all add: mp_op_refines)

lemma mp_new_inv: "mp_inv (mp_with_max_buffer_size (mp_new boundary) n)"
  by (simp add: mp_inv_def mp_with_max_buffer_size_def mp_new_def)

lemma ap_in_part_no_panic: "fst (ap_in_part a) \<noteq> Panic"
proof -
  have "parse_part_headers h \<noteq> Panic" for h
    by (simp add: parse_part_headers_def panic_iff split: prod.splits)
  then show ?thesis
    by (auto simp: ap_in_part_def Let_def split: option.splits result.splits prod.splits after.splits)
qed

lemma ap_continue_no_panic: "fst x \<noteq> Some Panic \<Longrightarrow> fst (ap_continue x) \<noteq> Panic"
  using ap_in_part_no_panic by (cases x rule: ap_continue.cases) auto

lemma ap_next_no_panic: "fst (ap_next a) \<noteq> Panic"
proof -
  have "fst (ap_initial a) \<noteq> Some Panic" "fst (ap_after_inner a) \<noteq> Some Panic"
    by (auto simp: ap_initial_def ap_after_inner_def split: option.splits after.splits)
  then show ?thesis
    by (auto simp: ap_next_def ap_continue_no_panic ap_in_part_no_panic split: ParserState.splits)
qed

lemma ap_no_panic: "fst (ap_op_step i a) \<noteq> Got Panic \<and> fst (ap_op_step i a) \<noteq> Fed Panic"
  using ap_next_no_panic [of a] by (cases i) (auto simp: ap_feed_def Let_def case_prod_beta)

definition ap_new :: "string \<Rightarrow> nat \<Rightarrow> AbsParser" where
  "ap_new boundary n = \<lparr>ap_first = ''--'' @ boundary, ap_inner = CRLF @ ''--'' @ boundary, ap_unread = [],
     ap_state = Initial, ap_finished = False, ap_max = n\<rparr>"

lemma mp_new_abs: "mp_abs (mp_with_max_buffer_size (mp_new boundary) n) = ap_new boundary n"
  by (simp add: mp_abs_def mp_with_max_buffer_size_def mp_new_def ap_new_def)

lemma run_no_panic: "Got Panic \<notin> set (fst (run_ops ap_op_step ops a)) \<and> Fed Panic \<notin> set (fst (run_ops ap_op_step ops a))"
proof (induction ops arbitrary: a)
  case (Cons i ops)
  then show ?case using ap_no_panic [of i a] by (auto simp: case_prod_beta Let_def)
qed simp

text \<open>
  C35. The multipart parser refines the parser without positions: for every boundary, every limit
  and every sequence of \<open>feed\<close> and \<open>next_part\<close> calls, each call returns what the abstract parser
  returns, which searches the unread bytes from their start; so resuming a delimiter search at the
  remembered offset and compacting the buffer are invisible, and no call panics.
\<close>

theorem multipart_refines_unread_bytes:
  "fst (run_ops mp_op_step ops (mp_with_max_buffer_size (mp_new boundary) limit))
     = fst (run_ops ap_op_step ops (ap_new boundary limit))
   \<and> Got Panic \<notin> set (fst (run_ops mp_op_step ops (mp_with_max_buffer_size (mp_new boundary) limit)))
   \<and> Fed Panic \<notin> set (fst (run_ops mp_op_step ops (mp_with_max_buffer_size (mp_new boundary) limit)))"
  using mpr.run_refines [OF mp_new_inv, of ops boundary limit] run_no_panic [of ops "ap_new boundary limit"]
  by (simp add: mp_new_abs)

section \<open>Draining the parser\<close>

lemma after_delimiter_length: "after_delimiter r = NeedMore s \<or> after_delimiter r = NextPart s \<Longrightarrow> length s \<le> length r"
  using length_dropWhile_le [of is_padding r] by (auto simp: after_delimiter_def Let_def split: if_splits)

text \<open>Every part that is handed out consumes bytes or ends the parse.\<close>

lemma ap_in_part_progress:
  assumes "ap_in_part a = (Ok (Some part), a')"
  shows "ap_finished a' \<or> length (ap_unread a') < length (ap_unread a)"
proof -
  obtain h where h: "find_sub (CRLF @ CRLF) (ap_unread a) = Some h"
    using assms by (auto simp: ap_in_part_def split: option.splits)
  obtain cd ct hs where p: "parse_part_headers (take h (ap_unread a)) = Ok (cd, ct, hs)"
    using assms h by (auto simp: ap_in_part_def split: result.splits)
  let ?rest = "drop (h + 4) (ap_unread a)"
  obtain e where e: "find_sub (ap_inner a) ?rest = Some e"
    using assms h p by (auto simp: ap_in_part_def Let_def split: option.splits)
  let ?r = "drop (e + length (ap_inner a)) ?rest"
  have l: "length ?r < length (ap_unread a)" using find_sub_le [OF h] by simp
  have "a' = ap_after_part (after_delimiter ?r) a" "after_delimiter ?r \<noteq> Bad"
    using assms h p e by (cases "after_delimiter ?r"; simp add: ap_in_part_def Let_def)+
  then show ?thesis
    using l after_delimiter_length [of ?r] by (cases "after_delimiter ?r") (auto dest: le_less_trans)
qed

lemma ap_search_no_part:
  "ap_initial a \<noteq> (Some (Ok (Some part)), b)" "ap_after_inner a \<noteq> (Some (Ok (Some part)), b)"
  by (auto simp: ap_initial_def ap_after_inner_def split: option.splits after.splits)

lemma ap_search_length:
  "ap_initial a = (None, b) \<Longrightarrow> length (ap_unread b) \<le> length (ap_unread a)"
  "ap_after_inner a = (None, b) \<Longrightarrow> length (ap_unread b) \<le> length (ap_unread a)"
proof -
  assume "ap_initial a = (None, b)"
  then obtain i where "after_delimiter (drop i (ap_unread a)) = NextPart (ap_unread b)"
    by (auto simp: ap_initial_def split: option.splits after.splits)
  then show "length (ap_unread b) \<le> length (ap_unread a)"
    using after_delimiter_length [of "drop i (ap_unread a)" "ap_unread b"] by simp
next
  assume "ap_after_inner a = (None, b)"
  then have "after_delimiter (ap_unread a) = NextPart (ap_unread b)"
    by (auto simp: ap_after_inner_def split: after.splits)
  then show "length (ap_unread b) \<le> length (ap_unread a)" using after_delimiter_length by blast
qed

lemma ap_next_progress:
  assumes "ap_next a = (Ok (Some part), a')"
  shows "ap_finished a' \<or> length (ap_unread a') < length (ap_unread a)"
proof -
  have cont: "\<exists>b. r = (None, b) \<and> ap_in_part b = (Ok (Some part), a')"
    if "ap_continue r = (Ok (Some part), a')" "\<And>b. r \<noteq> (Some (Ok (Some part)), b)" for r
    using that by (cases r rule: ap_continue.cases) auto
  have "\<exists>b. ap_in_part b = (Ok (Some part), a') \<and> length (ap_unread b) \<le> length (ap_unread a)"
  proof (cases "ap_state a")
    case Initial
    then have "ap_continue (ap_initial a) = (Ok (Some part), a')"
      using assms by (simp add: ap_next_def split: if_splits)
    from cont [OF this ap_search_no_part(1)] show ?thesis using ap_search_length(1) by blast
  next
    case AfterInnerDelimiter
    then have "ap_continue (ap_after_inner a) = (Ok (Some part), a')"
      using assms by (simp add: ap_next_def split: if_splits)
    from cont [OF this ap_search_no_part(2)] show ?thesis using ap_search_length(2) by blast
  next
    case InPart
    then show ?thesis using assms by (intro exI [of _ a]) (simp add: ap_next_def split: if_splits)
  next
    case Finished
    then show ?thesis using assms by (simp add: ap_next_def split: if_splits)
  qed
  then obtain b where b: "ap_in_part b = (Ok (Some part), a')" "length (ap_unread b) \<le> length (ap_unread a)" by blast
  from ap_in_part_progress [OF b(1)] b(2) show ?thesis by auto
qed

lemma mp_drain:
  assumes "mp_inv p"
  shows "\<exists>k \<le> Suc (length (mp_buffer p) - mp_pos p).
    \<forall>part. fst (mp_next_part (((\<lambda>q. snd (mp_next_part q)) ^^ k) p)) \<noteq> Ok (Some part)"
  using assms
proof (induction "length (mp_buffer p) - mp_pos p" arbitrary: p rule: less_induct)
  case less
  let ?q = "snd (mp_next_part p)"
  show ?case
  proof (cases "\<exists>part. fst (mp_next_part p) = Ok (Some part)")
    case False
    then show ?thesis by (intro exI [of _ 0]) simp
  next
    case True
    then obtain part where "fst (mp_next_part p) = Ok (Some part)" by blast
    then have a: "ap_next (mp_abs p) = (Ok (Some part), mp_abs ?q)" and q: "mp_inv ?q"
      using mp_next_refines [OF less.prems] by simp_all
    show ?thesis
    proof (cases "mp_finished ?q")
      case True
      then show ?thesis by (intro exI [of _ 1]) (simp add: mp_next_part_def)
    next
      case False
      then have lt: "length (mp_buffer ?q) - mp_pos ?q < length (mp_buffer p) - mp_pos p"
        using ap_next_progress [OF a] by (simp add: mp_abs_def)
      then obtain k where k: "k \<le> Suc (length (mp_buffer ?q) - mp_pos ?q)"
        "\<forall>part. fst (mp_next_part (((\<lambda>q. snd (mp_next_part q)) ^^ k) ?q)) \<noteq> Ok (Some part)"
        using less.hyps [OF lt q] by blast
      have "((\<lambda>q. snd (mp_next_part q)) ^^ k) ?q = ((\<lambda>q. snd (mp_next_part q)) ^^ Suc k) p"
        by (simp only: funpow_Suc_right comp_apply)
      with k lt show ?thesis by (intro exI [of _ "Suc k"]) simp
    qed
  qed
qed

text \<open>
  C36. The loop \<open>while let Some(part) = parser.next_part()?\<close> ends: in whatever state a parser is
  after any sequence of \<open>feed\<close> and \<open>next_part\<close> calls, among as many further calls as it has unread
  bytes, plus two, one returns something else than a part.
\<close>

theorem multipart_draining_terminates:
  "let p = snd (run_ops mp_op_step ops (mp_with_max_buffer_size (mp_new boundary) limit))
   in \<exists>k \<le> Suc (length (mp_buffer p) - mp_pos p).
        \<forall>part. fst (mp_next_part (((\<lambda>q. snd (mp_next_part q)) ^^ k) p)) \<noteq> Ok (Some part)"
  unfolding Let_def by (rule mp_drain [OF mpr.run_invariant [OF mp_new_inv]])

end
