(* ===== verification/Multipart_Roundtrip.thy ===== *)
theory Multipart_Roundtrip
  imports Multipart_Correct
begin

text \<open>
  What the multipart builder writes, the multipart parser reads: the printed headers of a part
  hold no line break, so the parser finds their end, and a body that does not hold the delimiter
  ends where the builder ended it.
\<close>

section \<open>Searching behind text without the first byte\<close>

lemma find_sub_at:
  assumes "n \<noteq> []" "\<forall>j < length a. \<not> starts_with (drop j (a @ n @ r)) n"
  shows "find_sub n (a @ n @ r) = Some (length a)"
  using assms by (simp add: find_sub_Some_iff)

lemma starts_with_Cons: "starts_with (c # s) (x # n) \<longleftrightarrow> c = x \<and> starts_with s n"
  by (auto simp: starts_with_def)

lemma starts_with_in: "j < length a \<Longrightarrow> starts_with (drop j a @ s) (x # n) \<Longrightarrow> x \<in> set a"
proof (cases "drop j a")
  case (Cons c l)
  moreover assume "starts_with (drop j a @ s) (x # n)"
  ultimately have "x \<in> set (drop j a)" by (simp add: starts_with_Cons)
  then show ?thesis by (rule in_set_dropD)
qed simp

lemma find_sub_no_first:
  "x \<notin> set a \<Longrightarrow> find_sub (x # n) (a @ (x # n) @ r) = Some (length a)"
  using starts_with_in by (intro find_sub_at) auto

lemma find_sub_absent: "x \<notin> set a \<Longrightarrow> find_sub (x # n) a = None"
proof -
  assume x: "x \<notin> set a"
  have "\<not> starts_with (drop j a) (x # n)" for j
  proof (cases "j < length a")
    case True
    then show ?thesis using starts_with_in [of j a "[]" x n] x by auto
  next
    case False
    then show ?thesis by (simp add: starts_with_def)
  qed
  then show ?thesis by (simp add: find_sub_None_iff)
qed

text \<open>A delimiter whose first byte occurs nowhere else in it cannot straddle its own copy.\<close>

lemma find_sub_delimiter:
  assumes "find_sub (x # n) body = None" "x \<notin> set n"
  shows "find_sub (x # n) (body @ (x # n) @ r) = Some (length body)"
proof (rule find_sub_at)
  show "\<forall>j < length body. \<not> starts_with (drop j (body @ (x # n) @ r)) (x # n)"
  proof (intro allI impI notI)
    fix j assume j: "j < length body" and s: "starts_with (drop j (body @ (x # n) @ r)) (x # n)"
    have no: "\<not> starts_with (drop j body) (x # n)" using assms(1) by (auto simp: find_sub_None_iff)
    show False
    proof (cases "j + length (x # n) \<le> length body")
      case True
      with no s show False by (simp add: starts_with_def)
    next
      case False
      define k where "k = length body - j"
      have k: "0 < k" "k < length (x # n)" using j False by (auto simp: k_def)
      have "take (length (x # n)) (drop j body @ (x # n) @ r) = x # n" using s j by (simp add: starts_with_def)
      then have "(drop j body @ (x # n) @ r) ! k = (x # n) ! k"
        using k by (metis nth_take)
      moreover have "(drop j body @ (x # n) @ r) ! k = x" by (simp add: k_def nth_append)
      ultimately have "n ! (k - 1) = x" using k by (cases k) auto
      with k assms(2) show False by (metis One_nat_def Suc_pred length_Cons not_less_eq nth_mem)
    qed
  qed
qed simp

section \<open>Printed headers are lines\<close>

definition line_text :: "string \<Rightarrow> bool" where
  "line_text s \<longleftrightarrow> CR \<notin> set s \<and> valid_utf8 s"

lemma plain_not_CR: "plain c \<Longrightarrow> c \<noteq> CR"
  by (auto simp: plain_def is_whitespace_cp_def)

lemma line_text_ascii: "list_all (\<lambda>c. u8 c < 0x80 \<and> c \<noteq> CR) s \<Longrightarrow> line_text s"
proof -
  assume a: "list_all (\<lambda>c. u8 c < 0x80 \<and> c \<noteq> CR) s"
  then have "list_all (\<lambda>c. u8 c < 0x80) s" "CR \<notin> set s" by (auto simp: list_all_iff)
  then show ?thesis by (simp add: line_text_def valid_utf8_ascii)
qed

lemma line_text_plain: "list_all plain s \<Longrightarrow> line_text s"
  by (rule line_text_ascii) (auto simp: list_all_iff plain_def is_whitespace_cp_def)

lemma line_text_append: "line_text a \<Longrightarrow> line_text b \<Longrightarrow> line_text (a @ b)"
  by (simp add: line_text_def valid_utf8_append)

lemma line_text_Cons: "u8 c < 0x80 \<Longrightarrow> c \<noteq> CR \<Longrightarrow> line_text b \<Longrightarrow> line_text (c # b)"
  by (simp add: line_text_def valid_utf8_Cons_ascii)

lemma line_text_concat: "list_all line_text xs \<Longrightarrow> line_text (concat xs)"
  by (induction xs) (simp_all add: line_text_append, simp add: line_text_def)

lemma good_slice_CR: "good_slice c \<Longrightarrow> CR \<in> set c \<Longrightarrow> c = [CR]"
proof -
  assume g: "good_slice c" "CR \<in> set c"
  then obtain a b where "c = a @ CR # b" by (meson split_list)
  then have "char_slices c = char_slices a @ [CR] # char_slices b" by (simp add: char_slices_append_ascii)
  with g(1) have "length (char_slices a @ [CR] # char_slices b) = 1" "[c] = char_slices a @ [CR] # char_slices b"
    by (simp_all add: good_slice_def)
  then show ?thesis by (cases "char_slices a") auto
qed

lemma escape_char_line: "good_slice c \<Longrightarrow> line_text (escape_char c)"
proof -
  assume g: "good_slice c"
  have "CR \<notin> set (escape_char c)"
    using good_slice_CR [OF g] by (auto simp: escape_char_def is_quoted_pair_char_def)
  then show ?thesis using escape_char_slices(1) [OF g] by (simp add: line_text_def)
qed

lemma escape_quotes_line: "valid_utf8 v \<Longrightarrow> line_text (escape_quotes v)"
  unfolding escape_quotes_def
  by (rule line_text_concat) (auto simp: list_all_iff valid_utf8_iff escape_char_line)

lemma quoted_line: "valid_utf8 v \<Longrightarrow> line_text (DQUOTE # escape_quotes v @ [DQUOTE])"
  by (intro line_text_Cons line_text_append escape_quotes_line) (simp_all add: line_text_ascii)

lemma value_text_line: "quotable v \<Longrightarrow> line_text (value_text v)"
proof (cases "needs_quoting v")
  case True
  assume "quotable v"
  with True show ?thesis by (simp add: value_text_def quotable_def quoted_line)
next
  case False
  then have "is_valid_token v" by (simp add: not_needs_quoting)
  with False show ?thesis by (simp add: value_text_def line_text_plain valid_token_plain)
qed

lemma ContentType_display_line: "content_type_ok ct \<Longrightarrow> line_text (ContentType_display ct)"
proof -
  assume ok: "content_type_ok ct"
  have "line_text (ct_parameter_display nv)" if "param_ok nv" for nv
  proof (cases nv)
    case (Pair n v)
    with that have "line_text n" "line_text (value_text v)"
      by (simp_all add: param_ok_iff line_text_plain valid_token_plain value_text_line)
    with Pair show ?thesis by (auto simp: ct_parameter_display_eq intro!: line_text_Cons line_text_append)
  qed
  then have "list_all line_text (map ct_parameter_display (ct_parameters ct))"
    using ok by (auto simp: content_type_ok_def list_all_iff)
  moreover have "line_text (ct_media_type ct)" "line_text (ct_subtype ct)" "line_text ''/''"
    using ok by (simp_all add: content_type_ok_def line_text_plain valid_token_plain line_text_ascii)
  ultimately show ?thesis
    unfolding ContentType_display_def by (intro line_text_append line_text_concat)
qed

lemma cd_pieces_line:
  assumes "cd_ok cd" "(n, v) \<in> set (cd_pieces cd)"
  shows "line_text (n @ CHR ''='' # v)"
proof -
  have e: "line_text (CHR 0x27 # CHR 0x27 # encode_ext_value x)" for x
    using encode_ext_value_ascii [of x] by (intro line_text_plain) (auto simp: list_all_iff plain_def is_whitespace_cp_def)
  have n: "line_text ''name=''" "line_text ''filename=''" "line_text ''filename*=UTF-8''"
    by (simp_all add: line_text_ascii)
  note q = line_text_append [OF n(1) quoted_line] line_text_append [OF n(2) quoted_line] line_text_append [OF n(3) e]
  show ?thesis
    using assms q
    by (cases "cd_name cd"; cases "cd_filename cd"; cases "cd_filename_ext cd") (auto simp: cd_pieces_def cd_ok_def)
qed

lemma ContentDisposition_display_line: "cd_ok cd \<Longrightarrow> line_text (ContentDisposition_display cd)"
proof -
  assume ok: "cd_ok cd"
  have "line_text (DispositionType_display (cd_disposition_type cd))"
    using ok by (auto simp: cd_ok_def known_type_def line_text_ascii)
  moreover have "line_text (concat (map (\<lambda>p. CHR '';'' # SP # p) (map (\<lambda>(n, v). n @ CHR ''='' # v) (cd_pieces cd))))"
    using cd_pieces_line [OF ok] by (intro line_text_concat) (auto simp: list_all_iff intro!: line_text_Cons)
  ultimately show ?thesis using ok by (simp add: cd_display_pieces cd_ok_def line_text_append)
qed

section \<open>The headers of a part\<close>

text \<open>A part the builder's interface makes, with a name and texts that a quoted string can carry.\<close>

definition part_ok :: "Part \<Rightarrow> bool" where
  "part_ok pt \<longleftrightarrow>
     (case pt_content_disposition pt of
        None \<Rightarrow> False
      | Some cd \<Rightarrow> cd_ok cd \<and> cd_is_form_data cd \<and> cd_name cd \<noteq> None
          \<and> opt_all quotable (cd_name cd) \<and> opt_all quotable (cd_filename cd))
     \<and> (case pt_content_type pt of None \<Rightarrow> True | Some ct \<Rightarrow> content_type_ok ct)
     \<and> pt_headers pt = []"

definition part_lines :: "Part \<Rightarrow> string list" where
  "part_lines pt =
     (case pt_content_disposition pt of Some cd \<Rightarrow> [''Content-Disposition: '' @ ContentDisposition_display cd] | None \<Rightarrow> [])
     @ (case pt_content_type pt of Some ct \<Rightarrow> [''Content-Type: '' @ ContentType_display ct] | None \<Rightarrow> [])"

lemma build_part_lines:
  "pt_headers pt = [] \<Longrightarrow>
   build_part boundary pt = ''--'' @ boundary @ CRLF @ concat (map (\<lambda>l. l @ CRLF) (part_lines pt)) @ CRLF @ pt_body pt @ CRLF"
  by (simp add: build_part_def part_lines_def split: option.splits)

lemma part_lines_ok:
  assumes "part_ok pt"
  shows "list_all (\<lambda>l. line_text l \<and> l \<noteq> []) (part_lines pt) \<and> part_lines pt \<noteq> []"
proof -
  have p: "line_text ''Content-Disposition: ''" "line_text ''Content-Type: ''" by (simp_all add: line_text_ascii)
  show ?thesis
    using assms line_text_append [OF p(1) ContentDisposition_display_line] line_text_append [OF p(2) ContentType_display_line]
    by (auto simp: part_ok_def part_lines_def split: option.splits)
qed

text \<open>The lines joined with CRLF: where they end, and how they are split.\<close>

fun join_crlf :: "string list \<Rightarrow> string" where
  "join_crlf [] = []"
| "join_crlf [l] = l"
| "join_crlf (l # m # ls) = l @ CRLF @ join_crlf (m # ls)"

lemma join_crlf_concat: "ls \<noteq> [] \<Longrightarrow> concat (map (\<lambda>l. l @ CRLF) ls) = join_crlf ls @ CRLF"
  by (induction ls rule: join_crlf.induct) auto

lemma split_sub_join:
  assumes "list_all (\<lambda>l. CR \<notin> set l) ls" "ls \<noteq> []"
  shows "split_sub CRLF (join_crlf ls) = ls"
  using assms
proof (induction ls rule: join_crlf.induct)
  case (2 l)
  then have "find_sub CRLF l = None"
    using find_sub_absent [of CR l "[LF]"] by simp
  then show ?case by (simp add: split_sub.simps)
next
  case (3 l m ls)
  then have "find_sub CRLF (l @ CRLF @ join_crlf (m # ls)) = Some (length l)"
    using find_sub_no_first [of CR l "[LF]" "join_crlf (m # ls)"] by simp
  then have "split_sub CRLF (join_crlf (l # m # ls)) = l # split_sub CRLF (join_crlf (m # ls))"
    by (subst split_sub.simps) simp
  with 3 show ?case by simp
qed simp

lemma find_blank_line:
  assumes "list_all (\<lambda>l. CR \<notin> set l \<and> l \<noteq> []) ls" "ls \<noteq> []"
  shows "find_sub (CRLF @ CRLF) (join_crlf ls @ CRLF @ CRLF @ r) = Some (length (join_crlf ls))"
  using assms
proof (induction ls rule: join_crlf.induct)
  case (2 l)
  then show ?case using find_sub_no_first [of CR l "[LF, CR, LF]" r] by simp
next
  case (3 l m ls)
  let ?t = "join_crlf (m # ls) @ CRLF @ CRLF @ r"
  have l: "CR \<notin> set l" "CR \<notin> set m" "m \<noteq> []" using "3.prems" by auto
  obtain c t where c: "?t = c # t" "c \<noteq> CR"
    using l(2,3) by (cases m; cases ls) auto
  let ?h = "l @ CRLF @ ?t"
  have "\<forall>j < length l + 2. \<not> starts_with (drop j ?h) (CRLF @ CRLF)"
  proof (intro allI impI)
    fix j assume "j < length l + 2"
    then consider "j < length l" | "j = length l" | "j = length l + 1" by linarith
    then show "\<not> starts_with (drop j ?h) (CRLF @ CRLF)"
    proof cases
      case 1
      then show ?thesis using starts_with_in [of j l "CRLF @ ?t" CR "[LF, CR, LF]"] l(1) by auto
    qed (use c in \<open>simp_all add: starts_with_Cons\<close>)
  qed
  then have "find_sub (CRLF @ CRLF) ?h = map_option (\<lambda>i. length l + 2 + i) (find_sub (CRLF @ CRLF) (drop (length l + 2) ?h))"
    by (intro find_sub_skip) auto
  moreover have "drop (length l + 2) ?h = ?t" by simp
  moreover have "find_sub (CRLF @ CRLF) ?t = Some (length (join_crlf (m # ls)))" using "3.IH" "3.prems" by simp
  ultimately show ?case by simp
qed simp

lemma valid_utf8_join_crlf: "list_all line_text ls \<Longrightarrow> valid_utf8 (join_crlf ls)"
  by (induction ls rule: join_crlf.induct) (auto simp: line_text_def valid_utf8_append valid_utf8_Cons_ascii)

text \<open>A header line: the field name, a colon, a space, and a value with plain ends.\<close>

lemma header_line_parts:
  assumes "CHR '':'' \<notin> set n" "str_trim v = v"
  shows "split_once CHR '':'' (n @ CHR '':'' # SP # v) = Some (n, SP # v)" "str_trim (SP # v) = v"
  using assms by (simp_all add: split_once_Some_iff)

lemma cd_parse_same:
  assumes "cd_ok cd" "opt_all quotable (cd_name cd)" "opt_all quotable (cd_filename cd)"
  shows "ContentDisposition_parse (ContentDisposition_display cd) = Ok cd"
proof -
  have "map_option sanitize x = x" if "opt_all quotable x" for x
    using that sanitize_id by (cases x) (auto simp: quotable_def)
  with assms show ?thesis by (simp add: ContentDisposition_parse_display)
qed

lemma part_headers_loop_lines:
  assumes "part_ok pt" "pt_content_disposition pt = Some cd"
  shows "part_headers_loop (part_lines pt) None None [] = (Some cd, pt_content_type pt, [])"
proof -
  have cd: "cd_ok cd" "ContentDisposition_parse (ContentDisposition_display cd) = Ok cd"
    using assms cd_parse_same by (simp_all add: part_ok_def)
  have n: "str_trim ''Content-Disposition'' = ''Content-Disposition''" "str_trim ''Content-Type'' = ''Content-Type''"
    by (rule str_trim_plain; simp add: plain_def is_whitespace_cp_def)+
  have c: "\<not> eq_ignore_ascii_case ''Content-Type'' ''Content-Disposition''" by code_simp
  note h = header_line_parts [of "''Content-Disposition''", OF _ ContentDisposition_display_trim [OF cd(1)], simplified]
  note t = header_line_parts [of "''Content-Type''", OF _ ContentType_display_trim, simplified]
  have one: "part_headers_loop ((''Content-Disposition: '' @ ContentDisposition_display cd) # ls) None None []
      = part_headers_loop ls (Some cd) None []" for ls
    using cd(2) by (simp add: h n Let_def result_ok_def)
  have two: "part_headers_loop [''Content-Type: '' @ ContentType_display ct] x None [] = (x, Some ct, [])"
    if "content_type_ok ct" for x ct
    using ContentType_parse_display [OF that] by (simp add: t [OF that] n c Let_def result_ok_def)
  show ?thesis
    using assms one two by (cases "pt_content_type pt") (simp_all add: part_lines_def part_ok_def)
qed

lemma parse_part_lines:
  assumes "part_ok pt" "pt_content_disposition pt = Some cd"
  shows "parse_part_headers (join_crlf (part_lines pt)) = Ok (cd, pt_content_type pt, [])"
proof -
  have l: "list_all line_text (part_lines pt)" "part_lines pt \<noteq> []" "list_all (\<lambda>l. CR \<notin> set l) (part_lines pt)"
    using part_lines_ok [OF assms(1)] by (auto simp: list_all_iff line_text_def)
  have "from_utf8 (join_crlf (part_lines pt)) = Ok (join_crlf (part_lines pt))"
    using valid_utf8_join_crlf [OF l(1)] by (simp add: from_utf8_Ok_iff)
  then show ?thesis
    using assms split_sub_join [OF l(3,2)] part_headers_loop_lines [OF assms]
    by (auto simp: parse_part_headers_def part_ok_def)
qed

section \<open>Whole bodies\<close>

abbreviation delim :: "string \<Rightarrow> string" where
  "delim boundary \<equiv> CRLF @ ''--'' @ boundary"

text \<open>The text from behind the delimiter of a part to the end of the body.\<close>

fun parts_text :: "string \<Rightarrow> Part list \<Rightarrow> string" where
  "parts_text boundary [] = ''--'' @ CRLF"
| "parts_text boundary (pt # pts) =
     CRLF @ join_crlf (part_lines pt) @ CRLF @ CRLF @ pt_body pt @ delim boundary @ parts_text boundary pts"

lemma build_parts_text:
  assumes "list_all part_ok pts"
  shows "concat (map (build_part boundary) pts) @ ''--'' @ boundary @ ''--'' @ CRLF
           = ''--'' @ boundary @ parts_text boundary pts"
  using assms
proof (induction pts)
  case (Cons pt pts)
  then have "pt_headers pt = []" "part_lines pt \<noteq> []" using part_lines_ok [of pt] by (auto simp: part_ok_def)
  with Cons show ?case by (simp add: build_part_lines join_crlf_concat)
qed simp

definition body_ok :: "string \<Rightarrow> Part \<Rightarrow> bool" where
  "body_ok boundary pt \<longleftrightarrow> find_sub (delim boundary) (pt_body pt) = None"

lemma after_delimiter_parts:
  "after_delimiter (parts_text boundary []) = Closed"
  "after_delimiter (parts_text boundary (pt # pts)) = NextPart (drop 2 (parts_text boundary (pt # pts)))"
  by (simp_all add: after_delimiter_def is_padding_def Let_def)

lemma drop_two: "drop (length x + length y) (x @ y @ z) = z"
  by simp

text \<open>One part: from its headers to behind its delimiter.\<close>

lemma ap_in_part_text:
  assumes "part_ok pt" "body_ok boundary pt" "CR \<notin> set boundary" "ap_inner a = delim boundary"
    "ap_unread a = drop 2 (parts_text boundary (pt # pts))"
  shows "ap_in_part a = (Ok (Some pt), case pts of
      [] \<Rightarrow> a\<lparr>ap_finished := True, ap_state := Finished\<rparr>
    | _ \<Rightarrow> a\<lparr>ap_unread := drop 2 (parts_text boundary pts)\<rparr>)"
proof -
  let ?H = "join_crlf (part_lines pt)"
  let ?rest = "pt_body pt @ delim boundary @ parts_text boundary pts"
  have u: "ap_unread a = ?H @ CRLF @ CRLF @ ?rest" using assms(5) by simp
  have l: "list_all (\<lambda>l. CR \<notin> set l \<and> l \<noteq> []) (part_lines pt)" "part_lines pt \<noteq> []"
    using part_lines_ok [OF assms(1)] by (auto simp: list_all_iff line_text_def)
  have f: "find_sub (CRLF @ CRLF) (ap_unread a) = Some (length ?H)"
    unfolding u by (rule find_blank_line [OF l])
  have d: "drop (length ?H + 4) (ap_unread a) = ?rest" "take (length ?H) (ap_unread a) = ?H"
    unfolding u by simp_all
  have b: "find_sub (ap_inner a) ?rest = Some (length (pt_body pt))"
    using find_sub_delimiter [of CR "LF # ''--'' @ boundary" "pt_body pt" "parts_text boundary pts"] assms(2,3)
    by (simp add: assms(4) body_ok_def)
  obtain cd where cd: "pt_content_disposition pt = Some cd"
    using assms(1) by (auto simp: part_ok_def split: option.splits)
  have h: "pt_headers pt = []" using assms(1) by (simp add: part_ok_def)
  have r: "drop (length (pt_body pt) + length (ap_inner a)) ?rest = parts_text boundary pts"
    using drop_two [of "pt_body pt" "delim boundary" "parts_text boundary pts"] by (simp only: assms(4))
  have p: "\<lparr>pt_content_disposition = Some cd, pt_content_type = pt_content_type pt, pt_headers = [],
            pt_body = take (length (pt_body pt)) ?rest\<rparr> = pt"
    using cd h by (cases pt) simp
  show ?thesis
    unfolding ap_in_part_def f option.case d parse_part_lines [OF assms(1) cd] result.case prod.case Let_def b r p
    by (cases pts) (simp_all add: after_delimiter_parts del: parts_text.simps)
qed

lemma ap_run_parts:
  assumes "list_all part_ok pts" "list_all (body_ok boundary) pts" "CR \<notin> set boundary" "ap_inner a = delim boundary"
    "\<not> ap_finished a" "ap_state a = InPart" "pts \<noteq> []" "ap_unread a = drop 2 (parts_text boundary pts)"
  shows "fst (run_ops ap_op_step (replicate (Suc (length pts)) Next) a) = map (\<lambda>p. Got (Ok (Some p))) pts @ [Got (Ok None)]"
  using assms
proof (induction pts arbitrary: a)
  case (Cons pt pts)
  have n: "ap_next a = (Ok (Some pt), case pts of [] \<Rightarrow> a\<lparr>ap_finished := True, ap_state := Finished\<rparr>
      | _ \<Rightarrow> a\<lparr>ap_unread := drop 2 (parts_text boundary pts)\<rparr>)"
    using Cons.prems ap_in_part_text [of pt boundary a pts] by (simp add: ap_next_def)
  show ?case
  proof (cases pts)
    case Nil
    with n show ?thesis by (simp add: ap_next_def)
  next
    case (Cons q qs)
    let ?b = "a\<lparr>ap_unread := drop 2 (parts_text boundary pts)\<rparr>"
    have "fst (run_ops ap_op_step (replicate (Suc (length pts)) Next) ?b) = map (\<lambda>p. Got (Ok (Some p))) pts @ [Got (Ok None)]"
      using Cons.IH [of ?b] Cons.prems Cons by simp
    with n Cons show ?thesis by (simp add: case_prod_beta Let_def)
  qed
qed simp

lemma ap_run_body:
  assumes "list_all part_ok pts" "list_all (body_ok boundary) pts" "CR \<notin> set boundary"
    "ap_inner a = delim boundary" "ap_first a = ''--'' @ boundary" "\<not> ap_finished a" "ap_state a = Initial"
    "ap_unread a = ''--'' @ boundary @ parts_text boundary pts"
  shows "fst (run_ops ap_op_step (replicate (Suc (length pts)) Next) a) = map (\<lambda>p. Got (Ok (Some p))) pts @ [Got (Ok None)]"
proof -
  have f: "find_sub (ap_first a) (ap_unread a) = Some 0"
    by (simp add: assms(5,8) starts_with_def)
  have d: "drop (0 + length (ap_first a)) (ap_unread a) = parts_text boundary pts" by (simp add: assms(5,8))
  show ?thesis
  proof (cases pts)
    case Nil
    have "ap_next a = (Ok None, a\<lparr>ap_finished := True, ap_state := Finished\<rparr>)"
      unfolding ap_next_def ap_initial_def f option.case d using assms(6,7) Nil
      by (simp add: after_delimiter_parts del: parts_text.simps)
    then show ?thesis using Nil by simp
  next
    case (Cons q qs)
    let ?b = "a\<lparr>ap_unread := drop 2 (parts_text boundary pts), ap_state := InPart\<rparr>"
    have "ap_next a = ap_in_part ?b"
      unfolding ap_next_def ap_initial_def f option.case d using assms(6,7) Cons
      by (simp add: after_delimiter_parts del: parts_text.simps)
    moreover have "ap_next ?b = ap_in_part ?b" using assms(6) by (simp add: ap_next_def)
    ultimately have "run_ops ap_op_step (replicate (Suc (length pts)) Next) a
        = run_ops ap_op_step (replicate (Suc (length pts)) Next) ?b" by simp
    then show ?thesis using ap_run_parts [of pts boundary ?b] assms Cons by simp
  qed
qed

text \<open>
  C37. What \<open>MultipartBuilder\<close> builds, \<open>MultipartParser\<close> reads back: a parser that is fed the body
  built from parts made with the builder's interface returns exactly these parts in order and then
  reports the end, provided no part body holds the delimiter and the body is within the limit.
\<close>

theorem multipart_build_parse:
  assumes "list_all part_ok (mb_parts b)" "list_all (body_ok (mb_boundary b)) (mb_parts b)"
    "CR \<notin> set (mb_boundary b)" "length (mb_build b) \<le> limit"
  shows "fst (run_ops mp_op_step (Feed (mb_build b) # replicate (Suc (length (mb_parts b))) Next)
                (mp_with_max_buffer_size (mp_new (mb_boundary b)) limit))
    = Fed (Ok ()) # map (\<lambda>p. Got (Ok (Some p))) (mb_parts b) @ [Got (Ok None)]"
proof -
  let ?a = "ap_new (mb_boundary b) limit"
  let ?f = "?a\<lparr>ap_unread := mb_build b\<rparr>"
  have "ap_feed (mb_build b) ?a = (Ok (), ?f)"
    using assms(4) by (simp add: ap_feed_def ap_new_def Let_def)
  moreover have "mb_build b = ''--'' @ mb_boundary b @ parts_text (mb_boundary b) (mb_parts b)"
    unfolding mb_build_def by (rule build_parts_text [OF assms(1)])
  ultimately have "fst (run_ops ap_op_step (Feed (mb_build b) # replicate (Suc (length (mb_parts b))) Next) ?a)
      = Fed (Ok ()) # map (\<lambda>p. Got (Ok (Some p))) (mb_parts b) @ [Got (Ok None)]"
    using ap_run_body [OF assms(1-3), of ?f]
    by (simp add: ap_new_def case_prod_beta Let_def del: replicate.simps)
  then show ?thesis by (simp only: mpr.run_refines [OF mp_new_inv, unfolded mp_new_abs] fst_conv)
qed

theorem multipart_build_parse_witness:
  "let b = mb_file_field (mb_text_field (mb_with_boundary ''B'') ''a'' ''x'') ''f'' ''n.txt'' ''text/plain'' ''1'';
       ops = Feed (mb_build b) # replicate (Suc (length (mb_parts b))) Next
   in length (mb_parts b) = 2
      \<and> fst (run_ops mp_op_step ops (mp_with_max_buffer_size (mp_new ''B'') 1000))
          = Fed (Ok ()) # map (\<lambda>p. Got (Ok (Some p))) (mb_parts b) @ [Got (Ok None)]"
proof -
  let ?b = "mb_file_field (mb_text_field (mb_with_boundary ''B'') ''a'' ''x'') ''f'' ''n.txt'' ''text/plain'' ''1''"
  have p: "list_all part_ok (mb_parts ?b)" "list_all (body_ok (mb_boundary ?b)) (mb_parts ?b)"
    "CR \<notin> set (mb_boundary ?b)" "length (mb_build ?b) \<le> 1000" "length (mb_parts ?b) = 2" "mb_boundary ?b = ''B''"
    by code_simp+
  from multipart_build_parse [OF p(1-4)] p(5,6) show ?thesis by (simp only: Let_def simp_thms)
qed

end
