(* ===== verification/Uri.thy ===== *)
theory Uri
  imports Str_Valid Host
begin

text \<open>
  \<^verbatim>\<open>src/uri.rs\<close>: percent encoding, the RFC 3986 parser (a \<open>Uri\<close> keeps its text and the
  positions of its components), reference resolution and normalisation. The IP address parsers of
  the standard library are those of \<open>Host\<close>.
\<close>

datatype UriError = UEmpty | UInvalidPercentEncoding | UInvalidPort | UInvalidCharacter string | UInvalidScheme
  | UInvalidHost | UInvalidUtf8 | UInvalidPathCharacter char | UInvalidQueryCharacter char
  | UInvalidFragmentCharacter char | UInvalidUserinfo

section \<open>Character classes\<close>

definition uri_is_unreserved :: "char \<Rightarrow> bool" where
  [class_defs]: "uri_is_unreserved c \<longleftrightarrow>
     is_ascii_alphanumeric c \<or> c = CHR ''-'' \<or> c = CHR ''.'' \<or> c = CHR ''_'' \<or> c = CHR ''~''"

definition uri_is_sub_delim :: "char \<Rightarrow> bool" where
  [class_defs]: "uri_is_sub_delim b \<longleftrightarrow>
     b \<in> set [CHR ''!'', CHR ''$'', CHR ''&'', CHR 0x27, CHR ''('', CHR '')'', CHR ''*'', CHR ''+'',
              CHR '','', CHR '';'', CHR ''='']"

definition is_pchar :: "char \<Rightarrow> bool" where
  [class_defs]: "is_pchar b \<longleftrightarrow> uri_is_unreserved b \<or> uri_is_sub_delim b \<or> b = CHR '':'' \<or> b = CHR ''@''"

definition is_query_or_fragment_char :: "char \<Rightarrow> bool" where
  [class_defs]: "is_query_or_fragment_char b \<longleftrightarrow> is_pchar b \<or> b = CHR ''/'' \<or> b = CHR ''?''"

section \<open>Validation of components\<close>

text \<open>The loops over byte positions are recursions on the bytes that are left.\<close>

fun validate_percent_encoding :: "string \<Rightarrow> (unit, UriError) result" where
  "validate_percent_encoding [] = Ok ()"
| "validate_percent_encoding (b # bs) =
     (if b = CHR ''%'' then
        (case bs of
           h # l # rest \<Rightarrow>
             reject_if (\<not> is_ascii_hexdigit h \<or> \<not> is_ascii_hexdigit l) UInvalidPercentEncoding
               (validate_percent_encoding rest)
         | _ \<Rightarrow> Err UInvalidPercentEncoding)
      else validate_percent_encoding bs)"

fun validate_chars_loop :: "(char \<Rightarrow> bool) \<Rightarrow> (char \<Rightarrow> UriError) \<Rightarrow> string \<Rightarrow> (unit, UriError) result" where
  "validate_chars_loop ok err [] = Ok ()"
| "validate_chars_loop ok err (b # bs) =
     (if b = CHR ''%'' then validate_chars_loop ok err (drop 2 bs)
      else if ok b then validate_chars_loop ok err bs
      else Err (err b))"

definition validate_path :: "string \<Rightarrow> (unit, UriError) result" where
  "validate_path path =
     and_then (validate_percent_encoding path) (\<lambda>_.
       validate_chars_loop (\<lambda>b. is_pchar b \<or> b = CHR ''/'') UInvalidPathCharacter path)"

definition validate_query :: "string \<Rightarrow> (unit, UriError) result" where
  "validate_query query =
     and_then (validate_percent_encoding query) (\<lambda>_.
       validate_chars_loop is_query_or_fragment_char UInvalidQueryCharacter query)"

definition validate_fragment :: "string \<Rightarrow> (unit, UriError) result" where
  "validate_fragment fragment =
     and_then (validate_percent_encoding fragment) (\<lambda>_.
       validate_chars_loop is_query_or_fragment_char UInvalidFragmentCharacter fragment)"

fun pct_loop :: "(char \<Rightarrow> bool) \<Rightarrow> UriError \<Rightarrow> string \<Rightarrow> (unit, UriError) result" where
  "pct_loop ok err [] = Ok ()"
| "pct_loop ok err (b # bs) =
     (if ok b then pct_loop ok err bs
      else if b = CHR ''%'' then
        (case bs of
           h # l # rest \<Rightarrow> reject_if (\<not> is_ascii_hexdigit h \<or> \<not> is_ascii_hexdigit l) err (pct_loop ok err rest)
         | _ \<Rightarrow> Err err)
      else Err err)"

definition validate_reg_name :: "string \<Rightarrow> (unit, UriError) result" where
  "validate_reg_name name = pct_loop (\<lambda>b. uri_is_unreserved b \<or> uri_is_sub_delim b) UInvalidHost name"

definition validate_userinfo :: "string \<Rightarrow> (unit, UriError) result" where
  "validate_userinfo userinfo =
     pct_loop (\<lambda>b. uri_is_unreserved b \<or> uri_is_sub_delim b \<or> b = CHR '':'') UInvalidUserinfo userinfo"

definition validate_ipv_future :: "string \<Rightarrow> (unit, UriError) result" where
  "validate_ipv_future literal =
     and_then (ok_or (position (\<lambda>b. b = CHR ''.'') literal) UInvalidHost) (\<lambda>dot_pos.
       reject_if (dot_pos \<le> 1) UInvalidHost
         (reject_if (\<not> list_all is_ascii_hexdigit (take (dot_pos - 1) (drop 1 literal))) UInvalidHost
           (let after_dot = drop (dot_pos + 1) literal
            in reject_if (after_dot = []) UInvalidHost
                 (reject_if (\<not> list_all (\<lambda>b. uri_is_unreserved b \<or> uri_is_sub_delim b \<or> b = CHR '':'') after_dot)
                    UInvalidHost (Ok ())))))"

definition validate_ip_literal :: "string \<Rightarrow> (unit, UriError) result" where
  "validate_ip_literal literal =
     (if literal = [] then Err UInvalidHost
      else if hd literal = CHR ''v'' \<or> hd literal = CHR ''V'' then validate_ipv_future literal
      else reject_if (\<not> parse_ipv6 literal) UInvalidHost (Ok ()))"

definition validate_host :: "string \<Rightarrow> (unit, UriError) result" where
  "validate_host hst =
     (if hst = [] then Ok ()
      else if starts_with hst ''['' then
        and_then (ok_or (find_char CHR '']'' hst) UInvalidHost) (\<lambda>bracket_end.
          reject_if (bracket_end \<noteq> length hst - 1) UInvalidHost
            (validate_ip_literal (take (bracket_end - 1) (drop 1 hst))))
      else if parse_ipv4 hst then Ok ()
      else validate_reg_name hst)"

section \<open>Percent encoding\<close>

definition to_hex_char :: "nat \<Rightarrow> char" where
  "to_hex_char nibble = (if nibble \<le> 9 then char_of (0x30 + nibble) else char_of (0x41 + nibble - 10))"

definition from_hex_char :: "char \<Rightarrow> nat option" where
  "from_hex_char c =
     (if 0x30 \<le> u8 c \<and> u8 c \<le> 0x39 then Some (u8 c - 0x30)
      else if 0x41 \<le> u8 c \<and> u8 c \<le> 0x46 then Some (u8 c - 0x41 + 10)
      else if 0x61 \<le> u8 c \<and> u8 c \<le> 0x66 then Some (u8 c - 0x61 + 10)
      else None)"

definition percent_byte :: "char \<Rightarrow> string" where
  "percent_byte b = [CHR ''%'', to_hex_char (u8 b div 16), to_hex_char (u8 b mod 16)]"

definition percent_encode :: "string \<Rightarrow> string" where
  "percent_encode input = concat (map (\<lambda>b. if uri_is_unreserved b then [b] else percent_byte b) input)"

definition percent_encode_path :: "string \<Rightarrow> string" where
  "percent_encode_path input =
     concat (map (\<lambda>b. if uri_is_unreserved b \<or> b = CHR ''/'' then [b] else percent_byte b) input)"

definition percent_encode_query :: "string \<Rightarrow> string" where
  "percent_encode_query input =
     concat (map (\<lambda>b. if uri_is_unreserved b \<or> b = CHR ''='' \<or> b = CHR ''&'' then [b] else percent_byte b) input)"

fun percent_decode_loop :: "string \<Rightarrow> string \<Rightarrow> (string, UriError) result" where
  "percent_decode_loop [] res = Ok res"
| "percent_decode_loop (b # bs) res =
     (if b = CHR ''%'' then
        (case bs of
           high # low # rest \<Rightarrow>
             (case from_hex_char high of
                None \<Rightarrow> Err UInvalidPercentEncoding
              | Some h \<Rightarrow>
                  (case from_hex_char low of
                     None \<Rightarrow> Err UInvalidPercentEncoding
                   | Some l \<Rightarrow> percent_decode_loop rest (res @ [char_of (h * 16 + l)])))
         | _ \<Rightarrow> Err UInvalidPercentEncoding)
      else percent_decode_loop bs (res @ [b]))"

definition percent_decode_bytes :: "string \<Rightarrow> (string, UriError) result" where
  "percent_decode_bytes input = percent_decode_loop input []"

definition percent_decode :: "string \<Rightarrow> (string, UriError) result" where
  "percent_decode input =
     and_then (percent_decode_bytes input) (\<lambda>bytes. map_err (\<lambda>_. UInvalidUtf8) (from_utf8 bytes))"

text \<open>\<open>String::push(byte as char)\<close>.\<close>

definition utf8_of_byte :: "char \<Rightarrow> string" where
  "utf8_of_byte b = (if u8 b < 0x80 then [b] else [char_of (0xC0 + u8 b div 64), char_of (0x80 + u8 b mod 64)])"

fun normalize_percent_loop :: "string \<Rightarrow> string \<Rightarrow> (string, UriError) result" where
  "normalize_percent_loop [] res = Ok res"
| "normalize_percent_loop (b # bs) res =
     (if b = CHR ''%'' then
        (case bs of
           high # low # rest \<Rightarrow>
             (case from_hex_char high of
                None \<Rightarrow> Err UInvalidPercentEncoding
              | Some h \<Rightarrow>
                  (case from_hex_char low of
                     None \<Rightarrow> Err UInvalidPercentEncoding
                   | Some l \<Rightarrow>
                       (let decoded = char_of (h * 16 + l)
                        in normalize_percent_loop rest
                             (res @ (if uri_is_unreserved decoded then [decoded] else percent_byte decoded)))))
         | _ \<Rightarrow> Err UInvalidPercentEncoding)
      else normalize_percent_loop bs (res @ utf8_of_byte b))"

definition normalize_percent_encoding :: "string \<Rightarrow> (string, UriError) result" where
  "normalize_percent_encoding input = normalize_percent_loop input []"

section \<open>The parser\<close>

record Uri =
  u_source :: string
  u_scheme_end :: "nat option"
  u_authority_start :: "nat option"
  u_authority_end :: "nat option"
  u_host_end :: "nat option"
  u_port :: "nat option"
  u_path_start :: nat
  u_path_end :: nat
  u_query_start :: "nat option"
  u_query_end :: "nat option"
  u_fragment_start :: "nat option"

definition is_scheme_char :: "char \<Rightarrow> bool" where
  [class_defs]: "is_scheme_char b \<longleftrightarrow> is_ascii_alphanumeric b \<or> b = CHR ''+'' \<or> b = CHR ''-'' \<or> b = CHR ''.''"

fun find_scheme_end_loop :: "string \<Rightarrow> nat \<Rightarrow> nat option" where
  "find_scheme_end_loop [] i = None"
| "find_scheme_end_loop (b # bs) i =
     (if b = CHR '':'' then (if i > 0 then Some i else None)
      else if \<not> is_scheme_char b then None
      else find_scheme_end_loop bs (Suc i))"

definition find_scheme_end :: "string \<Rightarrow> nat option" where
  "find_scheme_end bytes = find_scheme_end_loop bytes 0"

definition parse_authority :: "string \<Rightarrow> (nat \<times> nat option, UriError) result" where
  "parse_authority authority =
     (if authority = [] then Ok (0, None)
      else and_then
        (case rfind_char CHR ''@'' authority of
           Some at_pos \<Rightarrow> and_then (validate_userinfo (take at_pos authority)) (\<lambda>_. Ok (drop (at_pos + 1) authority))
         | None \<Rightarrow> Ok authority)
        (\<lambda>host_part.
           if starts_with host_part ''['' then
             (case find_char CHR '']'' host_part of
                Some bracket_end \<Rightarrow>
                  and_then (validate_ip_literal (take (bracket_end - 1) (drop 1 host_part))) (\<lambda>_.
                    let after_bracket = drop (bracket_end + 1) host_part
                    in if after_bracket = [] then Ok (length authority, None)
                       else case strip_prefix after_bracket '':'' of
                              Some port_str \<Rightarrow>
                                and_then (ok_or (parse_u16 port_str) UInvalidPort) (\<lambda>p.
                                  Ok (length authority - length after_bracket, Some p))
                            | None \<Rightarrow> Err UInvalidHost)
              | None \<Rightarrow> Err UInvalidHost)
           else case rfind_char CHR '':'' host_part of
                  Some colon_pos \<Rightarrow>
                    (let host_str = take colon_pos host_part; port_str = drop (colon_pos + 1) host_part
                     in and_then (validate_host host_str) (\<lambda>_.
                          if port_str \<noteq> [] then
                            and_then (ok_or (parse_u16 port_str) UInvalidPort) (\<lambda>p.
                              let host_end = (case rfind_char CHR ''@'' authority of
                                                Some at_pos \<Rightarrow> at_pos + 1 + colon_pos | None \<Rightarrow> colon_pos)
                              in Ok (host_end, Some p))
                          else Ok (length authority, None)))
                | None \<Rightarrow> and_then (validate_host host_part) (\<lambda>_. Ok (length authority, None))))"

text \<open>\<open>bytes[pos..].iter().position(p).map(|i| pos + i).unwrap_or(len)\<close>.\<close>

definition find_end :: "(char \<Rightarrow> bool) \<Rightarrow> string \<Rightarrow> nat \<Rightarrow> nat" where
  "find_end p bytes pos = (case position p (drop pos bytes) of Some i \<Rightarrow> pos + i | None \<Rightarrow> length bytes)"

definition slice :: "string \<Rightarrow> nat \<Rightarrow> nat \<Rightarrow> string" where
  "slice s a b = take (b - a) (drop a s)"

definition at_byte :: "string \<Rightarrow> nat \<Rightarrow> char \<Rightarrow> bool" where
  "at_byte bytes pos c \<longleftrightarrow> pos < length bytes \<and> bytes ! pos = c"

definition parse_scheme :: "string \<Rightarrow> (nat option \<times> nat, UriError) result" where
  "parse_scheme bytes =
     (case find_scheme_end bytes of
        Some colon_pos \<Rightarrow>
          reject_if (\<not> is_ascii_alphabetic (hd bytes)) UInvalidScheme
            (reject_if (\<not> list_all is_scheme_char (slice bytes 1 colon_pos)) UInvalidScheme
              (Ok (Some colon_pos, colon_pos + 1)))
      | None \<Rightarrow> Ok (None, 0))"

definition parse_authority_at ::
    "string \<Rightarrow> nat \<Rightarrow> (nat option \<times> nat option \<times> nat option \<times> nat option \<times> nat, UriError) result" where
  "parse_authority_at bytes pos =
     (if at_byte bytes pos CHR ''/'' \<and> at_byte bytes (pos + 1) CHR ''/'' then
        (let auth_start = pos + 2;
             auth_end = find_end (\<lambda>b. b = CHR ''/'' \<or> b = CHR ''?'' \<or> b = CHR ''#'') bytes auth_start
         in and_then (parse_authority (slice bytes auth_start auth_end)) (\<lambda>(h_end, p).
              Ok (Some auth_start, Some auth_end, Some (auth_start + h_end), p, auth_end)))
      else Ok (None, None, None, None, pos))"

definition Uri_parse :: "string \<Rightarrow> (Uri, UriError) result" where
  "Uri_parse input =
     (if input = [] then Err UEmpty
      else and_then (parse_scheme input) (\<lambda>(scheme_end, pos1).
           and_then (parse_authority_at input pos1) (\<lambda>(authority_start, authority_end, host_end, prt, pos2).
             let path_start = pos2;
                 path_end = find_end (\<lambda>b. b = CHR ''?'' \<or> b = CHR ''#'') input pos2;
                 (query_start, query_end, pos3) =
                   (if at_byte input path_end CHR ''?'' then
                      (let start = path_end + 1; stop = find_end (\<lambda>b. b = CHR ''#'') input start
                       in (Some start, Some stop, stop))
                    else (None, None, path_end));
                 fragment_start = (if at_byte input pos3 CHR ''#'' then Some (pos3 + 1) else None)
             in and_then (validate_path (slice input path_start path_end)) (\<lambda>_.
                and_then (case (query_start, query_end) of
                            (Some start, Some stop) \<Rightarrow> validate_query (slice input start stop) | _ \<Rightarrow> Ok ()) (\<lambda>_.
                and_then (case fragment_start of Some start \<Rightarrow> validate_fragment (drop start input) | None \<Rightarrow> Ok ()) (\<lambda>_.
                  Ok \<lparr>u_source = input, u_scheme_end = scheme_end, u_authority_start = authority_start,
                      u_authority_end = authority_end, u_host_end = host_end, u_port = prt,
                      u_path_start = path_start, u_path_end = path_end, u_query_start = query_start,
                      u_query_end = query_end, u_fragment_start = fragment_start\<rparr>))))))"

section \<open>Components\<close>

definition u_scheme :: "Uri \<Rightarrow> string option" where
  "u_scheme u = map_option (\<lambda>e. take e (u_source u)) (u_scheme_end u)"

definition u_authority :: "Uri \<Rightarrow> string option" where
  "u_authority u =
     (case (u_authority_start u, u_authority_end u) of
        (Some start, Some stop) \<Rightarrow> Some (slice (u_source u) start stop) | _ \<Rightarrow> None)"

definition u_host :: "Uri \<Rightarrow> string option" where
  "u_host u =
     (case (u_authority_start u, u_host_end u) of
        (Some start, Some stop) \<Rightarrow>
          (let auth = slice (u_source u) start stop
           in case rfind_char CHR ''@'' auth of
                Some at_pos \<Rightarrow> Some (drop (at_pos + 1) auth) | None \<Rightarrow> Some auth)
      | _ \<Rightarrow> None)"

definition u_path :: "Uri \<Rightarrow> string" where
  "u_path u = slice (u_source u) (u_path_start u) (u_path_end u)"

definition u_query :: "Uri \<Rightarrow> string option" where
  "u_query u =
     (case (u_query_start u, u_query_end u) of
        (Some start, Some stop) \<Rightarrow> Some (slice (u_source u) start stop) | _ \<Rightarrow> None)"

definition u_fragment :: "Uri \<Rightarrow> string option" where
  "u_fragment u = map_option (\<lambda>start. drop start (u_source u)) (u_fragment_start u)"

definition origin_form :: "Uri \<Rightarrow> string" where
  "origin_form u =
     (let path = (if u_path u = [] then ''/'' else u_path u)
      in case u_query u of Some query \<Rightarrow> path @ ''?'' @ query | None \<Rightarrow> path)"

definition u_is_absolute :: "Uri \<Rightarrow> bool" where
  "u_is_absolute u \<longleftrightarrow> u_scheme_end u \<noteq> None"

definition u_is_relative :: "Uri \<Rightarrow> bool" where
  "u_is_relative u \<longleftrightarrow> u_scheme_end u = None"

section \<open>Resolution and normalisation\<close>

text \<open>
  \<open>remove_dot_segments\<close> walks over the path; \<open>rest\<close> is \<open>path[i..]\<close> and \<open>output\<close> the vector
  of slices pushed so far.
\<close>

definition first_segment :: "string \<Rightarrow> string" where
  "first_segment rest =
     (case rest of
        [] \<Rightarrow> []
      | c # cs \<Rightarrow> if c = CHR ''/'' then c # takeWhile (\<lambda>b. b \<noteq> CHR ''/'') cs
                  else takeWhile (\<lambda>b. b \<noteq> CHR ''/'') rest)"

lemma first_segment_length: "rest \<noteq> [] \<Longrightarrow> 0 < length (first_segment rest)"
  by (cases rest) (auto simp: first_segment_def)

function remove_dot_loop :: "string \<Rightarrow> string list \<Rightarrow> string list" where
  "remove_dot_loop rest output =
     (if rest = [] then output
      else if starts_with rest ''../'' then remove_dot_loop (drop 3 rest) output
      else if starts_with rest ''./'' then remove_dot_loop (drop 2 rest) output
      else if starts_with rest ''/./'' then remove_dot_loop (drop 2 rest) output
      else if rest = ''/.'' then output @ [''/'']
      else if starts_with rest ''/../'' then remove_dot_loop (drop 3 rest) (butlast output)
      else if rest = ''/..'' then butlast output @ [''/'']
      else if rest = ''.'' \<or> rest = ''..'' then output
      else remove_dot_loop (drop (length (first_segment rest)) rest) (output @ [first_segment rest]))"
  by pat_completeness auto
termination
proof (relation "measure (\<lambda>(rest, output). length rest)", goal_cases)
  case (6 rest out)
  then show ?case using first_segment_length [of rest] by simp
qed auto

declare remove_dot_loop.simps [simp del]

definition remove_dot_segments :: "string \<Rightarrow> string" where
  "remove_dot_segments path = concat (remove_dot_loop path [])"

definition first_segment_contains_colon :: "string \<Rightarrow> bool" where
  "first_segment_contains_colon path \<longleftrightarrow> CHR '':'' \<in> set (hd (split_on CHR ''/'' path))"

definition build_uri ::
    "string option \<Rightarrow> string option \<Rightarrow> string \<Rightarrow> string option \<Rightarrow> string option \<Rightarrow> string" where
  "build_uri scheme authority path query fragment =
     (case scheme of Some s \<Rightarrow> s @ '':'' | None \<Rightarrow> [])
     @ (case authority of
          Some a \<Rightarrow> ''//'' @ a
        | None \<Rightarrow> if starts_with path ''//'' then ''/.''
                  else if scheme = None \<and> first_segment_contains_colon path then ''./''
                  else [])
     @ path
     @ (case query of Some q \<Rightarrow> ''?'' @ q | None \<Rightarrow> [])
     @ (case fragment of Some f \<Rightarrow> ''#'' @ f | None \<Rightarrow> [])"

definition merge_paths :: "Uri \<Rightarrow> string \<Rightarrow> string" where
  "merge_paths base reference_path =
     (if u_authority base \<noteq> None \<and> u_path base = [] then ''/'' @ reference_path
      else case rfind_char CHR ''/'' (u_path base) of
             Some last_slash \<Rightarrow> take (last_slash + 1) (u_path base) @ reference_path
           | None \<Rightarrow> reference_path)"

definition resolve :: "Uri \<Rightarrow> Uri \<Rightarrow> (Uri, UriError) result" where
  "resolve base reference =
     (if u_is_absolute reference then
        Uri_parse (build_uri (u_scheme reference) (u_authority reference) (remove_dot_segments (u_path reference))
          (u_query reference) (u_fragment reference))
      else if u_authority reference \<noteq> None then
        Uri_parse (build_uri (u_scheme base) (u_authority reference) (remove_dot_segments (u_path reference))
          (u_query reference) (u_fragment reference))
      else if u_path reference = [] then
        (let query = (case u_query reference of Some q \<Rightarrow> Some q | None \<Rightarrow> u_query base)
         in Uri_parse (build_uri (u_scheme base) (u_authority base) (u_path base) query (u_fragment reference)))
      else
        (let path = (if starts_with (u_path reference) ''/'' then remove_dot_segments (u_path reference)
                     else remove_dot_segments (merge_paths base (u_path reference)))
         in Uri_parse (build_uri (u_scheme base) (u_authority base) path (u_query reference) (u_fragment reference))))"

definition normalize_host_port :: "string \<Rightarrow> string" where
  "normalize_host_port host_port =
     (case Option.bind (strip_prefix host_port ''['') (find_char CHR '']'') of
        Some bracket_end \<Rightarrow>
          to_ascii_lowercase (take (bracket_end + 2) host_port) @ drop (bracket_end + 2) host_port
      | None \<Rightarrow>
          (case rfind_char CHR '':'' host_port of
             Some colon_pos \<Rightarrow> to_ascii_lowercase (take colon_pos host_port) @ drop colon_pos host_port
           | None \<Rightarrow> to_ascii_lowercase host_port))"

definition normalize_authority :: "string \<Rightarrow> string" where
  "normalize_authority authority =
     (case rfind_char CHR ''@'' authority of
        Some at_pos \<Rightarrow> take at_pos authority @ ''@'' @ normalize_host_port (drop (at_pos + 1) authority)
      | None \<Rightarrow> normalize_host_port authority)"

definition normalize_option :: "string option \<Rightarrow> (string option, UriError) result" where
  "normalize_option x =
     (case x of None \<Rightarrow> Ok None | Some s \<Rightarrow> and_then (normalize_percent_encoding s) (\<lambda>n. Ok (Some n)))"

definition uri_normalize :: "Uri \<Rightarrow> (Uri, UriError) result" where
  "uri_normalize uri =
     (let scheme = map_option to_ascii_lowercase (u_scheme uri);
          authority = map_option normalize_authority (u_authority uri)
      in and_then (normalize_percent_encoding (u_path uri)) (\<lambda>path0.
         let path = remove_dot_segments path0
         in and_then (normalize_option (u_query uri)) (\<lambda>query.
            and_then (normalize_option (u_fragment uri)) (\<lambda>fragment.
              Uri_parse (build_uri scheme authority path query fragment)))))"

end
