(* ===== verification/Uri_Correct.thy ===== *)
theory Uri_Correct
  imports Uri
begin

text \<open>
  Percent encoding is undone by decoding, and \<open>remove_dot_segments\<close>, which keeps a vector of
  slices, implements the string-buffer algorithm of RFC 3986 Section 5.2.4.
\<close>

section \<open>Percent encoding\<close>

lemma hex_char_roundtrip: "d < 16 \<Longrightarrow> from_hex_char (to_hex_char d) = Some d"
proof -
  assume "d < 16"
  then have "u8 (to_hex_char d) = (if d \<le> 9 then 0x30 + d else 0x37 + d)" by (auto simp: to_hex_char_def)
  with \<open>d < 16\<close> show ?thesis by (auto simp: from_hex_char_def)
qed

lemma percent_decode_byte: "percent_decode_loop (percent_byte b @ r) res = percent_decode_loop r (res @ [b])"
proof -
  have d: "u8 b div 16 < 16" "u8 b mod 16 < 16" by (simp_all add: less_mult_imp_div_less)
  show ?thesis by (simp add: percent_byte_def hex_char_roundtrip [OF d(1)] hex_char_roundtrip [OF d(2)])
qed

lemma percent_decode_encoded:
  assumes "\<not> keep CHR ''%''"
  shows "percent_decode_loop (concat (map (\<lambda>b. if keep b then [b] else percent_byte b) s)) res = Ok (res @ s)"
proof (induction s arbitrary: res)
  case (Cons b s)
  show ?case
  proof (cases "keep b")
    case True
    with assms have "b \<noteq> CHR ''%''" by auto
    with True Cons show ?thesis by simp
  qed (simp add: Cons percent_decode_byte)
qed simp

lemma percent_encode_decode:
  "percent_decode_bytes (percent_encode s) = Ok s"
  "percent_decode_bytes (percent_encode_path s) = Ok s"
  "percent_decode_bytes (percent_encode_query s) = Ok s"
  unfolding percent_decode_bytes_def percent_encode_def percent_encode_path_def percent_encode_query_def
  by (subst percent_decode_encoded; simp add: uri_is_unreserved_def is_ascii_alphanumeric_def is_ascii_alphabetic_def is_ascii_digit_def)+

lemma percent_decode_encode: "valid_utf8 s \<Longrightarrow> percent_decode (percent_encode s) = Ok s"
  by (simp add: percent_decode_def percent_encode_decode from_utf8_Ok_iff map_err_Ok_iff)

section \<open>The reference algorithm\<close>

lemma starts_with_iff: "starts_with s p \<longleftrightarrow> (\<exists>t. s = p @ t)"
  by (metis starts_withE starts_with_append)

definition remove_last_segment :: "string \<Rightarrow> string" where
  "remove_last_segment out = (case rfind_char CHR ''/'' out of Some i \<Rightarrow> take i out | None \<Rightarrow> [])"

function rfc3986_loop :: "string \<Rightarrow> string \<Rightarrow> string" where
  "rfc3986_loop inp out =
     (if inp = [] then out
      else if starts_with inp ''../'' then rfc3986_loop (drop 3 inp) out
      else if starts_with inp ''./'' then rfc3986_loop (drop 2 inp) out
      else if starts_with inp ''/./'' then rfc3986_loop (''/'' @ drop 3 inp) out
      else if inp = ''/.'' then rfc3986_loop ''/'' out
      else if starts_with inp ''/../'' then rfc3986_loop (''/'' @ drop 4 inp) (remove_last_segment out)
      else if inp = ''/..'' then rfc3986_loop ''/'' (remove_last_segment out)
      else if inp = ''.'' \<or> inp = ''..'' then rfc3986_loop [] out
      else rfc3986_loop (drop (length (first_segment inp)) inp) (out @ first_segment inp))"
  by pat_completeness auto
termination
proof (relation "measure (\<lambda>(inp, out). length inp)", goal_cases)
  case (4 inp out)
  then show ?case by (auto simp: starts_with_iff)
next
  case (6 inp out)
  then show ?case by (auto simp: starts_with_iff)
next
  case (9 inp out)
  then show ?case using first_segment_length [of inp] by simp
qed auto

declare rfc3986_loop.simps [simp del]

definition rfc3986_remove_dot_segments :: "string \<Rightarrow> string" where
  "rfc3986_remove_dot_segments inp = rfc3986_loop inp []"

section \<open>Refinement\<close>

text \<open>A pushed slice: a segment with its slash, or, only first, a segment without.\<close>

definition slash_seg :: "string \<Rightarrow> bool" where
  "slash_seg s \<longleftrightarrow> (\<exists>t. s = CHR ''/'' # t \<and> CHR ''/'' \<notin> set t \<and> t \<noteq> ''.'' \<and> t \<noteq> ''..'')"

definition bare_seg :: "string \<Rightarrow> bool" where
  "bare_seg s \<longleftrightarrow> CHR ''/'' \<notin> set s \<and> s \<noteq> [] \<and> s \<noteq> ''.'' \<and> s \<noteq> ''..''"

fun segs_ok :: "string list \<Rightarrow> bool" where
  "segs_ok [] = True"
| "segs_ok (s # ss) = ((slash_seg s \<or> bare_seg s) \<and> list_all slash_seg ss)"

definition slashed :: "string \<Rightarrow> bool" where
  "slashed rest \<longleftrightarrow> rest = [] \<or> hd rest = CHR ''/''"

lemma segs_ok_butlast: "segs_ok out \<Longrightarrow> segs_ok (butlast out)"
  by (cases out) (auto simp: list_all_iff dest: in_set_butlastD)

lemma rfind_slash_seg: "slash_seg s \<Longrightarrow> rfind_char CHR ''/'' (a @ s) = Some (length a)"
  unfolding rfind_char_def slash_seg_def by (auto intro!: rposition_mid)

lemma remove_last_concat: "segs_ok out \<Longrightarrow> remove_last_segment (concat out) = concat (butlast out)"
proof (cases out rule: rev_cases)
  case Nil
  then show ?thesis by (simp add: remove_last_segment_def rfind_char_def rposition_def)
next
  case (snoc ss s)
  assume ok: "segs_ok out"
  show ?thesis
  proof (cases "slash_seg s")
    case True
    then show ?thesis using snoc rfind_slash_seg [of s "concat ss"] by (simp add: remove_last_segment_def)
  next
    case False
    then have "ss = []" "bare_seg s" using ok snoc by (cases ss; auto)+
    then have "rfind_char CHR ''/'' s = None" by (auto simp: bare_seg_def rfind_char_def rposition_None_iff)
    with \<open>ss = []\<close> show ?thesis using snoc by (simp add: remove_last_segment_def)
  qed
qed

lemma segs_ok_snoc: "segs_ok out \<Longrightarrow> slash_seg s \<Longrightarrow> segs_ok (out @ [s])"
  by (cases out) auto

lemma slash_seg_root: "slash_seg ''/''"
  by (simp add: slash_seg_def)

lemma takeWhile_seg:
  "CHR ''/'' \<notin> set (takeWhile (\<lambda>b. b \<noteq> CHR ''/'') cs)"
  "slashed (dropWhile (\<lambda>b. b \<noteq> CHR ''/'') cs)"
  by (auto dest: set_takeWhileD) (induction cs, auto simp: slashed_def)

lemma takeWhile_eq_split:
  "takeWhile (\<lambda>b. b \<noteq> CHR ''/'') cs = t \<Longrightarrow> \<exists>r. cs = t @ r \<and> slashed r"
  using takeWhile_seg(2) by (metis takeWhile_dropWhile_id)

lemma slashed_cases: "slashed r \<Longrightarrow> r = [] \<or> (\<exists>u. r = CHR ''/'' # u)"
  by (cases r) (auto simp: slashed_def)

text \<open>The segment moved in step E is not a dot segment.\<close>

lemma first_segment_ok:
  assumes "rest \<noteq> []" "\<not> starts_with rest ''../''" "\<not> starts_with rest ''./''" "\<not> starts_with rest ''/./''"
    "rest \<noteq> ''/.''" "\<not> starts_with rest ''/../''" "rest \<noteq> ''/..''" "rest \<noteq> ''.''" "rest \<noteq> ''..''"
  shows "slashed rest \<Longrightarrow> slash_seg (first_segment rest)"
    and "\<not> slashed rest \<Longrightarrow> bare_seg (first_segment rest)"
    and "slashed (drop (length (first_segment rest)) rest)"
proof -
  obtain c cs where r: "rest = c # cs" using assms(1) by (cases rest) auto
  let ?t = "takeWhile (\<lambda>b. b \<noteq> CHR ''/'')"
  show "slashed rest \<Longrightarrow> slash_seg (first_segment rest)"
  proof -
    assume "slashed rest"
    then have c: "c = CHR ''/''" using r by (simp add: slashed_def)
    have "?t cs \<noteq> ''.''" "?t cs \<noteq> ''..''"
      using assms r c by (auto dest!: takeWhile_eq_split slashed_cases simp: starts_with_iff)
    then show ?thesis using r c takeWhile_seg(1) [of cs] by (auto simp: slash_seg_def first_segment_def)
  qed
  show "\<not> slashed rest \<Longrightarrow> bare_seg (first_segment rest)"
  proof -
    assume "\<not> slashed rest"
    then have c: "c \<noteq> CHR ''/''" using r by (simp add: slashed_def)
    have "?t rest \<noteq> ''.''" "?t rest \<noteq> ''..''"
      using assms by (auto dest!: takeWhile_eq_split slashed_cases simp: starts_with_iff)
    then show ?thesis using r c takeWhile_seg(1) [of rest] by (auto simp: bare_seg_def first_segment_def)
  qed
  have "drop (length (?t xs)) xs = dropWhile (\<lambda>b. b \<noteq> CHR ''/'') xs" for xs by (simp add: dropWhile_eq_drop)
  then show "slashed (drop (length (first_segment rest)) rest)"
    using takeWhile_seg(2) r by (simp add: first_segment_def)
qed

lemma rfc3986_root: "rfc3986_loop ''/'' out = out @ ''/''"
  by (simp add: rfc3986_loop.simps [of "''/''"] rfc3986_loop.simps [of "[]"] starts_with_def first_segment_def)

lemma rfc3986_Nil: "rfc3986_loop [] out = out"
  by (simp add: rfc3986_loop.simps)

lemma remove_dot_loop_refines:
  "segs_ok out \<Longrightarrow> out \<noteq> [] \<longrightarrow> slashed rest \<Longrightarrow>
   rfc3986_loop rest (concat out) = concat (remove_dot_loop rest out) \<and> segs_ok (remove_dot_loop rest out)"
proof (induction rest out rule: remove_dot_loop.induct)
  case (1 rest out)
  consider (nil) "rest = []"
    | (A1) "rest \<noteq> []" "starts_with rest ''../''"
    | (A2) "rest \<noteq> []" "\<not> starts_with rest ''../''" "starts_with rest ''./''"
    | (B1) u where "rest = ''/./'' @ u" | (B2) "rest = ''/.''"
    | (C1) u where "rest = ''/../'' @ u" | (C2) "rest = ''/..''" | (D) "rest = ''.'' \<or> rest = ''..''"
    | (E) "rest \<noteq> []" "\<not> starts_with rest ''../''" "\<not> starts_with rest ''./''" "\<not> starts_with rest ''/./''"
        "rest \<noteq> ''/.''" "\<not> starts_with rest ''/../''" "rest \<noteq> ''/..''" "rest \<noteq> ''.''" "rest \<noteq> ''..''"
    by (auto simp: starts_with_iff)
  then show ?case
  proof cases
    case nil
    then show ?thesis using "1.prems" by (simp add: rfc3986_Nil remove_dot_loop.simps)
  next
    case A1
    then have "out = []" using "1.prems"(2) by (auto simp: starts_with_iff slashed_def)
    then show ?thesis using A1 "1.IH"(1) "1.prems"
      by (simp add: rfc3986_loop.simps [of rest] remove_dot_loop.simps [of rest])
  next
    case A2
    then have "out = []" using "1.prems"(2) by (auto simp: starts_with_iff slashed_def)
    then show ?thesis using A2 "1.IH"(2) "1.prems"
      by (simp add: rfc3986_loop.simps [of rest] remove_dot_loop.simps [of rest])
  next
    case B1
    have "rfc3986_loop (CHR ''/'' # u) (concat out) = concat (remove_dot_loop (CHR ''/'' # u) out)
        \<and> segs_ok (remove_dot_loop (CHR ''/'' # u) out)"
      using "1.IH"(3) "1.prems" B1 by (simp add: starts_with_def slashed_def)
    then show ?thesis unfolding B1 by (simp add: rfc3986_loop.simps [of "''/./'' @ u", simplified]
          remove_dot_loop.simps [of "''/./'' @ u", simplified] starts_with_def)
  next
    case B2
    show ?thesis unfolding B2 using "1.prems"(1)
      by (simp add: rfc3986_loop.simps [of "''/.''"] remove_dot_loop.simps [of "''/.''"] starts_with_def rfc3986_root
          segs_ok_snoc slash_seg_root)
  next
    case C1
    have "rfc3986_loop (CHR ''/'' # u) (concat (butlast out)) = concat (remove_dot_loop (CHR ''/'' # u) (butlast out))
        \<and> segs_ok (remove_dot_loop (CHR ''/'' # u) (butlast out))"
      using "1.IH"(4) "1.prems" C1 segs_ok_butlast by (simp add: starts_with_def slashed_def)
    then show ?thesis unfolding C1 using "1.prems"(1)
      by (simp add: rfc3986_loop.simps [of "''/../'' @ u", simplified]
          remove_dot_loop.simps [of "''/../'' @ u", simplified] starts_with_def remove_last_concat)
  next
    case C2
    show ?thesis unfolding C2 using "1.prems"(1)
      by (simp add: rfc3986_loop.simps [of "''/..''"] remove_dot_loop.simps [of "''/..''"] starts_with_def rfc3986_root
          segs_ok_snoc segs_ok_butlast slash_seg_root remove_last_concat)
  next
    case D
    then show ?thesis using "1.prems"(1)
      by (elim disjE) (simp_all add: rfc3986_loop.simps [of "''.''"] rfc3986_loop.simps [of "''..''"]
          remove_dot_loop.simps [of "''.''"] remove_dot_loop.simps [of "''..''"] starts_with_def rfc3986_Nil)
  next
    case E
    note f = first_segment_ok [OF E]
    have "segs_ok (out @ [first_segment rest])"
      using f(1,2) "1.prems" segs_ok_snoc by (cases "slashed rest"; cases out) auto
    then have "rfc3986_loop (drop (length (first_segment rest)) rest) (concat (out @ [first_segment rest]))
        = concat (remove_dot_loop (drop (length (first_segment rest)) rest) (out @ [first_segment rest]))
        \<and> segs_ok (remove_dot_loop (drop (length (first_segment rest)) rest) (out @ [first_segment rest]))"
      using "1.IH"(5) E f(3) by simp
    then show ?thesis using E
      by (simp add: rfc3986_loop.simps [of rest] remove_dot_loop.simps [of rest])
  qed
qed

section \<open>The result\<close>

definition no_dots :: "string \<Rightarrow> bool" where
  "no_dots p \<longleftrightarrow> ''.'' \<notin> set (split_on CHR ''/'' p) \<and> ''..'' \<notin> set (split_on CHR ''/'' p)"

lemma split_slash_segs:
  assumes "list_all slash_seg ss" "CHR ''/'' \<notin> set a"
  shows "split_on CHR ''/'' (a @ concat ss) = a # map tl ss"
  using assms
proof (induction ss arbitrary: a)
  case Nil
  then show ?case by (simp add: split_on_no_sep)
next
  case (Cons s ss)
  then obtain t where "s = CHR ''/'' # t" "CHR ''/'' \<notin> set t" by (auto simp: slash_seg_def)
  with Cons show ?case using split_on_append_sep [of "CHR ''/''" a "t @ concat ss"] by simp
qed

lemma segs_ok_no_dots: "segs_ok out \<Longrightarrow> no_dots (concat out)"
proof (cases out)
  case (Cons s ss)
  assume ok: "segs_ok out"
  have tl: "''.'' \<notin> set (map tl xs) \<and> ''..'' \<notin> set (map tl xs)" if "list_all slash_seg xs" for xs
    using that by (induction xs) (auto simp: slash_seg_def)
  show ?thesis
  proof (cases "slash_seg s")
    case True
    then have "list_all slash_seg out" using ok Cons by simp
    then show ?thesis using tl [of out] split_slash_segs [of out "[]"] by (simp add: no_dots_def)
  next
    case False
    then have "list_all slash_seg ss" "bare_seg s" using ok Cons by simp_all
    then show ?thesis using Cons tl [of ss] split_slash_segs [of ss s] by (auto simp: no_dots_def bare_seg_def)
  qed
qed (simp add: no_dots_def)

text \<open>A path without dot segments is left as it is.\<close>

lemma no_dots_append:
  assumes "CHR ''/'' \<notin> set t"
  shows "no_dots (t @ CHR ''/'' # r) \<longleftrightarrow> t \<noteq> ''.'' \<and> t \<noteq> ''..'' \<and> no_dots r"
  using assms by (auto simp: no_dots_def split_on_append_sep)

lemma no_dots_slash: "no_dots (CHR ''/'' # r) \<longleftrightarrow> no_dots r"
  by (simp add: no_dots_def)

lemma no_dots_rest:
  assumes "no_dots rest" "rest \<noteq> []"
  shows "no_dots (drop (length (first_segment rest)) rest)"
proof -
  have tail: "no_dots r" if nd: "no_dots (t @ r)" "CHR ''/'' \<notin> set t" "slashed r" for t r
  proof (cases "r = []")
    case False
    then obtain u where "r = CHR ''/'' # u" using slashed_cases [OF nd(3)] by blast
    with nd(1) no_dots_append [OF nd(2)] show ?thesis by (simp add: no_dots_slash)
  qed (simp add: no_dots_def)
  obtain c cs where r: "rest = c # cs" using assms(2) by (cases rest) auto
  have d: "drop (length (takeWhile (\<lambda>b. b \<noteq> CHR ''/'') xs)) xs = dropWhile (\<lambda>b. b \<noteq> CHR ''/'') xs" for xs
    by (simp add: dropWhile_eq_drop)
  show ?thesis
  proof (cases "c = CHR ''/''")
    case True
    then have "no_dots cs" using assms(1) r by (simp add: no_dots_slash)
    then show ?thesis using True r d tail [of "takeWhile (\<lambda>b. b \<noteq> CHR ''/'') cs"] takeWhile_seg by (simp add: first_segment_def)
  next
    case False
    then show ?thesis using assms(1) r d [of rest] tail [of "takeWhile (\<lambda>b. b \<noteq> CHR ''/'') rest"] takeWhile_seg
      by (simp add: first_segment_def)
  qed
qed

lemma remove_dot_loop_no_dots:
  "no_dots rest \<Longrightarrow> concat (remove_dot_loop rest out) = concat out @ rest"
proof (induction rest out rule: remove_dot_loop.induct)
  case (1 rest out)
  show ?case
  proof (cases "rest = []")
    case True
    then show ?thesis by (simp add: remove_dot_loop.simps)
  next
    case False
    have n: "\<not> starts_with rest ''../''" "\<not> starts_with rest ''./''" "\<not> starts_with rest ''/./''" "rest \<noteq> ''/.''"
      "\<not> starts_with rest ''/../''" "rest \<noteq> ''/..''" "rest \<noteq> ''.''" "rest \<noteq> ''..''"
      using "1.prems" by (auto simp: no_dots_def starts_with_iff)
    have "first_segment rest @ drop (length (first_segment rest)) rest = rest"
      using False takeWhile_eq_take by (cases rest) (auto simp: first_segment_def dropWhile_eq_drop [symmetric])
    moreover have "concat (remove_dot_loop (drop (length (first_segment rest)) rest) (out @ [first_segment rest]))
        = concat (out @ [first_segment rest]) @ drop (length (first_segment rest)) rest"
      using "1.IH"(5) False n no_dots_rest [OF "1.prems" False] by simp
    ultimately show ?thesis using False n by (simp add: remove_dot_loop.simps [of rest])
  qed
qed

lemma remove_dot_segments_no_dots: "no_dots (remove_dot_segments p)"
  using remove_dot_loop_refines [of "[]" p] segs_ok_no_dots by (simp add: remove_dot_segments_def)

text \<open>
  C38. \<open>remove_dot_segments\<close> implements RFC 3986 Section 5.2.4: the vector of slices stands for the
  output buffer of the RFC's algorithm, and the two give the same path; no segment of the result is
  a dot segment, and removing dot segments again changes nothing.
\<close>

theorem remove_dot_segments_rfc3986:
  "remove_dot_segments p = rfc3986_remove_dot_segments p
   \<and> ''.'' \<notin> set (split_on CHR ''/'' (remove_dot_segments p))
   \<and> ''..'' \<notin> set (split_on CHR ''/'' (remove_dot_segments p))
   \<and> remove_dot_segments (remove_dot_segments p) = remove_dot_segments p"
proof -
  have "remove_dot_segments p = rfc3986_remove_dot_segments p"
    using remove_dot_loop_refines [of "[]" p] by (simp add: remove_dot_segments_def rfc3986_remove_dot_segments_def)
  moreover have "remove_dot_segments (remove_dot_segments p) = remove_dot_segments p"
    using remove_dot_loop_no_dots [OF remove_dot_segments_no_dots, of p "[]"] by (simp add: remove_dot_segments_def)
  ultimately show ?thesis using remove_dot_segments_no_dots [of p] by (simp add: no_dots_def)
qed

end
