(* ===== verification/Auth.thy ===== *)
theory Auth
  imports Base64 Content_Type
begin

text \<open>
  \<^verbatim>\<open>src/auth.rs\<close>: the Basic, Digest and Bearer schemes, their credentials and their challenges.
  The position \<open>i\<close> of the parameter scanner is the text that is left.
\<close>

datatype AuthError = AEmpty | AInvalidFormat | ANotBasicScheme | ANotDigestScheme | ANotBearerScheme
  | ABase64DecodeError | AUtf8Error | AMissingColon | AInvalidParameter | AMissingParameter | AInvalidToken
  | ADuplicateParameter | AColonInUserId | AControlCharacter | AInvalidCharset | AConflictingUsernameField
  | AInvalidUsernameExtValue | ATooManyParameters

fun AuthError_display :: "AuthError \<Rightarrow> string" where
  "AuthError_display AEmpty = ''empty authorization header''"
| "AuthError_display AInvalidFormat = ''invalid authorization format''"
| "AuthError_display ANotBasicScheme = ''not basic authentication scheme''"
| "AuthError_display ANotDigestScheme = ''not digest authentication scheme''"
| "AuthError_display ANotBearerScheme = ''not bearer authentication scheme''"
| "AuthError_display ABase64DecodeError = ''base64 decode error''"
| "AuthError_display AUtf8Error = ''utf-8 decode error''"
| "AuthError_display AMissingColon = ''missing colon in credentials''"
| "AuthError_display AInvalidParameter = ''invalid auth parameter''"
| "AuthError_display AMissingParameter = ''missing required auth parameter''"
| "AuthError_display AInvalidToken = ''invalid auth token''"
| "AuthError_display ADuplicateParameter = ''duplicate auth parameter''"
| "AuthError_display AColonInUserId = ''colon in user-id''"
| "AuthError_display AControlCharacter = ''control character in credentials''"
| "AuthError_display AInvalidCharset = ''charset must be UTF-8''"
| "AuthError_display AConflictingUsernameField = ''both username and username* present (RFC 7616 Section 3.4)''"
| "AuthError_display AInvalidUsernameExtValue = ''invalid username* ext-value''"
| "AuthError_display ATooManyParameters = ''too many auth parameters''"

definition MAX_AUTH_PARAMS :: nat where "MAX_AUTH_PARAMS = 32"

type_synonym auth_params = "(string \<times> string) list"

section \<open>Lexical helpers\<close>

definition strip_scheme :: "string \<Rightarrow> string \<Rightarrow> string option" where
  "strip_scheme inp scheme =
     (let s = str_trim_start inp
      in if length s \<le> length scheme then None
         else Option.bind (str_get_to s (length scheme)) (\<lambda>prefix.
           if \<not> eq_ignore_ascii_case prefix scheme then None
           else Option.bind (str_get_from s (length scheme)) (\<lambda>rest.
             if rest = [] then None
             else if \<not> starts_with rest [SP] \<and> \<not> starts_with rest [HTAB] then None
             else Some (str_trim_start rest))))"

definition is_token68_char :: "char \<Rightarrow> bool" where
  [class_defs]: "is_token68_char b \<longleftrightarrow>
     0x41 \<le> u8 b \<and> u8 b \<le> 0x5A \<or> 0x61 \<le> u8 b \<and> u8 b \<le> 0x7A \<or> 0x30 \<le> u8 b \<and> u8 b \<le> 0x39
     \<or> b \<in> set ''-._~+/''"

definition is_token68 :: "string \<Rightarrow> bool" where
  "is_token68 val \<longleftrightarrow>
     val \<noteq> [] \<and>
     (let trimmed = rev (dropWhile (\<lambda>c. c = CHR ''='') (rev val)) in trimmed \<noteq> [] \<and> list_all is_token68_char trimmed)"

definition has_control_chars :: "string \<Rightarrow> bool" where
  "has_control_chars s \<longleftrightarrow> list_ex (\<lambda>b. u8 b \<le> 0x1F \<or> u8 b = 0x7F) s"

definition auth_is_attr_char :: "char \<Rightarrow> bool" where
  [class_defs]: "auth_is_attr_char b \<longleftrightarrow>
     0x41 \<le> u8 b \<and> u8 b \<le> 0x5A \<or> 0x61 \<le> u8 b \<and> u8 b \<le> 0x7A \<or> 0x30 \<le> u8 b \<and> u8 b \<le> 0x39
     \<or> b \<in> set ''!#$&+-.^_`|~''"

text \<open>A character at a time; \<open>consumed\<close> counts the bytes up to and including the closing quote.\<close>

fun auth_quoted_loop :: "string list \<Rightarrow> string \<Rightarrow> nat \<Rightarrow> (string \<times> nat, AuthError) result" where
  "auth_quoted_loop [] val consumed = Err AInvalidParameter"
| "auth_quoted_loop (c # cs) val consumed =
     (if c = [DQUOTE] then Ok (val, consumed + 1)
      else if c = [BACKSLASH] then
        (case cs of
           [] \<Rightarrow> Err AInvalidParameter
         | next_c # cs' \<Rightarrow>
             reject_if (\<not> is_quoted_pair_char (code_point next_c)) AInvalidParameter
               (auth_quoted_loop cs' (val @ next_c) (consumed + 1 + length next_c)))
      else reject_if (\<not> is_qdtext_char (code_point c)) AInvalidParameter
             (auth_quoted_loop cs (val @ c) (consumed + length c)))"

definition auth_param_value :: "string \<Rightarrow> (string \<times> string, AuthError) result" where
  "auth_param_value s =
     (if hd s = DQUOTE then
        and_then (auth_quoted_loop (char_slices (tl s)) [] 0) (\<lambda>(val, consumed). Ok (val, drop consumed (tl s)))
      else
        let token = takeWhile (\<lambda>b. \<not> is_ows b \<and> b \<noteq> CHR '','') s
        in reject_if (token = [] \<or> \<not> is_valid_token token) AInvalidParameter
             (Ok (token, dropWhile (\<lambda>b. \<not> is_ows b \<and> b \<noteq> CHR '','') s)))"

lemma auth_param_value_length: "auth_param_value s = Ok (v, r) \<Longrightarrow> length r \<le> length s"
  by (auto simp: auth_param_value_def Let_def length_dropWhile_le split: if_splits elim!: resultE)

text \<open>The name of a parameter, up to its value.\<close>

definition auth_param_name :: "string \<Rightarrow> (string \<times> string, AuthError) result" where
  "auth_param_name s =
     (let name = takeWhile is_token_char s
      in reject_if (name = []) AInvalidParameter
           (let s1 = dropWhile is_ows (dropWhile is_token_char s)
            in reject_if (s1 = [] \<or> hd s1 \<noteq> CHR ''='') AInvalidParameter
                 (let s2 = dropWhile is_ows (tl s1)
                  in reject_if (s2 = []) AInvalidParameter (Ok (name, s2)))))"

lemma auth_param_name_length: "auth_param_name s = Ok (n, r) \<Longrightarrow> length r < length s"
proof -
  assume "auth_param_name s = Ok (n, r)"
  then have n: "dropWhile is_ows (dropWhile is_token_char s) \<noteq> []"
    and r: "r = dropWhile is_ows (tl (dropWhile is_ows (dropWhile is_token_char s)))"
    by (auto simp: auth_param_name_def Let_def elim!: resultE)
  have "length r < length (dropWhile is_ows (dropWhile is_token_char s))"
    unfolding r using n length_dropWhile_le [of is_ows "tl (dropWhile is_ows (dropWhile is_token_char s))"]
    by (cases "dropWhile is_ows (dropWhile is_token_char s)") auto
  also have "\<dots> \<le> length s" using length_dropWhile_le le_trans by blast
  finally show ?thesis .
qed

function auth_params_loop :: "string \<Rightarrow> auth_params \<Rightarrow> (auth_params, AuthError) result" where
  "auth_params_loop inp params =
     (if inp = [] then Ok params
      else let s = dropWhile is_ows inp
           in if s \<noteq> [] \<and> hd s = CHR '','' then auth_params_loop (tl s) params
              else if s = [] then Ok params
              else and_then (auth_param_name s) (\<lambda>(name, s1).
                   and_then (auth_param_value s1) (\<lambda>(val, s2).
                     let key = to_ascii_lowercase name
                     in reject_if (list_ex (\<lambda>(n, _). n = key) params) ADuplicateParameter
                          (reject_if (length params \<ge> MAX_AUTH_PARAMS) ATooManyParameters
                            (let s3 = dropWhile is_ows s2
                             in if s3 = [] then Ok (params @ [(key, val)])
                                else if hd s3 = CHR '','' then auth_params_loop (tl s3) (params @ [(key, val)])
                                else Err AInvalidParameter)))))"
  by pat_completeness auto
termination
proof (relation "measure (\<lambda>(s, _). length s)", goal_cases)
  case 1
  show ?case by simp
next
  case (2 inp params s)
  then have "length (tl s) < length s" "length s \<le> length inp" by (auto simp: length_dropWhile_le)
  then show ?case by simp
next
  case (3 inp params s x1 name s1 x2 val s2 key s3)
  then have n: "auth_param_name s = Ok (name, s1)" "auth_param_value s1 = Ok (val, s2)" by auto
  have "length (tl s3) \<le> length s3" "length s3 \<le> length s2" "length s \<le> length inp"
    using 3 by (auto simp: length_dropWhile_le)
  then show ?case using auth_param_name_length [OF n(1)] auth_param_value_length [OF n(2)] by simp
qed

declare auth_params_loop.simps [simp del]

definition parse_auth_params :: "string \<Rightarrow> (auth_params, AuthError) result" where
  "parse_auth_params inp =
     and_then (auth_params_loop inp []) (\<lambda>params. reject_if (params = []) AInvalidFormat (Ok params))"

definition has_required_params :: "auth_params \<Rightarrow> string list \<Rightarrow> bool" where
  "has_required_params params required =
     list_all (\<lambda>name. list_ex (\<lambda>(n, _). n = to_ascii_lowercase name) params) required"

definition auth_needs_quoting :: "string \<Rightarrow> bool" where
  "auth_needs_quoting val \<longleftrightarrow> val = [] \<or> list_ex (\<lambda>b. \<not> is_token_char b) val"

definition format_auth_params :: "auth_params \<Rightarrow> string" where
  "format_auth_params params =
     join_comma (map (\<lambda>(name, val).
       if auth_needs_quoting val then name @ ''='' @ [DQUOTE] @ escape_quotes val @ [DQUOTE]
       else name @ ''='' @ val) params)"

fun ext_percent_loop :: "string \<Rightarrow> string \<Rightarrow> (string, AuthError) result" where
  "ext_percent_loop [] res = Ok res"
| "ext_percent_loop (b # bs) res =
     (if b = CHR ''%'' then
        (case bs of
           h # l # rest \<Rightarrow>
             (case to_digit 16 h of
                None \<Rightarrow> Err AInvalidUsernameExtValue
              | Some hi \<Rightarrow>
                  (case to_digit 16 l of
                     None \<Rightarrow> Err AInvalidUsernameExtValue
                   | Some lo \<Rightarrow> ext_percent_loop rest (res @ [char_of (hi * 16 + lo)])))
         | _ \<Rightarrow> Err AInvalidUsernameExtValue)
      else if auth_is_attr_char b then ext_percent_loop bs (res @ [b])
      else Err AInvalidUsernameExtValue)"

definition decode_username_ext_value :: "string \<Rightarrow> (string, AuthError) result" where
  "decode_username_ext_value inp =
     and_then (ok_or (find_char CHR 0x27 inp) AInvalidUsernameExtValue) (\<lambda>first_quote.
       reject_if (\<not> eq_ignore_ascii_case (take first_quote inp) ''UTF-8'') AInvalidUsernameExtValue
         (let rest = drop (first_quote + 1) inp
          in and_then (ok_or (find_char CHR 0x27 rest) AInvalidUsernameExtValue) (\<lambda>second_quote.
               and_then (ext_percent_loop (drop (second_quote + 1) rest) []) (\<lambda>res.
                 map_err (\<lambda>_. AInvalidUsernameExtValue) (from_utf8 res)))))"

section \<open>Basic\<close>

record BasicAuth =
  ba_username :: string
  ba_password :: string

definition BasicAuth_new :: "string \<Rightarrow> string \<Rightarrow> (BasicAuth, AuthError) result" where
  "BasicAuth_new username password =
     reject_if (CHR '':'' \<in> set username) AColonInUserId
       (reject_if (has_control_chars username \<or> has_control_chars password) AControlCharacter
         (Ok \<lparr>ba_username = username, ba_password = password\<rparr>))"

definition BasicAuth_parse :: "string \<Rightarrow> (BasicAuth, AuthError) result" where
  "BasicAuth_parse s =
     (let inp = str_trim s
      in reject_if (inp = []) AEmpty
           (and_then (ok_or (strip_scheme inp ''Basic'') ANotBasicScheme) (\<lambda>credentials.
              reject_if (credentials = []) AInvalidFormat
                (reject_if (\<not> is_token68 credentials) AInvalidToken
                  (and_then (map_err (\<lambda>_. ABase64DecodeError) (base64_decode credentials)) (\<lambda>decoded.
                   and_then (map_err (\<lambda>_. AUtf8Error) (from_utf8 decoded)) (\<lambda>decoded_str.
                   and_then (ok_or (find_char CHR '':'' decoded_str) AMissingColon) (\<lambda>colon_pos.
                     let username = take colon_pos decoded_str; password = drop (colon_pos + 1) decoded_str
                     in reject_if (has_control_chars username \<or> has_control_chars password) AControlCharacter
                          (Ok \<lparr>ba_username = username, ba_password = password\<rparr>)))))))))"

definition BasicAuth_to_header_value :: "BasicAuth \<Rightarrow> string" where
  "BasicAuth_to_header_value a = ''Basic '' @ base64_encode (ba_username a @ '':'' @ ba_password a)"

record WwwAuthenticate =
  wa_realm :: string
  wa_charset :: "string option"

definition WwwAuthenticate_basic :: "string \<Rightarrow> WwwAuthenticate" where
  "WwwAuthenticate_basic realm = \<lparr>wa_realm = realm, wa_charset = None\<rparr>"

definition wa_with_charset_utf8 :: "WwwAuthenticate \<Rightarrow> WwwAuthenticate" where
  "wa_with_charset_utf8 w = w\<lparr>wa_charset := Some ''UTF-8''\<rparr>"

fun www_params_loop ::
    "auth_params \<Rightarrow> string option \<Rightarrow> string option \<Rightarrow> (string option \<times> string option, AuthError) result" where
  "www_params_loop [] realm charset = Ok (realm, charset)"
| "www_params_loop ((key, val) # ps) realm charset =
     (if key = ''realm'' then www_params_loop ps (Some val) charset
      else if key = ''charset'' then
        (if \<not> eq_ignore_ascii_case val ''UTF-8'' then Err AInvalidCharset
         else www_params_loop ps realm (Some val))
      else www_params_loop ps realm charset)"

definition WwwAuthenticate_parse :: "string \<Rightarrow> (WwwAuthenticate, AuthError) result" where
  "WwwAuthenticate_parse s =
     (let inp = str_trim s
      in reject_if (inp = []) AEmpty
           (and_then (ok_or (strip_scheme inp ''Basic'') ANotBasicScheme) (\<lambda>params.
              reject_if (params = []) AInvalidFormat
                (and_then (parse_auth_params params) (\<lambda>parsed_params.
                 and_then (www_params_loop parsed_params None None) (\<lambda>(realm, charset).
                 and_then (ok_or realm AInvalidFormat) (\<lambda>r.
                   Ok \<lparr>wa_realm = r, wa_charset = charset\<rparr>)))))))"

definition WwwAuthenticate_display :: "WwwAuthenticate \<Rightarrow> string" where
  "WwwAuthenticate_display w =
     ''Basic realm='' @ [DQUOTE] @ escape_quotes (wa_realm w) @ [DQUOTE]
     @ (case wa_charset w of
          Some charset \<Rightarrow> '', charset='' @ [DQUOTE] @ escape_quotes charset @ [DQUOTE]
        | None \<Rightarrow> [])"

section \<open>Digest\<close>

record DigestAuth =
  da_params :: auth_params

definition username_ext_raw :: "auth_params \<Rightarrow> string" where
  "username_ext_raw params = (case map_of params ''username*'' of Some v \<Rightarrow> v | None \<Rightarrow> [])"

text \<open>The checks of \<open>DigestAuth::parse\<close> on the parsed parameters.\<close>

definition digest_auth_checks :: "auth_params \<Rightarrow> (DigestAuth, AuthError) result" where
  "digest_auth_checks params =
     (let has_username = list_ex (\<lambda>(n, _). n = ''username'') params;
          has_username_ext = list_ex (\<lambda>(n, _). n = ''username*'') params
      in reject_if (has_username \<and> has_username_ext) AConflictingUsernameField
           (reject_if (\<not> has_username \<and> \<not> has_username_ext) AMissingParameter
             (and_then (if has_username_ext
                        then and_then (decode_username_ext_value (username_ext_raw params)) (\<lambda>_. Ok ())
                        else Ok ()) (\<lambda>_.
                reject_if (\<not> has_required_params params [''realm'', ''nonce'', ''uri'', ''response''])
                  AMissingParameter (Ok \<lparr>da_params = params\<rparr>)))))"

definition DigestAuth_parse :: "string \<Rightarrow> (DigestAuth, AuthError) result" where
  "DigestAuth_parse s =
     (let inp = str_trim s
      in reject_if (inp = []) AEmpty
           (and_then (ok_or (strip_scheme inp ''Digest'') ANotDigestScheme) (\<lambda>rest.
              reject_if (rest = []) AInvalidFormat
                (and_then (parse_auth_params rest) digest_auth_checks))))"

definition da_param :: "DigestAuth \<Rightarrow> string \<Rightarrow> string option" where
  "da_param a name = map_of (da_params a) (to_ascii_lowercase name)"

definition da_username_decoded :: "DigestAuth \<Rightarrow> string option" where
  "da_username_decoded a =
     (case da_param a ''username'' of
        Some v \<Rightarrow> Some v
      | None \<Rightarrow> Option.bind (da_param a ''username*'') (\<lambda>raw.
                  case decode_username_ext_value raw of Ok v \<Rightarrow> Some v | _ \<Rightarrow> None))"

definition DigestAuth_to_header_value :: "DigestAuth \<Rightarrow> string" where
  "DigestAuth_to_header_value a = ''Digest '' @ format_auth_params (da_params a)"

record DigestChallenge =
  dc_params :: auth_params

definition DigestChallenge_parse :: "string \<Rightarrow> (DigestChallenge, AuthError) result" where
  "DigestChallenge_parse s =
     (let inp = str_trim s
      in reject_if (inp = []) AEmpty
           (and_then (ok_or (strip_scheme inp ''Digest'') ANotDigestScheme) (\<lambda>rest.
              reject_if (rest = []) AInvalidFormat
                (and_then (parse_auth_params rest) (\<lambda>params.
                   reject_if (\<not> has_required_params params [''realm'', ''nonce'']) AMissingParameter
                     (Ok \<lparr>dc_params = params\<rparr>))))))"

definition dc_param :: "DigestChallenge \<Rightarrow> string \<Rightarrow> string option" where
  "dc_param c name = map_of (dc_params c) (to_ascii_lowercase name)"

definition DigestChallenge_to_header_value :: "DigestChallenge \<Rightarrow> string" where
  "DigestChallenge_to_header_value c = ''Digest '' @ format_auth_params (dc_params c)"

section \<open>Bearer\<close>

record BearerToken =
  bt_token :: string

definition BearerToken_parse :: "string \<Rightarrow> (BearerToken, AuthError) result" where
  "BearerToken_parse s =
     (let inp = str_trim s
      in reject_if (inp = []) AEmpty
           (let is_bearer_scheme = (case str_get_to inp 6 of Some p \<Rightarrow> eq_ignore_ascii_case p ''Bearer'' | None \<Rightarrow> False)
            in reject_if (\<not> is_bearer_scheme) ANotBearerScheme
                 (let token = (case strip_scheme inp ''Bearer'' of Some t \<Rightarrow> t | None \<Rightarrow> [])
                  in reject_if (token = []) AInvalidFormat
                       (reject_if (\<not> is_token68 token) AInvalidToken (Ok \<lparr>bt_token = token\<rparr>)))))"

definition BearerToken_to_header_value :: "BearerToken \<Rightarrow> string" where
  "BearerToken_to_header_value t = ''Bearer '' @ bt_token t"

record BearerChallenge =
  bc_params :: auth_params

definition BearerChallenge_parse :: "string \<Rightarrow> (BearerChallenge, AuthError) result" where
  "BearerChallenge_parse s =
     (let inp = str_trim s
      in reject_if (inp = []) AEmpty
           (and_then (ok_or (strip_scheme inp ''Bearer'') ANotBearerScheme) (\<lambda>rest.
              reject_if (rest = []) AInvalidFormat
                (and_then (parse_auth_params rest) (\<lambda>params. Ok \<lparr>bc_params = params\<rparr>)))))"

definition bc_param :: "BearerChallenge \<Rightarrow> string \<Rightarrow> string option" where
  "bc_param c name = map_of (bc_params c) (to_ascii_lowercase name)"

definition BearerChallenge_to_header_value :: "BearerChallenge \<Rightarrow> string" where
  "BearerChallenge_to_header_value c = ''Bearer '' @ format_auth_params (bc_params c)"

section \<open>Any scheme\<close>

datatype Authorization = AuthBasic BasicAuth | AuthDigest DigestAuth | AuthBearer BearerToken

definition Authorization_parse :: "string \<Rightarrow> (Authorization, AuthError) result" where
  "Authorization_parse s =
     (let inp = str_trim s
      in reject_if (inp = []) AEmpty
           (if strip_scheme inp ''Basic'' \<noteq> None then and_then (BasicAuth_parse inp) (\<lambda>a. Ok (AuthBasic a))
            else if strip_scheme inp ''Digest'' \<noteq> None then and_then (DigestAuth_parse inp) (\<lambda>a. Ok (AuthDigest a))
            else if strip_scheme inp ''Bearer'' \<noteq> None then and_then (BearerToken_parse inp) (\<lambda>a. Ok (AuthBearer a))
            else Err AInvalidFormat))"

fun Authorization_to_header_value :: "Authorization \<Rightarrow> string" where
  "Authorization_to_header_value (AuthBasic a) = BasicAuth_to_header_value a"
| "Authorization_to_header_value (AuthDigest a) = DigestAuth_to_header_value a"
| "Authorization_to_header_value (AuthBearer a) = BearerToken_to_header_value a"

datatype AuthChallenge = ChBasic WwwAuthenticate | ChDigest DigestChallenge | ChBearer BearerChallenge

definition AuthChallenge_parse :: "string \<Rightarrow> (AuthChallenge, AuthError) result" where
  "AuthChallenge_parse s =
     (let inp = str_trim s
      in reject_if (inp = []) AEmpty
           (if strip_scheme inp ''Basic'' \<noteq> None then and_then (WwwAuthenticate_parse inp) (\<lambda>a. Ok (ChBasic a))
            else if strip_scheme inp ''Digest'' \<noteq> None then and_then (DigestChallenge_parse inp) (\<lambda>a. Ok (ChDigest a))
            else if strip_scheme inp ''Bearer'' \<noteq> None then and_then (BearerChallenge_parse inp) (\<lambda>a. Ok (ChBearer a))
            else Err AInvalidFormat))"

fun AuthChallenge_to_header_value :: "AuthChallenge \<Rightarrow> string" where
  "AuthChallenge_to_header_value (ChBasic a) = WwwAuthenticate_display a"
| "AuthChallenge_to_header_value (ChDigest a) = DigestChallenge_to_header_value a"
| "AuthChallenge_to_header_value (ChBearer a) = BearerChallenge_to_header_value a"

datatype ProxyAuthorization = ProxyAuthorization Authorization

definition ProxyAuthorization_parse :: "string \<Rightarrow> (ProxyAuthorization, AuthError) result" where
  "ProxyAuthorization_parse s = and_then (Authorization_parse s) (\<lambda>a. Ok (ProxyAuthorization a))"

fun ProxyAuthorization_to_header_value :: "ProxyAuthorization \<Rightarrow> string" where
  "ProxyAuthorization_to_header_value (ProxyAuthorization a) = Authorization_to_header_value a"

datatype ProxyAuthenticate = ProxyAuthenticate AuthChallenge

definition ProxyAuthenticate_parse :: "string \<Rightarrow> (ProxyAuthenticate, AuthError) result" where
  "ProxyAuthenticate_parse s = and_then (AuthChallenge_parse s) (\<lambda>a. Ok (ProxyAuthenticate a))"

fun ProxyAuthenticate_to_header_value :: "ProxyAuthenticate \<Rightarrow> string" where
  "ProxyAuthenticate_to_header_value (ProxyAuthenticate a) = AuthChallenge_to_header_value a"

end
