(* ===== verification/Auth_Correct.thy ===== *)
theory Auth_Correct
  imports Auth
begin

text \<open>
  What the parsers of \<open>Auth\<close> return is printed as a header value that they read back unchanged:
  the scanner of parameters agrees with the shared quoted-string parser, names are lower-case and
  distinct, and the credentials of Basic are the Base64 text of a colon-separated pair.
\<close>

section \<open>The scanner and the quoted-string parser\<close>

lemma auth_quoted_loop_eq:
  "\<exists>k. auth_quoted_loop cs val n =
         map_err (\<lambda>_. AInvalidParameter)
           (and_then (quoted_string_loop cs False val) (\<lambda>(v, r). Ok (v, n + k)))
       \<and> (\<forall>v r. quoted_string_loop cs False val = Ok (v, r) \<longrightarrow> r = drop k (concat cs))"
proof (induction cs val n rule: auth_quoted_loop.induct)
  case (1 val n)
  show ?case by simp
next
  case (2 c cs val n)
  consider (close) "c = [DQUOTE]"
    | (esc_end) "c = [BACKSLASH]" "cs = []"
    | (esc_bad) d ds where "c = [BACKSLASH]" "cs = d # ds" "\<not> is_quoted_pair_char (code_point d)"
    | (esc) d ds where "c = [BACKSLASH]" "cs = d # ds" "is_quoted_pair_char (code_point d)"
    | (bad) "c \<noteq> [DQUOTE]" "c \<noteq> [BACKSLASH]" "\<not> is_qdtext_char (code_point c)"
    | (qd) "c \<noteq> [DQUOTE]" "c \<noteq> [BACKSLASH]" "is_qdtext_char (code_point c)"
    by (cases cs) auto
  then show ?case
  proof cases
    case close
    then show ?thesis by (intro exI [of _ 1]) simp
  next
    case esc_end
    then show ?thesis by simp
  next
    case esc_bad
    then show ?thesis by simp
  next
    case esc
    then obtain k where k: "auth_quoted_loop ds (val @ d) (n + 1 + length d) =
        map_err (\<lambda>_. AInvalidParameter)
          (and_then (quoted_string_loop ds False (val @ d)) (\<lambda>(v, r). Ok (v, n + 1 + length d + k)))"
      "\<forall>v r. quoted_string_loop ds False (val @ d) = Ok (v, r) \<longrightarrow> r = drop k (concat ds)"
      using "2.IH"(1) [OF _ _ esc(2)] by auto
    then show ?thesis using esc by (intro exI [of _ "1 + length d + k"]) (simp add: ac_simps)
  next
    case bad
    then show ?thesis by simp
  next
    case qd
    then obtain k where "auth_quoted_loop cs (val @ c) (n + length c) =
        map_err (\<lambda>_. AInvalidParameter)
          (and_then (quoted_string_loop cs False (val @ c)) (\<lambda>(v, r). Ok (v, n + length c + k)))"
      "\<forall>v r. quoted_string_loop cs False (val @ c) = Ok (v, r) \<longrightarrow> r = drop k (concat cs)"
      using "2.IH"(2) by auto
    then show ?thesis using qd by (intro exI [of _ "length c + k"]) (simp add: ac_simps)
  qed
qed

lemma auth_param_value_quoted:
  "auth_param_value (DQUOTE # t) = map_err (\<lambda>_. AInvalidParameter) (parse_quoted_string t)"
proof -
  obtain k where "auth_quoted_loop (char_slices t) [] 0 =
      map_err (\<lambda>_. AInvalidParameter) (and_then (parse_quoted_string t) (\<lambda>(v, r). Ok (v, 0 + k)))"
    "\<forall>v r. parse_quoted_string t = Ok (v, r) \<longrightarrow> r = drop k t"
    using auth_quoted_loop_eq [of "char_slices t" "[]" 0] by (auto simp: parse_quoted_string_def)
  then show ?thesis by (cases "parse_quoted_string t") (auto simp: auth_param_value_def)
qed

section \<open>What is parsed\<close>

definition auth_params_ok :: "auth_params \<Rightarrow> bool" where
  "auth_params_ok ps \<longleftrightarrow> list_all param_ok ps \<and> distinct (map fst ps) \<and> length ps \<le> MAX_AUTH_PARAMS"

lemma auth_param_name_ok:
  assumes "auth_param_name s = Ok (n, r)" "valid_utf8 s"
  shows "is_valid_token n" "valid_utf8 r" "r \<noteq> []"
proof -
  let ?s1 = "dropWhile is_ows (dropWhile is_token_char s)"
  have a: "n = takeWhile is_token_char s" "n \<noteq> []" "?s1 \<noteq> []" "hd ?s1 = CHR ''=''" "r = dropWhile is_ows (tl ?s1)" "r \<noteq> []"
    using assms(1) by (auto simp: auth_param_name_def Let_def elim!: resultE)
  show "is_valid_token n" using a(1,2) by (auto simp: is_valid_token_def list_all_iff dest: set_takeWhileD)
  have "valid_utf8 ?s1" using assms(2) by (intro valid_utf8_dropWhile) (auto simp: ows_ascii token_char_ascii)
  then have "valid_utf8 (tl ?s1)" using a(3,4) valid_utf8_tl [of ?s1] by simp
  then show "valid_utf8 r" unfolding a(5) by (rule valid_utf8_dropWhile [rotated]) (rule ows_ascii)
  show "r \<noteq> []" by (rule a(6))
qed

lemma auth_param_value_ok:
  assumes "auth_param_value s = Ok (v, r)" "valid_utf8 s" "s \<noteq> []"
  shows "quotable v" "valid_utf8 r"
proof -
  have "quotable v \<and> valid_utf8 r"
  proof (cases "hd s = DQUOTE")
    case True
    with assms(3) obtain t where t: "s = DQUOTE # t" by (cases s) auto
    then have "parse_quoted_string t = Ok (v, r)" "valid_utf8 t"
      using assms(1,2) by (simp_all add: auth_param_value_quoted map_err_Ok_iff valid_utf8_Cons_ascii)
    then show ?thesis using parse_quoted_string_valid by blast
  next
    case False
    then have v: "is_valid_token v" "s = v @ r"
      using assms(1) by (auto simp: auth_param_value_def Let_def elim!: resultE)
    then have q: "quotable v" by (simp add: is_valid_token_def token_quotable)
    then show ?thesis using v(2) assms(2) by (simp add: quotable_def valid_utf8_append)
  qed
  then show "quotable v" "valid_utf8 r" by auto
qed

lemma list_ex_key: "list_ex (\<lambda>(n, _). n = k) ps \<longleftrightarrow> k \<in> set (map fst ps)"
  by (induction ps) auto

lemma auth_params_loop_param:
  assumes "s \<noteq> []" "dropWhile is_ows s \<noteq> []" "hd (dropWhile is_ows s) \<noteq> CHR '',''"
  shows "auth_params_loop s acc =
    and_then (auth_param_name (dropWhile is_ows s)) (\<lambda>(name, s1).
    and_then (auth_param_value s1) (\<lambda>(val, s2).
      reject_if (to_ascii_lowercase name \<in> set (map fst acc)) ADuplicateParameter
        (reject_if (length acc \<ge> MAX_AUTH_PARAMS) ATooManyParameters
          (if dropWhile is_ows s2 = [] then Ok (acc @ [(to_ascii_lowercase name, val)])
           else if hd (dropWhile is_ows s2) = CHR '',''
             then auth_params_loop (tl (dropWhile is_ows s2)) (acc @ [(to_ascii_lowercase name, val)])
           else Err AInvalidParameter))))"
  unfolding auth_params_loop.simps [of s acc] Let_def list_ex_key using assms by (simp only: if_False simp_thms)

lemma auth_params_loop_ok:
  "auth_params_loop s acc = Ok ps \<Longrightarrow> valid_utf8 s \<Longrightarrow> auth_params_ok acc \<Longrightarrow> auth_params_ok ps"
proof (induction s acc rule: auth_params_loop.induct)
  case (1 s acc)
  let ?s = "dropWhile is_ows s"
  have v: "valid_utf8 ?s" using "1.prems"(2) by (intro valid_utf8_dropWhile) (auto simp: ows_ascii)
  consider (nil) "s = [] \<or> ?s = []" | (comma) "s \<noteq> []" "?s \<noteq> []" "hd ?s = CHR '',''"
    | (param) "s \<noteq> []" "?s \<noteq> []" "hd ?s \<noteq> CHR '',''" by blast
  then show ?case
  proof cases
    case nil
    then show ?thesis using "1.prems" by (auto simp: auth_params_loop.simps [of s acc] split: if_splits)
  next
    case comma
    then have "auth_params_loop (tl ?s) acc = Ok ps" using "1.prems"(1) by (simp add: auth_params_loop.simps [of s acc])
    moreover have "valid_utf8 (tl ?s)" using comma v by (intro valid_utf8_tl) auto
    ultimately show ?thesis using "1.IH"(1) comma "1.prems"(3) by simp
  next
    case param
    obtain n s1 v s2 where p: "auth_param_name ?s = Ok (n, s1)" "auth_param_value s1 = Ok (v, s2)"
      and d: "to_ascii_lowercase n \<notin> set (map fst acc)" "length acc < MAX_AUTH_PARAMS"
      and k: "(if dropWhile is_ows s2 = [] then Ok (acc @ [(to_ascii_lowercase n, v)])
               else if hd (dropWhile is_ows s2) = CHR '',''
                 then auth_params_loop (tl (dropWhile is_ows s2)) (acc @ [(to_ascii_lowercase n, v)])
               else Err AInvalidParameter) = Ok ps"
      using "1.prems"(1) unfolding auth_params_loop_param [OF param]
      by (auto simp del: set_map dropWhile_eq_Nil_conv elim!: resultE)
    note nm = auth_param_name_ok [OF p(1) v]
    note vl = auth_param_value_ok [OF p(2) nm(2,3)]
    have ok: "auth_params_ok (acc @ [(to_ascii_lowercase n, v)])"
      using "1.prems"(3) d nm(1) vl(1) by (auto simp: auth_params_ok_def param_ok_iff valid_token_lower)
    show ?thesis
    proof (cases "dropWhile is_ows s2 = []")
      case True
      then show ?thesis using k ok by simp
    next
      case False
      then have c: "hd (dropWhile is_ows s2) = CHR '',''"
        and l: "auth_params_loop (tl (dropWhile is_ows s2)) (acc @ [(to_ascii_lowercase n, v)]) = Ok ps"
        using k by (auto split: if_splits)
      have "valid_utf8 (dropWhile is_ows s2)" using vl(2) by (intro valid_utf8_dropWhile) (auto simp: ows_ascii)
      then have "valid_utf8 (tl (dropWhile is_ows s2))" using False c by (intro valid_utf8_tl) auto
      then show ?thesis
        using "1.IH"(2) [OF param(1) refl _ param(2) p(1) refl p(2) refl refl _ _ refl False c l _ ok] d param(3)
        by (simp add: list_ex_key del: set_map)
    qed
  qed
qed

lemma parse_auth_params_ok: "parse_auth_params s = Ok ps \<Longrightarrow> valid_utf8 s \<Longrightarrow> auth_params_ok ps \<and> ps \<noteq> []"
  using auth_params_loop_ok [of s "[]" ps] by (auto simp: parse_auth_params_def auth_params_ok_def elim!: resultE)

section \<open>The printed parameters\<close>

lemma auth_needs_quoting_eq: "auth_needs_quoting = needs_quoting"
  by (intro ext) (simp add: auth_needs_quoting_def needs_quoting_def)

definition auth_param_text :: "string \<times> string \<Rightarrow> string" where
  "auth_param_text nv = fst nv @ CHR ''='' # value_text (snd nv)"

lemma format_auth_params_eq: "format_auth_params ps = join_comma (map auth_param_text ps)"
  unfolding format_auth_params_def auth_needs_quoting_eq
  by (rule arg_cong [where f = join_comma]) (auto simp: auth_param_text_def value_text_def)

lemma format_auth_params_Cons:
  "format_auth_params (p # ps) =
     auth_param_text p @ (if ps = [] then [] else CHR '','' # SP # format_auth_params ps)"
  unfolding format_auth_params_eq by (cases ps) simp_all

text \<open>A text that the scanner reads as the value \<open>v\<close>, up to the end or a comma.\<close>

definition reads_as :: "string \<Rightarrow> string \<Rightarrow> bool" where
  "reads_as vt v \<longleftrightarrow> vt \<noteq> [] \<and> plain (hd vt) \<and> plain (last vt)
     \<and> (\<forall>t. t = [] \<or> hd t = CHR '','' \<longrightarrow> auth_param_value (vt @ t) = Ok (v, t))"

lemma reads_as_quoted: "quotable v \<Longrightarrow> reads_as (DQUOTE # escape_quotes v @ [DQUOTE]) v"
  using parse_escape_quotable [of v] by (simp add: reads_as_def auth_param_value_quoted plain_def is_whitespace_cp_def)

lemma reads_as_value_text:
  assumes "quotable v"
  shows "reads_as (value_text v) v"
proof (cases "needs_quoting v")
  case True
  then show ?thesis using reads_as_quoted [OF assms] by (simp add: value_text_def)
next
  case False
  then have v: "is_valid_token v" by (simp add: not_needs_quoting)
  let ?p = "\<lambda>b. \<not> is_ows b \<and> b \<noteq> CHR '',''"
  have all: "\<forall>b \<in> set v. ?p b" using v token_not_ows by (simp add: is_valid_token_def list_all_iff)
  obtain c w where c: "v = c # w" "is_token_char c" using v by (cases v) (auto simp: is_valid_token_def)
  have "auth_param_value (v @ t) = Ok (v, t)" if t: "t = [] \<or> hd t = CHR '',''" for t
  proof -
    have "t = [] \<or> \<not> ?p (hd t)" using t by auto
    note tw = span_stop [OF all this]
    have "hd (v @ t) \<noteq> DQUOTE" using c token_not_ows by simp
    then show ?thesis unfolding auth_param_value_def Let_def tw using v c(1) by simp
  qed
  then show ?thesis using False value_text_ends [of v] by (simp add: reads_as_def value_text_def)
qed

lemma auth_param_name_text:
  assumes "is_valid_token n" "reads_as vt v"
  shows "auth_param_name (n @ CHR ''='' # vt @ t) = Ok (n, vt @ t)"
proof -
  let ?r = "CHR ''='' # vt @ t"
  have "\<forall>b \<in> set n. is_token_char b" using assms(1) by (simp add: is_valid_token_def list_all_iff)
  moreover have "?r = [] \<or> \<not> is_token_char (hd ?r)" by (simp add: is_token_char_def)
  ultimately have tw: "takeWhile is_token_char (n @ ?r) = n" "dropWhile is_token_char (n @ ?r) = ?r"
    by (rule span_stop)+
  have "\<not> is_ows (hd vt)" "vt \<noteq> []" using assms(2) plain_not_ows by (auto simp: reads_as_def)
  then have d: "dropWhile is_ows (vt @ t) = vt @ t" by (cases vt) simp_all
  have "dropWhile is_ows ?r = ?r" by (simp add: is_ows_def)
  then show ?thesis
    unfolding auth_param_name_def Let_def tw using valid_token_not_Nil [OF assms(1)] d \<open>vt \<noteq> []\<close> by simp
qed

lemma auth_params_loop_step:
  assumes "dropWhile is_ows s = n @ CHR ''='' # vt @ t" "reads_as vt v" "t = [] \<or> hd t = CHR '',''"
    and "param_ok (n, v)" "n \<notin> set (map fst acc)" "length acc < MAX_AUTH_PARAMS"
  shows "auth_params_loop s acc = (if t = [] then Ok (acc @ [(n, v)]) else auth_params_loop (tl t) (acc @ [(n, v)]))"
proof -
  have n: "is_valid_token n" "to_ascii_lowercase n = n" using assms(4) by (simp_all add: param_ok_iff)
  obtain c cs where c: "n = c # cs" "is_token_char c" using n(1) by (cases n) (auto simp: is_valid_token_def)
  then have h: "hd (dropWhile is_ows s) \<noteq> CHR '',''" "dropWhile is_ows s \<noteq> []" "s \<noteq> []"
    using assms(1) token_not_ows by auto
  have vt: "auth_param_value (vt @ t) = Ok (v, t)" using assms(2,3) unfolding reads_as_def by blast
  have t: "dropWhile is_ows t = t" using assms(3) by (cases t) (auto simp: is_ows_def)
  show ?thesis
    unfolding auth_params_loop_param [OF h(3,2,1)] assms(1) auth_param_name_text [OF n(1) assms(2)]
    using vt t n(2) assms(3,5,6) by (auto simp del: dropWhile_eq_Nil_conv)
qed

lemma auth_params_loop_text:
  assumes "auth_params_ok (acc @ ps)" "ps \<noteq> []" "dropWhile is_ows s = format_auth_params ps"
  shows "auth_params_loop s acc = Ok (acc @ ps)"
  using assms
proof (induction ps arbitrary: acc s)
  case (Cons p ps)
  obtain n v where p: "p = (n, v)" by (cases p)
  let ?t = "if ps = [] then [] else CHR '','' # SP # format_auth_params ps"
  have n: "param_ok (n, v)" "quotable v" "n \<notin> set (map fst acc)" "length acc < MAX_AUTH_PARAMS"
    using Cons.prems(1) p by (auto simp: auth_params_ok_def param_ok_iff)
  have s: "dropWhile is_ows s = n @ CHR ''='' # value_text v @ ?t"
    unfolding Cons.prems(3) p format_auth_params_Cons by (simp add: auth_param_text_def)
  have "?t = [] \<or> hd ?t = CHR '',''" by simp
  note step = auth_params_loop_step [OF s reads_as_value_text [OF n(2)] this n(1,3,4)]
  show ?case
  proof (cases "ps = []")
    case True
    then show ?thesis using step p by simp
  next
    case False
    then obtain q qs where q: "ps = q # qs" by (cases ps) auto
    then have "is_valid_token (fst q)" using Cons.prems(1) by (simp add: auth_params_ok_def param_ok_def)
    then obtain d ds where "fst q = d # ds" "is_token_char d" by (cases "fst q") (auto simp: is_valid_token_def)
    then have "dropWhile is_ows (SP # format_auth_params ps) = format_auth_params ps"
      using token_not_ows [of d] by (simp add: q format_auth_params_Cons auth_param_text_def is_ows_def [of SP])
    then have "auth_params_loop (SP # format_auth_params ps) (acc @ [p]) = Ok ((acc @ [p]) @ ps)"
      using Cons.prems(1) False by (intro Cons.IH) simp_all
    then show ?thesis using step False p by simp
  qed
qed simp

lemma format_auth_params_ends:
  assumes "list_all param_ok ps" "ps \<noteq> []"
  shows "format_auth_params ps \<noteq> []" "plain (hd (format_auth_params ps))" "\<not> is_ows (hd (format_auth_params ps))"
    "plain (last (format_auth_params ps))"
proof -
  have "format_auth_params ps \<noteq> [] \<and> plain (hd (format_auth_params ps)) \<and> plain (last (format_auth_params ps))"
    using assms
  proof (induction ps)
    case (Cons p ps)
    then have "is_valid_token (fst p)" by (simp add: param_ok_def)
    then have "fst p \<noteq> []" "plain (hd (fst p))"
      using valid_token_plain valid_token_not_Nil by (auto simp: list_all_iff)
    with Cons value_text_ends [of "snd p"] show ?case by (auto simp: format_auth_params_Cons auth_param_text_def)
  qed simp
  then show "format_auth_params ps \<noteq> []" "plain (hd (format_auth_params ps))" "plain (last (format_auth_params ps))" by auto
  then show "\<not> is_ows (hd (format_auth_params ps))" using plain_not_ows by blast
qed

lemma parse_format_auth_params:
  assumes "auth_params_ok ps" "ps \<noteq> []"
  shows "parse_auth_params (format_auth_params ps) = Ok ps"
proof -
  have "list_all param_ok ps" using assms(1) by (simp add: auth_params_ok_def)
  note e = format_auth_params_ends [OF this assms(2)]
  then have "dropWhile is_ows (format_auth_params ps) = format_auth_params ps"
    by (cases "format_auth_params ps") simp_all
  then show ?thesis using auth_params_loop_text [of "[]" ps] assms by (simp add: parse_auth_params_def)
qed


section \<open>Schemes\<close>

lemma strip_scheme_text:
  assumes "list_all plain sch" "sch \<noteq> []" "r \<noteq> []" "plain (hd r)"
  shows "strip_scheme (sch @ SP # r) sch = Some r"
proof -
  obtain c cs where c: "sch = c # cs" "plain c" using assms(1,2) by (cases sch) auto
  obtain d ds where d: "r = d # ds" "plain d" using assms(3,4) by (cases r) auto
  have "str_trim_start (sch @ SP # r) = sch @ SP # r" using c by (simp add: str_trim_start_plain)
  moreover have "str_trim_start (SP # r) = r" using d by (simp add: str_trim_start_plain)
  moreover have "is_char_boundary (sch @ SP # r) (length sch)" by (simp add: is_char_boundary_def is_cont_def)
  ultimately show ?thesis
    unfolding strip_scheme_def by (simp add: str_get_to_def str_get_from_def starts_with_def)
qed

lemma other_scheme:
  "strip_scheme (''Digest '' @ r) ''Basic'' = None" "strip_scheme (''Bearer '' @ r) ''Basic'' = None"
  "strip_scheme (''Bearer '' @ r) ''Digest'' = None"
  by (simp_all add: strip_scheme_def str_trim_start_plain plain_def is_whitespace_cp_def str_get_to_def
      is_char_boundary_def is_cont_def eq_ignore_ascii_case_def to_ascii_lowercase_def ascii_lower_def)

lemma scheme_names: "list_all plain ''Basic''" "list_all plain ''Digest''" "list_all plain ''Bearer''"
  by (simp_all add: plain_def is_whitespace_cp_def)

lemma strip_scheme_valid:
  assumes "strip_scheme s sch = Some r" "valid_utf8 s"
  shows "valid_utf8 r"
proof -
  let ?s = "str_trim_start s"
  have r: "r = str_trim_start (drop (length sch) ?s)"
    and st: "starts_with (drop (length sch) ?s) [SP] \<or> starts_with (drop (length sch) ?s) [HTAB]"
    using assms(1) by (auto simp: strip_scheme_def Let_def str_get_to_def str_get_from_def bind_eq_Some_conv split: if_splits)
  then obtain y t where y: "drop (length sch) ?s = y # t" "u8 y < 0x80"
    by (cases "drop (length sch) ?s") (auto simp: starts_with_def)
  have "valid_utf8 (take (length sch) ?s @ y # t)" using valid_utf8_trim_start [OF assms(2)] y(1) by (metis append_take_drop_id)
  then have "valid_utf8 (y # t)" using valid_utf8_ascii_split [OF y(2)] by (simp add: valid_utf8_Cons_ascii [OF y(2)])
  then show ?thesis unfolding r y(1) by (rule valid_utf8_trim_start)
qed

lemma header_trim:
  assumes "list_all plain sch" "sch \<noteq> []" "r \<noteq> []" "plain (last r)"
  shows "str_trim (sch @ SP # r) = sch @ SP # r"
  using assms by (intro str_trim_plain_hd_last) (auto simp: list_all_iff hd_append)

text \<open>A scheme followed by parameters.\<close>

lemma scheme_params_text:
  assumes "list_all plain sch" "sch \<noteq> []" "auth_params_ok ps" "ps \<noteq> []"
  shows "str_trim (sch @ SP # format_auth_params ps) = sch @ SP # format_auth_params ps"
    "strip_scheme (sch @ SP # format_auth_params ps) sch = Some (format_auth_params ps)"
    "format_auth_params ps \<noteq> []"
proof -
  have "list_all param_ok ps" using assms(3) by (simp add: auth_params_ok_def)
  note e = format_auth_params_ends [OF this assms(4)]
  show "str_trim (sch @ SP # format_auth_params ps) = sch @ SP # format_auth_params ps"
    by (rule header_trim [OF assms(1,2) e(1,4)])
  show "strip_scheme (sch @ SP # format_auth_params ps) sch = Some (format_auth_params ps)"
    by (rule strip_scheme_text [OF assms(1,2) e(1,2)])
  show "format_auth_params ps \<noteq> []" by (rule e(1))
qed

section \<open>Round trips\<close>

lemma trim_last_eq: "last s \<noteq> CHR ''='' \<Longrightarrow> s \<noteq> [] \<Longrightarrow> dropWhile (\<lambda>c. c = CHR ''='') (rev s) = rev s"
  by (cases s rule: rev_cases) simp_all

lemma base64_val_token68: "base64_val c \<noteq> None \<Longrightarrow> is_token68_char c \<and> c \<noteq> CHR ''=''"
  by (auto simp: base64_val_def is_token68_char_def is_ascii_digit_def split: if_splits)

lemma token68_plain: "is_token68_char c \<or> c = CHR ''='' \<Longrightarrow> plain c"
  by (auto simp: is_token68_char_def plain_def is_whitespace_cp_def)

lemma is_token68_plain: "is_token68 t \<Longrightarrow> list_all plain t \<and> t \<noteq> []"
proof -
  assume t: "is_token68 t"
  let ?d = "dropWhile (\<lambda>c. c = CHR ''='') (rev t)"
  have "list_all is_token68_char ?d" using t by (simp add: is_token68_def list_all_iff)
  moreover have "rev t = takeWhile (\<lambda>c. c = CHR ''='') (rev t) @ ?d" by simp
  ultimately have "\<forall>c \<in> set (rev t). plain c"
    using token68_plain set_takeWhileD [of _ "\<lambda>c. c = CHR ''=''" "rev t"] unfolding list_all_set
    by (metis (no_types, lifting) UnE set_append)
  with t show ?thesis by (simp add: is_token68_def list_all_iff)
qed

lemma base64_encode_token68: "bs \<noteq> [] \<Longrightarrow> is_token68 (base64_encode bs)"
proof -
  assume bs: "bs \<noteq> []"
  obtain dat k where d: "groups bs = dat @ replicate k (CHR ''='')" "list_all (\<lambda>c. base64_val c \<noteq> None) dat"
    "base64_decode_loop dat [] 0 0 = Ok (bs, 0)" using groups_decode by blast
  then have n: "dat \<noteq> []" using bs by auto
  have t: "list_all is_token68_char dat" "\<forall>c \<in> set dat. c \<noteq> CHR ''=''"
    using d(2) base64_val_token68 by (auto simp: list_all_iff)
  have "dropWhile (\<lambda>c. c = CHR ''='') (replicate k (CHR ''='') @ rev dat) = rev dat"
    using n t(2) by (intro span_stop(2)) (auto simp: last_rev hd_rev)
  with n t(1) d(1) show ?thesis by (simp add: is_token68_def base64_encode_def encode_loop_groups)
qed

lemma BasicAuth_roundtrip:
  assumes "BasicAuth_parse s = Ok a"
  shows "strip_scheme (BasicAuth_to_header_value a) ''Basic'' \<noteq> None"
    "str_trim (BasicAuth_to_header_value a) = BasicAuth_to_header_value a"
    "BasicAuth_parse (BasicAuth_to_header_value a) = Ok a"
proof -
  obtain d i where d: "valid_utf8 d" "find_char CHR '':'' d = Some i"
    "\<not> has_control_chars (take i d)" "\<not> has_control_chars (drop (i + 1) d)"
    "a = \<lparr>ba_username = take i d, ba_password = drop (i + 1) d\<rparr>"
    using assms by (auto simp: BasicAuth_parse_def Let_def result_iff elim!: resultE)
  obtain u w where "d = u @ CHR '':'' # w" "length u = i"
    using d(2) position_Some_split [of "\<lambda>x. x = CHR '':''" d i] by (auto simp: find_char_def)
  then have "d = take i d @ CHR '':'' # drop (i + 1) d" and dn: "d \<noteq> []" by simp_all
  then have e: "BasicAuth_to_header_value a = ''Basic'' @ SP # base64_encode d"
    using d(5) by (simp add: BasicAuth_to_header_value_def)
  note t = base64_encode_token68 [OF dn]
  note p = is_token68_plain [OF t]
  have b: "''Basic'' \<noteq> []" by simp
  have ends: "base64_encode d \<noteq> []" "plain (hd (base64_encode d))" "plain (last (base64_encode d))"
    using p by (auto simp: list_all_iff)
  note st = strip_scheme_text [OF scheme_names(1) b ends(1,2)]
  note tr = header_trim [OF scheme_names(1) b ends(1,3)]
  show "strip_scheme (BasicAuth_to_header_value a) ''Basic'' \<noteq> None" unfolding e st by simp
  show "str_trim (BasicAuth_to_header_value a) = BasicAuth_to_header_value a" unfolding e tr ..
  show "BasicAuth_parse (BasicAuth_to_header_value a) = Ok a"
    unfolding BasicAuth_parse_def e tr st Let_def using ends(1) t d by (simp add: decode_encode from_utf8_def valid_utf8_def)
qed

lemma BearerToken_roundtrip:
  assumes "BearerToken_parse s = Ok a"
  shows "strip_scheme (BearerToken_to_header_value a) ''Bearer'' \<noteq> None"
    "str_trim (BearerToken_to_header_value a) = BearerToken_to_header_value a"
    "BearerToken_parse (BearerToken_to_header_value a) = Ok a"
proof -
  obtain t where t: "is_token68 t" "a = \<lparr>bt_token = t\<rparr>"
    using assms by (auto simp: BearerToken_parse_def Let_def elim!: resultE)
  have e: "BearerToken_to_header_value a = ''Bearer'' @ SP # t" using t(2) by (simp add: BearerToken_to_header_value_def)
  have b: "''Bearer'' \<noteq> []" by simp
  have ends: "t \<noteq> []" "plain (hd t)" "plain (last t)" using is_token68_plain [OF t(1)] by (auto simp: list_all_iff)
  note st = strip_scheme_text [OF scheme_names(3) b ends(1,2)]
  note tr = header_trim [OF scheme_names(3) b ends(1,3)]
  have g: "str_get_to (''Bearer'' @ SP # t) 6 = Some ''Bearer''"
    by (simp add: str_get_to_def is_char_boundary_def is_cont_def)
  show "strip_scheme (BearerToken_to_header_value a) ''Bearer'' \<noteq> None" unfolding e st by simp
  show "str_trim (BearerToken_to_header_value a) = BearerToken_to_header_value a" unfolding e tr ..
  show "BearerToken_parse (BearerToken_to_header_value a) = Ok a"
    unfolding BearerToken_parse_def e tr st g Let_def using ends(1) t by simp
qed

lemma DigestAuth_roundtrip:
  assumes "DigestAuth_parse s = Ok a" "valid_utf8 s"
  shows "strip_scheme (DigestAuth_to_header_value a) ''Digest'' \<noteq> None"
    "str_trim (DigestAuth_to_header_value a) = DigestAuth_to_header_value a"
    "DigestAuth_parse (DigestAuth_to_header_value a) = Ok a"
proof -
  obtain r ps where r: "strip_scheme (str_trim s) ''Digest'' = Some r" "parse_auth_params r = Ok ps" "digest_auth_checks ps = Ok a"
    using assms(1) by (auto simp: DigestAuth_parse_def Let_def elim!: resultE)
  have a: "a = \<lparr>da_params = ps\<rparr>" using r(3) by (auto simp: digest_auth_checks_def Let_def elim!: resultE)
  have ok: "auth_params_ok ps" "ps \<noteq> []"
    using parse_auth_params_ok [OF r(2) strip_scheme_valid [OF r(1) valid_utf8_trim [OF assms(2)]]] by auto
  have e: "DigestAuth_to_header_value a = ''Digest'' @ SP # format_auth_params ps" by (simp add: a DigestAuth_to_header_value_def)
  note st = scheme_params_text [OF scheme_names(2) _ ok, simplified]
  show "strip_scheme (DigestAuth_to_header_value a) ''Digest'' \<noteq> None" unfolding e using st(2) by simp
  show "str_trim (DigestAuth_to_header_value a) = DigestAuth_to_header_value a" unfolding e using st(1) by simp
  show "DigestAuth_parse (DigestAuth_to_header_value a) = Ok a"
    unfolding DigestAuth_parse_def e Let_def using st parse_format_auth_params [OF ok] r(3) by simp
qed

lemma DigestChallenge_roundtrip:
  assumes "DigestChallenge_parse s = Ok a" "valid_utf8 s"
  shows "strip_scheme (DigestChallenge_to_header_value a) ''Digest'' \<noteq> None"
    "str_trim (DigestChallenge_to_header_value a) = DigestChallenge_to_header_value a"
    "DigestChallenge_parse (DigestChallenge_to_header_value a) = Ok a"
proof -
  obtain r ps where r: "strip_scheme (str_trim s) ''Digest'' = Some r" "parse_auth_params r = Ok ps"
    "has_required_params ps [''realm'', ''nonce'']" "a = \<lparr>dc_params = ps\<rparr>"
    using assms(1) by (auto simp: DigestChallenge_parse_def Let_def elim!: resultE)
  have ok: "auth_params_ok ps" "ps \<noteq> []"
    using parse_auth_params_ok [OF r(2) strip_scheme_valid [OF r(1) valid_utf8_trim [OF assms(2)]]] by auto
  have e: "DigestChallenge_to_header_value a = ''Digest'' @ SP # format_auth_params ps"
    by (simp add: r(4) DigestChallenge_to_header_value_def)
  note st = scheme_params_text [OF scheme_names(2) _ ok, simplified]
  show "strip_scheme (DigestChallenge_to_header_value a) ''Digest'' \<noteq> None" unfolding e using st(2) by simp
  show "str_trim (DigestChallenge_to_header_value a) = DigestChallenge_to_header_value a" unfolding e using st(1) by simp
  show "DigestChallenge_parse (DigestChallenge_to_header_value a) = Ok a"
    unfolding DigestChallenge_parse_def e Let_def using st parse_format_auth_params [OF ok] r(3,4) by simp
qed

lemma BearerChallenge_roundtrip:
  assumes "BearerChallenge_parse s = Ok a" "valid_utf8 s"
  shows "strip_scheme (BearerChallenge_to_header_value a) ''Bearer'' \<noteq> None"
    "str_trim (BearerChallenge_to_header_value a) = BearerChallenge_to_header_value a"
    "BearerChallenge_parse (BearerChallenge_to_header_value a) = Ok a"
proof -
  obtain r ps where r: "strip_scheme (str_trim s) ''Bearer'' = Some r" "parse_auth_params r = Ok ps" "a = \<lparr>bc_params = ps\<rparr>"
    using assms(1) by (auto simp: BearerChallenge_parse_def Let_def elim!: resultE)
  have ok: "auth_params_ok ps" "ps \<noteq> []"
    using parse_auth_params_ok [OF r(2) strip_scheme_valid [OF r(1) valid_utf8_trim [OF assms(2)]]] by auto
  have e: "BearerChallenge_to_header_value a = ''Bearer'' @ SP # format_auth_params ps"
    by (simp add: r(3) BearerChallenge_to_header_value_def)
  note st = scheme_params_text [OF scheme_names(3) _ ok, simplified]
  show "strip_scheme (BearerChallenge_to_header_value a) ''Bearer'' \<noteq> None" unfolding e using st(2) by simp
  show "str_trim (BearerChallenge_to_header_value a) = BearerChallenge_to_header_value a" unfolding e using st(1) by simp
  show "BearerChallenge_parse (BearerChallenge_to_header_value a) = Ok a"
    unfolding BearerChallenge_parse_def e Let_def using st parse_format_auth_params [OF ok] r(3) by simp
qed


text \<open>The Basic challenge prints its realm and its charset as quoted strings.\<close>

lemma www_params_loop_Ok:
  "www_params_loop ps r c = Ok (r', c') \<Longrightarrow>
     (r' = r \<or> (\<exists>v. (''realm'', v) \<in> set ps \<and> r' = Some v))
     \<and> (c' = c \<or> (\<exists>v. (''charset'', v) \<in> set ps \<and> c' = Some v \<and> eq_ignore_ascii_case v ''UTF-8''))"
  by (induction ps r c rule: www_params_loop.induct) (auto split: if_splits)

lemma token_names: "is_valid_token ''realm''" "is_valid_token ''charset''"
  by (simp_all add: is_valid_token_def is_token_char_def is_ascii_alphanumeric_def is_ascii_alphabetic_def is_ascii_digit_def)

lemma www_params_text:
  assumes "quotable r" "opt_all quotable c"
  shows "parse_auth_params (''realm='' @ [DQUOTE] @ escape_quotes r @ [DQUOTE]
      @ (case c of Some v \<Rightarrow> '', charset='' @ [DQUOTE] @ escape_quotes v @ [DQUOTE] | None \<Rightarrow> []))
    = Ok ((''realm'', r) # (case c of Some v \<Rightarrow> [(''charset'', v)] | None \<Rightarrow> []))"
proof -
  let ?t = "case c of Some v \<Rightarrow> '', charset='' @ [DQUOTE] @ escape_quotes v @ [DQUOTE] | None \<Rightarrow> []"
  let ?s = "''realm='' @ [DQUOTE] @ escape_quotes r @ [DQUOTE] @ ?t"
  have low: "to_ascii_lowercase ''realm'' = ''realm''" "to_ascii_lowercase ''charset'' = ''charset''"
    by (simp_all add: to_ascii_lowercase_def ascii_lower_def)
  have s: "dropWhile is_ows ?s = ''realm'' @ CHR ''='' # (DQUOTE # escape_quotes r @ [DQUOTE]) @ ?t"
    by (simp add: is_ows_def)
  have t: "?t = [] \<or> hd ?t = CHR '',''" by (cases c) simp_all
  have "auth_params_loop ?s [] = (if ?t = [] then Ok [(''realm'', r)] else auth_params_loop (tl ?t) [(''realm'', r)])"
    using auth_params_loop_step [OF s reads_as_quoted [OF assms(1)] t, of "[]"] assms(1)
    by (simp add: param_ok_iff token_names low MAX_AUTH_PARAMS_def)
  also have "\<dots> = Ok ((''realm'', r) # (case c of Some v \<Rightarrow> [(''charset'', v)] | None \<Rightarrow> []))"
  proof (cases c)
    case (Some v)
    then have v: "quotable v" using assms(2) by simp
    have u: "dropWhile is_ows (tl ?t) = ''charset'' @ CHR ''='' # (DQUOTE # escape_quotes v @ [DQUOTE]) @ []"
      using Some by (simp add: is_ows_def)
    show ?thesis
      using auth_params_loop_step [OF u reads_as_quoted [OF v], of "[(''realm'', r)]"] v Some
      by (simp add: param_ok_iff token_names low MAX_AUTH_PARAMS_def)
  qed simp
  finally show ?thesis by (simp add: parse_auth_params_def)
qed

lemma WwwAuthenticate_roundtrip:
  assumes "WwwAuthenticate_parse s = Ok a" "valid_utf8 s"
  shows "strip_scheme (WwwAuthenticate_display a) ''Basic'' \<noteq> None"
    "str_trim (WwwAuthenticate_display a) = WwwAuthenticate_display a"
    "WwwAuthenticate_parse (WwwAuthenticate_display a) = Ok a"
proof -
  obtain rest ps r c where r: "strip_scheme (str_trim s) ''Basic'' = Some rest" "parse_auth_params rest = Ok ps"
    "www_params_loop ps None None = Ok (Some r, c)" "a = \<lparr>wa_realm = r, wa_charset = c\<rparr>"
    using assms(1) by (auto simp: WwwAuthenticate_parse_def Let_def elim!: resultE)
  have ok: "list_all param_ok ps"
    using parse_auth_params_ok [OF r(2) strip_scheme_valid [OF r(1) valid_utf8_trim [OF assms(2)]]]
    by (simp add: auth_params_ok_def)
  have q: "quotable r" "opt_all quotable c" "opt_all (\<lambda>v. eq_ignore_ascii_case v ''UTF-8'') c"
    using www_params_loop_Ok [OF r(3)] ok by (auto simp: list_all_iff param_ok_iff)
  let ?t = "''realm='' @ [DQUOTE] @ escape_quotes r @ [DQUOTE]
      @ (case c of Some v \<Rightarrow> '', charset='' @ [DQUOTE] @ escape_quotes v @ [DQUOTE] | None \<Rightarrow> [])"
  have e: "WwwAuthenticate_display a = ''Basic'' @ SP # ?t" by (simp add: r(4) WwwAuthenticate_display_def)
  have b: "''Basic'' \<noteq> []" by simp
  have ends: "?t \<noteq> []" "plain (hd ?t)" "plain (last ?t)"
    by (cases c; simp add: plain_def is_whitespace_cp_def)+
  note st = strip_scheme_text [OF scheme_names(1) b ends(1,2)]
  note tr = header_trim [OF scheme_names(1) b ends(1,3)]
  have w: "www_params_loop ((''realm'', r) # (case c of Some v \<Rightarrow> [(''charset'', v)] | None \<Rightarrow> [])) None None = Ok (Some r, c)"
    using q(3) by (cases c) simp_all
  show "strip_scheme (WwwAuthenticate_display a) ''Basic'' \<noteq> None" unfolding e st by simp
  show "str_trim (WwwAuthenticate_display a) = WwwAuthenticate_display a" unfolding e tr ..
  show "WwwAuthenticate_parse (WwwAuthenticate_display a) = Ok a"
    unfolding WwwAuthenticate_parse_def e tr st Let_def ok_or_simps and_then_simps www_params_text [OF q(1,2)] w
    by (simp add: r(4))
qed

lemma Authorization_roundtrip:
  assumes "valid_utf8 s" "Authorization_parse s = Ok a"
  shows "Authorization_parse (Authorization_to_header_value a) = Ok a"
proof -
  note v = valid_utf8_trim [OF assms(1)]
  consider b where "BasicAuth_parse (str_trim s) = Ok b" "a = AuthBasic b"
    | d where "DigestAuth_parse (str_trim s) = Ok d" "a = AuthDigest d"
    | t where "BearerToken_parse (str_trim s) = Ok t" "a = AuthBearer t"
    using assms(2) by (auto simp: Authorization_parse_def Let_def elim!: resultE split: if_splits)
  then show ?thesis
  proof cases
    case 1
    then show ?thesis using BasicAuth_roundtrip [OF 1(1)] by (auto simp: Authorization_parse_def BasicAuth_to_header_value_def)
  next
    case 2
    then show ?thesis using DigestAuth_roundtrip [OF 2(1) v] other_scheme(1) [of "format_auth_params (da_params d)"]
      by (auto simp: Authorization_parse_def DigestAuth_to_header_value_def)
  next
    case 3
    then show ?thesis using BearerToken_roundtrip [OF 3(1)] other_scheme(2,3) [of "bt_token t"]
      by (auto simp: Authorization_parse_def BearerToken_to_header_value_def)
  qed
qed

lemma AuthChallenge_roundtrip:
  assumes "valid_utf8 s" "AuthChallenge_parse s = Ok c"
  shows "AuthChallenge_parse (AuthChallenge_to_header_value c) = Ok c"
proof -
  note v = valid_utf8_trim [OF assms(1)]
  consider b where "WwwAuthenticate_parse (str_trim s) = Ok b" "c = ChBasic b"
    | d where "DigestChallenge_parse (str_trim s) = Ok d" "c = ChDigest d"
    | t where "BearerChallenge_parse (str_trim s) = Ok t" "c = ChBearer t"
    using assms(2) by (auto simp: AuthChallenge_parse_def Let_def elim!: resultE split: if_splits)
  then show ?thesis
  proof cases
    case 1
    then show ?thesis using WwwAuthenticate_roundtrip [OF 1(1) v] by (auto simp: AuthChallenge_parse_def WwwAuthenticate_display_def)
  next
    case 2
    then show ?thesis using DigestChallenge_roundtrip [OF 2(1) v] other_scheme(1) [of "format_auth_params (dc_params d)"]
      by (auto simp: AuthChallenge_parse_def DigestChallenge_to_header_value_def)
  next
    case 3
    then show ?thesis using BearerChallenge_roundtrip [OF 3(1) v] other_scheme(2,3) [of "format_auth_params (bc_params t)"]
      by (auto simp: AuthChallenge_parse_def BearerChallenge_to_header_value_def)
  qed
qed


definition sample_credentials :: string where
  "sample_credentials = '' basic  dTpwOg==''"

definition sample_challenge :: string where
  "sample_challenge = ''Digest Realm='' @ [DQUOTE] @ ''a,b'' @ [DQUOTE] @ '' , , nonce=x''"


end
