(* ===== verification/Cookie.thy ===== *)
theory Cookie
  imports Str_Valid Date
begin

text \<open>
  \<^verbatim>\<open>src/cookie.rs\<close>: the \<^verbatim>\<open>Cookie\<close> and \<^verbatim>\<open>Set-Cookie\<close> headers. The loop over the attributes of
  \<open>SetCookie::parse\<close> is \<open>set_cookie_loop\<close>; an attribute that RFC 6265 tells a client to ignore
  leaves the cookie as it is.
\<close>

datatype CookieError = CKEmpty | CKInvalidFormat | CKInvalidName | CKInvalidValue | CKInvalidAttribute | CKInvalidSameSite

fun CookieError_display :: "CookieError \<Rightarrow> string" where
  "CookieError_display CKEmpty = ''empty cookie''"
| "CookieError_display CKInvalidFormat = ''invalid cookie format''"
| "CookieError_display CKInvalidName = ''invalid cookie name''"
| "CookieError_display CKInvalidValue = ''invalid cookie value''"
| "CookieError_display CKInvalidAttribute = ''invalid cookie attribute''"
| "CookieError_display CKInvalidSameSite = ''invalid SameSite attribute''"

section \<open>Names and values\<close>

definition is_cookie_octet :: "char \<Rightarrow> bool" where
  [class_defs]: "is_cookie_octet b \<longleftrightarrow>
     u8 b = 0x21 \<or> 0x23 \<le> u8 b \<and> u8 b \<le> 0x2B \<or> 0x2D \<le> u8 b \<and> u8 b \<le> 0x3A
     \<or> 0x3C \<le> u8 b \<and> u8 b \<le> 0x5B \<or> 0x5D \<le> u8 b \<and> u8 b \<le> 0x7E"

definition is_valid_cookie_name :: "string \<Rightarrow> bool" where
  "is_valid_cookie_name s \<longleftrightarrow> s \<noteq> [] \<and> list_all is_token_char s"

definition is_valid_cookie_value :: "string \<Rightarrow> bool" where
  "is_valid_cookie_value s \<longleftrightarrow> list_all is_cookie_octet s"

definition is_valid_domain_value :: "string \<Rightarrow> bool" where
  "is_valid_domain_value s \<longleftrightarrow> list_all (\<lambda>b. is_ascii_alphanumeric b \<or> b = CHR ''-'' \<or> b = CHR ''.'') s"

definition parse_cookie_pair :: "string \<Rightarrow> (string \<times> string, CookieError) result" where
  "parse_cookie_pair pair =
     and_then (ok_or (find_char CHR ''='' pair) CKInvalidFormat) (\<lambda>eq_pos.
       let name = str_trim (take eq_pos pair); value0 = str_trim (drop (eq_pos + 1) pair)
       in reject_if (name = []) CKInvalidName
            (reject_if (\<not> is_valid_cookie_name name) CKInvalidName
              (let val = (if starts_with value0 [DQUOTE] \<and> ends_with value0 [DQUOTE] \<and> length value0 \<ge> 2
                          then take (length value0 - 2) (drop 1 value0) else value0)
               in reject_if (\<not> is_valid_cookie_value val) CKInvalidValue (Ok (name, val)))))"

section \<open>The Cookie header\<close>

record Cookie =
  ck_name :: string
  ck_value :: string

fun cookie_loop :: "string list \<Rightarrow> Cookie list \<Rightarrow> (Cookie list, CookieError) result" where
  "cookie_loop [] cookies = Ok cookies"
| "cookie_loop (p # ps) cookies =
     (let pair = trim_ows p
      in if pair = [] then cookie_loop ps cookies
         else and_then (parse_cookie_pair pair) (\<lambda>(name, val).
                cookie_loop ps (cookies @ [\<lparr>ck_name = name, ck_value = val\<rparr>])))"

definition Cookie_parse :: "string \<Rightarrow> (Cookie list, CookieError) result" where
  "Cookie_parse s =
     (let inp = trim_ows s
      in reject_if (inp = []) CKEmpty
           (and_then (cookie_loop (split_on CHR '';'' inp) []) (\<lambda>cookies.
              reject_if (cookies = []) CKEmpty (Ok cookies))))"

definition Cookie_new :: "string \<Rightarrow> string \<Rightarrow> (Cookie, CookieError) result" where
  "Cookie_new name val =
     reject_if (name = [] \<or> \<not> is_valid_cookie_name name) CKInvalidName
       (reject_if (\<not> is_valid_cookie_value val) CKInvalidValue (Ok \<lparr>ck_name = name, ck_value = val\<rparr>))"

definition Cookie_display :: "Cookie \<Rightarrow> string" where
  "Cookie_display c = ck_name c @ ''='' @ ck_value c"

section \<open>The Set-Cookie header\<close>

datatype SameSite = SSStrict | SSLax | SSNone

definition SameSite_from_str :: "string \<Rightarrow> (SameSite, CookieError) result" where
  "SameSite_from_str s =
     (let l = to_ascii_lowercase s
      in if l = ''strict'' then Ok SSStrict
         else if l = ''lax'' then Ok SSLax
         else if l = ''none'' then Ok SSNone
         else Err CKInvalidSameSite)"

fun SameSite_display :: "SameSite \<Rightarrow> string" where
  "SameSite_display SSStrict = ''Strict''"
| "SameSite_display SSLax = ''Lax''"
| "SameSite_display SSNone = ''None''"

text \<open>\<open>i64\<close>: \<open>parse\<close> accepts a sign, and \<open>Display\<close> prints one for a negative number.\<close>

definition i64_bound :: nat where "i64_bound = 2 ^ 63"

definition parse_i64 :: "string \<Rightarrow> int option" where
  "parse_i64 s =
     (case s of
        [] \<Rightarrow> None
      | c # ds \<Rightarrow>
          if c = CHR ''-'' then
            (if ds = [] then None
             else Option.bind (digits_value 10 0 ds) (\<lambda>n. if n \<le> i64_bound then Some (- int n) else None))
          else map_option int (from_str_radix 10 (i64_bound - 1) s))"

definition int_to_dec :: "int \<Rightarrow> string" where
  "int_to_dec n = (if n < 0 then ''-'' @ nat_to_dec (nat (- n)) else nat_to_dec (nat n))"

record SetCookie =
  sc_name :: string
  sc_value :: string
  sc_expires :: "HttpDate option"
  sc_max_age :: "int option"
  sc_domain :: "string option"
  sc_path :: "string option"
  sc_secure :: bool
  sc_http_only :: bool
  sc_same_site :: "SameSite option"

definition plain_set_cookie :: "string \<Rightarrow> string \<Rightarrow> SetCookie" where
  "plain_set_cookie name val =
     \<lparr>sc_name = name, sc_value = val, sc_expires = None, sc_max_age = None, sc_domain = None, sc_path = None,
      sc_secure = False, sc_http_only = False, sc_same_site = None\<rparr>"

definition attr_expires :: "SetCookie \<Rightarrow> string \<Rightarrow> nat \<Rightarrow> (SetCookie, CookieError) result" where
  "attr_expires c attr_value reference_year =
     (let parsed = (case HttpDate_parse attr_value of
                      Err DRfc850Date \<Rightarrow> HttpDate_parse_rfc850 attr_value reference_year
                    | r \<Rightarrow> r)
      in case parsed of
           Ok date \<Rightarrow> Ok (c\<lparr>sc_expires := Some date\<rparr>)
         | Err _ \<Rightarrow> Ok c
         | Panic \<Rightarrow> Panic)"

definition attr_max_age :: "SetCookie \<Rightarrow> string \<Rightarrow> SetCookie" where
  "attr_max_age c attr_value =
     (case attr_value of
        [] \<Rightarrow> c
      | first # rest \<Rightarrow>
          if (is_ascii_digit first \<or> first = CHR ''-'') \<and> list_all is_ascii_digit rest then
            (case parse_i64 attr_value of
               Some age \<Rightarrow> c\<lparr>sc_max_age := Some (if age < 0 then 0 else age)\<rparr>
             | None \<Rightarrow> c)
          else c)"

definition attr_domain :: "SetCookie \<Rightarrow> string \<Rightarrow> SetCookie" where
  "attr_domain c attr_value =
     (let d = (case strip_prefix attr_value ''.'' of Some x \<Rightarrow> x | None \<Rightarrow> attr_value)
      in if d = [] \<or> starts_with d ''.'' \<or> \<not> is_valid_domain_value d then c
         else c\<lparr>sc_domain := Some (to_ascii_lowercase d)\<rparr>)"

definition set_cookie_attr :: "nat \<Rightarrow> SetCookie \<Rightarrow> string \<Rightarrow> (SetCookie, CookieError) result" where
  "set_cookie_attr reference_year c part =
     (case find_char CHR ''='' part of
        Some eq_pos \<Rightarrow>
          (let attr_name = to_ascii_lowercase (str_trim (take eq_pos part));
               attr_value = str_trim (drop (eq_pos + 1) part)
           in if attr_name = ''expires'' then attr_expires c attr_value reference_year
              else if attr_name = ''max-age'' then Ok (attr_max_age c attr_value)
              else if attr_name = ''domain'' then Ok (attr_domain c attr_value)
              else if attr_name = ''path'' \<and> attr_value \<noteq> [] \<and> starts_with attr_value ''/'' then
                Ok (c\<lparr>sc_path := Some attr_value\<rparr>)
              else if attr_name = ''samesite'' then
                and_then (SameSite_from_str attr_value) (\<lambda>ss. Ok (c\<lparr>sc_same_site := Some ss\<rparr>))
              else Ok c)
      | None \<Rightarrow>
          (let l = to_ascii_lowercase part
           in if l = ''secure'' then Ok (c\<lparr>sc_secure := True\<rparr>)
              else if l = ''httponly'' then Ok (c\<lparr>sc_http_only := True\<rparr>)
              else Ok c))"

fun set_cookie_loop :: "nat \<Rightarrow> string list \<Rightarrow> SetCookie \<Rightarrow> (SetCookie, CookieError) result" where
  "set_cookie_loop reference_year [] c = Ok c"
| "set_cookie_loop reference_year (p # ps) c =
     (let part = trim_ows p
      in if part = [] then set_cookie_loop reference_year ps c
         else and_then (set_cookie_attr reference_year c part) (set_cookie_loop reference_year ps))"

definition SetCookie_parse :: "string \<Rightarrow> nat \<Rightarrow> (SetCookie, CookieError) result" where
  "SetCookie_parse s reference_year =
     (let inp = trim_ows s
      in reject_if (inp = []) CKEmpty
           (case split_on CHR '';'' inp of
              [] \<Rightarrow> Err CKInvalidFormat
            | first # parts \<Rightarrow>
                and_then (parse_cookie_pair (trim_ows first)) (\<lambda>(name, val).
                  set_cookie_loop reference_year parts (plain_set_cookie name val))))"

definition SetCookie_new :: "string \<Rightarrow> string \<Rightarrow> (SetCookie, CookieError) result" where
  "SetCookie_new name val =
     reject_if (name = [] \<or> \<not> is_valid_cookie_name name) CKInvalidName
       (reject_if (\<not> is_valid_cookie_value val) CKInvalidValue (Ok (plain_set_cookie name val)))"

definition sc_with_expires :: "SetCookie \<Rightarrow> HttpDate \<Rightarrow> SetCookie" where
  "sc_with_expires c expires = c\<lparr>sc_expires := Some expires\<rparr>"

definition sc_with_max_age :: "SetCookie \<Rightarrow> int \<Rightarrow> SetCookie" where
  "sc_with_max_age c max_age = c\<lparr>sc_max_age := Some max_age\<rparr>"

definition sc_with_domain :: "SetCookie \<Rightarrow> string \<Rightarrow> SetCookie" where
  "sc_with_domain c domain = c\<lparr>sc_domain := Some domain\<rparr>"

definition sc_with_path :: "SetCookie \<Rightarrow> string \<Rightarrow> SetCookie" where
  "sc_with_path c path = c\<lparr>sc_path := Some path\<rparr>"

definition sc_with_secure :: "SetCookie \<Rightarrow> bool \<Rightarrow> SetCookie" where
  "sc_with_secure c secure = c\<lparr>sc_secure := secure\<rparr>"

definition sc_with_http_only :: "SetCookie \<Rightarrow> bool \<Rightarrow> SetCookie" where
  "sc_with_http_only c http_only = c\<lparr>sc_http_only := http_only\<rparr>"

definition sc_with_same_site :: "SetCookie \<Rightarrow> SameSite \<Rightarrow> SetCookie" where
  "sc_with_same_site c same_site = c\<lparr>sc_same_site := Some same_site\<rparr>"

definition SetCookie_display :: "SetCookie \<Rightarrow> string" where
  "SetCookie_display c =
     sc_name c @ ''='' @ sc_value c
     @ (case sc_expires c of Some e \<Rightarrow> ''; Expires='' @ HttpDate_display e | None \<Rightarrow> [])
     @ (case sc_max_age c of Some m \<Rightarrow> ''; Max-Age='' @ int_to_dec m | None \<Rightarrow> [])
     @ (case sc_domain c of Some d \<Rightarrow> ''; Domain='' @ d | None \<Rightarrow> [])
     @ (case sc_path c of Some p \<Rightarrow> ''; Path='' @ p | None \<Rightarrow> [])
     @ (if sc_secure c then ''; Secure'' else [])
     @ (if sc_http_only c then ''; HttpOnly'' else [])
     @ (case sc_same_site c of Some ss \<Rightarrow> ''; SameSite='' @ SameSite_display ss | None \<Rightarrow> [])"

end
