(* ===== verification/Cookie_Correct.thy ===== *)
theory Cookie_Correct
  imports Cookie
begin

text \<open>
  A cookie that \<open>SetCookie::parse\<close> returns is printed as a header that parses to the same cookie,
  for any reference year: the fixed point that the comments of \<^verbatim>\<open>src/cookie.rs\<close> rely on.
\<close>

section \<open>What is parsed\<close>

definition domain_ok :: "string \<Rightarrow> bool" where
  "domain_ok d \<longleftrightarrow> d \<noteq> [] \<and> \<not> starts_with d ''.'' \<and> is_valid_domain_value d \<and> to_ascii_lowercase d = d"

definition path_ok :: "string \<Rightarrow> bool" where
  "path_ok p \<longleftrightarrow> starts_with p ''/'' \<and> CHR '';'' \<notin> set p \<and> str_trim p = p"

definition max_age_ok :: "int \<Rightarrow> bool" where
  "max_age_ok m \<longleftrightarrow> 0 \<le> m \<and> m < 2 ^ 63"

definition set_cookie_ok :: "SetCookie \<Rightarrow> bool" where
  "set_cookie_ok c \<longleftrightarrow> is_valid_cookie_name (sc_name c) \<and> is_valid_cookie_value (sc_value c)
     \<and> opt_all date_ok (sc_expires c) \<and> opt_all max_age_ok (sc_max_age c)
     \<and> opt_all domain_ok (sc_domain c) \<and> opt_all path_ok (sc_path c)"

lemma parse_cookie_pair_ok:
  "parse_cookie_pair s = Ok (n, v) \<Longrightarrow> is_valid_cookie_name n \<and> is_valid_cookie_value v"
  by (auto simp: parse_cookie_pair_def Let_def elim!: resultE)

lemma attr_expires_ok: "attr_expires c v y = Ok c' \<Longrightarrow> set_cookie_ok c \<Longrightarrow> set_cookie_ok c'"
  by (auto simp: attr_expires_def set_cookie_ok_def split: result.splits DateError.splits
      dest: HttpDate_parse_ok HttpDate_parse_rfc850_ok)

lemma attr_max_age_ok: "set_cookie_ok c \<Longrightarrow> set_cookie_ok (attr_max_age c v)"
  by (auto simp: attr_max_age_def parse_i64_def set_cookie_ok_def max_age_ok_def i64_bound_def bind_eq_Some_conv
      split: list.splits option.splits if_splits dest!: from_str_radix_bound)

lemma ascii_lower_domain:
  "is_ascii_alphanumeric b \<or> b = CHR ''-'' \<or> b = CHR ''.'' \<Longrightarrow>
     is_ascii_alphanumeric (ascii_lower b) \<or> ascii_lower b = CHR ''-'' \<or> ascii_lower b = CHR ''.''"
  by (auto simp: ascii_lower_def is_ascii_alphanumeric_def is_ascii_alphabetic_def is_ascii_digit_def)

lemma ascii_lower_dot: "ascii_lower b = CHR ''.'' \<longleftrightarrow> b = CHR ''.''"
  by (auto simp: ascii_lower_def u8_inject [symmetric] simp del: u8_inject)

lemma lower_domain_ok:
  assumes "d \<noteq> []" "\<not> starts_with d ''.''" "is_valid_domain_value d"
  shows "domain_ok (to_ascii_lowercase d)"
proof -
  obtain b bs where d: "d = b # bs" "b \<noteq> CHR ''.''" using assms(1,2) by (cases d) (auto simp: starts_with_def)
  then have "\<not> starts_with (to_ascii_lowercase d) ''.''" by (simp add: starts_with_def to_ascii_lowercase_def ascii_lower_dot)
  moreover have "is_valid_domain_value (to_ascii_lowercase d)"
    using assms(3) ascii_lower_domain by (simp add: is_valid_domain_value_def to_ascii_lowercase_def list_all_iff)
  moreover have "to_ascii_lowercase d \<noteq> []" using assms(1) by (simp add: to_ascii_lowercase_def)
  ultimately show ?thesis by (simp add: domain_ok_def)
qed

lemma attr_domain_ok: "set_cookie_ok c \<Longrightarrow> set_cookie_ok (attr_domain c v)"
  using lower_domain_ok by (simp add: attr_domain_def Let_def set_cookie_ok_def)

lemma set_cookie_attr_ok:
  assumes "set_cookie_attr y c part = Ok c'" "set_cookie_ok c" "valid_utf8 part" "CHR '';'' \<notin> set part"
  shows "set_cookie_ok c'"
proof (cases "find_char CHR ''='' part")
  case None
  then show ?thesis using assms(1,2) by (auto simp: set_cookie_attr_def Let_def set_cookie_ok_def split: if_splits)
next
  case (Some i)
  let ?v = "str_trim (drop (i + 1) part)"
  have v: "valid_utf8 (drop (i + 1) part)" using valid_utf8_find_char(2) [OF assms(3) Some] by simp
  have "CHR '';'' \<notin> set ?v" using assms(4) set_str_trim [of "drop (i + 1) part"] by (auto dest: in_set_dropD)
  then have p: "starts_with ?v ''/'' \<Longrightarrow> path_ok ?v" using str_trim_idem [OF v] by (simp add: path_ok_def)
  show ?thesis
    using assms(1,2) Some p attr_expires_ok attr_max_age_ok attr_domain_ok
    by (auto simp: set_cookie_attr_def Let_def set_cookie_ok_def split: if_splits elim!: resultE)
qed

lemma set_cookie_loop_ok:
  "set_cookie_loop y ps c = Ok c' \<Longrightarrow> set_cookie_ok c \<Longrightarrow> \<forall>p \<in> set ps. valid_utf8 p \<and> CHR '';'' \<notin> set p \<Longrightarrow>
     set_cookie_ok c'"
proof (induction y ps c rule: set_cookie_loop.induct)
  case (2 y p ps c)
  have p: "valid_utf8 (trim_ows p)" "CHR '';'' \<notin> set (trim_ows p)"
    using "2.prems"(3) valid_utf8_trim_ows set_trim_ows [of p] by auto
  show ?case
  proof (cases "trim_ows p = []")
    case True
    then show ?thesis using 2 by simp
  next
    case False
    then obtain d where d: "set_cookie_attr y c (trim_ows p) = Ok d" "set_cookie_loop y ps d = Ok c'"
      using "2.prems"(1) by (auto elim!: resultE)
    from set_cookie_attr_ok [OF d(1) "2.prems"(2) p] "2.IH"(2) [OF refl False d] "2.prems"(3)
    show ?thesis by simp
  qed
qed simp

lemma SetCookie_parse_ok:
  assumes "SetCookie_parse s y = Ok c" "valid_utf8 s"
  shows "set_cookie_ok c"
proof -
  obtain first parts n v where f: "split_on CHR '';'' (trim_ows s) = first # parts"
    "parse_cookie_pair (trim_ows first) = Ok (n, v)" "set_cookie_loop y parts (plain_set_cookie n v) = Ok c"
    using assms(1) by (auto simp: SetCookie_parse_def Let_def elim!: resultE split: list.splits)
  have "set_cookie_ok (plain_set_cookie n v)"
    using parse_cookie_pair_ok [OF f(2)] by (simp add: set_cookie_ok_def plain_set_cookie_def)
  moreover have "valid_utf8 p \<and> CHR '';'' \<notin> set p" if "p \<in> set parts" for p
  proof -
    have i: "p \<in> set (split_on CHR '';'' (trim_ows s))" using that f(1) by simp
    have "u8 CHR '';'' < 0x80" by simp
    from valid_utf8_split_on [OF this valid_utf8_trim_ows [OF assms(2)] i] split_on_pieces [OF i] show ?thesis by simp
  qed
  ultimately show ?thesis using set_cookie_loop_ok [OF f(3)] by blast
qed

section \<open>The printed form\<close>

text \<open>The attributes of a cookie as they are printed, each without its separator.\<close>

definition expires_attr :: "SetCookie \<Rightarrow> string list" where
  "expires_attr c = (case sc_expires c of Some e \<Rightarrow> [''Expires='' @ HttpDate_display e] | None \<Rightarrow> [])"
definition max_age_attr :: "SetCookie \<Rightarrow> string list" where
  "max_age_attr c = (case sc_max_age c of Some m \<Rightarrow> [''Max-Age='' @ int_to_dec m] | None \<Rightarrow> [])"
definition domain_attr :: "SetCookie \<Rightarrow> string list" where
  "domain_attr c = (case sc_domain c of Some d \<Rightarrow> [''Domain='' @ d] | None \<Rightarrow> [])"
definition path_attr :: "SetCookie \<Rightarrow> string list" where
  "path_attr c = (case sc_path c of Some p \<Rightarrow> [''Path='' @ p] | None \<Rightarrow> [])"
definition secure_attr :: "SetCookie \<Rightarrow> string list" where
  "secure_attr c = (if sc_secure c then [''Secure''] else [])"
definition http_only_attr :: "SetCookie \<Rightarrow> string list" where
  "http_only_attr c = (if sc_http_only c then [''HttpOnly''] else [])"
definition same_site_attr :: "SetCookie \<Rightarrow> string list" where
  "same_site_attr c = (case sc_same_site c of Some ss \<Rightarrow> [''SameSite='' @ SameSite_display ss] | None \<Rightarrow> [])"

definition attrs :: "SetCookie \<Rightarrow> string list" where
  "attrs c = expires_attr c @ max_age_attr c @ domain_attr c @ path_attr c @ secure_attr c @ http_only_attr c @ same_site_attr c"

lemmas attr_defs = expires_attr_def max_age_attr_def domain_attr_def path_attr_def secure_attr_def http_only_attr_def same_site_attr_def

lemma separated:
  "concat (map (\<lambda>a. CHR '';'' # SP # a) (case x of Some v \<Rightarrow> [t v] | None \<Rightarrow> []))
     = (case x of Some v \<Rightarrow> CHR '';'' # SP # t v | None \<Rightarrow> [])"
  "concat (map (\<lambda>a. CHR '';'' # SP # a) (if b then [u] else [])) = (if b then CHR '';'' # SP # u else [])"
  by (simp_all split: option.split)

lemma display_attrs:
  "SetCookie_display c = (sc_name c @ CHR ''='' # sc_value c) @ concat (map (\<lambda>a. CHR '';'' # SP # a) (attrs c))"
  unfolding SetCookie_display_def attrs_def map_append concat_append attr_defs separated
  by (simp cong: option.case_cong)

text \<open>An attribute text: no semicolon, and no white space at its ends.\<close>

definition attr_text :: "string \<Rightarrow> bool" where
  "attr_text a \<longleftrightarrow> a \<noteq> [] \<and> CHR '';'' \<notin> set a \<and> \<not> is_ows (hd a) \<and> \<not> is_ows (last a)"

lemma attr_text_trim: "attr_text a \<Longrightarrow> trim_ows (SP # a) = a"
  by (simp add: attr_text_def trim_ows_Cons_ows trim_ows_ends is_ows_def [of SP])

lemma attr_text_value:
  assumes "v \<noteq> []" "CHR '';'' \<notin> set v" "\<not> is_ows (last v)" "list_all is_token_char n" "n \<noteq> []"
  shows "attr_text (n @ CHR ''='' # v)"
proof -
  obtain c cs where n: "n = c # cs" "is_token_char c" using assms(4,5) by (cases n) auto
  have "\<not> is_ows c" using n(2) token_char_not_sep [of c] by (auto simp: is_ows_def)
  moreover have "\<not> is_token_char CHR '';''" by (simp add: is_token_char_def)
  then have "CHR '';'' \<notin> set n" using assms(4) by (auto simp: list_all_iff)
  ultimately show ?thesis using assms n(1) by (simp add: attr_text_def)
qed

abbreviation spaced :: "string list \<Rightarrow> string list" where
  "spaced as \<equiv> map (\<lambda>a. SP # a) as"

lemma split_attrs:
  assumes "CHR '';'' \<notin> set a" "list_all attr_text as"
  shows "split_on CHR '';'' (a @ concat (map (\<lambda>a. CHR '';'' # SP # a) as)) = a # spaced as"
  using assms
proof (induction as arbitrary: a)
  case Nil
  then show ?case by (simp add: split_on_no_sep)
next
  case (Cons x as)
  have "CHR '';'' \<notin> set (SP # x)" using Cons.prems(2) by (simp add: attr_text_def)
  from Cons.IH [OF this] Cons.prems split_on_append_sep [OF Cons.prems(1), of "(SP # x) @ concat (map (\<lambda>a. CHR '';'' # SP # a) as)"]
  show ?case by simp
qed

lemma set_cookie_loop_attrs:
  "list_all attr_text as \<Longrightarrow> set_cookie_loop y (spaced as @ ps) c =
     and_then (set_cookie_loop y (spaced as) c) (set_cookie_loop y ps)"
proof (induction as arbitrary: c)
  case (Cons a as)
  then have a: "trim_ows (SP # a) = a" "a \<noteq> []" using attr_text_trim by (auto simp: attr_text_def)
  show ?case
    using Cons a by (cases "set_cookie_attr y c a") simp_all
qed simp

lemma set_cookie_loop_one:
  "attr_text a \<Longrightarrow> set_cookie_loop y (spaced [a]) c = set_cookie_attr y c a"
  using attr_text_trim [of a] by (cases "set_cookie_attr y c a") (simp_all add: attr_text_def)

text \<open>One attribute with a value.\<close>

lemma set_cookie_attr_value:
  assumes "CHR ''='' \<notin> set n" "str_trim n = n" "str_trim v = v"
  shows "set_cookie_attr y c (n @ CHR ''='' # v) =
    (if to_ascii_lowercase n = ''expires'' then attr_expires c v y
     else if to_ascii_lowercase n = ''max-age'' then Ok (attr_max_age c v)
     else if to_ascii_lowercase n = ''domain'' then Ok (attr_domain c v)
     else if to_ascii_lowercase n = ''path'' \<and> v \<noteq> [] \<and> starts_with v ''/'' then Ok (c\<lparr>sc_path := Some v\<rparr>)
     else if to_ascii_lowercase n = ''samesite'' then
       and_then (SameSite_from_str v) (\<lambda>ss. Ok (c\<lparr>sc_same_site := Some ss\<rparr>))
     else Ok c)"
  using assms find_char_mid [OF assms(1), of v] by (simp add: set_cookie_attr_def Let_def)

lemma attr_names:
  "str_trim ''Expires'' = ''Expires''" "str_trim ''Max-Age'' = ''Max-Age''" "str_trim ''Domain'' = ''Domain''"
  "str_trim ''Path'' = ''Path''" "str_trim ''SameSite'' = ''SameSite''"
  by (simp_all add: str_trim_plain plain_def is_whitespace_cp_def)

lemma attr_names_lower:
  "to_ascii_lowercase ''Expires'' = ''expires''" "to_ascii_lowercase ''Max-Age'' = ''max-age''"
  "to_ascii_lowercase ''Domain'' = ''domain''" "to_ascii_lowercase ''Path'' = ''path''"
  "to_ascii_lowercase ''SameSite'' = ''samesite''" "to_ascii_lowercase ''Secure'' = ''secure''"
  "to_ascii_lowercase ''HttpOnly'' = ''httponly''"
  by code_simp+

lemma attr_tokens:
  "list_all is_token_char ''Expires''" "list_all is_token_char ''Max-Age''" "list_all is_token_char ''Domain''"
  "list_all is_token_char ''Path''" "list_all is_token_char ''SameSite''"
  by (simp_all add: is_token_char_def is_ascii_alphanumeric_def is_ascii_alphabetic_def is_ascii_digit_def)

section \<open>Each attribute is read back\<close>

lemma not_ows_last: "list_all plain s \<Longrightarrow> s \<noteq> [] \<Longrightarrow> \<not> is_ows (last s)"
  using str_trim_last str_trim_plain by blast

lemma date_display_text:
  assumes "date_ok e"
  shows "HttpDate_display e \<noteq> []" "CHR '';'' \<notin> set (HttpDate_display e)" "\<not> is_ows (last (HttpDate_display e))"
    "str_trim (HttpDate_display e) = HttpDate_display e"
proof -
  have m: "list_all is_ascii_alphabetic (month_name (hd_month e))" "list_all is_ascii_alphabetic (short_name (hd_day_of_week e))"
    "short_name (hd_day_of_week e) \<noteq> []"
    using assms month_name_letters [of "hd_month e"] short_name_letters [of "hd_day_of_week e"] by (auto simp: date_ok_def)
  have l: "\<not> is_ascii_alphabetic CHR '';''" "\<not> is_ascii_digit CHR '';''" by (simp_all add: is_ascii_alphabetic_def is_ascii_digit_def)
  obtain r where r: "rest_text e = r @ ''T''" using rest_text_first(2) by blast
  show ne: "HttpDate_display e \<noteq> []" by (simp add: HttpDate_display_eq)
  show "CHR '';'' \<notin> set (HttpDate_display e)"
    using m(1,2) l pad_dec_no [OF l(2)] by (auto simp: HttpDate_display_def list_all_iff)
  have last: "last (HttpDate_display e) = CHR ''T''" by (simp add: HttpDate_display_eq r)
  then show "\<not> is_ows (last (HttpDate_display e))" by (simp add: is_ows_def)
  have "hd (HttpDate_display e) = hd (short_name (hd_day_of_week e))" using m(3) by (simp add: HttpDate_display_eq)
  moreover have "plain (hd (short_name (hd_day_of_week e)))" using m(2,3) plain_letters by (auto simp: list_all_iff)
  ultimately show "str_trim (HttpDate_display e) = HttpDate_display e"
    using ne last by (intro str_trim_plain_hd_last) (simp_all add: plain_def is_whitespace_cp_def)
qed

lemma expires_step:
  assumes "date_ok e"
  shows "attr_text (''Expires'' @ CHR ''='' # HttpDate_display e)"
    "set_cookie_attr y c (''Expires'' @ CHR ''='' # HttpDate_display e) = Ok (c\<lparr>sc_expires := Some e\<rparr>)"
proof -
  note d = date_display_text [OF assms]
  show "attr_text (''Expires'' @ CHR ''='' # HttpDate_display e)"
    by (rule attr_text_value [OF d(1-3) attr_tokens(1)]) simp
  show "set_cookie_attr y c (''Expires'' @ CHR ''='' # HttpDate_display e) = Ok (c\<lparr>sc_expires := Some e\<rparr>)"
    using HttpDate_parse_display [OF assms] by (subst set_cookie_attr_value [OF _ attr_names(1) d(4)]) (simp_all add: attr_names_lower attr_expires_def)
qed

lemma digits_text: "CHR '';'' \<notin> set (nat_to_dec n)"
  using nat_to_dec_is_digit [of "CHR '';''" n] by (auto simp: is_ascii_digit_def)

lemma max_age_step:
  assumes "max_age_ok m"
  shows "attr_text (''Max-Age'' @ CHR ''='' # int_to_dec m)"
    "set_cookie_attr y c (''Max-Age'' @ CHR ''='' # int_to_dec m) = Ok (c\<lparr>sc_max_age := Some m\<rparr>)"
proof -
  obtain n where m: "m = int n" "n < 2 ^ 63" using assms by (cases m rule: int_cases2) (auto simp: max_age_ok_def)
  have e: "int_to_dec m = nat_to_dec n" using m(1) by (simp add: int_to_dec_def)
  note p = nat_to_dec_plain [of n]
  show "attr_text (''Max-Age'' @ CHR ''='' # int_to_dec m)"
    unfolding e by (rule attr_text_value [OF nat_to_dec_not_Nil digits_text not_ows_last [OF p] attr_tokens(2)]) simp_all
  obtain d ds where d: "nat_to_dec n = d # ds" by (cases "nat_to_dec n") auto
  have dig: "\<forall>x \<in> set (d # ds). is_ascii_digit x" using nat_to_dec_is_digit [of _ n] d by simp
  then have nd: "d \<noteq> CHR ''-''" by (auto simp: is_ascii_digit_def)
  have "parse_i64 (nat_to_dec n) = Some (int n)"
    using m(2) from_str_radix_nat_to_dec [of n "2 ^ 63 - 1"] nd d by (simp add: parse_i64_def i64_bound_def)
  then have "attr_max_age c (nat_to_dec n) = c\<lparr>sc_max_age := Some (int n)\<rparr>"
    using d dig by (simp add: attr_max_age_def list_all_iff)
  then show "set_cookie_attr y c (''Max-Age'' @ CHR ''='' # int_to_dec m) = Ok (c\<lparr>sc_max_age := Some m\<rparr>)"
    unfolding e unfolding m(1) by (subst set_cookie_attr_value [OF _ attr_names(2) str_trim_plain [OF p]]) (simp_all add: attr_names_lower)
qed

lemma domain_char_plain: "is_ascii_alphanumeric b \<or> b = CHR ''-'' \<or> b = CHR ''.'' \<Longrightarrow> plain b \<and> b \<noteq> CHR '';''"
  by (auto simp: is_ascii_alphanumeric_def is_ascii_alphabetic_def is_ascii_digit_def plain_def is_whitespace_cp_def)

lemma domain_step:
  assumes "domain_ok d"
  shows "attr_text (''Domain'' @ CHR ''='' # d)"
    "set_cookie_attr y c (''Domain'' @ CHR ''='' # d) = Ok (c\<lparr>sc_domain := Some d\<rparr>)"
proof -
  have d: "d \<noteq> []" "\<not> starts_with d ''.''" "is_valid_domain_value d" "to_ascii_lowercase d = d"
    using assms by (auto simp: domain_ok_def)
  have "\<forall>b \<in> set d. plain b \<and> b \<noteq> CHR '';''"
    using d(3) domain_char_plain by (simp add: is_valid_domain_value_def list_all_iff)
  then have p: "list_all plain d" "CHR '';'' \<notin> set d" by (auto simp: list_all_iff)
  show "attr_text (''Domain'' @ CHR ''='' # d)"
    by (rule attr_text_value [OF d(1) p(2) not_ows_last [OF p(1) d(1)] attr_tokens(3)]) simp
  show "set_cookie_attr y c (''Domain'' @ CHR ''='' # d) = Ok (c\<lparr>sc_domain := Some d\<rparr>)"
    using d by (subst set_cookie_attr_value [OF _ attr_names(3) str_trim_plain [OF p(1)]])
      (simp_all add: attr_names_lower attr_domain_def strip_prefix_def)
qed

lemma path_step:
  assumes "path_ok p"
  shows "attr_text (''Path'' @ CHR ''='' # p)"
    "set_cookie_attr y c (''Path'' @ CHR ''='' # p) = Ok (c\<lparr>sc_path := Some p\<rparr>)"
proof -
  have p: "starts_with p ''/''" "p \<noteq> []" "CHR '';'' \<notin> set p" "str_trim p = p"
    using assms by (auto simp: path_ok_def starts_with_def)
  show "attr_text (''Path'' @ CHR ''='' # p)"
    by (rule attr_text_value [OF p(2,3) str_trim_last [OF p(4,2)] attr_tokens(4)]) simp
  show "set_cookie_attr y c (''Path'' @ CHR ''='' # p) = Ok (c\<lparr>sc_path := Some p\<rparr>)"
    using p by (subst set_cookie_attr_value [OF _ attr_names(4) p(4)]) (simp_all add: attr_names_lower)
qed

lemma same_site_step:
  "attr_text (''SameSite'' @ CHR ''='' # SameSite_display ss)"
  "set_cookie_attr y c (''SameSite'' @ CHR ''='' # SameSite_display ss) = Ok (c\<lparr>sc_same_site := Some ss\<rparr>)"
proof -
  have s: "SameSite_display ss \<noteq> []" "CHR '';'' \<notin> set (SameSite_display ss)" "list_all plain (SameSite_display ss)"
    by (cases ss; simp add: plain_def is_whitespace_cp_def)+
  have "SameSite_from_str ''Strict'' = Ok SSStrict" "SameSite_from_str ''Lax'' = Ok SSLax"
    "SameSite_from_str ''None'' = Ok SSNone" by code_simp+
  then have f: "SameSite_from_str (SameSite_display ss) = Ok ss" by (cases ss) simp_all
  show "attr_text (''SameSite'' @ CHR ''='' # SameSite_display ss)"
    by (rule attr_text_value [OF s(1,2) not_ows_last [OF s(3,1)] attr_tokens(5)]) simp
  show "set_cookie_attr y c (''SameSite'' @ CHR ''='' # SameSite_display ss) = Ok (c\<lparr>sc_same_site := Some ss\<rparr>)"
    using f by (subst set_cookie_attr_value [OF _ attr_names(5) str_trim_plain [OF s(3)]]) (simp_all add: attr_names_lower)
qed

lemma flag_steps:
  "attr_text ''Secure''" "attr_text ''HttpOnly''"
  "set_cookie_attr y c ''Secure'' = Ok (c\<lparr>sc_secure := True\<rparr>)"
  "set_cookie_attr y c ''HttpOnly'' = Ok (c\<lparr>sc_http_only := True\<rparr>)"
  by (simp_all add: attr_text_def is_ows_def set_cookie_attr_def find_char_def attr_names_lower)

section \<open>The fixed point\<close>

lemma set_cookie_loop_segments:
  assumes "set_cookie_ok c"
  shows "list_all attr_text (attrs c)"
    "set_cookie_loop y (spaced (expires_attr c)) d = Ok (d\<lparr>sc_expires := (if sc_expires c = None then sc_expires d else sc_expires c)\<rparr>)"
    "set_cookie_loop y (spaced (max_age_attr c)) d = Ok (d\<lparr>sc_max_age := (if sc_max_age c = None then sc_max_age d else sc_max_age c)\<rparr>)"
    "set_cookie_loop y (spaced (domain_attr c)) d = Ok (d\<lparr>sc_domain := (if sc_domain c = None then sc_domain d else sc_domain c)\<rparr>)"
    "set_cookie_loop y (spaced (path_attr c)) d = Ok (d\<lparr>sc_path := (if sc_path c = None then sc_path d else sc_path c)\<rparr>)"
    "set_cookie_loop y (spaced (secure_attr c)) d = Ok (d\<lparr>sc_secure := (sc_secure c \<or> sc_secure d)\<rparr>)"
    "set_cookie_loop y (spaced (http_only_attr c)) d = Ok (d\<lparr>sc_http_only := (sc_http_only c \<or> sc_http_only d)\<rparr>)"
    "set_cookie_loop y (spaced (same_site_attr c)) d = Ok (d\<lparr>sc_same_site := (if sc_same_site c = None then sc_same_site d else sc_same_site c)\<rparr>)"
proof -
  have ok: "\<And>e. sc_expires c = Some e \<Longrightarrow> date_ok e" "\<And>m. sc_max_age c = Some m \<Longrightarrow> max_age_ok m"
    "\<And>x. sc_domain c = Some x \<Longrightarrow> domain_ok x" "\<And>p. sc_path c = Some p \<Longrightarrow> path_ok p"
    using assms by (simp_all add: set_cookie_ok_def)
  note steps = expires_step(1) [OF ok(1), simplified] max_age_step(1) [OF ok(2), simplified]
    domain_step(1) [OF ok(3), simplified] path_step(1) [OF ok(4), simplified] same_site_step(1) [simplified]
  show "list_all attr_text (attrs c)"
    unfolding attrs_def attr_defs list_all_append using steps flag_steps(1,2) by (simp split: option.split)
  note one = set_cookie_loop_one [unfolded list.map]
  show "set_cookie_loop y (spaced (expires_attr c)) d = Ok (d\<lparr>sc_expires := (if sc_expires c = None then sc_expires d else sc_expires c)\<rparr>)"
    using one [OF steps(1)] expires_step(2) [OF ok(1), simplified] by (cases "sc_expires c") (simp_all add: expires_attr_def)
  show "set_cookie_loop y (spaced (max_age_attr c)) d = Ok (d\<lparr>sc_max_age := (if sc_max_age c = None then sc_max_age d else sc_max_age c)\<rparr>)"
    using one [OF steps(2)] max_age_step(2) [OF ok(2), simplified] by (cases "sc_max_age c") (simp_all add: max_age_attr_def)
  show "set_cookie_loop y (spaced (domain_attr c)) d = Ok (d\<lparr>sc_domain := (if sc_domain c = None then sc_domain d else sc_domain c)\<rparr>)"
    using one [OF steps(3)] domain_step(2) [OF ok(3), simplified] by (cases "sc_domain c") (simp_all add: domain_attr_def)
  show "set_cookie_loop y (spaced (path_attr c)) d = Ok (d\<lparr>sc_path := (if sc_path c = None then sc_path d else sc_path c)\<rparr>)"
    using one [OF steps(4)] path_step(2) [OF ok(4), simplified] by (cases "sc_path c") (simp_all add: path_attr_def)
  show "set_cookie_loop y (spaced (secure_attr c)) d = Ok (d\<lparr>sc_secure := (sc_secure c \<or> sc_secure d)\<rparr>)"
    using one [OF flag_steps(1)] flag_steps(3) by (simp add: secure_attr_def)
  show "set_cookie_loop y (spaced (http_only_attr c)) d = Ok (d\<lparr>sc_http_only := (sc_http_only c \<or> sc_http_only d)\<rparr>)"
    using one [OF flag_steps(2)] flag_steps(4) by (simp add: http_only_attr_def)
  show "set_cookie_loop y (spaced (same_site_attr c)) d = Ok (d\<lparr>sc_same_site := (if sc_same_site c = None then sc_same_site d else sc_same_site c)\<rparr>)"
    using one [OF steps(5)] same_site_step(2) [simplified] by (cases "sc_same_site c") (simp_all add: same_site_attr_def)
qed

lemma set_cookie_loop_all:
  assumes "set_cookie_ok c"
  shows "set_cookie_loop y (spaced (attrs c)) (plain_set_cookie (sc_name c) (sc_value c)) = Ok c"
proof -
  note seg = set_cookie_loop_segments [OF assms]
  have t: "list_all attr_text (expires_attr c)" "list_all attr_text (max_age_attr c)" "list_all attr_text (domain_attr c)"
    "list_all attr_text (path_attr c)" "list_all attr_text (secure_attr c)" "list_all attr_text (http_only_attr c)"
    using seg(1) by (simp_all add: attrs_def)
  show ?thesis
    unfolding attrs_def map_append set_cookie_loop_attrs [OF t(1)] set_cookie_loop_attrs [OF t(2)]
      set_cookie_loop_attrs [OF t(3)] set_cookie_loop_attrs [OF t(4)] set_cookie_loop_attrs [OF t(5)]
      set_cookie_loop_attrs [OF t(6)] seg(2-8) and_then_simps
    by (simp add: plain_set_cookie_def)
qed

lemma cookie_octet_plain: "is_cookie_octet b \<Longrightarrow> plain b \<and> b \<noteq> CHR '';'' \<and> b \<noteq> DQUOTE"
  by (auto simp: is_cookie_octet_def plain_def is_whitespace_cp_def)

lemma parse_cookie_pair_text:
  assumes "is_valid_cookie_name n" "is_valid_cookie_value v"
  shows "parse_cookie_pair (n @ CHR ''='' # v) = Ok (n, v)" "trim_ows (n @ CHR ''='' # v) = n @ CHR ''='' # v"
    "CHR '';'' \<notin> set (n @ CHR ''='' # v)" "\<not> is_ows (hd (n @ CHR ''='' # v))"
proof -
  have n: "is_valid_token n" using assms(1) by (simp add: is_valid_cookie_name_def is_valid_token_def)
  have v: "\<forall>b \<in> set v. plain b \<and> b \<noteq> CHR '';'' \<and> b \<noteq> DQUOTE"
    using assms(2) cookie_octet_plain by (simp add: is_valid_cookie_value_def list_all_iff)
  moreover have "plain CHR ''=''" by (simp add: plain_def is_whitespace_cp_def)
  ultimately have p: "list_all plain (n @ CHR ''='' # v)" using valid_token_plain [OF n] by (auto simp: list_all_iff)
  have eq: "CHR ''='' \<notin> set n" "CHR '';'' \<notin> set n" by (rule valid_token_no [OF n], simp add: is_token_char_def)+
  have "\<not> starts_with v [DQUOTE]" using v by (cases v) (auto simp: starts_with_def)
  moreover have "str_trim v = v" using v by (intro str_trim_plain) (simp add: list_all_iff)
  ultimately show "parse_cookie_pair (n @ CHR ''='' # v) = Ok (n, v)"
    using assms n find_char_mid [OF eq(1), of v] valid_token_not_Nil [OF n] by (simp add: parse_cookie_pair_def)
  have np: "n @ CHR ''='' # v \<noteq> []" by simp
  have "is_ows x \<Longrightarrow> \<not> plain x" for x by (auto simp: is_ows_def plain_def is_whitespace_cp_def)
  then show h: "\<not> is_ows (hd (n @ CHR ''='' # v))" using p np by (metis list.set_sel(1) list_all_set)
  show "trim_ows (n @ CHR ''='' # v) = n @ CHR ''='' # v" by (rule trim_ows_ends [OF np h not_ows_last [OF p np]])
  show "CHR '';'' \<notin> set (n @ CHR ''='' # v)" using v eq(2) by auto
qed

lemma display_last:
  "list_all attr_text as \<Longrightarrow> \<not> is_ows (last a) \<Longrightarrow> a \<noteq> [] \<Longrightarrow>
     \<not> is_ows (last (a @ concat (map (\<lambda>x. CHR '';'' # SP # x) as)))"
  by (induction as rule: rev_induct) (auto simp: attr_text_def)

lemma SetCookie_parse_display:
  assumes "set_cookie_ok c"
  shows "SetCookie_parse (SetCookie_display c) y = Ok c"
proof -
  let ?p = "sc_name c @ CHR ''='' # sc_value c"
  have nv: "is_valid_cookie_name (sc_name c)" "is_valid_cookie_value (sc_value c)" using assms by (simp_all add: set_cookie_ok_def)
  note p = parse_cookie_pair_text [OF nv]
  note at = set_cookie_loop_segments(1) [OF assms]
  have l: "\<not> is_ows (last ?p)" using p(2) trim_ows_spec [of ?p] by (metis append_is_Nil_conv list.distinct(1))
  let ?d = "?p @ concat (map (\<lambda>a. CHR '';'' # SP # a) (attrs c))"
  have d: "?d \<noteq> []" "\<not> is_ows (hd ?d)" "\<not> is_ows (last ?d)"
    using p(4) display_last [OF at l] by (auto simp: hd_append split: if_splits)
  show ?thesis
    unfolding SetCookie_parse_def display_attrs trim_ows_ends [OF d] Let_def split_attrs [OF p(3) at] list.case p(1,2)
    using set_cookie_loop_all [OF assms] by simp
qed

text \<open>
  C40. Parsing a Set-Cookie header, printing the cookie and parsing it again is a fixed point: every
  cookie \<open>SetCookie::parse\<close> returns is printed by \<open>Display\<close> as a text that parses to the same
  cookie (name, value and all seven attributes), whatever reference year the second parse is given.
\<close>

theorem set_cookie_fixed_point:
  assumes "valid_utf8 s" "SetCookie_parse s reference_year = Ok c"
  shows "SetCookie_parse (SetCookie_display c) other_year = Ok c"
  using SetCookie_parse_display [OF SetCookie_parse_ok [OF assms(2,1)]] .

definition sample_set_cookie :: string where
  "sample_set_cookie = ''id = a3fWa; domain=.Example.COM; Expires=Sunday, 06-Nov-94 08:49:37 GMT; MAX-AGE=-5; path= /x=y ; HttpOnly; Foo; samesite=LAX''"

theorem set_cookie_fixed_point_witness:
  "\<exists>c. SetCookie_parse sample_set_cookie 2026 = Ok c \<and> sc_domain c = Some ''example.com'' \<and> sc_max_age c = Some 0
     \<and> sc_path c = Some ''/x=y'' \<and> SetCookie_parse (SetCookie_display c) 0 = Ok c"
proof -
  define c where "c = \<lparr>sc_name = ''id'', sc_value = ''a3fWa'', sc_expires = Some \<lparr>hd_day_of_week = Sunday, hd_day = 6,
     hd_month = 11, hd_year = 1994, hd_hour = 8, hd_minute = 49, hd_second = 37\<rparr>, sc_max_age = Some 0,
     sc_domain = Some ''example.com'', sc_path = Some ''/x=y'', sc_secure = False, sc_http_only = True, sc_same_site = Some SSLax\<rparr>"
  have p: "SetCookie_parse sample_set_cookie 2026 = Ok c" unfolding c_def by code_simp
  have v: "valid_utf8 sample_set_cookie" by code_simp
  from p set_cookie_fixed_point [OF v p, of 0] show ?thesis by (intro exI [of _ c]) (simp add: c_def)
qed

end
