(* ===== verification/Header_List.thy ===== *)
theory Header_List
  imports Str_Valid
begin

text \<open>
  Comma-separated header values (RFC 9110 Section 5.6.1). Every list header of the library is read by
  the same loop: split the value, trim each piece, skip the empty ones, parse the others. The
  interfaces are locales: \<open>trimmer\<close> for the two trimming functions, \<open>splitter\<close> for the two ways of
  splitting, \<open>item_printer\<close> and \<open>item_codec\<close> for the parser and printer of one element, and \<open>list_printer\<close>
  and \<open>list_header\<close>, which combine them and prove once that a printed list is read back and that
  the whole header survives printing and parsing.
\<close>

section \<open>The loop\<close>

fun list_items :: "(string \<Rightarrow> string) \<Rightarrow> (string \<Rightarrow> ('a, 'e) result) \<Rightarrow> string list \<Rightarrow> 'a list \<Rightarrow> ('a list, 'e) result" where
  "list_items trim_fn parse_item [] items = Ok items"
| "list_items trim_fn parse_item (p # ps) items =
     (let part = trim_fn p
      in if part = [] then list_items trim_fn parse_item ps items
         else and_then (parse_item part) (\<lambda>x. list_items trim_fn parse_item ps (items @ [x])))"

lemma list_items_elems:
  "list_items trim_fn parse_item ps acc = Ok xs \<Longrightarrow> x \<in> set xs \<Longrightarrow>
     x \<in> set acc \<or> (\<exists>p \<in> set ps. parse_item (trim_fn p) = Ok x)"
proof (induction ps arbitrary: acc)
  case (Cons p ps)
  show ?case
  proof (cases "trim_fn p = []")
    case True
    then show ?thesis using Cons.IH [of acc] Cons.prems by auto
  next
    case False
    then obtain y where "parse_item (trim_fn p) = Ok y" "list_items trim_fn parse_item ps (acc @ [y]) = Ok xs"
      using Cons.prems(1) by (auto elim!: resultE)
    then show ?thesis using Cons.IH [of "acc @ [y]"] Cons.prems(2) by auto
  qed
qed simp

text \<open>A text with plain characters at both ends is left alone by every trimming function.\<close>

definition plain_ends :: "string \<Rightarrow> bool" where
  "plain_ends s \<longleftrightarrow> s \<noteq> [] \<and> plain (hd s) \<and> plain (last s)"

lemma plain_ends_join:
  "list_all plain_ends xs \<Longrightarrow> xs \<noteq> [] \<Longrightarrow> plain_ends (join_comma xs)"
  by (induction xs rule: join_comma.induct) (auto simp: plain_ends_def hd_append)

lemma plain_ends_token: "is_valid_token s \<Longrightarrow> plain_ends s"
  using valid_token_plain [of s] valid_token_not_Nil [of s] by (auto simp: plain_ends_def list_all_iff)

section \<open>The interfaces\<close>

locale trimmer =
  fixes trim_fn :: "string \<Rightarrow> string"
  assumes trim_Nil: "trim_fn [] = []"
    and trim_plain_ends: "plain_ends s \<Longrightarrow> trim_fn s = s"
    and trim_leading_SP: "plain_ends s \<Longrightarrow> trim_fn (SP # s) = s"
    and trim_valid: "valid_utf8 s \<Longrightarrow> valid_utf8 (trim_fn s)"

text \<open>An atom is a text without a separator of its own.\<close>

locale splitter =
  fixes split_fn :: "string \<Rightarrow> string list" and atom :: "string \<Rightarrow> bool"
  assumes split_Nil: "split_fn [] = [[]]"
    and split_atom: "atom a \<Longrightarrow> a \<noteq> [] \<Longrightarrow> split_fn a = [a]"
    and split_cons: "atom a \<Longrightarrow> split_fn (a @ CHR '','' # s) = a # split_fn s"
    and atom_SP: "atom a \<Longrightarrow> atom (SP # a)"
    and split_valid: "valid_utf8 s \<Longrightarrow> p \<in> set (split_fn s) \<Longrightarrow> valid_utf8 p"
begin

lemma split_join:
  assumes "list_all (\<lambda>a. atom a \<and> a \<noteq> []) as" "as \<noteq> []"
  shows "split_fn (join_comma as) = hd as # map (\<lambda>a. SP # a) (tl as)"
  using assms
proof (induction as rule: join_comma.induct)
  case (3 x y xs)
  have "split_fn (SP # join_comma (y # xs)) = (SP # y) # map (\<lambda>a. SP # a) xs"
  proof (cases xs)
    case Nil
    then show ?thesis using 3 split_atom [OF atom_SP [of y]] by simp
  next
    case (Cons z zs)
    have s: "split_fn (y @ CHR '','' # SP # join_comma (z # zs)) = y # map (\<lambda>a. SP # a) (z # zs)"
      using 3 Cons by simp
    then have "split_fn (SP # join_comma (z # zs)) = map (\<lambda>a. SP # a) (z # zs)"
      using split_cons [of y "SP # join_comma (z # zs)"] 3 by simp
    then show ?thesis
      using split_cons [OF atom_SP [of y], of "SP # join_comma (z # zs)"] 3 Cons by simp
  qed
  then show ?case using 3 split_cons [of x "SP # join_comma (y # xs)"] by simp
qed (simp_all add: split_atom)

end

text \<open>The printer of one element, and the parser that also returns printable elements only.\<close>

locale item_printer =
  fixes parse_item :: "string \<Rightarrow> ('a, 'e) result" and show_item :: "'a \<Rightarrow> string" and item_ok :: "'a \<Rightarrow> bool"
  assumes parse_show_item: "item_ok x \<Longrightarrow> parse_item (show_item x) = Ok x"
    and show_item_ends: "item_ok x \<Longrightarrow> plain_ends (show_item x)"

locale item_codec = item_printer +
  assumes parse_item_ok: "valid_utf8 s \<Longrightarrow> parse_item s = Ok x \<Longrightarrow> item_ok x"

locale list_printer = trimmer trim_fn + splitter split_fn atom + item_printer parse_item show_item item_ok
  for trim_fn :: "string \<Rightarrow> string" and split_fn :: "string \<Rightarrow> string list" and atom :: "string \<Rightarrow> bool"
    and parse_item :: "string \<Rightarrow> ('a, 'e) result" and show_item :: "'a \<Rightarrow> string" and item_ok :: "'a \<Rightarrow> bool" +
  assumes show_item_atom: "item_ok x \<Longrightarrow> atom (show_item x)"
begin

lemma list_items_shown:
  "list_all item_ok xs \<Longrightarrow>
     list_items trim_fn parse_item (map (\<lambda>x. SP # show_item x) xs) acc = Ok (acc @ xs)"
proof (induction xs arbitrary: acc)
  case (Cons x xs)
  then have x: "item_ok x" by simp
  then have "show_item x \<noteq> []" using show_item_ends by (simp add: plain_ends_def)
  with Cons x trim_leading_SP [OF show_item_ends [OF x]] parse_show_item [OF x] show ?case by simp
qed simp

lemma trim_joined: "list_all item_ok xs \<Longrightarrow> trim_fn (join_comma (map show_item xs)) = join_comma (map show_item xs)"
  using plain_ends_join [of "map show_item xs"] show_item_ends
  by (cases "xs = []") (auto simp: trim_Nil list_all_iff intro!: trim_plain_ends)

text \<open>The printed list is read back.\<close>

lemma parse_shown:
  assumes "list_all item_ok xs"
  shows "list_items trim_fn parse_item (split_fn (join_comma (map show_item xs))) [] = Ok xs"
proof (cases xs)
  case Nil
  then show ?thesis by (simp add: split_Nil trim_Nil)
next
  case (Cons x ys)
  have a: "list_all (\<lambda>a. atom a \<and> a \<noteq> []) (map show_item xs)"
    using assms show_item_ends show_item_atom by (auto simp: list_all_iff plain_ends_def)
  have x: "item_ok x" "list_all item_ok ys" using assms Cons by auto
  have "show_item x \<noteq> []" using show_item_ends [OF x(1)] by (simp add: plain_ends_def)
  then show ?thesis
    using split_join [OF a] Cons trim_plain_ends [OF show_item_ends [OF x(1)]] parse_show_item [OF x(1)]
      list_items_shown [OF x(2), of "[x]"] by (simp add: comp_def)
qed

end

locale list_header = list_printer trim_fn split_fn atom parse_item show_item item_ok + item_codec parse_item show_item item_ok
  for trim_fn :: "string \<Rightarrow> string" and split_fn :: "string \<Rightarrow> string list" and atom :: "string \<Rightarrow> bool"
    and parse_item :: "string \<Rightarrow> ('a, 'e) result" and show_item :: "'a \<Rightarrow> string" and item_ok :: "'a \<Rightarrow> bool"
begin

lemma list_items_ok:
  "list_items trim_fn parse_item ps acc = Ok xs \<Longrightarrow> \<forall>p \<in> set ps. valid_utf8 p \<Longrightarrow> list_all item_ok acc \<Longrightarrow>
     list_all item_ok xs"
proof (induction ps arbitrary: acc)
  case (Cons p ps)
  show ?case
  proof (cases "trim_fn p = []")
    case True
    then show ?thesis using Cons by simp
  next
    case False
    then obtain x where x: "parse_item (trim_fn p) = Ok x" "list_items trim_fn parse_item ps (acc @ [x]) = Ok xs"
      using Cons.prems(1) by (auto elim!: resultE)
    have "item_ok x" using parse_item_ok [OF trim_valid x(1)] Cons.prems(2) by simp
    then show ?thesis using Cons.IH [OF x(2)] Cons.prems(2,3) by simp
  qed
qed simp

lemma parsed_items_ok:
  "list_items trim_fn parse_item (split_fn (trim_fn s)) [] = Ok xs \<Longrightarrow> valid_utf8 s \<Longrightarrow> list_all item_ok xs"
  using list_items_ok [of "split_fn (trim_fn s)" "[]" xs] split_valid [OF trim_valid] by auto

lemma roundtrip:
  assumes "list_items trim_fn parse_item (split_fn (trim_fn s)) [] = Ok xs" "valid_utf8 s"
  shows "list_items trim_fn parse_item (split_fn (trim_fn (join_comma (map show_item xs)))) [] = Ok xs"
  using parsed_items_ok [OF assms] trim_joined parse_shown by simp

end

section \<open>The providers\<close>

lemma plain_ends_SP: "plain_ends s \<Longrightarrow> trim_ows (SP # s) = s"
  using plain_not_ows trim_ows_ends [of s] by (simp add: plain_ends_def trim_ows_Cons_ows is_ows_def [of SP])

interpretation str_trim: trimmer str_trim
proof
  show "plain_ends s \<Longrightarrow> str_trim s = s" for s by (simp add: plain_ends_def str_trim_plain_hd_last)
  then show "plain_ends s \<Longrightarrow> str_trim (SP # s) = s" for s by simp
qed (simp_all add: valid_utf8_trim)

interpretation ows_trim: trimmer trim_ows
proof
  show "plain_ends s \<Longrightarrow> trim_ows s = s" for s using plain_not_ows by (simp add: plain_ends_def trim_ows_ends)
qed (simp_all add: valid_utf8_trim_ows plain_ends_SP)

definition no_comma :: "string \<Rightarrow> bool" where
  "no_comma a \<longleftrightarrow> CHR '','' \<notin> set a"

interpretation comma_split: splitter "split_on CHR '',''" no_comma
proof
  show "valid_utf8 s \<Longrightarrow> p \<in> set (split_on CHR '','' s) \<Longrightarrow> valid_utf8 p" for s p
    using valid_utf8_split_on [of "CHR '',''" s p] by simp
qed (simp_all add: no_comma_def split_on_no_sep split_on_append_sep)

text \<open>For the splitter that respects quotes, an atom is a text it copies whole.\<close>

definition quote_neutral :: "char \<Rightarrow> string \<Rightarrow> bool" where
  "quote_neutral d a \<longleftrightarrow> (\<forall>r cur. split_quotes_loop d (char_slices (a @ r)) False False cur
     = split_quotes_loop d (char_slices r) False False (cur @ a))"

lemma quote_neutral_append: "quote_neutral d a \<Longrightarrow> quote_neutral d b \<Longrightarrow> quote_neutral d (a @ b)"
  by (simp add: quote_neutral_def)

lemma quote_neutral_plain:
  assumes "list_all (\<lambda>c. u8 c < 0x80 \<and> c \<noteq> DQUOTE \<and> c \<noteq> d) a"
  shows "quote_neutral d a"
proof -
  have "split_quotes_loop d (char_slices (a @ r)) False False cur = split_quotes_loop d (char_slices r) False False (cur @ a)" for r cur
    using assms by (induction a arbitrary: cur) simp_all
  then show ?thesis by (simp add: quote_neutral_def)
qed

lemma split_quotes_escape:
  assumes "\<forall>c \<in> set cl. good_slice c"
  shows "split_quotes_loop d (concat (map escape_slices cl) @ cs) True False cur
    = split_quotes_loop d cs True False (cur @ concat (map escape_char cl))"
  using assms
proof (induction cl arbitrary: cur)
  case (Cons c cl)
  then have "split_quotes_loop d (escape_slices c @ xs) True False cur = split_quotes_loop d xs True False (cur @ escape_char c)"
    for xs by (auto simp: escape_slices_def escape_char_def)
  with Cons show ?case by simp
qed simp

lemma quote_neutral_quoted:
  assumes "valid_utf8 v"
  shows "quote_neutral d (DQUOTE # escape_quotes v @ [DQUOTE])"
proof -
  have g: "\<forall>c \<in> set (char_slices v). good_slice c" using assms by (simp add: valid_utf8_iff)
  show ?thesis
    unfolding quote_neutral_def escape_quotes_def
    using split_quotes_escape [OF g] char_slices_escape [OF g] by simp
qed

lemma split_with_quotes_neutral:
  assumes "quote_neutral d a" "u8 d < 0x80" "d \<noteq> DQUOTE" "d \<noteq> BACKSLASH"
  shows "split_with_quotes a d = [a]" "split_with_quotes (a @ d # s) d = a # split_with_quotes s d"
proof -
  have l: "split_quotes_loop d (char_slices (a @ r)) False False [] = split_quotes_loop d (char_slices r) False False a" for r
    using assms(1) by (simp add: quote_neutral_def)
  show "split_with_quotes a d = [a]" using l [of "[]"] by (simp add: split_with_quotes_def)
  show "split_with_quotes (a @ d # s) d = a # split_with_quotes s d"
    using l [of "d # s"] assms(2-4) by (simp add: split_with_quotes_def)
qed

lemma split_quotes_loop_slices:
  "\<exists>css. split_quotes_loop d cs q e (concat c0) = map concat css \<and> (\<forall>ds \<in> set css. set ds \<subseteq> set cs \<union> set c0)"
proof (induction d cs q e "concat c0" arbitrary: c0 rule: split_quotes_loop.induct)
  case (1 d q e)
  show ?case by (intro exI [of _ "[c0]"]) simp
next
  case (2 d c cs q e)
  have step: "\<exists>css. split_quotes_loop d cs q' e' (concat (c0 @ [c])) = map concat css \<and> (\<forall>ds \<in> set css. set ds \<subseteq> set (c # cs) \<union> set c0)"
    if "\<And>c1. concat c0 @ c = concat c1 \<Longrightarrow> \<exists>css. split_quotes_loop d cs q' e' (concat c1) = map concat css
          \<and> (\<forall>ds \<in> set css. set ds \<subseteq> set cs \<union> set c1)" for q' e'
    using that [of "c0 @ [c]"] by auto
  consider (a) "e" | (b) "\<not> e" "c = [BACKSLASH] \<and> q" | (c) "\<not> e" "\<not> (c = [BACKSLASH] \<and> q)" "c = [DQUOTE]"
    | (d) "\<not> e" "\<not> (c = [BACKSLASH] \<and> q)" "c \<noteq> [DQUOTE]" "c = [d] \<and> \<not> q"
    | (e) "\<not> e" "\<not> (c = [BACKSLASH] \<and> q)" "c \<noteq> [DQUOTE]" "\<not> (c = [d] \<and> \<not> q)" by blast
  then show ?case
  proof cases
    case d
    then obtain css where "split_quotes_loop d cs q False [] = map concat css" "\<forall>ds \<in> set css. set ds \<subseteq> set cs"
      using "2.hyps"(4) [of "[]"] by auto
    then show ?thesis using d by (intro exI [of _ "c0 # css"]) auto
  qed (use step "2.hyps" in \<open>auto\<close>)
qed

lemma valid_utf8_split_with_quotes:
  assumes "valid_utf8 s" "p \<in> set (split_with_quotes s d)"
  shows "valid_utf8 p"
proof -
  obtain css where c: "split_with_quotes s d = map concat css" "\<forall>ds \<in> set css. set ds \<subseteq> set (char_slices s)"
    using split_quotes_loop_slices [of d "char_slices s" False False "[]"] by (auto simp: split_with_quotes_def)
  then obtain ds where "ds \<in> set css" "p = concat ds" using assms(2) by auto
  then show ?thesis using valid_utf8_subset [OF assms(1)] c(2) by auto
qed

interpretation quote_split: splitter "\<lambda>s. split_with_quotes s CHR '',''" "quote_neutral CHR '',''"
proof
  show "quote_neutral CHR '','' (SP # a)" if "quote_neutral CHR '','' a" for a
    using quote_neutral_append [of "CHR '',''" "[SP]" a] that quote_neutral_plain [of "CHR '',''" "[SP]"] by simp
  show "split_with_quotes [] CHR '','' = [[]]" by (simp add: split_with_quotes_def)
qed (auto simp: split_with_quotes_neutral valid_utf8_split_with_quotes)

end
