(* ===== verification/List_Headers.thy ===== *)
theory List_Headers
  imports Header_List Content_Type Trailer
begin

text \<open>
  The headers that are lists of small elements: \<^verbatim>\<open>src/content_encoding.rs\<close>,
  \<^verbatim>\<open>src/content_language.rs\<close>, \<^verbatim>\<open>src/vary.rs\<close>, \<^verbatim>\<open>src/upgrade.rs\<close> and \<^verbatim>\<open>src/expect.rs\<close>. Each is
  an interpretation of \<open>list_header\<close>, which gives its round trip.
\<close>

section \<open>Content-Encoding\<close>

datatype ContentEncodingError = CEEmpty | CEInvalidFormat | CEInvalidEncoding

fun ContentEncodingError_display :: "ContentEncodingError \<Rightarrow> string" where
  "ContentEncodingError_display CEEmpty = ''empty Content-Encoding''"
| "ContentEncodingError_display CEInvalidFormat = ''invalid Content-Encoding format''"
| "ContentEncodingError_display CEInvalidEncoding = ''invalid Content-Encoding token''"

datatype ContentCoding = Gzip | Deflate | Compress | Identity | OtherCoding string

fun coding_as_str :: "ContentCoding \<Rightarrow> string" where
  "coding_as_str Gzip = ''gzip''"
| "coding_as_str Deflate = ''deflate''"
| "coding_as_str Compress = ''compress''"
| "coding_as_str Identity = ''identity''"
| "coding_as_str (OtherCoding v) = v"

definition parse_coding :: "string \<Rightarrow> (ContentCoding, ContentEncodingError) result" where
  "parse_coding token =
     reject_if (token = []) CEInvalidFormat
       (reject_if (\<not> is_valid_token token) CEInvalidEncoding
         (let normalized = to_ascii_lowercase token
          in Ok (if normalized = ''gzip'' then Gzip
                 else if normalized = ''deflate'' then Deflate
                 else if normalized = ''compress'' then Compress
                 else if normalized = ''identity'' then Identity
                 else OtherCoding normalized)))"

record ContentEncoding =
  ce_encodings :: "ContentCoding list"

definition ContentEncoding_parse :: "string \<Rightarrow> (ContentEncoding, ContentEncodingError) result" where
  "ContentEncoding_parse s =
     (let inp = str_trim s
      in and_then (if inp \<noteq> [] then list_items str_trim parse_coding (split_on CHR '','' inp) [] else Ok []) (\<lambda>encodings.
           Ok \<lparr>ce_encodings = encodings\<rparr>))"

definition has_gzip :: "ContentEncoding \<Rightarrow> bool" where
  "has_gzip c \<longleftrightarrow> list_ex (\<lambda>x. x = Gzip) (ce_encodings c)"

definition has_deflate :: "ContentEncoding \<Rightarrow> bool" where
  "has_deflate c \<longleftrightarrow> list_ex (\<lambda>x. x = Deflate) (ce_encodings c)"

definition has_compress :: "ContentEncoding \<Rightarrow> bool" where
  "has_compress c \<longleftrightarrow> list_ex (\<lambda>x. x = Compress) (ce_encodings c)"

definition has_identity :: "ContentEncoding \<Rightarrow> bool" where
  "has_identity c \<longleftrightarrow> list_ex (\<lambda>x. x = Identity) (ce_encodings c)"

definition ContentEncoding_display :: "ContentEncoding \<Rightarrow> string" where
  "ContentEncoding_display c = join_comma (map coding_as_str (ce_encodings c))"

definition coding_ok :: "ContentCoding \<Rightarrow> bool" where
  "coding_ok c \<longleftrightarrow> is_valid_token (coding_as_str c) \<and> parse_coding (coding_as_str c) = Ok c"

section \<open>Content-Language\<close>

datatype ContentLanguageError = CLEmpty | CLInvalidFormat | CLInvalidLanguageTag

fun ContentLanguageError_display :: "ContentLanguageError \<Rightarrow> string" where
  "ContentLanguageError_display CLEmpty = ''empty Content-Language''"
| "ContentLanguageError_display CLInvalidFormat = ''invalid Content-Language format''"
| "ContentLanguageError_display CLInvalidLanguageTag = ''invalid language tag''"

record ContentLanguage =
  cl_tags :: "string list"

definition parse_tag :: "string \<Rightarrow> (string, ContentLanguageError) result" where
  "parse_tag tag = reject_if (\<not> is_valid_language_tag tag) CLInvalidLanguageTag (Ok tag)"

definition ContentLanguage_parse :: "string \<Rightarrow> (ContentLanguage, ContentLanguageError) result" where
  "ContentLanguage_parse s =
     and_then (list_items str_trim parse_tag (split_on CHR '','' (str_trim s)) []) (\<lambda>tags. Ok \<lparr>cl_tags = tags\<rparr>)"

definition ContentLanguage_display :: "ContentLanguage \<Rightarrow> string" where
  "ContentLanguage_display c = join_comma (cl_tags c)"

section \<open>Vary\<close>

datatype VaryError = VEmpty | VInvalidFormat | VInvalidFieldName

fun VaryError_display :: "VaryError \<Rightarrow> string" where
  "VaryError_display VEmpty = ''empty Vary header''"
| "VaryError_display VInvalidFormat = ''invalid Vary header format''"
| "VaryError_display VInvalidFieldName = ''invalid Vary header field name''"

record Vary =
  v_any :: bool
  v_fields :: "string list"

text \<open>\<open>None\<close> stands for the element \<open>*\<close>.\<close>

definition parse_vary_item :: "string \<Rightarrow> (string option, VaryError) result" where
  "parse_vary_item name =
     (if name = ''*'' then Ok None
      else reject_if (\<not> is_valid_token name) VInvalidFieldName (Ok (Some (to_ascii_lowercase name))))"

definition Vary_parse :: "string \<Rightarrow> (Vary, VaryError) result" where
  "Vary_parse s =
     and_then (list_items trim_ows parse_vary_item (split_on CHR '','' (trim_ows s)) []) (\<lambda>items.
       let any = list_ex (\<lambda>x. x = None) items
       in Ok \<lparr>v_any = any, v_fields = (if any then [] else map the (filter (\<lambda>x. x \<noteq> None) items))\<rparr>)"

definition Vary_display :: "Vary \<Rightarrow> string" where
  "Vary_display v = (if v_any v then ''*'' else join_comma (v_fields v))"

section \<open>Upgrade\<close>

datatype UpgradeError = UGEmpty | UGInvalidFormat | UGInvalidProtocol | UGInvalidVersion

fun UpgradeError_display :: "UpgradeError \<Rightarrow> string" where
  "UpgradeError_display UGEmpty = ''empty Upgrade header''"
| "UpgradeError_display UGInvalidFormat = ''invalid Upgrade header format''"
| "UpgradeError_display UGInvalidProtocol = ''invalid Upgrade protocol''"
| "UpgradeError_display UGInvalidVersion = ''invalid Upgrade protocol version''"

record Protocol =
  pr_name :: string
  pr_version :: "string option"

definition parse_protocol :: "string \<Rightarrow> (Protocol, UpgradeError) result" where
  "parse_protocol part =
     (case split_once CHR ''/'' part of
        Some (name0, version0) \<Rightarrow>
          reject_if (CHR ''/'' \<in> set version0) UGInvalidFormat
            (let name = trim_ows name0; version = trim_ows version0
             in reject_if (name = []) UGInvalidProtocol
                  (reject_if (version = []) UGInvalidVersion
                    (reject_if (\<not> is_valid_token name) UGInvalidProtocol
                      (reject_if (\<not> is_valid_token version) UGInvalidVersion
                        (Ok \<lparr>pr_name = to_ascii_lowercase name, pr_version = Some (to_ascii_lowercase version)\<rparr>)))))
      | None \<Rightarrow>
          reject_if (\<not> is_valid_token part) UGInvalidProtocol
            (Ok \<lparr>pr_name = to_ascii_lowercase part, pr_version = None\<rparr>))"

record Upgrade =
  ug_protocols :: "Protocol list"

definition Upgrade_parse :: "string \<Rightarrow> (Upgrade, UpgradeError) result" where
  "Upgrade_parse s =
     and_then (list_items trim_ows parse_protocol (split_on CHR '','' (trim_ows s)) []) (\<lambda>ps. Ok \<lparr>ug_protocols = ps\<rparr>)"

definition has_protocol :: "Upgrade \<Rightarrow> string \<Rightarrow> bool" where
  "has_protocol u protocol \<longleftrightarrow> list_ex (\<lambda>p. eq_ignore_ascii_case (pr_name p) protocol) (ug_protocols u)"

definition Protocol_display :: "Protocol \<Rightarrow> string" where
  "Protocol_display p = (case pr_version p of Some v \<Rightarrow> pr_name p @ ''/'' @ v | None \<Rightarrow> pr_name p)"

definition Upgrade_display :: "Upgrade \<Rightarrow> string" where
  "Upgrade_display u = join_comma (map Protocol_display (ug_protocols u))"

section \<open>Expect\<close>

datatype ExpectError = EXEmpty | EXInvalidFormat | EXInvalidToken | EXInvalidValue | EXUnterminatedQuote

fun ExpectError_display :: "ExpectError \<Rightarrow> string" where
  "ExpectError_display EXEmpty = ''empty Expect header''"
| "ExpectError_display EXInvalidFormat = ''invalid Expect header format''"
| "ExpectError_display EXInvalidToken = ''invalid Expect token''"
| "ExpectError_display EXInvalidValue = ''invalid Expect value''"
| "ExpectError_display EXUnterminatedQuote = ''unterminated quoted-string''"

fun expect_from_quoted_error :: "QuotedStringError \<Rightarrow> ExpectError" where
  "expect_from_quoted_error InvalidQdtext = EXInvalidValue"
| "expect_from_quoted_error InvalidQuotedPair = EXInvalidValue"
| "expect_from_quoted_error Unterminated = EXUnterminatedQuote"

record Expectation =
  ex_token :: string
  ex_value :: "string option"

definition expect_parse_value :: "string \<Rightarrow> (string, ExpectError) result" where
  "expect_parse_value s =
     (let inp = str_trim s
      in reject_if (inp = []) EXInvalidValue
           (case strip_prefix inp [DQUOTE] of
              Some rest \<Rightarrow>
                and_then (map_err expect_from_quoted_error (parse_quoted_string rest)) (\<lambda>(val, remaining).
                  reject_if (str_trim remaining \<noteq> []) EXInvalidValue (Ok val))
            | None \<Rightarrow> reject_if (\<not> is_valid_token inp) EXInvalidValue (Ok inp)))"

definition parse_expectation :: "string \<Rightarrow> (Expectation, ExpectError) result" where
  "parse_expectation part =
     and_then (case split_once CHR ''='' part of
                 Some (t, v) \<Rightarrow>
                   (let token = str_trim t
                    in reject_if (token = []) EXInvalidFormat
                         (and_then (expect_parse_value v) (\<lambda>val. Ok (token, Some val))))
               | None \<Rightarrow> Ok (part, None)) (\<lambda>(token, val).
       reject_if (\<not> is_valid_token token) EXInvalidToken
         (Ok \<lparr>ex_token = to_ascii_lowercase token, ex_value = val\<rparr>))"

record Expect =
  ex_items :: "Expectation list"

definition Expect_parse :: "string \<Rightarrow> (Expect, ExpectError) result" where
  "Expect_parse s =
     and_then (list_items str_trim parse_expectation (split_with_quotes (str_trim s) CHR '','') []) (\<lambda>items.
       Ok \<lparr>ex_items = items\<rparr>)"

definition is_100_continue :: "Expectation \<Rightarrow> bool" where
  "is_100_continue x \<longleftrightarrow> eq_ignore_ascii_case (ex_token x) ''100-continue''"

definition has_100_continue :: "Expect \<Rightarrow> bool" where
  "has_100_continue e \<longleftrightarrow> list_ex is_100_continue (ex_items e)"

definition expect_needs_quoting :: "string \<Rightarrow> bool" where
  "expect_needs_quoting s \<longleftrightarrow> s = [] \<or> list_ex (\<lambda>b. \<not> is_token_char b) s"

definition Expectation_display :: "Expectation \<Rightarrow> string" where
  "Expectation_display x =
     (case ex_value x of
        Some v \<Rightarrow> if expect_needs_quoting v then ex_token x @ ''='' @ [DQUOTE] @ escape_quotes v @ [DQUOTE]
                  else ex_token x @ ''='' @ v
      | None \<Rightarrow> ex_token x)"

definition Expect_display :: "Expect \<Rightarrow> string" where
  "Expect_display e = join_comma (map Expectation_display (ex_items e))"

end
