(* ===== verification/List_Headers_Correct.thy ===== *)
theory List_Headers_Correct
  imports List_Headers
begin

text \<open>
  The elements of the list headers satisfy \<open>item_codec\<close>; \<open>list_header\<close> then gives, for each
  header, that printing a parsed value and parsing it again returns the same value.
\<close>

lemma valid_token_no_comma: "is_valid_token s \<Longrightarrow> no_comma s"
  using token_not_ows by (auto simp: no_comma_def is_valid_token_def list_all_iff)

section \<open>Content-Encoding\<close>

lemma coding_as_str_other: "parse_coding s = Ok c \<Longrightarrow> coding_as_str c = to_ascii_lowercase s \<and> is_valid_token s"
  by (auto simp: parse_coding_def Let_def elim!: resultE split: if_splits)

interpretation codings: list_header str_trim "split_on CHR '',''" no_comma parse_coding coding_as_str coding_ok
proof
  show "coding_ok c" if "parse_coding s = Ok c" for s c
  proof -
    have c: "coding_as_str c = to_ascii_lowercase s" "is_valid_token s" using coding_as_str_other [OF that] by auto
    then have "is_valid_token (coding_as_str c)" by (simp add: valid_token_lower)
    moreover have "parse_coding (to_ascii_lowercase s) = parse_coding s"
      using c(2) valid_token_lower [of s] valid_token_not_Nil [of s] valid_token_not_Nil [of "to_ascii_lowercase s"]
      by (simp add: parse_coding_def)
    ultimately show ?thesis using that c(1) by (simp add: coding_ok_def)
  qed
qed (auto simp: coding_ok_def plain_ends_token valid_token_no_comma)

lemma ContentEncoding_roundtrip:
  assumes "valid_utf8 s" "ContentEncoding_parse s = Ok c"
  shows "ContentEncoding_parse (ContentEncoding_display c) = Ok c"
proof -
  have l: "list_items str_trim parse_coding (split_on CHR '','' (str_trim t)) [] =
      (if str_trim t \<noteq> [] then list_items str_trim parse_coding (split_on CHR '','' (str_trim t)) [] else Ok [])" for t
    by simp
  obtain xs where "list_items str_trim parse_coding (split_on CHR '','' (str_trim s)) [] = Ok xs" "c = \<lparr>ce_encodings = xs\<rparr>"
    using assms(2) unfolding ContentEncoding_parse_def Let_def l [symmetric] by (auto elim!: resultE)
  with codings.roundtrip [OF _ assms(1)] show ?thesis
    unfolding ContentEncoding_parse_def Let_def l [symmetric] ContentEncoding_display_def by simp
qed

section \<open>Content-Language\<close>

definition tag_ok :: "string \<Rightarrow> bool" where
  "tag_ok t \<longleftrightarrow> is_valid_language_tag t"

lemma language_tag_chars:
  assumes "is_valid_language_tag t"
  shows "t \<noteq> []" "\<forall>c \<in> set t. is_ascii_alphanumeric c \<or> c = CHR ''-''"
proof -
  show "t \<noteq> []" using assms by (auto simp: is_valid_language_tag_def)
  obtain p ps where s: "split_on CHR ''-'' t = p # ps" "list_all is_ascii_alphabetic p" "list_all (list_all is_ascii_alphanumeric) ps"
    using assms by (auto simp: is_valid_language_tag_def list_all_iff split: if_splits list.splits)
  have al: "list_all is_ascii_alphanumeric p" using s(2) by (auto simp: list_all_iff is_ascii_alphanumeric_def)
  have "set (join_with d xs) \<subseteq> insert d (\<Union> (set ` set xs))" for d and xs :: "string list"
    by (induction xs) auto
  from this [of "CHR ''-''" "p # ps"] have "set t \<subseteq> insert CHR ''-'' (\<Union> (set ` set (p # ps)))"
    using join_split_on [of "CHR ''-''" t] s(1) by simp
  then show "\<forall>c \<in> set t. is_ascii_alphanumeric c \<or> c = CHR ''-''" using al s(3) by (fastforce simp: list_all_iff)
qed

lemma alphanumeric_plain: "is_ascii_alphanumeric c \<or> c = CHR ''-'' \<Longrightarrow> plain c \<and> c \<noteq> CHR '','' \<and> c \<noteq> DQUOTE \<and> c \<noteq> CHR '';''"
  by (auto simp: is_ascii_alphanumeric_def is_ascii_alphabetic_def is_ascii_digit_def plain_def is_whitespace_cp_def)

lemma tag_ends: "tag_ok t \<Longrightarrow> plain_ends t \<and> no_comma t"
  using language_tag_chars [of t] alphanumeric_plain by (auto simp: plain_ends_def no_comma_def tag_ok_def)

interpretation tags: list_header str_trim "split_on CHR '',''" no_comma parse_tag "\<lambda>t. t" tag_ok
  by unfold_locales (use tag_ends in \<open>auto simp: parse_tag_def tag_ok_def elim!: resultE\<close>)

lemma ContentLanguage_roundtrip:
  assumes "valid_utf8 s" "ContentLanguage_parse s = Ok c"
  shows "ContentLanguage_parse (ContentLanguage_display c) = Ok c"
  using assms tags.roundtrip [of s] by (auto simp: ContentLanguage_parse_def ContentLanguage_display_def elim!: resultE)

section \<open>Vary\<close>

definition vary_item_ok :: "string option \<Rightarrow> bool" where
  "vary_item_ok x = opt_all (\<lambda>n. is_valid_token n \<and> to_ascii_lowercase n = n \<and> n \<noteq> ''*'') x"

definition show_vary_item :: "string option \<Rightarrow> string" where
  "show_vary_item x = (case x of None \<Rightarrow> ''*'' | Some n \<Rightarrow> n)"

lemma star_token: "is_valid_token ''*''"
  by (simp add: is_valid_token_def is_token_char_def)

lemma lower_star: "to_ascii_lowercase n = ''*'' \<longleftrightarrow> n = ''*''"
proof
  assume "to_ascii_lowercase n = ''*''"
  then obtain c where "n = [c]" "ascii_lower c = CHR ''*''" by (auto simp: to_ascii_lowercase_def map_eq_Cons_conv)
  then show "n = ''*''" by (auto simp: ascii_lower_def u8_inject [symmetric] simp del: u8_inject split: if_splits)
qed (simp add: to_ascii_lowercase_def ascii_lower_def)

interpretation vary_items: list_header trim_ows "split_on CHR '',''" no_comma parse_vary_item show_vary_item vary_item_ok
proof
  show "vary_item_ok x" if "parse_vary_item s = Ok x" for s x
    using that lower_star [of s] by (auto simp: parse_vary_item_def vary_item_ok_def valid_token_lower elim!: resultE split: if_splits)
  show "parse_vary_item (show_vary_item x) = Ok x" if "vary_item_ok x" for x
    using that by (cases x) (auto simp: parse_vary_item_def show_vary_item_def vary_item_ok_def)
  have t: "is_valid_token (show_vary_item x)" if "vary_item_ok x" for x
    using that star_token by (cases x) (auto simp: show_vary_item_def vary_item_ok_def)
  then show "vary_item_ok x \<Longrightarrow> plain_ends (show_vary_item x)" "vary_item_ok x \<Longrightarrow> no_comma (show_vary_item x)" for x
    by (simp_all add: plain_ends_token valid_token_no_comma)
qed

lemma some_items: "\<not> list_ex (\<lambda>x. x = None) xs \<Longrightarrow> xs = map Some (map the (filter (\<lambda>x. x \<noteq> None) xs))"
  by (induction xs) auto

lemma Vary_roundtrip:
  assumes "valid_utf8 s" "Vary_parse s = Ok v"
  shows "Vary_parse (Vary_display v) = Ok v"
proof -
  obtain xs where xs: "list_items trim_ows parse_vary_item (split_on CHR '','' (trim_ows s)) [] = Ok xs"
    and v: "v = \<lparr>v_any = list_ex (\<lambda>x. x = None) xs,
      v_fields = (if list_ex (\<lambda>x. x = None) xs then [] else map the (filter (\<lambda>x. x \<noteq> None) xs))\<rparr>"
    using assms(2) by (auto simp: Vary_parse_def Let_def elim!: resultE)
  show ?thesis
  proof (cases "list_ex (\<lambda>x. x = None) xs")
    case True
    have "list_items trim_ows parse_vary_item (split_on CHR '','' (trim_ows ''*'')) [] = Ok [None]"
      using vary_items.trim_joined [of "[None]"] vary_items.parse_shown [of "[None]"]
      by (simp add: vary_item_ok_def show_vary_item_def)
    with True v show ?thesis by (simp add: Vary_parse_def Vary_display_def)
  next
    case False
    let ?ns = "map the (filter (\<lambda>x. x \<noteq> None) xs)"
    have "map show_vary_item xs = ?ns"
      by (subst some_items [OF False]) (simp add: show_vary_item_def comp_def)
    then have "list_items trim_ows parse_vary_item (split_on CHR '','' (trim_ows (join_comma ?ns))) [] = Ok xs"
      using vary_items.roundtrip [OF xs assms(1)] by simp
    with False v show ?thesis by (simp add: Vary_parse_def Vary_display_def)
  qed
qed

section \<open>Upgrade\<close>

definition lower_token :: "string \<Rightarrow> bool" where
  "lower_token n \<longleftrightarrow> is_valid_token n \<and> to_ascii_lowercase n = n"

definition protocol_ok :: "Protocol \<Rightarrow> bool" where
  "protocol_ok p \<longleftrightarrow> lower_token (pr_name p) \<and> opt_all lower_token (pr_version p)"

lemma lower_tokenI: "is_valid_token n \<Longrightarrow> lower_token (to_ascii_lowercase n)"
  by (simp add: lower_token_def valid_token_lower)

lemma token_no_slash: "is_valid_token n \<Longrightarrow> CHR ''/'' \<notin> set n"
  by (rule valid_token_no) (simp_all add: is_token_char_def)

lemma token_trim_ows: "is_valid_token n \<Longrightarrow> trim_ows n = n"
  by (rule ows_trim.trim_plain_ends [OF plain_ends_token])

lemma split_once_mid: "c \<notin> set a \<Longrightarrow> split_once c (a @ c # b) = Some (a, b)"
  by (simp add: split_once_Some_iff)

interpretation protocols: list_header trim_ows "split_on CHR '',''" no_comma parse_protocol Protocol_display protocol_ok
proof
  show "protocol_ok p" if "parse_protocol s = Ok p" for s p
    using that by (auto simp: parse_protocol_def Let_def protocol_ok_def lower_tokenI elim!: resultE split: option.splits)
  show "parse_protocol (Protocol_display p) = Ok p" "plain_ends (Protocol_display p)" "no_comma (Protocol_display p)"
    if ok: "protocol_ok p" for p
  proof -
    have n: "is_valid_token (pr_name p)" "to_ascii_lowercase (pr_name p) = pr_name p"
      using ok by (auto simp: protocol_ok_def lower_token_def)
    have "parse_protocol (Protocol_display p) = Ok p \<and> plain_ends (Protocol_display p) \<and> no_comma (Protocol_display p)"
    proof (cases "pr_version p")
      case None
      then show ?thesis using n token_no_slash [OF n(1)] split_once_None_iff [of "CHR ''/''" "pr_name p"]
        by (cases p) (simp add: Protocol_display_def parse_protocol_def plain_ends_token valid_token_no_comma)
    next
      case (Some v)
      then have v: "is_valid_token v" "to_ascii_lowercase v = v" using ok by (auto simp: protocol_ok_def lower_token_def)
      have d: "Protocol_display p = pr_name p @ CHR ''/'' # v" using Some by (simp add: Protocol_display_def)
      have "parse_protocol (Protocol_display p) = Ok p"
        unfolding d parse_protocol_def split_once_mid [OF token_no_slash [OF n(1)]]
        using n v Some token_no_slash [OF v(1)] token_trim_ows valid_token_not_Nil by (cases p) simp
      moreover have "plain_ends (Protocol_display p)"
        unfolding d using plain_ends_token [OF n(1)] plain_ends_token [OF v(1)] by (simp add: plain_ends_def)
      moreover have "no_comma (Protocol_display p)"
        unfolding d using valid_token_no_comma [OF n(1)] valid_token_no_comma [OF v(1)] by (simp add: no_comma_def)
      ultimately show ?thesis by blast
    qed
    then show "parse_protocol (Protocol_display p) = Ok p" "plain_ends (Protocol_display p)" "no_comma (Protocol_display p)"
      by auto
  qed
qed

lemma Upgrade_roundtrip:
  assumes "valid_utf8 s" "Upgrade_parse s = Ok u"
  shows "Upgrade_parse (Upgrade_display u) = Ok u"
  using assms protocols.roundtrip [of s] by (auto simp: Upgrade_parse_def Upgrade_display_def elim!: resultE)

section \<open>Expect\<close>

definition expectation_ok :: "Expectation \<Rightarrow> bool" where
  "expectation_ok x \<longleftrightarrow> lower_token (ex_token x) \<and> opt_all quotable (ex_value x)"

lemma expect_needs_quoting_eq: "expect_needs_quoting = needs_quoting"
  by (intro ext) (simp add: expect_needs_quoting_def needs_quoting_def)

lemma token_no_eq: "is_valid_token n \<Longrightarrow> CHR ''='' \<notin> set n"
  by (rule valid_token_no) (simp_all add: is_token_char_def)

lemma expectation_display_eq:
  "Expectation_display x = (case ex_value x of Some v \<Rightarrow> ex_token x @ CHR ''='' # value_text v | None \<Rightarrow> ex_token x)"
  by (simp add: Expectation_display_def expect_needs_quoting_eq value_text_def split: option.split)

lemma value_text_plain_ends: "plain_ends (value_text v)"
  using value_text_ends [of v] by (simp add: plain_ends_def)

lemma expect_parse_value_text: "quotable v \<Longrightarrow> expect_parse_value (value_text v) = Ok v"
proof (cases "needs_quoting v")
  case True
  assume q: "quotable v"
  have t: "str_trim (DQUOTE # escape_quotes v @ [DQUOTE]) = DQUOTE # escape_quotes v @ [DQUOTE]"
    using str_trim.trim_plain_ends [OF value_text_plain_ends [of v]] True by (simp add: value_text_def)
  show ?thesis
    using True parse_escape_quotable [OF q, of "[]"] unfolding expect_parse_value_def value_text_def
    by (simp add: t strip_prefix_def starts_with_def)
next
  case False
  then have v: "is_valid_token v" by (simp add: not_needs_quoting)
  then obtain c w where "v = c # w" "is_token_char c" by (cases v) (auto simp: is_valid_token_def)
  then have "\<not> starts_with v [DQUOTE]" using token_not_ows [of c] by (simp add: starts_with_def)
  with v False show ?thesis by (simp add: expect_parse_value_def value_text_def strip_prefix_def valid_token_not_Nil)
qed

lemma expect_parse_value_quotable:
  assumes "expect_parse_value s = Ok v" "valid_utf8 s"
  shows "quotable v"
proof (cases "starts_with (str_trim s) [DQUOTE]")
  case True
  then obtain t where t: "str_trim s = DQUOTE # t" by (cases "str_trim s") (auto simp: starts_with_def)
  then have "valid_utf8 t" using valid_utf8_trim [OF assms(2)] by (simp add: valid_utf8_Cons_ascii)
  moreover obtain r where "parse_quoted_string t = Ok (v, r)"
    using assms(1) t by (auto simp: expect_parse_value_def Let_def strip_prefix_def starts_with_def map_err_Ok_iff elim!: resultE)
  ultimately show ?thesis using parse_quoted_string_valid by blast
next
  case False
  then have "is_valid_token v" using assms(1) by (auto simp: expect_parse_value_def Let_def strip_prefix_def elim!: resultE)
  then show ?thesis by (simp add: is_valid_token_def token_quotable)
qed

lemma token_ascii_part: "is_valid_token n \<Longrightarrow> list_all (\<lambda>c. u8 c < 0x80 \<and> c \<noteq> DQUOTE \<and> c \<noteq> CHR '','') n"
  using token_not_ows token_char_ascii by (auto simp: is_valid_token_def list_all_iff)

lemma value_text_neutral: "quotable v \<Longrightarrow> quote_neutral CHR '','' (value_text v)"
proof (cases "needs_quoting v")
  case True
  assume "quotable v"
  then show ?thesis using True quote_neutral_quoted [of v "CHR '',''"] by (simp add: value_text_def quotable_def)
next
  case False
  then show ?thesis using token_ascii_part by (simp add: value_text_def not_needs_quoting quote_neutral_plain)
qed

lemma split_once_valid:
  assumes "split_once c s = Some (a, b)" "valid_utf8 s" "u8 c < 0x80"
  shows "valid_utf8 a \<and> valid_utf8 b"
  using assms valid_utf8_ascii_split [of c a b] by (auto simp: split_once_Some_iff)

interpretation expectations: list_header str_trim "\<lambda>s. split_with_quotes s CHR '',''" "quote_neutral CHR '',''"
  parse_expectation Expectation_display expectation_ok
proof
  show "expectation_ok x" if v: "valid_utf8 s" and p: "parse_expectation s = Ok x" for s x
    using p split_once_valid [OF _ v, of "CHR ''=''"] expect_parse_value_quotable
    by (fastforce simp: parse_expectation_def Let_def expectation_ok_def lower_tokenI elim!: resultE split: option.splits)
  show "parse_expectation (Expectation_display x) = Ok x" "plain_ends (Expectation_display x)"
    "quote_neutral CHR '','' (Expectation_display x)" if ok: "expectation_ok x" for x
  proof -
    have n: "is_valid_token (ex_token x)" "to_ascii_lowercase (ex_token x) = ex_token x"
      using ok by (auto simp: expectation_ok_def lower_token_def)
    have nn: "quote_neutral CHR '','' (ex_token x @ ''='')"
      using token_ascii_part [OF n(1)] by (intro quote_neutral_plain) simp
    have "parse_expectation (Expectation_display x) = Ok x \<and> plain_ends (Expectation_display x)
        \<and> quote_neutral CHR '','' (Expectation_display x)"
    proof (cases "ex_value x")
      case None
      then show ?thesis
        using n token_no_eq [OF n(1)] split_once_None_iff [of "CHR ''=''" "ex_token x"] quote_neutral_plain [OF token_ascii_part [OF n(1)]]
        by (cases x) (simp add: expectation_display_eq parse_expectation_def plain_ends_token)
    next
      case (Some v)
      then have v: "quotable v" using ok by (simp add: expectation_ok_def)
      have d: "Expectation_display x = ex_token x @ CHR ''='' # value_text v" using Some by (simp add: expectation_display_eq)
      have "parse_expectation (Expectation_display x) = Ok x"
        unfolding d parse_expectation_def split_once_mid [OF token_no_eq [OF n(1)]]
        using n Some expect_parse_value_text [OF v] valid_token_not_Nil [OF n(1)] by (cases x) simp
      moreover have "plain_ends (Expectation_display x)"
        unfolding d using plain_ends_token [OF n(1)] value_text_plain_ends [of v] by (simp add: plain_ends_def)
      moreover have "quote_neutral CHR '','' (Expectation_display x)"
        unfolding d using quote_neutral_append [OF nn value_text_neutral [OF v]] by simp
      ultimately show ?thesis by blast
    qed
    then show "parse_expectation (Expectation_display x) = Ok x" "plain_ends (Expectation_display x)"
      "quote_neutral CHR '','' (Expectation_display x)" by auto
  qed
qed

lemma Expect_roundtrip:
  assumes "valid_utf8 s" "Expect_parse s = Ok e"
  shows "Expect_parse (Expect_display e) = Ok e"
  using assms expectations.roundtrip [of s] by (auto simp: Expect_parse_def Expect_display_def elim!: resultE)

end
