(* ===== verification/Digest_Fields.thy ===== *)
theory Digest_Fields
  imports List_Headers_Correct Base64
begin

text \<open>
  \<^verbatim>\<open>src/digest_fields.rs\<close>: Content-Digest, Repr-Digest and their Want- forms (RFC 9530). The four
  headers are dictionaries that differ in the parser of the value, so \<open>parse_dictionary\<close> takes the
  parser as an argument, as the source does; both value types are interpretations of \<open>list_header\<close>.
\<close>

datatype DigestFieldsError = DFEmpty | DFInvalidFormat | DFInvalidAlgorithm | DFInvalidByteSequence
  | DFInvalidBase64 | DFInvalidPreference

fun DigestFieldsError_display :: "DigestFieldsError \<Rightarrow> string" where
  "DigestFieldsError_display DFEmpty = ''empty digest field''"
| "DigestFieldsError_display DFInvalidFormat = ''invalid digest field format''"
| "DigestFieldsError_display DFInvalidAlgorithm = ''invalid digest algorithm''"
| "DigestFieldsError_display DFInvalidByteSequence = ''invalid digest byte sequence''"
| "DigestFieldsError_display DFInvalidBase64 = ''invalid digest base64''"
| "DigestFieldsError_display DFInvalidPreference = ''invalid digest preference''"

record DigestValue =
  dv_bytes :: string

definition DigestValue_display :: "DigestValue \<Rightarrow> string" where
  "DigestValue_display v = '':'' @ base64_encode (dv_bytes v) @ '':''"

record DigestEntry =
  de_algorithm :: string
  de_value :: DigestValue

definition DigestEntry_display :: "DigestEntry \<Rightarrow> string" where
  "DigestEntry_display e = de_algorithm e @ ''='' @ DigestValue_display (de_value e)"

record DigestPreference =
  dp_algorithm :: string
  dp_weight :: nat

definition DigestPreference_display :: "DigestPreference \<Rightarrow> string" where
  "DigestPreference_display p = dp_algorithm p @ ''='' @ nat_to_dec (dp_weight p)"

section \<open>The dictionary\<close>

definition parse_byte_sequence :: "string \<Rightarrow> (DigestValue, DigestFieldsError) result" where
  "parse_byte_sequence s =
     and_then (ok_or (strip_prefix (str_trim s) '':'') DFInvalidByteSequence) (\<lambda>rest.
     and_then (ok_or (find_char CHR '':'' rest) DFInvalidByteSequence) (\<lambda>stop.
       reject_if (str_trim (drop (stop + 1) rest) \<noteq> []) DFInvalidByteSequence
         (and_then (map_err (\<lambda>_. DFInvalidBase64) (base64_decode (take stop rest))) (\<lambda>bytes.
            Ok \<lparr>dv_bytes = bytes\<rparr>))))"

definition parse_preference :: "string \<Rightarrow> (nat, DigestFieldsError) result" where
  "parse_preference s =
     (let input = str_trim s
      in reject_if (input = []) DFInvalidPreference
           (reject_if (\<not> list_all is_ascii_digit input) DFInvalidPreference
             (and_then (ok_or (parse_u8 input) DFInvalidPreference) (\<lambda>v.
                reject_if (v > 10) DFInvalidPreference (Ok v)))))"

text \<open>One round of the loop of \<open>parse_dictionary\<close>.\<close>

definition parse_dictionary_entry ::
    "(string \<Rightarrow> ('v, DigestFieldsError) result) \<Rightarrow> string \<Rightarrow> (string \<times> 'v, DigestFieldsError) result" where
  "parse_dictionary_entry value_parser part =
     and_then (ok_or (split_once CHR ''='' part) DFInvalidFormat) (\<lambda>(algorithm0, v0).
       let algorithm = str_trim algorithm0
       in reject_if (algorithm = []) DFInvalidAlgorithm
            (reject_if (\<not> is_valid_token algorithm) DFInvalidAlgorithm
              (and_then (value_parser v0) (\<lambda>v. Ok (to_ascii_lowercase algorithm, v)))))"

definition parse_dictionary ::
    "(string \<Rightarrow> ('v, DigestFieldsError) result) \<Rightarrow> string \<Rightarrow> ((string \<times> 'v) list, DigestFieldsError) result" where
  "parse_dictionary value_parser s =
     (let input = str_trim s
      in reject_if (input = []) DFEmpty
           (and_then (list_items str_trim (parse_dictionary_entry value_parser) (split_on CHR '','' input) []) (\<lambda>entries.
              reject_if (entries = []) DFEmpty (Ok entries))))"

definition parse_digest_dictionary :: "string \<Rightarrow> (DigestEntry list, DigestFieldsError) result" where
  "parse_digest_dictionary s =
     and_then (parse_dictionary parse_byte_sequence s) (\<lambda>entries.
       Ok (map (\<lambda>(algorithm, v). \<lparr>de_algorithm = algorithm, de_value = v\<rparr>) entries))"

definition parse_preference_dictionary :: "string \<Rightarrow> (DigestPreference list, DigestFieldsError) result" where
  "parse_preference_dictionary s =
     and_then (parse_dictionary parse_preference s) (\<lambda>entries.
       Ok (map (\<lambda>(algorithm, w). \<lparr>dp_algorithm = algorithm, dp_weight = w\<rparr>) entries))"

section \<open>The four headers\<close>

record ContentDigest =
  cdg_items :: "DigestEntry list"

definition ContentDigest_parse :: "string \<Rightarrow> (ContentDigest, DigestFieldsError) result" where
  "ContentDigest_parse s = and_then (parse_digest_dictionary s) (\<lambda>items. Ok \<lparr>cdg_items = items\<rparr>)"

definition ContentDigest_get :: "ContentDigest \<Rightarrow> string \<Rightarrow> DigestValue option" where
  "ContentDigest_get d algorithm =
     (let key = to_ascii_lowercase algorithm in map_option de_value (find (\<lambda>item. de_algorithm item = key) (cdg_items d)))"

definition ContentDigest_display :: "ContentDigest \<Rightarrow> string" where
  "ContentDigest_display d = join_comma (map DigestEntry_display (cdg_items d))"

record ReprDigest =
  rdg_items :: "DigestEntry list"

definition ReprDigest_parse :: "string \<Rightarrow> (ReprDigest, DigestFieldsError) result" where
  "ReprDigest_parse s = and_then (parse_digest_dictionary s) (\<lambda>items. Ok \<lparr>rdg_items = items\<rparr>)"

definition ReprDigest_get :: "ReprDigest \<Rightarrow> string \<Rightarrow> DigestValue option" where
  "ReprDigest_get d algorithm =
     (let key = to_ascii_lowercase algorithm in map_option de_value (find (\<lambda>item. de_algorithm item = key) (rdg_items d)))"

definition ReprDigest_display :: "ReprDigest \<Rightarrow> string" where
  "ReprDigest_display d = join_comma (map DigestEntry_display (rdg_items d))"

record WantContentDigest =
  wcd_items :: "DigestPreference list"

definition WantContentDigest_parse :: "string \<Rightarrow> (WantContentDigest, DigestFieldsError) result" where
  "WantContentDigest_parse s = and_then (parse_preference_dictionary s) (\<lambda>items. Ok \<lparr>wcd_items = items\<rparr>)"

definition WantContentDigest_get :: "WantContentDigest \<Rightarrow> string \<Rightarrow> nat option" where
  "WantContentDigest_get d algorithm =
     (let key = to_ascii_lowercase algorithm in map_option dp_weight (find (\<lambda>item. dp_algorithm item = key) (wcd_items d)))"

definition WantContentDigest_display :: "WantContentDigest \<Rightarrow> string" where
  "WantContentDigest_display d = join_comma (map DigestPreference_display (wcd_items d))"

record WantReprDigest =
  wrd_items :: "DigestPreference list"

definition WantReprDigest_parse :: "string \<Rightarrow> (WantReprDigest, DigestFieldsError) result" where
  "WantReprDigest_parse s = and_then (parse_preference_dictionary s) (\<lambda>items. Ok \<lparr>wrd_items = items\<rparr>)"

definition WantReprDigest_get :: "WantReprDigest \<Rightarrow> string \<Rightarrow> nat option" where
  "WantReprDigest_get d algorithm =
     (let key = to_ascii_lowercase algorithm in map_option dp_weight (find (\<lambda>item. dp_algorithm item = key) (wrd_items d)))"

definition WantReprDigest_display :: "WantReprDigest \<Rightarrow> string" where
  "WantReprDigest_display d = join_comma (map DigestPreference_display (wrd_items d))"

section \<open>Entries\<close>

text \<open>
  The interface between the dictionary and its values: the printed value is plain text without a
  comma that the value parser reads back. Every such value gives a \<open>list_header\<close>.
\<close>

definition show_entry :: "('v \<Rightarrow> string) \<Rightarrow> string \<times> 'v \<Rightarrow> string" where
  "show_entry show_value e = fst e @ CHR ''='' # show_value (snd e)"

definition entry_ok :: "('v \<Rightarrow> bool) \<Rightarrow> string \<times> 'v \<Rightarrow> bool" where
  "entry_ok value_ok e \<longleftrightarrow> lower_token (fst e) \<and> value_ok (snd e)"

locale dictionary_value =
  fixes value_parser :: "string \<Rightarrow> ('v, DigestFieldsError) result" and show_value :: "'v \<Rightarrow> string"
    and value_ok :: "'v \<Rightarrow> bool"
  assumes parsed_value_ok: "value_parser s = Ok v \<Longrightarrow> value_ok v"
    and parse_show_value: "value_ok v \<Longrightarrow> value_parser (show_value v) = Ok v"
    and show_value_plain: "value_ok v \<Longrightarrow> list_all plain (show_value v) \<and> show_value v \<noteq> [] \<and> no_comma (show_value v)"

sublocale dictionary_value \<subseteq> list_header str_trim "split_on CHR '',''" no_comma
    "parse_dictionary_entry value_parser" "show_entry show_value" "entry_ok value_ok"
proof
  show "entry_ok value_ok e" if "parse_dictionary_entry value_parser s = Ok e" for s e
    using that parsed_value_ok by (auto simp: parse_dictionary_entry_def Let_def entry_ok_def lower_tokenI elim!: resultE)
  show "parse_dictionary_entry value_parser (show_entry show_value e) = Ok e"
    "plain_ends (show_entry show_value e)" "no_comma (show_entry show_value e)" if ok: "entry_ok value_ok e" for e
  proof -
    have n: "is_valid_token (fst e)" "to_ascii_lowercase (fst e) = fst e" and v: "value_ok (snd e)"
      using ok by (auto simp: entry_ok_def lower_token_def)
    show "parse_dictionary_entry value_parser (show_entry show_value e) = Ok e"
      unfolding parse_dictionary_entry_def show_entry_def split_once_mid [OF token_no_eq [OF n(1)]]
      using n parse_show_value [OF v] valid_token_not_Nil [OF n(1)] by simp
    show "plain_ends (show_entry show_value e)"
      using plain_ends_token [OF n(1)] show_value_plain [OF v]
      by (auto simp: plain_ends_def show_entry_def list_all_iff)
    show "no_comma (show_entry show_value e)"
      using valid_token_no_comma [OF n(1)] show_value_plain [OF v] by (simp add: no_comma_def show_entry_def)
  qed
qed

context dictionary_value
begin

text \<open>A parsed dictionary is not empty, its entries are well formed, and its printed form is read back.\<close>

lemma dictionary_ok:
  "parse_dictionary value_parser s = Ok es \<Longrightarrow> valid_utf8 s \<Longrightarrow> es \<noteq> [] \<and> list_all (entry_ok value_ok) es"
  using parsed_items_ok [of s es] by (auto simp: parse_dictionary_def Let_def elim!: resultE)

lemma dictionary_shown:
  assumes "es \<noteq> []" "list_all (entry_ok value_ok) es"
  shows "parse_dictionary value_parser (join_comma (map (show_entry show_value) es)) = Ok es"
proof -
  have "plain_ends (join_comma (map (show_entry show_value) es))"
    using plain_ends_join [of "map (show_entry show_value) es"] show_item_ends assms by (auto simp: list_all_iff)
  then have "join_comma (map (show_entry show_value) es) \<noteq> []" by (simp add: plain_ends_def)
  with assms show ?thesis using trim_joined [OF assms(2)] parse_shown [OF assms(2)] by (simp add: parse_dictionary_def)
qed

lemma dictionary_roundtrip:
  "parse_dictionary value_parser s = Ok es \<Longrightarrow> valid_utf8 s \<Longrightarrow>
     parse_dictionary value_parser (join_comma (map (show_entry show_value) es)) = Ok es"
  using dictionary_ok dictionary_shown by blast

end

section \<open>The two kinds of value\<close>

lemma ascii_plain: "33 \<le> u8 c \<Longrightarrow> u8 c < 0x80 \<Longrightarrow> plain c"
  by (simp add: plain_def is_whitespace_cp_def)

lemma b64_byte_range: "i < 64 \<Longrightarrow> 43 \<le> b64_byte i \<and> b64_byte i < 0x80 \<and> b64_byte i \<noteq> 44 \<and> b64_byte i \<noteq> 58"
  unfolding b64_byte_def by (split if_split)+ arith

lemma base64_val_plain:
  assumes "base64_val c \<noteq> None \<or> c = CHR ''=''"
  shows "plain c \<and> c \<noteq> CHR '','' \<and> c \<noteq> CHR '':''"
proof (cases "base64_val c")
  case None
  then show ?thesis using assms ascii_plain [of c] by simp
next
  case (Some i)
  then have i: "i < 64" "u8 c = b64_byte i" using val_SomeD u8_b64 by blast+
  then have "u8 c \<noteq> u8 CHR '',''" "u8 c \<noteq> u8 CHR '':''" using b64_byte_range [OF i(1)] by simp_all
  then have "c \<noteq> CHR '',''" "c \<noteq> CHR '':''" by blast+
  then show ?thesis using ascii_plain [of c] i b64_byte_range [OF i(1)] by simp
qed

lemma base64_encode_plain: "c \<in> set (base64_encode bs) \<Longrightarrow> plain c \<and> c \<noteq> CHR '','' \<and> c \<noteq> CHR '':''"
proof -
  assume c: "c \<in> set (base64_encode bs)"
  obtain dat k where "groups bs = dat @ replicate k (CHR ''='')" "list_all (\<lambda>c. base64_val c \<noteq> None) dat"
    using groups_decode [of bs] by blast
  then have "base64_val c \<noteq> None \<or> c = CHR ''=''"
    using c by (auto simp: base64_encode_def encode_loop_groups list_all_iff)
  then show ?thesis by (rule base64_val_plain)
qed

interpretation byte_sequence: dictionary_value parse_byte_sequence DigestValue_display "\<lambda>_. True"
proof
  show plain: "list_all plain (DigestValue_display v) \<and> DigestValue_display v \<noteq> [] \<and> no_comma (DigestValue_display v)" for v
    using base64_encode_plain by (auto simp: DigestValue_display_def list_all_iff no_comma_def plain_def is_whitespace_cp_def)
  have f: "find_char CHR '':'' (base64_encode bs @ '':'') = Some (length (base64_encode bs))" for bs
    using base64_encode_plain by (intro find_char_mid) blast
  show "parse_byte_sequence (DigestValue_display v) = Ok v" for v
    using str_trim_plain [OF conjunct1 [OF plain [of v]]] f [of "dv_bytes v"]
    by (cases v) (simp add: parse_byte_sequence_def DigestValue_display_def strip_prefix_def starts_with_def decode_encode)
qed simp

interpretation preference: dictionary_value parse_preference nat_to_dec "\<lambda>w. w \<le> 10"
proof
  show "w \<le> 10" if "parse_preference s = Ok w" for s w
    using that by (auto simp: parse_preference_def Let_def elim!: resultE)
  show "parse_preference (nat_to_dec w) = Ok w" if "w \<le> 10" for w
    using that nat_to_dec_is_digit [of _ w] from_str_radix_nat_to_dec [of w 255] str_trim_plain [OF nat_to_dec_plain [of w]]
    by (simp add: parse_preference_def list_all_iff)
  show "list_all plain (nat_to_dec w) \<and> nat_to_dec w \<noteq> [] \<and> no_comma (nat_to_dec w)" for w
    using nat_to_dec_plain [of w] nat_to_dec_is_digit [of "CHR '',''" w] by (auto simp: no_comma_def is_ascii_digit_def)
qed

section \<open>Round trips\<close>

lemma show_digest_entry: "DigestEntry_display \<lparr>de_algorithm = a, de_value = v\<rparr> = show_entry DigestValue_display (a, v)"
  by (simp add: DigestEntry_display_def show_entry_def)

lemma show_preference: "DigestPreference_display \<lparr>dp_algorithm = a, dp_weight = w\<rparr> = show_entry nat_to_dec (a, w)"
  by (simp add: DigestPreference_display_def show_entry_def)

lemma digest_dictionary_roundtrip:
  assumes "parse_digest_dictionary s = Ok es" "valid_utf8 s"
  shows "parse_digest_dictionary (join_comma (map DigestEntry_display es)) = Ok es"
proof -
  obtain ps where ps: "parse_dictionary parse_byte_sequence s = Ok ps"
    and es: "es = map (\<lambda>(a, v). \<lparr>de_algorithm = a, de_value = v\<rparr>) ps"
    using assms(1) by (auto simp: parse_digest_dictionary_def elim!: resultE)
  have "map DigestEntry_display es = map (show_entry DigestValue_display) ps"
    using es show_digest_entry by auto
  then show ?thesis
    unfolding parse_digest_dictionary_def using byte_sequence.dictionary_roundtrip [OF ps assms(2)] es by (simp del: map_map)
qed

lemma preference_dictionary_roundtrip:
  assumes "parse_preference_dictionary s = Ok es" "valid_utf8 s"
  shows "parse_preference_dictionary (join_comma (map DigestPreference_display es)) = Ok es"
proof -
  obtain ps where ps: "parse_dictionary parse_preference s = Ok ps"
    and es: "es = map (\<lambda>(a, w). \<lparr>dp_algorithm = a, dp_weight = w\<rparr>) ps"
    using assms(1) by (auto simp: parse_preference_dictionary_def elim!: resultE)
  have "map DigestPreference_display es = map (show_entry nat_to_dec) ps"
    using es show_preference by auto
  then show ?thesis
    unfolding parse_preference_dictionary_def using preference.dictionary_roundtrip [OF ps assms(2)] es by (simp del: map_map)
qed

lemma preference_weights:
  assumes "parse_preference_dictionary s = Ok es" "valid_utf8 s"
  shows "\<forall>p \<in> set es. dp_weight p \<le> 10"
proof -
  obtain ps where ps: "parse_dictionary parse_preference s = Ok ps"
    and es: "es = map (\<lambda>(a, w). \<lparr>dp_algorithm = a, dp_weight = w\<rparr>) ps"
    using assms(1) by (auto simp: parse_preference_dictionary_def elim!: resultE)
  have "list_all (entry_ok (\<lambda>w. w \<le> 10)) ps" using preference.dictionary_ok [OF ps assms(2)] by blast
  then show ?thesis using es by (auto simp: list_all_iff entry_ok_def)
qed

lemma ContentDigest_roundtrip:
  "valid_utf8 s \<Longrightarrow> ContentDigest_parse s = Ok d \<Longrightarrow> ContentDigest_parse (ContentDigest_display d) = Ok d"
  using digest_dictionary_roundtrip by (auto simp: ContentDigest_parse_def ContentDigest_display_def elim!: resultE)

lemma ReprDigest_roundtrip:
  "valid_utf8 s \<Longrightarrow> ReprDigest_parse s = Ok d \<Longrightarrow> ReprDigest_parse (ReprDigest_display d) = Ok d"
  using digest_dictionary_roundtrip by (auto simp: ReprDigest_parse_def ReprDigest_display_def elim!: resultE)

lemma WantContentDigest_roundtrip:
  "valid_utf8 s \<Longrightarrow> WantContentDigest_parse s = Ok d \<Longrightarrow> WantContentDigest_parse (WantContentDigest_display d) = Ok d"
  using preference_dictionary_roundtrip by (auto simp: WantContentDigest_parse_def WantContentDigest_display_def elim!: resultE)

lemma WantReprDigest_roundtrip:
  "valid_utf8 s \<Longrightarrow> WantReprDigest_parse s = Ok d \<Longrightarrow> WantReprDigest_parse (WantReprDigest_display d) = Ok d"
  using preference_dictionary_roundtrip by (auto simp: WantReprDigest_parse_def WantReprDigest_display_def elim!: resultE)

section \<open>All list headers\<close>

text \<open>
  C21. Every list header survives printing and parsing: Content-Encoding, Content-Language, Vary,
  Upgrade, Expect, Trailer and the four digest fields. Whatever the parser returns for a text, the
  printed value parses to the same value; trailer names are not prohibited and digest weights are at
  most 10.
\<close>

theorem list_headers_roundtrip:
  assumes "valid_utf8 s"
  shows "(\<forall>h. ContentEncoding_parse s = Ok h \<longrightarrow> ContentEncoding_parse (ContentEncoding_display h) = Ok h)
    \<and> (\<forall>h. ContentLanguage_parse s = Ok h \<longrightarrow> ContentLanguage_parse (ContentLanguage_display h) = Ok h)
    \<and> (\<forall>h. Vary_parse s = Ok h \<longrightarrow> Vary_parse (Vary_display h) = Ok h)
    \<and> (\<forall>h. Upgrade_parse s = Ok h \<longrightarrow> Upgrade_parse (Upgrade_display h) = Ok h)
    \<and> (\<forall>h. Expect_parse s = Ok h \<longrightarrow> Expect_parse (Expect_display h) = Ok h)
    \<and> (\<forall>h. Trailer_parse s = Ok h \<longrightarrow> Trailer_parse (Trailer_display h) = Ok h
         \<and> list_all (\<lambda>n. is_valid_token n \<and> \<not> is_prohibited_trailer_field n) (trailer_fields h))
    \<and> (\<forall>h. ContentDigest_parse s = Ok h \<longrightarrow> ContentDigest_parse (ContentDigest_display h) = Ok h)
    \<and> (\<forall>h. ReprDigest_parse s = Ok h \<longrightarrow> ReprDigest_parse (ReprDigest_display h) = Ok h)
    \<and> (\<forall>h. WantContentDigest_parse s = Ok h \<longrightarrow> WantContentDigest_parse (WantContentDigest_display h) = Ok h
         \<and> list_all (\<lambda>p. dp_weight p \<le> 10) (wcd_items h))
    \<and> (\<forall>h. WantReprDigest_parse s = Ok h \<longrightarrow> WantReprDigest_parse (WantReprDigest_display h) = Ok h
         \<and> list_all (\<lambda>p. dp_weight p \<le> 10) (wrd_items h))"
proof -
  have t: "list_all (\<lambda>n. is_valid_token n \<and> \<not> is_prohibited_trailer_field n) (trailer_fields h)" if "Trailer_parse s = Ok h" for h
    using Trailer_parse_display [OF that] by (simp add: list_all_iff)
  have w: "list_all (\<lambda>p. dp_weight p \<le> 10) (wcd_items h)" if "WantContentDigest_parse s = Ok h" for h
    using that preference_weights [OF _ assms] by (auto simp: WantContentDigest_parse_def list_all_iff elim!: resultE)
  have r: "list_all (\<lambda>p. dp_weight p \<le> 10) (wrd_items h)" if "WantReprDigest_parse s = Ok h" for h
    using that preference_weights [OF _ assms] by (auto simp: WantReprDigest_parse_def list_all_iff elim!: resultE)
  show ?thesis
    using ContentEncoding_roundtrip [OF assms] ContentLanguage_roundtrip [OF assms] Vary_roundtrip [OF assms]
      Upgrade_roundtrip [OF assms] Expect_roundtrip [OF assms] Trailer_parse_display t w r
      ContentDigest_roundtrip [OF assms] ReprDigest_roundtrip [OF assms]
      WantContentDigest_roundtrip [OF assms] WantReprDigest_roundtrip [OF assms]
    by (intro conjI allI impI) simp_all
qed

theorem list_headers_roundtrip_witness:
  "(let h = \<lparr>ce_encodings = [Gzip, OtherCoding ''br'']\<rparr>
     in ContentEncoding_parse '' GZIP ,, Br'' = Ok h \<and> ContentEncoding_parse (ContentEncoding_display h) = Ok h)
   \<and> (let h = \<lparr>cdg_items = [\<lparr>de_algorithm = ''sha-256'', de_value = \<lparr>dv_bytes = ''fo''\<rparr>\<rparr>]\<rparr>
     in ContentDigest_parse ''SHA-256 = :Zm8=: ,'' = Ok h \<and> ContentDigest_parse (ContentDigest_display h) = Ok h)
   \<and> (let h = \<lparr>ex_items = [\<lparr>ex_token = ''x'', ex_value = Some ''a, b''\<rparr>]\<rparr>
     in Expect_parse ''X=\"a, b\"'' = Ok h \<and> Expect_parse (Expect_display h) = Ok h)"
proof -
  have v: "valid_utf8 '' GZIP ,, Br''" "valid_utf8 ''SHA-256 = :Zm8=: ,''" "valid_utf8 ''X=\"a, b\"''" by code_simp+
  have p: "ContentEncoding_parse '' GZIP ,, Br'' = Ok \<lparr>ce_encodings = [Gzip, OtherCoding ''br'']\<rparr>"
    "ContentDigest_parse ''SHA-256 = :Zm8=: ,'' = Ok \<lparr>cdg_items = [\<lparr>de_algorithm = ''sha-256'', de_value = \<lparr>dv_bytes = ''fo''\<rparr>\<rparr>]\<rparr>"
    "Expect_parse ''X=\"a, b\"'' = Ok \<lparr>ex_items = [\<lparr>ex_token = ''x'', ex_value = Some ''a, b''\<rparr>]\<rparr>" by code_simp+
  have "ContentEncoding_parse (ContentEncoding_display \<lparr>ce_encodings = [Gzip, OtherCoding ''br'']\<rparr>) = Ok \<lparr>ce_encodings = [Gzip, OtherCoding ''br'']\<rparr>"
    using list_headers_roundtrip [OF v(1)] p(1) by blast
  moreover have "ContentDigest_parse (ContentDigest_display \<lparr>cdg_items = [\<lparr>de_algorithm = ''sha-256'', de_value = \<lparr>dv_bytes = ''fo''\<rparr>\<rparr>]\<rparr>)
      = Ok \<lparr>cdg_items = [\<lparr>de_algorithm = ''sha-256'', de_value = \<lparr>dv_bytes = ''fo''\<rparr>\<rparr>]\<rparr>"
    using list_headers_roundtrip [OF v(2)] p(2) by blast
  moreover have "Expect_parse (Expect_display \<lparr>ex_items = [\<lparr>ex_token = ''x'', ex_value = Some ''a, b''\<rparr>]\<rparr>)
      = Ok \<lparr>ex_items = [\<lparr>ex_token = ''x'', ex_value = Some ''a, b''\<rparr>]\<rparr>"
    using list_headers_roundtrip [OF v(3)] p(3) by blast
  ultimately show ?thesis unfolding Let_def using p by blast
qed

end
