(* ===== verification/Conditional.thy ===== *)
theory Conditional
  imports Etag Date
begin

text \<open>
  \<^verbatim>\<open>src/conditional.rs\<close>: the conditional request headers of RFC 9110 Section 13, on the entity
  tags of \<open>Etag\<close> and the dates of \<open>Date\<close>.
\<close>

datatype ConditionalError = CNEmpty | CNInvalidFormat | CNETagError | CNDateError

fun ConditionalError_display :: "ConditionalError \<Rightarrow> string" where
  "ConditionalError_display CNEmpty = ''empty conditional header''"
| "ConditionalError_display CNInvalidFormat = ''invalid conditional header format''"
| "ConditionalError_display CNETagError = ''invalid etag in conditional header''"
| "ConditionalError_display CNDateError = ''invalid date in conditional header''"

text \<open>
  The expression that every header with a date evaluates: \<open>HttpDate::parse\<close>, then
  \<open>HttpDate::parse_rfc850\<close> with the reference year if the text is an rfc850-date.
\<close>

definition parse_any_date :: "string \<Rightarrow> nat \<Rightarrow> (HttpDate, DateError) result" where
  "parse_any_date s reference_year =
     (case HttpDate_parse s of
        Err DRfc850Date \<Rightarrow> HttpDate_parse_rfc850 s reference_year
      | r \<Rightarrow> r)"

section \<open>If-Match and If-None-Match\<close>

datatype IfMatch = IfMatch ETagList

fun im_etags :: "IfMatch \<Rightarrow> ETagList" where
  "im_etags (IfMatch l) = l"

definition IfMatch_parse :: "string \<Rightarrow> (IfMatch, ConditionalError) result" where
  "IfMatch_parse s = map_err (\<lambda>_. CNETagError) (and_then (parse_etag_list s) (\<lambda>l. Ok (IfMatch l)))"

definition IfMatch_is_any :: "IfMatch \<Rightarrow> bool" where
  "IfMatch_is_any h = ETagList_is_any (im_etags h)"

definition IfMatch_matches :: "IfMatch \<Rightarrow> EntityTag \<Rightarrow> bool" where
  "IfMatch_matches h etag = contains_strong (im_etags h) etag"

definition IfMatch_display :: "IfMatch \<Rightarrow> string" where
  "IfMatch_display h = ETagList_display (im_etags h)"

datatype IfNoneMatch = IfNoneMatch ETagList

fun inm_etags :: "IfNoneMatch \<Rightarrow> ETagList" where
  "inm_etags (IfNoneMatch l) = l"

definition IfNoneMatch_parse :: "string \<Rightarrow> (IfNoneMatch, ConditionalError) result" where
  "IfNoneMatch_parse s = map_err (\<lambda>_. CNETagError) (and_then (parse_etag_list s) (\<lambda>l. Ok (IfNoneMatch l)))"

definition IfNoneMatch_is_any :: "IfNoneMatch \<Rightarrow> bool" where
  "IfNoneMatch_is_any h = ETagList_is_any (inm_etags h)"

definition IfNoneMatch_matches :: "IfNoneMatch \<Rightarrow> EntityTag \<Rightarrow> bool" where
  "IfNoneMatch_matches h etag \<longleftrightarrow> \<not> contains_weak (inm_etags h) etag"

definition IfNoneMatch_display :: "IfNoneMatch \<Rightarrow> string" where
  "IfNoneMatch_display h = ETagList_display (inm_etags h)"

section \<open>The headers with a date\<close>

datatype IfModifiedSince = IfModifiedSince HttpDate

fun ims_date :: "IfModifiedSince \<Rightarrow> HttpDate" where
  "ims_date (IfModifiedSince d) = d"

definition IfModifiedSince_parse :: "string \<Rightarrow> nat \<Rightarrow> (IfModifiedSince, ConditionalError) result" where
  "IfModifiedSince_parse s reference_year =
     map_err (\<lambda>_. CNDateError) (and_then (parse_any_date s reference_year) (\<lambda>d. Ok (IfModifiedSince d)))"

definition is_modified :: "IfModifiedSince \<Rightarrow> HttpDate \<Rightarrow> bool" where
  "is_modified h last_modified \<longleftrightarrow> HttpDate_cmp last_modified (ims_date h) = OGreater"

definition IfModifiedSince_display :: "IfModifiedSince \<Rightarrow> string" where
  "IfModifiedSince_display h = HttpDate_display (ims_date h)"

datatype IfUnmodifiedSince = IfUnmodifiedSince HttpDate

fun ius_date :: "IfUnmodifiedSince \<Rightarrow> HttpDate" where
  "ius_date (IfUnmodifiedSince d) = d"

definition IfUnmodifiedSince_parse :: "string \<Rightarrow> nat \<Rightarrow> (IfUnmodifiedSince, ConditionalError) result" where
  "IfUnmodifiedSince_parse s reference_year =
     map_err (\<lambda>_. CNDateError) (and_then (parse_any_date s reference_year) (\<lambda>d. Ok (IfUnmodifiedSince d)))"

definition IfUnmodifiedSince_display :: "IfUnmodifiedSince \<Rightarrow> string" where
  "IfUnmodifiedSince_display h = HttpDate_display (ius_date h)"

datatype IfRange = IRETag EntityTag | IRDate HttpDate

definition IfRange_parse :: "string \<Rightarrow> nat \<Rightarrow> (IfRange, ConditionalError) result" where
  "IfRange_parse s reference_year =
     (let input = str_trim s
      in reject_if (input = []) CNEmpty
           (if starts_with input [DQUOTE] \<or> starts_with input ''W/'' \<or> starts_with input ''w/''
            then map_err (\<lambda>_. CNETagError) (and_then (EntityTag_parse input) (\<lambda>t. Ok (IRETag t)))
            else map_err (\<lambda>_. CNDateError) (and_then (parse_any_date input reference_year) (\<lambda>d. Ok (IRDate d)))))"

fun IfRange_is_etag :: "IfRange \<Rightarrow> bool" where
  "IfRange_is_etag (IRETag _) = True"
| "IfRange_is_etag (IRDate _) = False"

fun IfRange_is_date :: "IfRange \<Rightarrow> bool" where
  "IfRange_is_date (IRDate _) = True"
| "IfRange_is_date (IRETag _) = False"

fun IfRange_etag :: "IfRange \<Rightarrow> EntityTag option" where
  "IfRange_etag (IRETag e) = Some e"
| "IfRange_etag (IRDate _) = None"

fun IfRange_date :: "IfRange \<Rightarrow> HttpDate option" where
  "IfRange_date (IRETag _) = None"
| "IfRange_date (IRDate d) = Some d"

fun IfRange_display :: "IfRange \<Rightarrow> string" where
  "IfRange_display (IRETag e) = EntityTag_display e"
| "IfRange_display (IRDate d) = HttpDate_display d"

section \<open>The order of dates\<close>

text \<open>
  The reference: a valid date is a number in the mixed radix of its fields (61 seconds for the leap
  second). \<open>HttpDate_cmp\<close> compares these numbers.
\<close>

definition timestamp :: "HttpDate \<Rightarrow> nat" where
  "timestamp d = ((((hd_year d * 13 + hd_month d) * 32 + hd_day d) * 24 + hd_hour d) * 60 + hd_minute d) * 61 + hd_second d"

definition ordering_of :: "nat \<Rightarrow> nat \<Rightarrow> Ordering" where
  "ordering_of x y = (if x < y then OLess else if x > y then OGreater else OEqual)"

lemma ordering_of_radix:
  assumes "r < b" "s < b"
  shows "ordering_of (x * b + r) (y * b + s) =
    (if x < y then OLess else if x > y then OGreater else ordering_of r s)"
proof -
  have less: "u * b + p < v * b + q" if "u < v" "p < b" for u v p q
  proof -
    have "u * b + p < (u + 1) * b" using that(2) by simp
    also have "\<dots> \<le> v * b" using that(1) by (intro mult_le_mono1) simp
    finally show ?thesis by simp
  qed
  show ?thesis
    using less [of x y r s] less [of y x s r] assms by (cases x y rule: linorder_cases) (simp_all add: ordering_of_def)
qed

lemma cmp_list_single: "cmp_list [x] [y] = ordering_of x y"
  by (simp add: ordering_of_def)

lemma cmp_list_radix:
  assumes "x' < b" "y' < b"
  shows "cmp_list (x # x' # xs) (y # y' # ys) = cmp_list ((x * b + x') # xs) ((y * b + y') # ys)"
  using ordering_of_radix [OF assms, of x y] assms by (auto simp: ordering_of_def split: if_splits)

lemma max_day_le: "max_day_in_month m y \<le> 31"
  by (simp add: max_day_in_month_def Let_def)

lemma HttpDate_cmp_timestamp:
  assumes "date_ok a" "date_ok b"
  shows "HttpDate_cmp a b = ordering_of (timestamp a) (timestamp b)"
proof -
  have r: "hd_month d < 13 \<and> hd_day d < 32 \<and> hd_hour d < 24 \<and> hd_minute d < 60 \<and> hd_second d < 61" if "date_ok d" for d
    using that max_day_le [of "hd_month d" "hd_year d"] by (simp add: date_ok_def)
  have steps: "cmp_list (x # hd_month a # xs) (y # hd_month b # ys) = cmp_list ((x * 13 + hd_month a) # xs) ((y * 13 + hd_month b) # ys)"
    "cmp_list (x # hd_day a # xs) (y # hd_day b # ys) = cmp_list ((x * 32 + hd_day a) # xs) ((y * 32 + hd_day b) # ys)"
    "cmp_list (x # hd_hour a # xs) (y # hd_hour b # ys) = cmp_list ((x * 24 + hd_hour a) # xs) ((y * 24 + hd_hour b) # ys)"
    "cmp_list (x # hd_minute a # xs) (y # hd_minute b # ys) = cmp_list ((x * 60 + hd_minute a) # xs) ((y * 60 + hd_minute b) # ys)"
    "cmp_list (x # hd_second a # xs) (y # hd_second b # ys) = cmp_list ((x * 61 + hd_second a) # xs) ((y * 61 + hd_second b) # ys)"
    for x y xs ys by (rule cmp_list_radix; use r [OF assms(1)] r [OF assms(2)] in simp)+
  have "cmp_list (hd_fields a) (hd_fields b) = cmp_list [timestamp a] [timestamp b]"
    unfolding hd_fields_def timestamp_def by (simp only: steps)
  then show ?thesis unfolding HttpDate_cmp_def cmp_list_single .
qed

lemma is_modified_timestamp:
  "date_ok (ims_date h) \<Longrightarrow> date_ok lm \<Longrightarrow> is_modified h lm \<longleftrightarrow> timestamp (ims_date h) < timestamp lm"
  by (simp add: is_modified_def HttpDate_cmp_timestamp ordering_of_def)

section \<open>Round trips\<close>

lemma parse_any_date_ok: "parse_any_date s y = Ok d \<Longrightarrow> date_ok d"
  by (auto simp: parse_any_date_def HttpDate_parse_ok HttpDate_parse_rfc850_ok split: result.splits DateError.splits)

lemma parse_any_date_display: "date_ok d \<Longrightarrow> parse_any_date (HttpDate_display d) y = Ok d"
  by (simp add: parse_any_date_def HttpDate_parse_display)

lemma IfRange_parse_ok:
  "IfRange_parse s y = Ok r \<Longrightarrow> (case r of IRETag t \<Rightarrow> etag_ok t | IRDate d \<Rightarrow> date_ok d)"
  by (auto simp: IfRange_parse_def Let_def map_err_Ok_iff EntityTag_parse_ok parse_any_date_ok elim!: resultE split: if_splits)

lemma HttpDate_display_trim: "date_ok d \<Longrightarrow> str_trim (HttpDate_display d) = HttpDate_display d"
proof -
  assume d: "date_ok d"
  obtain x m where "short_name (hd_day_of_week d) = x # m" "plain x"
    using short_name_letters [of "hd_day_of_week d"] plain_letters by (cases "short_name (hd_day_of_week d)") auto
  moreover obtain n where "rest_text d = n @ [CHR ''T'']" using rest_text_first(2) by blast
  ultimately show ?thesis
    using str_trim_plain_ends [of x "CHR ''T''" "m @ CHR '','' # SP # n"]
    by (simp add: HttpDate_display_eq plain_def is_whitespace_cp_def)
qed

lemma IfRange_display_parse:
  assumes "case r of IRETag t \<Rightarrow> etag_ok t | IRDate d \<Rightarrow> date_ok d"
  shows "IfRange_parse (IfRange_display r) y = Ok r"
proof (cases r)
  case (IRETag t)
  then have "starts_with (EntityTag_display t) [DQUOTE] \<or> starts_with (EntityTag_display t) ''W/''"
    by (auto simp: EntityTag_display_def starts_with_def)
  with IRETag assms show ?thesis unfolding IfRange_parse_def Let_def by (auto simp: EntityTag_parse_display)
next
  case (IRDate d)
  then have d: "date_ok d" using assms by simp
  have "HttpDate_display d \<noteq> []" "\<not> starts_with (HttpDate_display d) [DQUOTE]" "\<not> starts_with (HttpDate_display d) ''W/''"
    "\<not> starts_with (HttpDate_display d) ''w/''"
    by (cases "hd_day_of_week d"; simp add: HttpDate_display_def starts_with_def)+
  with IRDate show ?thesis
    using HttpDate_display_trim [OF d] parse_any_date_display [OF d] by (simp add: IfRange_parse_def)
qed

text \<open>
  C32. The conditional headers survive printing and parsing: the entity-tag lists of If-Match and
  If-None-Match with commas inside tags, weak flags and order kept, the dates of If-Modified-Since
  and If-Unmodified-Since in any of the three formats, and If-Range in both of its forms, whatever
  reference year is used the second time.
\<close>

theorem conditional_roundtrip:
  "(\<forall>h. IfMatch_parse s = Ok h \<longrightarrow> IfMatch_parse (IfMatch_display h) = Ok h)
   \<and> (\<forall>h. IfNoneMatch_parse s = Ok h \<longrightarrow> IfNoneMatch_parse (IfNoneMatch_display h) = Ok h)
   \<and> (\<forall>h. IfModifiedSince_parse s y = Ok h \<longrightarrow> IfModifiedSince_parse (IfModifiedSince_display h) y' = Ok h)
   \<and> (\<forall>h. IfUnmodifiedSince_parse s y = Ok h \<longrightarrow> IfUnmodifiedSince_parse (IfUnmodifiedSince_display h) y' = Ok h)
   \<and> (\<forall>h. IfRange_parse s y = Ok h \<longrightarrow> IfRange_parse (IfRange_display h) y' = Ok h)"
proof (intro conjI allI impI)
  show "IfRange_parse s y = Ok h \<Longrightarrow> IfRange_parse (IfRange_display h) y' = Ok h" for h
    by (rule IfRange_display_parse [OF IfRange_parse_ok])
qed (auto simp: IfMatch_parse_def IfMatch_display_def IfNoneMatch_parse_def IfNoneMatch_display_def IfModifiedSince_parse_def
       IfModifiedSince_display_def IfUnmodifiedSince_parse_def IfUnmodifiedSince_display_def map_err_Ok_iff
       etag_list_roundtrip parse_any_date_display [OF parse_any_date_ok] elim!: resultE)

theorem conditional_roundtrip_witness:
  "(let h = IfMatch (Tags [\<lparr>et_weak = True, et_tag = ''a,b''\<rparr>, \<lparr>et_weak = False, et_tag = ''c''\<rparr>])
     in IfMatch_parse ''W/\"a,b\" ,, \"c\"'' = Ok h \<and> IfMatch_parse (IfMatch_display h) = Ok h)
   \<and> (let h = IRDate \<lparr>hd_day_of_week = Sunday, hd_day = 6, hd_month = 11, hd_year = 1994, hd_hour = 8, hd_minute = 49, hd_second = 37\<rparr>
     in IfRange_parse ''Sunday, 06-Nov-94 08:49:37 GMT'' 2026 = Ok h \<and> IfRange_parse (IfRange_display h) 2026 = Ok h)"
proof -
  have a: "IfMatch_parse ''W/\"a,b\" ,, \"c\"'' = Ok (IfMatch (Tags [\<lparr>et_weak = True, et_tag = ''a,b''\<rparr>, \<lparr>et_weak = False, et_tag = ''c''\<rparr>]))"
    by code_simp
  have b: "IfRange_parse ''Sunday, 06-Nov-94 08:49:37 GMT'' 2026
      = Ok (IRDate \<lparr>hd_day_of_week = Sunday, hd_day = 6, hd_month = 11, hd_year = 1994, hd_hour = 8, hd_minute = 49, hd_second = 37\<rparr>)"
    by code_simp
  show ?thesis
    unfolding Let_def using a b conditional_roundtrip [of "''W/\"a,b\" ,, \"c\"''" 2026 2026]
      conditional_roundtrip [of "''Sunday, 06-Nov-94 08:49:37 GMT''" 2026 2026] by blast
qed



end
