(* ===== verification/Cache.thy ===== *)
theory Cache
  imports Header_List Conditional
begin

text \<open>
  \<^verbatim>\<open>src/cache.rs\<close>: Cache-Control, Age and Expires (RFC 9111). The \<open>u64\<close> seconds are natural
  numbers; \<open>cache_ok\<close> says that they are in range.
\<close>

datatype CacheError = CCEmpty | CCInvalidFormat | CCInvalidNumber | CCInvalidDate

fun CacheError_display :: "CacheError \<Rightarrow> string" where
  "CacheError_display CCEmpty = ''empty cache header''"
| "CacheError_display CCInvalidFormat = ''invalid cache header format''"
| "CacheError_display CCInvalidNumber = ''invalid number in cache header''"
| "CacheError_display CCInvalidDate = ''invalid date in cache header''"

definition DELTA_SECONDS_OVERFLOW :: nat where
  "DELTA_SECONDS_OVERFLOW = 2147483648"

definition parse_seconds :: "string \<Rightarrow> (nat, CacheError) result" where
  "parse_seconds s =
     (if s = [] \<or> \<not> list_all is_ascii_digit s then Err CCInvalidNumber
      else Ok (case parse_u64 s of Some n \<Rightarrow> n | None \<Rightarrow> DELTA_SECONDS_OVERFLOW))"

text \<open>
  \<open>str::to_lowercase\<close>. The result is only compared with ASCII names. U+212A KELVIN SIGN is the only
  character outside ASCII whose lower case is ASCII; every other one has a lower case with a
  character outside ASCII, which no name contains, and stays as it is here.
\<close>

definition KELVIN_SIGN :: string where
  "KELVIN_SIGN = map char_of [0xE2, 0x84, 0xAA :: nat]"

definition lower_slice :: "string \<Rightarrow> string" where
  "lower_slice c = (if c = KELVIN_SIGN then ''k'' else to_ascii_lowercase c)"

definition to_lowercase :: "string \<Rightarrow> string" where
  "to_lowercase s = concat (map lower_slice (char_slices s))"

section \<open>Cache-Control\<close>

record CacheControl =
  cc_max_age :: "nat option"
  cc_s_maxage :: "nat option"
  cc_max_stale :: "nat option"
  cc_min_fresh :: "nat option"
  cc_stale_while_revalidate :: "nat option"
  cc_stale_if_error :: "nat option"
  cc_no_cache :: bool
  cc_no_store :: bool
  cc_no_transform :: bool
  cc_only_if_cached :: bool
  cc_must_revalidate :: bool
  cc_proxy_revalidate :: bool
  cc_must_understand :: bool
  cc_public :: bool
  cc_private :: bool
  cc_immutable :: bool

definition CacheControl_new :: CacheControl where
  "CacheControl_new =
     \<lparr>cc_max_age = None,
      cc_s_maxage = None,
      cc_max_stale = None,
      cc_min_fresh = None,
      cc_stale_while_revalidate = None,
      cc_stale_if_error = None,
      cc_no_cache = False,
      cc_no_store = False,
      cc_no_transform = False,
      cc_only_if_cached = False,
      cc_must_revalidate = False,
      cc_proxy_revalidate = False,
      cc_must_understand = False,
      cc_public = False,
      cc_private = False,
      cc_immutable = False\<rparr>"

text \<open>A directive with a value, after the quotes are removed, and one without.\<close>

definition cc_set_value :: "string \<Rightarrow> string \<Rightarrow> CacheControl \<Rightarrow> (CacheControl, CacheError) result" where
  "cc_set_value name v cc =
     (if name = ''max-age'' then and_then (parse_seconds v) (\<lambda>n. Ok (cc\<lparr>cc_max_age := Some n\<rparr>))
      else if name = ''s-maxage'' then and_then (parse_seconds v) (\<lambda>n. Ok (cc\<lparr>cc_s_maxage := Some n\<rparr>))
      else if name = ''max-stale'' then and_then (parse_seconds v) (\<lambda>n. Ok (cc\<lparr>cc_max_stale := Some n\<rparr>))
      else if name = ''min-fresh'' then and_then (parse_seconds v) (\<lambda>n. Ok (cc\<lparr>cc_min_fresh := Some n\<rparr>))
      else if name = ''stale-while-revalidate'' then and_then (parse_seconds v) (\<lambda>n. Ok (cc\<lparr>cc_stale_while_revalidate := Some n\<rparr>))
      else if name = ''stale-if-error'' then and_then (parse_seconds v) (\<lambda>n. Ok (cc\<lparr>cc_stale_if_error := Some n\<rparr>))
      else if name = ''no-cache'' then Ok (cc\<lparr>cc_no_cache := True\<rparr>)
      else if name = ''private'' then Ok (cc\<lparr>cc_private := True\<rparr>)
      else Ok cc)"

definition cc_set_flag :: "string \<Rightarrow> CacheControl \<Rightarrow> CacheControl" where
  "cc_set_flag name cc =
     (if name = ''no-cache'' then cc\<lparr>cc_no_cache := True\<rparr>
      else if name = ''no-store'' then cc\<lparr>cc_no_store := True\<rparr>
      else if name = ''no-transform'' then cc\<lparr>cc_no_transform := True\<rparr>
      else if name = ''only-if-cached'' then cc\<lparr>cc_only_if_cached := True\<rparr>
      else if name = ''must-revalidate'' then cc\<lparr>cc_must_revalidate := True\<rparr>
      else if name = ''proxy-revalidate'' then cc\<lparr>cc_proxy_revalidate := True\<rparr>
      else if name = ''must-understand'' then cc\<lparr>cc_must_understand := True\<rparr>
      else if name = ''public'' then cc\<lparr>cc_public := True\<rparr>
      else if name = ''private'' then cc\<lparr>cc_private := True\<rparr>
      else if name = ''immutable'' then cc\<lparr>cc_immutable := True\<rparr>
      else if name = ''max-stale'' then cc\<lparr>cc_max_stale := Some u64_max\<rparr>
      else cc)"

definition cc_unquote :: "string \<Rightarrow> (string, CacheError) result" where
  "cc_unquote raw_value =
     (case strip_prefix raw_value [DQUOTE] of
        Some stripped \<Rightarrow> ok_or (strip_suffix stripped [DQUOTE]) CCInvalidFormat
      | None \<Rightarrow> reject_if (ends_with raw_value [DQUOTE]) CCInvalidFormat (Ok raw_value))"

definition cc_directive :: "string \<Rightarrow> CacheControl \<Rightarrow> (CacheControl, CacheError) result" where
  "cc_directive directive cc =
     (case split_once CHR ''='' directive of
        Some (name, v) \<Rightarrow> and_then (cc_unquote (str_trim v)) (\<lambda>v'. cc_set_value (to_lowercase (str_trim name)) v' cc)
      | None \<Rightarrow> Ok (cc_set_flag (to_lowercase directive) cc))"

fun cc_directives :: "string list \<Rightarrow> CacheControl \<Rightarrow> (CacheControl, CacheError) result" where
  "cc_directives [] cc = Ok cc"
| "cc_directives (p # ps) cc =
     (let directive = str_trim p
      in if directive = [] then cc_directives ps cc else and_then (cc_directive directive cc) (cc_directives ps))"

definition CacheControl_parse :: "string \<Rightarrow> (CacheControl, CacheError) result" where
  "CacheControl_parse s =
     (let input = str_trim s
      in if input = [] then Ok CacheControl_new else cc_directives (split_on CHR '','' input) CacheControl_new)"

definition with_max_age :: "CacheControl \<Rightarrow> nat \<Rightarrow> CacheControl" where
  "with_max_age cc seconds = cc\<lparr>cc_max_age := Some seconds\<rparr>"

definition with_s_maxage :: "CacheControl \<Rightarrow> nat \<Rightarrow> CacheControl" where
  "with_s_maxage cc seconds = cc\<lparr>cc_s_maxage := Some seconds\<rparr>"

definition with_no_cache :: "CacheControl \<Rightarrow> CacheControl" where
  "with_no_cache cc = cc\<lparr>cc_no_cache := True\<rparr>"

definition with_no_store :: "CacheControl \<Rightarrow> CacheControl" where
  "with_no_store cc = cc\<lparr>cc_no_store := True\<rparr>"

definition with_no_transform :: "CacheControl \<Rightarrow> CacheControl" where
  "with_no_transform cc = cc\<lparr>cc_no_transform := True\<rparr>"

definition with_must_revalidate :: "CacheControl \<Rightarrow> CacheControl" where
  "with_must_revalidate cc = cc\<lparr>cc_must_revalidate := True\<rparr>"

definition with_proxy_revalidate :: "CacheControl \<Rightarrow> CacheControl" where
  "with_proxy_revalidate cc = cc\<lparr>cc_proxy_revalidate := True\<rparr>"

definition with_public :: "CacheControl \<Rightarrow> CacheControl" where
  "with_public cc = cc\<lparr>cc_public := True\<rparr>"

definition with_private :: "CacheControl \<Rightarrow> CacheControl" where
  "with_private cc = cc\<lparr>cc_private := True\<rparr>"

definition with_immutable :: "CacheControl \<Rightarrow> CacheControl" where
  "with_immutable cc = cc\<lparr>cc_immutable := True\<rparr>"

definition is_cacheable :: "CacheControl \<Rightarrow> bool" where
  "is_cacheable cc \<longleftrightarrow> \<not> cc_no_store cc \<and> (cc_public cc \<or> cc_max_age cc \<noteq> None \<or> cc_s_maxage cc \<noteq> None)"

definition seconds_part :: "string \<Rightarrow> nat option \<Rightarrow> string list" where
  "seconds_part name v = (case v of Some n \<Rightarrow> [name @ ''='' @ nat_to_dec n] | None \<Rightarrow> [])"

definition flag_part :: "string \<Rightarrow> bool \<Rightarrow> string list" where
  "flag_part name b = (if b then [name] else [])"

definition max_stale_part :: "nat option \<Rightarrow> string list" where
  "max_stale_part v = (if v = Some u64_max then [''max-stale''] else seconds_part ''max-stale'' v)"

definition cc_parts :: "CacheControl \<Rightarrow> string list" where
  "cc_parts cc =
     seconds_part ''max-age'' (cc_max_age cc)
     @ seconds_part ''s-maxage'' (cc_s_maxage cc)
     @ max_stale_part (cc_max_stale cc)
     @ seconds_part ''min-fresh'' (cc_min_fresh cc)
     @ seconds_part ''stale-while-revalidate'' (cc_stale_while_revalidate cc)
     @ seconds_part ''stale-if-error'' (cc_stale_if_error cc)
     @ flag_part ''no-cache'' (cc_no_cache cc)
     @ flag_part ''no-store'' (cc_no_store cc)
     @ flag_part ''no-transform'' (cc_no_transform cc)
     @ flag_part ''only-if-cached'' (cc_only_if_cached cc)
     @ flag_part ''must-revalidate'' (cc_must_revalidate cc)
     @ flag_part ''proxy-revalidate'' (cc_proxy_revalidate cc)
     @ flag_part ''must-understand'' (cc_must_understand cc)
     @ flag_part ''public'' (cc_public cc)
     @ flag_part ''private'' (cc_private cc)
     @ flag_part ''immutable'' (cc_immutable cc)"

definition CacheControl_display :: "CacheControl \<Rightarrow> string" where
  "CacheControl_display cc = join_comma (cc_parts cc)"

definition CacheControl_to_header_value :: "CacheControl \<Rightarrow> string" where
  "CacheControl_to_header_value cc = CacheControl_display cc"

section \<open>Age and Expires\<close>

record Age =
  age_seconds :: nat

definition Age_new :: "nat \<Rightarrow> Age" where
  "Age_new seconds = \<lparr>age_seconds = seconds\<rparr>"

definition Age_parse :: "string \<Rightarrow> (Age, CacheError) result" where
  "Age_parse s =
     (let input = str_trim s
      in reject_if (input = []) CCEmpty (and_then (parse_seconds input) (\<lambda>seconds. Ok \<lparr>age_seconds = seconds\<rparr>)))"

definition Age_display :: "Age \<Rightarrow> string" where
  "Age_display a = nat_to_dec (age_seconds a)"

definition Age_to_header_value :: "Age \<Rightarrow> string" where
  "Age_to_header_value a = Age_display a"

record Expires =
  ex_date :: HttpDate

definition Expires_new :: "HttpDate \<Rightarrow> Expires" where
  "Expires_new d = \<lparr>ex_date = d\<rparr>"

definition Expires_parse :: "string \<Rightarrow> nat \<Rightarrow> (Expires, CacheError) result" where
  "Expires_parse s reference_year =
     and_then (map_err (\<lambda>_. CCInvalidDate) (parse_any_date s reference_year)) (\<lambda>d. Ok \<lparr>ex_date = d\<rparr>)"

definition Expires_display :: "Expires \<Rightarrow> string" where
  "Expires_display e = HttpDate_display (ex_date e)"

definition Expires_to_header_value :: "Expires \<Rightarrow> string" where
  "Expires_to_header_value e = Expires_display e"

section \<open>Values in range\<close>

definition cache_ok :: "CacheControl \<Rightarrow> bool" where
  "cache_ok cc \<longleftrightarrow> opt_all (\<lambda>n. n \<le> u64_max) (cc_max_age cc)
     \<and> opt_all (\<lambda>n. n \<le> u64_max) (cc_s_maxage cc)
     \<and> opt_all (\<lambda>n. n \<le> u64_max) (cc_max_stale cc)
     \<and> opt_all (\<lambda>n. n \<le> u64_max) (cc_min_fresh cc)
     \<and> opt_all (\<lambda>n. n \<le> u64_max) (cc_stale_while_revalidate cc)
     \<and> opt_all (\<lambda>n. n \<le> u64_max) (cc_stale_if_error cc)"

text \<open>The value of a string of digits, clamped when it does not fit.\<close>

lemma parse_seconds_le: "parse_seconds s = Ok n \<Longrightarrow> n \<le> u64_max"
  using from_str_radix_bound [of 10 u64_max s]
  by (auto simp: parse_seconds_def DELTA_SECONDS_OVERFLOW_def u64_max_def split: if_splits option.splits)

lemma parse_seconds_digits: "n \<le> u64_max \<Longrightarrow> parse_seconds (nat_to_dec n) = Ok n"
  using nat_to_dec_is_digit [of _ n] parse_u64_nat_to_dec [of n] by (simp add: parse_seconds_def list_all_iff)

lemma cc_set_value_ok: "cc_set_value name v cc = Ok cc' \<Longrightarrow> cache_ok cc \<Longrightarrow> cache_ok cc'"
  by (auto simp: cc_set_value_def cache_ok_def dest: parse_seconds_le elim!: resultE split: if_splits)

lemma cc_set_flag_ok: "cache_ok cc \<Longrightarrow> cache_ok (cc_set_flag name cc)"
  by (simp add: cc_set_flag_def cache_ok_def)

lemma cc_directives_ok: "cc_directives ps cc = Ok cc' \<Longrightarrow> cache_ok cc \<Longrightarrow> cache_ok cc'"
proof (induction ps arbitrary: cc)
  case (Cons p ps)
  have "cache_ok c1" if "cc_directive (str_trim p) cc = Ok c1" for c1
    using that Cons.prems(2) cc_set_value_ok cc_set_flag_ok
    by (auto simp: cc_directive_def elim!: resultE split: option.splits)
  with Cons show ?case by (auto simp: Let_def elim!: resultE split: if_splits)
qed simp

lemma CacheControl_new_ok: "cache_ok CacheControl_new"
  by (simp add: cache_ok_def CacheControl_new_def)

lemma CacheControl_parse_ok: "CacheControl_parse s = Ok cc \<Longrightarrow> cache_ok cc"
  using cc_directives_ok CacheControl_new_ok by (auto simp: CacheControl_parse_def Let_def split: if_splits)

section \<open>The printed form\<close>

lemma to_lowercase_ascii: "list_all (\<lambda>c. u8 c < 0x80) s \<Longrightarrow> to_lowercase s = to_ascii_lowercase s"
proof -
  have k: "lower_slice [c] = [ascii_lower c]" for c by (simp add: lower_slice_def KELVIN_SIGN_def to_ascii_lowercase_def)
  assume "list_all (\<lambda>c. u8 c < 0x80) s"
  then have "char_slices s = map (\<lambda>c. [c]) s" by (rule char_slices_ascii)
  then have "to_lowercase s = concat (map (\<lambda>c. [ascii_lower c]) s)" by (simp add: to_lowercase_def comp_def k)
  then show ?thesis by (simp add: to_ascii_lowercase_def)
qed

text \<open>A directive name as it is printed: lower-case letters and dashes.\<close>

definition name_ok :: "string \<Rightarrow> bool" where
  "name_ok s \<longleftrightarrow> s \<noteq> [] \<and> list_all (\<lambda>c. u8 c = 0x2D \<or> 0x61 \<le> u8 c \<and> u8 c \<le> 0x7A) s"

lemma name_ok_facts:
  assumes "name_ok n"
  shows "to_lowercase n = n" "list_all plain n" "CHR ''='' \<notin> set n" "no_comma n" "n \<noteq> []"
proof -
  have c: "u8 c < 0x80 \<and> ascii_lower c = c \<and> plain c \<and> c \<noteq> CHR ''='' \<and> c \<noteq> CHR '',''" if "c \<in> set n" for c
    using that assms by (auto simp: name_ok_def list_all_iff ascii_lower_def plain_def is_whitespace_cp_def)
  then show "list_all plain n" "CHR ''='' \<notin> set n" "no_comma n" by (auto simp: list_all_iff no_comma_def)
  have "list_all (\<lambda>c. u8 c < 0x80) n" "map ascii_lower n = n" using c by (auto simp: list_all_iff map_idI)
  then show "to_lowercase n = n" by (simp add: to_lowercase_ascii to_ascii_lowercase_def)
  show "n \<noteq> []" using assms by (simp add: name_ok_def)
qed

lemma directive_flag: "name_ok n \<Longrightarrow> cc_directive n cc = Ok (cc_set_flag n cc)"
  using name_ok_facts [of n] split_once_None_iff [of "CHR ''=''" n] by (simp add: cc_directive_def)

lemma digits_no_quote: "DQUOTE \<notin> set (nat_to_dec k)"
  using nat_to_dec_is_digit [of DQUOTE k] by (auto simp: is_ascii_digit_def)

lemma unquote_digits: "cc_unquote (nat_to_dec k) = Ok (nat_to_dec k)"
proof -
  have "\<not> starts_with s [DQUOTE]" "\<not> ends_with s [DQUOTE]" if "DQUOTE \<notin> set s" for s
  proof -
    show "\<not> starts_with s [DQUOTE]" using that by (cases s) (auto simp: starts_with_def)
    show "\<not> ends_with s [DQUOTE]" using that in_set_dropD [of DQUOTE "length s - 1" s] by (auto simp: ends_with_def)
  qed
  from this [OF digits_no_quote [of k]]
  show ?thesis by (simp add: cc_unquote_def strip_prefix_def)
qed

lemma directive_seconds:
  assumes "name_ok n"
  shows "cc_directive (n @ ''='' @ nat_to_dec k) cc = cc_set_value n (nat_to_dec k) cc"
proof -
  have "split_once CHR ''='' (n @ ''='' @ nat_to_dec k) = Some (n, nat_to_dec k)"
    using name_ok_facts(3) [OF assms] by (simp add: split_once_Some_iff)
  then show ?thesis
    using name_ok_facts(1,2) [OF assms] str_trim_plain [OF nat_to_dec_plain [of k]] unquote_digits [of k]
    by (simp add: cc_directive_def str_trim_plain)
qed

definition cc_part_ok :: "string \<Rightarrow> bool" where
  "cc_part_ok p \<longleftrightarrow> plain_ends p \<and> no_comma p"

lemma flag_part_ok: "name_ok n \<Longrightarrow> list_all cc_part_ok (flag_part n b)"
  using name_ok_facts [of n] by (auto simp: flag_part_def cc_part_ok_def plain_ends_def list_all_iff)

lemma seconds_part_ok: "name_ok n \<Longrightarrow> list_all cc_part_ok (seconds_part n v)"
proof (cases v)
  case (Some k)
  assume n: "name_ok n"
  have "list_all plain (nat_to_dec k)" "CHR '','' \<notin> set (nat_to_dec k)"
    using nat_to_dec_plain [of k] nat_to_dec_is_digit [of "CHR '',''" k] by (auto simp: is_ascii_digit_def)
  with n Some name_ok_facts [OF n] show ?thesis
    by (auto simp: seconds_part_def cc_part_ok_def plain_ends_def list_all_iff no_comma_def)
qed (simp add: seconds_part_def)

lemma directives_part: "plain_ends p \<Longrightarrow> cc_directives (p # ps) cc = and_then (cc_directive p cc) (cc_directives ps)"
  using str_trim.trim_plain_ends [of p] by (simp add: plain_ends_def)

lemma directives_SP: "list_all cc_part_ok ps \<Longrightarrow> cc_directives (map (\<lambda>p. SP # p) ps) cc = cc_directives ps cc"
proof (induction ps arbitrary: cc)
  case (Cons p ps)
  then have "plain_ends p" by (simp add: cc_part_ok_def)
  then have "str_trim (SP # p) = p" "str_trim p = p" by (simp_all add: str_trim.trim_plain_ends)
  moreover have "cc_directives (map (\<lambda>p. SP # p) ps) = cc_directives ps" using Cons by auto
  ultimately show ?case by (simp only: list.map cc_directives.simps)
qed simp

text \<open>What each printed directive does to a record in which its field is not set.\<close>

lemma run_seconds:
  assumes "name_ok n" "opt_all (\<lambda>k. k \<le> u64_max) v"
  shows "cc_directives (seconds_part n v @ ps) cc =
    (case v of None \<Rightarrow> cc_directives ps cc | Some k \<Rightarrow> and_then (cc_set_value n (nat_to_dec k) cc) (cc_directives ps))"
proof (cases v)
  case (Some k)
  have "plain_ends (n @ ''='' @ nat_to_dec k)"
    using seconds_part_ok [OF assms(1), of v] Some by (simp add: seconds_part_def cc_part_ok_def)
  with Some show ?thesis
    using directives_part directive_seconds [OF assms(1), of k cc] by (simp add: seconds_part_def del: cc_directives.simps)
qed (simp add: seconds_part_def)

lemma run_flag:
  assumes "name_ok n"
  shows "cc_directives (flag_part n b @ ps) cc = cc_directives ps (if b then cc_set_flag n cc else cc)"
  using directives_part [of n ps cc] flag_part_ok [OF assms, of b] directive_flag [OF assms, of cc]
  by (auto simp: flag_part_def cc_part_ok_def simp del: cc_directives.simps)

lemma names_ok:
  "name_ok ''max-age''" "name_ok ''s-maxage''" "name_ok ''max-stale''" "name_ok ''min-fresh''" "name_ok ''stale-while-revalidate''" "name_ok ''stale-if-error''" "name_ok ''no-cache''" "name_ok ''no-store''" "name_ok ''no-transform''" "name_ok ''only-if-cached''" "name_ok ''must-revalidate''" "name_ok ''proxy-revalidate''" "name_ok ''must-understand''" "name_ok ''public''" "name_ok ''private''" "name_ok ''immutable''"
  by (simp_all add: name_ok_def)

lemma seconds_fields:
  assumes "opt_all (\<lambda>k. k \<le> u64_max) v"
  shows
    "cc_max_age cc = None \<Longrightarrow> cc_directives (seconds_part ''max-age'' v @ ps) cc = cc_directives ps (cc\<lparr>cc_max_age := v\<rparr>)"
    "cc_s_maxage cc = None \<Longrightarrow> cc_directives (seconds_part ''s-maxage'' v @ ps) cc = cc_directives ps (cc\<lparr>cc_s_maxage := v\<rparr>)"
    "cc_min_fresh cc = None \<Longrightarrow> cc_directives (seconds_part ''min-fresh'' v @ ps) cc = cc_directives ps (cc\<lparr>cc_min_fresh := v\<rparr>)"
    "cc_stale_while_revalidate cc = None \<Longrightarrow> cc_directives (seconds_part ''stale-while-revalidate'' v @ ps) cc = cc_directives ps (cc\<lparr>cc_stale_while_revalidate := v\<rparr>)"
    "cc_stale_if_error cc = None \<Longrightarrow> cc_directives (seconds_part ''stale-if-error'' v @ ps) cc = cc_directives ps (cc\<lparr>cc_stale_if_error := v\<rparr>)"
  by (cases v; cases cc; use assms in \<open>simp add: run_seconds names_ok cc_set_value_def parse_seconds_digits\<close>)+

lemma max_stale_field:
  assumes "opt_all (\<lambda>k. k \<le> u64_max) v"
  shows "cc_max_stale cc = None \<Longrightarrow> cc_directives (max_stale_part v @ ps) cc = cc_directives ps (cc\<lparr>cc_max_stale := v\<rparr>)"
proof (cases "v = Some u64_max")
  case True
  then show ?thesis using run_flag [OF names_ok(3), of True ps cc] by (simp add: max_stale_part_def flag_part_def cc_set_flag_def)
next
  case False
  then show "cc_max_stale cc = None \<Longrightarrow> ?thesis"
    using assms by (cases v; cases cc; simp add: max_stale_part_def run_seconds names_ok cc_set_value_def parse_seconds_digits)
qed

lemma flag_fields:
    "\<not> cc_no_cache cc \<Longrightarrow> cc_directives (flag_part ''no-cache'' b @ ps) cc = cc_directives ps (cc\<lparr>cc_no_cache := b\<rparr>)"
    "\<not> cc_no_store cc \<Longrightarrow> cc_directives (flag_part ''no-store'' b @ ps) cc = cc_directives ps (cc\<lparr>cc_no_store := b\<rparr>)"
    "\<not> cc_no_transform cc \<Longrightarrow> cc_directives (flag_part ''no-transform'' b @ ps) cc = cc_directives ps (cc\<lparr>cc_no_transform := b\<rparr>)"
    "\<not> cc_only_if_cached cc \<Longrightarrow> cc_directives (flag_part ''only-if-cached'' b @ ps) cc = cc_directives ps (cc\<lparr>cc_only_if_cached := b\<rparr>)"
    "\<not> cc_must_revalidate cc \<Longrightarrow> cc_directives (flag_part ''must-revalidate'' b @ ps) cc = cc_directives ps (cc\<lparr>cc_must_revalidate := b\<rparr>)"
    "\<not> cc_proxy_revalidate cc \<Longrightarrow> cc_directives (flag_part ''proxy-revalidate'' b @ ps) cc = cc_directives ps (cc\<lparr>cc_proxy_revalidate := b\<rparr>)"
    "\<not> cc_must_understand cc \<Longrightarrow> cc_directives (flag_part ''must-understand'' b @ ps) cc = cc_directives ps (cc\<lparr>cc_must_understand := b\<rparr>)"
    "\<not> cc_public cc \<Longrightarrow> cc_directives (flag_part ''public'' b @ ps) cc = cc_directives ps (cc\<lparr>cc_public := b\<rparr>)"
    "\<not> cc_private cc \<Longrightarrow> cc_directives (flag_part ''private'' b @ ps) cc = cc_directives ps (cc\<lparr>cc_private := b\<rparr>)"
    "\<not> cc_immutable cc \<Longrightarrow> cc_directives (flag_part ''immutable'' b @ ps) cc = cc_directives ps (cc\<lparr>cc_immutable := b\<rparr>)"
  by (cases cc; simp add: run_flag names_ok cc_set_flag_def)+

lemma cc_parts_ok: "list_all cc_part_ok (cc_parts cc)"
  using flag_part_ok seconds_part_ok names_ok flag_part_ok [OF names_ok(3), of True]
  by (simp add: cc_parts_def max_stale_part_def flag_part_def [of "''max-stale''"])

lemma cc_parts_run:
  assumes "cache_ok cc"
  shows "cc_directives (cc_parts cc) CacheControl_new = Ok cc"
proof -
  have r: "opt_all (\<lambda>n. n \<le> u64_max) (cc_max_age cc)"
    "opt_all (\<lambda>n. n \<le> u64_max) (cc_s_maxage cc)"
    "opt_all (\<lambda>n. n \<le> u64_max) (cc_max_stale cc)"
    "opt_all (\<lambda>n. n \<le> u64_max) (cc_min_fresh cc)"
    "opt_all (\<lambda>n. n \<le> u64_max) (cc_stale_while_revalidate cc)"
    "opt_all (\<lambda>n. n \<le> u64_max) (cc_stale_if_error cc)"
    using assms by (simp_all add: cache_ok_def)
  have "cc_directives (cc_parts cc @ []) CacheControl_new = Ok cc"
    unfolding cc_parts_def append_assoc
    by (simp add: seconds_fields max_stale_field flag_fields r CacheControl_new_def del: append_Nil2)
  then show ?thesis by simp
qed

text \<open>Every value of the type, whatever builder or parser made it, is read back from its printed form.\<close>

lemma CacheControl_parse_display:
  assumes "cache_ok cc"
  shows "CacheControl_parse (CacheControl_display cc) = Ok cc"
proof (cases "cc_parts cc")
  case Nil
  then have "cc = CacheControl_new" using cc_parts_run [OF assms] by simp
  with Nil show ?thesis by (simp add: CacheControl_parse_def CacheControl_display_def)
next
  case (Cons p ps)
  have ok: "list_all cc_part_ok (cc_parts cc)" by (rule cc_parts_ok)
  then have e: "plain_ends (join_comma (cc_parts cc))"
    using plain_ends_join [of "cc_parts cc"] Cons by (simp add: cc_part_ok_def list_all_iff)
  have "list_all (\<lambda>a. no_comma a \<and> a \<noteq> []) (cc_parts cc)"
    using ok by (auto simp: list_all_iff cc_part_ok_def plain_ends_def)
  then have "split_on CHR '','' (join_comma (cc_parts cc)) = p # map (\<lambda>a. SP # a) ps"
    using comma_split.split_join [of "cc_parts cc"] Cons by simp
  moreover have "cc_directives (p # map (\<lambda>a. SP # a) ps) CacheControl_new = cc_directives (cc_parts cc) CacheControl_new"
  proof -
    have "cc_directives (map (\<lambda>a. SP # a) ps) = cc_directives ps" using ok Cons directives_SP by auto
    then show ?thesis unfolding Cons by (simp only: cc_directives.simps)
  qed
  ultimately show ?thesis
    using cc_parts_run [OF assms] str_trim.trim_plain_ends [OF e] e
    by (simp add: CacheControl_parse_def CacheControl_display_def plain_ends_def)
qed

lemma Age_parse_display: "age_seconds a \<le> u64_max \<Longrightarrow> Age_parse (Age_display a) = Ok a"
  using str_trim_plain [OF nat_to_dec_plain [of "age_seconds a"]] parse_seconds_digits
  by (cases a) (simp add: Age_parse_def Age_display_def)

lemma Expires_parse_display: "date_ok (ex_date e) \<Longrightarrow> Expires_parse (Expires_display e) y = Ok e"
  by (cases e) (simp add: Expires_parse_def Expires_display_def parse_any_date_display)

lemma Age_parse_ok: "Age_parse s = Ok a \<Longrightarrow> age_seconds a \<le> u64_max"
  by (auto simp: Age_parse_def Let_def dest: parse_seconds_le elim!: resultE)

lemma Expires_parse_ok: "Expires_parse s y = Ok e \<Longrightarrow> date_ok (ex_date e)"
  by (auto simp: Expires_parse_def map_err_Ok_iff parse_any_date_ok elim!: resultE)

lemma parse_seconds_clamp:
  assumes "list_all is_ascii_digit v" "v \<noteq> []" "digits_value 10 0 v = Some n"
  shows "parse_seconds v = Ok (if n \<le> u64_max then n else 2147483648)"
proof -
  have "hd v \<noteq> CHR ''+''" using assms(1,2) by (cases v) (auto simp: is_ascii_digit_def)
  then have "parse_u64 v = (if n \<le> u64_max then Some n else None)"
    using assms(2,3) by (cases v) (auto simp: from_str_radix_def Let_def)
  then show ?thesis using assms(1,2) by (simp add: parse_seconds_def DELTA_SECONDS_OVERFLOW_def)
qed

text \<open>
  C13. Every \<open>CacheControl\<close> whose numbers fit in \<open>u64\<close>, however it was built, is read back from its
  header value with all sixteen directives; what the parser returns is such a value; and a number of
  seconds is kept exactly up to the largest \<open>u64\<close> and becomes 2^31 beyond it.
\<close>

theorem cache_control_roundtrip:
  assumes "cache_ok cc" "CacheControl_parse s = Ok c"
    "list_all is_ascii_digit v" "v \<noteq> []" "digits_value 10 0 v = Some n"
  shows "CacheControl_parse (CacheControl_to_header_value cc) = Ok cc
    \<and> cache_ok c \<and> CacheControl_parse (CacheControl_to_header_value c) = Ok c
    \<and> parse_seconds v = Ok (if n \<le> u64_max then n else 2147483648)"
  using CacheControl_parse_display [OF assms(1)] CacheControl_parse_ok [OF assms(2)]
    CacheControl_parse_display [OF CacheControl_parse_ok [OF assms(2)]] parse_seconds_clamp [OF assms(3-5)]
  by (simp add: CacheControl_to_header_value_def)

theorem cache_control_roundtrip_witness:
  "\<exists>c. CacheControl_parse ''Max-Age=\"60\" , ,private=\"X\", max-stale'' = Ok c
     \<and> CacheControl_parse (CacheControl_to_header_value c) = Ok c
     \<and> CacheControl_parse (CacheControl_to_header_value (with_public (with_max_age CacheControl_new 5)))
        = Ok (with_public (with_max_age CacheControl_new 5))
     \<and> parse_seconds ''18446744073709551616'' = Ok 2147483648"
proof -
  let ?c = "with_private (with_max_age CacheControl_new 60)\<lparr>cc_max_stale := Some u64_max\<rparr>"
  have p: "CacheControl_parse ''Max-Age=\"60\" , ,private=\"X\", max-stale'' = Ok ?c" by code_simp
  have ok: "cache_ok (with_public (with_max_age CacheControl_new 5))" by code_simp
  have v: "list_all is_ascii_digit ''18446744073709551616''" "digits_value 10 0 ''18446744073709551616'' = Some 18446744073709551616"
    by code_simp+
  from cache_control_roundtrip [OF ok p v(1) _ v(2)] p show ?thesis by (intro exI [of _ ?c]) (simp add: u64_max_def)
qed

end
