(* ===== verification/Accept.thy ===== *)
theory Accept
  imports List_Headers_Correct
begin

text \<open>
  \<^verbatim>\<open>src/accept.rs\<close>: Accept, Accept-Charset, Accept-Encoding and Accept-Language. A quality
  value is a \<open>u16\<close> in thousandths; the loop that reads it sees at most three digits, so
  the arithmetic stays below 1000.
\<close>

datatype AcceptError = ACEmpty | ACInvalidFormat | ACInvalidMediaRange | ACInvalidToken | ACInvalidParameter
  | ACUnterminatedQuote | ACInvalidQValue | ACInvalidLanguageTag

fun AcceptError_display :: "AcceptError \<Rightarrow> string" where
  "AcceptError_display ACEmpty = ''empty Accept header''"
| "AcceptError_display ACInvalidFormat = ''invalid Accept header format''"
| "AcceptError_display ACInvalidMediaRange = ''invalid media range''"
| "AcceptError_display ACInvalidToken = ''invalid token''"
| "AcceptError_display ACInvalidParameter = ''invalid parameter''"
| "AcceptError_display ACUnterminatedQuote = ''unterminated quoted-string''"
| "AcceptError_display ACInvalidQValue = ''invalid qvalue''"
| "AcceptError_display ACInvalidLanguageTag = ''invalid language tag''"

fun accept_from_quoted_error :: "QuotedStringError \<Rightarrow> AcceptError" where
  "accept_from_quoted_error InvalidQdtext = ACInvalidParameter"
| "accept_from_quoted_error InvalidQuotedPair = ACInvalidParameter"
| "accept_from_quoted_error Unterminated = ACUnterminatedQuote"

section \<open>Quality values\<close>

type_synonym QValue = nat

definition QValue_default :: QValue where
  "QValue_default = 1000"

fun qvalue_digits :: "string \<Rightarrow> nat \<Rightarrow> nat \<Rightarrow> (QValue, AcceptError) result" where
  "qvalue_digits [] idx v = Ok v"
| "qvalue_digits (c # cs) idx v =
     and_then (ok_or (to_digit 10 c) ACInvalidQValue) (\<lambda>digit. qvalue_digits cs (idx + 1) (v + digit * 10 ^ (2 - idx)))"

definition QValue_parse :: "string \<Rightarrow> (QValue, AcceptError) result" where
  "QValue_parse s =
     (let input = trim_ows s
      in if input = [] then Err ACInvalidQValue
         else if input = ''1'' then Ok 1000
         else case strip_prefix input ''1.'' of
                Some rest \<Rightarrow>
                  (if rest = [] then Ok 1000
                   else if length rest > 3 \<or> \<not> list_all (\<lambda>c. c = CHR ''0'') rest then Err ACInvalidQValue
                   else Ok 1000)
              | None \<Rightarrow>
                  (if input = ''0'' then Ok 0
                   else case strip_prefix input ''0.'' of
                          Some rest \<Rightarrow>
                            (if length rest > 3 \<or> \<not> list_all is_ascii_digit rest then Err ACInvalidQValue
                             else qvalue_digits rest 0 0)
                        | None \<Rightarrow> Err ACInvalidQValue))"

definition QValue_display :: "QValue \<Rightarrow> string" where
  "QValue_display q =
     (if q = 1000 then ''1''
      else if q = 0 then ''0''
      else let frac = pad_dec 3 q in ''0.'' @ rev (dropWhile (\<lambda>c. c = CHR ''0'') (rev frac)))"

text \<open>The end of every printed element: nothing for the default quality.\<close>

definition weight_text :: "QValue \<Rightarrow> string" where
  "weight_text q = (if q < 1000 then ''; q='' @ QValue_display q else [])"

section \<open>Lists of weighted tokens\<close>

definition validate_token_or_star :: "string \<Rightarrow> bool" where
  "validate_token_or_star token = (if token = ''*'' then True else is_valid_token token)"

definition validate_language_range :: "string \<Rightarrow> bool" where
  "validate_language_range token = (if token = ''*'' then True else is_valid_language_tag token)"

fun weighted_params :: "string list \<Rightarrow> QValue \<Rightarrow> bool \<Rightarrow> (QValue, AcceptError) result" where
  "weighted_params [] qvalue q_seen = Ok qvalue"
| "weighted_params (p # ps) qvalue q_seen =
     (let param = trim_ows p
      in if param = [] then weighted_params ps qvalue q_seen
         else and_then (ok_or (split_once CHR ''='' param) ACInvalidParameter) (\<lambda>(name, v).
                if eq_ignore_ascii_case (trim_ows name) ''q'' then
                  reject_if q_seen ACInvalidQValue
                    (and_then (QValue_parse (trim_ows v)) (\<lambda>q. weighted_params ps q True))
                else Err ACInvalidParameter))"

text \<open>One round of the loop of \<open>parse_weighted_tokens\<close>, for a piece that is not empty.\<close>

definition parse_weighted_token ::
    "(string \<Rightarrow> bool) \<Rightarrow> bool \<Rightarrow> bool \<Rightarrow> string \<Rightarrow> (string \<times> QValue, AcceptError) result" where
  "parse_weighted_token validator lowercase allow_wildcard part =
     (let parts = split_with_quotes part CHR '';''; token = trim_ows (hd parts)
      in reject_if (token = []) ACInvalidFormat
           (reject_if (token = ''*'' \<and> \<not> allow_wildcard) ACInvalidFormat
             (reject_if (token \<noteq> ''*'' \<and> \<not> validator token) ACInvalidToken
               (and_then (weighted_params (tl parts) QValue_default False) (\<lambda>qvalue.
                  Ok (if lowercase \<and> token \<noteq> ''*'' then to_ascii_lowercase token else token, qvalue))))))"

definition parse_weighted_tokens ::
    "string \<Rightarrow> (string \<Rightarrow> bool) \<Rightarrow> bool \<Rightarrow> bool \<Rightarrow> ((string \<times> QValue) list, AcceptError) result" where
  "parse_weighted_tokens s validator lowercase allow_wildcard =
     (let input = trim_ows s
      in if input = [] then Ok []
         else list_items trim_ows (parse_weighted_token validator lowercase allow_wildcard)
                (split_with_quotes input CHR '','') [])"

record CharsetRange =
  cs_charset :: string
  cs_q :: QValue

record AcceptCharset =
  acs_items :: "CharsetRange list"

definition AcceptCharset_parse :: "string \<Rightarrow> (AcceptCharset, AcceptError) result" where
  "AcceptCharset_parse s =
     and_then (parse_weighted_tokens s validate_token_or_star True True) (\<lambda>items.
       Ok \<lparr>acs_items = map (\<lambda>(v, q). \<lparr>cs_charset = v, cs_q = q\<rparr>) items\<rparr>)"

definition CharsetRange_display :: "CharsetRange \<Rightarrow> string" where
  "CharsetRange_display r = cs_charset r @ (if cs_q r < 1000 then ''; q='' @ QValue_display (cs_q r) else [])"

definition AcceptCharset_display :: "AcceptCharset \<Rightarrow> string" where
  "AcceptCharset_display a = join_comma (map CharsetRange_display (acs_items a))"

record EncodingRange =
  er_coding :: string
  er_q :: QValue

record AcceptEncoding =
  aen_items :: "EncodingRange list"

definition AcceptEncoding_parse :: "string \<Rightarrow> (AcceptEncoding, AcceptError) result" where
  "AcceptEncoding_parse s =
     and_then (parse_weighted_tokens s validate_token_or_star True True) (\<lambda>items.
       Ok \<lparr>aen_items = map (\<lambda>(v, q). \<lparr>er_coding = v, er_q = q\<rparr>) items\<rparr>)"

definition EncodingRange_display :: "EncodingRange \<Rightarrow> string" where
  "EncodingRange_display r = er_coding r @ (if er_q r < 1000 then ''; q='' @ QValue_display (er_q r) else [])"

definition AcceptEncoding_display :: "AcceptEncoding \<Rightarrow> string" where
  "AcceptEncoding_display a = join_comma (map EncodingRange_display (aen_items a))"

record LanguageRange =
  lr_language :: string
  lr_q :: QValue

record AcceptLanguage =
  al_items :: "LanguageRange list"

definition AcceptLanguage_parse :: "string \<Rightarrow> (AcceptLanguage, AcceptError) result" where
  "AcceptLanguage_parse s =
     and_then (parse_weighted_tokens s validate_language_range False True) (\<lambda>items.
       Ok \<lparr>al_items = map (\<lambda>(v, q). \<lparr>lr_language = v, lr_q = q\<rparr>) items\<rparr>)"

definition LanguageRange_display :: "LanguageRange \<Rightarrow> string" where
  "LanguageRange_display r = lr_language r @ (if lr_q r < 1000 then ''; q='' @ QValue_display (lr_q r) else [])"

definition AcceptLanguage_display :: "AcceptLanguage \<Rightarrow> string" where
  "AcceptLanguage_display a = join_comma (map LanguageRange_display (al_items a))"

section \<open>Media ranges\<close>

definition accept_parse_param_value :: "string \<Rightarrow> (string, AcceptError) result" where
  "accept_parse_param_value s =
     (let input = trim_ows s
      in case strip_prefix input [DQUOTE] of
           Some rest \<Rightarrow>
             and_then (map_err accept_from_quoted_error (parse_quoted_string rest)) (\<lambda>(v, remaining).
               reject_if (trim_ows remaining \<noteq> []) ACInvalidParameter (Ok v))
         | None \<Rightarrow> reject_if (\<not> is_valid_token input) ACInvalidToken (Ok input))"

definition accept_needs_quoting :: "string \<Rightarrow> bool" where
  "accept_needs_quoting s \<longleftrightarrow> s = [] \<or> list_ex (\<lambda>b. \<not> is_token_char b) s"

definition parse_media_range :: "string \<Rightarrow> (string \<times> string, AcceptError) result" where
  "parse_media_range s =
     (let input = trim_ows s
      in if input = ''*/*'' then Ok (''*'', ''*'')
         else and_then (ok_or (split_once CHR ''/'' input) ACInvalidMediaRange) (\<lambda>(media_type0, subtype0).
                let media_type = trim_ows media_type0; subtype = trim_ows subtype0
                in if media_type = ''*'' then reject_if (subtype \<noteq> ''*'') ACInvalidMediaRange (Ok (''*'', ''*''))
                   else if subtype = ''*'' then
                     reject_if (\<not> is_valid_token media_type) ACInvalidMediaRange (Ok (to_ascii_lowercase media_type, ''*''))
                   else reject_if (\<not> is_valid_token media_type \<or> \<not> is_valid_token subtype) ACInvalidMediaRange
                          (Ok (to_ascii_lowercase media_type, to_ascii_lowercase subtype))))"

fun media_params ::
    "string list \<Rightarrow> (string \<times> string) list \<Rightarrow> QValue \<Rightarrow> bool \<Rightarrow> ((string \<times> string) list \<times> QValue, AcceptError) result" where
  "media_params [] params qvalue q_seen = Ok (params, qvalue)"
| "media_params (p # ps) params qvalue q_seen =
     (let param = trim_ows p
      in if param = [] then media_params ps params qvalue q_seen
         else and_then (ok_or (split_once CHR ''='' param) ACInvalidParameter) (\<lambda>(name0, v0).
                let name = to_ascii_lowercase (trim_ows name0)
                in and_then (accept_parse_param_value v0) (\<lambda>v.
                     if name = ''q'' then
                       reject_if q_seen ACInvalidQValue (and_then (QValue_parse v) (\<lambda>q. media_params ps params q True))
                     else media_params ps (params @ [(name, v)]) qvalue q_seen)))"

record MediaRange =
  mr_media_type :: string
  mr_subtype :: string
  mr_parameters :: "(string \<times> string) list"
  mr_q :: QValue

definition parse_media_range_item :: "string \<Rightarrow> (MediaRange, AcceptError) result" where
  "parse_media_range_item s =
     (let parts = split_with_quotes s CHR '';''; media = str_trim (hd parts)
      in and_then (parse_media_range media) (\<lambda>(media_type, subtype).
           and_then (media_params (tl parts) [] QValue_default False) (\<lambda>(params, qvalue).
             Ok \<lparr>mr_media_type = media_type, mr_subtype = subtype, mr_parameters = params, mr_q = qvalue\<rparr>)))"

definition mr_parameter_display :: "string \<times> string \<Rightarrow> string" where
  "mr_parameter_display p =
     (case p of (name, v) \<Rightarrow>
        if accept_needs_quoting v then ''; '' @ name @ ''='' @ [DQUOTE] @ escape_quotes v @ [DQUOTE]
        else ''; '' @ name @ ''='' @ v)"

definition MediaRange_display :: "MediaRange \<Rightarrow> string" where
  "MediaRange_display m =
     mr_media_type m @ ''/'' @ mr_subtype m @ concat (map mr_parameter_display (mr_parameters m))
     @ (if mr_q m < 1000 then ''; q='' @ QValue_display (mr_q m) else [])"

record Accept =
  ac_items :: "MediaRange list"

definition Accept_parse :: "string \<Rightarrow> (Accept, AcceptError) result" where
  "Accept_parse s =
     (let input = trim_ows s
      in and_then (if input \<noteq> [] then list_items trim_ows parse_media_range_item (split_with_quotes input CHR '','') []
                   else Ok []) (\<lambda>items. Ok \<lparr>ac_items = items\<rparr>))"

definition Accept_display :: "Accept \<Rightarrow> string" where
  "Accept_display a = join_comma (map MediaRange_display (ac_items a))"

section \<open>Facts about quality values\<close>

lemma to_digit_less: "to_digit 10 c = Some d \<Longrightarrow> d \<le> 9"
  by (auto simp: to_digit_def Let_def split: if_splits)

lemma QValue_parse_le: "QValue_parse s = Ok q \<Longrightarrow> q \<le> 1000"
proof -
  have len: "r = [] \<or> (\<exists>a. r = [a]) \<or> (\<exists>a b. r = [a, b]) \<or> (\<exists>a b c. r = [a, b, c])" if "length r \<le> 3" for r :: string
    using that by (auto simp: le_Suc_eq numeral_3_eq_3 length_Suc_conv)
  have d: "v \<le> 1000" if "length r \<le> 3" "qvalue_digits r 0 0 = Ok v" for r v
    using len [OF that(1)] that(2) by (auto dest!: to_digit_less elim!: resultE)
  show "QValue_parse s = Ok q \<Longrightarrow> q \<le> 1000"
    by (auto simp: QValue_parse_def Let_def split: if_splits option.splits intro: d [rotated])
qed

lemma pad_dec_3: "q < 1000 \<Longrightarrow> pad_dec 3 q = map digit_char [q div 100, q div 10 mod 10, q mod 10]"
proof -
  assume q: "q < 1000"
  have z: "digit_char 0 = CHR ''0''" by code_simp
  have one: "to_base 10 x = [digit_char x]" if "x < 10" for x using that by (simp add: to_base.simps)
  have more: "to_base 10 x = to_base 10 (x div 10) @ [digit_char (x mod 10)]" if "10 \<le> x" for x
    using that by (subst to_base.simps) simp
  have dd: "q div 10 div 10 = q div 100" by (simp add: div_mult2_eq [symmetric])
  consider "q < 10" | "10 \<le> q" "q < 100" | "100 \<le> q" "q < 1000" using q by linarith
  then show ?thesis
  proof cases
    case 1
    then show ?thesis by (simp add: pad_dec_def nat_to_dec_def one z numeral_2_eq_2)
  next
    case 2
    then have "q div 10 < 10" "q div 100 = 0" by auto
    with 2 show ?thesis by (simp add: pad_dec_def nat_to_dec_def one more z)
  next
    case 3
    then have "10 \<le> q div 10" "q div 100 < 10" by auto
    with 3 show ?thesis by (simp add: pad_dec_def nat_to_dec_def one more dd)
  qed
qed

lemma digit_char_zero: "d < 10 \<Longrightarrow> digit_char d = CHR ''0'' \<longleftrightarrow> d = 0"
  using of_char_digit_char [of d] by (auto simp: u8_inject [symmetric] simp del: u8_inject)

lemma digit_char_is_digit: "d < 10 \<Longrightarrow> is_ascii_digit (digit_char d)"
  by (simp add: is_ascii_digit_def of_char_digit_char)

lemma digit_char_plain10: "d < 10 \<Longrightarrow> plain (digit_char d)"
  by (rule digit_plain [OF digit_char_is_digit])

text \<open>The printed quality: up to three digits after the point, without zeros at the end.\<close>

lemma QValue_display_cases:
  assumes "0 < q" "q < 1000"
  obtains ds where "QValue_display q = ''0.'' @ map digit_char ds" "ds \<noteq> []" "length ds \<le> 3" "\<forall>d \<in> set ds. d < 10"
    "\<And>v. qvalue_digits (map digit_char ds) 0 v = Ok (v + q)"
proof -
  let ?a = "q div 100" and ?b = "q div 10 mod 10" and ?c = "q mod 10"
  have d: "?a < 10" "?b < 10" "?c < 10" using assms(2) by auto
  have "q = q div 10 * 10 + ?c" "q div 10 = q div 10 div 10 * 10 + ?b" by simp_all
  moreover have "q div 10 div 10 = ?a" by (simp add: div_mult2_eq [symmetric])
  ultimately have q: "q = 100 * ?a + 10 * ?b + ?c" by linarith
  have e: "QValue_display q = ''0.'' @ rev (dropWhile (\<lambda>c. c = CHR ''0'') (rev (map digit_char [?a, ?b, ?c])))"
    using assms pad_dec_3 [OF assms(2)] by (simp add: QValue_display_def)
  have z: "digit_char x = CHR ''0'' \<longleftrightarrow> x = 0" "to_digit 10 (digit_char x) = Some x" if "x < 10" for x
    using that digit_char_zero to_digit_digit_char by auto
  note z = z [OF d(1)] z [OF d(2)] z [OF d(3)]
  have run: "qvalue_digits (map digit_char [?a, ?b, ?c]) 0 v = Ok (v + (100 * ?a + 10 * ?b + ?c))"
    "qvalue_digits (map digit_char [?a, ?b]) 0 v = Ok (v + (100 * ?a + 10 * ?b))"
    "qvalue_digits (map digit_char [?a]) 0 v = Ok (v + 100 * ?a)" for v by (simp_all add: z)
  consider "?c \<noteq> 0" | "?c = 0" "?b \<noteq> 0" | "?c = 0" "?b = 0" "?a \<noteq> 0" using q assms(1) by linarith
  then show thesis
  proof cases
    case 1
    have "QValue_display q = ''0.'' @ map digit_char [?a, ?b, ?c]" unfolding e using 1 z by simp
    moreover have "100 * ?a + 10 * ?b + ?c = q" using q by (rule sym)
    ultimately show thesis using run(1) d by (intro that [of "[?a, ?b, ?c]"]) simp_all
  next
    case 2
    have "QValue_display q = ''0.'' @ map digit_char [?a, ?b]" unfolding e using 2 z by simp
    moreover have "100 * ?a + 10 * ?b = q" using q 2(1) by linarith
    ultimately show thesis using run(2) d by (intro that [of "[?a, ?b]"]) simp_all
  next
    case 3
    have "QValue_display q = ''0.'' @ map digit_char [?a]" unfolding e using 3 z by simp
    moreover have "100 * ?a = q" using q 3(1,2) by linarith
    ultimately show thesis using run(3) d by (intro that [of "[?a]"]) simp_all
  qed
qed

lemma QValue_display_ends:
  assumes "q \<le> 1000"
  shows "plain_ends (QValue_display q)" "list_all (\<lambda>c. is_ascii_digit c \<or> c = CHR ''.'') (QValue_display q)"
proof -
  have "plain_ends (QValue_display q) \<and> list_all (\<lambda>c. is_ascii_digit c \<or> c = CHR ''.'') (QValue_display q)"
  proof (cases "0 < q \<and> q < 1000")
    case True
    then obtain ds where ds: "QValue_display q = ''0.'' @ map digit_char ds" "ds \<noteq> []" "\<forall>d \<in> set ds. d < 10"
      using QValue_display_cases by metis
    then have "plain (digit_char (last ds))" by (intro digit_char_plain10) simp
    with ds show ?thesis
      by (auto simp: plain_ends_def list_all_iff digit_char_is_digit last_map plain_def is_whitespace_cp_def is_ascii_digit_def [of "CHR ''0''"])
  next
    case False
    then have "q = 0 \<or> q = 1000" using assms by auto
    then show ?thesis by (auto simp: QValue_display_def plain_ends_def plain_def is_whitespace_cp_def is_ascii_digit_def)
  qed
  then show "plain_ends (QValue_display q)" "list_all (\<lambda>c. is_ascii_digit c \<or> c = CHR ''.'') (QValue_display q)" by auto
qed

lemma QValue_parse_display:
  assumes "q \<le> 1000"
  shows "QValue_parse (QValue_display q) = Ok q"
proof (cases "0 < q \<and> q < 1000")
  case True
  then obtain ds where ds: "QValue_display q = ''0.'' @ map digit_char ds" "length ds \<le> 3" "\<forall>d \<in> set ds. d < 10"
    "qvalue_digits (map digit_char ds) 0 0 = Ok (0 + q)"
    using QValue_display_cases by metis
  have "trim_ows (''0.'' @ map digit_char ds) = ''0.'' @ map digit_char ds"
    using ows_trim.trim_plain_ends [OF QValue_display_ends(1) [OF assms]] ds(1) by simp
  moreover have "list_all is_ascii_digit (map digit_char ds)" using ds(3) digit_char_is_digit by (auto simp: list_all_iff)
  ultimately show ?thesis
    unfolding ds(1) QValue_parse_def Let_def using ds(2,4) by (simp add: strip_prefix_def starts_with_def)
next
  case False
  then have "q = 0 \<or> q = 1000" using assms by auto
  then show ?thesis by (elim disjE; simp; code_simp)
qed

end
