(* ===== verification/Accept_Correct.thy ===== *)
theory Accept_Correct
  imports Accept
begin

text \<open>
  The Accept headers. The three lists of weighted tokens share the interface \<open>weighted_token\<close>,
  which gives a \<open>list_header\<close>; media ranges give a \<open>list_printer\<close> only, because the parser
  accepts parameter names that its own printed form does not keep apart.
\<close>

section \<open>The weight parameter\<close>

definition q_param :: "QValue \<Rightarrow> string" where
  "q_param q = ''q='' @ QValue_display q"

lemma weight_text_eq: "weight_text q = (if q < 1000 then CHR '';'' # SP # q_param q else [])"
  by (simp add: weight_text_def q_param_def)

lemma q_param_ends: "q \<le> 1000 \<Longrightarrow> plain_ends (q_param q)"
  using QValue_display_ends(1) [of q] by (simp add: q_param_def plain_ends_def plain_def is_whitespace_cp_def)

lemma q_param_split: "split_once CHR ''='' (q_param q) = Some (''q'', QValue_display q)"
  by (simp add: q_param_def split_once_Some_iff)

lemma q_param_neutral:
  assumes "q \<le> 1000" "d = CHR '','' \<or> d = CHR '';''"
  shows "quote_neutral d (SP # q_param q)"
proof -
  have "u8 c < 0x80 \<and> c \<noteq> DQUOTE \<and> c \<noteq> d" if "c \<in> set (QValue_display q)" for c
    using QValue_display_ends(2) [OF assms(1)] that assms(2) by (auto simp: list_all_iff is_ascii_digit_def)
  then show ?thesis using assms(2) by (intro quote_neutral_plain) (auto simp: list_all_iff q_param_def)
qed

lemma split_q_param: "q \<le> 1000 \<Longrightarrow> split_with_quotes (SP # q_param q) CHR '';'' = [SP # q_param q]"
  by (rule split_with_quotes_neutral(1) [OF q_param_neutral]) simp_all

lemma trim_q_param: "q \<le> 1000 \<Longrightarrow> trim_ows (SP # q_param q) = q_param q \<and> q_param q \<noteq> []"
  using q_param_ends [of q] plain_ends_SP [of "q_param q"] by (simp add: plain_ends_def)

lemma trim_q_value: "q \<le> 1000 \<Longrightarrow> trim_ows (QValue_display q) = QValue_display q"
  by (rule ows_trim.trim_plain_ends [OF QValue_display_ends(1)])

lemma token_no_semicolon: "is_valid_token n \<Longrightarrow> CHR '';'' \<notin> set n"
  by (rule valid_token_no) (simp_all add: is_token_char_def)

lemma token_neutral:
  assumes "is_valid_token n" "d = CHR '','' \<or> d = CHR '';''"
  shows "quote_neutral d n"
proof (rule quote_neutral_plain)
  show "list_all (\<lambda>c. u8 c < 0x80 \<and> c \<noteq> DQUOTE \<and> c \<noteq> d) n"
    using token_ascii_part [OF assms(1)] token_no_semicolon [OF assms(1)] assms(2) by (auto simp: list_all_iff)
qed

lemma neutral_sep: "quote_neutral CHR '','' [CHR '';'']" "quote_neutral CHR '','' [SP]" "quote_neutral CHR '';'' [SP]"
  "quote_neutral CHR '','' [CHR ''/'']" "quote_neutral CHR '';'' [CHR ''/'']"
  "quote_neutral CHR '','' [CHR ''='']" "quote_neutral CHR '';'' [CHR ''='']"
  by (rule quote_neutral_plain, simp)+

lemma neutral_Cons: "quote_neutral d [c] \<Longrightarrow> quote_neutral d a \<Longrightarrow> quote_neutral d (c # a)"
  using quote_neutral_append [of d "[c]" a] by simp

lemma weight_text_neutral: "q \<le> 1000 \<Longrightarrow> quote_neutral CHR '','' (weight_text q)"
  using q_param_neutral [of q "CHR '',''"] neutral_Cons [OF neutral_sep(1)] quote_neutral_plain [of "CHR '',''" "[]"]
  by (simp add: weight_text_eq)

section \<open>Weighted tokens\<close>

definition show_weighted :: "string \<times> QValue \<Rightarrow> string" where
  "show_weighted x = fst x @ weight_text (snd x)"

definition weighted_ok :: "(string \<Rightarrow> bool) \<Rightarrow> bool \<Rightarrow> string \<times> QValue \<Rightarrow> bool" where
  "weighted_ok validator lowercase x \<longleftrightarrow>
     validator (fst x) \<and> (lowercase \<longrightarrow> to_ascii_lowercase (fst x) = fst x) \<and> snd x \<le> 1000"

lemma weighted_params_le: "weighted_params ps q b = Ok q' \<Longrightarrow> q \<le> 1000 \<Longrightarrow> q' \<le> 1000"
proof (induction ps arbitrary: q b)
  case (Cons p ps)
  then show ?case using QValue_parse_le by (auto simp: Let_def elim!: resultE split: if_splits)
qed simp

locale weighted_token =
  fixes validator :: "string \<Rightarrow> bool" and lowercase :: bool
  assumes validator_token: "validator t \<Longrightarrow> is_valid_token t"
    and validator_star: "validator ''*''"
    and validator_lower: "lowercase \<Longrightarrow> validator t \<Longrightarrow> validator (to_ascii_lowercase t)"

sublocale weighted_token \<subseteq> list_header trim_ows "\<lambda>s. split_with_quotes s CHR '',''" "quote_neutral CHR '',''"
    "parse_weighted_token validator lowercase True" show_weighted "weighted_ok validator lowercase"
proof
  show "weighted_ok validator lowercase x" if "parse_weighted_token validator lowercase True s = Ok x" for s x
    using that validator_star validator_lower weighted_params_le [of _ QValue_default False] lower_star
    by (auto simp: parse_weighted_token_def Let_def weighted_ok_def QValue_default_def to_ascii_lowercase_def [of "''*''"] ascii_lower_def
             elim!: resultE split: if_splits)
  show "parse_weighted_token validator lowercase True (show_weighted x) = Ok x" "plain_ends (show_weighted x)"
    "quote_neutral CHR '','' (show_weighted x)" if ok: "weighted_ok validator lowercase x" for x
  proof -
    obtain t q where x: "x = (t, q)" by (cases x)
    have t: "validator t" "is_valid_token t" "lowercase \<Longrightarrow> to_ascii_lowercase t = t" and q: "q \<le> 1000"
      using ok x validator_token by (auto simp: weighted_ok_def)
    have tt: "trim_ows t = t" "t \<noteq> []" using token_trim_ows [OF t(2)] valid_token_not_Nil [OF t(2)] by auto
    have n: "quote_neutral CHR '';'' t" "quote_neutral CHR '','' t" using token_neutral [OF t(2)] by auto
    have item: "parse_weighted_token validator lowercase True u = Ok (t, q)"
      if "hd (split_with_quotes u CHR '';'') = t" "weighted_params (tl (split_with_quotes u CHR '';'')) QValue_default False = Ok q" for u
      using that tt t(1,3) by (auto simp: parse_weighted_token_def)
    show "parse_weighted_token validator lowercase True (show_weighted x) = Ok x"
    proof (cases "q < 1000")
      case True
      have s: "split_with_quotes (t @ CHR '';'' # SP # q_param q) CHR '';'' = [t, SP # q_param q]"
        using split_with_quotes_neutral(2) [OF n(1)] split_q_param [OF q] by simp
      have "weighted_params [SP # q_param q] QValue_default False = Ok q"
        using trim_q_param [OF q] q_param_split [of q] trim_q_value [OF q] QValue_parse_display [OF q] token_trim_ows [of "''q''"]
        by (simp add: is_valid_token_def is_token_char_def)
      then show ?thesis using item s True x by (simp add: show_weighted_def weight_text_eq)
    next
      case False
      then show ?thesis
        using item [of t] split_with_quotes_neutral(1) [OF n(1)] q x by (simp add: show_weighted_def weight_text_eq QValue_default_def)
    qed
    show "plain_ends (show_weighted x)"
      using plain_ends_token [OF t(2)] q_param_ends [OF q] x by (auto simp: show_weighted_def weight_text_eq plain_ends_def)
    show "quote_neutral CHR '','' (show_weighted x)"
      using quote_neutral_append [OF n(2) weight_text_neutral [OF q]] x by (simp add: show_weighted_def)
  qed
qed

context weighted_token
begin

lemma weighted_tokens_loop:
  "parse_weighted_tokens s validator lowercase True =
     list_items trim_ows (parse_weighted_token validator lowercase True) (split_with_quotes (trim_ows s) CHR '','') []"
  by (cases "trim_ows s = []") (simp_all add: parse_weighted_tokens_def split_Nil)

lemma weighted_tokens_roundtrip:
  "parse_weighted_tokens s validator lowercase True = Ok xs \<Longrightarrow> valid_utf8 s \<Longrightarrow>
     parse_weighted_tokens (join_comma (map show_weighted xs)) validator lowercase True = Ok xs"
  unfolding weighted_tokens_loop by (rule roundtrip)

end

lemma language_tag_token: "is_valid_language_tag t \<Longrightarrow> is_valid_token t"
  using language_tag_chars [of t]
  by (auto simp: is_valid_token_def list_all_iff is_token_char_def is_ascii_alphanumeric_def is_ascii_alphabetic_def is_ascii_digit_def)

interpretation wtokens: weighted_token validate_token_or_star True
  by unfold_locales (auto simp: validate_token_or_star_def star_token valid_token_lower split: if_splits)

interpretation wlanguages: weighted_token validate_language_range False
  by unfold_locales (auto simp: validate_language_range_def star_token language_tag_token split: if_splits)

lemma AcceptCharset_roundtrip:
  assumes "valid_utf8 s" "AcceptCharset_parse s = Ok a"
  shows "AcceptCharset_parse (AcceptCharset_display a) = Ok a"
proof -
  obtain xs where xs: "parse_weighted_tokens s validate_token_or_star True True = Ok xs"
    and a: "a = \<lparr>acs_items = map (\<lambda>(v, q). \<lparr>cs_charset = v, cs_q = q\<rparr>) xs\<rparr>"
    using assms(2) by (auto simp: AcceptCharset_parse_def elim!: resultE)
  have "AcceptCharset_display a = join_comma (map show_weighted xs)"
    unfolding AcceptCharset_display_def a
    by (auto simp: CharsetRange_display_def show_weighted_def weight_text_def intro!: arg_cong [where f = join_comma])
  with wtokens.weighted_tokens_roundtrip [OF xs assms(1)] a show ?thesis by (simp add: AcceptCharset_parse_def)
qed

lemma AcceptEncoding_roundtrip:
  assumes "valid_utf8 s" "AcceptEncoding_parse s = Ok a"
  shows "AcceptEncoding_parse (AcceptEncoding_display a) = Ok a"
proof -
  obtain xs where xs: "parse_weighted_tokens s validate_token_or_star True True = Ok xs"
    and a: "a = \<lparr>aen_items = map (\<lambda>(v, q). \<lparr>er_coding = v, er_q = q\<rparr>) xs\<rparr>"
    using assms(2) by (auto simp: AcceptEncoding_parse_def elim!: resultE)
  have "AcceptEncoding_display a = join_comma (map show_weighted xs)"
    unfolding AcceptEncoding_display_def a
    by (auto simp: EncodingRange_display_def show_weighted_def weight_text_def intro!: arg_cong [where f = join_comma])
  with wtokens.weighted_tokens_roundtrip [OF xs assms(1)] a show ?thesis by (simp add: AcceptEncoding_parse_def)
qed

lemma AcceptLanguage_roundtrip:
  assumes "valid_utf8 s" "AcceptLanguage_parse s = Ok a"
  shows "AcceptLanguage_parse (AcceptLanguage_display a) = Ok a"
proof -
  obtain xs where xs: "parse_weighted_tokens s validate_language_range False True = Ok xs"
    and a: "a = \<lparr>al_items = map (\<lambda>(v, q). \<lparr>lr_language = v, lr_q = q\<rparr>) xs\<rparr>"
    using assms(2) by (auto simp: AcceptLanguage_parse_def elim!: resultE)
  have "AcceptLanguage_display a = join_comma (map show_weighted xs)"
    unfolding AcceptLanguage_display_def a
    by (auto simp: LanguageRange_display_def show_weighted_def weight_text_def intro!: arg_cong [where f = join_comma])
  with wlanguages.weighted_tokens_roundtrip [OF xs assms(1)] a show ?thesis by (simp add: AcceptLanguage_parse_def)
qed

section \<open>Media ranges\<close>

lemma QValue_display_token: "q \<le> 1000 \<Longrightarrow> is_valid_token (QValue_display q)"
proof -
  assume q: "q \<le> 1000"
  have "is_token_char c" if "is_ascii_digit c \<or> c = CHR ''.''" for c
    using that by (auto simp: is_token_char_def is_ascii_alphanumeric_def is_ascii_digit_def)
  then show ?thesis
    using QValue_display_ends [OF q] by (auto simp: is_valid_token_def list_all_iff plain_ends_def)
qed

lemma accept_needs_quoting_eq: "accept_needs_quoting = needs_quoting"
  by (intro ext) (simp add: accept_needs_quoting_def needs_quoting_def)

lemma accept_parse_value_text: "quotable v \<Longrightarrow> accept_parse_param_value (value_text v) = Ok v"
proof (cases "needs_quoting v")
  case True
  assume q: "quotable v"
  have t: "trim_ows (DQUOTE # escape_quotes v @ [DQUOTE]) = DQUOTE # escape_quotes v @ [DQUOTE]"
    using ows_trim.trim_plain_ends [OF value_text_plain_ends [of v]] True by (simp add: value_text_def)
  show ?thesis
    using True parse_escape_quotable [OF q, of "[]"] unfolding accept_parse_param_value_def value_text_def
    by (simp add: t strip_prefix_def starts_with_def)
next
  case False
  then have v: "is_valid_token v" by (simp add: not_needs_quoting)
  then obtain c w where "v = c # w" "is_token_char c" by (cases v) (auto simp: is_valid_token_def)
  then have "\<not> starts_with v [DQUOTE]" using token_not_ows [of c] by (simp add: starts_with_def)
  with v False show ?thesis by (simp add: accept_parse_param_value_def value_text_def strip_prefix_def token_trim_ows)
qed

lemma accept_value_quotable:
  assumes "accept_parse_param_value s = Ok v" "valid_utf8 s"
  shows "quotable v"
proof (cases "starts_with (trim_ows s) [DQUOTE]")
  case True
  then obtain t where t: "trim_ows s = DQUOTE # t" by (cases "trim_ows s") (auto simp: starts_with_def)
  then have "valid_utf8 t" using valid_utf8_trim_ows [OF assms(2)] by (simp add: valid_utf8_Cons_ascii)
  moreover obtain r where "parse_quoted_string t = Ok (v, r)"
    using assms(1) t by (auto simp: accept_parse_param_value_def Let_def strip_prefix_def starts_with_def map_err_Ok_iff elim!: resultE)
  ultimately show ?thesis using parse_quoted_string_valid by blast
next
  case False
  then have "is_valid_token v" using assms(1) by (auto simp: accept_parse_param_value_def Let_def strip_prefix_def elim!: resultE)
  then show ?thesis by (simp add: is_valid_token_def token_quotable)
qed

lemma value_text_neutral_both:
  assumes "quotable v" "d = CHR '','' \<or> d = CHR '';''"
  shows "quote_neutral d (value_text v)"
  using assms quote_neutral_quoted [of v d] token_neutral [of v d]
  by (auto simp: value_text_def quotable_def not_needs_quoting)

text \<open>A parameter without the semicolon before it.\<close>

definition param_piece :: "string \<times> string \<Rightarrow> string" where
  "param_piece p = SP # fst p @ CHR ''='' # value_text (snd p)"

definition mr_param_ok :: "string \<times> string \<Rightarrow> bool" where
  "mr_param_ok p \<longleftrightarrow> lower_token (fst p) \<and> fst p \<noteq> ''q'' \<and> quotable (snd p)"

definition media_range_ok :: "MediaRange \<Rightarrow> bool" where
  "media_range_ok m \<longleftrightarrow>
     (mr_media_type m = ''*'' \<and> mr_subtype m = ''*''
      \<or> mr_media_type m \<noteq> ''*'' \<and> lower_token (mr_media_type m) \<and> lower_token (mr_subtype m))
     \<and> list_all mr_param_ok (mr_parameters m) \<and> mr_q m \<le> 1000"

lemma mr_parameter_display_eq: "mr_parameter_display p = CHR '';'' # param_piece p"
  by (cases p) (simp add: mr_parameter_display_def param_piece_def value_text_def accept_needs_quoting_eq)

lemma param_piece_neutral:
  assumes "mr_param_ok p" "d = CHR '','' \<or> d = CHR '';''"
  shows "quote_neutral d (param_piece p)"
proof -
  have n: "quote_neutral d [SP]" "quote_neutral d [CHR ''='']" using neutral_sep assms(2) by auto
  have "quote_neutral d (fst p)" using token_neutral assms by (auto simp: mr_param_ok_def lower_token_def)
  moreover have "quote_neutral d (value_text (snd p))" using value_text_neutral_both assms by (auto simp: mr_param_ok_def)
  ultimately show ?thesis
    unfolding param_piece_def by (intro neutral_Cons [OF n(1)] quote_neutral_append neutral_Cons [OF n(2)])
qed

lemma split_pieces:
  assumes "quote_neutral CHR '';'' a" "\<forall>p \<in> set ps. quote_neutral CHR '';'' p"
  shows "split_with_quotes (a @ concat (map (\<lambda>p. CHR '';'' # p) ps)) CHR '';'' = a # ps"
  using assms
proof (induction ps arbitrary: a)
  case (Cons p ps)
  then show ?case using split_with_quotes_neutral(2) [OF Cons.prems(1), of "p @ concat (map (\<lambda>p. CHR '';'' # p) ps)"] by simp
qed (simp add: split_with_quotes_neutral)

lemma media_params_pieces:
  "list_all mr_param_ok ps \<Longrightarrow> media_params (map param_piece ps @ rest) acc q b = media_params rest (acc @ ps) q b"
proof (induction ps arbitrary: acc)
  case (Cons p ps)
  obtain n v where p: "p = (n, v)" by (cases p)
  have ok: "is_valid_token n" "to_ascii_lowercase n = n" "n \<noteq> ''q''" "quotable v"
    using Cons.prems p by (auto simp: mr_param_ok_def lower_token_def)
  have "plain_ends (n @ CHR ''='' # value_text v)"
    using plain_ends_token [OF ok(1)] value_text_plain_ends [of v] by (auto simp: plain_ends_def)
  then have t: "trim_ows (param_piece p) = n @ CHR ''='' # value_text v" using p plain_ends_SP by (simp add: param_piece_def)
  have s: "split_once CHR ''='' (n @ CHR ''='' # value_text v) = Some (n, value_text v)"
    by (rule split_once_mid [OF token_no_eq [OF ok(1)]])
  show ?case
    using Cons p t s ok accept_parse_value_text [OF ok(4)] token_trim_ows [OF ok(1)] by simp
qed simp

lemma parse_media_range_ok:
  assumes "parse_media_range s = Ok (t, u)"
  shows "t = ''*'' \<and> u = ''*'' \<or> t \<noteq> ''*'' \<and> lower_token t \<and> lower_token u"
proof (cases "trim_ows s = ''*/*''")
  case True
  then show ?thesis using assms by (auto simp: parse_media_range_def)
next
  case False
  then obtain a b where r: "(if trim_ows a = ''*'' then reject_if (trim_ows b \<noteq> ''*'') ACInvalidMediaRange (Ok (''*'', ''*''))
      else if trim_ows b = ''*'' then reject_if (\<not> is_valid_token (trim_ows a)) ACInvalidMediaRange (Ok (to_ascii_lowercase (trim_ows a), ''*''))
      else reject_if (\<not> is_valid_token (trim_ows a) \<or> \<not> is_valid_token (trim_ows b)) ACInvalidMediaRange
             (Ok (to_ascii_lowercase (trim_ows a), to_ascii_lowercase (trim_ows b)))) = Ok (t, u)"
    using assms unfolding parse_media_range_def Let_def by (auto elim!: resultE)
  have star: "lower_token ''*''" using star_token lower_star [of "''*''"] by (simp add: lower_token_def)
  show ?thesis
  proof (cases "trim_ows a = ''*''")
    case True
    then show ?thesis using r by (auto elim!: resultE)
  next
    case False
    then have "t = to_ascii_lowercase (trim_ows a)" "is_valid_token (trim_ows a)"
      "u = ''*'' \<or> is_valid_token (trim_ows b) \<and> u = to_ascii_lowercase (trim_ows b)"
      using r by (auto elim!: resultE split: if_splits)
    then show ?thesis using False star lower_tokenI lower_star by metis
  qed
qed

lemma parse_media_range_shown:
  assumes "t = ''*'' \<and> u = ''*'' \<or> t \<noteq> ''*'' \<and> lower_token t \<and> lower_token u"
  shows "parse_media_range (t @ CHR ''/'' # u) = Ok (t, u)" "is_valid_token t" "is_valid_token u"
proof -
  have tk: "is_valid_token t" "is_valid_token u" using assms star_token by (auto simp: lower_token_def)
  then show "is_valid_token t" "is_valid_token u" by auto
  have tr: "trim_ows (t @ CHR ''/'' # u) = t @ CHR ''/'' # u"
    using plain_ends_token [OF tk(1)] plain_ends_token [OF tk(2)] by (intro ows_trim.trim_plain_ends) (simp add: plain_ends_def)
  have s: "split_once CHR ''/'' (t @ CHR ''/'' # u) = Some (t, u)" by (rule split_once_mid [OF token_no_slash [OF tk(1)]])
  show "parse_media_range (t @ CHR ''/'' # u) = Ok (t, u)"
  proof (cases "t @ CHR ''/'' # u = ''*/*''")
    case True
    then have "t = ''*''" "u = ''*''" using s split_once_mid [of "CHR ''/''" "''*''" "''*''"] by simp_all
    with tr True show ?thesis by (simp add: parse_media_range_def)
  next
    case False
    then have "t \<noteq> ''*'' \<and> to_ascii_lowercase t = t \<and> to_ascii_lowercase u = u" using assms by (auto simp: lower_token_def)
    with False show ?thesis using tk token_trim_ows by (simp add: parse_media_range_def tr s Let_def)
  qed
qed

lemma media_params_ok:
  assumes "media_params ps acc q b = Ok (xs, q')" "\<forall>p \<in> set ps. valid_utf8 p" "q \<le> 1000"
    "\<forall>p \<in> set acc. to_ascii_lowercase (fst p) = fst p \<and> fst p \<noteq> ''q'' \<and> quotable (snd p)"
  shows "(\<forall>p \<in> set xs. to_ascii_lowercase (fst p) = fst p \<and> fst p \<noteq> ''q'' \<and> quotable (snd p)) \<and> q' \<le> 1000"
  using assms
proof (induction ps arbitrary: acc q b)
  case (Cons p ps)
  show ?case
  proof (cases "trim_ows p = []")
    case True
    then have "media_params ps acc q b = Ok (xs, q')" "\<forall>p \<in> set ps. valid_utf8 p" using Cons.prems(1,2) by simp_all
    then show ?thesis by (rule Cons.IH [OF _ _ Cons.prems(3,4)])
  next
    case False
    obtain n w v where s: "split_once CHR ''='' (trim_ows p) = Some (n, w)" "accept_parse_param_value w = Ok v"
      and r: "if to_ascii_lowercase (trim_ows n) = ''q'' then \<exists>q1. QValue_parse v = Ok q1 \<and> media_params ps acc q1 True = Ok (xs, q')
        else media_params ps (acc @ [(to_ascii_lowercase (trim_ows n), v)]) q b = Ok (xs, q')"
      using Cons.prems(1) False by (auto simp: Let_def elim!: resultE split: if_splits)
    have "valid_utf8 w" using split_once_valid [OF s(1) valid_utf8_trim_ows] Cons.prems(2) by simp
    then have "quotable v" using accept_value_quotable [OF s(2)] by blast
    then have acc: "\<forall>p \<in> set (acc @ [(to_ascii_lowercase (trim_ows n), v)]). to_ascii_lowercase (fst p) = fst p \<and> fst p \<noteq> ''q'' \<and> quotable (snd p)"
      if "to_ascii_lowercase (trim_ows n) \<noteq> ''q''" using that Cons.prems(4) by simp
    have ps: "\<forall>p \<in> set ps. valid_utf8 p" using Cons.prems(2) by simp
    show ?thesis
    proof (cases "to_ascii_lowercase (trim_ows n) = ''q''")
      case True
      then obtain q1 where q1: "QValue_parse v = Ok q1" "media_params ps acc q1 True = Ok (xs, q')" using r by auto
      show ?thesis by (rule Cons.IH [OF q1(2) ps QValue_parse_le [OF q1(1)] Cons.prems(4)])
    next
      case False
      then have "media_params ps (acc @ [(to_ascii_lowercase (trim_ows n), v)]) q b = Ok (xs, q')" using r by simp
      from Cons.IH [OF this ps Cons.prems(3) acc [OF False]] show ?thesis .
    qed
  qed
qed simp

lemma media_range_parsed:
  assumes "parse_media_range_item s = Ok m" "valid_utf8 s" "\<forall>p \<in> set (mr_parameters m). is_valid_token (fst p)"
  shows "media_range_ok m"
proof -
  let ?ps = "split_with_quotes s CHR '';''"
  obtain t u ps q where r: "parse_media_range (str_trim (hd ?ps)) = Ok (t, u)"
    "media_params (tl ?ps) [] QValue_default False = Ok (ps, q)"
    "m = \<lparr>mr_media_type = t, mr_subtype = u, mr_parameters = ps, mr_q = q\<rparr>"
    using assms(1) by (auto simp: parse_media_range_item_def Let_def elim!: resultE)
  have "\<forall>p \<in> set (tl ?ps). valid_utf8 p"
    using valid_utf8_split_with_quotes [OF assms(2), of _ "CHR '';''"] by (cases ?ps) auto
  from media_params_ok [OF r(2) this] r(3) assms(3) parse_media_range_ok [OF r(1)]
  show ?thesis by (auto simp: media_range_ok_def list_all_iff mr_param_ok_def lower_token_def QValue_default_def)
qed

text \<open>The pieces of a printed media range, and the range read back from them.\<close>

lemma MediaRange_display_eq:
  "MediaRange_display m = (mr_media_type m @ CHR ''/'' # mr_subtype m)
     @ concat (map (\<lambda>p. CHR '';'' # p) (map param_piece (mr_parameters m) @ (if mr_q m < 1000 then [SP # q_param (mr_q m)] else [])))"
  by (simp add: MediaRange_display_def mr_parameter_display_eq [abs_def] comp_def q_param_def)

lemma joined_pieces:
  "plain_ends a \<Longrightarrow> \<forall>p \<in> set ps. p \<noteq> [] \<and> plain (last p) \<Longrightarrow> plain_ends (a @ concat (map (\<lambda>p. CHR '';'' # p) ps))"
  "quote_neutral CHR '','' a \<Longrightarrow> \<forall>p \<in> set ps. quote_neutral CHR '','' p \<Longrightarrow>
     quote_neutral CHR '','' (a @ concat (map (\<lambda>p. CHR '';'' # p) ps))"
proof -
  show "plain_ends a \<Longrightarrow> \<forall>p \<in> set ps. p \<noteq> [] \<and> plain (last p) \<Longrightarrow> plain_ends (a @ concat (map (\<lambda>p. CHR '';'' # p) ps))"
  proof (induction ps arbitrary: a)
    case (Cons p ps)
    then have "plain_ends (a @ CHR '';'' # p)" by (simp add: plain_ends_def)
    from Cons.IH [OF this] Cons.prems(2) show ?case by simp
  qed simp
  show "quote_neutral CHR '','' a \<Longrightarrow> \<forall>p \<in> set ps. quote_neutral CHR '','' p \<Longrightarrow>
     quote_neutral CHR '','' (a @ concat (map (\<lambda>p. CHR '';'' # p) ps))"
  proof (induction ps arbitrary: a)
    case (Cons p ps)
    then have "quote_neutral CHR '','' (a @ CHR '';'' # p)"
      by (intro quote_neutral_append neutral_Cons [OF neutral_sep(1)]) auto
    from Cons.IH [OF this] Cons.prems(2) show ?case by simp
  qed simp
qed

interpretation media_ranges: list_printer trim_ows "\<lambda>s. split_with_quotes s CHR '',''" "quote_neutral CHR '',''"
  parse_media_range_item MediaRange_display media_range_ok
proof
  fix m
  assume ok: "media_range_ok m"
  obtain t u ps q where m: "m = \<lparr>mr_media_type = t, mr_subtype = u, mr_parameters = ps, mr_q = q\<rparr>" by (cases m)
  have tu: "parse_media_range (t @ CHR ''/'' # u) = Ok (t, u)" "is_valid_token t" "is_valid_token u"
    and ps: "list_all mr_param_ok ps" and q: "q \<le> 1000"
    using ok m parse_media_range_shown [of t u] by (auto simp: media_range_ok_def)
  let ?w = "if q < 1000 then [SP # q_param q] else []"
  have d: "MediaRange_display m = (t @ CHR ''/'' # u) @ concat (map (\<lambda>p. CHR '';'' # p) (map param_piece ps @ ?w))"
    unfolding MediaRange_display_eq m by simp
  have pieces: "quote_neutral d p" if "p \<in> set (map param_piece ps @ ?w)" "d = CHR '','' \<or> d = CHR '';''" for p d
    using that param_piece_neutral q_param_neutral [OF q] ps by (auto simp: list_all_iff split: if_splits)
  have tn: "quote_neutral d (t @ CHR ''/'' # u)" if "d = CHR '','' \<or> d = CHR '';''" for d
  proof -
    have "quote_neutral d [CHR ''/'']" using neutral_sep that by auto
    then show ?thesis using token_neutral [OF tu(2) that] token_neutral [OF tu(3) that] neutral_Cons quote_neutral_append by blast
  qed
  have te: "plain_ends (t @ CHR ''/'' # u)" using plain_ends_token [OF tu(2)] plain_ends_token [OF tu(3)] by (simp add: plain_ends_def)
  have w: "media_params (map param_piece ps @ ?w) [] QValue_default False = Ok (ps, q)"
  proof (cases "q < 1000")
    case True
    have t: "is_valid_token (QValue_display q)" by (rule QValue_display_token [OF q])
    then have "\<not> needs_quoting (QValue_display q)" by (simp only: not_needs_quoting)
    then have "value_text (QValue_display q) = QValue_display q" by (simp add: value_text_def)
    then have "accept_parse_param_value (QValue_display q) = Ok (QValue_display q)"
      using accept_parse_value_text [of "QValue_display q"] t token_quotable by (simp add: is_valid_token_def)
    then show ?thesis
      using True media_params_pieces [OF ps, of ?w "[]"] trim_q_param [OF q] q_param_split [of q] QValue_parse_display [OF q] token_trim_ows [of "''q''"]
      by (simp add: is_valid_token_def is_token_char_def to_ascii_lowercase_def ascii_lower_def)
  next
    case False
    then show ?thesis using media_params_pieces [OF ps, of ?w "[]"] q by (simp add: QValue_default_def)
  qed
  have sp: "split_with_quotes (MediaRange_display m) CHR '';'' = (t @ CHR ''/'' # u) # map param_piece ps @ ?w"
    unfolding d by (rule split_pieces) (use tn pieces in blast)+
  show "parse_media_range_item (MediaRange_display m) = Ok m"
    unfolding parse_media_range_item_def Let_def sp list.sel using str_trim.trim_plain_ends [OF te] tu(1) w m by simp
  have "p \<noteq> [] \<and> plain (last p)" if "p \<in> set (map param_piece ps @ ?w)" for p
    using that q_param_ends [OF q] value_text_ends by (auto simp: param_piece_def plain_ends_def split: if_splits)
  then show "plain_ends (MediaRange_display m)" unfolding d using joined_pieces(1) [OF te] by blast
  show "quote_neutral CHR '','' (MediaRange_display m)" unfolding d using joined_pieces(2) tn pieces by blast
qed

lemma Accept_roundtrip:
  assumes "valid_utf8 s" "Accept_parse s = Ok a"
    "\<forall>m \<in> set (ac_items a). \<forall>p \<in> set (mr_parameters m). is_valid_token (fst p)"
  shows "Accept_parse (Accept_display a) = Ok a"
proof -
  have l: "list_items trim_ows parse_media_range_item (split_with_quotes (trim_ows t) CHR '','') [] =
      (if trim_ows t \<noteq> [] then list_items trim_ows parse_media_range_item (split_with_quotes (trim_ows t) CHR '','') [] else Ok [])" for t
    using quote_split.split_Nil by simp
  obtain xs where xs: "list_items trim_ows parse_media_range_item (split_with_quotes (trim_ows s) CHR '','') [] = Ok xs" "a = \<lparr>ac_items = xs\<rparr>"
    using assms(2) unfolding Accept_parse_def Let_def l [symmetric] by (auto elim!: resultE)
  have "media_range_ok m" if mx: "m \<in> set xs" for m
  proof -
    obtain p where "p \<in> set (split_with_quotes (trim_ows s) CHR '','')" "parse_media_range_item (trim_ows p) = Ok m"
      using list_items_elems [OF xs(1) mx] by auto
    moreover have "valid_utf8 (trim_ows p)"
      by (rule valid_utf8_trim_ows [OF valid_utf8_split_with_quotes [OF valid_utf8_trim_ows [OF assms(1)] calculation(1)]])
    ultimately show ?thesis using media_range_parsed [of "trim_ows p" m] assms(3) xs(2) mx by auto
  qed
  then have "list_all media_range_ok xs" by (simp add: list_all_iff)
  with media_ranges.trim_joined media_ranges.parse_shown xs(2) show ?thesis
    unfolding Accept_parse_def Let_def l [symmetric] Accept_display_def by simp
qed

text \<open>
  Without the condition on the names the printed form can be lost: the parser takes \<open>x"y\<close> as a
  parameter name, and printing moves the quality value behind its open quote.
\<close>

lemma accept_parameter_name_not_kept:
  "\<exists>a. Accept_parse ''a/b; q=0.5; x\"y=1'' = Ok a \<and> Accept_parse (Accept_display a) \<noteq> Ok a"
proof -
  let ?a = "\<lparr>ac_items = [\<lparr>mr_media_type = ''a'', mr_subtype = ''b'', mr_parameters = [(''x\"y'', ''1'')], mr_q = 500\<rparr>]\<rparr>"
  have "Accept_parse ''a/b; q=0.5; x\"y=1'' = Ok ?a" "Accept_parse (Accept_display ?a) \<noteq> Ok ?a" by code_simp+
  then show ?thesis by blast
qed

text \<open>
  C22. The Accept headers survive printing and parsing: ranges, parameters with quoted values, and
  quality values in thousandths. For Accept the parameter names have to be tokens, which the parser
  does not check.
\<close>

theorem accept_roundtrip:
  assumes "valid_utf8 s"
  shows "(\<forall>a. Accept_parse s = Ok a \<and> (\<forall>m \<in> set (ac_items a). \<forall>p \<in> set (mr_parameters m). is_valid_token (fst p)) \<longrightarrow>
        Accept_parse (Accept_display a) = Ok a)
    \<and> (\<forall>a. AcceptCharset_parse s = Ok a \<longrightarrow> AcceptCharset_parse (AcceptCharset_display a) = Ok a)
    \<and> (\<forall>a. AcceptEncoding_parse s = Ok a \<longrightarrow> AcceptEncoding_parse (AcceptEncoding_display a) = Ok a)
    \<and> (\<forall>a. AcceptLanguage_parse s = Ok a \<longrightarrow> AcceptLanguage_parse (AcceptLanguage_display a) = Ok a)
    \<and> (\<forall>q. QValue_parse s = Ok q \<longrightarrow> q \<le> 1000 \<and> QValue_parse (QValue_display q) = Ok q)"
  using Accept_roundtrip [OF assms] AcceptCharset_roundtrip [OF assms] AcceptEncoding_roundtrip [OF assms]
    AcceptLanguage_roundtrip [OF assms] QValue_parse_le QValue_parse_display by blast

theorem accept_roundtrip_witness:
  "(let a = \<lparr>ac_items = [\<lparr>mr_media_type = ''a'', mr_subtype = ''*'', mr_parameters = [(''l'', ''x y'')], mr_q = 50\<rparr>]\<rparr>
     in Accept_parse ''A/*; q=0.050 ;L=\"x y\"'' = Ok a \<and> Accept_parse (Accept_display a) = Ok a)
   \<and> (let a = \<lparr>aen_items = [\<lparr>er_coding = ''gzip'', er_q = 1000\<rparr>, \<lparr>er_coding = ''*'', er_q = 0\<rparr>]\<rparr>
     in AcceptEncoding_parse ''GZIP, *;q=0'' = Ok a \<and> AcceptEncoding_parse (AcceptEncoding_display a) = Ok a)"
proof -
  let ?a = "\<lparr>ac_items = [\<lparr>mr_media_type = ''a'', mr_subtype = ''*'', mr_parameters = [(''l'', ''x y'')], mr_q = 50\<rparr>]\<rparr>"
  have v: "valid_utf8 ''A/*; q=0.050 ;L=\"x y\"''" "valid_utf8 ''GZIP, *;q=0''" by code_simp+
  have p: "Accept_parse ''A/*; q=0.050 ;L=\"x y\"'' = Ok ?a" by code_simp
  have e: "AcceptEncoding_parse ''GZIP, *;q=0'' = Ok \<lparr>aen_items = [\<lparr>er_coding = ''gzip'', er_q = 1000\<rparr>, \<lparr>er_coding = ''*'', er_q = 0\<rparr>]\<rparr>"
    by code_simp
  have n: "\<forall>m \<in> set (ac_items ?a). \<forall>p \<in> set (mr_parameters m). is_valid_token (fst p)" by code_simp
  show ?thesis unfolding Let_def using p e n accept_roundtrip [OF v(1)] accept_roundtrip [OF v(2)] by blast
qed

end
