(* ===== verification/Content_Location.thy ===== *)
theory Content_Location
  imports Uri Str_Valid
begin

text \<open>
  \<^verbatim>\<open>src/content_location.rs\<close>: the Content-Location header, a URI reference without a fragment
  whose host is not empty if its scheme is http or https.
\<close>

datatype ContentLocationError = CLocEmpty | CLocInvalidUri | CLocFragmentNotAllowed

fun ContentLocationError_display :: "ContentLocationError \<Rightarrow> string" where
  "ContentLocationError_display CLocEmpty = ''empty Content-Location''"
| "ContentLocationError_display CLocInvalidUri = ''invalid Content-Location URI''"
| "ContentLocationError_display CLocFragmentNotAllowed = ''Content-Location must not contain a fragment''"

record ContentLocation =
  cloc_uri :: Uri

definition empty_http_host :: "Uri \<Rightarrow> bool" where
  "empty_http_host uri =
     (case u_scheme uri of
        Some scheme \<Rightarrow>
          (eq_ignore_ascii_case scheme ''http'' \<or> eq_ignore_ascii_case scheme ''https'')
          \<and> opt_all (\<lambda>h. h = []) (u_host uri)
      | None \<Rightarrow> False)"

definition ContentLocation_parse :: "string \<Rightarrow> (ContentLocation, ContentLocationError) result" where
  "ContentLocation_parse s =
     (let input = str_trim s
      in reject_if (input = []) CLocEmpty
           (and_then (map_err (\<lambda>_. CLocInvalidUri) (Uri_parse input)) (\<lambda>uri.
              reject_if (empty_http_host uri) CLocInvalidUri
                (reject_if (u_fragment uri \<noteq> None) CLocFragmentNotAllowed (Ok \<lparr>cloc_uri = uri\<rparr>)))))"

definition ContentLocation_display :: "ContentLocation \<Rightarrow> string" where
  "ContentLocation_display c = u_source (cloc_uri c)"

lemma Uri_parse_source: "Uri_parse s = Ok u \<Longrightarrow> u_source u = s"
  by (auto simp: Uri_parse_def Let_def elim!: resultE split: if_splits prod.splits)

lemma ContentLocation_roundtrip:
  assumes "valid_utf8 s" "ContentLocation_parse s = Ok c"
  shows "ContentLocation_parse (ContentLocation_display c) = Ok c"
proof -
  obtain u where u: "Uri_parse (str_trim s) = Ok u" "c = \<lparr>cloc_uri = u\<rparr>"
    using assms(2) by (auto simp: ContentLocation_parse_def Let_def map_err_Ok_iff elim!: resultE)
  then have "ContentLocation_display c = str_trim s" using Uri_parse_source by (simp add: ContentLocation_display_def)
  with assms(2) str_trim_idem [OF assms(1)] show ?thesis by (simp add: ContentLocation_parse_def)
qed

lemma ContentLocation_no_fragment: "ContentLocation_parse s = Ok c \<Longrightarrow> u_fragment (cloc_uri c) = None \<and> \<not> empty_http_host (cloc_uri c)"
  by (auto simp: ContentLocation_parse_def Let_def elim!: resultE)

end
