(* ===== verification/Uri_Recompose.thy ===== *)
theory Uri_Recompose
  imports Content_Location
begin

text \<open>
  The components that \<open>Uri_parse\<close> records are the ones of RFC 3986: put together again in the way
  of Section 5.3 they give the parsed text, and each ends at the delimiter that the regular
  expression of Appendix B names.
\<close>

section \<open>Cutting at a delimiter\<close>

lemma find_end_cut:
  assumes "pos \<le> length s"
  shows "slice s pos (find_end p s pos) = takeWhile (\<lambda>c. \<not> p c) (drop pos s)"
    "drop (find_end p s pos) s = dropWhile (\<lambda>c. \<not> p c) (drop pos s)"
    "find_end p s pos \<le> length s"
proof -
  let ?d = "drop pos s"
  have e: "find_end p s pos = pos + length (takeWhile (\<lambda>c. \<not> p c) ?d)"
  proof (cases "position p ?d")
    case None
    then have "\<forall>c \<in> set ?d. \<not> p c" by (simp add: position_None_iff)
    then have t: "takeWhile (\<lambda>c. \<not> p c) ?d = ?d" by (simp add: takeWhile_eq_all_conv)
    show ?thesis using None assms by (simp add: find_end_def t)
  next
    case (Some i)
    obtain ys x zs where "?d = ys @ x # zs" "length ys = i" "p x" "\<forall>y \<in> set ys. \<not> p y"
      using position_Some_split [OF Some] by blast
    then have "length (takeWhile (\<lambda>c. \<not> p c) ?d) = i" by simp
    with Some show ?thesis by (simp add: find_end_def)
  qed
  show "slice s pos (find_end p s pos) = takeWhile (\<lambda>c. \<not> p c) ?d"
    unfolding e slice_def by (simp add: takeWhile_eq_take [symmetric])
  show "drop (find_end p s pos) s = dropWhile (\<lambda>c. \<not> p c) ?d"
    unfolding e by (metis add.commute drop_drop dropWhile_eq_drop)
  have "length (takeWhile (\<lambda>c. \<not> p c) ?d) \<le> length ?d" by (rule length_takeWhile_le)
  then show "find_end p s pos \<le> length s" unfolding e using assms by simp
qed

lemma at_byte_drop: "at_byte s pos c \<longleftrightarrow> (\<exists>r. drop pos s = c # r)"
proof
  assume "at_byte s pos c"
  then show "\<exists>r. drop pos s = c # r" using Cons_nth_drop_Suc [of pos s] by (auto simp: at_byte_def intro: sym)
next
  assume "\<exists>r. drop pos s = c # r"
  then show "at_byte s pos c"
    by (metis at_byte_def drop_all list.distinct(1) not_less nth_via_drop)
qed

lemma drop_Suc_Cons: "drop n s = c # r \<Longrightarrow> drop (Suc n) s = r"
  by (metis drop_Suc list.sel(3) tl_drop)

lemma dropWhile_first: "dropWhile p s = [] \<or> (\<exists>c r. dropWhile p s = c # r \<and> \<not> p c)"
  by (cases "dropWhile p s") (auto simp: dropWhile_eq_Cons_conv)

section \<open>Recomposition\<close>

definition scheme_text :: "string option \<Rightarrow> string" where
  "scheme_text x = (case x of Some e \<Rightarrow> e @ '':'' | None \<Rightarrow> [])"

definition authority_text :: "string option \<Rightarrow> string" where
  "authority_text x = (case x of Some a \<Rightarrow> ''//'' @ a | None \<Rightarrow> [])"

definition query_text :: "string option \<Rightarrow> string" where
  "query_text x = (case x of Some q \<Rightarrow> ''?'' @ q | None \<Rightarrow> [])"

definition fragment_text :: "string option \<Rightarrow> string" where
  "fragment_text x = (case x of Some f \<Rightarrow> ''#'' @ f | None \<Rightarrow> [])"

definition uri_recompose :: "Uri \<Rightarrow> string" where
  "uri_recompose u = scheme_text (u_scheme u) @ authority_text (u_authority u) @ u_path u
     @ query_text (u_query u) @ fragment_text (u_fragment u)"

lemma find_scheme_end_loop_cut:
  "find_scheme_end_loop bs i = Some k \<Longrightarrow>
     i \<le> k \<and> 0 < k \<and> k < i + length bs \<and> bs = take (k - i) bs @ CHR '':'' # drop (Suc k - i) bs \<and> list_all is_scheme_char (take (k - i) bs)"
proof (induction bs arbitrary: i)
  case (Cons b bs)
  show ?case
  proof (cases "b = CHR '':''")
    case True
    then show ?thesis using Cons.prems by (auto split: if_splits)
  next
    case False
    then have b: "is_scheme_char b" "find_scheme_end_loop bs (Suc i) = Some k" using Cons.prems by (auto split: if_splits)
    obtain j where j: "k = Suc (i + j)" using Cons.IH [OF b(2)] by (metis add_Suc le_Suc_ex)
    show ?thesis using Cons.IH [OF b(2)] b(1) j by (simp add: Suc_diff_le)
  qed
qed simp

lemma parse_scheme_cut:
  assumes "parse_scheme s = Ok (e, pos)"
  shows "pos \<le> length s" "s = scheme_text (map_option (\<lambda>k. take k s) e) @ drop pos s"
    "e = Some k \<Longrightarrow> list_all is_scheme_char (take k s)"
proof -
  have c: "e = None \<and> pos = 0 \<or> (\<exists>k. e = Some k \<and> pos = k + 1 \<and> find_scheme_end_loop s 0 = Some k)"
    using assms by (auto simp: parse_scheme_def find_scheme_end_def elim!: resultE split: option.splits)
  then show "s = scheme_text (map_option (\<lambda>k. take k s) e) @ drop pos s"
    using find_scheme_end_loop_cut [of s 0] by (auto simp: scheme_text_def)
  show "pos \<le> length s" using c find_scheme_end_loop_cut [of s 0] by fastforce
  show "e = Some k \<Longrightarrow> list_all is_scheme_char (take k s)"
    using c find_scheme_end_loop_cut [of s 0 k] by auto
qed

text \<open>What the authority parser leaves between two positions.\<close>

definition authority_cut :: "string \<Rightarrow> nat \<Rightarrow> nat option \<Rightarrow> nat option \<Rightarrow> nat \<Rightarrow> bool" where
  "authority_cut s pos a e pos' =
    (case (a, e) of
      (Some i, Some j) \<Rightarrow> drop pos s = ''//'' @ slice s i j @ drop pos' s
        \<and> list_all (\<lambda>c. c \<noteq> CHR ''/'' \<and> c \<noteq> CHR ''?'' \<and> c \<noteq> CHR ''#'') (slice s i j)
        \<and> (drop pos' s = [] \<or> hd (drop pos' s) \<in> {CHR ''/'', CHR ''?'', CHR ''#''})
    | (None, None) \<Rightarrow> drop pos' s = drop pos s \<and> \<not> starts_with (drop pos s) ''//''
    | _ \<Rightarrow> False)"

lemma parse_authority_cut:
  assumes "parse_authority_at s pos = Ok (a, e, h, p, pos')" "pos \<le> length s"
  shows "pos' \<le> length s" "authority_cut s pos a e pos'"
proof -
  let ?stop = "\<lambda>b. b = CHR ''/'' \<or> b = CHR ''?'' \<or> b = CHR ''#''"
  have "pos' \<le> length s \<and> authority_cut s pos a e pos'"
  proof (cases "at_byte s pos CHR ''/'' \<and> at_byte s (pos + 1) CHR ''/''")
    case True
    then obtain r0 r where "drop pos s = CHR ''/'' # r0" "drop (Suc pos) s = CHR ''/'' # r" by (auto simp: at_byte_drop)
    then have r: "drop pos s = CHR ''/'' # CHR ''/'' # r" using drop_Suc_Cons [of pos s "CHR ''/''" r0] by simp
    then have d: "drop (pos + 2) s = r" by (metis add_2_eq_Suc' drop_Suc_Cons)
    have l: "pos + 2 \<le> length s" using arg_cong [OF r, of length] assms(2) by simp
    note cut = find_end_cut [OF l, of ?stop]
    have e: "a = Some (pos + 2)" "e = Some pos'" "pos' = find_end ?stop s (pos + 2)"
      using assms(1) True by (auto simp: parse_authority_at_def Let_def elim!: resultE)
    obtain t w where tw: "t = takeWhile (\<lambda>c. \<not> ?stop c) r" "w = dropWhile (\<lambda>c. \<not> ?stop c) r" by blast
    have "slice s (pos + 2) pos' = t" "drop pos' s = w" "pos' \<le> length s" using cut e(3) d tw by simp_all
    moreover have "r = t @ w" unfolding tw by simp
    moreover have "list_all (\<lambda>c. \<not> ?stop c) t" unfolding tw by (auto simp: list_all_iff dest: set_takeWhileD)
    moreover have "w = [] \<or> ?stop (hd w)" unfolding tw using dropWhile_first [of "\<lambda>c. \<not> ?stop c" r] by auto
    ultimately show ?thesis using e(1,2) r by (simp add: authority_cut_def)
  next
    case False
    have "at_byte s pos CHR ''/'' \<and> at_byte s (pos + 1) CHR ''/''" if st: "starts_with (drop pos s) ''//''"
    proof -
      have d: "drop pos s = CHR ''/'' # CHR ''/'' # drop 2 (drop pos s)" using starts_withE [OF st] by simp
      then show ?thesis using drop_Suc_Cons [OF d] unfolding at_byte_drop by (metis Suc_eq_plus1)
    qed
    with False have "\<not> starts_with (drop pos s) ''//''" by blast
    with False show ?thesis using assms by (auto simp: parse_authority_at_def authority_cut_def split: if_splits)
  qed
  then show "pos' \<le> length s" "authority_cut s pos a e pos'" by auto
qed

text \<open>The rest of the text after the authority: path, query and fragment.\<close>

lemma rest_cut:
  assumes "pos \<le> length s"
    and "pe = find_end (\<lambda>b. b = CHR ''?'' \<or> b = CHR ''#'') s pos"
    and "(qs, qe, pos3) = (if at_byte s pe CHR ''?'' then
           (let start = pe + 1; stop = find_end (\<lambda>b. b = CHR ''#'') s start in (Some start, Some stop, stop))
         else (None, None, pe))"
    and "fs = (if at_byte s pos3 CHR ''#'' then Some (pos3 + 1) else None)"
    and "q = (case (qs, qe) of (Some start, Some stop) \<Rightarrow> Some (slice s start stop) | _ \<Rightarrow> None)"
  shows "drop pos s = slice s pos pe @ query_text q @ fragment_text (map_option (\<lambda>i. drop i s) fs)"
    and "list_all (\<lambda>c. c \<noteq> CHR ''?'' \<and> c \<noteq> CHR ''#'') (slice s pos pe)"
    and "slice s pos pe = takeWhile (\<lambda>c. c \<noteq> CHR ''?'' \<and> c \<noteq> CHR ''#'') (drop pos s)"
    and "opt_all (list_all (\<lambda>c. c \<noteq> CHR ''#'')) q"
proof -
  let ?n = "\<lambda>c. c \<noteq> CHR ''?'' \<and> c \<noteq> CHR ''#''"
  have p: "slice s pos pe = takeWhile ?n (drop pos s)" "drop pe s = dropWhile ?n (drop pos s)" "pe \<le> length s"
    using find_end_cut [OF assms(1), of "\<lambda>b. b = CHR ''?'' \<or> b = CHR ''#''"] assms(2) by simp_all
  show "slice s pos pe = takeWhile ?n (drop pos s)" by (fact p(1))
  then show "list_all ?n (slice s pos pe)" by (auto simp: list_all_iff dest: set_takeWhileD)
  have "drop pe s = query_text q @ fragment_text (map_option (\<lambda>i. drop i s) fs) \<and> opt_all (list_all (\<lambda>c. c \<noteq> CHR ''#'')) q"
  proof (cases "at_byte s pe CHR ''?''")
    case True
    then obtain r where r: "drop pe s = CHR ''?'' # r" by (auto simp: at_byte_drop)
    then have d: "drop (pe + 1) s = r" "pe + 1 \<le> length s"
      using drop_Suc_Cons [OF r] True by (simp_all add: at_byte_def)
    have q: "q = Some (takeWhile (\<lambda>c. c \<noteq> CHR ''#'') r)" "drop pos3 s = dropWhile (\<lambda>c. c \<noteq> CHR ''#'') r"
      using find_end_cut [OF d(2), of "\<lambda>b. b = CHR ''#''"] True assms(3,5) d(1) by (simp_all add: Let_def)
    have "drop pos3 s = fragment_text (map_option (\<lambda>i. drop i s) fs)"
      using dropWhile_first [of "\<lambda>c. c \<noteq> CHR ''#''" r] q(2) drop_Suc_Cons [of pos3 s] assms(4)
      by (auto simp: fragment_text_def at_byte_drop)
    then have "r = takeWhile (\<lambda>c. c \<noteq> CHR ''#'') r @ fragment_text (map_option (\<lambda>i. drop i s) fs)"
      using q(2) takeWhile_dropWhile_id [of "\<lambda>c. c \<noteq> CHR ''#''" r] by simp
    then show ?thesis using r q(1) by (auto simp: query_text_def list_all_iff dest: set_takeWhileD)
  next
    case False
    then have q: "q = None" "pos3 = pe" using assms(3,5) by auto
    have "drop pe s = fragment_text (map_option (\<lambda>i. drop i s) fs)"
      using dropWhile_first [of ?n "drop pos s"] p(2) False drop_Suc_Cons [of pe s] assms(4) q(2)
      by (auto simp: fragment_text_def at_byte_drop)
    with q(1) show ?thesis by (simp add: query_text_def)
  qed
  moreover have "drop pos s = slice s pos pe @ drop pe s" using p(1,2) by simp
  ultimately show "drop pos s = slice s pos pe @ query_text q @ fragment_text (map_option (\<lambda>i. drop i s) fs)"
    "opt_all (list_all (\<lambda>c. c \<noteq> CHR ''#'')) q" by auto
qed

definition delimited :: "Uri \<Rightarrow> bool" where
  "delimited u \<longleftrightarrow>
     opt_all (list_all is_scheme_char) (u_scheme u)
     \<and> opt_all (list_all (\<lambda>c. c \<noteq> CHR ''/'' \<and> c \<noteq> CHR ''?'' \<and> c \<noteq> CHR ''#'')) (u_authority u)
     \<and> list_all (\<lambda>c. c \<noteq> CHR ''?'' \<and> c \<noteq> CHR ''#'') (u_path u)
     \<and> opt_all (list_all (\<lambda>c. c \<noteq> CHR ''#'')) (u_query u)
     \<and> (if u_authority u = None then \<not> starts_with (u_path u) ''//'' else u_path u = [] \<or> hd (u_path u) = CHR ''/'')"

lemma Uri_parse_recompose:
  assumes "Uri_parse s = Ok u"
  shows "uri_recompose u = s \<and> delimited u"
proof -
  let ?stop = "\<lambda>b. b = CHR ''?'' \<or> b = CHR ''#''"
  obtain se p1 a e h prt p2 where sc: "parse_scheme s = Ok (se, p1)" and au: "parse_authority_at s p1 = Ok (a, e, h, prt, p2)"
    and r: "(let path_end = find_end ?stop s p2;
          (qs, qe, p3) = (if at_byte s path_end CHR ''?'' then
             (let start = path_end + 1; stop = find_end (\<lambda>b. b = CHR ''#'') s start in (Some start, Some stop, stop))
           else (None, None, path_end));
          fs = (if at_byte s p3 CHR ''#'' then Some (p3 + 1) else None)
        in u = u\<lparr>u_source := s, u_scheme_end := se, u_authority_start := a, u_authority_end := e, u_path_start := p2,
             u_path_end := path_end, u_query_start := qs, u_query_end := qe, u_fragment_start := fs\<rparr>)"
    using assms unfolding Uri_parse_def Let_def
    by (auto elim!: resultE split: if_splits prod.splits)
  obtain qs qe p3 where q: "(qs, qe, p3) = (if at_byte s (find_end ?stop s p2) CHR ''?'' then
             (let start = find_end ?stop s p2 + 1; stop = find_end (\<lambda>b. b = CHR ''#'') s start in (Some start, Some stop, stop))
           else (None, None, find_end ?stop s p2))"
    by (cases "if at_byte s (find_end ?stop s p2) CHR ''?'' then
             (let start = find_end ?stop s p2 + 1; stop = find_end (\<lambda>b. b = CHR ''#'') s start in (Some start, Some stop, stop))
           else (None, None, find_end ?stop s p2)") auto
  have u: "u_source u = s" "u_scheme_end u = se" "u_authority_start u = a" "u_authority_end u = e" "u_path_start u = p2"
      "u_path_end u = find_end ?stop s p2" "u_query_start u = qs" "u_query_end u = qe"
      "u_fragment_start u = (if at_byte s p3 CHR ''#'' then Some (p3 + 1) else None)"
    using r unfolding Let_def [of "find_end ?stop s p2"] q [symmetric] by (cases u; simp)+
  note S = parse_scheme_cut [OF sc]
  note A = parse_authority_cut [OF au S(1)]
  note R = rest_cut [OF A(1) u(6) q [folded u(6)] u(9) refl]
  have path: "u_path u = slice s p2 (u_path_end u)" by (simp add: u_path_def u)
  have query: "u_query u = (case (qs, qe) of (Some start, Some stop) \<Rightarrow> Some (slice s start stop) | _ \<Rightarrow> None)"
    by (simp add: u_query_def u split: option.split)
  have frag: "u_fragment u = map_option (\<lambda>i. drop i s) (u_fragment_start u)" by (simp add: u_fragment_def u)
  have scheme: "u_scheme u = map_option (\<lambda>k. take k s) se" by (simp add: u_scheme_def u)
  have rest: "drop p2 s = u_path u @ query_text (u_query u) @ fragment_text (u_fragment u)"
    using R(1) unfolding path query frag by simp
  have pth: "u_path u = takeWhile (\<lambda>c. c \<noteq> CHR ''?'' \<and> c \<noteq> CHR ''#'') (drop p2 s)" using R(3) path by simp
  have auth: "drop p1 s = authority_text (u_authority u) @ drop p2 s"
    and auth_chars: "opt_all (list_all (\<lambda>c. c \<noteq> CHR ''/'' \<and> c \<noteq> CHR ''?'' \<and> c \<noteq> CHR ''#'')) (u_authority u)"
    using A(2) by (auto simp: authority_cut_def authority_text_def u_authority_def u split: option.splits)
  have front: "if u_authority u = None then \<not> starts_with (u_path u) ''//'' else u_path u = [] \<or> hd (u_path u) = CHR ''/''"
  proof (cases a)
    case None
    then have "\<not> starts_with (drop p2 s) ''//''" "u_authority u = None"
      using A(2) by (auto simp: authority_cut_def u_authority_def u split: option.splits)
    then show ?thesis unfolding rest using starts_with_append by (auto simp: starts_with_def)
  next
    case (Some i)
    then have "u_authority u \<noteq> None" "drop p2 s = [] \<or> hd (drop p2 s) \<in> {CHR ''/'', CHR ''?'', CHR ''#''}"
      using A(2) by (auto simp: authority_cut_def u_authority_def u split: option.splits)
    then show ?thesis unfolding pth by (cases "drop p2 s") auto
  qed
  have "uri_recompose u = s"
    unfolding uri_recompose_def using S(2) auth rest scheme by simp
  moreover have "opt_all (list_all is_scheme_char) (u_scheme u)" using S(3) scheme by (cases se) auto
  ultimately show ?thesis
    unfolding delimited_def using auth_chars R(2,4) front path query by simp
qed

text \<open>\<open>build_uri\<close>, which \<open>resolve\<close> and \<open>normalize\<close> use, puts a parsed reference together again.\<close>

lemma build_uri_components:
  assumes "Uri_parse s = Ok u" "u_scheme u \<noteq> None \<or> u_authority u \<noteq> None \<or> \<not> first_segment_contains_colon (u_path u)"
  shows "build_uri (u_scheme u) (u_authority u) (u_path u) (u_query u) (u_fragment u) = s"
proof -
  have u: "uri_recompose u = s" "delimited u" using Uri_parse_recompose [OF assms(1)] by auto
  have "build_uri (u_scheme u) (u_authority u) (u_path u) (u_query u) (u_fragment u) = uri_recompose u"
    using u(2) assms(2)
    by (auto simp: build_uri_def uri_recompose_def scheme_text_def authority_text_def query_text_def fragment_text_def delimited_def
             split: option.splits)
  with u(1) show ?thesis by simp
qed



end
