(* ===== verification/Error_Display.thy ===== *)
theory Error_Display
  imports Uri Errors
begin

text \<open>
  The printed texts of the errors of \<^verbatim>\<open>src/error.rs\<close>, \<^verbatim>\<open>src/compression.rs\<close> and \<^verbatim>\<open>src/uri.rs\<close>.
  \<open>{:?}\<close> of a string escapes characters; which characters outside ASCII it escapes depends on
  the Unicode tables of the standard library, so that part is the argument \<open>uni\<close>.
\<close>

section \<open>Debug output\<close>

definition escape_unicode :: "char \<Rightarrow> string" where
  "escape_unicode c = [BACKSLASH, CHR ''u'', CHR ''{''] @ to_base 16 (u8 c) @ ''}''"

text \<open>\<open>char::escape_debug\<close> for an ASCII character; \<open>quote\<close> is the quote to escape.\<close>

definition escape_debug :: "char \<Rightarrow> char \<Rightarrow> string" where
  "escape_debug quote c =
     (if u8 c = 0 then [BACKSLASH, CHR ''0'']
      else if c = HTAB then [BACKSLASH, CHR ''t'']
      else if c = CR then [BACKSLASH, CHR ''r'']
      else if c = LF then [BACKSLASH, CHR ''n'']
      else if c = BACKSLASH \<or> c = quote then [BACKSLASH, c]
      else if u8 c < 0x20 \<or> u8 c = 0x7F then escape_unicode c
      else [c])"

definition debug_slice :: "(string \<Rightarrow> string) \<Rightarrow> char \<Rightarrow> string \<Rightarrow> string" where
  "debug_slice uni quote sl = (if list_all (\<lambda>b. u8 b < 0x80) sl then concat (map (escape_debug quote) sl) else uni sl)"

definition debug_str :: "(string \<Rightarrow> string) \<Rightarrow> string \<Rightarrow> string" where
  "debug_str uni s = [DQUOTE] @ concat (map (debug_slice uni DQUOTE) (char_slices s)) @ [DQUOTE]"

definition debug_char :: "(string \<Rightarrow> string) \<Rightarrow> string \<Rightarrow> string" where
  "debug_char uni sl = [CHR 0x27] @ debug_slice uni CHR 0x27 sl @ [CHR 0x27]"

section \<open>The error texts\<close>

fun CompressionError_display :: "CompressionError \<Rightarrow> string" where
  "CompressionError_display (BufferTooSmall required available) =
     ''buffer too small: required '' @ nat_to_dec required @ '' bytes, available '' @ nat_to_dec available @ '' bytes''"
| "CompressionError_display (CompressionInvalidData msg) = ''invalid data: '' @ msg"
| "CompressionError_display (CompressionInternal msg) = ''internal error: '' @ msg"
| "CompressionError_display UnexpectedEof = ''unexpected end of input''"
| "CompressionError_display AlreadyFinished = ''compression already finished''"

fun Error_display :: "Error \<Rightarrow> string" where
  "Error_display (InvalidData msg) = ''invalid data: '' @ msg"
| "Error_display (BufferOverflow sz limit) = ''buffer overflow: '' @ nat_to_dec sz @ '' > '' @ nat_to_dec limit"
| "Error_display (TooManyHeaders count limit) = ''too many headers: '' @ nat_to_dec count @ '' > '' @ nat_to_dec limit"
| "Error_display (HeaderLineTooLong sz limit) = ''header line too long: '' @ nat_to_dec sz @ '' > '' @ nat_to_dec limit"
| "Error_display (BodyTooLarge sz limit) = ''body too large: '' @ nat_to_dec sz @ '' > '' @ nat_to_dec limit"
| "Error_display (ChunkLineTooLong sz limit) = ''chunk line too long: '' @ nat_to_dec sz @ '' > '' @ nat_to_dec limit"
| "Error_display (Compression e) = ''compression error: '' @ CompressionError_display e"

definition Error_from_compression :: "CompressionError \<Rightarrow> Error" where
  "Error_from_compression e = Compression e"

fun EncodeError_display :: "(string \<Rightarrow> string) \<Rightarrow> EncodeError \<Rightarrow> string" where
  "EncodeError_display uni MissingHostHeader = ''missing Host header (required for HTTP/1.1)''"
| "EncodeError_display uni ConflictingTransferEncodingAndContentLength =
     ''conflicting Transfer-Encoding and Content-Length headers (RFC 9112 Section 6.2)''"
| "EncodeError_display uni (ForbiddenTransferEncoding status_code) =
     ''Transfer-Encoding not allowed for '' @ nat_to_dec status_code @ '' response (RFC 9112 Section 6.1)''"
| "EncodeError_display uni (InvalidMethod meth) = ''invalid method: '' @ debug_str uni meth"
| "EncodeError_display uni (InvalidRequestTarget uri) = ''invalid request-target: '' @ debug_str uni uri"
| "EncodeError_display uni (InvalidVersion version) = ''invalid HTTP version: '' @ debug_str uni version"
| "EncodeError_display uni (InvalidHeaderName name) = ''invalid header name: '' @ debug_str uni name"
| "EncodeError_display uni (InvalidHeaderValue name v) =
     ''invalid header value for '' @ debug_str uni name @ '': '' @ debug_str uni v"
| "EncodeError_display uni (InvalidStatusCode code) = ''invalid status code: '' @ nat_to_dec code"
| "EncodeError_display uni (InvalidReasonPhrase phrase) = ''invalid reason-phrase: '' @ debug_str uni phrase"
| "EncodeError_display uni DuplicateHostHeader = ''duplicate Host header''"
| "EncodeError_display uni (InvalidHostHeader v) = ''invalid Host header value: '' @ debug_str uni v"
| "EncodeError_display uni (HostAuthorityMismatch hst authority) =
     ''Host header '' @ debug_str uni hst @ '' does not match request-target authority '' @ debug_str uni authority"
| "EncodeError_display uni ForbiddenBodyFor205 = ''205 Reset Content must not contain a body (RFC 9110 Section 15.3.6)''"
| "EncodeError_display uni (ForbiddenContentLength status_code) =
     ''Content-Length not allowed for '' @ nat_to_dec status_code @ '' response (RFC 9110 Section 8.6)''"
| "EncodeError_display uni (ContentLengthMismatch header_value body_length) =
     ''Content-Length header value '' @ nat_to_dec header_value @ '' does not match body length '' @ nat_to_dec body_length"
| "EncodeError_display uni (InvalidRequestTargetForm meth uri) =
     ''request-target form '' @ debug_str uni uri @ '' is invalid for method '' @ debug_str uni meth @ '' (RFC 9112 Section 3.2)''"
| "EncodeError_display uni (UserinfoInHttpUri uri) =
     ''userinfo not allowed in http/https URI '' @ debug_str uni uri @ '' (RFC 9110 Section 4.2.4)''"
| "EncodeError_display uni (NonEmptyHostWithoutAuthority hst uri) =
     ''Host header '' @ debug_str uni hst @ '' must be empty for authority-less URI '' @ debug_str uni uri @ '' (RFC 9112 Section 3.2)''"
| "EncodeError_display uni (EmptyHostInHttpUri uri) =
     ''empty host identifier in http/https URI '' @ debug_str uni uri @ '' (RFC 9110 Section 4.2)''"
| "EncodeError_display uni (InvalidContentLengthValue v) =
     ''invalid Content-Length value '' @ debug_str uni v @ '': must be 1*DIGIT (RFC 9110 Section 8.6)''"
| "EncodeError_display uni DuplicateContentLength =
     ''duplicate Content-Length headers with mismatched values (RFC 9110 Section 8.6)''"

definition hex_byte :: "char \<Rightarrow> string" where
  "hex_byte b = ''0x'' @ hex2_upper (u8 b)"

fun UriError_display :: "(string \<Rightarrow> string) \<Rightarrow> UriError \<Rightarrow> string" where
  "UriError_display uni UEmpty = ''empty URI''"
| "UriError_display uni UInvalidPercentEncoding = ''invalid percent encoding''"
| "UriError_display uni UInvalidPort = ''invalid port''"
| "UriError_display uni (UInvalidCharacter c) = ''invalid character: '' @ debug_char uni c"
| "UriError_display uni UInvalidScheme = ''invalid scheme''"
| "UriError_display uni UInvalidHost = ''invalid host''"
| "UriError_display uni UInvalidUtf8 = ''invalid UTF-8 sequence''"
| "UriError_display uni (UInvalidPathCharacter b) = ''invalid path character: '' @ hex_byte b"
| "UriError_display uni (UInvalidQueryCharacter b) = ''invalid query character: '' @ hex_byte b"
| "UriError_display uni (UInvalidFragmentCharacter b) = ''invalid fragment character: '' @ hex_byte b"
| "UriError_display uni UInvalidUserinfo = ''invalid userinfo''"

section \<open>Texts on one line\<close>

text \<open>No control byte: an error text that quotes hostile input cannot start a new line of a log.\<close>

definition no_control :: "string \<Rightarrow> bool" where
  "no_control s \<longleftrightarrow> list_all (\<lambda>b. 0x20 \<le> u8 b \<and> u8 b \<noteq> 0x7F) s"

lemma no_control_append [simp]: "no_control (a @ b) \<longleftrightarrow> no_control a \<and> no_control b"
  by (simp add: no_control_def)

lemma no_control_Nil [simp]: "no_control []"
  by (simp add: no_control_def)

lemma no_control_Cons: "no_control (c # s) \<longleftrightarrow> 0x20 \<le> u8 c \<and> u8 c \<noteq> 0x7F \<and> no_control s"
  by (simp add: no_control_def)

lemma no_control_digits [simp]: "no_control (nat_to_dec n)"
  using nat_to_dec_is_digit [of _ n] by (fastforce simp: no_control_def list_all_iff is_ascii_digit_def)

lemma no_control_escape: "no_control [quote] \<Longrightarrow> no_control (escape_debug quote c)"
proof -
  have "0x20 \<le> u8 c \<and> u8 c \<noteq> 0x7F" if m: "c \<in> set (to_base 16 n)" for c n
  proof -
    obtain d where "d < 16" "c = digit_char d" using set_to_base [of 16 c n] m by auto
    then show ?thesis using of_char_digit_char [of d] by simp
  qed
  then have "no_control (to_base 16 n)" for n by (simp add: no_control_def list_all_iff)
  then show "no_control [quote] \<Longrightarrow> ?thesis" by (auto simp: escape_debug_def escape_unicode_def no_control_Cons)
qed

lemma no_control_debug:
  assumes "\<And>sl. no_control (uni sl)"
  shows "no_control (debug_str uni s)"
proof -
  have c: "no_control (concat (map f xs))" if "\<And>x. no_control (f x)" for f :: "'z \<Rightarrow> string" and xs
    using that by (induction xs) auto
  have "no_control (debug_slice uni DQUOTE sl)" for sl
    using c [of "escape_debug DQUOTE" sl] assms no_control_escape [of DQUOTE] by (simp add: debug_slice_def no_control_Cons)
  from c [OF this] show ?thesis by (simp add: debug_str_def no_control_Cons)
qed

lemma encode_error_one_line:
  assumes "\<And>sl. no_control (uni sl)"
  shows "no_control (EncodeError_display uni e)"
  using no_control_debug [OF assms] by (cases e) (simp_all add: no_control_Cons)

end
