(* ===== verification/Connection_Pool.thy ===== *)
theory Connection_Pool
  imports Rust_Std "HOL-Library.AList" "HOL-Library.Multiset"
begin

text \<open>
  The connection pool of \<^verbatim>\<open>examples/http11_reverse_proxy/src/main.rs\<close>: idle connections to the
  upstreams, kept per scheme, host and port. A stream is a value of a type \<open>'s\<close>, the TLS connector a
  value of \<open>'t\<close>. An \<open>Instant\<close> is a number of nanoseconds; every call of \<open>Instant::now\<close> is the next
  reading of a clock \<open>clk\<close>, as a function of the number of the reading. The \<open>HashMap\<close> is an
  association list with distinct keys, so that a traversal has an order.
\<close>

datatype Scheme = Http | Https

fun default_port :: "Scheme \<Rightarrow> nat" where
  "default_port Http = 80"
| "default_port Https = 443"

type_synonym UpstreamKey = "Scheme \<times> string \<times> nat"

section \<open>Connections\<close>

record PoolConfig =
  max_connections_per_host :: nat
  idle_timeout_secs :: nat
  max_lifetime_secs :: nat

definition default_pool_config :: PoolConfig where
  "default_pool_config = \<lparr>max_connections_per_host = 10, idle_timeout_secs = 60, max_lifetime_secs = 300\<rparr>"

record 's PooledConnection =
  pc_stream :: 's
  pc_created_at :: nat
  pc_last_used :: nat

definition pooled_new :: "'s \<Rightarrow> nat \<Rightarrow> 's PooledConnection" where
  "pooled_new stream now = \<lparr>pc_stream = stream, pc_created_at = now, pc_last_used = now\<rparr>"

definition from_secs :: "nat \<Rightarrow> nat" where
  "from_secs n = n * 1000000000"

text \<open>\<open>duration_since\<close> is zero when the other instant is later, like the subtraction here.\<close>

definition is_valid :: "PoolConfig \<Rightarrow> nat \<Rightarrow> 's PooledConnection \<Rightarrow> bool" where
  "is_valid config now conn =
     (let idle_duration = now - pc_last_used conn; lifetime = now - pc_created_at conn
      in idle_duration < from_secs (idle_timeout_secs config) \<and> lifetime < from_secs (max_lifetime_secs config))"

section \<open>The pool\<close>

record ('s, 't) ConnectionPool =
  cp_idle_connections :: "(UpstreamKey \<times> 's PooledConnection list) list"
  cp_config :: PoolConfig
  cp_tls_connector :: 't

definition pool_new :: "'t \<Rightarrow> PoolConfig \<Rightarrow> ('s, 't) ConnectionPool" where
  "pool_new tls config = \<lparr>cp_idle_connections = [], cp_config = config, cp_tls_connector = tls\<rparr>"

text \<open>The \<open>while let\<close> loop over \<open>pop\<close>; the last element of the vector comes first here.\<close>

fun acquire_loop ::
  "PoolConfig \<Rightarrow> (nat \<Rightarrow> nat) \<Rightarrow> nat \<Rightarrow> 's PooledConnection list \<Rightarrow> 's PooledConnection option \<times> 's PooledConnection list"
where
  "acquire_loop config clk i [] = (None, [])"
| "acquire_loop config clk i (conn # conns) =
     (if is_valid config (clk i) conn then (Some (conn\<lparr>pc_last_used := clk (Suc i)\<rparr>), conns)
      else acquire_loop config clk (Suc i) conns)"

definition try_acquire ::
  "UpstreamKey \<Rightarrow> (nat \<Rightarrow> nat) \<Rightarrow> ('s, 't) ConnectionPool \<Rightarrow> 's PooledConnection option \<times> ('s, 't) ConnectionPool"
where
  "try_acquire key clk pool =
     (case map_of (cp_idle_connections pool) key of
        None \<Rightarrow> (None, pool)
      | Some conns \<Rightarrow>
          (case acquire_loop (cp_config pool) clk 0 (rev conns) of
             (r, rest) \<Rightarrow>
               (r, pool\<lparr>cp_idle_connections := AList.update key (rev rest) (cp_idle_connections pool)\<rparr>)))"

definition tls_connector :: "('s, 't) ConnectionPool \<Rightarrow> 't" where
  "tls_connector pool = cp_tls_connector pool"

definition release ::
  "UpstreamKey \<Rightarrow> 's PooledConnection \<Rightarrow> nat \<Rightarrow> ('s, 't) ConnectionPool \<Rightarrow> ('s, 't) ConnectionPool" where
  "release key conn now pool =
     (if \<not> is_valid (cp_config pool) now conn then pool
      else
        let conns = (case map_of (cp_idle_connections pool) key of None \<Rightarrow> [] | Some cs \<Rightarrow> cs);
            conns' = (if length conns \<ge> max_connections_per_host (cp_config pool) then conns else conns @ [conn])
        in pool\<lparr>cp_idle_connections := AList.update key conns' (cp_idle_connections pool)\<rparr>)"

fun retain_valid :: "PoolConfig \<Rightarrow> (nat \<Rightarrow> nat) \<Rightarrow> nat \<Rightarrow> 's PooledConnection list \<Rightarrow> 's PooledConnection list" where
  "retain_valid config clk i [] = []"
| "retain_valid config clk i (conn # conns) =
     (if is_valid config (clk i) conn then conn # retain_valid config clk (Suc i) conns
      else retain_valid config clk (Suc i) conns)"

fun retain_values ::
  "PoolConfig \<Rightarrow> (nat \<Rightarrow> nat) \<Rightarrow> nat \<Rightarrow> (UpstreamKey \<times> 's PooledConnection list) list
     \<Rightarrow> (UpstreamKey \<times> 's PooledConnection list) list" where
  "retain_values config clk i [] = []"
| "retain_values config clk i ((key, conns) # m) =
     (key, retain_valid config clk i conns) # retain_values config clk (i + length conns) m"

definition cleanup_expired :: "(nat \<Rightarrow> nat) \<Rightarrow> ('s, 't) ConnectionPool \<Rightarrow> ('s, 't) ConnectionPool" where
  "cleanup_expired clk pool = pool\<lparr>cp_idle_connections :=
     filter (\<lambda>(_, conns). conns \<noteq> []) (retain_values (cp_config pool) clk 0 (cp_idle_connections pool))\<rparr>"

definition stats :: "('s, 't) ConnectionPool \<Rightarrow> nat \<times> nat" where
  "stats pool = (length (cp_idle_connections pool), sum_list (map (\<lambda>(_, v). length v) (cp_idle_connections pool)))"

section \<open>The proxy's use of the pool\<close>

text \<open>
  The connections a pool holds, each with the key it is kept under.
\<close>

definition entries :: "UpstreamKey \<times> 's PooledConnection list \<Rightarrow> (UpstreamKey \<times> 's) multiset" where
  "entries e = {#(fst e, pc_stream c). c \<in># mset (snd e)#}"

definition pooled :: "(UpstreamKey \<times> 's PooledConnection list) list \<Rightarrow> (UpstreamKey \<times> 's) multiset" where
  "pooled m = sum_list (map entries m)"

text \<open>
  The steps of the handlers that share a pool: the pool, the connections in use with their keys, and
  the connections opened so far. A handler takes a connection from the pool or opens a new one for its
  key, and at the end gives it back under the same key or drops it.
\<close>

type_synonym ('s, 't) pool_state = "('s, 't) ConnectionPool \<times> (UpstreamKey \<times> 's) multiset \<times> (UpstreamKey \<times> 's) set"

inductive pool_reach :: "'t \<Rightarrow> PoolConfig \<Rightarrow> ('s, 't) pool_state \<Rightarrow> bool" for tls config where
  start: "pool_reach tls config (pool_new tls config, {#}, {})"
| hit: "pool_reach tls config (p, used, opened) \<Longrightarrow> try_acquire k clk p = (Some c, p') \<Longrightarrow>
    pool_reach tls config (p', add_mset (k, pc_stream c) used, opened)"
| miss: "pool_reach tls config (p, used, opened) \<Longrightarrow> try_acquire k clk p = (None, p') \<Longrightarrow>
    pool_reach tls config (p', used, opened)"
| connect: "pool_reach tls config (p, used, opened) \<Longrightarrow> s \<notin> snd ` opened \<Longrightarrow>
    pool_reach tls config (p, add_mset (k, s) used, insert (k, s) opened)"
| give_back: "pool_reach tls config (p, used, opened) \<Longrightarrow> (k, pc_stream c) \<in># used \<Longrightarrow>
    pool_reach tls config (release k c now p, used - {#(k, pc_stream c)#}, opened)"
| discard: "pool_reach tls config (p, used, opened) \<Longrightarrow> (k, s) \<in># used \<Longrightarrow>
    pool_reach tls config (p, used - {#(k, s)#}, opened)"
| cleanup: "pool_reach tls config (p, used, opened) \<Longrightarrow>
    pool_reach tls config (cleanup_expired clk p, used, opened)"

section \<open>What the operations do to the connections held\<close>

lemma pooled_simps [simp]:
  "pooled [] = {#}" "pooled (e # m) = entries e + pooled m" "entries (k, []) = {#}"
  "entries (k, c # cs) = add_mset (k, pc_stream c) (entries (k, cs))"
  "entries (k, cs @ ds) = entries (k, cs) + entries (k, ds)" "entries (k, rev cs) = entries (k, cs)"
  by (simp_all add: pooled_def entries_def)

lemma pooled_update:
  assumes "distinct (map fst m)"
  shows "pooled (AList.update k v m) + (case map_of m k of None \<Rightarrow> {#} | Some w \<Rightarrow> entries (k, w)) = pooled m + entries (k, v)"
  using assms
proof (induction m)
  case (Cons e m)
  then show ?case by (cases e) (auto simp: ac_simps map_of_eq_None_iff split: option.splits)
qed simp

lemma update_distinct: "distinct (map fst m) \<Longrightarrow> distinct (map fst (AList.update k v m))"
  by (rule distinct_update)

lemma update_lengths:
  "list_all (\<lambda>e. length (snd e) \<le> n) m \<Longrightarrow> length v \<le> n \<Longrightarrow> list_all (\<lambda>e. length (snd e) \<le> n) (AList.update k v m)"
  by (induction m) auto

lemma acquire_loop_entries:
  "acquire_loop config clk i cs = (r, rest) \<Longrightarrow>
     entries (k, rest) + (case r of None \<Rightarrow> {#} | Some c \<Rightarrow> {#(k, pc_stream c)#}) \<subseteq># entries (k, cs)
     \<and> length rest \<le> length cs"
  by (induction config clk i cs rule: acquire_loop.induct) (auto split: if_splits option.splits intro: subset_mset.order_trans)

lemma acquire_loop_valid:
  "acquire_loop config clk i cs = (Some c, rest) \<Longrightarrow>
     \<exists>j \<ge> i. \<exists>d \<in> set cs. is_valid config (clk j) d \<and> c = d\<lparr>pc_last_used := clk (Suc j)\<rparr>"
  by (induction config clk i cs rule: acquire_loop.induct) (auto split: if_splits dest: Suc_leD)

lemma acquire_loop_None: "acquire_loop config clk i cs = (None, rest) \<Longrightarrow> rest = []"
  by (induction config clk i cs rule: acquire_loop.induct) (auto split: if_splits)

definition pool_ok :: "PoolConfig \<Rightarrow> ('s, 't) ConnectionPool \<Rightarrow> bool" where
  "pool_ok config p \<longleftrightarrow> cp_config p = config \<and> distinct (map fst (cp_idle_connections p))
     \<and> list_all (\<lambda>e. length (snd e) \<le> max_connections_per_host config) (cp_idle_connections p)"

lemma map_of_length: "list_all (\<lambda>e. length (snd e) \<le> n) m \<Longrightarrow> map_of m k = Some v \<Longrightarrow> length v \<le> n"
  by (auto simp: list_all_iff dest!: map_of_SomeD)

lemma entries_subset_pooled: "map_of m k = Some cs \<Longrightarrow> entries (k, cs) \<subseteq># pooled m"
  by (induction m) (auto split: if_splits intro: subset_mset.order_trans)

text \<open>Replacing the connections of a key by some of them, with \<open>X\<close> taken out.\<close>

lemma update_takes:
  assumes "distinct (map fst m)" "entries (k, v) + X \<subseteq># (case map_of m k of None \<Rightarrow> {#} | Some w \<Rightarrow> entries (k, w)) + Y"
  shows "pooled (AList.update k v m) + X \<subseteq># pooled m + Y"
proof -
  let ?w = "case map_of m k of None \<Rightarrow> {#} | Some w \<Rightarrow> entries (k, w)"
  have "pooled (AList.update k v m) + X + ?w = pooled m + (entries (k, v) + X)"
    using pooled_update [OF assms(1), of k v] by (simp add: ac_simps)
  also have "\<dots> \<subseteq># pooled m + Y + ?w" using assms(2) by (simp add: ac_simps)
  finally show ?thesis by simp
qed

lemma try_acquire_pool:
  assumes "pool_ok config p" "try_acquire k clk p = (r, p')"
  shows "pool_ok config p'"
    and "pooled (cp_idle_connections p') + (case r of None \<Rightarrow> {#} | Some c \<Rightarrow> {#(k, pc_stream c)#}) \<subseteq># pooled (cp_idle_connections p)"
    and "r = Some c \<Longrightarrow> \<exists>j d. is_valid config (clk j) d \<and> c = d\<lparr>pc_last_used := clk (Suc j)\<rparr>"
proof -
  show "pool_ok config p'"
  proof (cases "map_of (cp_idle_connections p) k")
    case (Some cs)
    obtain rest where a: "acquire_loop (cp_config p) clk 0 (rev cs) = (r, rest)"
      and p': "p' = p\<lparr>cp_idle_connections := AList.update k (rev rest) (cp_idle_connections p)\<rparr>"
      using assms(2) Some by (auto simp: try_acquire_def split: prod.splits)
    have "length rest \<le> length cs" using acquire_loop_entries [OF a] by simp
    moreover have "length cs \<le> max_connections_per_host config"
      using assms(1) map_of_length [OF _ Some] by (auto simp: pool_ok_def)
    ultimately show ?thesis using assms(1) by (simp add: pool_ok_def p' distinct_update update_lengths)
  qed (use assms in \<open>simp add: try_acquire_def\<close>)
  show "pooled (cp_idle_connections p') + (case r of None \<Rightarrow> {#} | Some c \<Rightarrow> {#(k, pc_stream c)#}) \<subseteq># pooled (cp_idle_connections p)"
  proof (cases "map_of (cp_idle_connections p) k")
    case (Some cs)
    obtain rest where a: "acquire_loop (cp_config p) clk 0 (rev cs) = (r, rest)"
      and p': "p' = p\<lparr>cp_idle_connections := AList.update k (rev rest) (cp_idle_connections p)\<rparr>"
      using assms(2) Some by (auto simp: try_acquire_def split: prod.splits)
    from acquire_loop_entries [OF a, of k] Some assms(1)
      update_takes [of "cp_idle_connections p" k "rev rest" "case r of None \<Rightarrow> {#} | Some c \<Rightarrow> {#(k, pc_stream c)#}" "{#}"]
    show ?thesis by (simp add: p' pool_ok_def)
  qed (use assms(2) in \<open>simp add: try_acquire_def\<close>)
  show "r = Some c \<Longrightarrow> \<exists>j d. is_valid config (clk j) d \<and> c = d\<lparr>pc_last_used := clk (Suc j)\<rparr>"
    using assms by (fastforce simp: try_acquire_def pool_ok_def split: option.splits prod.splits dest: acquire_loop_valid)
qed

lemma release_pool:
  assumes "pool_ok config p"
  shows "pool_ok config (release k c now p)"
    and "pooled (cp_idle_connections (release k c now p)) \<subseteq># add_mset (k, pc_stream c) (pooled (cp_idle_connections p))"
proof -
  let ?conns = "case map_of (cp_idle_connections p) k of None \<Rightarrow> [] | Some cs \<Rightarrow> cs"
  have "length ?conns \<le> max_connections_per_host config"
    using assms map_of_length [of "max_connections_per_host config" "cp_idle_connections p" k]
    by (auto simp: pool_ok_def split: option.splits simp del: map_of_eq_None_iff)
  with assms show "pool_ok config (release k c now p)"
    by (simp add: release_def pool_ok_def Let_def distinct_update update_lengths)
  have "distinct (map fst (cp_idle_connections p))" using assms by (simp add: pool_ok_def)
  note u = update_takes [OF this, of k _ "{#}" "{#(k, pc_stream c)#}"]
  show "pooled (cp_idle_connections (release k c now p)) \<subseteq># add_mset (k, pc_stream c) (pooled (cp_idle_connections p))"
    using u [of ?conns] u [of "?conns @ [c]"] by (auto simp: release_def Let_def split: option.splits)
qed

lemma retain_valid_entries:
  "entries (k, retain_valid config clk i cs) \<subseteq># entries (k, cs) \<and> length (retain_valid config clk i cs) \<le> length cs"
proof (induction cs arbitrary: i)
  case (Cons c cs)
  from Cons.IH [of "Suc i"] show ?case by (auto intro: subset_mset.order_trans)
qed simp

lemma retain_values_pool:
  "map fst (retain_values config clk i m) = map fst m
   \<and> pooled (retain_values config clk i m) \<subseteq># pooled m
   \<and> (list_all (\<lambda>e. length (snd e) \<le> n) m \<longrightarrow> list_all (\<lambda>e. length (snd e) \<le> n) (retain_values config clk i m))"
proof (induction config clk i m rule: retain_values.induct)
  case (2 config clk i k cs m)
  with retain_valid_entries [of k config clk i cs] show ?case
    by (auto intro: subset_mset.add_mono)
qed simp_all

lemma pooled_filter: "pooled (filter (\<lambda>(_, conns). conns \<noteq> []) m) = pooled m"
  by (induction m) auto

lemma cleanup_pool:
  assumes "pool_ok config p"
  shows "pool_ok config (cleanup_expired clk p)"
    and "pooled (cp_idle_connections (cleanup_expired clk p)) \<subseteq># pooled (cp_idle_connections p)"
proof -
  let ?m = "retain_values (cp_config p) clk 0 (cp_idle_connections p)"
  note r = retain_values_pool [of "cp_config p" clk 0 "cp_idle_connections p" "max_connections_per_host config"]
  have "list_all (\<lambda>e. length (snd e) \<le> max_connections_per_host config) ?m"
    using r assms by (simp add: pool_ok_def)
  moreover have "distinct (map fst ?m)" using r assms by (simp add: pool_ok_def)
  ultimately show "pool_ok config (cleanup_expired clk p)"
    using assms by (auto simp: cleanup_expired_def pool_ok_def distinct_map_filter list_all_iff)
  show "pooled (cp_idle_connections (cleanup_expired clk p)) \<subseteq># pooled (cp_idle_connections p)"
    using r by (simp add: cleanup_expired_def pooled_filter)
qed

section \<open>The invariant\<close>

definition pool_inv :: "PoolConfig \<Rightarrow> ('s, 't) pool_state \<Rightarrow> bool" where
  "pool_inv config st = (case st of (p, used, opened) \<Rightarrow>
     pool_ok config p \<and> finite opened \<and> inj_on snd opened
     \<and> pooled (cp_idle_connections p) + used \<subseteq># mset_set opened)"

lemma pool_inv_I:
  assumes "pool_inv config (p, used, opened)" "pool_ok config p'"
    "pooled (cp_idle_connections p') + used' \<subseteq># pooled (cp_idle_connections p) + used"
  shows "pool_inv config (p', used', opened)"
  using assms subset_mset.order_trans unfolding pool_inv_def by blast

lemma pool_reach_inv: "pool_reach tls config st \<Longrightarrow> pool_inv config st"
proof (induction st rule: pool_reach.induct)
  case start
  then show ?case by (simp add: pool_inv_def pool_ok_def pool_new_def)
next
  case (hit p used opened k clk c p')
  then have "pool_ok config p" by (simp add: pool_inv_def)
  from try_acquire_pool(1,2) [OF this hit.hyps(2)] show ?case by (intro pool_inv_I [OF hit.IH]) simp_all
next
  case (miss p used opened k clk p')
  then have "pool_ok config p" by (simp add: pool_inv_def)
  from try_acquire_pool(1,2) [OF this miss.hyps(2)] show ?case by (intro pool_inv_I [OF miss.IH]) simp_all
next
  case (connect p used opened s k)
  then have "(k, s) \<notin> opened" by force
  with connect show ?case by (auto simp: pool_inv_def)
next
  case (give_back p used opened k c now)
  then have ok: "pool_ok config p" by (simp add: pool_inv_def)
  obtain u where "used = add_mset (k, pc_stream c) u" using give_back.hyps(2) by (metis insert_DiffM)
  with release_pool [OF ok, of k c now] show ?case by (intro pool_inv_I [OF give_back.IH]) simp_all
next
  case (discard p used opened k s)
  then show ?case by (intro pool_inv_I [OF discard.IH]) (simp_all add: pool_inv_def)
next
  case (cleanup p used opened clk)
  then have "pool_ok config p" by (simp add: pool_inv_def)
  from cleanup_pool [OF this] show ?case by (intro pool_inv_I [OF cleanup.IH]) simp_all
qed

text \<open>A multiset below a set whose elements differ in their second component.\<close>

lemma sub_mset_set_snd:
  assumes "A \<subseteq># mset_set S" "finite S" "inj_on snd S"
  shows "count (image_mset snd A) s \<le> 1"
proof -
  have "image_mset snd A \<subseteq># image_mset snd (mset_set S)" by (rule image_mset_subseteq_mono [OF assms(1)])
  also have "\<dots> = mset_set (snd ` S)" by (rule image_mset_mset_set [OF assms(3)])
  finally show ?thesis using assms(2) by (metis (no_types) count_mset_set(1,3) finite_imageI le_zero_eq
      mset_subset_eq_count order_refl zero_le_one)
qed


text \<open>What was given back last comes out first, while it is valid and the vector had room.\<close>

lemma release_then_acquire:
  assumes "is_valid (cp_config p) now c" "is_valid (cp_config p) (clk 0) c"
    "length (case map_of (cp_idle_connections p) k of None \<Rightarrow> [] | Some cs \<Rightarrow> cs) < max_connections_per_host (cp_config p)"
  shows "fst (try_acquire k clk (release k c now p)) = Some (c\<lparr>pc_last_used := clk 1\<rparr>)"
  using assms by (auto simp: release_def try_acquire_def update_conv split: option.splits prod.splits)

lemma stats_pooled: "stats p = (length (cp_idle_connections p), size (pooled (cp_idle_connections p)))"
proof -
  have "sum_list (map (\<lambda>(_, v). length v) m) = size (pooled m)" for m :: "(UpstreamKey \<times> 's PooledConnection list) list"
    by (induction m) (auto simp: entries_def)
  then show ?thesis by (simp add: stats_def)
qed


end
