(* ===== verification/Stream_Body.thy ===== *)
theory Stream_Body
  imports Request_Stream Request_Roundtrip
begin

text \<open>
  Reading requests with the streaming calls, as the example programs do: \<open>stream_body\<close> of
  \<^verbatim>\<open>examples/http11_server/src/main.rs\<close>, and the receiving half of \<open>handle_client\<close> of
  \<^verbatim>\<open>examples/http11_reverse_proxy/src/main.rs\<close> with its reads from the socket. Both give what
  \<open>decode\<close> gives.
\<close>

section \<open>The loop over peek, consume and progress\<close>

text \<open>
  The two loops of the programs are this one: read what is there, otherwise advance. \<open>Ok True\<close> is a
  complete body, \<open>Ok False\<close> a request for more bytes. As each turn shortens the buffer, it ends.
\<close>

lemma rd_consume_peeked:
  assumes "rd_peek_body st = Some dat" "rd_consume_body st (length dat) = (Ok p, st')"
  shows "length (rd_buf st') < length (rd_buf st)"
  using assms consume_peeked_decreases [of "rd_buf st" "rd_phase st" dat "rd_body_decoder st" "rd_limits st" p]
  by (auto simp: rd_peek_body_def rd_consume_body_def rd_put_body_def dec_consume_body_def split: prod.splits if_splits)

lemma rd_progress_advances:
  "rd_progress st = (Ok Advanced, st') \<Longrightarrow> length (rd_buf st') < length (rd_buf st)"
  using progress_decreases [of "rd_body_decoder st" "rd_buf st" "rd_phase st" "rd_limits st"]
  by (auto simp: rd_progress_def rd_put_body_def dec_progress_def split: prod.splits)

function stream_loop :: "'d RequestDecoder \<Rightarrow> string \<Rightarrow> (bool, Error) result \<times> 'd RequestDecoder \<times> string" where
  "stream_loop st acc =
     (case rd_peek_body st of
        Some dat \<Rightarrow>
          (case rd_consume_body st (length dat) of
             (Ok p, st') \<Rightarrow>
               (case p of
                  Complete _ \<Rightarrow> (Ok True, st', acc @ dat)
                | Advanced \<Rightarrow> stream_loop st' (acc @ dat)
                | NeedData \<Rightarrow> stream_loop st' (acc @ dat))
           | (Err e, st') \<Rightarrow> (Err e, st', acc @ dat)
           | (Panic, st') \<Rightarrow> (Panic, st', acc @ dat))
      | None \<Rightarrow>
          (case rd_progress st of
             (Ok p, st') \<Rightarrow>
               (case p of
                  Complete _ \<Rightarrow> (Ok True, st', acc)
                | Advanced \<Rightarrow> stream_loop st' acc
                | NeedData \<Rightarrow> (Ok False, st', acc))
           | (Err e, st') \<Rightarrow> (Err e, st', acc)
           | (Panic, st') \<Rightarrow> (Panic, st', acc)))"
  by pat_completeness auto
termination
  by (relation "measure (\<lambda>(st, _). length (rd_buf st))")
    (auto intro: rd_consume_peeked [OF _ sym] rd_progress_advances [OF sym])

declare stream_loop.simps [simp del]

text \<open>It does what the loop inside \<open>decode\<close> does.\<close>

lemma consume_peeked_complete:
  assumes "bd_peek_body buf ph = Some dat" "dec_consume_body bd buf ph (length dat) l = (Ok p, bd', buf', ph')"
  shows "(\<exists>ts. p = Complete ts) \<longleftrightarrow> ph' = PhaseComplete"
  using assms
  by (auto simp: bd_peek_body_def dec_consume_body_def bd_consume_body_def consume_content_length_def consume_chunked_data_def
      consume_close_delimited_def Let_def split: DecodePhase.splits if_splits option.splits)

lemma stream_loop_eq:
  "stream_loop st acc =
     (case body_loop (rd_limits st) (rd_body_decoder st) (rd_buf st) (rd_phase st) acc of
        (r, bd, buf, ph, body) \<Rightarrow> (r, st\<lparr>rd_body_decoder := bd, rd_buf := buf, rd_phase := ph\<rparr>, body))"
proof (induction st acc rule: stream_loop.induct)
  case (1 st acc)
  let ?l = "rd_limits st" and ?bd = "rd_body_decoder st" and ?b = "rd_buf st" and ?ph = "rd_phase st"
  show ?case
  proof (cases "bd_peek_body ?b ?ph")
    case None
    then have pk: "rd_peek_body st = None" by (simp add: rd_peek_body_def)
    obtain r bd buf ph where d: "dec_progress ?bd ?b ?ph ?l = (r, bd, buf, ph)" by (metis prod_cases4)
    then have p: "rd_progress st = (r, st\<lparr>rd_body_decoder := bd, rd_buf := buf, rd_phase := ph\<rparr>)"
      by (simp add: rd_progress_def rd_put_body_def)
    show ?thesis
    proof (cases r)
      case (Ok q)
      show ?thesis
        using "1.IH"(1) [OF pk] None pk p d Ok
        by (cases q) (auto simp: stream_loop.simps [of st] body_loop.simps [of ?l ?bd])
    qed (use None pk p d in \<open>simp_all add: stream_loop.simps [of st] body_loop.simps [of ?l ?bd]\<close>)
  next
    case (Some dat)
    then have pk: "rd_peek_body st = Some dat" by (simp add: rd_peek_body_def)
    obtain r bd buf ph where d: "dec_consume_body ?bd ?b ?ph (length dat) ?l = (r, bd, buf, ph)" by (metis prod_cases4)
    then have p: "rd_consume_body st (length dat) = (r, st\<lparr>rd_body_decoder := bd, rd_buf := buf, rd_phase := ph\<rparr>)"
      by (simp add: rd_consume_body_def rd_put_body_def)
    have c: "r = Ok q \<Longrightarrow> (\<exists>ts. q = Complete ts) \<longleftrightarrow> ph = PhaseComplete" for q
      using consume_peeked_complete [OF Some] d by blast
    show ?thesis
    proof (cases r)
      case (Ok q)
      show ?thesis
        using "1.IH"(2,3) [OF pk p [symmetric]] c [OF Ok] Some pk p d Ok
        by (cases q) (auto simp: stream_loop.simps [of st] body_loop.simps [of ?l ?bd])
    qed (use Some pk p d in \<open>simp_all add: stream_loop.simps [of st] body_loop.simps [of ?l ?bd]\<close>)
  qed
qed

text \<open>More bytes after the loop asked for them, or after it was done.\<close>

lemma stream_loop_app:
  assumes "loop_phase (rd_phase st)" "rd_inv st" "max_body_size (rd_limits st) \<le> usize_max"
  shows "stream_loop (rd_app st d) acc =
    (case stream_loop st acc of (Ok False, st', b) \<Rightarrow> stream_loop (rd_app st' d) b | (r, st', b) \<Rightarrow> (r, rd_app st' d, b))"
proof -
  have "body_consumed (rd_body_decoder st) + pending_body (rd_phase st) \<le> usize_max"
    using assms(2,3) by (auto simp: rd_inv_def body_inv_def)
  note app = body_loop_app [OF assms(1) this, of "rd_limits st" "rd_buf st" d acc]
  show ?thesis
    unfolding stream_loop_eq rd_app_simps app
    by (auto simp: rd_app_def body_cont_def split: prod.splits result.splits bool.splits)
qed

lemma stream_loop_keeps:
  assumes "stream_loop st acc = (r, st', b)" "loop_phase (rd_phase st)" "rd_inv st" "max_body_size (rd_limits st) \<le> usize_max"
  shows "loop_phase (rd_phase st')" "rd_inv st'" "rd_limits st' = rd_limits st" "rd_pending st' = rd_pending st"
    "length (rd_buf st') \<le> length (rd_buf st)" "r \<noteq> Panic"
proof -
  obtain bd buf ph where
    b: "body_loop (rd_limits st) (rd_body_decoder st) (rd_buf st) (rd_phase st) acc = (r, bd, buf, ph, b)"
    and st': "st' = st\<lparr>rd_body_decoder := bd, rd_buf := buf, rd_phase := ph\<rparr>"
    using assms(1) by (auto simp: stream_loop_eq split: prod.splits)
  have "body_inv (rd_limits st) (rd_body_decoder st) (rd_phase st)" using assms(3) by (simp add: rd_inv_def)
  note i = body_loop_inv [OF b this assms(2,4)]
  then show "loop_phase (rd_phase st')" "r \<noteq> Panic" by (simp_all add: st')
  then have "ph \<noteq> StartLine \<and> ph \<noteq> Headers" by (auto simp: st' loop_phase_def)
  moreover have "rd_phase st \<noteq> Headers" using assms(2) by (auto simp: loop_phase_def)
  ultimately show "rd_inv st'" using i assms(3) by (simp add: st' rd_inv_def)
  show "rd_limits st' = rd_limits st" "rd_pending st' = rd_pending st" by (simp_all add: st')
  show "length (rd_buf st') \<le> length (rd_buf st)" using body_loop_length [OF b] by (simp add: st')
qed

section \<open>The server's stream\_body\<close>

text \<open>Returns whether the body is complete; \<open>buf\<close> holds what was read so far, and is lost on an error.\<close>

definition stream_body ::
  "'d RequestDecoder \<Rightarrow> BodyKind \<Rightarrow> string option \<Rightarrow> (bool, Error) result \<times> 'd RequestDecoder \<times> string option" where
  "stream_body decoder body_kind buf =
     (if body_kind = BodyNone \<or> body_kind = CloseDelimited \<or> body_kind = BodyTunnel then (Ok True, decoder, None)
      else
        (case stream_loop decoder (case buf of Some acc \<Rightarrow> acc | None \<Rightarrow> []) of
           (Ok c, decoder', acc) \<Rightarrow> (Ok c, decoder', Some acc)
         | (Err e, decoder', acc) \<Rightarrow> (Err e, decoder', None)
         | (Panic, decoder', acc) \<Rightarrow> (Panic, decoder', None)))"

text \<open>Called again after \<open>Ok False\<close> with more bytes, it does what one call with all the bytes does.\<close>

lemma stream_body_resume:
  assumes "loop_phase (rd_phase st)" "rd_inv st" "max_body_size (rd_limits st) \<le> usize_max"
    "stream_body st bk buf = (Ok False, st', buf')"
  shows "stream_body (rd_app st d) bk buf = stream_body (rd_app st' d) bk buf'"
  using assms(4) stream_loop_app [OF assms(1-3), of d "case buf of Some acc \<Rightarrow> acc | None \<Rightarrow> []"]
  by (auto simp: stream_body_def split: if_splits prod.splits result.splits)

section \<open>Reading from a socket\<close>

text \<open>
  A socket is the list of the pieces that arrive on it. A read takes at most \<open>want\<close> bytes of the first
  piece; at the end of the list the peer has closed the connection and a read gives no bytes.
\<close>

definition sock_read :: "nat \<Rightarrow> string list \<Rightarrow> string \<times> string list" where
  "sock_read want ps =
     (case ps of
        [] \<Rightarrow> ([], [])
      | p # ps' \<Rightarrow> if length p \<le> want then (p, ps') else (take want p, drop want p # ps'))"

datatype ProxyError = FromDecoder Error | FromEncoder EncodeError | ErrorText string

text \<open>One read into the slot that \<open>mut_buf\<close> hands out, of at most \<open>chunk\<close> bytes; the number of bytes read.\<close>

definition fill_from_socket ::
  "nat \<Rightarrow> 'd RequestDecoder \<Rightarrow> string list \<Rightarrow> (nat, ProxyError) result \<times> 'd RequestDecoder \<times> string list" where
  "fill_from_socket chunk st ps =
     (let want = min (rd_available_buf st) chunk
      in if want = 0 then (Err (ErrorText ''decoder buffer full''), st, ps)
         else
           (case rd_mut_buf st want of
              (Err e, st') \<Rightarrow> (Err (FromDecoder e), st', ps)
            | (Panic, st') \<Rightarrow> (Panic, st', ps)
            | (Ok slot, st') \<Rightarrow>
                (case sock_read (length slot) ps of
                   (dat, ps') \<Rightarrow>
                     (case rd_advance_buf (st'\<lparr>rd_buf := write_slot (rd_buf st') (rd_pending st') dat\<rparr>) (length dat) of
                        (r, st'') \<Rightarrow> (and_then (map_err FromDecoder r) (\<lambda>_. Ok (length dat)), st'', ps')))))"

lemma sock_read_bytes: "sock_read want ps = (dat, ps') \<Longrightarrow> dat @ concat ps' = concat ps \<and> length dat \<le> want"
  by (auto simp: sock_read_def split: list.splits if_splits)

lemma sock_read_less: "sock_read want ps = (dat, ps') \<Longrightarrow> dat \<noteq> [] \<Longrightarrow> length (concat ps') < length (concat ps)"
  using sock_read_bytes [of want ps dat ps'] by (metis append_Nil length_append less_add_same_cancel2 length_greater_0_conv)

lemma sock_read_some:
  "sock_read want ps = (dat, ps') \<Longrightarrow> 0 < want \<Longrightarrow> [] \<notin> set ps \<Longrightarrow> ps \<noteq> [] \<Longrightarrow> dat \<noteq> [] \<and> [] \<notin> set ps'"
  by (auto simp: sock_read_def split: list.splits if_splits)

lemma fill_from_socket_eq:
  assumes "rd_pending st = 0" "length (rd_buf st) < max_buffer_size (rd_limits st)" "max_buffer_size (rd_limits st) \<le> usize_max"
    "0 < chunk" "sock_read (min (rd_available_buf st) chunk) ps = (dat, ps')"
  shows "fill_from_socket chunk st ps = (Ok (length dat), rd_app st dat, ps')"
proof -
  define want where "want = min (rd_available_buf st) chunk"
  have w: "0 < want" "length (rd_buf st) + want \<le> max_buffer_size (rd_limits st)"
    using assms(2,4) by (auto simp: want_def rd_available_buf_def available_buf_def)
  then have m: "rd_mut_buf st want = (Ok (replicate want (CHR 0x00)),
      st\<lparr>rd_buf := rd_buf st @ replicate want (CHR 0x00), rd_pending := want\<rparr>)"
    using assms(1,3) by (simp add: rd_mut_buf_def mut_buf_def checked_add_def)
  have d: "length dat \<le> want" using sock_read_bytes [OF assms(5)] by (simp add: want_def)
  then show ?thesis
    using w m assms(1,5) unfolding fill_from_socket_def want_def [symmetric]
    by (auto simp: write_slot_def rd_advance_buf_def advance_buf_def rd_app_def Let_def)
qed

section \<open>Receiving a request\<close>

text \<open>
  The first loop of \<open>handle_client\<close>: read until the head is there. \<open>Ok None\<close> is a client that closed
  the connection. Every read that is not the last takes bytes from the socket, so the loop ends.
\<close>

definition READ_CHUNK :: nat where
  "READ_CHUNK = 4096"

lemma fill_from_socket_less:
  "fill_from_socket chunk st ps = (Ok n, st', ps') \<Longrightarrow> n \<noteq> 0 \<Longrightarrow> length (concat ps') < length (concat ps)"
  by (auto simp: fill_from_socket_def Let_def result_iff split: if_splits prod.splits result.splits dest: sock_read_less)

function recv_head ::
  "'d Decompressor \<Rightarrow> 'd RequestDecoder \<Rightarrow> string list \<Rightarrow>
     ((RequestHead \<times> BodyKind) option, ProxyError) result \<times> 'd RequestDecoder \<times> string list" where
  "recv_head D st ps =
     (case fill_from_socket READ_CHUNK st ps of
        (Err e, st', ps') \<Rightarrow> (Err e, st', ps')
      | (Panic, st', ps') \<Rightarrow> (Panic, st', ps')
      | (Ok n, st', ps') \<Rightarrow>
          if n = 0 then (Ok None, st', ps')
          else
            (case rd_decode_headers D st' of
               (Ok (Some x), st'') \<Rightarrow> (Ok (Some x), st'', ps')
             | (Ok None, st'') \<Rightarrow> recv_head D st'' ps'
             | (Err e, st'') \<Rightarrow> (Err (FromDecoder e), st'', ps')
             | (Panic, st'') \<Rightarrow> (Panic, st'', ps')))"
  by pat_completeness auto
termination
  by (relation "measure (\<lambda>(_, _, ps). length (concat ps))") (auto dest: fill_from_socket_less [OF sym])

declare recv_head.simps [simp del]

text \<open>The loop that collects the body.\<close>

function recv_body ::
  "'d RequestDecoder \<Rightarrow> string list \<Rightarrow> string \<Rightarrow> (string, ProxyError) result \<times> 'd RequestDecoder \<times> string list" where
  "recv_body st ps body =
     (case stream_loop st body of
        (Ok True, st', body') \<Rightarrow> (Ok body', st', ps)
      | (Err e, st', body') \<Rightarrow> (Err (FromDecoder e), st', ps)
      | (Panic, st', body') \<Rightarrow> (Panic, st', ps)
      | (Ok False, st', body') \<Rightarrow>
          (case fill_from_socket READ_CHUNK st' ps of
             (Err e, st'', ps') \<Rightarrow> (Err e, st'', ps')
           | (Panic, st'', ps') \<Rightarrow> (Panic, st'', ps')
           | (Ok n, st'', ps') \<Rightarrow>
               if n = 0 then (Err (ErrorText ''client disconnected during request body''), st'', ps')
               else recv_body st'' ps' body'))"
  by pat_completeness auto
termination
  by (relation "measure (\<lambda>(_, ps, _). length (concat ps))") (auto dest: fill_from_socket_less [OF sym])

declare recv_body.simps [simp del]

text \<open>The request as \<open>handle_client\<close> has it before it forwards it: a tunnel request is answered at once.\<close>

definition receive_request ::
  "'d Decompressor \<Rightarrow> 'd RequestDecoder \<Rightarrow> string list \<Rightarrow>
     ((RequestHead \<times> BodyKind \<times> string) option, ProxyError) result \<times> 'd RequestDecoder \<times> string list" where
  "receive_request D st ps =
     (case recv_head D st ps of
        (Ok (Some (head, kind)), st', ps') \<Rightarrow>
          if kind = BodyTunnel \<or> kind = BodyNone then (Ok (Some (head, kind, [])), st', ps')
          else
            (case recv_body st' ps' [] of
               (r, st'', ps'') \<Rightarrow> (and_then r (\<lambda>body. Ok (Some (head, kind, body))), st'', ps''))
      | (Ok None, st', ps') \<Rightarrow> (Ok None, st', ps')
      | (Err e, st', ps') \<Rightarrow> (Err e, st', ps')
      | (Panic, st', ps') \<Rightarrow> (Panic, st', ps'))"

text \<open>What fits in the receive buffer as a whole, with room for one more byte.\<close>

definition fits :: "'d RequestDecoder \<Rightarrow> string list \<Rightarrow> bool" where
  "fits st ps \<longleftrightarrow> rd_pending st = 0 \<and> [] \<notin> set ps \<and> max_buffer_size (rd_limits st) \<le> usize_max
     \<and> length (rd_buf st) + length (concat ps) < max_buffer_size (rd_limits st)"

lemma fits_fill:
  assumes "fits st ps" "ps \<noteq> []"
  obtains dat ps' where "fill_from_socket READ_CHUNK st ps = (Ok (length dat), rd_app st dat, ps')"
    "dat \<noteq> []" "dat @ concat ps' = concat ps" "fits (rd_app st dat) ps'"
proof -
  obtain dat ps' where r: "sock_read (min (rd_available_buf st) READ_CHUNK) ps = (dat, ps')" by fastforce
  have l: "length (rd_buf st) < max_buffer_size (rd_limits st)" using assms(1) by (simp add: fits_def)
  then have w: "0 < min (rd_available_buf st) READ_CHUNK" by (simp add: rd_available_buf_def available_buf_def READ_CHUNK_def)
  have f: "fill_from_socket READ_CHUNK st ps = (Ok (length dat), rd_app st dat, ps')"
    using assms(1) l r by (intro fill_from_socket_eq) (simp_all add: fits_def READ_CHUNK_def)
  have "dat \<noteq> [] \<and> [] \<notin> set ps'" using sock_read_some [OF r w] assms by (simp add: fits_def)
  moreover have b: "dat @ concat ps' = concat ps" using sock_read_bytes [OF r] by simp
  moreover have "length (concat ps) = length dat + length (concat ps')" using b by (metis length_append)
  ultimately show ?thesis using that f assms(1) by (simp add: fits_def)
qed

lemma fits_closed:
  assumes "fits st []"
  shows "fill_from_socket READ_CHUNK st [] = (Ok 0, st, [])"
  using fill_from_socket_eq [of st READ_CHUNK "[]" "[]" "[]"] assms
  by (simp add: fits_def sock_read_def READ_CHUNK_def rd_app_Nil)

text \<open>What the loops return, as what the decoder does with all the bytes at once.\<close>

lemma rd_decode_headers_quiet:
  "rd_decode_headers D st = (Ok None, st') \<Longrightarrow> rd_decode_headers D st' = (Ok None, st')"
  using rd_decode_headers_app [of D st "[]"] by (simp add: rd_app_Nil)

lemma fits_keeps:
  assumes "fits st ps" "rd_limits st' = rd_limits st" "rd_pending st' = rd_pending st" "length (rd_buf st') \<le> length (rd_buf st)"
  shows "fits st' ps"
  using assms by (simp add: fits_def)

lemma recv_head_eq:
  assumes "fits st ps" "rd_decode_headers D st = (Ok None, st)"
  shows "\<exists>r st' ps'. recv_head D st ps = (map_err FromDecoder r, st', ps') \<and> fits st' ps' \<and> (r = Ok None \<longrightarrow> ps' = [])
    \<and> rd_decode_headers D (rd_app st (concat ps)) = (r, rd_app st' (concat ps'))"
  using assms
proof (induction D st ps rule: recv_head.induct)
  case (1 D st ps)
  show ?case
  proof (cases "ps = []")
    case True
    with fits_closed [of st] "1.prems" show ?thesis
      by (auto simp: recv_head.simps [of D st] rd_app_Nil map_err_def)
  next
    case False
    then obtain dat ps' where f: "fill_from_socket READ_CHUNK st ps = (Ok (length dat), rd_app st dat, ps')"
      "dat \<noteq> []" "dat @ concat ps' = concat ps" "fits (rd_app st dat) ps'"
      using fits_fill "1.prems"(1) by metis
    obtain r s where h: "rd_decode_headers D (rd_app st dat) = (r, s)" by (cases "rd_decode_headers D (rd_app st dat)") auto
    have k: "rd_keeps (rd_app st dat) s" by (rule rd_decode_headers_keeps [OF h])
    then have fs: "fits s ps'" by (intro fits_keeps [OF f(4)]) (auto simp: rd_keeps_def)
    have app: "rd_decode_headers D (rd_app st (concat ps)) =
        (case r of Ok None \<Rightarrow> rd_decode_headers D (rd_app s (concat ps')) | _ \<Rightarrow> (r, rd_app s (concat ps')))"
      using rd_decode_headers_app [of D "rd_app st dat" "concat ps'"] h f(3)
      by (simp add: rd_app_app split: result.splits option.splits)
    show ?thesis
    proof (cases "r = Ok None")
      case True
      have "recv_head D st ps = recv_head D s ps'" using f h True by (simp add: recv_head.simps [of D st])
      moreover have "rd_decode_headers D s = (Ok None, s)" using h True by (auto intro: rd_decode_headers_quiet)
      note "1.IH" [OF f(1) [symmetric] refl refl _ h [symmetric] True refl fs this]
      ultimately show ?thesis using app True f(2) by simp
    next
      case False
      then have "recv_head D st ps = (map_err FromDecoder r, s, ps')" "rd_decode_headers D (rd_app st (concat ps)) = (r, rd_app s (concat ps'))"
        using f h app by (cases r; auto simp: recv_head.simps [of D st] map_err_def split: option.splits)+
      with False fs show ?thesis by blast
    qed
  qed
qed

definition body_outcome :: "(bool, Error) result \<Rightarrow> string \<Rightarrow> (string, ProxyError) result" where
  "body_outcome r body =
     (case r of
        Ok c \<Rightarrow> if c then Ok body else Err (ErrorText ''client disconnected during request body'')
      | Err e \<Rightarrow> Err (FromDecoder e)
      | Panic \<Rightarrow> Panic)"

lemma recv_body_eq:
  assumes "fits st ps" "loop_phase (rd_phase st)" "rd_inv st" "max_body_size (rd_limits st) \<le> usize_max"
  shows "\<exists>r st' ps' b. recv_body st ps body = (body_outcome r b, st', ps')
    \<and> stream_loop (rd_app st (concat ps)) body = (r, rd_app st' (concat ps'), b)"
  using assms
proof (induction st ps body rule: recv_body.induct)
  case (1 st ps body)
  obtain r s b where l: "stream_loop st body = (r, s, b)" by (metis prod_cases3)
  note k = stream_loop_keeps [OF l "1.prems"(2-4)]
  have app: "stream_loop (rd_app st d) body =
      (case r of Ok False \<Rightarrow> stream_loop (rd_app s d) b | _ \<Rightarrow> (r, rd_app s d, b))" for d
    using stream_loop_app [OF "1.prems"(2-4), of d body] l by (simp split: result.splits bool.splits)
  have fs: "fits s ps" by (rule fits_keeps [OF "1.prems"(1) k(3-5)])
  show ?case
  proof (cases "r = Ok False")
    case True
    show ?thesis
    proof (cases "ps = []")
      case T: True
      have "stream_loop s b = (Ok False, s, b)"
        using app [of "[]"] l True unfolding rd_app_Nil by simp
      with T True l fits_closed [of s] fs app [of "[]"] show ?thesis
        by (auto simp: recv_body.simps [of st] body_outcome_def rd_app_Nil)
    next
      case False
      then obtain dat ps' where f: "fill_from_socket READ_CHUNK s ps = (Ok (length dat), rd_app s dat, ps')"
        "dat \<noteq> []" "dat @ concat ps' = concat ps" "fits (rd_app s dat) ps'"
        using fits_fill fs by metis
      have "recv_body st ps body = recv_body (rd_app s dat) ps' b" using l f True by (simp add: recv_body.simps [of st])
      moreover have "\<exists>r st' ps'' b'. recv_body (rd_app s dat) ps' b = (body_outcome r b', st', ps'')
          \<and> stream_loop (rd_app (rd_app s dat) (concat ps')) b = (r, rd_app st' (concat ps''), b')"
        using f(2,4) k "1.prems"(4)
        by (intro "1.IH" [OF l [symmetric] True _ refl f(1) [symmetric] refl refl]) simp_all
      ultimately show ?thesis using app [of "concat ps"] True f(3) by (simp add: rd_app_app)
    qed
  next
    case False
    then have "recv_body st ps body = (body_outcome r b, s, ps)" "stream_loop (rd_app st (concat ps)) body = (r, rd_app s (concat ps), b)"
      using l app [of "concat ps"] by (cases r; auto simp: recv_body.simps [of st] body_outcome_def split: bool.splits)+
    then show ?thesis by blast
  qed
qed

section \<open>The same request as decode\<close>

text \<open>\<open>decode\<close> in terms of the head and of the streaming loop.\<close>

lemma rd_decode_stream:
  assumes "rd_decode_headers D st = (Ok (Some (h, bk)), s)" "rd_decoded_head st = None" "rd_phase st = StartLine"
    "rd_decoded_body st = []" "bk \<noteq> BodyTunnel" "rd_phase s = rq_body_phase bk"
  shows "\<exists>s'. rd_decode D st =
    ((if bk = BodyNone then Ok (Some (rq_from_raw_parts (rh_method h) (rh_uri h) (rh_version h) (rh_headers h) None))
      else case stream_loop s [] of
          (Ok c, _, b) \<Rightarrow> if c then Ok (Some (rq_from_raw_parts (rh_method h) (rh_uri h) (rh_version h) (rh_headers h) (Some b))) else Ok None
        | (Err e, _, _) \<Rightarrow> Err e
        | (Panic, _, _) \<Rightarrow> Panic), s')
    \<and> rd_buf s' = (if bk = BodyNone then rd_buf s else rd_buf (fst (snd (stream_loop s []))))"
proof -
  have k: "rd_decoded_body s = []" using rd_decode_headers_keeps [OF assms(1)] assms(4) by (simp add: rd_keeps_def)
  let ?s = "s\<lparr>rd_decoded_head := Some h, rd_decoded_body_kind := Some bk\<rparr>"
  have d: "rd_decode D st = rd_decode_body D ?s" using assms(1-3) by (simp add: rd_decode_def)
  show ?thesis
  proof (cases "bk = BodyNone")
    case True
    then show ?thesis unfolding d by (simp add: rd_decode_body_def rd_build_request_def Let_def)
  next
    case False
    obtain r bd buf ph b where
      l: "body_loop (rd_limits s) (rd_body_decoder s) (rd_buf s) (rd_phase s) [] = (r, bd, buf, ph, b)" by (metis prod_cases5)
    then have "rd_body_loop ?s = (r, ?s\<lparr>rd_body_decoder := bd, rd_buf := buf, rd_phase := ph, rd_decoded_body := b\<rparr>)"
      using k by (simp add: rd_body_loop_def)
    moreover have "bk = CloseDelimited \<Longrightarrow> r = Ok True \<and> b = [] \<and> buf = rd_buf s"
      using l assms(6) by (auto simp: rq_body_phase_def body_loop.simps [of _ _ _ PhaseComplete] bd_peek_body_def
          dec_progress_def bd_consume_body_def complete_with_trailers_def)
    ultimately show ?thesis
      using False assms(5) l k unfolding d
      by (cases r; cases bk)
        (auto simp: rd_decode_body_def rd_build_request_def stream_loop_eq Let_def split: bool.splits)
  qed
qed



end
