(* ===== verification/Reverse_Proxy.thy ===== *)
theory Reverse_Proxy
  imports Connection_Pool Stream_Body Rust_Str
begin

text \<open>
  \<^verbatim>\<open>examples/http11_reverse_proxy/src/main.rs\<close>: the upstream URL, the head of the request that is
  forwarded, the head of the response that is returned, and the relay of a response body. Reading the
  request is \<open>Stream_Body\<close>, the pool of upstream connections is \<open>Connection_Pool\<close>.
\<close>

section \<open>The upstream URL\<close>

record UpstreamUrl =
  up_scheme :: Scheme
  up_host :: string
  up_port :: nat

definition upstream_key :: "UpstreamUrl \<Rightarrow> UpstreamKey" where
  "upstream_key u = (up_scheme u, up_host u, up_port u)"

datatype UpstreamUrlError = BadScheme string | EmptyUpstreamHost string | UnterminatedIpv6 string
  | AfterIpv6 string | BadUpstreamPort string

text \<open>The scheme and what follows it.\<close>

definition upstream_scheme :: "string \<Rightarrow> (Scheme \<times> string, UpstreamUrlError) result" where
  "upstream_scheme url =
     (case strip_prefix url ''https://'' of
        Some rest \<Rightarrow> Ok (Https, rest)
      | None \<Rightarrow>
          (case strip_prefix url ''http://'' of
             Some rest \<Rightarrow> Ok (Http, rest)
           | None \<Rightarrow> Err (BadScheme url)))"

text \<open>The host and the text of the port of an authority.\<close>

definition upstream_host_port :: "string \<Rightarrow> string \<Rightarrow> (string \<times> string option, UpstreamUrlError) result" where
  "upstream_host_port url authority =
     (case strip_prefix authority ''['' of
        Some rest \<Rightarrow>
          (case find_char CHR '']'' rest of
             None \<Rightarrow> Err (UnterminatedIpv6 url)
           | Some close \<Rightarrow>
               let hst = take close rest; after = drop (close + 1) rest
               in if after = [] then Ok (hst, None)
                  else (case strip_prefix after '':'' of
                          Some port_str \<Rightarrow> Ok (hst, Some port_str)
                        | None \<Rightarrow> Err (AfterIpv6 url)))
      | None \<Rightarrow>
          (case rfind_char CHR '':'' authority of
             Some colon \<Rightarrow> Ok (take colon authority, Some (drop (colon + 1) authority))
           | None \<Rightarrow> Ok (authority, None)))"

definition parse_upstream_url :: "string \<Rightarrow> (UpstreamUrl, UpstreamUrlError) result" where
  "parse_upstream_url url =
     and_then (upstream_scheme url) (\<lambda>(scheme, rest).
       let authority_end = (case position (\<lambda>c. c = CHR ''/'' \<or> c = CHR ''?'') rest of Some i \<Rightarrow> i | None \<Rightarrow> length rest);
           authority = take authority_end rest
       in reject_if (authority = []) (EmptyUpstreamHost url)
           (and_then (upstream_host_port url authority) (\<lambda>(hst, port_opt).
             reject_if (hst = []) (EmptyUpstreamHost url)
               (and_then
                 (case port_opt of
                    Some s \<Rightarrow> if s = [] then Ok (default_port scheme) else ok_or (parse_u16 s) (BadUpstreamPort url)
                  | None \<Rightarrow> Ok (default_port scheme)) (\<lambda>prt.
                 Ok \<lparr>up_scheme = scheme, up_host = hst, up_port = prt\<rparr>)))))"

definition format_host_header :: "Scheme \<Rightarrow> string \<Rightarrow> nat \<Rightarrow> string" where
  "format_host_header scheme hst prt =
     (let host_part = (if CHR '':'' \<in> set hst then ''['' @ hst @ '']'' else hst)
      in if prt = default_port scheme then host_part else host_part @ '':'' @ nat_to_dec prt)"

section \<open>Which headers are forwarded\<close>

definition HOP_BY_HOP_HEADERS :: "string list" where
  "HOP_BY_HOP_HEADERS = [''connection'', ''keep-alive'', ''proxy-authenticate'', ''proxy-authorization'',
     ''proxy-connection'', ''te'', ''transfer-encoding'', ''upgrade'']"

definition is_hop_by_hop_header :: "string \<Rightarrow> string list \<Rightarrow> bool" where
  "is_hop_by_hop_header name connection_headers =
     (let name_lower = to_ascii_lowercase name
      in name_lower \<in> set HOP_BY_HOP_HEADERS \<or> name_lower \<in> set connection_headers)"

text \<open>The names listed in the Connection headers.\<close>

definition connection_header_names :: "header list \<Rightarrow> string list" where
  "connection_header_names hs =
     concat (map (\<lambda>(_, value). filter (\<lambda>s. s \<noteq> []) (map (\<lambda>s. to_ascii_lowercase (str_trim s)) (split_on CHR '','' value)))
       (filter (\<lambda>(name, _). eq_ignore_ascii_case name ''Connection'') hs))"

fun copy_request_headers :: "string list \<Rightarrow> header list \<Rightarrow> Request \<Rightarrow> (Request, EncodeError) result" where
  "copy_request_headers conns [] r = Ok r"
| "copy_request_headers conns ((name, value) # hs) r =
     (if eq_ignore_ascii_case name ''host'' then copy_request_headers conns hs r
      else if eq_ignore_ascii_case name ''content-length'' then copy_request_headers conns hs r
      else if is_hop_by_hop_header name conns then copy_request_headers conns hs r
      else and_then (rq_add_header r name value) (copy_request_headers conns hs))"

text \<open>The request sent to the upstream.\<close>

definition upstream_request :: "RequestHead \<Rightarrow> BodyKind \<Rightarrow> string \<Rightarrow> string \<Rightarrow> (Request, EncodeError) result" where
  "upstream_request head kind body host_header =
     and_then (rq_new (rh_method head) (rh_uri head)) (\<lambda>r0.
     and_then (copy_request_headers (connection_header_names (rh_headers head)) (rh_headers head) r0) (\<lambda>r1.
     and_then (rq_add_header r1 ''Host'' host_header) (\<lambda>r2.
     and_then (rq_add_header r2 ''Connection'' ''keep-alive'') (\<lambda>r3.
       Ok (if kind = BodyNone then r3 else rq_set_body r3 body)))))"

section \<open>What the proxy does with a client\<close>

text \<open>A CONNECT request is answered with 405 and the methods that are allowed.\<close>

definition connect_rejection :: "(string, EncodeError) result" where
  "connect_rejection =
     and_then (rs_with_status \<lparr>code = 405, canonical_reason = ''Method Not Allowed''\<rparr>) (\<lambda>r0.
     and_then (rs_add_header r0 ''Allow'' ''GET, HEAD, POST, PUT, DELETE, OPTIONS, PATCH'') (\<lambda>r1.
     and_then (rs_add_header r1 ''Content-Length'' ''0'') (\<lambda>r2.
     and_then (rs_add_header r2 ''Connection'' ''close'') encode_response)))"

datatype client_action = ClientGone | Answer string | Forward Request | Fail ProxyError | ClientPanic

text \<open>Up to the point where the upstream comes in: the connection is over, or a request is to be sent.\<close>

definition handle_client ::
  "'d Decompressor \<Rightarrow> 'd RequestDecoder \<Rightarrow> string list \<Rightarrow> string \<Rightarrow> client_action" where
  "handle_client D st ps host_header =
     (case fst (receive_request D st ps) of
        Err e \<Rightarrow> Fail e
      | Panic \<Rightarrow> ClientPanic
      | Ok None \<Rightarrow> ClientGone
      | Ok (Some (head, kind, body)) \<Rightarrow>
          if kind = BodyTunnel then
            (case connect_rejection of Ok out \<Rightarrow> Answer out | Err e \<Rightarrow> Fail (FromEncoder e) | Panic \<Rightarrow> ClientPanic)
          else
            (case upstream_request head kind body host_header of
               Ok r \<Rightarrow> Forward r | Err e \<Rightarrow> Fail (FromEncoder e) | Panic \<Rightarrow> ClientPanic))"

lemma connect_rejection_sent:
  "connect_rejection = Ok (''HTTP/1.1 405 Method Not Allowed'' @ CRLF @ ''Allow: GET, HEAD, POST, PUT, DELETE, OPTIONS, PATCH'' @ CRLF
     @ ''Content-Length: 0'' @ CRLF @ ''Connection: close'' @ CRLF @ CRLF)"
  by code_simp

section \<open>What the upstream receives\<close>

text \<open>The headers that are copied, in their order.\<close>

definition end_to_end :: "string list \<Rightarrow> string \<Rightarrow> bool" where
  "end_to_end conns name \<longleftrightarrow> \<not> eq_ignore_ascii_case name ''host'' \<and> \<not> eq_ignore_ascii_case name ''content-length''
     \<and> \<not> is_hop_by_hop_header name conns"

lemma end_to_end_cong: "eq_ignore_ascii_case a b \<Longrightarrow> end_to_end conns a = end_to_end conns b"
  by (simp add: end_to_end_def is_hop_by_hop_header_def eq_ignore_ascii_case_def)

lemma copy_request_headers_eq:
  "list_all header_ok hs \<Longrightarrow>
     copy_request_headers conns hs r = Ok (r\<lparr>rq_headers := rq_headers r @ filter (\<lambda>h. end_to_end conns (fst h)) hs\<rparr>)"
proof (induction conns hs r rule: copy_request_headers.induct)
  case (2 conns name v hs r)
  then show ?case
    by (auto simp: end_to_end_def header_ok_def rq_add_header_def)
qed simp

lemma fixed_headers_valid:
  "is_valid_header_name ''Host''" "is_valid_header_name ''Connection''" "is_valid_field_value ''keep-alive''"
  "header_ok (''Connection'', ''keep-alive'')"
  by code_simp+

lemma upstream_request_eq:
  assumes "request_head_ok h" "is_valid_field_value host_header"
  shows "upstream_request h kind body host_header =
    Ok \<lparr>rq_method = rh_method h, rq_uri = rh_uri h, rq_version = ''HTTP/1.1'',
       rq_headers = filter (\<lambda>x. end_to_end (connection_header_names (rh_headers h)) (fst x)) (rh_headers h)
         @ [(''Host'', host_header), (''Connection'', ''keep-alive'')],
       rq_body = (if kind = BodyNone then None else Some body)\<rparr>"
proof -
  have n: "rq_new (rh_method h) (rh_uri h) =
      Ok \<lparr>rq_method = rh_method h, rq_uri = rh_uri h, rq_version = ''HTTP/1.1'', rq_headers = [], rq_body = None\<rparr>"
    using assms(1) by (auto simp: rq_new_def request_head_ok_def request_line_parts_def list_all_iff list_ex_iff reject_if_def)
  show ?thesis
    using assms copy_request_headers_eq [of "rh_headers h"] fixed_headers_valid
    by (simp add: upstream_request_def n request_head_ok_def rq_add_header_def rq_set_body_def)
qed

lemma header_values_end_to_end:
  "header_values n (filter (\<lambda>h. end_to_end conns (fst h)) hs) = (if end_to_end conns n then header_values n hs else [])"
proof (induction hs)
  case (Cons h hs)
  then show ?case using end_to_end_cong [of "fst h" n conns] by (auto simp: header_values_def)
qed (simp add: header_values_def)

lemma lower_names:
  "to_ascii_lowercase ''Host'' = ''host''" "to_ascii_lowercase ''host'' = ''host''"
  "to_ascii_lowercase ''Connection'' = ''connection''" "to_ascii_lowercase ''Transfer-Encoding'' = ''transfer-encoding''"
  "to_ascii_lowercase ''Content-Length'' = ''content-length''" "to_ascii_lowercase ''content-length'' = ''content-length''"
  by code_simp+

lemma hop_names_not_forwarded:
  "\<not> end_to_end conns ''Host''" "\<not> end_to_end conns ''Connection''" "\<not> end_to_end conns ''Transfer-Encoding''"
  "\<not> end_to_end conns ''Content-Length''"
  by (simp_all add: end_to_end_def is_hop_by_hop_header_def HOP_BY_HOP_HEADERS_def eq_ignore_ascii_case_def lower_names)

text \<open>
  The request forwarded for a decoded head. It has the method and the target of the client's request and
  its end-to-end headers; one Host, that of the upstream, and one Connection; nothing hop-by-hop, no
  header the client's Connection lists, and no framing header of the client's message.
\<close>

lemma upstream_request_headers:
  assumes "request_head_ok h" "is_valid_field_value host_header" "upstream_request h kind body host_header = Ok r"
  shows "rq_method r = rh_method h" "rq_uri r = rh_uri h" "rq_body r = (if kind = BodyNone then None else Some body)"
    "header_values ''Host'' (rq_headers r) = [host_header]"
    "header_values ''Connection'' (rq_headers r) = [''keep-alive'']"
    "\<not> eq_ignore_ascii_case n ''Host'' \<Longrightarrow> \<not> eq_ignore_ascii_case n ''Connection'' \<Longrightarrow>
       header_values n (rq_headers r) =
         (if end_to_end (connection_header_names (rh_headers h)) n then header_values n (rh_headers h) else [])"
proof -
  note r = upstream_request_eq [OF assms(1,2), of kind body, unfolded assms(3)]
  show "rq_method r = rh_method h" "rq_uri r = rh_uri h" "rq_body r = (if kind = BodyNone then None else Some body)"
    using r by simp_all
  show "header_values ''Host'' (rq_headers r) = [host_header]"
    "header_values ''Connection'' (rq_headers r) = [''keep-alive'']"
    using r by (simp_all add: header_values_append header_values_end_to_end hop_names_not_forwarded)
      (simp_all add: header_values_def eq_ignore_ascii_case_def lower_names)
  show "\<not> eq_ignore_ascii_case n ''Host'' \<Longrightarrow> \<not> eq_ignore_ascii_case n ''Connection'' \<Longrightarrow>
       header_values n (rq_headers r) =
         (if end_to_end (connection_header_names (rh_headers h)) n then header_values n (rh_headers h) else [])"
    using r by (simp add: header_values_append header_values_end_to_end)
      (auto simp: header_values_def eq_ignore_ascii_case_def)
qed

text \<open>A decoder with limits that the headers respect reads the encoded request back, with the body the proxy read.\<close>

lemma upstream_request_sendable:
  assumes "request_head_ok h" "rh_method h \<noteq> ''CONNECT''" "upstream_request h kind body host_header = Ok r"
    "list_all (wire_header l) (rh_headers h)" "wire_header l (''Host'', host_header)" "wire_header l (''Connection'', ''keep-alive'')"
    "wire_header l (''Content-Length'', nat_to_dec (length body))"
    "length (rh_headers h) + 3 \<le> max_headers_count l" "length body \<le> max_body_size l"
  shows "sendable l r"
proof -
  have v: "is_valid_field_value host_header" using assms(5) by (simp add: wire_header_def header_ok_def)
  note r = upstream_request_eq [OF assms(1) v, of kind body, unfolded assms(3)]
  have te: "\<not> has_header (rq_headers r) ''Transfer-Encoding''"
    using r by (simp add: has_header_values header_values_append header_values_end_to_end hop_names_not_forwarded)
      (simp add: header_values_def eq_ignore_ascii_case_def lower_names)
  have "is_valid_protocol_version ''HTTP/1.1''" by code_simp
  then have p: "request_line_parts (rh_method h) (rh_uri h) ''HTTP/1.1''"
    using assms(1) by (auto simp: request_head_ok_def request_line_parts_def)
  have b: "body_len (rq_body r) \<le> length body" using r by (simp add: body_len_def)
  have c: "should_auto_emit_content_length_for_request r \<Longrightarrow> body_len (rq_body r) = length body"
    using r by (auto simp: should_auto_emit_content_length_for_request_def body_len_def split: if_splits)
  have "list_all (wire_header l) (request_headers_sent r)"
    using r assms(4-7) c by (auto simp: request_headers_sent_def auto_content_length_def list_all_iff)
  moreover have "length (rq_headers r) \<le> length (rh_headers h) + 2" using r by simp
  then have "length (request_headers_sent r) \<le> max_headers_count l"
    using assms(8) by (simp add: request_headers_sent_def auto_content_length_def)
  ultimately show ?thesis using r te p assms(2,9) b by (simp add: sendable_def)
qed



text \<open>
  A request in absolute form for another authority than the upstream is not forwarded: the proxy keeps
  the target and replaces the Host, and the encoder rejects the pair.
\<close>

lemma absolute_form_not_forwarded:
  assumes "request_head_ok h" "is_valid_field_value host_header" "upstream_request h kind body host_header = Ok r"
    "contains_sub (rh_uri h) ''://''" "extract_authority_from_uri (rh_uri h) = Some a" "a \<noteq> []"
    "\<not> eq_ignore_ascii_case a host_header"
  shows "\<exists>e. encode_request r = Err e"
proof -
  have "map snd (filter (\<lambda>h. eq_ignore_ascii_case (fst h) ''Host'') (rq_headers r)) = [host_header]"
    using upstream_request_headers(4) [OF assms(1-3)] by (simp add: header_values_def)
  moreover have "rq_version r = ''HTTP/1.1''" "rq_uri r = rh_uri h"
    using upstream_request_eq [OF assms(1,2), of kind body] assms(3) by simp_all
  ultimately have "validate_host_header r \<noteq> Ok u" for u
    using assms(4-7) by (auto simp: validate_host_header_def host_matches_absolute_def result_iff)
  then have "request_checks r \<noteq> Ok u" for u by (auto simp: request_checks_def result_iff)
  then obtain e where "request_checks r = Err e" using request_checks_not_Panic [of r] by (cases "request_checks r") auto
  then show ?thesis by (simp add: encode_request_def)
qed

section \<open>The response returned to the client\<close>

fun copy_response_headers :: "string list \<Rightarrow> header list \<Rightarrow> Response \<Rightarrow> (Response, EncodeError) result" where
  "copy_response_headers conns [] r = Ok r"
| "copy_response_headers conns ((name, value) # hs) r =
     (if is_hop_by_hop_header name conns then copy_response_headers conns hs r
      else if eq_ignore_ascii_case name ''content-length'' \<or> eq_ignore_ascii_case name ''transfer-encoding''
      then copy_response_headers conns hs r
      else and_then (rs_add_header r name value) (copy_response_headers conns hs))"

definition returned_content_length :: "ResponseHead \<Rightarrow> BodyKind \<Rightarrow> string \<Rightarrow> (nat option, ProxyError) result" where
  "returned_content_length head kind req_method =
     (case kind of
        ContentLength len \<Rightarrow> Ok (Some len)
      | BodyNone \<Rightarrow>
          if eq_ignore_ascii_case req_method ''HEAD''
          then map_err FromDecoder (content_length (sh_headers head)) else Ok None
      | _ \<Rightarrow> Ok None)"

text \<open>The head for the client, and whether the upstream connection can be used again.\<close>

definition returned_response ::
  "ResponseHead \<Rightarrow> BodyKind \<Rightarrow> string \<Rightarrow> (Response \<times> bool, ProxyError) result" where
  "returned_response head kind req_method =
     (let can_reuse = is_keep_alive (sh_version head) (sh_headers head) \<and> kind \<noteq> CloseDelimited
      in and_then (map_err FromEncoder (rs_new (sh_status_code head) (sh_reason_phrase head))) (\<lambda>r0.
         and_then (returned_content_length head kind req_method) (\<lambda>len.
         and_then (map_err FromEncoder (copy_response_headers (connection_header_names (sh_headers head)) (sh_headers head) r0)) (\<lambda>r1.
         and_then (map_err FromEncoder
           (case len of
              Some n \<Rightarrow> rs_add_header r1 ''Content-Length'' (nat_to_dec n)
            | None \<Rightarrow>
                if kind = Chunked then rs_add_header r1 ''Transfer-Encoding'' ''chunked''
                else if kind = CloseDelimited then rs_add_header r1 ''Connection'' ''close''
                else Ok r1)) (\<lambda>r2.
           Ok (r2, can_reuse))))))"

definition response_end_to_end :: "string list \<Rightarrow> string \<Rightarrow> bool" where
  "response_end_to_end conns name \<longleftrightarrow> \<not> is_hop_by_hop_header name conns
     \<and> \<not> eq_ignore_ascii_case name ''content-length'' \<and> \<not> eq_ignore_ascii_case name ''transfer-encoding''"

lemma copy_response_headers_eq:
  "list_all header_ok hs \<Longrightarrow>
     copy_response_headers conns hs r = Ok (r\<lparr>rs_headers := rs_headers r @ filter (\<lambda>h. response_end_to_end conns (fst h)) hs\<rparr>)"
proof (induction conns hs r rule: copy_response_headers.induct)
  case (2 conns name v hs r)
  then show ?case
    by (auto simp: response_end_to_end_def header_ok_def rs_add_header_def)
qed simp

lemma header_values_response_end_to_end:
  "header_values n (filter (\<lambda>h. response_end_to_end conns (fst h)) hs) =
     (if response_end_to_end conns n then header_values n hs else [])"
proof (induction hs)
  case (Cons h hs)
  have "eq_ignore_ascii_case (fst h) n \<Longrightarrow> response_end_to_end conns (fst h) = response_end_to_end conns n"
    by (simp add: response_end_to_end_def is_hop_by_hop_header_def eq_ignore_ascii_case_def)
  with Cons show ?case by (auto simp: header_values_def)
qed (simp add: header_values_def)

lemma hop_names_not_returned:
  "\<not> response_end_to_end conns ''Connection''" "\<not> response_end_to_end conns ''Transfer-Encoding''"
  "\<not> response_end_to_end conns ''Content-Length''"
  by (simp_all add: response_end_to_end_def is_hop_by_hop_header_def HOP_BY_HOP_HEADERS_def eq_ignore_ascii_case_def lower_names)

text \<open>The header the proxy adds for the framing of the body.\<close>

definition framing_header :: "BodyKind \<Rightarrow> nat option \<Rightarrow> header list" where
  "framing_header kind len =
     (case len of
        Some n \<Rightarrow> [(''Content-Length'', nat_to_dec n)]
      | None \<Rightarrow>
          if kind = Chunked then [(''Transfer-Encoding'', ''chunked'')]
          else if kind = CloseDelimited then [(''Connection'', ''close'')] else [])"

lemma returned_response_eq:
  assumes "list_all header_ok (sh_headers h)" "returned_response h kind m = Ok (r, reuse)"
  obtains len where "returned_content_length h kind m = Ok len"
    "rs_status_code r = sh_status_code h" "rs_reason_phrase r = sh_reason_phrase h" "rs_version r = ''HTTP/1.1''"
    "rs_headers r = filter (\<lambda>x. response_end_to_end (connection_header_names (sh_headers h)) (fst x)) (sh_headers h)
       @ framing_header kind len"
    "reuse \<longleftrightarrow> is_keep_alive (sh_version h) (sh_headers h) \<and> kind \<noteq> CloseDelimited"
  using assms(2) copy_response_headers_eq [OF assms(1)]
  by (auto simp: returned_response_def Let_def result_iff map_err_Ok_iff rs_new_def rs_add_header_def framing_header_def
      split: option.splits if_splits)

text \<open>
  The framing of the returned head is that of the body the upstream decoder announced: one
  Content-Length, or one chunked Transfer-Encoding, or neither, never both; every other header is one
  of the upstream's end-to-end headers. A connection whose body ends with it is not used again.
\<close>

lemma returned_response_headers:
  assumes "list_all header_ok (sh_headers h)" "returned_response h kind m = Ok (r, reuse)"
  shows "rs_status_code r = sh_status_code h \<and> rs_reason_phrase r = sh_reason_phrase h
    \<and> header_values ''Transfer-Encoding'' (rs_headers r) = (if kind = Chunked then [''chunked''] else [])
    \<and> (kind = ContentLength n \<longrightarrow> header_values ''Content-Length'' (rs_headers r) = [nat_to_dec n])
    \<and> (kind \<in> {Chunked, CloseDelimited, BodyTunnel} \<longrightarrow> header_values ''Content-Length'' (rs_headers r) = [])
    \<and> header_values ''Connection'' (rs_headers r) = (if kind = CloseDelimited then [''close''] else [])
    \<and> (reuse \<longrightarrow> is_keep_alive (sh_version h) (sh_headers h) \<and> kind \<noteq> CloseDelimited)"
proof -
  have v: "header_values n [(k, v)] = (if eq_ignore_ascii_case k n then [v] else [])" for n k v
    by (simp add: header_values_def)
  have e: "header_values n [] = []" for n by (simp add: header_values_def)
  obtain len where l: "returned_content_length h kind m = Ok len"
    "rs_status_code r = sh_status_code h" "rs_reason_phrase r = sh_reason_phrase h"
    "rs_headers r = filter (\<lambda>x. response_end_to_end (connection_header_names (sh_headers h)) (fst x)) (sh_headers h)
       @ framing_header kind len"
    "reuse \<longleftrightarrow> is_keep_alive (sh_version h) (sh_headers h) \<and> kind \<noteq> CloseDelimited"
    using returned_response_eq [OF assms] by metis
  show ?thesis
    using l by (cases kind)
      (auto simp: header_values_append header_values_response_end_to_end hop_names_not_returned framing_header_def v e
        eq_ignore_ascii_case_def lower_names returned_content_length_def split: option.splits if_splits)
qed

end
