(* ===== verification/Body_Relay.thy ===== *)
theory Body_Relay
  imports Reverse_Proxy Response_Stream
begin

text \<open>
  The second half of \<open>stream_response_on_connection\<close>
  (\<^verbatim>\<open>examples/http11_reverse_proxy/src/main.rs\<close>): the body of an upstream response is relayed to
  the client while it is decoded, chunk by chunk when it came chunked. What the client decodes is the body
  the upstream sent.
\<close>

section \<open>What is written\<close>

text \<open>The last chunk, with the trailers if there are any.\<close>

definition write_last_chunk :: "header list \<Rightarrow> (string, 'e) result" where
  "write_last_chunk trls =
     (if trls = [] then encode_chunk []
      else Ok (''0'' @ CRLF @ concat (map (\<lambda>(name, value). name @ '': '' @ value @ CRLF) trls) @ CRLF))"

definition relay_data :: "bool \<Rightarrow> string \<Rightarrow> (string, 'e) result" where
  "relay_data use_chunked dat = (if use_chunked then encode_chunk dat else Ok dat)"

definition relay_end :: "bool \<Rightarrow> header list \<Rightarrow> (string, 'e) result" where
  "relay_end use_chunked trls = (if use_chunked then write_last_chunk trls else Ok [])"

section \<open>The loop over the buffered bytes\<close>

lemma sd_consume_peeked:
  assumes "sd_peek_body st = Some dat" "sd_consume_body st (length dat) = (Ok p, st')"
  shows "length (sd_buf st') < length (sd_buf st)"
  using assms consume_peeked_decreases [of "sd_buf st" "sd_phase st" dat "sd_body_decoder st" "sd_limits st" p]
  by (auto simp: sd_peek_body_def sd_consume_body_def sd_put_body_def dec_consume_body_def split: prod.splits if_splits)

lemma sd_progress_advances:
  "sd_progress st = (Ok Advanced, st') \<Longrightarrow> length (sd_buf st') < length (sd_buf st)"
  using progress_decreases [of "sd_body_decoder st" "sd_buf st" "sd_phase st" "sd_limits st"]
  by (auto simp: sd_progress_def sd_put_body_def dec_progress_def split: prod.splits)

text \<open>
  \<open>out\<close> is what has been written downstream. \<open>Ok True\<close> is a complete body, \<open>Ok False\<close> a request for
  more bytes from the upstream.
\<close>

function relay_loop ::
  "bool \<Rightarrow> 'd ResponseDecoder \<Rightarrow> string \<Rightarrow> (bool, Error) result \<times> 'd ResponseDecoder \<times> string" where
  "relay_loop use_chunked st out =
     (case sd_peek_body st of
        Some dat \<Rightarrow>
          (case relay_data use_chunked dat of
             Ok bytes \<Rightarrow>
               (case sd_consume_body st (length dat) of
                  (Ok p, st') \<Rightarrow>
                    (case p of
                       Complete trls \<Rightarrow>
                         (case relay_end use_chunked trls of
                            Ok e \<Rightarrow> (Ok True, st', out @ bytes @ e)
                          | Err e \<Rightarrow> (Err e, st', out @ bytes)
                          | Panic \<Rightarrow> (Panic, st', out @ bytes))
                     | Advanced \<Rightarrow> relay_loop use_chunked st' (out @ bytes)
                     | NeedData \<Rightarrow> relay_loop use_chunked st' (out @ bytes))
                | (Err e, st') \<Rightarrow> (Err e, st', out @ bytes)
                | (Panic, st') \<Rightarrow> (Panic, st', out @ bytes))
           | Err e \<Rightarrow> (Err e, st, out)
           | Panic \<Rightarrow> (Panic, st, out))
      | None \<Rightarrow>
          (case sd_progress st of
             (Ok p, st') \<Rightarrow>
               (case p of
                  Complete trls \<Rightarrow>
                    (case relay_end use_chunked trls of
                       Ok e \<Rightarrow> (Ok True, st', out @ e)
                     | Err e \<Rightarrow> (Err e, st', out)
                     | Panic \<Rightarrow> (Panic, st', out))
                | Advanced \<Rightarrow> relay_loop use_chunked st' out
                | NeedData \<Rightarrow> (Ok False, st', out))
           | (Err e, st') \<Rightarrow> (Err e, st', out)
           | (Panic, st') \<Rightarrow> (Panic, st', out)))"
  by pat_completeness auto
termination
  by (relation "measure (\<lambda>(_, st, _). length (sd_buf st))")
    (auto intro: sd_consume_peeked [OF _ sym] sd_progress_advances [OF sym])

declare relay_loop.simps [simp del]

text \<open>The bytes for the pieces of a body, and for its end with some trailers.\<close>

definition relayed :: "bool \<Rightarrow> string list \<Rightarrow> string" where
  "relayed use_chunked cs = concat (map (\<lambda>c. if use_chunked then chunk_frame c else c) cs)"

lemma relayed_simps [simp]:
  "relayed u [] = []" "relayed u (cs @ ds) = relayed u cs @ relayed u ds"
  "relayed u [c] = (if u then chunk_frame c else c)" "relayed False cs = concat cs"
  by (simp_all add: relayed_def)

lemma relay_data_eq:
  "dat \<noteq> [] \<Longrightarrow> length dat \<le> usize_max \<Longrightarrow> relay_data u dat = Ok (relayed u [dat])"
  by (simp add: relay_data_def encode_chunk_frame)

lemma relay_end_ok: "\<exists>e. relay_end u ts = (Ok e :: (string, Error) result)"
  by (simp add: relay_end_def write_last_chunk_def encode_chunk_def)

definition relay_tail :: "bool \<Rightarrow> (bool, Error) result \<Rightarrow> string \<Rightarrow> bool" where
  "relay_tail u r t \<longleftrightarrow> (if r = Ok True then \<exists>ts. relay_end u ts = (Ok t :: (string, Error) result) else t = [])"

lemma peek_body_nonempty: "bd_peek_body buf ph = Some dat \<Longrightarrow> dat \<noteq> [] \<and> length dat \<le> length buf"
  by (auto simp: bd_peek_body_def Let_def min_def split: DecodePhase.splits if_splits)

text \<open>The loop decodes like \<open>decode\<close>, and writes the same body in pieces.\<close>

lemma relay_loop_eq:
  assumes "body_loop (sd_limits st) (sd_body_decoder st) (sd_buf st) (sd_phase st) acc = (r, bd, buf, ph, acc')"
    "length (sd_buf st) \<le> usize_max"
  shows "\<exists>cs t. relay_loop u st out = (r, st\<lparr>sd_body_decoder := bd, sd_buf := buf, sd_phase := ph\<rparr>, out @ relayed u cs @ t)
    \<and> acc' = acc @ concat cs \<and> [] \<notin> set cs \<and> relay_tail u r t"
  using assms
proof (induction u st out arbitrary: acc r bd buf ph acc' rule: relay_loop.induct)
  case (1 u st out)
  let ?l = "sd_limits st" and ?bd = "sd_body_decoder st" and ?b = "sd_buf st" and ?ph = "sd_phase st"
  show ?case
  proof (cases "bd_peek_body ?b ?ph")
    case None
    then have pk: "sd_peek_body st = None" by (simp add: sd_peek_body_def)
    obtain q bd1 buf1 ph1 where d: "dec_progress ?bd ?b ?ph ?l = (q, bd1, buf1, ph1)" by (metis prod_cases4)
    let ?s = "st\<lparr>sd_body_decoder := bd1, sd_buf := buf1, sd_phase := ph1\<rparr>"
    have p: "sd_progress st = (q, ?s)" using d by (simp add: sd_progress_def sd_put_body_def)
    show ?thesis
    proof (cases "q = Ok Advanced")
      case True
      have "body_loop ?l bd1 buf1 ph1 acc = (r, bd, buf, ph, acc')"
        using "1.prems"(1) None d True by (simp add: body_loop.simps [of ?l ?bd])
      moreover have "length buf1 \<le> usize_max" using sd_progress_advances [of st ?s] p True "1.prems"(2) by simp
      moreover have "relay_loop u st out = relay_loop u ?s out" using pk p True by (simp add: relay_loop.simps [of u st])
      ultimately show ?thesis using "1.IH"(1) [OF pk p [symmetric] True refl, of acc r bd buf ph acc'] by auto
    next
      case False
      show ?thesis
      proof (cases "\<exists>ts. q = Ok (Complete ts)")
        case True
        then obtain ts e where "q = Ok (Complete ts)" "relay_end u ts = (Ok e :: (string, Error) result)"
          using relay_end_ok by blast
        with "1.prems"(1) None pk d p show ?thesis
          by (intro exI [of _ "[]"] exI [of _ e])
            (auto simp: relay_loop.simps [of u st] body_loop.simps [of ?l ?bd] relay_tail_def)
      next
        case F: False
        with False "1.prems"(1) None pk d p show ?thesis
          by (cases q) (auto simp: relay_loop.simps [of u st] body_loop.simps [of ?l ?bd] relay_tail_def
            split: BodyProgress.splits intro!: exI [of _ "[]"])
      qed
    qed
  next
    case (Some dat)
    then have pk: "sd_peek_body st = Some dat" by (simp add: sd_peek_body_def)
    note ne = peek_body_nonempty [OF Some]
    have "relay_data u dat = (Ok (relayed u [dat]) :: (string, Error) result)"
      using ne "1.prems"(2) by (intro relay_data_eq) auto
    then obtain bytes where rd: "relay_data u dat = (Ok bytes :: (string, Error) result)" and bytes: "bytes = relayed u [dat]" by blast
    obtain q bd1 buf1 ph1 where d: "dec_consume_body ?bd ?b ?ph (length dat) ?l = (q, bd1, buf1, ph1)" by (metis prod_cases4)
    let ?s = "st\<lparr>sd_body_decoder := bd1, sd_buf := buf1, sd_phase := ph1\<rparr>"
    have p: "sd_consume_body st (length dat) = (q, ?s)" using d by (simp add: sd_consume_body_def sd_put_body_def)
    show ?thesis
    proof (cases "q = Ok Advanced \<or> q = Ok NeedData")
      case True
      then obtain x where x: "q = Ok x" "x = Advanced \<or> x = NeedData" by blast
      then have "ph1 \<noteq> PhaseComplete" using consume_peeked_complete [OF Some d [unfolded x(1)]] by auto
      then have "body_loop ?l bd1 buf1 ph1 (acc @ dat) = (r, bd, buf, ph, acc')"
        using "1.prems"(1) Some d x by (simp add: body_loop.simps [of ?l ?bd])
      moreover have "length buf1 \<le> usize_max" using sd_consume_peeked [OF pk, of x ?s] p x(1) "1.prems"(2) by simp
      moreover have "relay_loop u st out = relay_loop u ?s (out @ bytes)"
        using pk p rd x by (auto simp: relay_loop.simps [of u st])
      ultimately obtain cs t where "relay_loop u st out = (r, st\<lparr>sd_body_decoder := bd, sd_buf := buf, sd_phase := ph\<rparr>,
          (out @ bytes) @ relayed u cs @ t)" "acc' = (acc @ dat) @ concat cs" "[] \<notin> set cs" "relay_tail u r t"
        using "1.IH"(2) [OF pk rd p [symmetric] x(1), of "acc @ dat" r bd buf ph acc']
          "1.IH"(3) [OF pk rd p [symmetric] x(1), of "acc @ dat" r bd buf ph acc'] x(2) by auto
      with ne bytes show ?thesis by (intro exI [of _ "dat # cs"] exI [of _ t]) (auto simp: relayed_def)
    next
      case False
      have c: "q = Ok x \<Longrightarrow> (\<exists>ts. x = Complete ts) \<longleftrightarrow> ph1 = PhaseComplete" for x
        using consume_peeked_complete [OF Some] d by blast
      show ?thesis
      proof (cases q)
        case (Ok x)
        then obtain ts where "x = Complete ts" using False by (cases x) auto
        moreover obtain e where "relay_end u ts = (Ok e :: (string, Error) result)" using relay_end_ok by blast
        ultimately show ?thesis using Ok c [OF Ok] Some pk p d rd ne "1.prems"(1)
          by (intro exI [of _ "[dat]"] exI [of _ e])
            (auto simp: relay_loop.simps [of u st] body_loop.simps [of ?l ?bd] relay_tail_def bytes [symmetric] simp del: relayed_simps)
      qed (use Some pk p d rd ne "1.prems"(1) bytes in \<open>auto intro!: exI [of _ "[dat]"]
          simp: relay_loop.simps [of u st] body_loop.simps [of ?l ?bd] relay_tail_def\<close>)
    qed
  qed
qed

section \<open>Reading on from the upstream\<close>

definition UPSTREAM_CHUNK :: nat where
  "UPSTREAM_CHUNK = 8192"

definition fill_from_upstream ::
  "'d ResponseDecoder \<Rightarrow> string list \<Rightarrow> (nat, ProxyError) result \<times> 'd ResponseDecoder \<times> string list" where
  "fill_from_upstream st ps =
     (let want = min (sd_available_buf st) UPSTREAM_CHUNK
      in if want = 0 then (Err (ErrorText ''decoder buffer full''), st, ps)
         else
           (case sd_mut_buf st want of
              (Err e, st') \<Rightarrow> (Err (FromDecoder e), st', ps)
            | (Panic, st') \<Rightarrow> (Panic, st', ps)
            | (Ok slot, st') \<Rightarrow>
                (case sock_read (length slot) ps of
                   (dat, ps') \<Rightarrow>
                     (case sd_advance_buf (st'\<lparr>sd_buf := write_slot (sd_buf st') (sd_pending st') dat\<rparr>) (length dat) of
                        (r, st'') \<Rightarrow> (and_then (map_err FromDecoder r) (\<lambda>_. Ok (length dat)), st'', ps')))))"

lemma fill_from_upstream_less:
  "fill_from_upstream st ps = (Ok n, st', ps') \<Longrightarrow> n \<noteq> 0 \<Longrightarrow> length (concat ps') < length (concat ps)"
  by (auto simp: fill_from_upstream_def Let_def result_iff split: if_splits prod.splits result.splits dest: sock_read_less)

function relay_body ::
  "bool \<Rightarrow> 'd ResponseDecoder \<Rightarrow> string list \<Rightarrow> string \<Rightarrow>
     (unit, ProxyError) result \<times> 'd ResponseDecoder \<times> string list \<times> string" where
  "relay_body use_chunked st ps out =
     (case relay_loop use_chunked st out of
        (Ok True, st', out') \<Rightarrow> (Ok (), st', ps, out')
      | (Err e, st', out') \<Rightarrow> (Err (FromDecoder e), st', ps, out')
      | (Panic, st', out') \<Rightarrow> (Panic, st', ps, out')
      | (Ok False, st', out') \<Rightarrow>
          (case fill_from_upstream st' ps of
             (Err e, st'', ps') \<Rightarrow> (Err e, st'', ps', out')
           | (Panic, st'', ps') \<Rightarrow> (Panic, st'', ps', out')
           | (Ok n, st'', ps') \<Rightarrow>
               if n = 0 then (Err (ErrorText ''upstream disconnected during response body''), st'', ps', out')
               else relay_body use_chunked st'' ps' out'))"
  by pat_completeness auto
termination
  by (relation "measure (\<lambda>(_, _, ps, _). length (concat ps))") (auto dest: fill_from_upstream_less [OF sym])

declare relay_body.simps [simp del]

text \<open>A body that ends with the connection: what the decoder still holds, then everything until the end.\<close>

function copy_until_eof :: "string list \<Rightarrow> string \<Rightarrow> string \<times> string list" where
  "copy_until_eof ps out =
     (case sock_read UPSTREAM_CHUNK ps of (dat, ps') \<Rightarrow> if dat = [] then (out, ps') else copy_until_eof ps' (out @ dat))"
  by pat_completeness auto
termination
  by (relation "measure (\<lambda>(ps, _). length (concat ps))") (auto dest: sock_read_less [OF sym])

declare copy_until_eof.simps [simp del]

definition relay_close_delimited :: "'d ResponseDecoder \<Rightarrow> string list \<Rightarrow> string \<times> 'd ResponseDecoder" where
  "relay_close_delimited st ps =
     (case sd_take_remaining st of (leftover, st') \<Rightarrow> (fst (copy_until_eof ps leftover), st'))"

lemma copy_until_eof_eq: "[] \<notin> set ps \<Longrightarrow> copy_until_eof ps out = (out @ concat ps, [])"
proof (induction ps out rule: copy_until_eof.induct)
  case (1 ps out)
  obtain dat ps' where r: "sock_read UPSTREAM_CHUNK ps = (dat, ps')" by fastforce
  note b = sock_read_bytes [OF r]
  show ?case
  proof (cases "ps = []")
    case False
    then have "dat \<noteq> [] \<and> [] \<notin> set ps'" using sock_read_some [OF r] "1.prems" by (simp add: UPSTREAM_CHUNK_def)
    with "1.IH" [OF r [symmetric]] r b show ?thesis by (auto simp: copy_until_eof.simps [of ps])
  qed (use r in \<open>auto simp: copy_until_eof.simps [of "[]"] sock_read_def\<close>)
qed

text \<open>Every byte after the head reaches the client, those read together with the head first.\<close>

lemma relay_close_delimited_eq: "[] \<notin> set ps \<Longrightarrow> fst (relay_close_delimited st ps) = sd_buf st @ concat ps"
  by (simp add: relay_close_delimited_def sd_take_remaining_def copy_until_eof_eq)

section \<open>The relayed body\<close>

definition upstream_fits :: "'d ResponseDecoder \<Rightarrow> string list \<Rightarrow> bool" where
  "upstream_fits st ps \<longleftrightarrow> sd_pending st = 0 \<and> [] \<notin> set ps \<and> max_buffer_size (sd_limits st) \<le> usize_max
     \<and> length (sd_buf st) + length (concat ps) < max_buffer_size (sd_limits st)"

lemma fill_from_upstream_eq:
  assumes "upstream_fits st ps"
  obtains dat ps' where "fill_from_upstream st ps = (Ok (length dat), sd_app st dat, ps')"
    "dat @ concat ps' = concat ps" "upstream_fits (sd_app st dat) ps'" "dat = [] \<longleftrightarrow> ps = []"
proof -
  define want where "want = min (sd_available_buf st) UPSTREAM_CHUNK"
  have a: "sd_pending st = 0" "max_buffer_size (sd_limits st) \<le> usize_max" "[] \<notin> set ps"
    "length (sd_buf st) + length (concat ps) < max_buffer_size (sd_limits st)" using assms by (simp_all add: upstream_fits_def)
  then have w: "0 < want" "length (sd_buf st) + want \<le> max_buffer_size (sd_limits st)"
    by (auto simp: want_def sd_available_buf_def available_buf_def UPSTREAM_CHUNK_def)
  then have m: "sd_mut_buf st want = (Ok (replicate want (CHR 0x00)),
      st\<lparr>sd_buf := sd_buf st @ replicate want (CHR 0x00), sd_pending := want\<rparr>)"
    using a(1,2) by (simp add: sd_mut_buf_def mut_buf_def checked_add_def)
  obtain dat ps' where r: "sock_read want ps = (dat, ps')" by fastforce
  note b = sock_read_bytes [OF r]
  have "fill_from_upstream st ps = (Ok (length dat), sd_app st dat, ps')"
    using w m b r a(1) unfolding fill_from_upstream_def want_def [symmetric]
    by (auto simp: write_slot_def sd_advance_buf_def advance_buf_def sd_app_def Let_def)
  moreover have "length (concat ps) = length dat + length (concat ps')" using b by (metis length_append)
  moreover have "dat = [] \<longleftrightarrow> ps = []" "[] \<notin> set ps'"
    using sock_read_some [OF r w(1) a(3)] r by (cases ps; auto simp: sock_read_def)+
  ultimately show ?thesis using that b a by (simp add: upstream_fits_def)
qed

definition relay_outcome :: "(bool, Error) result \<Rightarrow> (unit, ProxyError) result" where
  "relay_outcome r =
     (case r of
        Ok c \<Rightarrow> if c then Ok () else Err (ErrorText ''upstream disconnected during response body'')
      | Err e \<Rightarrow> Err (FromDecoder e)
      | Panic \<Rightarrow> Panic)"

lemma relay_body_eq:
  assumes "upstream_fits st ps" "loop_phase (sd_phase st)" "sd_inv st" "max_body_size (sd_limits st) \<le> usize_max"
  shows "\<exists>r st' ps' cs t. relay_body u st ps out = (relay_outcome r, st', ps', out @ relayed u cs @ t)
    \<and> body_loop (sd_limits st) (sd_body_decoder st) (sd_buf st @ concat ps) (sd_phase st) acc =
        (r, sd_body_decoder st', sd_buf st' @ concat ps', sd_phase st', acc @ concat cs)
    \<and> [] \<notin> set cs \<and> relay_tail u r t"
  using assms
proof (induction u st ps out arbitrary: acc rule: relay_body.induct)
  case (1 u st ps out)
  let ?l = "sd_limits st"
  obtain r bd buf ph acc' where l: "body_loop ?l (sd_body_decoder st) (sd_buf st) (sd_phase st) acc = (r, bd, buf, ph, acc')"
    by (metis prod_cases5)
  let ?s = "st\<lparr>sd_body_decoder := bd, sd_buf := buf, sd_phase := ph\<rparr>"
  have len: "length (sd_buf st) \<le> usize_max" using "1.prems"(1) by (simp add: upstream_fits_def)
  obtain cs t where o: "relay_loop u st out = (r, ?s, out @ relayed u cs @ t)" "acc' = acc @ concat cs" "[] \<notin> set cs"
    "relay_tail u r t" using relay_loop_eq [OF l len] by blast
  have bi: "body_inv ?l (sd_body_decoder st) (sd_phase st)" using "1.prems"(3) by (simp add: sd_inv_def)
  note i = body_loop_inv [OF l bi "1.prems"(2,4)]
  have app: "body_loop ?l (sd_body_decoder st) (sd_buf st @ d) (sd_phase st) acc = body_cont ?l d (r, bd, buf, ph, acc')" for d
    using body_loop_app [OF "1.prems"(2), of "sd_body_decoder st" ?l "sd_buf st" d acc] bi "1.prems"(4) l
    by (simp add: body_inv_def)
  show ?case
  proof (cases "r = Ok False")
    case False
    then have "relay_body u st ps out = (relay_outcome r, ?s, ps, out @ relayed u cs @ t)"
      using o(1) by (cases r) (auto simp: relay_body.simps [of u st] relay_outcome_def split: bool.splits)
    moreover have "body_cont ?l (concat ps) (r, bd, buf, ph, acc') = (r, bd, buf @ concat ps, ph, acc')"
      using False by (cases r) auto
    ultimately show ?thesis using o app [of "concat ps"]
      by (intro exI [of _ r] exI [of _ ?s] exI [of _ ps] exI [of _ cs] exI [of _ t]) simp
  next
    case True
    have t: "t = []" using o(4) True by (simp add: relay_tail_def)
    have "length buf \<le> length (sd_buf st)" by (rule body_loop_length [OF l])
    then have fs: "upstream_fits ?s ps" using "1.prems"(1) by (simp add: upstream_fits_def)
    obtain dat ps' where f: "fill_from_upstream ?s ps = (Ok (length dat), sd_app ?s dat, ps')"
      "dat @ concat ps' = concat ps" "upstream_fits (sd_app ?s dat) ps'" "dat = [] \<longleftrightarrow> ps = []"
      using fill_from_upstream_eq [OF fs] by metis
    show ?thesis
    proof (cases "ps = []")
      case T: True
      have "[] \<notin> set ps'" "concat ps' = []" using f(2,3) T by (simp_all add: upstream_fits_def)
      then have d: "dat = []" "ps' = []" using f(4) T by (simp, cases ps') auto
      have "relay_body u st ps out = (relay_outcome r, ?s, [], out @ relayed u cs)"
        using o(1) f(1) d True t by (simp add: relay_body.simps [of u st] relay_outcome_def sd_app_Nil)
      then show ?thesis using l o T t True by (intro exI [of _ r] exI [of _ ?s] exI [of _ "[]"] exI [of _ cs] exI [of _ "[]"]) simp
    next
      case F: False
      then have ne: "length dat \<noteq> 0" using f(4) by simp
      have "ph \<noteq> Headers \<and> ph \<noteq> StartLine" using i by (auto simp: loop_phase_def)
      moreover have "sd_phase st \<noteq> Headers" using "1.prems"(2) by (auto simp: loop_phase_def)
      ultimately have si: "sd_inv (sd_app ?s dat)" using i "1.prems"(3) by (simp add: sd_inv_def)
      have rb: "relay_body u st ps out = relay_body u (sd_app ?s dat) ps' (out @ relayed u cs)"
        using o(1) f(1) True t ne by (simp add: relay_body.simps [of u st])
      have "loop_phase (sd_phase (sd_app ?s dat))" "max_body_size (sd_limits (sd_app ?s dat)) \<le> usize_max" using i "1.prems"(4) by simp_all
      from "1.IH" [OF o(1) [symmetric] True refl refl f(1) [symmetric] refl refl ne f(3) this(1) si this(2), of acc'] t
      obtain r2 st2 ps2 ds t2 where x: "relay_body u (sd_app ?s dat) ps' (out @ relayed u cs) =
          (relay_outcome r2, st2, ps2, (out @ relayed u cs) @ relayed u ds @ t2)"
        "body_loop ?l bd (buf @ dat @ concat ps') ph acc' = (r2, sd_body_decoder st2, sd_buf st2 @ concat ps2, sd_phase st2, acc' @ concat ds)"
        "[] \<notin> set ds" "relay_tail u r2 t2" by auto
      then show ?thesis using rb app [of "concat ps"] True f(2) o(2,3)
        by (intro exI [of _ r2] exI [of _ st2] exI [of _ ps2] exI [of _ "cs @ ds"] exI [of _ t2]) simp
    qed
  qed
qed


definition relay_start :: "NoCompression ResponseDecoder" where
  "relay_start = snd (sd_decode_headers nc_decompressor (sd_feed_unchecked sd_new
     (''HTTP/1.1 200 OK'' @ CRLF @ ''Transfer-Encoding: chunked'' @ CRLF @ CRLF @ ''2;x'' @ CRLF @ ''ab'' @ CRLF
       @ ''1'' @ CRLF @ ''c'' @ CRLF @ ''0'' @ CRLF @ CRLF @ ''HTTP'')))"


section \<open>The response as a whole\<close>

text \<open>
  From the decoded head on: what is written to the client, whether the connection to the upstream can be
  used again, and the error if there is one.
\<close>

definition relay_response ::
  "ResponseHead \<Rightarrow> BodyKind \<Rightarrow> string \<Rightarrow> 'd ResponseDecoder \<Rightarrow> string list \<Rightarrow> (bool, ProxyError) result \<times> string" where
  "relay_response head kind req_method st ps =
     (case returned_response head kind req_method of
        Err e \<Rightarrow> (Err e, [])
      | Panic \<Rightarrow> (Panic, [])
      | Ok (r, can_reuse) \<Rightarrow>
          (case encode_response_headers r of
             Err e \<Rightarrow> (Err (FromEncoder e), [])
           | Panic \<Rightarrow> (Panic, [])
           | Ok header_bytes \<Rightarrow>
               if kind = CloseDelimited then (Ok can_reuse, header_bytes @ fst (relay_close_delimited st ps))
               else if kind = BodyNone then (Ok can_reuse, header_bytes)
               else
                 (case relay_body (kind = Chunked) st ps [] of
                    (r', st', ps', out) \<Rightarrow> (and_then r' (\<lambda>_. Ok can_reuse), header_bytes @ out))))"

text \<open>A connection is given back to the pool only after the whole body was relayed.\<close>

lemma reuse_after_complete_body:
  assumes "relay_response h kind m st ps = (Ok True, out)"
  shows "is_keep_alive (sh_version h) (sh_headers h) \<and> kind \<noteq> CloseDelimited
    \<and> (kind \<noteq> BodyNone \<longrightarrow> (\<exists>st' ps' b. relay_body (kind = Chunked) st ps [] = (Ok (), st', ps', b)))"
proof -
  obtain r reuse hb where r: "returned_response h kind m = Ok (r, reuse)" "encode_response_headers r = Ok hb" "reuse"
    using assms by (auto simp: relay_response_def result_iff split: result.splits prod.splits if_splits)
  then have "is_keep_alive (sh_version h) (sh_headers h) \<and> kind \<noteq> CloseDelimited"
    by (auto simp: returned_response_def Let_def result_iff)
  moreover have "kind \<noteq> BodyNone \<Longrightarrow> \<exists>st' ps' b. relay_body (kind = Chunked) st ps [] = (Ok (), st', ps', b)"
    using assms r calculation by (auto simp: relay_response_def result_iff split: prod.splits)
  ultimately show ?thesis by blast
qed

end
