(* ===== verification/Example_Client.thy ===== *)
theory Example_Client
  imports Body_Relay
begin

text \<open>
  The example client (\<^verbatim>\<open>examples/http11_client/src/url.rs\<close>, \<^verbatim>\<open>src/transport.rs\<close>): the URL, and the
  collection of a response body through a decompressor. The loops over a decompressor end only if the
  decompressor makes progress, so they are partial functions; with \<open>NoCompression\<close> they end and collect the
  body that \<open>decode\<close> collects.
\<close>

section \<open>The URL\<close>

datatype ClientUrlError = NoHttpScheme | BadClientPort

definition parse_url :: "string \<Rightarrow> (string \<times> string \<times> nat \<times> string, ClientUrlError) result" where
  "parse_url url =
     and_then
       (case strip_prefix url ''https://'' of
          Some rest \<Rightarrow> Ok (''https'', rest)
        | None \<Rightarrow> (case strip_prefix url ''http://'' of Some rest \<Rightarrow> Ok (''http'', rest) | None \<Rightarrow> Err NoHttpScheme))
       (\<lambda>(scheme, rest).
         case (case find_char CHR ''/'' rest of Some i \<Rightarrow> (take i rest, drop i rest) | None \<Rightarrow> (rest, ''/'')) of
           (host_port, path) \<Rightarrow>
             and_then
               (case find_char CHR '':'' host_port of
                  Some i \<Rightarrow> and_then (ok_or (parse_u16 (drop (i + 1) host_port)) BadClientPort) (\<lambda>p. Ok (take i host_port, p))
                | None \<Rightarrow> Ok (host_port, if scheme = ''https'' then 443 else 80))
               (\<lambda>(hst, prt). Ok (scheme, hst, prt, path)))"

text \<open>A URL made of a host without delimiters, a port and a path is taken apart into them.\<close>

lemma parse_url_parts:
  assumes "scheme \<in> {''http'', ''https''}" "CHR ''/'' \<notin> set h" "CHR '':'' \<notin> set h" "n \<le> u16_max"
  shows "parse_url (scheme @ ''://'' @ h @ '':'' @ nat_to_dec n @ CHR ''/'' # path) = Ok (scheme, h, n, CHR ''/'' # path)"
proof -
  have d: "CHR ''/'' \<notin> set (nat_to_dec n)" using nat_to_dec_is_digit [of "CHR ''/''" n] by (auto simp: is_ascii_digit_def)
  have "find_char CHR ''/'' (h @ CHR '':'' # nat_to_dec n @ CHR ''/'' # path) = Some (length (h @ CHR '':'' # nat_to_dec n))"
    using position_mid [of "h @ CHR '':'' # nat_to_dec n" "\<lambda>c. c = CHR ''/''" "CHR ''/''" path] assms(2) d
    by (auto simp: find_char_def)
  moreover have "find_char CHR '':'' (h @ CHR '':'' # nat_to_dec n) = Some (length h)"
    using position_mid [of h "\<lambda>c. c = CHR '':''" "CHR '':''" "nat_to_dec n"] assms(3) by (auto simp: find_char_def)
  moreover have "parse_u16 (nat_to_dec n) = Some n" using assms(4) by (rule from_str_radix_nat_to_dec)
  ultimately show ?thesis
    using assms(1) by (auto simp: parse_url_def strip_prefix_def starts_with_def)
qed

section \<open>Decompressing what was read\<close>

fun is_complete :: "CompressionStatus \<Rightarrow> bool" where
  "is_complete (CompComplete c p) = True"
| "is_complete _ = False"

fun is_continue :: "CompressionStatus \<Rightarrow> bool" where
  "is_continue (CompContinue c p) = True"
| "is_continue _ = False"

text \<open>
  The loop of \<open>decompress_chunk\<close>: the output buffer is used again in each turn, \<open>body\<close> collects what was
  produced. The slices panic when the decompressor reports more than there is.
\<close>

partial_function (option) chunk_loop ::
  "'d Decompressor \<Rightarrow> 'd \<Rightarrow> string \<Rightarrow> string \<Rightarrow> string \<Rightarrow> nat \<Rightarrow>
     ((nat, CompressionError) result \<times> 'd \<times> string \<times> string) option" where
  "chunk_loop D d input output_buf body total_consumed =
     (case decompress D d input output_buf of
        (r, d', buf) \<Rightarrow>
          (case r of
             Err e \<Rightarrow> Some (Err e, d', buf, body)
           | Panic \<Rightarrow> Some (Panic, d', buf, body)
           | Ok status \<Rightarrow>
               if produced status > length buf \<or> consumed status > length input then Some (Panic, d', buf, body)
               else
                 let body' = body @ take (produced status) buf;
                     input' = drop (consumed status) input;
                     total' = total_consumed + consumed status
                 in if is_complete status then Some (Ok total', d', buf, body')
                    else if consumed status = 0 \<and> produced status = 0 then Some (Ok total', d', buf, body')
                    else if is_continue status \<and> input' = [] then Some (Ok total', d', buf, body')
                    else chunk_loop D d' input' buf body' total'))"

definition decompress_chunk ::
  "'d Decompressor \<Rightarrow> 'd \<Rightarrow> string \<Rightarrow> string \<Rightarrow> string \<Rightarrow>
     ((nat, CompressionError) result \<times> 'd \<times> string \<times> string) option" where
  "decompress_chunk D d input output_buf body = chunk_loop D d input output_buf body 0"

partial_function (option) drain_decompressor ::
  "'d Decompressor \<Rightarrow> 'd \<Rightarrow> string \<Rightarrow> string \<Rightarrow> ((unit, CompressionError) result \<times> 'd \<times> string \<times> string) option" where
  "drain_decompressor D d output_buf body =
     (case decompress D d [] output_buf of
        (r, d', buf) \<Rightarrow>
          (case r of
             Err e \<Rightarrow> Some (Err e, d', buf, body)
           | Panic \<Rightarrow> Some (Panic, d', buf, body)
           | Ok status \<Rightarrow>
               if produced status > length buf then Some (Panic, d', buf, body)
               else
                 let body' = body @ take (produced status) buf
                 in if is_complete status \<or> produced status = 0 then Some (Ok (), d', buf, body')
                    else drain_decompressor D d' buf body'))"

section \<open>Collecting the body\<close>

datatype ClientError = ClientDecoder Error | ClientCompression CompressionError

record 'd Session =
  ss_decoder :: "NoCompression ResponseDecoder"
  ss_decompressor :: 'd
  ss_output_buf :: string
  ss_body :: string

text \<open>The end of a response: drain the decompressor.\<close>

definition finish_body :: "'d Decompressor \<Rightarrow> 'd Session \<Rightarrow> ((bool, ClientError) result \<times> 'd Session) option" where
  "finish_body D s =
     (case drain_decompressor D (ss_decompressor s) (ss_output_buf s) (ss_body s) of
        None \<Rightarrow> None
      | Some (r, d, buf, body) \<Rightarrow>
          Some (and_then (map_err ClientCompression r) (\<lambda>_. Ok True),
            s\<lparr>ss_decompressor := d, ss_output_buf := buf, ss_body := body\<rparr>))"

text \<open>
  The start of a turn of \<open>pump_body\<close>: what \<open>peek_body\<close> gives is decompressed, and the number of bytes
  consumed is the result; without bytes it is 0.
\<close>

definition feed_decompressor :: "'d Decompressor \<Rightarrow> 'd Session \<Rightarrow> ((nat, ClientError) result \<times> 'd Session) option" where
  "feed_decompressor D s =
     (case sd_peek_body (ss_decoder s) of
        None \<Rightarrow> Some (Ok 0, s)
      | Some dat \<Rightarrow>
          (case decompress_chunk D (ss_decompressor s) dat (ss_output_buf s) (ss_body s) of
             None \<Rightarrow> None
           | Some (r, d, buf, body) \<Rightarrow>
               Some (map_err ClientCompression r, s\<lparr>ss_decompressor := d, ss_output_buf := buf, ss_body := body\<rparr>)))"

text \<open>
  The loop. \<open>Ok True\<close> is a complete response, \<open>Ok False\<close> a request for more bytes. When nothing was
  consumed, \<open>progress\<close> moves the state on.
\<close>

definition advance_decoder :: "'d Session \<Rightarrow> nat \<Rightarrow> (BodyProgress, ClientError) result \<times> 'd Session" where
  "advance_decoder s n =
     (case (if n > 0 then sd_consume_body (ss_decoder s) n else sd_progress (ss_decoder s)) of
        (r, st) \<Rightarrow> (map_err ClientDecoder r, s\<lparr>ss_decoder := st\<rparr>))"

partial_function (option) pump_body :: "'d Decompressor \<Rightarrow> 'd Session \<Rightarrow> ((bool, ClientError) result \<times> 'd Session) option" where
  "pump_body D s =
     Option.bind (feed_decompressor D s) (\<lambda>(r, s1).
       case r of
         Err e \<Rightarrow> Some (Err e, s1)
       | Panic \<Rightarrow> Some (Panic, s1)
       | Ok n \<Rightarrow>
           (case advance_decoder s1 n of
              (q, s2) \<Rightarrow>
                (case q of
                   Err e \<Rightarrow> Some (Err e, s2)
                 | Panic \<Rightarrow> Some (Panic, s2)
                 | Ok p \<Rightarrow>
                     (case p of
                        Complete ts \<Rightarrow> finish_body D s2
                      | Advanced \<Rightarrow> pump_body D s2
                      | NeedData \<Rightarrow> if n > 0 then pump_body D s2 else Some (Ok False, s2)))))"

section \<open>Without compression\<close>

text \<open>\<open>NoCompression\<close> copies all of the input, as often as the output buffer is filled, and the loop ends.\<close>

lemma chunk_loop_nc:
  assumes "output_buf \<noteq> []"
  shows "\<exists>buf. chunk_loop nc_decompressor d input output_buf body n = Some (Ok (n + length input), d, buf, body @ input)
    \<and> length buf = length output_buf"
  using assms
proof (induction "length input" arbitrary: input output_buf body n rule: less_induct)
  case less
  let ?k = "min (length input) (length output_buf)" and ?buf = "copy_prefix (min (length input) (length output_buf)) input output_buf"
  have len: "length ?buf = length output_buf" by (simp add: copy_prefix_def)
  have tk: "take ?k ?buf = take ?k input" by (simp add: copy_prefix_def min_def)
  show ?case
  proof (cases "length output_buf < length input")
    case True
    then have d: "decompress nc_decompressor d input output_buf = (Ok (CompOutputFull ?k ?k), d, ?buf)" "?k = length output_buf"
      by (simp_all add: nc_decompressor_def nc_decompress_def Let_def)
    have "chunk_loop nc_decompressor d input output_buf body n =
        chunk_loop nc_decompressor d (drop ?k input) ?buf (body @ take ?k input) (n + ?k)"
      using less.prems len tk d True by (subst chunk_loop.simps) (simp add: Let_def)
    moreover have "\<exists>buf. chunk_loop nc_decompressor d (drop ?k input) ?buf (body @ take ?k input) (n + ?k) =
        Some (Ok (n + ?k + length (drop ?k input)), d, buf, (body @ take ?k input) @ drop ?k input) \<and> length buf = length ?buf"
      using less.prems True d(2) len by (intro less.hyps) (auto simp flip: length_greater_0_conv)
    ultimately show ?thesis using True len d(2) by simp
  next
    case False
    then show ?thesis using less.prems len tk
      by (subst chunk_loop.simps) (auto simp: nc_decompressor_def nc_decompress_def Let_def min_def copy_prefix_def)
  qed
qed

lemma decompress_chunk_nc:
  "output_buf \<noteq> [] \<Longrightarrow> \<exists>buf. decompress_chunk nc_decompressor d dat output_buf body = Some (Ok (length dat), d, buf, body @ dat)
     \<and> length buf = length output_buf"
  using chunk_loop_nc [of output_buf d dat body 0] by (simp add: decompress_chunk_def)

lemma drain_nc: "\<exists>buf. drain_decompressor nc_decompressor d output_buf body = Some (Ok (), d, buf, body)"
  by (subst drain_decompressor.simps) (simp add: nc_decompressor_def nc_decompress_def Let_def copy_prefix_def)

lemma finish_body_nc:
  "\<exists>s'. finish_body nc_decompressor s = Some (Ok True, s') \<and> ss_decoder s' = ss_decoder s \<and> ss_body s' = ss_body s"
  using drain_nc [of "ss_decompressor s" "ss_output_buf s" "ss_body s"] by (auto simp: finish_body_def)

text \<open>
  A client without content coding collects exactly the body that the loop inside \<open>decode\<close> collects, for
  every size of its output buffer, and returns.
\<close>

lemma pump_body_nc:
  assumes "ss_output_buf s \<noteq> []"
    "body_loop (sd_limits (ss_decoder s)) (sd_body_decoder (ss_decoder s)) (sd_buf (ss_decoder s)) (sd_phase (ss_decoder s)) (ss_body s)
       = (r, bd, buf, ph, body)"
  shows "\<exists>s'. pump_body nc_decompressor s = Some (map_err ClientDecoder r, s') \<and> ss_body s' = body
    \<and> ss_decoder s' = (ss_decoder s)\<lparr>sd_body_decoder := bd, sd_buf := buf, sd_phase := ph\<rparr>"
  using assms
proof (induction "length (sd_buf (ss_decoder s))" arbitrary: s rule: less_induct)
  case less
  let ?st = "ss_decoder s"
  let ?l = "sd_limits ?st" and ?bd = "sd_body_decoder ?st" and ?b = "sd_buf ?st" and ?ph = "sd_phase ?st"
  show ?case
  proof (cases "bd_peek_body ?b ?ph")
    case None
    then have f: "feed_decompressor nc_decompressor s = Some (Ok 0, s)" by (simp add: feed_decompressor_def sd_peek_body_def)
    obtain q bd1 buf1 ph1 where d: "dec_progress ?bd ?b ?ph ?l = (q, bd1, buf1, ph1)" by (metis prod_cases4)
    let ?s = "s\<lparr>ss_decoder := ?st\<lparr>sd_body_decoder := bd1, sd_buf := buf1, sd_phase := ph1\<rparr>\<rparr>"
    have a: "advance_decoder s 0 = (map_err ClientDecoder q, ?s)"
      using d by (simp add: advance_decoder_def sd_progress_def sd_put_body_def)
    obtain s3 where fin: "finish_body nc_decompressor ?s = Some (Ok True, s3)" "ss_decoder s3 = ss_decoder ?s" "ss_body s3 = ss_body ?s"
      using finish_body_nc by blast
    show ?thesis
    proof (cases "q = Ok Advanced")
      case True
      have "length buf1 < length ?b" using progress_decreases [of ?bd ?b ?ph ?l bd1 buf1 ph1] d True by (simp add: dec_progress_def)
      moreover have "body_loop ?l bd1 buf1 ph1 (ss_body s) = (r, bd, buf, ph, body)"
        using less.prems(2) None d True by (simp add: body_loop.simps [of ?l ?bd])
      moreover have "pump_body nc_decompressor s = pump_body nc_decompressor ?s"
        using f a True by (subst pump_body.simps) (simp add: map_err_def)
      ultimately show ?thesis using less.hyps [of ?s] less.prems(1) by simp
    next
      case False
      with less.prems(2) None d f a fin show ?thesis
        by (subst pump_body.simps, cases q) (auto simp: body_loop.simps [of ?l ?bd] map_err_def split: BodyProgress.splits)
    qed
  next
    case (Some dat)
    note ne = peek_body_nonempty [OF Some]
    obtain ob where o: "decompress_chunk nc_decompressor (ss_decompressor s) dat (ss_output_buf s) (ss_body s) =
        Some (Ok (length dat), ss_decompressor s, ob, ss_body s @ dat)" "length ob = length (ss_output_buf s)"
      using decompress_chunk_nc [OF less.prems(1)] by blast
    let ?s1 = "s\<lparr>ss_output_buf := ob, ss_body := ss_body s @ dat\<rparr>"
    have f: "feed_decompressor nc_decompressor s = Some (Ok (length dat), ?s1)"
      using o(1) Some by (simp add: feed_decompressor_def sd_peek_body_def map_err_def)
    obtain q bd1 buf1 ph1 where d: "dec_consume_body ?bd ?b ?ph (length dat) ?l = (q, bd1, buf1, ph1)" by (metis prod_cases4)
    let ?s2 = "?s1\<lparr>ss_decoder := ?st\<lparr>sd_body_decoder := bd1, sd_buf := buf1, sd_phase := ph1\<rparr>\<rparr>"
    have a: "advance_decoder ?s1 (length dat) = (map_err ClientDecoder q, ?s2)"
      using d ne by (simp add: advance_decoder_def sd_consume_body_def sd_put_body_def)
    obtain s3 where fin: "finish_body nc_decompressor ?s2 = Some (Ok True, s3)" "ss_decoder s3 = ss_decoder ?s2" "ss_body s3 = ss_body ?s2"
      using finish_body_nc by blast
    have c: "q = Ok x \<Longrightarrow> (\<exists>ts. x = Complete ts) \<longleftrightarrow> ph1 = PhaseComplete" for x
      using consume_peeked_complete [OF Some] d by blast
    show ?thesis
    proof (cases "q = Ok Advanced \<or> q = Ok NeedData")
      case True
      then obtain x where x: "q = Ok x" "x = Advanced \<or> x = NeedData" by blast
      then have "ph1 \<noteq> PhaseComplete" using c by auto
      then have "body_loop ?l bd1 buf1 ph1 (ss_body s @ dat) = (r, bd, buf, ph, body)"
        using less.prems(2) Some d x by (simp add: body_loop.simps [of ?l ?bd])
      moreover have "length buf1 < length ?b"
        using consume_peeked_decreases [OF Some, of ?bd ?l x bd1 buf1 ph1] d x(1) ne by (simp add: dec_consume_body_def split: if_splits)
      moreover have "pump_body nc_decompressor s = pump_body nc_decompressor ?s2"
        using f a x ne by (subst pump_body.simps) (auto simp: map_err_def)
      moreover have "ob \<noteq> []" using o(2) less.prems(1) by (metis length_0_conv)
      ultimately show ?thesis using less.hyps [of ?s2] by simp
    next
      case False
      with less.prems(2) Some d f a fin c ne show ?thesis
        by (subst pump_body.simps, cases q) (auto simp: body_loop.simps [of ?l ?bd] map_err_def split: BodyProgress.splits)
    qed
  qed
qed

end
