(* ===== verification/Example_Server.thy ===== *)
theory Example_Server
  imports Date Messages "HOL-Library.Word"
begin

text \<open>
  The pure helpers of the example servers
  (\<^verbatim>\<open>examples/http11_server/src/main.rs\<close>, \<^verbatim>\<open>examples/http11_server_io_uring/src/main.rs\<close>): the Date
  header they compute from the clock, the Connection header, the compressed response, and the 64-bit
  user data of the io_uring operations. The compressors are a parameter.
\<close>

unbundle bit_operations_syntax

section \<open>The Date header\<close>

definition is_leap_year :: "nat \<Rightarrow> bool" where
  "is_leap_year year \<longleftrightarrow> year mod 4 = 0 \<and> year mod 100 \<noteq> 0 \<or> year mod 400 = 0"

definition year_max :: nat where
  "year_max = 2147483647"

text \<open>The loop over the years; \<open>year += 1\<close> on an \<open>i32\<close> panics at the end of its range.\<close>

function year_loop :: "nat \<Rightarrow> nat \<Rightarrow> (nat \<times> nat, unit) result" where
  "year_loop remaining_days year =
     (let days_in_year = (if is_leap_year year then 366 else 365)
      in if remaining_days < days_in_year then Ok (remaining_days, year)
         else if year = year_max then Panic
         else year_loop (remaining_days - days_in_year) (year + 1))"
  by pat_completeness auto
termination by (relation "measure fst") (auto split: if_splits)

declare year_loop.simps [simp del]

definition days_in_months :: "nat \<Rightarrow> nat list" where
  "days_in_months year =
     (if is_leap_year year then [31, 29, 31, 30, 31, 30, 31, 31, 30, 31, 30, 31]
      else [31, 28, 31, 30, 31, 30, 31, 31, 30, 31, 30, 31])"

text \<open>The loop over the months: the index of the month and the days left in it.\<close>

fun month_loop :: "nat \<Rightarrow> nat list \<Rightarrow> nat \<Rightarrow> nat \<times> nat" where
  "month_loop i [] remaining_days = (0, remaining_days)"
| "month_loop i (days # ds) remaining_days =
     (if remaining_days < days then (i, remaining_days) else month_loop (i + 1) ds (remaining_days - days))"

definition DAYS :: "string list" where
  "DAYS = [''Sun'', ''Mon'', ''Tue'', ''Wed'', ''Thu'', ''Fri'', ''Sat'']"

definition MONTHS :: "string list" where
  "MONTHS = [''Jan'', ''Feb'', ''Mar'', ''Apr'', ''May'', ''Jun'', ''Jul'', ''Aug'', ''Sep'', ''Oct'', ''Nov'', ''Dec'']"

definition format_http_date :: "nat \<Rightarrow> (string, unit) result" where
  "format_http_date timestamp =
     (let days_since_epoch = timestamp div 86400;
          day_of_week = (days_since_epoch + 4) mod 7
      in and_then (year_loop days_since_epoch 1970) (\<lambda>(remaining_days, year).
           case month_loop 0 (days_in_months year) remaining_days of
             (month, remaining_days') \<Rightarrow>
               let day = remaining_days' + 1;
                   time_of_day = timestamp mod 86400;
                   hour = time_of_day div 3600;
                   minute = (time_of_day mod 3600) div 60;
                   second = time_of_day mod 60
               in Ok (DAYS ! day_of_week @ '', '' @ pad_dec 2 day @ '' '' @ MONTHS ! month @ '' '' @ nat_to_dec year @ '' ''
                   @ pad_dec 2 hour @ '':'' @ pad_dec 2 minute @ '':'' @ pad_dec 2 second @ '' GMT'')))"

section \<open>The calendar\<close>

text \<open>The reference: seconds since the epoch, counted by years, months and days with the library's month lengths.\<close>

definition days_of_year :: "nat \<Rightarrow> nat" where
  "days_of_year y = (\<Sum>m = 1..12. max_day_in_month m y)"

definition days_before :: "nat \<Rightarrow> nat \<Rightarrow> nat" where
  "days_before y m = (\<Sum>i = 1970..<y. days_of_year i) + (\<Sum>i = 1..<m. max_day_in_month i y)"

definition unix_seconds :: "HttpDate \<Rightarrow> nat" where
  "unix_seconds d =
     ((days_before (hd_year d) (hd_month d) + (hd_day d - 1)) * 24 + hd_hour d) * 3600 + hd_minute d * 60 + hd_second d"

text \<open>The first day of 1970 was a Thursday.\<close>

definition weekday :: "nat \<Rightarrow> DayOfWeek" where
  "weekday days = [Thursday, Friday, Saturday, Sunday, Monday, Tuesday, Wednesday] ! (days mod 7)"

lemma max_day_february: "max_day_in_month 2 y = (if is_leap_year y then 29 else 28)"
proof -
  have "(4 :: nat) dvd 400" by simp
  then have "400 dvd y \<Longrightarrow> 4 dvd y" by (rule dvd_trans)
  then have "y mod 400 = 0 \<Longrightarrow> y mod 4 = 0" by (simp only: mod_eq_0_iff_dvd)
  then show ?thesis by (auto simp: max_day_in_month_def is_leap_year_def Let_def)
qed

lemma max_day_others:
  "max_day_in_month 1 y = 31" "max_day_in_month (Suc 0) y = 31" "max_day_in_month 3 y = 31" "max_day_in_month 4 y = 30" "max_day_in_month 5 y = 31"
  "max_day_in_month 6 y = 30" "max_day_in_month 7 y = 31" "max_day_in_month 8 y = 31" "max_day_in_month 9 y = 30"
  "max_day_in_month 10 y = 31" "max_day_in_month 11 y = 30" "max_day_in_month 12 y = 31"
  by (simp_all add: max_day_in_month_def)

lemma month_range: "[1..<13] = [1, 2, 3, 4, 5, 6, 7, 8, 9, 10, 11, 12 :: nat]"
  by code_simp

lemma month_lengths: "days_in_months y = map (\<lambda>m. max_day_in_month m y) [1..<13]"
  unfolding month_range by (simp add: days_in_months_def max_day_february max_day_others)

lemma days_of_year_eq: "days_of_year y = (if is_leap_year y then 366 else 365)"
proof -
  have "{1..12} = set [1..<13 :: nat]" by auto
  then have "days_of_year y = sum_list (map (\<lambda>m. max_day_in_month m y) [1..<13])"
    unfolding days_of_year_def by (simp only: sum_list_distinct_conv_sum_set distinct_upt)
  also have "\<dots> = sum_list (days_in_months y)" by (simp only: month_lengths)
  finally show ?thesis by (simp add: days_in_months_def)
qed

lemma year_loop_days:
  "year_loop n y = Ok (r, y') \<Longrightarrow> n = (\<Sum>i = y..<y'. days_of_year i) + r \<and> r < days_of_year y' \<and> y \<le> y'"
proof (induction n y rule: year_loop.induct)
  case (1 n y)
  show ?case
  proof (cases "n < days_of_year y")
    case True
    with "1.prems" show ?thesis by (auto simp: year_loop.simps [of n y] days_of_year_eq Let_def)
  next
    case False
    then have l: "year_loop (n - days_of_year y) (y + 1) = Ok (r, y')" "y \<noteq> year_max"
      using "1.prems" by (auto simp: year_loop.simps [of n y] days_of_year_eq Let_def split: if_splits)
    have "n - days_of_year y = (\<Sum>i = y + 1..<y'. days_of_year i) + r \<and> r < days_of_year y' \<and> y + 1 \<le> y'"
      using "1.IH" [OF refl _ l(2)] False l(1) by (simp add: days_of_year_eq)
    moreover from this have "(\<Sum>i = y..<y'. days_of_year i) = days_of_year y + (\<Sum>i = y + 1..<y'. days_of_year i)"
      by (simp add: sum.atLeast_Suc_lessThan)
    ultimately show ?thesis using False by linarith
  qed
qed

lemma year_loop_ok:
  "n < 365 * k \<Longrightarrow> y + k \<le> year_max \<Longrightarrow> \<exists>r y'. year_loop n y = Ok (r, y') \<and> y' < y + k"
proof (induction n y arbitrary: k rule: year_loop.induct)
  case (1 n y)
  show ?case
  proof (cases "n < days_of_year y")
    case True
    with "1.prems" show ?thesis by (cases k) (auto simp: year_loop.simps [of n y] days_of_year_eq Let_def)
  next
    case False
    then obtain j where k: "k = Suc j" using "1.prems"(1) by (cases k) auto
    have y: "y \<noteq> year_max" using "1.prems"(2) k by simp
    have "\<exists>r y'. year_loop (n - days_of_year y) (y + 1) = Ok (r, y') \<and> y' < y + 1 + j"
      using "1.IH" [OF refl _ y, of j] False "1.prems" k by (auto simp: days_of_year_eq split: if_splits)
    then show ?thesis using False y k by (auto simp: year_loop.simps [of n y] days_of_year_eq Let_def)
  qed
qed

lemma month_loop_days:
  "r < (\<Sum>m = Suc i..<Suc (i + length ds). f m) \<Longrightarrow> ds = map f [Suc i..<Suc (i + length ds)] \<Longrightarrow>
     \<exists>j r'. month_loop i ds r = (j, r') \<and> i \<le> j \<and> j < i + length ds \<and> r' < f (Suc j) \<and> r = (\<Sum>m = Suc i..<Suc j. f m) + r'"
proof (induction i ds r rule: month_loop.induct)
  case (2 i d ds r)
  have "[Suc i..<Suc (i + length (d # ds))] = Suc i # [Suc (Suc i)..<Suc (Suc i + length ds)]"
    by (subst upt_conv_Cons) (simp_all del: upt_Suc)
  then have ds: "d = f (Suc i)" "ds = map f [Suc (Suc i)..<Suc (Suc i + length ds)]"
    using "2.prems"(2) by (simp_all only: list.map list.inject)
  show ?case
  proof (cases "r < d")
    case True
    then show ?thesis using ds(1) by (intro exI [of _ i] exI [of _ r]) simp
  next
    case False
    have s: "(\<Sum>m = Suc i..<Suc (i + length (d # ds)). f m) = d + (\<Sum>m = Suc (Suc i)..<Suc (Suc i + length ds). f m)"
      using ds(1) by (subst sum.atLeast_Suc_lessThan) (simp_all del: sum.op_ivl_Suc)
    have "r - d < (\<Sum>m = Suc (i + 1)..<Suc (i + 1 + length ds). f m)" using False "2.prems"(1) s by simp
    from "2.IH" [OF False this] ds(2) obtain j r' where j: "month_loop (i + 1) ds (r - d) = (j, r')" "i + 1 \<le> j"
      "j < i + 1 + length ds" "r' < f (Suc j)" "r - d = (\<Sum>m = Suc (i + 1)..<Suc j. f m) + r'" by auto
    have "(\<Sum>m = Suc i..<Suc j. f m) = d + (\<Sum>m = Suc (Suc i)..<Suc j. f m)"
      using ds(1) j(2) by (subst sum.atLeast_Suc_lessThan) (simp_all del: sum.op_ivl_Suc)
    with j False show ?thesis by (intro exI [of _ j] exI [of _ r']) simp
  qed
qed simp

lemma month_name_MONTHS: "j < 12 \<Longrightarrow> MONTHS ! j = month_name (Suc j)"
  using month_cases [of "Suc j"] by (auto simp: MONTHS_def month_name_def)

lemma short_name_DAYS: "DAYS ! ((n + 4) mod 7) = short_name (weekday n)"
proof -
  have "n mod 7 \<in> {0, 1, 2, 3, 4, 5, 6}" by auto
  moreover have "(n + 4) mod 7 = (n mod 7 + 4) mod 7" by presburger
  ultimately show ?thesis by (auto simp: DAYS_def weekday_def)
qed

lemma clock_fields:
  "(n :: nat) = (n div 86400 * 24 + n mod 86400 div 3600) * 3600 + n mod 86400 mod 3600 div 60 * 60 + n mod 86400 mod 60"
proof -
  define t where "t = n mod 86400"
  have "t mod 3600 mod 60 = t mod 60" by (simp add: mod_mod_cancel)
  moreover have "t mod 3600 = t mod 3600 div 60 * 60 + t mod 3600 mod 60" by (rule div_mult_mod_eq [symmetric])
  moreover have "t = t div 3600 * 3600 + t mod 3600" by (rule div_mult_mod_eq [symmetric])
  moreover have "n = n div 86400 * 86400 + t" unfolding t_def by (rule div_mult_mod_eq [symmetric])
  moreover have "x60 = s \<Longrightarrow> x36 = a * 60 + x60 \<Longrightarrow> x = b * 3600 + x36 \<Longrightarrow> m = c * 86400 + x \<Longrightarrow>
      m = (c * 24 + b) * 3600 + a * 60 + s" for x60 s x36 a x b m c :: nat by simp
  ultimately show ?thesis unfolding t_def [symmetric] by blast
qed

lemma pad_dec_year:
  assumes "1000 \<le> y"
  shows "pad_dec 4 y = nat_to_dec y"
proof -
  have "\<not> y < 10" "\<not> y div 10 < 10" "\<not> y div 10 div 10 < 10" using assms by linarith+
  then show ?thesis
    by (simp add: pad_dec_def nat_to_dec_def to_base.simps [of 10 y] to_base.simps [of 10 "y div 10"]
        to_base.simps [of 10 "y div 10 div 10"] to_base.simps [of 10 "y div 10 div 10 div 10"])
qed

text \<open>
  The Date header of the servers is right: for every clock reading up to the year 65000 it is the text of
  an HTTP date, which the library's parser reads back, whose time is the reading and whose day of the
  week is the reading's.
\<close>

lemma server_date_correct:
  assumes "timestamp < 1987200000000"
  shows "\<exists>d. format_http_date timestamp = Ok (HttpDate_display d) \<and> HttpDate_parse (HttpDate_display d) = Ok d
    \<and> unix_seconds d = timestamp \<and> hd_day_of_week d = weekday (timestamp div 86400)"
proof -
  let ?n = "timestamp div 86400" and ?t = "timestamp mod 86400"
  have "?n < 365 * 63014" using assms by linarith
  then obtain r y where y: "year_loop ?n 1970 = Ok (r, y)" "y < 1970 + 63014"
    using year_loop_ok [of ?n 63014 1970] by (auto simp: year_max_def)
  note yd = year_loop_days [OF y(1)]
  have "days_of_year y = (\<Sum>m = Suc 0..<Suc (0 + length (days_in_months y)). max_day_in_month m y)"
    unfolding days_of_year_def by (rule sum.cong) (auto simp: month_lengths)
  moreover have "days_in_months y = map (\<lambda>m. max_day_in_month m y) [Suc 0..<Suc (0 + length (days_in_months y))]"
    by (simp add: month_lengths del: upt_Suc)
  ultimately obtain j r' where m: "month_loop 0 (days_in_months y) r = (j, r')" "j < 12"
    "r' < max_day_in_month (Suc j) y" "r = (\<Sum>m = Suc 0..<Suc j. max_day_in_month m y) + r'"
    using month_loop_days [where r = r and i = 0 and ds = "days_in_months y" and f = "\<lambda>m. max_day_in_month m y"] yd
    by (auto simp: month_lengths simp del: upt_Suc)
  let ?d = "\<lparr>hd_day_of_week = weekday ?n, hd_day = r' + 1, hd_month = Suc j, hd_year = y,
    hd_hour = ?t div 3600, hd_minute = (?t mod 3600) div 60, hd_second = ?t mod 60\<rparr>"
  have "?t < 86400" by simp
  then have t: "?t div 3600 \<le> 23" "(?t mod 3600) div 60 \<le> 59" "?t mod 60 \<le> 60" by linarith+
  then have "date_ok ?d" using m yd y(2) by (simp add: date_ok_def u16_max_def)
  then have p: "HttpDate_parse (HttpDate_display ?d) = Ok ?d" by (rule HttpDate_parse_display)
  have f: "format_http_date timestamp = Ok (HttpDate_display ?d)"
    using y(1) m(1,2) yd short_name_DAYS [of ?n] month_name_MONTHS [of j]
    by (simp add: format_http_date_def HttpDate_display_def Let_def pad_dec_year)
  have u: "unix_seconds ?d = (?n * 24 + ?t div 3600) * 3600 + (?t mod 3600) div 60 * 60 + ?t mod 60"
    using yd m(4) by (simp add: unix_seconds_def days_before_def algebra_simps)
  have "unix_seconds ?d = timestamp" unfolding u by (rule clock_fields [symmetric])
  with p f show ?thesis by (intro exI [of _ ?d]) simp
qed

section \<open>Responses\<close>

definition add_connection_headers :: "Response \<Rightarrow> bool \<Rightarrow> (Response, EncodeError) result" where
  "add_connection_headers response should_keep_alive =
     (if should_keep_alive then Ok response else rs_add_header response ''Connection'' ''close'')"

definition encoding_header :: "string \<Rightarrow> string" where
  "encoding_header encoding =
     (if encoding = ''zstd'' then ''zstd''
      else if encoding = ''br'' then ''br''
      else if encoding = ''gzip'' \<or> encoding = ''x-gzip'' then ''gzip''
      else ''identity'')"

text \<open>
  The body that is sent and its coding; \<open>compress_body\<close> stands for the compression libraries and gives
  \<open>None\<close> where they report an error.
\<close>

definition choose_body ::
  "(string \<Rightarrow> string \<Rightarrow> string option) \<Rightarrow> string \<Rightarrow> string option \<Rightarrow> string \<times> string option" where
  "choose_body compress_body body encoding =
     (case encoding of
        Some enc \<Rightarrow>
          (case compress_body body enc of
             Some compressed \<Rightarrow>
               if length compressed < length body then (compressed, Some (encoding_header enc)) else (body, None)
           | None \<Rightarrow> (body, None))
      | None \<Rightarrow> (body, None))"

definition build_compressed_response ::
  "(string \<Rightarrow> string \<Rightarrow> string option) \<Rightarrow> StatusCode \<Rightarrow> string \<Rightarrow> string \<Rightarrow> string \<Rightarrow> bool \<Rightarrow> string option
     \<Rightarrow> (Response, EncodeError) result" where
  "build_compressed_response compress_body status content_type body date is_head encoding =
     (case choose_body compress_body body encoding of
        (final_body, content_encoding) \<Rightarrow>
          and_then (rs_with_status status) (\<lambda>r0.
          and_then (rs_add_header r0 ''Date'' date) (\<lambda>r1.
          and_then (rs_add_header r1 ''Content-Type'' content_type) (\<lambda>r2.
          and_then (rs_add_header r2 ''Content-Length'' (nat_to_dec (length final_body))) (\<lambda>r3.
          and_then (rs_add_header r3 ''Server'' ''shiguredo_http11/0.1.0'') (\<lambda>r4.
          and_then (rs_add_header r4 ''Vary'' ''Accept-Encoding'') (\<lambda>r5.
          and_then (case content_encoding of Some enc \<Rightarrow> rs_add_header r5 ''Content-Encoding'' enc | None \<Rightarrow> Ok r5) (\<lambda>r6.
            Ok (rs_set_omit_body (rs_set_body r6 final_body) is_head)))))))))"

lemma rs_add_header_eq: "rs_add_header r n v = Ok r' \<Longrightarrow> r' = r\<lparr>rs_headers := rs_headers r @ [(n, v)]\<rparr>"
  by (auto simp: rs_add_header_def result_iff)

lemma rs_with_status_fresh: "rs_with_status s = Ok r \<Longrightarrow> rs_headers r = []"
  by (auto simp: rs_with_status_def rs_with_version_def result_iff split: result.splits)

text \<open>
  Content-Length announces the body that is set, compressed or not; compression never makes it longer;
  Content-Encoding is there exactly when the body was compressed.
\<close>

lemma compressed_response_consistent:
  assumes "build_compressed_response compress_body status content_type body date is_head encoding = Ok r"
  shows "\<exists>b. rs_body r = Some b \<and> length b \<le> length body \<and> rs_omit_body r = is_head
    \<and> get_headers (rs_headers r) ''Content-Length'' = [nat_to_dec (length b)]
    \<and> (get_headers (rs_headers r) ''Content-Encoding'' = [] \<and> b = body
       \<or> (\<exists>enc. encoding = Some enc \<and> compress_body body enc = Some b \<and> length b < length body
            \<and> get_headers (rs_headers r) ''Content-Encoding'' = [encoding_header enc]))"
proof -
  obtain b ce where c: "choose_body compress_body body encoding = (b, ce)" by fastforce
  have e: "to_ascii_lowercase ''Date'' = ''date''" "to_ascii_lowercase ''Content-Type'' = ''content-type''"
    "to_ascii_lowercase ''Content-Length'' = ''content-length''" "to_ascii_lowercase ''Server'' = ''server''"
    "to_ascii_lowercase ''Vary'' = ''vary''" "to_ascii_lowercase ''Content-Encoding'' = ''content-encoding''"
    by code_simp+
  have "rs_body r = Some b \<and> rs_omit_body r = is_head
      \<and> get_headers (rs_headers r) ''Content-Length'' = [nat_to_dec (length b)]
      \<and> get_headers (rs_headers r) ''Content-Encoding'' = (case ce of Some enc \<Rightarrow> [enc] | None \<Rightarrow> [])"
    using assms unfolding build_compressed_response_def c prod.case
    by (elim and_thenE)
      (auto dest!: rs_add_header_eq rs_with_status_fresh simp: rs_set_body_def rs_set_omit_body_def get_headers_def
        eq_ignore_ascii_case_def e split: option.splits)
  with c show ?thesis by (auto simp: choose_body_def split: option.splits if_splits)
qed

section \<open>The user data of io\_uring operations\<close>

datatype OpType = OpAccept | OpRead | OpWrite | OpClose | OpSetSockOpt

record UserData =
  ud_conn_id :: "64 word"
  ud_op_type :: OpType

fun op_bits :: "OpType \<Rightarrow> 64 word" where
  "op_bits OpAccept = 0"
| "op_bits OpRead = 1"
| "op_bits OpWrite = 2"
| "op_bits OpClose = 3"
| "op_bits OpSetSockOpt = 4"

definition UserData_encode :: "64 word \<Rightarrow> OpType \<Rightarrow> 64 word" where
  "UserData_encode conn_id op_type = push_bit 32 conn_id OR op_bits op_type"

definition UserData_decode :: "64 word \<Rightarrow> UserData" where
  "UserData_decode value =
     (let conn_id = drop_bit 32 value; b = value AND 0xFFFFFFFF
      in \<lparr>ud_conn_id = conn_id,
          ud_op_type =
            (if b = 0 then OpAccept else if b = 1 then OpRead else if b = 2 then OpWrite
             else if b = 3 then OpClose else if b = 4 then OpSetSockOpt else OpClose)\<rparr>)"

text \<open>The operation survives; of the connection number, the low 32 bits.\<close>

lemma mask_32: "(0xFFFFFFFF :: 64 word) = mask 32"
  by (simp add: mask_eq_exp_minus_1)

lemma op_bits_low: "take_bit 32 (op_bits op) = op_bits op" "drop_bit 32 (op_bits op) = 0"
  by (cases op; simp)+

lemma UserData_decode_encode:
  "UserData_decode (UserData_encode c op) = \<lparr>ud_conn_id = take_bit 32 c, ud_op_type = op\<rparr>"
proof -
  have "UserData_encode c op AND 0xFFFFFFFF = op_bits op"
    by (simp add: UserData_encode_def mask_32 flip: take_bit_eq_mask) (simp add: op_bits_low take_bit_push_bit)
  moreover have "drop_bit 32 (UserData_encode c op) = take_bit 32 c"
    by (simp add: UserData_encode_def op_bits_low) (rule bit_word_eqI, auto simp: bit_simps)
  ultimately show ?thesis by (cases op) (simp_all add: UserData_decode_def Let_def)
qed

lemma UserData_roundtrip_iff:
  "ud_conn_id (UserData_decode (UserData_encode c op)) = c \<longleftrightarrow> c < 2 ^ 32"
proof -
  have "take_bit 32 c = c \<longleftrightarrow> take_bit 32 (unat c) = unat c"
    by (simp add: word_unat_eq_iff unsigned_take_bit_eq)
  also have "\<dots> \<longleftrightarrow> c < 2 ^ 32" by (simp add: take_bit_nat_eq_self_iff word_less_nat_alt)
  finally show ?thesis by (simp add: UserData_decode_encode)
qed

end
