(* ===== verification/Spec2Isabelle.thy ===== *)
theory Spec2Isabelle
  imports Request_Roundtrip Response_Roundtrip Framing Status_Code Base64 Etag Date Ranges Multipart_Roundtrip Uri_Correct Auth_Correct Cookie_Correct
    Digest_Fields Conditional Cache Accept_Correct Content_Location Uri_Recompose Error_Display
    Example_Client Example_Server
begin

text \<open>
  A verification development for \<^verbatim>\<open>http11-rs\<close>, a Sans-I/O HTTP/1.1 library: its decoders take
  bytes that the application has read and hand out messages, its encoders turn messages into
  bytes, and neither touches a socket.

  \<^bold>\<open>The program and its parts.\<close> A \<open>RequestDecoder\<close> or \<open>ResponseDecoder\<close>
  (\<^verbatim>\<open>src/decoder/request.rs\<close>, \<^verbatim>\<open>response.rs\<close>) owns a receive buffer (\<^verbatim>\<open>buffer.rs\<close>), a phase
  (\<^verbatim>\<open>phase.rs\<close>), the start line and headers read so far, and a \<open>BodyDecoder\<close> (\<^verbatim>\<open>body.rs\<close>). It
  parses lines with the functions of \<^verbatim>\<open>validate.rs\<close>, \<^verbatim>\<open>host.rs\<close>, \<^verbatim>\<open>trailer.rs\<close> and
  \<^verbatim>\<open>request_target.rs\<close>, decides how the body is framed, and returns heads (\<^verbatim>\<open>head.rs\<close>) or whole
  messages (\<^verbatim>\<open>request.rs\<close>, \<^verbatim>\<open>response.rs\<close>), within the limits of \<^verbatim>\<open>limits.rs\<close>. The encoder
  (\<^verbatim>\<open>encoder.rs\<close>) validates a message and writes it. Compression is an interface
  (\<^verbatim>\<open>compression.rs\<close>).

  \<^bold>\<open>Theories.\<close>
  \<^item> \<open>Prelude\<close>: results with a third outcome for a panic, the \<open>?\<close> operator, shared lemmas and the
    collection \<open>result_iff\<close>. \<open>Rust_Std\<close>: the parts of the standard library the code uses (string
    search, splitting, number parsing, checked arithmetic on 64-bit \<open>usize\<close>). \<open>Utf8\<close>:
    \<open>str::from_utf8\<close>, characters and white space. A \<open>String\<close> or \<open>Vec<u8>\<close> is the list of its bytes.
  \<^item> \<open>Validate\<close>, \<open>Host\<close>, \<open>Trailer\<close>, \<open>Request_Target\<close>, \<open>Body_Headers\<close>: the validators and parsers,
    each with what it accepts and the round trips of its printer.
  \<^item> \<open>Errors\<close>, \<open>Compression\<close>, \<open>Buffer\<close>, \<open>Status_Code\<close>, \<open>Messages\<close>: errors and limits, the
    compression interface as a record of functions with its contract as a locale, the receive
    buffer, status codes, message builders with the locale of their header operations.
  \<^item> \<open>Body_Decoder\<close>, \<open>Request_Decoder\<close>, \<open>Response_Decoder\<close>: one definition per method; a method with
    \<open>&mut self\<close> takes and returns the record. The loops are recursive functions with proved
    termination: no fuel is used anywhere.
  \<^item> \<open>Incremental\<close>: the locales of resumable operations, of loops that give them, and of message
    streams. \<open>Body_Correct\<close>, \<open>Request_Correct\<close>, \<open>Request_Stream\<close>, \<open>Response_Correct\<close>,
    \<open>Response_Stream\<close> interpret them and prove the invariants; \<open>Request_Reachable\<close> and
    \<open>Response_Reachable\<close> close them under every public method, as inductive relations.
  \<^item> \<open>Encoder\<close>, \<open>Encoder_Correct\<close>: the encoder and its bytes, capacity and absence of panics.
    \<open>Wire\<close>, \<open>Request_Roundtrip\<close>, \<open>Response_Roundtrip\<close>: decoding what was encoded. \<open>Framing\<close>: the
    framing decisions as statements about header lists.
  \<^item> \<open>Base64\<close>, \<open>Etag\<close>, \<open>Rust_Str\<close>, \<open>Str_Valid\<close>, \<open>Date\<close>, \<open>Ranges\<close>: the codec of \<^verbatim>\<open>base64.rs\<close>, entity
    tags (\<^verbatim>\<open>etag.rs\<close>), more of the standard library's strings with the fact that trimming and
    splitting keep UTF-8, HTTP dates (\<^verbatim>\<open>date.rs\<close>) and ranges (\<^verbatim>\<open>range.rs\<close>).
  \<^item> \<open>Content_Type\<close>, \<open>Content_Disposition\<close>, \<open>Multipart\<close>: media types, dispositions, and the incremental
    multipart parser with its buffer, offsets and states (\<^verbatim>\<open>multipart.rs\<close>). \<open>Refinement\<close> has the
    locale of a forward simulation; \<open>Multipart_Correct\<close> instantiates it with a parser on unread
    bytes; \<open>Multipart_Roundtrip\<close> parses what the builder wrote.
  \<^item> \<open>Uri\<close>, \<open>Uri_Correct\<close>, \<open>Uri_Recompose\<close>: URI references (\<^verbatim>\<open>uri.rs\<close>), the dot-segment algorithm of
    RFC 3986 as reference, and the components against the parsed text. \<open>Content_Location\<close> uses them.
  \<^item> \<open>Auth\<close>, \<open>Auth_Correct\<close>, \<open>Cookie\<close>, \<open>Cookie_Correct\<close>: credentials, challenges (\<^verbatim>\<open>auth.rs\<close>) and
    cookies (\<^verbatim>\<open>cookie.rs\<close>) with their round trips.
  \<^item> \<open>Header_List\<close>: the locales of comma-separated headers. \<open>trimmer\<close>, \<open>splitter\<close> and \<open>item_printer\<close> are
    the interfaces, \<open>list_printer\<close> and \<open>list_header\<close> extend them and hold the round trip.
    \<open>List_Headers\<close> and \<open>List_Headers_Correct\<close> interpret them on Content-Encoding, Content-Language,
    Vary, Upgrade and Expect, \<open>Digest_Fields\<close> on the four digest fields through a sublocale,
    \<open>Accept\<close> and \<open>Accept_Correct\<close> on the Accept headers.
  \<^item> \<open>Conditional\<close>, \<open>Cache\<close>, \<open>Error_Display\<close>: the conditional requests (\<^verbatim>\<open>conditional.rs\<close>), Cache-Control,
    Age and Expires (\<^verbatim>\<open>cache.rs\<close>), and the texts of the errors.
  \<^item> \<open>Stream_Body\<close>, \<open>Connection_Pool\<close>, \<open>Reverse_Proxy\<close>, \<open>Body_Relay\<close>: the reverse proxy of
    \<^verbatim>\<open>src/examples\<close>, which composes the library: the streaming receive loop, the pool of upstream
    connections as a step relation, the request it forwards, and the relayed response body.
    \<open>Example_Client\<close>, \<open>Example_Server\<close>: the client's URL parser and decompressing body loop, the
    servers' dates, response headers and \<open>UserData\<close> words. A socket is the list of the pieces that its
    reads return.

  \<^bold>\<open>What is proved.\<close> C1 to C7: decoding does not depend on how the bytes arrive, and what the
  encoder writes is read back, for single, pipelined and chunked requests and for responses with
  and without a body. C8, C9: the framing decisions. C10 to C12, C14, C15: on arbitrary input no
  method panics, limits hold in every reachable state, and what is handed out is valid and within
  the limits. C17 to C20 and C23 to C25, in the theories of their components: capacity estimates,
  number writers, absence of panics in the encoder, the round trip of \<open>Host\<close>, the buffer's slot
  interface, header operations, keep-alive. C26 shows where the code departs from its
  documentation, with the lemmas \<open>empty_chunk_ends_body\<close>, \<open>mark_eof_leaves_buffer\<close>,
  \<open>signed_status_code_accepted\<close> and \<open>method_after_streaming_forgotten\<close>. C27 to C30 are about the
  example programs: the streaming loop receives what \<open>decode\<close> returns, a forwarded request is the
  one received but for the headers a proxy may change, no two connections of the pool are lent
  at the same time, and a relayed body is the body the upstream sent. The header modules: Cache-Control (C13), URI references and dot segments (C16,
  C38), list headers (C21), Accept (C22), Base64 (C31), conditional requests (C32, C33), ranges
  (C34), multipart (C35 to C37), authentication (C39), cookies (C40). Their round trips start from
  a parsed value and are stated for valid UTF-8, which every Rust \<open>str\<close> is; where the parser
  accepts more than its printer keeps apart (Accept parameter names), the condition is in the
  statement and a lemma shows that it is needed.

  \<^bold>\<open>Bounds.\<close> \<open>usize\<close> and \<open>u64\<close> are natural numbers up to \<open>2^64 - 1\<close> with the checks of the source
  written out. A limit of a decoder is a \<open>usize\<close>, which is the hypothesis \<open>max_body_size l \<le> usize_max\<close>.
  The bracket counter of \<open>validate_ipv6_brackets\<close> is an \<open>i32\<close>; that it cannot overflow is where a buffer limit
  up to \<open>i32::MAX\<close> is assumed. The \<open>u16\<close> arithmetic on two-digit years is checked and its overflow is
  a panic of the model; the \<open>u16\<close> of a quality value never exceeds 1000.

  \<^bold>\<open>Not modelled.\<close> \<open>debug_assert!\<close> (its conditions are the guards of the reachability relations),
  allocation, plain accessors (they are the selectors of the records), the conversion of a quality
  value to \<open>f32\<close>, and what \<open>{:?}\<close> does to characters outside ASCII, which depends on the Unicode
  tables of the standard library and is a parameter of the error texts. Compression algorithms are
  outside the repository's core and are a parameter. Of the example programs, TLS, the event loops, the connection
  handling of \<^verbatim>\<open>io_uring\<close>, the page texts and \<open>select_encoding\<close> (which compares \<open>f32\<close> values) are left
  out. \<open>chunk_loop\<close>, \<open>drain_decompressor\<close> and \<open>pump_body\<close> of the client are partial functions, because
  whether they return depends on the decompressor; with \<open>NoCompression\<close> they do.
\<close>
section \<open>Sample messages\<close>

lemma request_line_parts_code [code]:
  "request_line_parts m t v \<longleftrightarrow> is_valid_method m \<and> is_valid_request_target t \<and> list_all (\<lambda>b. u8 b < 0x80) t
     \<and> is_valid_protocol_version v
     \<and> is_ok (and_then (parse_request_target_form t) (validate_request_target_for_method m))"
  by (cases "parse_request_target_form t") (auto simp: request_line_parts_def is_ok_def split: result.splits)

definition post_request :: Request where
  "post_request = \<lparr>rq_method = ''POST'', rq_uri = ''/form?x=1'', rq_version = ''HTTP/1.1'',
     rq_headers = [(''Host'', ''example.com'')], rq_body = Some ''hello''\<rparr>"

definition post_bytes :: string where
  "post_bytes = ''POST /form?x=1 HTTP/1.1'' @ CRLF @ ''Host: example.com'' @ CRLF @ ''Content-Length: 5'' @ CRLF @ CRLF @ ''hello''"

definition get_request :: Request where
  "get_request = \<lparr>rq_method = ''GET'', rq_uri = ''/'', rq_version = ''HTTP/1.1'',
     rq_headers = [(''Host'', ''example.com'')], rq_body = None\<rparr>"

definition get_bytes :: string where
  "get_bytes = ''GET / HTTP/1.1'' @ CRLF @ ''Host: example.com'' @ CRLF @ CRLF"

definition chunked_request :: Request where
  "chunked_request = \<lparr>rq_method = ''PUT'', rq_uri = ''/up'', rq_version = ''HTTP/1.1'',
     rq_headers = [(''Host'', ''example.com''), (''Transfer-Encoding'', ''chunked'')], rq_body = None\<rparr>"

definition ok_response :: Response where
  "ok_response = \<lparr>rs_version = ''HTTP/1.1'', rs_status_code = 200, rs_reason_phrase = ''OK'',
     rs_headers = [(''Server'', ''x'')], rs_body = Some ''hi'', rs_omit_body = False\<rparr>"

definition ok_bytes :: string where
  "ok_bytes = ''HTTP/1.1 200 OK'' @ CRLF @ ''Server: x'' @ CRLF @ ''Content-Length: 2'' @ CRLF @ CRLF @ ''hi''"

definition not_modified :: Response where
  "not_modified = \<lparr>rs_version = ''HTTP/1.1'', rs_status_code = 304, rs_reason_phrase = ''Not Modified'',
     rs_headers = [(''ETag'', ''x'')], rs_body = None, rs_omit_body = False\<rparr>"

definition not_modified_bytes :: string where
  "not_modified_bytes = ''HTTP/1.1 304 Not Modified'' @ CRLF @ ''ETag: x'' @ CRLF @ CRLF"

lemma sample_encodings:
  "encode_request post_request = Ok post_bytes" "encode_request get_request = Ok get_bytes"
  "encode_response ok_response = Ok ok_bytes" "encode_response not_modified = Ok not_modified_bytes"
  by code_simp+

lemma sample_sendable:
  "sendable default_limits post_request" "sendable default_limits get_request"
  "streamable default_limits chunked_request"
  "sendable_response default_limits ok_response" "sendable_response default_limits not_modified"
  by code_simp+

lemma default_body_limit: "max_body_size default_limits \<le> usize_max"
  by code_simp

section \<open>Requests on the wire\<close>

text \<open>
  C1. The requests a connection yields do not depend on how its bytes arrive: two ways to cut
  the same byte stream into pieces, with \<open>decode\<close> called after every piece until it asks for
  more, give the same requests, the same error if there is one, and the same decoder.
\<close>

theorem request_stream_segmentation:
  assumes "limits_ok l" "concat ds = concat es"
  shows "serve (rd_pump D) rd_feed_unchecked (rd_with_decompressor_and_limits d l) ds =
         serve (rd_pump D) rd_feed_unchecked (rd_with_decompressor_and_limits d l) es"
  using assms rd_ready_init [of l d]
  by (simp add: rd_feed_unchecked_app rd_conn.serve_concat limits_ok_def)

theorem request_stream_segmentation_witness:
  "limits_ok default_limits \<and>
   serve (rd_pump nc_decompressor) rd_feed_unchecked (rd_with_decompressor_and_limits nc_new default_limits)
     [''GET / HTTP/1.1'', CRLF @ ''Host: a'' @ CRLF, CRLF] =
   serve (rd_pump nc_decompressor) rd_feed_unchecked (rd_with_decompressor_and_limits nc_new default_limits)
     [''GET / HT'', ''TP/1.1'' @ [CR], [LF] @ ''Host: a'' @ CRLF @ CRLF]"
  by (intro conjI request_stream_segmentation limits_ok_default) simp

text \<open>
  C2. What \<open>encode_request\<close> writes, a fresh decoder reads back: the same method, target and
  version, the headers that were sent (with the \<open>Content-Length\<close> the encoder adds), the same
  body, exactly the encoded bytes consumed, and the decoder ready for the next request.
\<close>

theorem request_encode_decode:
  assumes "encode_request r = Ok out" "sendable l r" "max_body_size l \<le> usize_max"
  shows "rd_decode D (rd_feed_unchecked (rd_with_decompressor_and_limits d l) (out @ rest)) =
    (Ok (Some (received r)), rd_feed_unchecked (rd_with_decompressor_and_limits (decompressor_reset D d) l) rest)"
  unfolding fresh_decoder_feed by (rule request_roundtrip [OF assms])

theorem request_encode_decode_witness:
  "encode_request post_request = Ok post_bytes \<and> sendable default_limits post_request \<and>
   rd_decode nc_decompressor (rd_feed_unchecked (rd_with_decompressor_and_limits nc_new default_limits) (post_bytes @ ''GET'')) =
     (Ok (Some (received post_request)),
      rd_feed_unchecked (rd_with_decompressor_and_limits (decompressor_reset nc_decompressor nc_new) default_limits) ''GET'')"
  by (intro conjI sample_encodings sample_sendable request_encode_decode default_body_limit)

lemma fresh_decoder_empty: "fresh_decoder l d [] = rd_with_decompressor_and_limits d l"
  by (simp add: fresh_decoder_def rd_with_decompressor_and_limits_def)

text \<open>
  C3. Any number of encoded requests sent back to back, cut into pieces in any way, are served
  as exactly these requests in order, without error, and leave a fresh decoder.
\<close>

theorem pipelined_requests_served:
  assumes "list_all2 (\<lambda>r out. encode_request r = Ok out) rs outs" "list_all (sendable l) rs" "max_body_size l \<le> usize_max"
    "concat ds = concat outs"
  shows "\<exists>d'. serve (rd_pump D) rd_feed_unchecked (rd_with_decompressor_and_limits d l) ds =
    (map (\<lambda>r. Ok (Some (received r))) rs, False, rd_with_decompressor_and_limits d' l)"
proof -
  have "serve (rd_pump D) rd_feed_unchecked (rd_with_decompressor_and_limits d l) ds =
      rd_pump D (fresh_decoder l d (concat outs))"
    using rd_conn.serve_concat [OF rd_ready_init [OF assms(3)], of D d ds] assms(4)
    by (simp add: rd_feed_unchecked_app fresh_decoder_feed [symmetric])
  then show ?thesis using pipeline_roundtrip [OF assms(1-3), of D d] by (simp add: fresh_decoder_empty)
qed

theorem pipelined_requests_served_witness:
  "\<exists>d'. serve (rd_pump nc_decompressor) rd_feed_unchecked (rd_with_decompressor_and_limits nc_new default_limits)
     [post_bytes @ ''GE'', ''T'' @ drop 3 get_bytes] =
    (map (\<lambda>r. Ok (Some (received r))) [post_request, get_request], False, rd_with_decompressor_and_limits d' default_limits)"
  by (rule pipelined_requests_served [where outs = "[post_bytes, get_bytes]"])
    (simp_all add: sample_encodings sample_sendable default_body_limit, simp add: get_bytes_def)

text \<open>
  C4. A request head from \<open>encode_request_headers\<close> with \<open>Transfer-Encoding: chunked\<close>, followed
  by what \<open>encode_chunks\<close> makes of non-empty chunks, is decoded as that request with the
  concatenation of the chunks as its body.
\<close>

theorem chunked_request_encode_decode:
  assumes "encode_request_headers r = Ok head" "encode_chunks cs = (Ok chunks :: (string, EncodeError) result)" "streamable l r"
    "\<forall>c \<in> set cs. c \<noteq> [] \<and> length (to_base 16 (length c)) \<le> max_chunk_line_size l"
    "length (concat cs) \<le> max_body_size l" "max_body_size l \<le> usize_max" "1 \<le> max_chunk_line_size l"
  shows "rd_decode D (rd_feed_unchecked (rd_with_decompressor_and_limits d l) (head @ chunks @ rest)) =
    (Ok (Some (r\<lparr>rq_body := Some (concat cs)\<rparr>)),
     rd_feed_unchecked (rd_with_decompressor_and_limits (decompressor_reset D d) l) rest)"
  unfolding fresh_decoder_feed by (rule chunked_request_roundtrip [OF assms])

theorem chunked_request_encode_decode_witness:
  "\<exists>head chunks. encode_request_headers chunked_request = Ok head \<and> encode_chunks [''ab'', ''c''] = (Ok chunks :: (string, EncodeError) result)
   \<and> rd_decode nc_decompressor (rd_feed_unchecked (rd_with_decompressor_and_limits nc_new default_limits) (head @ chunks @ [])) =
    (Ok (Some (chunked_request\<lparr>rq_body := Some (concat [''ab'', ''c''])\<rparr>)),
     rd_feed_unchecked (rd_with_decompressor_and_limits (decompressor_reset nc_decompressor nc_new) default_limits) [])"
proof -
  have e: "encode_request_headers chunked_request =
      Ok (''PUT /up HTTP/1.1'' @ CRLF @ ''Host: example.com'' @ CRLF @ ''Transfer-Encoding: chunked'' @ CRLF @ CRLF)" by code_simp
  have c: "encode_chunks [''ab'', ''c''] =
      (Ok (''2'' @ CRLF @ ''ab'' @ CRLF @ ''1'' @ CRLF @ ''c'' @ CRLF @ ''0'' @ CRLF @ CRLF) :: (string, EncodeError) result)" by code_simp
  have l: "\<forall>c \<in> set [''ab'', ''c'']. c \<noteq> [] \<and> length (to_base 16 (length c)) \<le> max_chunk_line_size default_limits"
    "length (concat [''ab'', ''c'']) \<le> max_body_size default_limits" "1 \<le> max_chunk_line_size default_limits" by code_simp+
  show ?thesis
    by (intro exI conjI, rule e, rule c)
      (rule chunked_request_encode_decode [OF e c sample_sendable(3) l(1,2) default_body_limit l(3)])
qed

section \<open>Responses on the wire\<close>

lemma response_decoder_feed:
  "sd_feed_unchecked (sd_set_request_method (sd_with_decompressor_and_limits d l) m) buf = fresh_response l d (Some m) buf"
  "sd_feed_unchecked (sd_with_decompressor_and_limits d l) buf = fresh_response l d None buf"
  by (simp_all add: sd_feed_unchecked_def feed_unchecked_def fresh_response_def sd_with_decompressor_and_limits_def
      sd_set_request_method_def)

text \<open>
  C5. The responses a connection yields do not depend on how its bytes arrive: whatever the
  request method was set to, two ways to cut the same byte stream give the same responses, fail
  or do not fail together, and leave the same decoder when they do not fail. (The sizes inside
  the error of an over-long close-delimited body may differ.)
\<close>

theorem response_stream_segmentation:
  assumes "limits_ok l" "concat ds = concat es"
  shows "serve (sd_pump D) (\<lambda>so d. map_option (\<lambda>st. sd_feed_unchecked st d) so)
           (Some (sd_set_request_method (sd_with_decompressor_and_limits d l) m)) ds =
         serve (sd_pump D) (\<lambda>so d. map_option (\<lambda>st. sd_feed_unchecked st d) so)
           (Some (sd_set_request_method (sd_with_decompressor_and_limits d l) m)) es"
proof -
  have app: "(\<lambda>so d. map_option (\<lambda>st. sd_feed_unchecked st d) so) = sd_app_opt"
    by (intro ext) (simp add: sd_feed_unchecked_app sd_app_opt_def)
  have "sd_ready_opt (Some (sd_set_request_method (sd_with_decompressor_and_limits d l) m))"
    using sd_ready_init(2) [of l d m] assms(1) by (simp add: sd_ready_opt_def limits_ok_def)
  then show ?thesis unfolding app by (simp only: sd_conn.serve_concat assms(2))
qed

theorem response_stream_segmentation_witness:
  "limits_ok default_limits \<and>
   serve (sd_pump nc_decompressor) (\<lambda>so d. map_option (\<lambda>st. sd_feed_unchecked st d) so)
     (Some (sd_set_request_method (sd_with_decompressor_and_limits nc_new default_limits) ''GET''))
     [''HTTP/1.1 204 '', CRLF @ [CR], [LF]] =
   serve (sd_pump nc_decompressor) (\<lambda>so d. map_option (\<lambda>st. sd_feed_unchecked st d) so)
     (Some (sd_set_request_method (sd_with_decompressor_and_limits nc_new default_limits) ''GET''))
     [''HTTP/1.1'', '' 204 '' @ CRLF @ CRLF]"
  by (intro conjI response_stream_segmentation limits_ok_default) simp

text \<open>
  C6. A response with a body (or an announced length) that \<open>encode_response\<close> writes is read
  back: the same version, status and reason, the headers that were sent, the same body, exactly
  the encoded bytes consumed, and the decoder ready for the next response.
\<close>

theorem response_encode_decode:
  assumes "encode_response r = Ok out" "sendable_response l r" "max_body_size l \<le> usize_max"
    "response_status_has_body (rs_status_code r)" "\<not> rs_omit_body r"
    "rs_body r \<noteq> None \<or> has_header (rs_headers r) ''Content-Length''"
    "m \<noteq> ''HEAD''" "m \<noteq> ''CONNECT''"
  shows "sd_decode D (sd_feed_unchecked (sd_set_request_method (sd_with_decompressor_and_limits d l) m) (out @ rest)) =
    (Ok (Some (r\<lparr>rs_headers := response_headers_sent r, rs_body := Some (body_bytes (rs_body r))\<rparr>)),
     sd_feed_unchecked (sd_with_decompressor_and_limits (decompressor_reset D d) l) rest)"
  using response_roundtrip [OF assms(1-6), of "Some m" D d rest] assms(7,8) by (simp add: response_decoder_feed)

theorem response_encode_decode_witness:
  "encode_response ok_response = Ok ok_bytes \<and> sendable_response default_limits ok_response \<and>
   sd_decode nc_decompressor
     (sd_feed_unchecked (sd_set_request_method (sd_with_decompressor_and_limits nc_new default_limits) ''GET'') (ok_bytes @ ''H'')) =
    (Ok (Some (ok_response\<lparr>rs_headers := response_headers_sent ok_response, rs_body := Some (body_bytes (rs_body ok_response))\<rparr>)),
     sd_feed_unchecked (sd_with_decompressor_and_limits (decompressor_reset nc_decompressor nc_new) default_limits) ''H'')"
  by (intro conjI sample_encodings sample_sendable response_encode_decode default_body_limit)
    (simp_all add: ok_response_def response_status_has_body_def)

text \<open>
  C7. A response without a body on the wire, because its status has none or because it answers
  \<open>HEAD\<close> with \<open>omit_body\<close> set, is read back with its headers and without a body even when the
  headers announce a length, and the bytes after it are left for the next response.
\<close>

theorem bodyless_response_encode_decode:
  assumes "encode_response r = Ok out" "sendable_response l r" "max_body_size l \<le> usize_max"
    "m = ''HEAD'' \<and> rs_omit_body r \<or> \<not> response_status_has_body (rs_status_code r)"
  shows "sd_decode D (sd_feed_unchecked (sd_set_request_method (sd_with_decompressor_and_limits d l) m) (out @ rest)) =
    (Ok (Some (r\<lparr>rs_headers := response_headers_sent r, rs_body := None, rs_omit_body := False\<rparr>)),
     sd_feed_unchecked (sd_with_decompressor_and_limits (decompressor_reset D d) l) rest)"
  using bodyless_response_roundtrip [OF assms(1-3), of "Some m" D d rest] assms(4) by (simp add: response_decoder_feed)

theorem bodyless_response_encode_decode_witness:
  "encode_response not_modified = Ok not_modified_bytes \<and> sendable_response default_limits not_modified \<and>
   sd_decode nc_decompressor
     (sd_feed_unchecked (sd_set_request_method (sd_with_decompressor_and_limits nc_new default_limits) ''GET'') (not_modified_bytes @ [])) =
    (Ok (Some (not_modified\<lparr>rs_headers := response_headers_sent not_modified, rs_body := None, rs_omit_body := False\<rparr>)),
     sd_feed_unchecked (sd_with_decompressor_and_limits (decompressor_reset nc_decompressor nc_new) default_limits) [])"
  by (intro conjI sample_encodings sample_sendable bodyless_response_encode_decode default_body_limit)
    (simp add: not_modified_def response_status_has_body_def)

section \<open>Framing\<close>

lemma nth_part_request_line:
  assumes "request_line_parts m t v"
  shows "nth_part 0 (m @ SP # t @ SP # v) = m" "nth_part 2 (m @ SP # t @ SP # v) = v"
proof -
  have c: "SP \<notin> set m" "SP \<notin> set t" "SP \<notin> set v"
    using assms method_no_SP target_no_SP protocol_version_chars by (auto simp: request_line_parts_def)
  show "nth_part 0 (m @ SP # t @ SP # v) = m" "nth_part 2 (m @ SP # t @ SP # v) = v"
    by (simp_all add: nth_part_def split_on_SP_3 [OF c] Let_def)
qed

text \<open>
  C8. How the request decoder frames a body. An HTTP/1.1 request needs exactly one \<open>Host\<close> that
  is empty or parses. \<open>CONNECT\<close> opens a tunnel. Otherwise the body is chunked exactly when the
  only transfer coding is \<open>chunked\<close>, the version is HTTP/1.1 and there is no \<open>Content-Length\<close>;
  it has length \<open>n\<close> exactly when there is no transfer coding and every \<open>Content-Length\<close> element
  is the number \<open>n\<close>, within the limit; it is empty exactly when there is neither; every other
  combination is rejected.
\<close>

theorem request_body_framing:
  assumes "request_line_parts m t v"
  shows "rq_body_kind hs l (m @ SP # t @ SP # v) = Ok bk \<longleftrightarrow>
     (v = ''HTTP/1.1'' \<longrightarrow> host_ok hs) \<and> (if m = ''CONNECT'' then bk = BodyTunnel else request_framing bk hs l v)"
proof -
  have k: "rq_body_kind hs l (m @ SP # t @ SP # v) =
      and_then (if v = ''HTTP/1.1'' then check_host_headers hs else Ok ())
        (\<lambda>_. if m = ''CONNECT'' then Ok BodyTunnel else rq_determine_body_kind hs l v)"
    by (simp only: rq_body_kind_def nth_part_request_line [OF assms] Let_def)
  have c: "check_host_headers hs = Ok () \<longleftrightarrow> host_ok hs" by (rule check_host_headers_iff)
  show ?thesis unfolding k rq_determine_body_kind_iff [symmetric] c [symmetric]
    by (cases "v = ''HTTP/1.1''"; cases "m = ''CONNECT''"; cases "check_host_headers hs") auto
qed

theorem request_body_framing_witness:
  "rq_body_kind [(''Host'', ''a''), (''Content-Length'', ''5, 5'')] default_limits (''PUT'' @ SP # ''/'' @ SP # ''HTTP/1.1'')
     = Ok (ContentLength 5)"
proof -
  have p: "request_line_parts ''PUT'' ''/'' ''HTTP/1.1''" by code_simp
  have "host_ok [(''Host'', ''a''), (''Content-Length'', ''5, 5'')]" by code_simp
  moreover have "request_framing (ContentLength 5) [(''Host'', ''a''), (''Content-Length'', ''5, 5'')] default_limits ''HTTP/1.1''"
    unfolding request_framing.simps by code_simp
  ultimately show ?thesis unfolding request_body_framing [OF p] by simp
qed

text \<open>
  C9. How the response decoder frames a body. Responses to \<open>HEAD\<close> and responses with a status
  that allows none have no body; a 2xx response to \<open>CONNECT\<close> opens a tunnel, and its
  \<open>Transfer-Encoding\<close> and \<open>Content-Length\<close> headers are dropped. Otherwise the body is chunked
  exactly when the last transfer coding is \<open>chunked\<close>, ends with the connection exactly when
  there is another last coding or no framing header at all, and has length \<open>n\<close> exactly when
  there is no coding and every \<open>Content-Length\<close> element is \<open>n\<close>, within the limit; a coding in
  an HTTP/1.0 response, and one beside a \<open>Content-Length\<close>, is rejected.
\<close>

theorem response_body_framing:
  "(fst (rs_determine_body_kind rm (Some line) hs l n) = Ok bk \<longleftrightarrow>
     (if rm = Some ''HEAD'' \<or> n div 100 = 1 \<or> n = 204 \<or> n = 304 then bk = BodyNone
      else if rm = Some ''CONNECT'' \<and> 200 \<le> n \<and> n < 300 then bk = BodyTunnel
      else response_framing bk hs l \<and> (nth_part 0 line = ''HTTP/1.1'' \<or> header_values ''Transfer-Encoding'' hs = [])))
   \<and> snd (rs_determine_body_kind rm (Some line) hs l n) =
     (if rm = Some ''CONNECT'' \<and> 200 \<le> n \<and> n < 300 \<and> n \<noteq> 204
      then filter (\<lambda>h. \<not> eq_ignore_ascii_case (fst h) ''Transfer-Encoding'' \<and> \<not> eq_ignore_ascii_case (fst h) ''Content-Length'') hs
      else hs)"
proof -
  have sb: "status_has_body n \<longleftrightarrow> \<not> (n div 100 = 1 \<or> n = 204 \<or> n = 304)"
    by (auto simp: status_has_body_def)
  show ?thesis
  proof (cases "rm = Some ''HEAD'' \<or> \<not> status_has_body n \<or> (rm = Some ''CONNECT'' \<and> 200 \<le> n \<and> n < 300)")
    case False
    then have c: "rm \<noteq> Some ''HEAD''" "status_has_body n" "\<not> (rm = Some ''CONNECT'' \<and> 200 \<le> n \<and> n < 300)" by blast+
    from rs_determine_body_kind_iff(1) [OF this, of line hs l bk] rs_determine_body_kind_iff(2) [OF this, of line hs l] c sb
    show ?thesis by auto
  next
    case True
    with sb show ?thesis by (auto simp: rs_determine_body_kind_def)
  qed
qed

section \<open>Decoders on untrusted input\<close>



text \<open>
  C11. Whatever was fed before, a request that \<open>decode\<close> returns has a valid method, target and
  version, a target whose form fits the method, and only valid, trimmed headers.
\<close>

theorem decoded_request_valid:
  assumes "rd_reachable D l st" "max_body_size l \<le> usize_max" "rd_decode D st = (Ok (Some q), st')"
  shows "is_valid_method (rq_method q) \<and> is_valid_request_target (rq_uri q) \<and> is_valid_protocol_version (rq_version q)
    \<and> (\<exists>f. parse_request_target_form (rq_uri q) = Ok f \<and> validate_request_target_for_method (rq_method q) f = Ok ())
    \<and> list_all (\<lambda>h. is_valid_header_name (fst h) \<and> is_valid_field_value (snd h) \<and> trim_ows (snd h) = snd h) (rq_headers q)"
proof -
  have g: "rd_good l st" by (rule rd_reachable_good [OF assms(1,2)])
  then have "request_ok q"
    using rd_decode_inv [OF _ _ _ assms(3)] assms(2) by (auto simp: rd_good_def)
  then show ?thesis by (simp add: request_ok_def request_line_parts_def header_ok_def list_all_iff)
qed

lemma get_fed_reachable:
  "rd_reachable nc_decompressor default_limits (snd (rd_feed (rd_with_decompressor_and_limits nc_new default_limits) get_bytes))"
  by (rule rd_reachable.feed [OF rd_reachable.init _ surjective_pairing]) code_simp

theorem decoded_request_valid_witness:
  "\<exists>q st'. rd_decode nc_decompressor (snd (rd_feed (rd_with_decompressor_and_limits nc_new default_limits) get_bytes)) = (Ok (Some q), st')
    \<and> is_valid_method (rq_method q) \<and> is_valid_request_target (rq_uri q) \<and> is_valid_protocol_version (rq_version q)
    \<and> (\<exists>f. parse_request_target_form (rq_uri q) = Ok f \<and> validate_request_target_for_method (rq_method q) f = Ok ())
    \<and> list_all (\<lambda>h. is_valid_header_name (fst h) \<and> is_valid_field_value (snd h) \<and> trim_ows (snd h) = snd h) (rq_headers q)"
proof -
  let ?st = "snd (rd_feed (rd_with_decompressor_and_limits nc_new default_limits) get_bytes)"
  have "fst (rd_decode nc_decompressor ?st) = Ok (Some get_request)" by code_simp
  then have d: "rd_decode nc_decompressor ?st = (Ok (Some get_request), snd (rd_decode nc_decompressor ?st))"
    by (metis surjective_pairing)
  show ?thesis by (intro exI, rule conjI, rule d) (rule decoded_request_valid [OF get_fed_reachable default_body_limit d])
qed

text \<open>No message whose body exceeds \<open>max_body_size\<close> is handed out.\<close>

lemma request_body_limit:
  assumes "serve (rd_pump D) rd_feed_unchecked (rd_with_decompressor_and_limits d l) ds = (rs, b, t)"
    "Ok (Some q) \<in> set rs" "rq_body q = Some body" "max_body_size l \<le> usize_max"
  shows "length body \<le> max_body_size l"
proof -
  let ?st = "rd_app (rd_with_decompressor_and_limits d l) (concat ds)"
  have "rd_pump D ?st = (rs, b, t)"
    using rd_conn.serve_concat [OF rd_ready_init [OF assms(4)], of D d ds] assms(1) by (simp add: rd_feed_unchecked_app)
  moreover have "rd_ready ?st" using rd_ready_init [OF assms(4)] by simp
  moreover have "rd_counted ?st" by (simp add: rd_counted_def rd_with_decompressor_and_limits_def)
  ultimately have "body_within (max_body_size (rd_limits ?st)) q" by (rule rd_pump_within [OF _ _ _ assms(2)])
  then show ?thesis using assms(3) by (simp add: body_within_def rd_with_decompressor_and_limits_def)
qed

lemma rd_limits_hold:
  assumes "rd_reachable D l st" "max_body_size l \<le> usize_max"
  shows "length (rd_buf st) \<le> max_buffer_size l \<and> rd_pending st \<le> length (rd_buf st)
    \<and> length (rd_headers st) \<le> max_headers_count l
    \<and> body_consumed (rd_body_decoder st) + pending_body (rd_phase st) \<le> max_body_size l
    \<and> length (trailers (rd_body_decoder st)) \<le> max_headers_count l
    \<and> list_all (trailer_ok (declared_trailers (rd_body_decoder st))) (trailers (rd_body_decoder st))"
  using rd_reachable_good [OF assms] unfolding rd_good_def rd_inv_def body_inv_def trailers_ok_def buffer_inv_def by auto




lemma ok_fed_reachable:
  "sd_reachable nc_decompressor default_limits (snd (sd_feed (sd_with_decompressor_and_limits nc_new default_limits) ok_bytes))"
  by (rule sd_reachable.feed [OF sd_reachable.init _ surjective_pairing]) code_simp


text \<open>No message whose body exceeds \<open>max_body_size\<close> is handed out.\<close>

lemma response_body_limit:
  assumes "serve (sd_pump D) (\<lambda>so d. map_option (\<lambda>st. sd_feed_unchecked st d) so)
      (Some (sd_set_request_method (sd_with_decompressor_and_limits d l) m)) ds = (rs, b, t)"
    "Some q \<in> set rs" "rs_body q = Some body" "max_body_size l \<le> usize_max"
  shows "length body \<le> max_body_size l"
proof -
  let ?init = "sd_set_request_method (sd_with_decompressor_and_limits d l) m"
  let ?st = "sd_app ?init (concat ds)"
  have app: "(\<lambda>so d. map_option (\<lambda>st. sd_feed_unchecked st d) so) = sd_app_opt"
    by (intro ext) (simp add: sd_feed_unchecked_app sd_app_opt_def)
  have r: "sd_ready ?init" by (rule sd_ready_init(2) [OF assms(4)])
  then have "sd_pump D (Some ?st) = (rs, b, t)"
    using sd_conn.serve_concat [of "Some ?init" D ds] assms(1) unfolding app by (simp add: sd_ready_opt_def)
  moreover have "sd_ready ?st" using r by simp
  moreover have "sd_counted ?st"
    by (simp add: sd_counted_def sd_with_decompressor_and_limits_def sd_set_request_method_def)
  ultimately have "response_within (max_body_size (sd_limits ?st)) q" by (rule sd_pump_within [OF _ refl _ _ assms(2)])
  then show ?thesis using assms(3) by (simp add: response_within_def sd_with_decompressor_and_limits_def sd_set_request_method_def)
qed

lemma sd_limits_hold:
  assumes "sd_reachable D l st" "max_body_size l \<le> usize_max"
  shows "length (sd_buf st) \<le> max_buffer_size l \<and> sd_pending st \<le> length (sd_buf st)
    \<and> length (sd_headers st) \<le> max_headers_count l
    \<and> body_consumed (sd_body_decoder st) + pending_body (sd_phase st) \<le> max_body_size l
    \<and> length (trailers (sd_body_decoder st)) \<le> max_headers_count l
    \<and> list_all (trailer_ok (declared_trailers (sd_body_decoder st))) (trailers (sd_body_decoder st))"
  using sd_reachable_good [OF assms] unfolding sd_good_def sd_inv_def body_inv_def trailers_ok_def buffer_inv_def by auto



section \<open>Behaviours that differ from the documentation\<close>

text \<open>
  C26. An origin-form target whose query holds a URL is compared with \<open>Host\<close> as if it were an
  absolute form: \<open>encode_request\<close> rejects every HTTP/1.1 request whose target, though it begins
  with a slash, has \<open>://\<close> in it followed by an authority other than the \<open>Host\<close> value.
\<close>

theorem origin_form_with_url_rejected:
  assumes "rq_version r = ''HTTP/1.1''" "header_values ''Host'' (rq_headers r) = [v]"
    "starts_with (rq_uri r) ''/''" "contains_sub (rq_uri r) ''://''"
    "extract_authority_from_uri (rq_uri r) = Some a" "a \<noteq> []" "\<not> eq_ignore_ascii_case a v"
  shows "encode_request r \<noteq> Ok out"
proof
  assume "encode_request r = Ok out"
  then have "validate_host_header r = Ok ()" by (auto simp: encode_request_def request_checks_def result_iff)
  moreover have "map snd (filter (\<lambda>h. eq_ignore_ascii_case (fst h) ''Host'') (rq_headers r)) = [v]"
    using assms(2) by (simp add: header_values_def)
  ultimately have "host_matches_absolute r v = Ok ()" using assms(1) by (auto simp: validate_host_header_def result_iff)
  with assms(4-7) show False by (simp add: host_matches_absolute_def)
qed

definition redirect_request :: Request where
  "redirect_request = \<lparr>rq_method = ''GET'', rq_uri = ''/r?u=http://x/'', rq_version = ''HTTP/1.1'',
     rq_headers = [(''Host'', ''a'')], rq_body = None\<rparr>"

theorem origin_form_with_url_rejected_witness:
  "parse_request_target_form (rq_uri redirect_request) = Ok Origin \<and> encode_request redirect_request \<noteq> Ok []"
proof
  show "parse_request_target_form (rq_uri redirect_request) = Ok Origin" by code_simp
  show "encode_request redirect_request \<noteq> Ok []"
    by (rule origin_form_with_url_rejected [where v = "''a''" and a = "''x''"]) code_simp+
qed

text \<open>
  An empty chunk given to \<open>encode_chunks\<close> ends the body for the receiver: the chunks before
  it are the body, and the frames of the chunks after it stay in the buffer as the start of
  another message.
\<close>

theorem empty_chunk_ends_body:
  assumes "encode_request_headers r = Ok head" "encode_chunks (as @ [] # bs) = (Ok chunks :: (string, EncodeError) result)"
    "streamable l r" "\<forall>c \<in> set as. c \<noteq> [] \<and> length (to_base 16 (length c)) \<le> max_chunk_line_size l"
    "length (concat as) \<le> max_body_size l" "max_body_size l \<le> usize_max" "1 \<le> max_chunk_line_size l"
    "\<forall>c \<in> set bs. length c \<le> usize_max"
  shows "rd_decode D (rd_feed_unchecked (rd_with_decompressor_and_limits d l) (head @ chunks)) =
    (Ok (Some (r\<lparr>rq_body := Some (concat as)\<rparr>)),
     rd_feed_unchecked (rd_with_decompressor_and_limits (decompressor_reset D d) l)
       (concat (map chunk_frame bs) @ ''0'' @ CRLF @ CRLF))"
proof -
  have "length c \<le> length (concat as)" if "c \<in> set as" for c using that by (induction as) auto
  then have len: "\<forall>c \<in> set as. length c \<le> usize_max" using assms(5,6) by (metis order_trans)
  then have all: "\<forall>c \<in> set (as @ [] # bs). length c \<le> usize_max" using assms(8) by auto
  let ?first = "concat (map chunk_frame as) @ ''0'' @ CRLF @ CRLF"
  let ?rest = "concat (map chunk_frame bs) @ ''0'' @ CRLF @ CRLF"
  have first: "encode_chunks as = (Ok ?first :: (string, EncodeError) result)" by (rule encode_chunks_frame [OF len])
  have "chunk_frame [] = ''0'' @ CRLF @ CRLF" by (simp add: chunk_frame_def to_base_0)
  with encode_chunks_frame [OF all, where ?'a = EncodeError] assms(2) have chunks: "chunks = ?first @ ?rest" by simp
  show ?thesis
    unfolding fresh_decoder_feed chunks by (rule chunked_request_roundtrip [OF assms(1) first assms(3-7)])
qed

theorem empty_chunk_ends_body_witness:
  "\<exists>head chunks. encode_request_headers chunked_request = Ok head
   \<and> encode_chunks ([''ab''] @ [] # [''c'']) = (Ok chunks :: (string, EncodeError) result)
   \<and> rd_decode nc_decompressor (rd_feed_unchecked (rd_with_decompressor_and_limits nc_new default_limits) (head @ chunks)) =
    (Ok (Some (chunked_request\<lparr>rq_body := Some (concat [''ab''])\<rparr>)),
     rd_feed_unchecked (rd_with_decompressor_and_limits (decompressor_reset nc_decompressor nc_new) default_limits)
       (concat (map chunk_frame [''c'']) @ ''0'' @ CRLF @ CRLF))"
proof -
  have e: "encode_request_headers chunked_request =
      Ok (''PUT /up HTTP/1.1'' @ CRLF @ ''Host: example.com'' @ CRLF @ ''Transfer-Encoding: chunked'' @ CRLF @ CRLF)" by code_simp
  have c: "encode_chunks ([''ab''] @ [] # [''c'']) =
      (Ok (''2'' @ CRLF @ ''ab'' @ CRLF @ ''0'' @ CRLF @ CRLF @ ''1'' @ CRLF @ ''c'' @ CRLF @ ''0'' @ CRLF @ CRLF) :: (string, EncodeError) result)"
    by code_simp
  have l: "\<forall>c \<in> set [''ab'']. c \<noteq> [] \<and> length (to_base 16 (length c)) \<le> max_chunk_line_size default_limits"
    "length (concat [''ab'']) \<le> max_body_size default_limits" "1 \<le> max_chunk_line_size default_limits"
    "\<forall>c \<in> set [''c'']. length c \<le> usize_max" by code_simp+
  show ?thesis
    by (intro exI conjI, rule e, rule c)
      (rule empty_chunk_ends_body [OF e c sample_sendable(3) l(1,2) default_body_limit l(3,4)])
qed

text \<open>
  \<open>mark_eof\<close> does not make the buffered bytes part of a close-delimited body: the next
  \<open>decode\<close> returns the body as it was before them and leaves them in the buffer.
\<close>

theorem mark_eof_leaves_buffer:
  assumes "sd_decoded_head st = Some h" "sd_decoded_body_kind st = Some CloseDelimited" "sd_phase st = BodyCloseDelimited"
    "sd_decode D (sd_mark_eof (sd_feed_unchecked st bytes)) = (q, st')"
  shows "q = Ok (Some \<lparr>rs_version = sh_version h, rs_status_code = sh_status_code h, rs_reason_phrase = sh_reason_phrase h,
      rs_headers = sh_headers h, rs_body = Some (sd_decoded_body st), rs_omit_body = False\<rparr>)
    \<and> sd_buf st' = sd_buf st @ bytes"
  using assms
  by (auto simp: sd_decode_def sd_decode_body_def sd_mark_eof_def sd_feed_unchecked_def feed_unchecked_def
      sd_close_delimited_complete sd_build_response_def rs_from_raw_parts_def Let_def)

definition open_body :: "NoCompression ResponseDecoder" where
  "open_body = snd (sd_decode nc_decompressor (sd_feed_unchecked sd_new (''HTTP/1.1 200 OK'' @ CRLF @ CRLF @ ''ab'')))"

theorem mark_eof_leaves_buffer_witness:
  "\<exists>(h :: ResponseHead) q st'. sd_decode nc_decompressor (sd_mark_eof (sd_feed_unchecked open_body ''cd'')) = (q, st')
    \<and> q = Ok (Some \<lparr>rs_version = sh_version h, rs_status_code = sh_status_code h, rs_reason_phrase = sh_reason_phrase h,
      rs_headers = sh_headers h, rs_body = Some (sd_decoded_body open_body), rs_omit_body = False\<rparr>)
    \<and> sd_buf st' = sd_buf open_body @ ''cd''"
proof -
  let ?r = "sd_decode nc_decompressor (sd_mark_eof (sd_feed_unchecked open_body ''cd''))"
  have h: "sd_decoded_head open_body = Some \<lparr>sh_version = ''HTTP/1.1'', sh_status_code = 200, sh_reason_phrase = ''OK'', sh_headers = []\<rparr>"
    "sd_decoded_body_kind open_body = Some CloseDelimited" "sd_phase open_body = BodyCloseDelimited" by code_simp+
  have r: "?r = (fst ?r, snd ?r)" by simp
  from mark_eof_leaves_buffer [OF h r] show ?thesis using r by blast
qed

text \<open>
  The status line accepts a plus sign in front of every status code, as the number is read
  with \<open>str::parse\<close>.
\<close>

theorem signed_status_code_accepted:
  assumes "status_line_parts v n reason" "n < 1000"
  shows "check_status_line (v @ SP # (CHR ''+'' # nat_to_dec n) @ SP # reason) = Ok ()"
proof -
  have v: "SP \<notin> set v" "CR \<notin> set v" "LF \<notin> set v" and p: "is_valid_status_code n" "is_valid_protocol_version v"
    and r: "reason = [] \<or> is_valid_reason_phrase reason"
    using assms(1) protocol_version_chars [of v] by (auto simp: status_line_parts_def)
  note d = digits_no_sep [OF nat_to_dec_digits [of n]]
  have rc: "CR \<notin> set reason" "LF \<notin> set reason"
    using r field_vchar_not_crlf by (auto simp: is_valid_reason_phrase_def list_all_iff is_valid_field_vchar_def)
  have "parse_u16 (nat_to_dec n) = Some n"
    using assms(2) by (simp add: nat_to_dec_def from_str_radix_to_base u16_max_def)
  moreover have "CHR ''+'' \<notin> set (nat_to_dec n)" using nat_to_dec_digits [of n] by (auto simp: list_all_iff is_ascii_digit_def)
  ultimately have n: "parse_u16 (CHR ''+'' # nat_to_dec n) = Some n"
    using nat_to_dec_neq_Nil [of n] by (cases "nat_to_dec n") (auto simp: from_str_radix_def Let_def)
  have sp: "splitn 3 SP (v @ SP # (CHR ''+'' # nat_to_dec n) @ SP # reason) = [v, CHR ''+'' # nat_to_dec n, reason]"
    using v(1) d by (intro splitn_3_three) auto
  show ?thesis unfolding check_status_line_def sp using v d rc n p r by auto
qed

theorem signed_status_code_accepted_witness:
  "check_status_line (''HTTP/1.1'' @ SP # (CHR ''+'' # nat_to_dec 204) @ SP # ''No Content'') = Ok ()"
  by (rule signed_status_code_accepted) code_simp+

text \<open>
  A method set after a message was read with the streaming calls has no effect on the next
  head: \<open>decode_headers\<close> clears it before it reads the status line.
\<close>

theorem method_after_streaming_forgotten:
  assumes "sd_phase st = PhaseComplete"
  shows "sd_decode_headers D (sd_set_request_method st m) = sd_decode_headers D st"
  using assms
  unfolding sd_set_request_method_def sd_decode_headers.simps [of D st]
    sd_decode_headers.simps [of D "st\<lparr>sd_request_method := Some m\<rparr>"]
  by (simp add: sd_step_def sd_next_message_def)

theorem method_after_streaming_forgotten_witness:
  "sd_decode_headers nc_decompressor (sd_set_request_method (snd (sd_decode_headers nc_decompressor
     (sd_feed_unchecked sd_new (''HTTP/1.1 204 '' @ CRLF @ CRLF)))) ''HEAD'') =
   sd_decode_headers nc_decompressor (snd (sd_decode_headers nc_decompressor (sd_feed_unchecked sd_new (''HTTP/1.1 204 '' @ CRLF @ CRLF))))"
  by (rule method_after_streaming_forgotten) code_simp

text \<open>\<open>decode\<close> after part of the body was taken with \<open>consume_body\<close> returns the rest as the whole body.\<close>

definition mixed_scenario :: "(Request option, Error) result \<times> NoCompression RequestDecoder" where
  "mixed_scenario =
     (let st = snd (rd_decode nc_decompressor (rd_feed_unchecked rd_new
            (''PUT / HTTP/1.1'' @ CRLF @ ''Host: a'' @ CRLF @ ''Content-Length: 4'' @ CRLF @ CRLF)));
          st = snd (rd_consume_body (rd_feed_unchecked st ''ab'') 2)
      in rd_decode nc_decompressor (rd_feed_unchecked st ''cd''))"

lemma mixed_calls_truncate_body:
  "fst mixed_scenario = Ok (Some \<lparr>rq_method = ''PUT'', rq_uri = ''/'', rq_version = ''HTTP/1.1'',
      rq_headers = [(''Host'', ''a''), (''Content-Length'', ''4'')], rq_body = Some ''cd''\<rparr>)"
  by code_simp

end
